(* ===== verification/Prelude.thy ===== *)
theory Prelude
  imports Main
begin

text \<open>
  Shared by every theory of the development: the collections of rewrite rules the component
  proofs use, insertion-ordered property lists (JavaScript objects and records keyed by author
  data), row tables with an auto-increment key (the SQLite tables of
  \<^verbatim>\<open>apps/runtime/src/workflows/tables.ts\<close>), and the interface of such a table as a locale.
\<close>

named_theorems props_simps \<open>lookups in property lists\<close>
named_theorems table_simps \<open>lookups in row tables\<close>
named_theorems row_simps \<open>rows after the store's writes\<close>

section \<open>Sums and options\<close>

abbreviation is_inr :: "'e + 'a \<Rightarrow> bool" where
  "is_inr r \<equiv> (case r of Inl _ \<Rightarrow> False | Inr _ \<Rightarrow> True)"

lemma first_failure_None [simp]:
  "((case x of None \<Rightarrow> y | Some u \<Rightarrow> Some u) = None) = (x = None \<and> y = None)"
  by (cases x) auto

lemma guard_None [simp]: "((if b then Some x else y) = None) = (\<not> b \<and> y = None)"
  by simp

lemma find_Some_iff_member:
  "distinct (map f xs) \<Longrightarrow> (find (\<lambda>x. f x = k) xs = Some y) = (y \<in> set xs \<and> f y = k)"
  by (induction xs) (auto simp: image_iff)

lemma find_None_iff_member: "(find P xs = None) = (\<forall>x \<in> set xs. \<not> P x)"
  by (induction xs) auto

lemma find_append: "find P (xs @ ys) = (case find P xs of Some x \<Rightarrow> Some x | None \<Rightarrow> find P ys)"
  by (induction xs) auto

lemma find_map_key:
  "(\<And>x. f (g x) = f x) \<Longrightarrow>
   find (\<lambda>x. f x = k) (map g xs) = map_option g (find (\<lambda>x. f x = k) xs)"
  by (induction xs) auto

section \<open>Decimal text\<close>

text \<open>A number in a template string, and \<open>String(n)\<close>.\<close>

fun nat_text :: "nat \<Rightarrow> string" where
  "nat_text n = (if n < 10 then [char_of (48 + n)] else nat_text (n div 10) @ [char_of (48 + n mod 10)])"

declare nat_text.simps [simp del]

lemma nat_text_nonempty: "nat_text n \<noteq> []"
  by (subst nat_text.simps) simp

lemma digit_inj: "a < 10 \<Longrightarrow> b < 10 \<Longrightarrow> (char_of (48 + a) :: char) = char_of (48 + b) \<Longrightarrow> a = (b :: nat)"
proof -
  assume small: "a < 10" "b < 10" and same: "(char_of (48 + a) :: char) = char_of (48 + b)"
  from same have "(of_char (char_of (48 + a) :: char) :: nat) = of_char (char_of (48 + b) :: char)" by simp
  then show ?thesis using small by simp
qed

lemma nat_text_inj: "nat_text m = nat_text n \<Longrightarrow> m = n"
proof (induction m arbitrary: n rule: nat_text.induct)
  case (1 m)
  have long: "1 < length (nat_text (k div 10) @ [c])" for k c
    using nat_text_nonempty [of "k div 10"] by (cases "nat_text (k div 10)") auto
  consider "m < 10" "n < 10" | "m < 10" "\<not> n < 10" | "\<not> m < 10" "n < 10" | "\<not> m < 10" "\<not> n < 10"
    by blast
  then show ?case
  proof cases
    case 1
    then show ?thesis
      using \<open>nat_text m = nat_text n\<close> nat_text.simps [of m] nat_text.simps [of n] digit_inj by simp
  next
    case 2
    then show ?thesis
      using \<open>nat_text m = nat_text n\<close> long [of n] nat_text.simps [of m] nat_text.simps [of n]
      by (metis One_nat_def less_irrefl list.size(3,4) add_0)
  next
    case 3
    then show ?thesis
      using \<open>nat_text m = nat_text n\<close> long [of m] nat_text.simps [of m] nat_text.simps [of n]
      by (metis One_nat_def less_irrefl list.size(3,4) add_0)
  next
    case 4
    then have "nat_text (m div 10) @ [char_of (48 + m mod 10)] = nat_text (n div 10) @ [char_of (48 + n mod 10)]"
      using \<open>nat_text m = nat_text n\<close> nat_text.simps [of m] nat_text.simps [of n] by metis
    then have "nat_text (m div 10) = nat_text (n div 10)" and "m mod 10 = n mod 10"
      using digit_inj [of "m mod 10" "n mod 10"] by simp_all
    then show ?thesis using 1(1) [OF 4(1), of "n div 10"] by (metis div_mult_mod_eq)
  qed
qed

section \<open>Property lists\<close>

text \<open>
  A JavaScript object with string keys, as its own enumerable properties in enumeration order.
  \<open>put\<close> is assignment: an existing key keeps its place, a new one goes to the end.
\<close>

type_synonym 'v props = "(string \<times> 'v) list"

fun put :: "'k \<Rightarrow> 'v \<Rightarrow> ('k \<times> 'v) list \<Rightarrow> ('k \<times> 'v) list" where
  "put k v [] = [(k, v)]"
| "put k v ((k', v') # ps) = (if k' = k then (k, v) # ps else (k', v') # put k v ps)"

definition keys :: "('k \<times> 'v) list \<Rightarrow> 'k list" where
  "keys ps = map fst ps"

lemma keys_simps [simp]: "keys [] = []" "keys (p # ps) = fst p # keys ps"
  by (simp_all add: keys_def)

lemma map_of_put [simp, props_simps]: "map_of (put k v ps) j = (if j = k then Some v else map_of ps j)"
  by (induction k v ps rule: put.induct) auto

lemma set_keys_put [simp]: "set (keys (put k v ps)) = insert k (set (keys ps))"
  by (induction k v ps rule: put.induct) auto

lemma distinct_keys_put: "distinct (keys ps) \<Longrightarrow> distinct (keys (put k v ps))"
  by (induction k v ps rule: put.induct) auto

lemma keys_put_member: "k \<in> set (keys ps) \<Longrightarrow> keys (put k v ps) = keys ps"
  by (induction k v ps rule: put.induct) auto

lemma map_of_eq_None_keys: "(map_of ps k = None) = (k \<notin> set (keys ps))"
  by (simp add: keys_def map_of_eq_None_iff)

lemma map_of_Some_keys: "map_of ps k = Some v \<Longrightarrow> k \<in> set (keys ps)"
  by (force simp: keys_def dest: map_of_SomeD)

section \<open>Row tables\<close>

text \<open>
  A table whose primary key is \<open>integer('id').primaryKey({ autoIncrement: true })\<close>: rows in the
  order they were inserted, and the next key, which is never reused.
\<close>

record 'r table =
  next_id :: nat
  rows :: "'r list"

definition tab_insert :: "(nat \<Rightarrow> 'r) \<Rightarrow> 'r table \<Rightarrow> 'r \<times> 'r table" where
  "tab_insert mk t =
     (let r = mk (next_id t) in (r, \<lparr>next_id = Suc (next_id t), rows = rows t @ [r]\<rparr>))"

definition tab_get :: "('r \<Rightarrow> nat) \<Rightarrow> 'r table \<Rightarrow> nat \<Rightarrow> 'r option" where
  "tab_get idf t i = find (\<lambda>r. idf r = i) (rows t)"

definition tab_update :: "('r \<Rightarrow> nat) \<Rightarrow> nat \<Rightarrow> ('r \<Rightarrow> 'r) \<Rightarrow> 'r table \<Rightarrow> 'r table" where
  "tab_update idf i f t = t\<lparr>rows := map (\<lambda>r. if idf r = i then f r else r) (rows t)\<rparr>"

definition tab_keep :: "('r \<Rightarrow> bool) \<Rightarrow> 'r table \<Rightarrow> 'r table" where
  "tab_keep P t = t\<lparr>rows := filter P (rows t)\<rparr>"

definition tab_wf :: "('r \<Rightarrow> nat) \<Rightarrow> 'r table \<Rightarrow> bool" where
  "tab_wf idf t =
     (sorted_wrt (<) (map idf (rows t)) \<and> (\<forall>r \<in> set (rows t). idf r < next_id t))"

definition tab_empty :: "'r table" where
  "tab_empty = \<lparr>next_id = 1, rows = []\<rparr>"

text \<open>
  What a component relies on when it reads and writes a table: lookups after a write, the listing
  order, and fresh keys. \<open>keeps\<close> are the row changes that leave the key alone, which the source's
  \<open>Partial<Omit<Row, 'id'>>\<close> patches are by their type.
\<close>

locale row_store =
  fixes row_id :: "'r \<Rightarrow> nat"
    and get :: "'t \<Rightarrow> nat \<Rightarrow> 'r option"
    and ins :: "(nat \<Rightarrow> 'r) \<Rightarrow> 't \<Rightarrow> 'r \<times> 't"
    and upd :: "nat \<Rightarrow> ('r \<Rightarrow> 'r) \<Rightarrow> 't \<Rightarrow> 't"
    and list_all_rows :: "'t \<Rightarrow> 'r list"
    and wf :: "'t \<Rightarrow> bool"
  assumes get_iff: "wf t \<Longrightarrow> (get t i = Some r) = (r \<in> set (list_all_rows t) \<and> row_id r = i)"
    and listed_distinct: "wf t \<Longrightarrow> sorted_wrt (<) (map row_id (list_all_rows t))"
    and list_upd: "list_all_rows (upd i f t) =
          map (\<lambda>r. if row_id r = i then f r else r) (list_all_rows t)"
    and wf_upd: "wf t \<Longrightarrow> (\<And>r. row_id (f r) = row_id r) \<Longrightarrow> wf (upd i f t)"
    and list_ins: "list_all_rows (snd (ins mk t)) = list_all_rows t @ [fst (ins mk t)]"
    and wf_ins: "wf t \<Longrightarrow> (\<And>n. row_id (mk n) = n) \<Longrightarrow> wf (snd (ins mk t))"
    and ins_fresh: "wf t \<Longrightarrow> (\<And>n. row_id (mk n) = n) \<Longrightarrow>
          (\<forall>r \<in> set (list_all_rows t). row_id r < row_id (fst (ins mk t)))"
    and ins_row: "(\<And>n. row_id (mk n) = n) \<Longrightarrow> fst (ins mk t) = mk (row_id (fst (ins mk t)))"
begin

lemma get_id: "wf t \<Longrightarrow> get t i = Some r \<Longrightarrow> row_id r = i"
  by (simp add: get_iff)

lemma get_listed: "wf t \<Longrightarrow> get t i = Some r \<Longrightarrow> r \<in> set (list_all_rows t)"
  by (simp add: get_iff)

lemma listed_get: "wf t \<Longrightarrow> r \<in> set (list_all_rows t) \<Longrightarrow> get t (row_id r) = Some r"
  by (simp add: get_iff)

lemma get_upd:
  assumes "wf t" and "\<And>r. row_id (f r) = row_id r"
  shows "get (upd i f t) j = (if j = i then map_option f (get t j) else get t j)"
proof -
  have wf': "wf (upd i f t)" using assms by (rule wf_upd)
  have "(get (upd i f t) j = Some s) =
        ((if j = i then map_option f (get t j) else get t j) = Some s)" for s
    using assms by (auto simp: get_iff [OF wf'] get_iff [OF assms(1)] list_upd)
  then show ?thesis by (metis not_Some_eq)
qed

lemma get_ins:
  assumes "wf t" and "\<And>n. row_id (mk n) = n"
  shows "get (snd (ins mk t)) j =
         (if j = row_id (fst (ins mk t)) then Some (fst (ins mk t)) else get t j)"
proof -
  have wf': "wf (snd (ins mk t))" using assms by (rule wf_ins)
  have fresh: "\<forall>r \<in> set (list_all_rows t). row_id r < row_id (fst (ins mk t))"
    using assms by (rule ins_fresh)
  have "(get (snd (ins mk t)) j = Some s) =
        ((if j = row_id (fst (ins mk t)) then Some (fst (ins mk t)) else get t j) = Some s)" for s
    using fresh by (auto simp: get_iff [OF wf'] get_iff [OF assms(1)] list_ins)
  then show ?thesis by (metis not_Some_eq)
qed

lemma get_fresh:
  assumes "wf t" and "\<And>n. row_id (mk n) = n"
  shows "get t (row_id (fst (ins mk t))) = None"
  using ins_fresh [OF assms] get_iff [OF assms(1)] by (metis less_irrefl not_Some_eq)

text \<open>The same write to every row a list asks for: the write may be repeated without effect.\<close>

lemma wf_fold_upd:
  assumes "wf t" and "\<And>r. row_id (f r) = row_id r"
  shows "wf (fold (\<lambda>x. if P x then upd (k x) f else id) xs t)"
  using assms(1) by (induction xs arbitrary: t) (simp_all add: wf_upd assms(2))

lemma get_fold_upd:
  assumes "wf t" and keeps: "\<And>r. row_id (f r) = row_id r" and idem: "\<And>r. f (f r) = f r"
  shows "get (fold (\<lambda>x. if P x then upd (k x) f else id) xs t) j =
         (if \<exists>x \<in> set xs. P x \<and> k x = j then map_option f (get t j) else get t j)"
  using assms(1)
proof (induction xs arbitrary: t)
  case (Cons x xs)
  have twice: "map_option f (map_option f a) = map_option f a" for a
    by (cases a) (simp_all add: idem)
  show ?case
  proof (cases "P x")
    case True
    then show ?thesis
      using Cons.IH [OF wf_upd [OF Cons.prems keeps], of "k x"] get_upd [OF Cons.prems keeps, of "k x" j]
      by (auto simp: twice)
  qed (use Cons in auto)
qed simp

lemma listed_inj: "wf t \<Longrightarrow> r \<in> set (list_all_rows t) \<Longrightarrow> s \<in> set (list_all_rows t) \<Longrightarrow>
    row_id r = row_id s \<Longrightarrow> r = s"
  by (metis listed_get option.inject)

end

lemma sorted_wrt_less_distinct: "sorted_wrt (<) (xs :: nat list) \<Longrightarrow> distinct xs"
  by (simp add: strict_sorted_iff)

lemma tab_row_store:
  "row_store idf (tab_get idf) tab_insert (tab_update idf) rows (tab_wf idf)"
proof
  fix t :: "'a table" and i r
  assume "tab_wf idf t"
  then have "distinct (map idf (rows t))"
    by (simp add: tab_wf_def sorted_wrt_less_distinct)
  then show "(tab_get idf t i = Some r) = (r \<in> set (rows t) \<and> idf r = i)"
    by (simp add: tab_get_def find_Some_iff_member)
next
  fix t :: "'a table" and i f
  assume wf: "tab_wf idf t" and keeps: "\<And>r. idf (f r) = idf r"
  have "map idf (rows (tab_update idf i f t)) = map idf (rows t)"
    by (auto simp: tab_update_def keeps)
  moreover have "\<forall>r \<in> set (rows (tab_update idf i f t)). idf r < next_id (tab_update idf i f t)"
    using wf keeps by (auto simp: tab_wf_def tab_update_def)
  ultimately show "tab_wf idf (tab_update idf i f t)"
    using wf by (simp add: tab_wf_def)
qed (auto simp: tab_wf_def tab_insert_def tab_update_def Let_def sorted_wrt_append less_Suc_eq)

lemma rows_tab_keep [simp]: "rows (tab_keep P t) = filter P (rows t)"
  by (simp add: tab_keep_def)

lemma next_id_tab_keep [simp]: "next_id (tab_keep P t) = next_id t"
  by (simp add: tab_keep_def)

lemma tab_wf_filter: "tab_wf f t \<Longrightarrow> tab_wf f (tab_keep P t)"
  by (auto simp: tab_wf_def tab_keep_def sorted_wrt_filter sorted_wrt_map)

lemma tab_wf_update: "tab_wf f t \<Longrightarrow> (\<And>r. f (g r) = f r) \<Longrightarrow> tab_wf f (tab_update f i g t)"
  by (rule row_store.wf_upd [OF tab_row_store])

lemma find_key_None: "(tab_get f t i = None) = (i \<notin> f ` set (rows t))"
  by (auto simp: tab_get_def find_None_iff_member)

lemma map_update_same: "(\<And>r. h (g r) = h r) \<Longrightarrow> map h (rows (tab_update f i g t)) = map h (rows t)"
  by (simp add: tab_update_def)

lemma tab_update_absent: "i \<notin> f ` set (rows t) \<Longrightarrow> tab_update f i g t = t"
proof -
  assume "i \<notin> f ` set (rows t)"
  then have "map (\<lambda>r. if f r = i then g r else r) (rows t) = rows t" by (intro map_idI) auto
  then show ?thesis by (simp add: tab_update_def)
qed

lemma tab_insert_simps:
  "fst (tab_insert mk t) = mk (next_id t)"
  "rows (snd (tab_insert mk t)) = rows t @ [mk (next_id t)]"
  "next_id (snd (tab_insert mk t)) = Suc (next_id t)"
  by (simp_all add: tab_insert_def Let_def)

lemma tab_wf_insert: "tab_wf f t \<Longrightarrow> (\<And>i. f (mk i) = i) \<Longrightarrow> tab_wf f (snd (tab_insert mk t))"
  by (rule row_store.wf_ins [OF tab_row_store])

lemma tab_get_iff: "tab_wf f t \<Longrightarrow> (tab_get f t i = Some r) = (r \<in> set (rows t) \<and> f r = i)"
  by (rule row_store.get_iff [OF tab_row_store])

lemma tab_wf_distinct: "tab_wf f t \<Longrightarrow> distinct (map f (rows t))"
  by (simp add: tab_wf_def sorted_wrt_less_distinct)

lemma tab_wf_inj: "tab_wf f t \<Longrightarrow> r \<in> set (rows t) \<Longrightarrow> s \<in> set (rows t) \<Longrightarrow> f r = f s \<Longrightarrow> r = s"
  by (rule row_store.listed_inj [OF tab_row_store])

lemma tab_wf_less: "tab_wf f t \<Longrightarrow> r \<in> set (rows t) \<Longrightarrow> f r < next_id t"
  by (simp add: tab_wf_def)

end
