(* ===== verification/Js_Value.thy ===== *)
theory Js_Value
  imports Prelude
begin

text \<open>
  The values author code hands to the engine, as the engine can observe them, and the two gates
  they pass: the isolated copy every pure callback receives
  (\<^verbatim>\<open>state/isolation.ts\<close>) and the serialization boundary in front of every
  \<^verbatim>\<open>*_json\<close> column (\<^verbatim>\<open>state/serializable.ts\<close>).

  A value is a finite tree. An object that encloses itself is shown where it recurs by
  \<open>JBack n\<close>, the object \<open>n\<close> levels up; \<open>Js_Heap\<close> has the same walk over an object graph with
  identities and proves that cutting the graph this way loses nothing the walk can see. Numbers
  are integers (the safe range) with the IEEE values that JSON treats apart; \<open>JHole\<close> is a hole of
  a sparse array and only occurs as an element. The contents of exotic objects (a Map's entries, a
  buffer's bytes) are not shown.
\<close>

section \<open>Values\<close>

datatype jsnum = Finite int | NegZero | NaN | PosInf | NegInf

text \<open>
  What \<open>Object.getPrototypeOf\<close> and the built-in class tests can tell apart. \<open>ClassInstance c t\<close> is an
  instance of class \<open>c\<close>; \<open>t\<close> says whether a \<open>then\<close> method is inherited, as a Promise inherits one.
\<close>

datatype obj_class =
    PlainProto | NullProto | DateObj string | MapObj | SetObj | RegExpObj | ErrorObj
  | TypedArray nat | ArrayBufferObj | ClassInstance string bool

datatype jsval =
    JUndefined | JNull | JBool bool | JNum jsnum | JStr string | JSymbol | JBigInt int
  | JFun "(string \<times> jsval) list"
  | JArr "jsval list" | JHole
  | JObj obj_class "(string \<times> jsval) list"
  | JBack nat

datatype js_type =
  TUndefined | TObject | TBoolean | TNumber | TString | TSymbol | TBigInt | TFunction

fun js_typeof :: "jsval \<Rightarrow> js_type" where
  "js_typeof JUndefined = TUndefined"
| "js_typeof JHole = TUndefined"
| "js_typeof JNull = TObject"
| "js_typeof (JBool _) = TBoolean"
| "js_typeof (JNum _) = TNumber"
| "js_typeof (JStr _) = TString"
| "js_typeof JSymbol = TSymbol"
| "js_typeof (JBigInt _) = TBigInt"
| "js_typeof (JFun _) = TFunction"
| "js_typeof (JArr _) = TObject"
| "js_typeof (JObj _ _) = TObject"
| "js_typeof (JBack _) = TObject"

text \<open>Reading an own property; what is not there is \<open>undefined\<close>.\<close>

definition own_or_undefined :: "(string \<times> jsval) list \<Rightarrow> string \<Rightarrow> jsval" where
  "own_or_undefined ps k = (case map_of ps k of None \<Rightarrow> JUndefined | Some v \<Rightarrow> v)"

fun get_prop :: "jsval \<Rightarrow> string \<Rightarrow> jsval" where
  "get_prop (JObj c ps) k = own_or_undefined ps k"
| "get_prop (JFun ps) k = own_or_undefined ps k"
| "get_prop _ k = JUndefined"

text \<open>\<open>isPlainObject\<close> of \<^verbatim>\<open>state/reducers.ts\<close>, giving the properties when it holds.\<close>

fun plain_props :: "jsval \<Rightarrow> (string \<times> jsval) list option" where
  "plain_props (JObj PlainProto ps) = Some ps"
| "plain_props (JObj NullProto ps) = Some ps"
| "plain_props _ = None"

definition is_plain_object :: "jsval \<Rightarrow> bool" where
  "is_plain_object v = (plain_props v \<noteq> None)"

datatype shape = ShapeNull | ShapeArray | ShapeType js_type

fun describe_shape :: "jsval \<Rightarrow> shape" where
  "describe_shape JNull = ShapeNull"
| "describe_shape (JArr _) = ShapeArray"
| "describe_shape v = ShapeType (js_typeof v)"

text \<open>\<open>isThenable\<close> of \<^verbatim>\<open>state/pure.ts\<close>: an object or function whose \<open>then\<close> is a function.\<close>

fun is_thenable :: "jsval \<Rightarrow> bool" where
  "is_thenable (JObj (ClassInstance c True) ps) =
     (case map_of ps ''then'' of None \<Rightarrow> True | Some v \<Rightarrow> js_typeof v = TFunction)"
| "is_thenable (JObj c ps) = (js_typeof (own_or_undefined ps ''then'') = TFunction)"
| "is_thenable (JFun ps) = (js_typeof (own_or_undefined ps ''then'') = TFunction)"
| "is_thenable _ = False"

section \<open>The serialization boundary\<close>

datatype seg = Index nat | Key string

type_synonym jspath = "string \<times> seg list"

definition at_index :: "jspath \<Rightarrow> nat \<Rightarrow> jspath" where
  "at_index p i = (fst p, snd p @ [Index i])"

definition at_key :: "jspath \<Rightarrow> string \<Rightarrow> jspath" where
  "at_key p k = (fst p, snd p @ [Key k])"

datatype detail =
    NonFiniteNumber jsnum | UndefinedValue | FunctionValue | SymbolValue | BigIntValue
  | CycleValue | RejectedClass obj_class | ClassInstanceValue

text \<open>\<open>UnserializableValueError\<close>: the path to the offending member and what is wrong there.\<close>

type_synonym unserializable = "jspath \<times> detail"

text \<open>The \<open>rejections\<close> table, in the order it is tried.\<close>

fun rejected_class :: "obj_class \<Rightarrow> bool" where
  "rejected_class (DateObj _) = True"
| "rejected_class MapObj = True"
| "rejected_class SetObj = True"
| "rejected_class RegExpObj = True"
| "rejected_class ErrorObj = True"
| "rejected_class (TypedArray _) = True"
| "rejected_class ArrayBufferObj = True"
| "rejected_class _ = False"

definition class_rejection :: "obj_class \<Rightarrow> detail option" where
  "class_rejection c =
     (if rejected_class c then Some (RejectedClass c)
      else if c = PlainProto \<or> c = NullProto then None
      else Some ClassInstanceValue)"

text \<open>
  \<open>walk\<close>: the first member that cannot be stored, in visiting order. \<open>forEach\<close> does not visit the
  holes of a sparse array.
\<close>

fun walk :: "jspath \<Rightarrow> jsval \<Rightarrow> unserializable option"
  and walk_elems :: "jspath \<Rightarrow> nat \<Rightarrow> jsval list \<Rightarrow> unserializable option"
  and walk_props :: "jspath \<Rightarrow> (string \<times> jsval) list \<Rightarrow> unserializable option" where
  "walk p JNull = None"
| "walk p (JStr _) = None"
| "walk p (JBool _) = None"
| "walk p (JNum n) =
     (case n of Finite _ \<Rightarrow> None | NegZero \<Rightarrow> None | _ \<Rightarrow> Some (p, NonFiniteNumber n))"
| "walk p JUndefined = Some (p, UndefinedValue)"
| "walk p JHole = Some (p, UndefinedValue)"
| "walk p (JFun _) = Some (p, FunctionValue)"
| "walk p JSymbol = Some (p, SymbolValue)"
| "walk p (JBigInt _) = Some (p, BigIntValue)"
| "walk p (JBack _) = Some (p, CycleValue)"
| "walk p (JArr es) = walk_elems p 0 es"
| "walk p (JObj c ps) =
     (case class_rejection c of Some d \<Rightarrow> Some (p, d) | None \<Rightarrow> walk_props p ps)"
| "walk_elems p i [] = None"
| "walk_elems p i (e # es) =
     (case (if e = JHole then None else walk (at_index p i) e) of
        Some u \<Rightarrow> Some u
      | None \<Rightarrow> walk_elems p (Suc i) es)"
| "walk_props p [] = None"
| "walk_props p ((k, v) # ps) =
     (case walk (at_key p k) v of Some u \<Rightarrow> Some u | None \<Rightarrow> walk_props p ps)"

text \<open>\<open>checkSerializable\<close>: why a value cannot be stored, or \<open>None\<close>. The path names the root.\<close>

definition check_serializable :: "jsval \<Rightarrow> string \<Rightarrow> unserializable option" where
  "check_serializable v root = walk (root, []) v"

section \<open>Isolated copies\<close>

text \<open>
  \<open>structuredClone\<close> refuses functions and symbols and turns a class instance into a plain object;
  \<open>deepFreeze\<close> then refuses a typed array that has elements, as \<open>Object.freeze\<close> does.
\<close>

datatype isolation_error = NotCloneable | NotFreezable

fun cloned_class :: "obj_class \<Rightarrow> obj_class" where
  "cloned_class NullProto = PlainProto"
| "cloned_class (ClassInstance _ _) = PlainProto"
| "cloned_class c = c"

fun clone :: "jsval \<Rightarrow> jsval option"
  and clone_elems :: "jsval list \<Rightarrow> jsval list option"
  and clone_props :: "(string \<times> jsval) list \<Rightarrow> (string \<times> jsval) list option" where
  "clone (JFun _) = None"
| "clone JSymbol = None"
| "clone (JArr es) = map_option JArr (clone_elems es)"
| "clone (JObj c ps) = map_option (JObj (cloned_class c)) (clone_props ps)"
| "clone v = Some v"
| "clone_elems [] = Some []"
| "clone_elems (e # es) =
     (case clone e of None \<Rightarrow> None | Some e' \<Rightarrow> map_option ((#) e') (clone_elems es))"
| "clone_props [] = Some []"
| "clone_props ((k, v) # ps) =
     (case clone v of None \<Rightarrow> None | Some v' \<Rightarrow> map_option ((#) (k, v')) (clone_props ps))"

text \<open>\<open>deepFreeze\<close> succeeds: no typed array with elements is reached.\<close>

fun freezable :: "jsval \<Rightarrow> bool"
  and freezable_props :: "(string \<times> jsval) list \<Rightarrow> bool" where
  "freezable (JArr es) = (\<forall>e \<in> set es. freezable e)"
| "freezable (JObj c ps) = ((case c of TypedArray n \<Rightarrow> n = 0 | _ \<Rightarrow> True) \<and> freezable_props ps)"
| "freezable v = True"
| "freezable_props [] = True"
| "freezable_props ((k, v) # ps) = (freezable v \<and> freezable_props ps)"

definition isolate :: "jsval \<Rightarrow> isolation_error + jsval" where
  "isolate v =
     (case clone v of
        None \<Rightarrow> Inl NotCloneable
      | Some c \<Rightarrow> if freezable c then Inr c else Inl NotFreezable)"

section \<open>JSON columns\<close>

datatype json =
    JsonNull | JsonBool bool | JsonNum int | JsonStr string
  | JsonArr "json list" | JsonObj "(string \<times> json) list"

text \<open>
  The document \<open>JSON.stringify\<close> writes: \<open>None\<close> where it writes nothing (or throws, on a bigint or a
  cycle). Inside an array nothing becomes \<open>null\<close>; a member with nothing to write is dropped.
\<close>

definition json_of_num :: "jsnum \<Rightarrow> json" where
  "json_of_num n = (case n of Finite i \<Rightarrow> JsonNum i | NegZero \<Rightarrow> JsonNum 0 | _ \<Rightarrow> JsonNull)"

fun to_json :: "jsval \<Rightarrow> json option"
  and to_json_elems :: "jsval list \<Rightarrow> json list"
  and to_json_props :: "(string \<times> jsval) list \<Rightarrow> (string \<times> json) list" where
  "to_json JNull = Some JsonNull"
| "to_json (JBool b) = Some (JsonBool b)"
| "to_json (JNum n) = Some (json_of_num n)"
| "to_json (JStr s) = Some (JsonStr s)"
| "to_json (JArr es) = Some (JsonArr (to_json_elems es))"
| "to_json (JObj c ps) =
     (case c of DateObj d \<Rightarrow> Some (JsonStr d) | _ \<Rightarrow> Some (JsonObj (to_json_props ps)))"
| "to_json _ = None"
| "to_json_elems [] = []"
| "to_json_elems (e # es) =
     (case to_json e of None \<Rightarrow> JsonNull | Some j \<Rightarrow> j) # to_json_elems es"
| "to_json_props [] = []"
| "to_json_props ((k, v) # ps) =
     (case to_json v of None \<Rightarrow> to_json_props ps | Some j \<Rightarrow> (k, j) # to_json_props ps)"

fun from_json :: "json \<Rightarrow> jsval"
  and from_json_props :: "(string \<times> json) list \<Rightarrow> (string \<times> jsval) list" where
  "from_json JsonNull = JNull"
| "from_json (JsonBool b) = JBool b"
| "from_json (JsonNum i) = JNum (Finite i)"
| "from_json (JsonStr s) = JStr s"
| "from_json (JsonArr js) = JArr (map from_json js)"
| "from_json (JsonObj ps) = JObj PlainProto (from_json_props ps)"
| "from_json_props [] = []"
| "from_json_props ((k, j) # ps) = (k, from_json j) # from_json_props ps"

text \<open>
  The two things the gate accepts that the column does not keep: a hole of a sparse array and the
  sign of a zero.
\<close>

fun lossless :: "jsval \<Rightarrow> bool"
  and lossless_props :: "(string \<times> jsval) list \<Rightarrow> bool" where
  "lossless JHole = False"
| "lossless (JNum n) = (n \<noteq> NegZero)"
| "lossless (JArr es) = (\<forall>e \<in> set es. lossless e)"
| "lossless (JObj c ps) = lossless_props ps"
| "lossless v = True"
| "lossless_props [] = True"
| "lossless_props ((k, v) # ps) = (lossless v \<and> lossless_props ps)"

section \<open>Properties of the gates\<close>

text \<open>Accepted, as a predicate on the value alone.\<close>

fun serializable :: "jsval \<Rightarrow> bool"
  and serializable_elems :: "jsval list \<Rightarrow> bool"
  and serializable_props :: "(string \<times> jsval) list \<Rightarrow> bool" where
  "serializable JNull = True"
| "serializable (JStr _) = True"
| "serializable (JBool _) = True"
| "serializable (JNum n) = (n \<noteq> NaN \<and> n \<noteq> PosInf \<and> n \<noteq> NegInf)"
| "serializable (JArr es) = serializable_elems es"
| "serializable (JObj c ps) = ((c = PlainProto \<or> c = NullProto) \<and> serializable_props ps)"
| "serializable _ = False"
| "serializable_elems [] = True"
| "serializable_elems (e # es) = ((e = JHole \<or> serializable e) \<and> serializable_elems es)"
| "serializable_props [] = True"
| "serializable_props ((k, v) # ps) = (serializable v \<and> serializable_props ps)"

lemma serializable_elems_iff: "serializable_elems es = (\<forall>e \<in> set es. e = JHole \<or> serializable e)"
  by (induction es) auto

lemma serializable_props_iff: "serializable_props ps = (\<forall>(k, v) \<in> set ps. serializable v)"
  by (induction ps) auto

lemma class_rejection_None: "(class_rejection c = None) = (c = PlainProto \<or> c = NullProto)"
  by (cases c) (auto simp: class_rejection_def)

lemma walk_None_iff:
  "(walk p v = None) = serializable v"
  "(walk_elems p i es = None) = serializable_elems es"
  "(walk_props p ps = None) = serializable_props ps"
proof (induction p v and p i es and p ps rule: walk_walk_elems_walk_props.induct)
  case (4 p n)
  show ?case by (cases n) auto
next
  case (12 p c ps)
  show ?case
  proof (cases "class_rejection c")
    case None
    moreover from None have "c = PlainProto \<or> c = NullProto" by (simp add: class_rejection_None)
    ultimately show ?thesis using 12 by simp
  next
    case (Some d)
    then have "\<not> (c = PlainProto \<or> c = NullProto)"
      using class_rejection_None [of c] by simp
    with Some show ?thesis by simp
  qed
next
  case (14 p i e es)
  show ?case
  proof (cases "(if e = JHole then None else walk (at_index p i) e) = None")
    case True
    with "14.IH" show ?thesis by (auto split: if_splits)
  next
    case False
    with "14.IH"(1) show ?thesis by (auto split: if_splits)
  qed
next
  case (16 p k v ps)
  then show ?case by (cases "walk (at_key p k) v") auto
qed simp_all

lemma check_serializable_None: "(check_serializable v r = None) = serializable v"
  by (simp add: check_serializable_def walk_None_iff)

lemma check_serializable_accepts [simp]: "serializable v \<Longrightarrow> check_serializable v r = None"
  by (simp add: check_serializable_None)

text \<open>Whatever passes the gate can be isolated: the copy differs only in its prototypes.\<close>

lemma serializable_clone:
  "serializable v \<Longrightarrow> \<exists>c. clone v = Some c \<and> freezable c"
  "serializable_elems es \<Longrightarrow> \<exists>cs. clone_elems es = Some cs \<and> (\<forall>c \<in> set cs. freezable c)"
  "serializable_props ps \<Longrightarrow> \<exists>cs. clone_props ps = Some cs \<and> freezable_props cs"
  by (induction v and es and ps rule: serializable_serializable_elems_serializable_props.induct)
     auto

corollary serializable_isolate: "serializable v \<Longrightarrow> \<exists>c. isolate v = Inr c"
  using serializable_clone(1) [of v] by (auto simp: isolate_def)

text \<open>What a column gives back for a lossless value that passed the gate is its isolated copy.\<close>

lemma json_round_trip_parts:
  "serializable v \<Longrightarrow> lossless v \<Longrightarrow> \<exists>j. to_json v = Some j \<and> clone v = Some (from_json j)"
  "serializable_elems es \<Longrightarrow> \<forall>e \<in> set es. lossless e \<Longrightarrow>
     clone_elems es = Some (map from_json (to_json_elems es))"
  "serializable_props ps \<Longrightarrow> lossless_props ps \<Longrightarrow>
     clone_props ps = Some (from_json_props (to_json_props ps))"
proof (induction v and es and ps rule: serializable_serializable_elems_serializable_props.induct)
  case (4 n)
  then show ?case by (cases n) (auto simp: json_of_num_def)
next
  case (6 c ps)
  then show ?case by (cases c) auto
qed auto

lemma from_json_serializable:
  "serializable (from_json j)"
  "serializable_props (from_json_props ps)"
  by (induction j and ps rule: from_json_from_json_props.induct)
     (auto simp: serializable_elems_iff)

lemma from_json_lossless:
  "lossless (from_json j)"
  "lossless_props (from_json_props ps)"
  by (induction j and ps rule: from_json_from_json_props.induct) auto

lemma to_from_json:
  "to_json (from_json j) = Some j"
  "to_json_props (from_json_props ps) = ps"
proof (induction j and ps rule: from_json_from_json_props.induct)
  case (5 js)
  then have "to_json_elems (map from_json js) = js" by (induction js) auto
  then show ?case by simp
qed (auto simp: json_of_num_def)

lemma clone_from_json:
  "clone (from_json j) = Some (from_json j)"
  using json_round_trip_parts(1) [OF from_json_serializable(1) from_json_lossless(1), of j]
  by (auto simp: to_from_json)

lemma isolate_from_json [simp]: "isolate (from_json j) = Inr (from_json j)"
  using serializable_isolate [OF from_json_serializable(1), of j]
  by (auto simp: isolate_def clone_from_json split: if_splits)

text \<open>
  C12: storing a value that passed \<open>checkSerializable\<close> and reading its column back yields exactly
  the isolated copy a pure callback receives, unless the value has a hole or a negative zero.
\<close>

theorem stored_value_reads_back_isolated:
  assumes "check_serializable v root = None" and "lossless v"
  shows "\<exists>j. to_json v = Some j \<and> isolate v = Inr (from_json j)"
proof -
  obtain j where j: "to_json v = Some j" "clone v = Some (from_json j)"
    using json_round_trip_parts(1) [of v] assms by (auto simp: check_serializable_None)
  moreover have "\<exists>c. isolate v = Inr c"
    using assms(1) by (auto intro: serializable_isolate simp: check_serializable_None)
  ultimately show ?thesis by (auto simp: isolate_def split: if_splits)
qed

theorem stored_value_reads_back_isolated_witness:
  "\<exists>j. to_json (JObj NullProto [(''a'', JArr [JNum (Finite 3)])]) = Some j \<and>
       isolate (JObj NullProto [(''a'', JArr [JNum (Finite 3)])]) = Inr (from_json j)"
  by (rule stored_value_reads_back_isolated [of _ "''state''"]) simp_all

end
