(* ===== verification/Js_Heap.thy ===== *)
theory Js_Heap
  imports Js_Value
begin

text \<open>
  The same two gates over a graph of objects with identities, which is what the source walks:
  \<^verbatim>\<open>walk\<close> of \<^verbatim>\<open>state/serializable.ts\<close> with its set of ancestors, and
  \<^verbatim>\<open>deepFreeze\<close> of \<^verbatim>\<open>state/isolation.ts\<close> with its set of seen objects. Both stop on
  cyclic graphs. \<open>unfold_graph\<close> cuts a graph into the tree of \<open>Js_Value\<close>; the walk over the graph
  and the walk over the tree agree, so the engine's theories may work with trees.
\<close>

section \<open>Object graphs\<close>

datatype hval =
    HUndefined | HNull | HBool bool | HNum jsnum | HStr string | HSymbol | HBigInt int
  | HHole | HRef nat

datatype hobj =
    HFunction
  | HArray "hval list"
  | HObject obj_class "(string \<times> hval) list"

type_synonym heap = "(nat \<times> hobj) list"

text \<open>The objects of the heap that are not on the list: what shrinks on every descent.\<close>

definition unvisited :: "heap \<Rightarrow> nat list \<Rightarrow> nat" where
  "unvisited h seen = length (filter (\<lambda>(a, _). a \<notin> set seen) h)"

lemma unvisited_mono: "set seen \<subseteq> set seen' \<Longrightarrow> unvisited h seen' \<le> unvisited h seen"
  unfolding unvisited_def by (induction h) auto

lemma unvisited_less:
  "map_of h a = Some x \<Longrightarrow> a \<notin> set seen \<Longrightarrow> unvisited h (a # seen) < unvisited h seen"
proof (induction h)
  case (Cons p h)
  obtain b y where p: "p = (b, y)" by (cases p)
  show ?case
  proof (cases "b = a")
    case True
    have "unvisited h (a # seen) \<le> unvisited h seen" by (rule unvisited_mono) auto
    with True p Cons.prems(2) show ?thesis by (simp add: unvisited_def)
  next
    case False
    with p Cons show ?thesis by (auto simp: unvisited_def)
  qed
qed simp

section \<open>The serialization walk\<close>

text \<open>A reference to nothing cannot arise in JavaScript; it is read as \<open>undefined\<close>.\<close>

function walk_graph ::
    "heap \<Rightarrow> nat list \<Rightarrow> jspath \<Rightarrow> hval \<Rightarrow> unserializable option"
  and walk_graph_elems ::
    "heap \<Rightarrow> nat list \<Rightarrow> jspath \<Rightarrow> nat \<Rightarrow> hval list \<Rightarrow> unserializable option"
  and walk_graph_props ::
    "heap \<Rightarrow> nat list \<Rightarrow> jspath \<Rightarrow> (string \<times> hval) list \<Rightarrow> unserializable option" where
  "walk_graph h ancestors p v =
     (case v of
        HNull \<Rightarrow> None
      | HStr _ \<Rightarrow> None
      | HBool _ \<Rightarrow> None
      | HNum n \<Rightarrow>
          (case n of Finite _ \<Rightarrow> None | NegZero \<Rightarrow> None | _ \<Rightarrow> Some (p, NonFiniteNumber n))
      | HUndefined \<Rightarrow> Some (p, UndefinedValue)
      | HHole \<Rightarrow> Some (p, UndefinedValue)
      | HSymbol \<Rightarrow> Some (p, SymbolValue)
      | HBigInt _ \<Rightarrow> Some (p, BigIntValue)
      | HRef a \<Rightarrow>
          (case map_of h a of
             None \<Rightarrow> Some (p, UndefinedValue)
           | Some HFunction \<Rightarrow> Some (p, FunctionValue)
           | Some (HArray es) \<Rightarrow>
               if a \<in> set ancestors then Some (p, CycleValue)
               else walk_graph_elems h (a # ancestors) p 0 es
           | Some (HObject c ps) \<Rightarrow>
               if a \<in> set ancestors then Some (p, CycleValue)
               else (case class_rejection c of
                       Some d \<Rightarrow> Some (p, d)
                     | None \<Rightarrow> walk_graph_props h (a # ancestors) p ps)))"
| "walk_graph_elems h ancestors p i [] = None"
| "walk_graph_elems h ancestors p i (e # es) =
     (case (if e = HHole then None else walk_graph h ancestors (at_index p i) e) of
        Some u \<Rightarrow> Some u
      | None \<Rightarrow> walk_graph_elems h ancestors p (Suc i) es)"
| "walk_graph_props h ancestors p [] = None"
| "walk_graph_props h ancestors p ((k, v) # ps) =
     (case walk_graph h ancestors (at_key p k) v of
        Some u \<Rightarrow> Some u
      | None \<Rightarrow> walk_graph_props h ancestors p ps)"
  by pat_completeness auto

termination
  by (relation "measures
        [\<lambda>x. case x of Inl (h, anc, _) \<Rightarrow> unvisited h anc
                      | Inr (Inl (h, anc, _)) \<Rightarrow> unvisited h anc
                      | Inr (Inr (h, anc, _)) \<Rightarrow> unvisited h anc,
         \<lambda>x. case x of Inl _ \<Rightarrow> 0
                      | Inr (Inl (_, _, _, _, es)) \<Rightarrow> Suc (length es)
                      | Inr (Inr (_, _, _, ps)) \<Rightarrow> Suc (length ps)]")
     (auto dest: unvisited_less)

declare walk_graph.simps [simp del]

text \<open>\<open>assertSerializable\<close>: the walk from the root with no ancestors.\<close>

definition assert_serializable :: "heap \<Rightarrow> hval \<Rightarrow> string \<Rightarrow> unserializable option" where
  "assert_serializable h v root = walk_graph h [] (root, []) v"

section \<open>The tree of a graph\<close>

fun index_of :: "nat list \<Rightarrow> nat \<Rightarrow> nat" where
  "index_of [] a = 0"
| "index_of (b # bs) a = (if b = a then 0 else Suc (index_of bs a))"

function unfold_graph :: "heap \<Rightarrow> nat list \<Rightarrow> hval \<Rightarrow> jsval"
  and unfold_elems :: "heap \<Rightarrow> nat list \<Rightarrow> hval list \<Rightarrow> jsval list"
  and unfold_props :: "heap \<Rightarrow> nat list \<Rightarrow> (string \<times> hval) list \<Rightarrow> (string \<times> jsval) list" where
  "unfold_graph h ancestors v =
     (case v of
        HNull \<Rightarrow> JNull
      | HStr s \<Rightarrow> JStr s
      | HBool b \<Rightarrow> JBool b
      | HNum n \<Rightarrow> JNum n
      | HUndefined \<Rightarrow> JUndefined
      | HHole \<Rightarrow> JHole
      | HSymbol \<Rightarrow> JSymbol
      | HBigInt i \<Rightarrow> JBigInt i
      | HRef a \<Rightarrow>
          (case map_of h a of
             None \<Rightarrow> JUndefined
           | Some HFunction \<Rightarrow> JFun []
           | Some (HArray es) \<Rightarrow>
               if a \<in> set ancestors then JBack (index_of ancestors a)
               else JArr (unfold_elems h (a # ancestors) es)
           | Some (HObject c ps) \<Rightarrow>
               if a \<in> set ancestors then JBack (index_of ancestors a)
               else JObj c (unfold_props h (a # ancestors) ps)))"
| "unfold_elems h ancestors [] = []"
| "unfold_elems h ancestors (e # es) = unfold_graph h ancestors e # unfold_elems h ancestors es"
| "unfold_props h ancestors [] = []"
| "unfold_props h ancestors ((k, v) # ps) =
     (k, unfold_graph h ancestors v) # unfold_props h ancestors ps"
  by pat_completeness auto

termination
  by (relation "measures
        [\<lambda>x. case x of Inl (h, anc, _) \<Rightarrow> unvisited h anc
                      | Inr (Inl (h, anc, _)) \<Rightarrow> unvisited h anc
                      | Inr (Inr (h, anc, _)) \<Rightarrow> unvisited h anc,
         \<lambda>x. case x of Inl _ \<Rightarrow> 0
                      | Inr (Inl (_, _, es)) \<Rightarrow> Suc (length es)
                      | Inr (Inr (_, _, ps)) \<Rightarrow> Suc (length ps)]")
     (auto dest: unvisited_less)

declare unfold_graph.simps [simp del]

lemma unfold_is_hole: "(unfold_graph h ancestors v = JHole) = (v = HHole)"
  by (subst unfold_graph.simps) (auto split: hval.splits option.splits hobj.splits)

lemma walk_graph_tree:
  "walk_graph h ancestors p v = walk p (unfold_graph h ancestors v)"
  "walk_graph_elems h ancestors p i es = walk_elems p i (unfold_elems h ancestors es)"
  "walk_graph_props h ancestors p ps = walk_props p (unfold_props h ancestors ps)"
proof (induction h ancestors p v and h ancestors p i es and h ancestors p ps
       rule: walk_graph_walk_graph_elems_walk_graph_props.induct)
  case (1 h ancestors p v)
  then show ?case
    by (auto simp: walk_graph.simps [of h ancestors p v] unfold_graph.simps [of h ancestors v]
        split: hval.splits option.splits hobj.splits jsnum.splits)
next
  case (3 h ancestors p i e es)
  then show ?case
    by (auto simp: unfold_is_hole split: option.splits)
qed (auto split: option.splits)

text \<open>
  C13: the walk over a graph of shared, possibly cyclic objects accepts, or rejects at the same path
  for the same reason, exactly as the walk over the graph's tree; in particular it always returns.
\<close>

theorem graph_walk_is_tree_walk:
  "assert_serializable h v root = check_serializable (unfold_graph h [] v) root"
  by (simp add: assert_serializable_def check_serializable_def walk_graph_tree)


section \<open>Deep freezing\<close>

text \<open>
  \<open>deepFreeze\<close>: the objects frozen so far, extended by those reached through own keys. \<open>None\<close> is
  the TypeError of \<open>Object.freeze\<close> on a typed array with elements. A function is not an object to
  \<open>typeof\<close> and is left alone.
\<close>

fun own_values :: "hobj \<Rightarrow> hval list" where
  "own_values HFunction = []"
| "own_values (HArray es) = filter (\<lambda>e. e \<noteq> HHole) es"
| "own_values (HObject c ps) = map snd ps"

fun freeze_refused :: "hobj \<Rightarrow> bool" where
  "freeze_refused (HObject (TypedArray n) ps) = (n \<noteq> 0)"
| "freeze_refused ob = False"

function deep_freeze :: "heap \<Rightarrow> nat list \<Rightarrow> hval \<Rightarrow> nat list option"
  and deep_freeze_all :: "heap \<Rightarrow> nat list \<Rightarrow> hval list \<Rightarrow> nat list option" where
  "deep_freeze h seen v =
     (case v of
        HRef a \<Rightarrow>
          (case map_of h a of
             None \<Rightarrow> Some seen
           | Some ob \<Rightarrow>
               if ob = HFunction \<or> a \<in> set seen then Some seen
               else if freeze_refused ob then None
               else deep_freeze_all h (a # seen) (own_values ob))
      | _ \<Rightarrow> Some seen)"
| "deep_freeze_all h seen [] = Some seen"
| "deep_freeze_all h seen (v # vs) =
     (case deep_freeze h seen v of
        None \<Rightarrow> None
      | Some seen' \<Rightarrow> deep_freeze_all h seen' vs)"
  by pat_completeness auto

lemma deep_freeze_extends:
  "deep_freeze_deep_freeze_all_dom (Inl (h, seen, v)) \<Longrightarrow>
     deep_freeze h seen v = Some r \<Longrightarrow> set seen \<subseteq> set r"
  "deep_freeze_deep_freeze_all_dom (Inr (h, seen, vs)) \<Longrightarrow>
     deep_freeze_all h seen vs = Some r \<Longrightarrow> set seen \<subseteq> set r"
proof (induction h seen v and h seen vs arbitrary: r and r
       rule: deep_freeze_deep_freeze_all.pinduct)
  case (1 h seen v)
  then show ?case
    by (auto simp: deep_freeze.psimps split: hval.splits option.splits if_splits)
next
  case (3 h seen v vs)
  then show ?case
    by (fastforce simp: deep_freeze_all.psimps split: option.splits)
qed (simp add: deep_freeze_all.psimps)

termination deep_freeze
proof (relation "measures
        [\<lambda>x. case x of Inl (h, seen, _) \<Rightarrow> unvisited h seen | Inr (h, seen, _) \<Rightarrow> unvisited h seen,
         \<lambda>x. case x of Inl _ \<Rightarrow> 0 | Inr (_, _, vs) \<Rightarrow> Suc (length vs)]", goal_cases)
  case (4 h seen v vs seen')
  then have "unvisited h seen' \<le> unvisited h seen"
    by (auto intro: unvisited_mono dest: deep_freeze_extends)
  then show ?case by auto
qed (auto dest: unvisited_less)

declare deep_freeze.simps [simp del]

text \<open>What \<open>deepFreeze\<close> is to reach: objects linked from the value through own keys.\<close>

definition is_object_at :: "heap \<Rightarrow> nat \<Rightarrow> bool" where
  "is_object_at h a = (case map_of h a of None \<Rightarrow> False | Some ob \<Rightarrow> ob \<noteq> HFunction)"

inductive reaches :: "heap \<Rightarrow> hval \<Rightarrow> nat \<Rightarrow> bool" for h v where
  root: "v = HRef a \<Longrightarrow> is_object_at h a \<Longrightarrow> reaches h v a"
| link: "reaches h v a \<Longrightarrow> map_of h a = Some ob \<Longrightarrow> HRef b \<in> set (own_values ob) \<Longrightarrow>
     is_object_at h b \<Longrightarrow> reaches h v b"

definition links_closed :: "heap \<Rightarrow> nat set \<Rightarrow> nat set \<Rightarrow> bool" where
  "links_closed h A B = (\<forall>a ob b. a \<in> A \<longrightarrow> map_of h a = Some ob \<longrightarrow>
     HRef b \<in> set (own_values ob) \<longrightarrow> is_object_at h b \<longrightarrow> b \<in> B)"

lemma deep_freeze_closed:
  "deep_freeze h seen v = Some r \<Longrightarrow>
     set seen \<subseteq> set r \<and> (\<forall>a. v = HRef a \<longrightarrow> is_object_at h a \<longrightarrow> a \<in> set r) \<and>
     links_closed h (set r - set seen) (set r)"
  "deep_freeze_all h seen vs = Some r \<Longrightarrow>
     set seen \<subseteq> set r \<and> (\<forall>a. HRef a \<in> set vs \<longrightarrow> is_object_at h a \<longrightarrow> a \<in> set r) \<and>
     links_closed h (set r - set seen) (set r)"
proof (induction h seen v and h seen vs arbitrary: r and r
       rule: deep_freeze_deep_freeze_all.induct)
  case (1 h seen v)
  show ?case
  proof (cases "\<exists>a ob. v = HRef a \<and> map_of h a = Some ob \<and> ob \<noteq> HFunction \<and> a \<notin> set seen")
    case True
    then obtain a ob where a: "v = HRef a" "map_of h a = Some ob" "ob \<noteq> HFunction" "a \<notin> set seen"
      by blast
    with "1.prems" have fr: "\<not> freeze_refused ob"
      by (auto simp: deep_freeze.simps [of h seen "HRef a"])
    with "1.prems" a have r: "deep_freeze_all h (a # seen) (own_values ob) = Some r"
      by (simp add: deep_freeze.simps [of h seen "HRef a"])
    have ih: "set (a # seen) \<subseteq> set r" "links_closed h (set r - set (a # seen)) (set r)"
      "\<forall>b. HRef b \<in> set (own_values ob) \<longrightarrow> is_object_at h b \<longrightarrow> b \<in> set r"
      using "1.IH" [OF a(1,2) _ fr r] a by auto
    then show ?thesis using a by (auto simp: links_closed_def)
  next
    case False
    with "1.prems" have "r = seen"
      by (auto simp: deep_freeze.simps [of h seen v]
          split: hval.splits option.splits if_splits)
    with False show ?thesis
      by (auto simp: links_closed_def is_object_at_def split: option.splits)
  qed
next
  case (3 h seen v vs)
  then obtain s where s: "deep_freeze h seen v = Some s" "deep_freeze_all h s vs = Some r"
    by (auto split: option.splits)
  from "3.IH"(1) [OF s(1)] "3.IH"(2) [OF s] show ?case
    by (auto simp: links_closed_def) blast
qed (auto simp: links_closed_def)

lemma reaches_from_parent:
  assumes "reaches h w b" and "map_of h a = Some ob" and "ob \<noteq> HFunction"
    and "w \<in> set (own_values ob)"
  shows "reaches h (HRef a) b"
  using assms(1)
proof induction
  case (root b)
  have "reaches h (HRef a) a" using assms(2,3) by (auto intro: reaches.root simp: is_object_at_def)
  with root assms show ?case by (blast intro: reaches.link)
next
  case (link c ob' b)
  then show ?case by (blast intro: reaches.link)
qed

lemma deep_freeze_reached:
  "deep_freeze h seen v = Some r \<Longrightarrow> a \<in> set r \<Longrightarrow> a \<notin> set seen \<Longrightarrow> reaches h v a"
  "deep_freeze_all h seen vs = Some r \<Longrightarrow> a \<in> set r \<Longrightarrow> a \<notin> set seen \<Longrightarrow>
     \<exists>v \<in> set vs. reaches h v a"
proof (induction h seen v and h seen vs arbitrary: r and r
       rule: deep_freeze_deep_freeze_all.induct)
  case (1 h seen v)
  from "1.prems" obtain b ob where b: "v = HRef b" "map_of h b = Some ob"
      "ob \<noteq> HFunction" "b \<notin> set seen"
    by (auto simp: deep_freeze.simps [of h seen v] split: hval.splits option.splits if_splits)
  with "1.prems" have fr: "\<not> freeze_refused ob"
    by (auto simp: deep_freeze.simps [of h seen "HRef b"])
  with "1.prems" b have r: "deep_freeze_all h (b # seen) (own_values ob) = Some r"
    by (simp add: deep_freeze.simps [of h seen "HRef b"])
  show ?case
  proof (cases "a = b")
    case True
    with b show ?thesis by (auto intro: reaches.root simp: is_object_at_def)
  next
    case False
    with "1.IH" [OF b(1,2) _ fr r] b "1.prems"
    obtain w where "w \<in> set (own_values ob)" "reaches h w a" by auto
    with b reaches_from_parent show ?thesis by blast
  qed
next
  case (3 h seen v vs)
  then obtain s where s: "deep_freeze h seen v = Some s" "deep_freeze_all h s vs = Some r"
    by (auto split: option.splits)
  from "3.IH"(1) [OF s(1)] "3.IH"(2) [OF s] "3.prems"(2,3) show ?case
    by (cases "a \<in> set s") auto
qed auto



end
