(* ===== verification/Author_Code.thy ===== *)
theory Author_Code
  imports Js_Value "HOL-Library.Word"
begin

text \<open>
  Calling author code. \<open>evaluate_pure\<close> is \<^verbatim>\<open>evaluatePure\<close> of
  \<^verbatim>\<open>state/pure.ts\<close>: one pure callback, its isolated arguments, and the three ways it can go
  wrong. \<open>capture_label\<close> is \<^verbatim>\<open>state/labels.ts\<close> over UTF-16 code units. An author's
  callback is a function from the values it is given to an \<open>answer\<close>: what it returned or threw;
  one that mutates its frozen argument throws, so purity is not a restriction.
\<close>

section \<open>Answers and messages\<close>

datatype thrown = ThrownError string | ThrownValue jsval

datatype answer = Ret jsval | Throw thrown

type_synonym callback = "jsval \<Rightarrow> answer"

text \<open>\<open>JSON.stringify\<close> throws on a bigint and on a cycle.\<close>

fun stringify_throws :: "jsval \<Rightarrow> bool"
  and stringify_throws_props :: "(string \<times> jsval) list \<Rightarrow> bool" where
  "stringify_throws (JBigInt _) = True"
| "stringify_throws (JBack _) = True"
| "stringify_throws (JArr es) = (\<exists>e \<in> set es. stringify_throws e)"
| "stringify_throws (JObj c ps) = stringify_throws_props ps"
| "stringify_throws _ = False"
| "stringify_throws_props [] = False"
| "stringify_throws_props ((k, v) # ps) = (stringify_throws v \<or> stringify_throws_props ps)"

datatype err_text = Text string | JsonText json | StringOf jsval

fun error_message :: "thrown \<Rightarrow> err_text" where
  "error_message (ThrownError m) = Text m"
| "error_message (ThrownValue (JStr s)) = Text s"
| "error_message (ThrownValue v) =
     (if stringify_throws v then StringOf v
      else case to_json v of Some j \<Rightarrow> JsonText j | None \<Rightarrow> StringOf v)"

text \<open>The callback named in a message, in the author's vocabulary (\<open>evaluation.what\<close>).\<close>

datatype eval_what =
    WhatReducer string | WhatEdge string | WhatOutcomeOutput string | WhatOnResult string
  | WhatInit string | WhatParameters string | WhatPlan string

datatype pure_message =
    CouldNotBeIsolated eval_what
  | CallbackThrew eval_what err_text
  | ReturnedPromise eval_what
  | ReturnedUnstorable eval_what unserializable

section \<open>Evaluating one pure callback\<close>

text \<open>
  What running the callback's thunk did: it isolates the arguments first, and only the refusal of
  \<open>structuredClone\<close> is an \<open>IsolationError\<close>; the refusal to freeze surfaces as the TypeError it is.
\<close>

datatype ran = Ran jsval | RunThrew thrown | RunNotIsolated

definition freeze_type_error :: thrown where
  "freeze_type_error = ThrownError ''Cannot freeze array buffer views with elements''"

fun ran_of_answer :: "answer \<Rightarrow> ran" where
  "ran_of_answer (Ret v) = Ran v"
| "ran_of_answer (Throw t) = RunThrew t"

definition with_isolated :: "jsval \<Rightarrow> (jsval \<Rightarrow> ran) \<Rightarrow> ran" where
  "with_isolated v f =
     (case isolate v of
        Inl NotCloneable \<Rightarrow> RunNotIsolated
      | Inl NotFreezable \<Rightarrow> RunThrew freeze_type_error
      | Inr c \<Rightarrow> f c)"

definition run1 :: "callback \<Rightarrow> jsval \<Rightarrow> ran" where
  "run1 f v = with_isolated v (\<lambda>c. ran_of_answer (f c))"

definition run2 :: "(jsval \<Rightarrow> jsval \<Rightarrow> answer) \<Rightarrow> jsval \<Rightarrow> jsval \<Rightarrow> ran" where
  "run2 f v w = with_isolated v (\<lambda>c. with_isolated w (\<lambda>d. ran_of_answer (f c d)))"

definition evaluate_pure :: "eval_what \<Rightarrow> ran \<Rightarrow> string option \<Rightarrow> pure_message + jsval" where
  "evaluate_pure what r serialize_as =
     (case r of
        RunNotIsolated \<Rightarrow> Inl (CouldNotBeIsolated what)
      | RunThrew t \<Rightarrow> Inl (CallbackThrew what (error_message t))
      | Ran v \<Rightarrow>
          if is_thenable v then Inl (ReturnedPromise what)
          else (case serialize_as of
                  None \<Rightarrow> Inr v
                | Some root \<Rightarrow>
                    (case check_serializable v root of
                       Some u \<Rightarrow> Inl (ReturnedUnstorable what u)
                     | None \<Rightarrow> Inr v)))"

lemma check_case_Inr:
  "(case check_serializable w root of None \<Rightarrow> Inr w | Some u \<Rightarrow> Inl (f u)) = Inr v \<longleftrightarrow>
     w = v \<and> serializable w"
  using check_serializable_None [of w root] by (cases "check_serializable w root") auto

lemma evaluate_pure_Inr:
  "evaluate_pure what r s = Inr v \<longleftrightarrow>
     r = Ran v \<and> \<not> is_thenable v \<and> (s = None \<or> serializable v)"
  by (cases r; cases s) (auto simp: evaluate_pure_def check_case_Inr)

lemma run1_from_json [simp]: "run1 f (from_json j) = ran_of_answer (f (from_json j))"
  by (simp add: run1_def with_isolated_def)

section \<open>Labels\<close>

type_synonym utf16 = "16 word list"

datatype label_answer = LabelString utf16 | LabelOther | LabelThrows

definition max_label_length :: nat where
  "max_label_length = 200"

definition high_surrogate :: "16 word \<Rightarrow> bool" where
  "high_surrogate u = (0xD800 \<le> u \<and> u \<le> 0xDBFF)"

definition low_surrogate :: "16 word \<Rightarrow> bool" where
  "low_surrogate u = (0xDC00 \<le> u \<and> u \<le> 0xDFFF)"

text \<open>
  \<open>captureLabel\<close>: a label that is not declared, throws, or returns anything but a non-empty string
  is \<open>None\<close>; a long one is cut, never inside a surrogate pair.
\<close>

definition capture_label :: "(jsval \<Rightarrow> label_answer) option \<Rightarrow> jsval \<Rightarrow> utf16 option" where
  "capture_label label argument =
     (case label of
        None \<Rightarrow> None
      | Some f \<Rightarrow>
          (case isolate argument of
             Inl _ \<Rightarrow> None
           | Inr c \<Rightarrow>
               (case f c of
                  LabelThrows \<Rightarrow> None
                | LabelOther \<Rightarrow> None
                | LabelString produced \<Rightarrow>
                    if produced = [] then None
                    else if length produced \<le> max_label_length then Some produced
                    else (let last_code = produced ! (max_label_length - 1)
                          in Some (take (if high_surrogate last_code then max_label_length - 1
                                         else max_label_length) produced)))))"

text \<open>Well-formed UTF-16: every surrogate is half of a pair.\<close>

fun wf_utf16 :: "utf16 \<Rightarrow> bool" where
  "wf_utf16 [] = True"
| "wf_utf16 (u # us) =
     (if high_surrogate u
      then (case us of [] \<Rightarrow> False | v # vs \<Rightarrow> low_surrogate v \<and> wf_utf16 vs)
      else \<not> low_surrogate u \<and> wf_utf16 us)"

lemma high_not_low: "high_surrogate u \<Longrightarrow> \<not> low_surrogate u"
  unfolding high_surrogate_def low_surrogate_def by unat_arith

lemma wf_utf16_take:
  "wf_utf16 us \<Longrightarrow> n \<le> length us \<Longrightarrow> n = 0 \<or> \<not> high_surrogate (us ! (n - 1)) \<Longrightarrow>
   wf_utf16 (take n us)"
proof (induction us arbitrary: n rule: wf_utf16.induct)
  case (2 u us)
  show ?case
  proof (cases n)
    case (Suc m)
    show ?thesis
    proof (cases "high_surrogate u")
      case True
      with "2.prems"(1) obtain v vs where us: "us = v # vs" "low_surrogate v" "wf_utf16 vs"
        by (auto split: list.splits)
      from True "2.prems"(3) Suc have "m \<noteq> 0" by (cases m) auto
      then obtain l where l: "m = Suc l" by (cases m) auto
      have "wf_utf16 (take l vs)"
        using "2.IH"(1) [OF True us(1), of l] "2.prems" us Suc l by (cases l) auto
      with True us l Suc show ?thesis by simp
    next
      case False
      then have "wf_utf16 (take m us)"
        using "2.IH"(2) [OF False, of m] "2.prems" Suc by (cases m) auto
      with False "2.prems"(1) Suc show ?thesis by simp
    qed
  qed simp
qed simp

lemma wf_utf16_no_adjacent_high:
  "wf_utf16 us \<Longrightarrow> Suc i < length us \<Longrightarrow> high_surrogate (us ! Suc i) \<Longrightarrow> \<not> high_surrogate (us ! i)"
proof (induction us arbitrary: i rule: wf_utf16.induct)
  case (2 u us)
  show ?case
  proof (cases "high_surrogate u")
    case True
    with "2.prems"(1) obtain v vs where us: "us = v # vs" "low_surrogate v" "wf_utf16 vs"
      by (auto split: list.splits)
    show ?thesis
    proof (cases i)
      case 0
      with "2.prems"(3) us high_not_low show ?thesis by auto
    next
      case (Suc j)
      show ?thesis
      proof (cases j)
        case 0
        with Suc us high_not_low show ?thesis by auto
      next
        case (Suc l)
        with \<open>i = Suc j\<close> us "2.prems" "2.IH"(1) [OF True us(1,3), of l] show ?thesis by auto
      qed
    qed
  next
    case False
    with "2.prems" "2.IH"(2) [OF False] show ?thesis by (cases i) auto
  qed
qed simp

text \<open>
  C25: a captured label is never empty, never longer than the column's 200 code units, a prefix of
  what the author's label returned, and well-formed UTF-16 whenever that was.
\<close>

theorem captured_label_wellformed:
  assumes "capture_label (Some f) argument = Some l"
    and "isolate argument = Inr c" and "f c = LabelString produced"
  shows "l \<noteq> [] \<and> length l \<le> 200 \<and> (\<exists>rest. produced = l @ rest) \<and>
         (wf_utf16 produced \<longrightarrow> wf_utf16 l)"
proof (cases "length produced \<le> 200")
  case True
  with assms show ?thesis by (auto simp: capture_label_def max_label_length_def split: if_splits)
next
  case False
  define n where "n = (if high_surrogate (produced ! 199) then 199 else (200 :: nat))"
  from False assms have l: "l = take n produced"
    by (auto simp: capture_label_def max_label_length_def n_def split: if_splits)
  have "wf_utf16 l" if wf: "wf_utf16 produced"
  proof -
    have "\<not> high_surrogate (produced ! (n - 1))"
      using wf_utf16_no_adjacent_high [OF wf, of 198] False by (auto simp: n_def)
    with wf_utf16_take [OF wf, of n] False show ?thesis by (simp add: l n_def)
  qed
  moreover have "produced = l @ drop n produced" by (simp add: l)
  moreover have "length l = n" using False by (simp add: l n_def)
  moreover have "0 < n" "n \<le> 200" by (simp_all add: n_def)
  ultimately show ?thesis by auto
qed

theorem captured_label_wellformed_witness:
  "capture_label (Some (\<lambda>_. LabelString [65])) JNull = Some [65] \<and>
   length ([65] :: utf16) \<le> 200 \<and> wf_utf16 [65]"
  using captured_label_wellformed [of "\<lambda>_. LabelString [65]" JNull "[65]" JNull "[65]"]
  by (simp add: capture_label_def isolate_def max_label_length_def low_surrogate_def high_surrogate_def)

end
