(* ===== verification/Reducers.thy ===== *)
theory Reducers
  imports Author_Code "HOL-Library.Multiset"
begin

text \<open>
  Graph state. \<open>reduce_state\<close> and \<open>assert_declared_state_fields\<close> are
  \<^verbatim>\<open>apps/runtime/src/workflows/state/reducers.ts\<close>; the shipped reducers are the generic
  functions of \<^verbatim>\<open>packages/workflow-sdk/src/state.ts\<close>, kept generic here. The lemmas say
  that every reducer reads the committed state and none can observe another, that an update
  changes nothing it does not name, and that a state once declared and storable stays so.
\<close>

section \<open>Registered fields\<close>

text \<open>
  What a graph's \<open>state\<close> record holds under a name, as \<open>isRegisteredField\<close> inspects it: whether it
  is a plain object, its \<open>isagiKind\<close>, and its \<open>reduce\<close> when that is a function.
\<close>

record field_reg =
  reg_plain :: bool
  reg_kind :: jsval
  reg_reduce :: "(jsval \<Rightarrow> jsval \<Rightarrow> answer) option"

type_synonym fields = "(string \<times> field_reg) list"
type_synonym state = "(string \<times> jsval) list"

definition registered_field :: "field_reg \<Rightarrow> (jsval \<Rightarrow> jsval \<Rightarrow> answer) option" where
  "registered_field r =
     (if reg_plain r \<and> reg_kind r = JStr ''state-field'' then reg_reduce r else None)"

definition field_for :: "fields \<Rightarrow> string \<Rightarrow> (jsval \<Rightarrow> jsval \<Rightarrow> answer) option" where
  "field_for fs key =
     (case map_of fs key of None \<Rightarrow> None | Some r \<Rightarrow> registered_field r)"

section \<open>Applying an update\<close>

datatype reduce_message =
    UpdateNotPlain shape
  | NoStateField string string
  | FieldSetUndefined string
  | ReducerFailed pure_message
  | StateUnstorable string unserializable

text \<open>The first loop: every key must name a field, and none may be set to \<open>undefined\<close>.\<close>

fun check_update_keys :: "fields \<Rightarrow> string \<Rightarrow> state \<Rightarrow> reduce_message option" where
  "check_update_keys fs g [] = None"
| "check_update_keys fs g ((key, v) # ps) =
     (if field_for fs key = None then Some (NoStateField g key)
      else if v = JUndefined then Some (FieldSetUndefined key)
      else check_update_keys fs g ps)"

text \<open>One reducer, against the committed value of its own field.\<close>

definition reduce_field ::
    "(jsval \<Rightarrow> jsval \<Rightarrow> answer) \<Rightarrow> state \<Rightarrow> string \<Rightarrow> jsval \<Rightarrow> pure_message + jsval" where
  "reduce_field reduce current key v =
     evaluate_pure (WhatReducer key) (run2 reduce (own_or_undefined current key) v) (Some key)"

text \<open>The second loop builds the candidate; the first loop has excluded a missing field.\<close>

fun reduce_keys :: "fields \<Rightarrow> string \<Rightarrow> state \<Rightarrow> state \<Rightarrow> state \<Rightarrow> reduce_message + state" where
  "reduce_keys fs g current candidate [] = Inr candidate"
| "reduce_keys fs g current candidate ((key, v) # ps) =
     (case field_for fs key of
        None \<Rightarrow> Inl (NoStateField g key)
      | Some reduce \<Rightarrow>
          (case reduce_field reduce current key v of
             Inl m \<Rightarrow> Inl (ReducerFailed m)
           | Inr w \<Rightarrow> reduce_keys fs g current (put key w candidate) ps))"

definition reduce_state :: "fields \<Rightarrow> state \<Rightarrow> jsval \<Rightarrow> string \<Rightarrow> reduce_message + state" where
  "reduce_state fs current update g =
     (if update = JUndefined then Inr current
      else case plain_props update of
             None \<Rightarrow> Inl (UpdateNotPlain (describe_shape update))
           | Some ps \<Rightarrow>
               (case check_update_keys fs g ps of
                  Some m \<Rightarrow> Inl m
                | None \<Rightarrow>
                    if ps = [] then Inr current
                    else (case reduce_keys fs g current current ps of
                            Inl m \<Rightarrow> Inl m
                          | Inr candidate \<Rightarrow>
                              (case check_serializable (JObj PlainProto candidate) [] of
                                 Some u \<Rightarrow> Inl (StateUnstorable g u)
                               | None \<Rightarrow> Inr candidate))))"

datatype declared_message = InitNotPlain string shape | InitUndeclared string string

fun first_undeclared :: "fields \<Rightarrow> state \<Rightarrow> string option" where
  "first_undeclared fs [] = None"
| "first_undeclared fs ((key, v) # ps) =
     (if field_for fs key = None then Some key else first_undeclared fs ps)"

definition assert_declared_state_fields ::
    "fields \<Rightarrow> jsval \<Rightarrow> string \<Rightarrow> declared_message option" where
  "assert_declared_state_fields fs st g =
     (case plain_props st of
        None \<Rightarrow> Some (InitNotPlain g (describe_shape st))
      | Some ps \<Rightarrow>
          (case first_undeclared fs ps of
             Some key \<Rightarrow> Some (InitUndeclared g key)
           | None \<Rightarrow> None))"

section \<open>Pointwise reduction\<close>

lemma first_undeclared_None:
  "(first_undeclared fs ps = None) = (\<forall>k \<in> set (keys ps). field_for fs k \<noteq> None)"
  by (induction ps) (auto split: if_splits)

lemma check_update_keys_None:
  "(check_update_keys fs g ps = None) =
     (\<forall>(k, v) \<in> set ps. field_for fs k \<noteq> None \<and> v \<noteq> JUndefined)"
  by (induction ps) (auto split: if_splits)

text \<open>The value the update leaves under a key, from the committed state alone.\<close>

definition reduced_at :: "fields \<Rightarrow> state \<Rightarrow> string \<Rightarrow> jsval \<Rightarrow> jsval option" where
  "reduced_at fs current key v =
     (case field_for fs key of
        None \<Rightarrow> None
      | Some reduce \<Rightarrow>
          (case reduce_field reduce current key v of Inl _ \<Rightarrow> None | Inr w \<Rightarrow> Some w))"

lemma reduce_keys_Inr_iff:
  "(\<exists>s. reduce_keys fs g current candidate ps = Inr s) =
     (\<forall>(k, v) \<in> set ps. reduced_at fs current k v \<noteq> None)"
proof (induction ps arbitrary: candidate)
  case (Cons p ps)
  obtain k v where p: "p = (k, v)" by (cases p)
  show ?case
  proof (cases "reduced_at fs current k v")
    case None
    then show ?thesis using p by (auto simp: reduced_at_def split: option.splits sum.splits)
  next
    case (Some w)
    then have "reduce_keys fs g current candidate (p # ps) =
               reduce_keys fs g current (put k w candidate) ps"
      using p by (auto simp: reduced_at_def split: option.splits sum.splits)
    with Cons.IH [of "put k w candidate"] Some p show ?thesis by simp
  qed
qed simp

lemma reduce_keys_lookup:
  assumes "reduce_keys fs g current candidate ps = Inr s" and "distinct (keys ps)"
  shows "map_of s k = (case map_of ps k of
           None \<Rightarrow> map_of candidate k | Some v \<Rightarrow> reduced_at fs current k v)"
  using assms
proof (induction ps arbitrary: candidate)
  case (Cons p ps)
  obtain j v where p: "p = (j, v)" by (cases p)
  with Cons.prems(1) obtain w where w: "reduced_at fs current j v = Some w"
    "reduce_keys fs g current (put j w candidate) ps = Inr s"
    by (auto simp: reduced_at_def split: option.splits sum.splits)
  have "map_of s k = (case map_of ps k of
      None \<Rightarrow> map_of (put j w candidate) k | Some v \<Rightarrow> reduced_at fs current k v)"
    using Cons.IH [OF w(2)] Cons.prems(2) p by simp
  moreover have "k = j \<Longrightarrow> map_of ps k = None"
    using Cons.prems(2) p by (simp add: map_of_eq_None_keys)
  ultimately show ?case using p w(1) by (auto split: option.splits)
qed simp

lemma reduce_keys_keys:
  "reduce_keys fs g current candidate ps = Inr s \<Longrightarrow>
     set (keys s) = set (keys candidate) \<union> set (keys ps)"
  by (induction ps arbitrary: candidate) (force split: option.splits sum.splits)+

lemma reduce_keys_distinct:
  "reduce_keys fs g current candidate ps = Inr s \<Longrightarrow> distinct (keys candidate) \<Longrightarrow>
     distinct (keys s)"
  by (induction ps arbitrary: candidate) (force split: option.splits sum.splits intro: distinct_keys_put)+

lemma reduce_state_Inr:
  assumes "reduce_state fs current update g = Inr s" and "update \<noteq> JUndefined"
  obtains ps where "plain_props update = Some ps" and "check_update_keys fs g ps = None"
    and "reduce_keys fs g current current ps = Inr s"
    and "ps \<noteq> [] \<Longrightarrow> serializable (JObj PlainProto s)"
proof -
  from assms obtain ps where ps: "plain_props update = Some ps"
    and ck: "check_update_keys fs g ps = None"
    by (auto simp: reduce_state_def split: option.splits)
  show thesis
  proof (cases "ps = []")
    case True
    with assms ps ck that [of ps] show thesis by (auto simp: reduce_state_def)
  next
    case False
    with assms ps ck obtain c where "reduce_keys fs g current current ps = Inr c"
      "check_serializable (JObj PlainProto c) [] = None" "s = c"
      by (auto simp: reduce_state_def split: sum.splits option.splits)
    with ps ck that [of ps] show thesis by (auto simp: check_serializable_None)
  qed
qed

text \<open>
  C16: after an accepted update every field the update does not name keeps its committed value, and
  every named one holds what its own reducer returned for its committed value and its own update,
  so a reducer can neither see nor disturb another field.
\<close>

theorem reduce_state_reads_committed_boundary:
  assumes "reduce_state fs current update g = Inr s"
    and "plain_props update = Some ps" and "distinct (keys ps)"
  shows "map_of s k = (case map_of ps k of
           None \<Rightarrow> map_of current k
         | Some v \<Rightarrow> reduced_at fs current k v)"
proof -
  from assms(2) have "update \<noteq> JUndefined" by auto
  with assms(1) obtain qs where "plain_props update = Some qs"
    "reduce_keys fs g current current qs = Inr s"
    by (rule reduce_state_Inr)
  with assms(2,3) show ?thesis by (auto intro: reduce_keys_lookup)
qed

definition keep_update :: "jsval \<Rightarrow> jsval \<Rightarrow> answer" where
  "keep_update c u = Ret u"

definition plain_field :: "(jsval \<Rightarrow> jsval \<Rightarrow> answer) \<Rightarrow> field_reg" where
  "plain_field f = \<lparr>reg_plain = True, reg_kind = JStr ''state-field'', reg_reduce = Some f\<rparr>"

lemmas reduce_unfold = reduce_state_def reduce_field_def field_for_def registered_field_def
  plain_field_def keep_update_def evaluate_pure_def run2_def with_isolated_def isolate_def
  own_or_undefined_def reduced_at_def

theorem reduce_state_reads_committed_boundary_witness:
  "map_of [(''a'', JNull), (''b'', JBool True)] ''b'' =
     (case map_of [(''b'', JBool True)] ''b'' of
        None \<Rightarrow> map_of [(''a'', JNull), (''b'', JNull)] ''b''
      | Some v \<Rightarrow> reduced_at [(''a'', plain_field keep_update), (''b'', plain_field keep_update)]
                   [(''a'', JNull), (''b'', JNull)] ''b'' v)"
  by (rule reduce_state_reads_committed_boundary
      [where update = "JObj PlainProto [(''b'', JBool True)]" and g = "''g''"])
     (simp_all add: reduce_unfold)

text \<open>
  C17: two updates that name the same fields with the same values, in any order, are accepted
  together, and the states they lead to agree in every field.
\<close>

theorem reduce_state_order_irrelevant:
  assumes "reduce_state fs current (JObj PlainProto ps) g = Inr s"
    and "mset qs = mset ps" and "distinct (keys ps)"
    and "serializable (JObj PlainProto current)" and "distinct (keys current)"
  shows "\<exists>t. reduce_state fs current (JObj PlainProto qs) g = Inr t \<and> map_of t = map_of s"
proof (cases "ps = []")
  case True
  with assms show ?thesis by auto
next
  case False
  from assms(1) have ck: "check_update_keys fs g ps = None"
    and red: "reduce_keys fs g current current ps = Inr s"
    using False by (auto elim!: reduce_state_Inr)
  have ser: "serializable (JObj PlainProto s)"
    using assms(1) False by (auto elim!: reduce_state_Inr)
  have sets: "set qs = set ps" using assms(2) by (metis set_mset_mset)
  have dq: "distinct (keys qs)"
    using assms(2,3) by (metis keys_def mset_eq_imp_distinct_iff mset_map)
  have ckq: "check_update_keys fs g qs = None"
    using ck sets by (simp add: check_update_keys_None)
  obtain t where t: "reduce_keys fs g current current qs = Inr t"
    using red reduce_keys_Inr_iff [of fs g current current] sets by metis
  have maps: "map_of t = map_of s"
  proof
    fix k
    have "map_of qs k = map_of ps k"
      using assms(3) dq sets by (metis keys_def map_of_eqI set_map map_of_inject_set)
    then show "map_of t k = map_of s k"
      using reduce_keys_lookup [OF t dq, of k] reduce_keys_lookup [OF red assms(3), of k] by simp
  qed
  have "distinct (keys t)" and "distinct (keys s)"
    using t red assms(5) by (blast intro: reduce_keys_distinct)+
  with maps have "set t = set s" by (simp add: keys_def map_of_inject_set)
  with ser have "serializable (JObj PlainProto t)" by (simp add: serializable_props_iff)
  with False sets ckq t maps show ?thesis by (auto simp: reduce_state_def)
qed

theorem reduce_state_order_irrelevant_witness:
  "\<exists>t. reduce_state [(''a'', plain_field keep_update), (''b'', plain_field keep_update)]
         [(''a'', JNull), (''b'', JNull)]
         (JObj PlainProto [(''b'', JBool True), (''a'', JBool False)]) ''g'' = Inr t \<and>
       map_of t = map_of [(''a'', JBool False), (''b'', JBool True)]"
  by (rule reduce_state_order_irrelevant [where ps = "[(''a'', JBool False), (''b'', JBool True)]"])
     (simp_all add: reduce_unfold)


section \<open>The state invariant\<close>

text \<open>What \<open>init\<close> establishes and every update keeps: declared fields, storable, distinct keys.\<close>

definition state_ok :: "fields \<Rightarrow> state \<Rightarrow> bool" where
  "state_ok fs st \<longleftrightarrow>
     (\<forall>k \<in> set (keys st). field_for fs k \<noteq> None) \<and> serializable (JObj PlainProto st) \<and>
     distinct (keys st)"

lemma state_ok_init:
  assumes "assert_declared_state_fields fs (JObj c st) g = None"
    and "serializable (JObj c st)" and "distinct (keys st)"
  shows "state_ok fs st"
  using assms by (auto simp: assert_declared_state_fields_def state_ok_def first_undeclared_None
      split: option.splits)

text \<open>
  C15: reduction preserves the state invariant. Starting from a declared, storable state, whatever
  the author's update and reducers return, an accepted step leaves a declared, storable state.
\<close>

theorem reduce_state_keeps_state_ok:
  assumes "reduce_state fs current update g = Inr s" and "state_ok fs current"
  shows "state_ok fs s"
proof (cases "update = JUndefined")
  case True
  with assms show ?thesis by (simp add: reduce_state_def)
next
  case False
  obtain ps where ck: "check_update_keys fs g ps = None"
    and red: "reduce_keys fs g current current ps = Inr s"
    and ser: "ps \<noteq> [] \<Longrightarrow> serializable (JObj PlainProto s)"
    by (rule reduce_state_Inr [OF assms(1) False]) blast
  have "set (keys s) = set (keys current) \<union> set (keys ps)"
    using red by (rule reduce_keys_keys)
  moreover have "\<forall>k \<in> set (keys ps). field_for fs k \<noteq> None"
    using ck by (auto simp: check_update_keys_None keys_def)
  moreover have "distinct (keys s)"
    using red assms(2) by (auto simp: state_ok_def intro: reduce_keys_distinct)
  moreover have "serializable (JObj PlainProto s)"
    using ser red assms(2) by (cases "ps = []") (auto simp: state_ok_def)
  ultimately show ?thesis using assms(2) by (auto simp: state_ok_def)
qed

theorem reduce_state_keeps_state_ok_witness:
  "state_ok [(''a'', plain_field keep_update)] [(''a'', JBool True)]"
  by (rule reduce_state_keeps_state_ok
      [where current = "[(''a'', JNull)]" and g = "''g''"
         and update = "JObj PlainProto [(''a'', JBool True)]"])
     (simp_all add: state_ok_def reduce_unfold)

section \<open>The shipped reducers\<close>

text \<open>\<open>V | readonly V[]\<close>, told apart by \<open>Array.isArray\<close>.\<close>

datatype 'v one_or_many = One 'v | Many "'v list"

fun additions :: "'v one_or_many \<Rightarrow> 'v list" where
  "additions (One v) = [v]"
| "additions (Many vs) = vs"

definition reduce_replace :: "'v \<Rightarrow> 'v \<Rightarrow> 'v" where
  "reduce_replace current update = update"

text \<open>Addition of IEEE numbers, exact in the safe integer range.\<close>

fun reduce_add :: "jsnum \<Rightarrow> jsnum \<Rightarrow> jsnum" where
  "reduce_add NaN _ = NaN"
| "reduce_add _ NaN = NaN"
| "reduce_add PosInf NegInf = NaN"
| "reduce_add NegInf PosInf = NaN"
| "reduce_add PosInf _ = PosInf"
| "reduce_add _ PosInf = PosInf"
| "reduce_add NegInf _ = NegInf"
| "reduce_add _ NegInf = NegInf"
| "reduce_add NegZero n = n"
| "reduce_add n NegZero = n"
| "reduce_add (Finite a) (Finite b) = Finite (a + b)"

definition reduce_append :: "'v list \<Rightarrow> 'v one_or_many \<Rightarrow> 'v list" where
  "reduce_append current update = current @ additions update"

fun union_loop :: "'v list \<Rightarrow> 'v list \<Rightarrow> 'v list \<Rightarrow> 'v list" where
  "union_loop seen acc [] = acc"
| "union_loop seen acc (v # vs) =
     (if v \<in> set seen then union_loop seen acc vs
      else union_loop (v # seen) (acc @ [v]) vs)"

definition reduce_union :: "'v list \<Rightarrow> 'v one_or_many \<Rightarrow> 'v list" where
  "reduce_union current update = union_loop current current (additions update)"

datatype 'v collection_update = CAdd "'v list" | CRemove "string list" | CClear

text \<open>Replaces the first value with the same identity in place, else appends.\<close>

fun upsert :: "('v \<Rightarrow> string) \<Rightarrow> 'v \<Rightarrow> 'v list \<Rightarrow> 'v list" where
  "upsert identity v [] = [v]"
| "upsert identity v (x # xs) =
     (if identity x = identity v then v # xs else x # upsert identity v xs)"

fun reduce_collection ::
    "('v \<Rightarrow> string) \<Rightarrow> 'v list \<Rightarrow> 'v collection_update \<Rightarrow> 'v list" where
  "reduce_collection identity current CClear = []"
| "reduce_collection identity current (CRemove ids) =
     filter (\<lambda>v. identity v \<notin> set ids) current"
| "reduce_collection identity current (CAdd vs) =
     fold (upsert identity) vs current"

datatype 'v optional_update = OSet 'v | OClear

fun reduce_optional :: "'v option \<Rightarrow> 'v optional_update \<Rightarrow> 'v option" where
  "reduce_optional current OClear = None"
| "reduce_optional current (OSet v) = Some v"

lemma union_loop_appends:
  "\<exists>added. union_loop seen acc vs = acc @ added \<and> distinct added \<and>
     set added = set vs - set seen"
proof (induction vs arbitrary: seen acc)
  case (Cons v vs)
  show ?case
  proof (cases "v \<in> set seen")
    case True
    with Cons.IH [of seen acc] show ?thesis by auto
  next
    case False
    obtain added where "union_loop (v # seen) (acc @ [v]) vs = (acc @ [v]) @ added"
      "distinct added" "set added = set vs - set (v # seen)"
      using Cons.IH [of "v # seen" "acc @ [v]"] by blast
    with False show ?thesis by (auto intro!: exI [of _ "v # added"])
  qed
qed simp

text \<open>
  \<open>reduce.union\<close> keeps the current members in place and appends exactly the new ones, each once;
  so a list without duplicates stays one.
\<close>

theorem union_appends_only_new_members:
  "\<exists>added. reduce_union current update = current @ added \<and> distinct added \<and>
     set added = set (additions update) - set current"
  unfolding reduce_union_def by (rule union_loop_appends)

definition lookup_by :: "('v \<Rightarrow> string) \<Rightarrow> 'v list \<Rightarrow> string \<Rightarrow> 'v option" where
  "lookup_by identity xs i = find (\<lambda>v. identity v = i) xs"

lemma lookup_by_simps:
  "lookup_by identity [] i = None"
  "lookup_by identity (xs @ [v]) i =
     (case lookup_by identity xs i of
        Some x \<Rightarrow> Some x | None \<Rightarrow> if identity v = i then Some v else None)"
  by (auto simp: lookup_by_def find_append split: option.splits)

lemma lookup_upsert:
  "lookup_by identity (upsert identity v xs) i =
     (if i = identity v then Some v else lookup_by identity xs i)"
  by (induction xs) (auto simp: lookup_by_def)

lemma ids_upsert:
  "map identity (upsert identity v xs) =
     (if identity v \<in> identity ` set xs then map identity xs else map identity xs @ [identity v])"
  by (induction xs) auto

lemma lookup_fold_upsert:
  "lookup_by identity (fold (upsert identity) vs xs) i =
     (case lookup_by identity (rev vs) i of Some v \<Rightarrow> Some v | None \<Rightarrow> lookup_by identity xs i)"
  by (induction vs arbitrary: xs)
     (auto simp: lookup_upsert lookup_by_simps split: option.splits)

lemma distinct_fold_upsert:
  "distinct (map identity xs) \<Longrightarrow> distinct (map identity (fold (upsert identity) vs xs))"
  by (induction vs arbitrary: xs) (simp_all add: ids_upsert)

lemma lookup_filter:
  "lookup_by identity (filter (\<lambda>v. identity v \<notin> A) xs) i =
     (if i \<in> A then None else lookup_by identity xs i)"
  by (induction xs) (auto simp: lookup_by_def)

text \<open>What a collection promises: a finite map from identities to values.\<close>

definition abs_update :: "('v \<Rightarrow> string) \<Rightarrow> 'v collection_update \<Rightarrow>
    (string \<rightharpoonup> 'v) \<Rightarrow> (string \<rightharpoonup> 'v)" where
  "abs_update identity u m =
     (case u of
        CClear \<Rightarrow> Map.empty
      | CRemove ids \<Rightarrow> m |` (- set ids)
      | CAdd vs \<Rightarrow> m ++ lookup_by identity (rev vs))"

text \<open>
  C18: \<open>reduce.collection\<close> refines a map from identities to values. Adding overwrites with the last
  value given for an identity, removing forgets the named ones, and identities stay unique.
\<close>

theorem collection_refines_map:
  assumes "distinct (map identity current)"
  shows "lookup_by identity (reduce_collection identity current u) =
           abs_update identity u (lookup_by identity current) \<and>
         distinct (map identity (reduce_collection identity current u))"
proof (cases u)
  case (CAdd vs)
  with assms show ?thesis
    by (auto simp: abs_update_def fun_eq_iff lookup_fold_upsert map_add_def
        intro: distinct_fold_upsert split: option.splits)
next
  case (CRemove ids)
  with assms show ?thesis
    by (auto simp: abs_update_def fun_eq_iff lookup_filter restrict_map_def distinct_map_filter)
next
  case CClear
  then show ?thesis by (auto simp: abs_update_def lookup_by_def fun_eq_iff)
qed

theorem collection_refines_map_witness:
  "lookup_by id (reduce_collection id [''x'', ''y''] (CRemove [''x''])) =
     abs_update id (CRemove [''x'']) (lookup_by id [''x'', ''y'']) \<and>
   distinct (map id (reduce_collection id [''x'', ''y''] (CRemove [''x''])))"
  by (rule collection_refines_map) simp

end
