(* ===== verification/Results.thy ===== *)
theory Results
  imports Reducers
begin

text \<open>
  What a node function hands back: \<^verbatim>\<open>apps/runtime/src/workflows/engine/results.ts\<close> and
  the brand test of \<^verbatim>\<open>packages/workflow-sdk/src/brand.ts\<close>. The whole result is
  checked before it is saved, and the saved JSON is all a Retry ever reuses; \<open>wait_view\<close> is how
  the engine reads a saved wait back, and a validated result always reads back as a wait.
\<close>

section \<open>Brands\<close>

definition workflow_contract_version :: int where
  "workflow_contract_version = 5"

definition is_workflow_branded :: "jsval \<Rightarrow> string \<Rightarrow> bool" where
  "is_workflow_branded value kind =
     (js_typeof value = TObject \<and> value \<noteq> JNull \<and>
      get_prop value ''isagiContract'' = JNum (Finite workflow_contract_version) \<and>
      get_prop value ''isagiKind'' = JStr kind)"

section \<open>Validation\<close>

datatype result_message =
    NotAnOperationResult
  | UnknownResultType jsval
  | MustDeclareWait
  | UnknownWaitKind jsval
  | AgentWaitNeedsTarget
  | UserInputNeedsQuestion
  | HeadlessNeedsOperation
  | HeadlessMemberNotHandle

text \<open>\<open>SavedResult\<close>: the checked result, before it is written.\<close>

datatype 'v saved_result =
    Complete (saved_update: "'v option") (saved_checkpoint: "nat option")
  | Suspend (saved_update: "'v option") (saved_wait: 'v)

definition wait_kinds :: "string list" where
  "wait_kinds = [''agent_turn'', ''user_continue'', ''user_input'', ''headless_agent'']"

definition is_headless_handle :: "jsval \<Rightarrow> bool" where
  "is_headless_handle handle =
     (is_plain_object handle \<and> js_typeof (get_prop handle ''operationId'') = TString)"

definition validate_wait_declaration :: "jsval \<Rightarrow> result_message + jsval" where
  "validate_wait_declaration value =
     (if \<not> is_plain_object value then Inl MustDeclareWait
      else case get_prop value ''kind'' of
        JStr kind \<Rightarrow>
          if kind \<notin> set wait_kinds then Inl (UnknownWaitKind (JStr kind))
          else if kind = ''agent_turn'' then
            (let target = get_prop value ''target''
             in if \<not> is_plain_object target \<or>
                   js_typeof (get_prop target ''agentSessionId'') \<noteq> TNumber \<or>
                   js_typeof (get_prop target ''sentAt'') \<noteq> TString
                then Inl AgentWaitNeedsTarget else Inr value)
          else if kind = ''user_continue'' then
            Inr (JObj PlainProto
              ((''kind'', JStr ''user_continue'') #
               (case get_prop value ''label'' of JStr l \<Rightarrow> [(''label'', JStr l)] | _ \<Rightarrow> [])))
          else if kind = ''user_input'' then
            (case get_prop value ''questions'' of
               JArr (q # qs) \<Rightarrow> Inr value
             | _ \<Rightarrow> Inl UserInputNeedsQuestion)
          else
            (case get_prop value ''operations'' of
               JArr (h # hs) \<Rightarrow>
                 if \<forall>handle \<in> set (h # hs). is_headless_handle handle then Inr value
                 else Inl HeadlessMemberNotHandle
             | _ \<Rightarrow> Inl HeadlessNeedsOperation)
      | other \<Rightarrow> Inl (UnknownWaitKind other))"

definition validate_operation_result :: "jsval \<Rightarrow> result_message + jsval saved_result" where
  "validate_operation_result value =
     (if \<not> is_workflow_branded value ''operation-result'' then Inl NotAnOperationResult
      else let update = (case get_prop value ''update'' of JUndefined \<Rightarrow> None | u \<Rightarrow> Some u)
           in if get_prop value ''type'' = JStr ''complete'' then Inr (Complete update None)
              else if get_prop value ''type'' \<noteq> JStr ''suspend''
              then Inl (UnknownResultType (get_prop value ''type''))
              else case validate_wait_declaration (get_prop value ''wait'') of
                     Inl m \<Rightarrow> Inl m
                   | Inr w \<Rightarrow> Inr (Suspend update w))"

section \<open>The saved column\<close>

text \<open>The object \<open>checkSerializable\<close> and \<open>toJson\<close> are given.\<close>

fun result_object :: "jsval saved_result \<Rightarrow> jsval" where
  "result_object (Complete u cp) =
     JObj PlainProto ((''type'', JStr ''complete'') #
       (case u of None \<Rightarrow> [] | Some v \<Rightarrow> [(''update'', v)]) @
       (case cp of None \<Rightarrow> [] | Some i \<Rightarrow> [(''checkpointId'', JNum (Finite (int i)))]))"
| "result_object (Suspend u w) =
     JObj PlainProto ((''type'', JStr ''suspend'') #
       (case u of None \<Rightarrow> [] | Some v \<Rightarrow> [(''update'', v)]) @ [(''wait'', w)])"

text \<open>\<open>toJson\<close> of that object, field by field; a field with nothing to write is absent.\<close>

definition json_or_null :: "jsval \<Rightarrow> json" where
  "json_or_null v = (case to_json v of None \<Rightarrow> JsonNull | Some j \<Rightarrow> j)"

fun stored_result :: "jsval saved_result \<Rightarrow> json saved_result" where
  "stored_result (Complete u cp) = Complete (Option.bind u to_json) cp"
| "stored_result (Suspend u w) = Suspend (Option.bind u to_json) (json_or_null w)"

text \<open>Reading \<open>result.wait\<close> back by its properties.\<close>

datatype wait =
    AgentTurn int string
  | UserContinue "string option"
  | UserInput "json list"
  | HeadlessAgent "string list"

fun json_prop :: "json \<Rightarrow> string \<Rightarrow> json option" where
  "json_prop (JsonObj ps) k = map_of ps k"
| "json_prop _ k = None"

fun handle_id :: "json \<Rightarrow> string option" where
  "handle_id j = (case json_prop j ''operationId'' of Some (JsonStr s) \<Rightarrow> Some s | _ \<Rightarrow> None)"

definition wait_view :: "json \<Rightarrow> wait option" where
  "wait_view w =
     (case json_prop w ''kind'' of
        Some (JsonStr kind) \<Rightarrow>
          if kind = ''agent_turn'' then
            (case json_prop w ''target'' of
               Some t \<Rightarrow>
                 (case (json_prop t ''agentSessionId'', json_prop t ''sentAt'') of
                    (Some (JsonNum i), Some (JsonStr s)) \<Rightarrow> Some (AgentTurn i s)
                  | _ \<Rightarrow> None)
             | None \<Rightarrow> None)
          else if kind = ''user_continue'' then
            Some (UserContinue
              (case json_prop w ''label'' of Some (JsonStr l) \<Rightarrow> Some l | _ \<Rightarrow> None))
          else if kind = ''user_input'' then
            (case json_prop w ''questions'' of Some (JsonArr qs) \<Rightarrow> Some (UserInput qs) | _ \<Rightarrow> None)
          else if kind = ''headless_agent'' then
            (case json_prop w ''operations'' of
               Some (JsonArr hs) \<Rightarrow> map_option HeadlessAgent (those (map handle_id hs))
             | _ \<Rightarrow> None)
          else None
      | _ \<Rightarrow> None)"

section \<open>A validated result is readable\<close>

lemma plain_objectE:
  assumes "is_plain_object v"
  obtains c ps where "v = JObj c ps" "c = PlainProto \<or> c = NullProto"
proof -
  from assms obtain ps where "plain_props v = Some ps" by (auto simp: is_plain_object_def)
  then show thesis using that by (cases v rule: plain_props.cases) auto
qed

lemma to_json_serializable: "serializable v \<Longrightarrow> \<exists>j. to_json v = Some j"
proof (cases v)
  case (JObj c ps)
  assume "serializable v"
  with JObj show ?thesis by auto
qed auto

lemma map_of_to_json_props:
  "serializable_props ps \<Longrightarrow> map_of (to_json_props ps) k = Option.bind (map_of ps k) to_json"
proof (induction ps)
  case (Cons p ps)
  obtain j v where p: "p = (j, v)" by (cases p)
  with Cons.prems to_json_serializable [of v] obtain w where "to_json v = Some w" by auto
  with Cons p show ?case by auto
qed simp

text \<open>A property of a storable plain object is stored under its name.\<close>

lemma json_prop_stored:
  assumes "serializable (JObj c ps)"
  shows "to_json (JObj c ps) = Some (JsonObj (to_json_props ps)) \<and>
         json_prop (JsonObj (to_json_props ps)) k = Option.bind (map_of ps k) to_json"
  using assms by (auto simp: map_of_to_json_props)

lemma serializable_member: "serializable_props ps \<Longrightarrow> map_of ps k = Some v \<Longrightarrow> serializable v"
  by (auto simp: serializable_props_iff dest: map_of_SomeD)

lemma json_prop_of_get_prop:
  assumes "serializable (JObj c ps)" and "get_prop (JObj c ps) k = v" and "v \<noteq> JUndefined"
  shows "json_prop (json_or_null (JObj c ps)) k = to_json v \<and> serializable v"
proof -
  from assms(2,3) have m: "map_of ps k = Some v"
    by (auto simp: own_or_undefined_def split: option.splits)
  moreover from assms(1) have "serializable_props ps" by auto
  ultimately show ?thesis
    using json_prop_stored [OF assms(1), of k] serializable_member by (auto simp: json_or_null_def)
qed

lemma handle_ids_stored:
  assumes "\<forall>h \<in> set hs. is_headless_handle h" and "serializable_elems hs"
  shows "\<exists>ids. those (map handle_id (to_json_elems hs)) = Some ids"
  using assms
proof (induction hs)
  case (Cons h hs)
  from Cons.prems(1) obtain c ps where h: "h = JObj c ps"
    by (auto simp: is_headless_handle_def elim: plain_objectE)
  with Cons.prems(1) obtain s where s: "get_prop h ''operationId'' = JStr s"
    by (auto simp: is_headless_handle_def elim: js_typeof.elims)
  from Cons.prems(2) h have ser: "serializable (JObj c ps)" by auto
  have "json_prop (json_or_null h) ''operationId'' = Some (JsonStr s)"
    using json_prop_of_get_prop [OF ser, of "''operationId''" "JStr s"] h s by simp
  then have "handle_id (json_or_null h) = Some s" by simp
  moreover have "to_json_elems (h # hs) = json_or_null h # to_json_elems hs"
    by (simp add: json_or_null_def)
  ultimately show ?case using Cons by auto
qed simp

lemma typeof_stringE:
  assumes "js_typeof v = TString" obtains s where "v = JStr s"
  using assms by (cases v) auto

lemma typeof_numberE:
  assumes "js_typeof v = TNumber" obtains n where "v = JNum n"
  using assms by (cases v) auto

text \<open>The four kinds of wait, each read back from its stored document.\<close>

lemma agent_wait_readable:
  assumes "serializable (JObj c ps)" and "get_prop (JObj c ps) ''kind'' = JStr ''agent_turn''"
    and "is_plain_object (get_prop (JObj c ps) ''target'')"
    and "js_typeof (get_prop (get_prop (JObj c ps) ''target'') ''agentSessionId'') = TNumber"
    and "js_typeof (get_prop (get_prop (JObj c ps) ''target'') ''sentAt'') = TString"
  shows "\<exists>i s. wait_view (json_or_null (JObj c ps)) = Some (AgentTurn i s)"
proof -
  obtain d qs where t: "get_prop (JObj c ps) ''target'' = JObj d qs"
    using assms(3) by (rule plain_objectE)
  obtain n where n: "get_prop (JObj d qs) ''agentSessionId'' = JNum n"
    using assms(4) unfolding t by (rule typeof_numberE)
  obtain s where s: "get_prop (JObj d qs) ''sentAt'' = JStr s"
    using assms(5) unfolding t by (rule typeof_stringE)
  have k: "json_prop (json_or_null (JObj c ps)) ''kind'' = Some (JsonStr ''agent_turn'')"
    using json_prop_of_get_prop [OF assms(1) assms(2)] by simp
  have tj: "json_prop (json_or_null (JObj c ps)) ''target'' = to_json (JObj d qs)"
    and ser: "serializable (JObj d qs)"
    using json_prop_of_get_prop [OF assms(1) t] by auto
  have tj': "to_json (JObj d qs) = Some (json_or_null (JObj d qs))"
    using to_json_serializable [OF ser] by (auto simp: json_or_null_def)
  have i: "json_prop (json_or_null (JObj d qs)) ''agentSessionId'' = Some (json_of_num n)"
    and nser: "serializable (JNum n)"
    using json_prop_of_get_prop [OF ser n] by auto
  obtain m where m: "json_of_num n = JsonNum m"
    using nser by (cases n) (auto simp: json_of_num_def)
  have st: "json_prop (json_or_null (JObj d qs)) ''sentAt'' = Some (JsonStr s)"
    using json_prop_of_get_prop [OF ser s] by simp
  show ?thesis
    using k i m st unfolding wait_view_def tj tj' by simp
qed

lemma user_input_readable:
  assumes "serializable (JObj c ps)" and "get_prop (JObj c ps) ''kind'' = JStr ''user_input''"
    and "get_prop (JObj c ps) ''questions'' = JArr qs"
  shows "\<exists>js. wait_view (json_or_null (JObj c ps)) = Some (UserInput js)"
proof -
  have "json_prop (json_or_null (JObj c ps)) ''kind'' = Some (JsonStr ''user_input'')"
    using json_prop_of_get_prop [OF assms(1,2)] by simp
  moreover have "json_prop (json_or_null (JObj c ps)) ''questions'' = Some (JsonArr (to_json_elems qs))"
    using json_prop_of_get_prop [OF assms(1,3)] by simp
  ultimately show ?thesis by (simp add: wait_view_def)
qed

lemma headless_readable:
  assumes "serializable (JObj c ps)" and "get_prop (JObj c ps) ''kind'' = JStr ''headless_agent''"
    and "get_prop (JObj c ps) ''operations'' = JArr hs" and "\<forall>h \<in> set hs. is_headless_handle h"
  shows "\<exists>ids. wait_view (json_or_null (JObj c ps)) = Some (HeadlessAgent ids)"
proof -
  have "json_prop (json_or_null (JObj c ps)) ''kind'' = Some (JsonStr ''headless_agent'')"
    using json_prop_of_get_prop [OF assms(1,2)] by simp
  moreover have ops: "json_prop (json_or_null (JObj c ps)) ''operations'' = Some (JsonArr (to_json_elems hs))"
    and "serializable (JArr hs)"
    using json_prop_of_get_prop [OF assms(1,3)] by auto
  then have "\<exists>ids. those (map handle_id (to_json_elems hs)) = Some ids"
    using assms(4) by (intro handle_ids_stored) auto
  ultimately show ?thesis using ops by (auto simp: wait_view_def)
qed

lemma validated_wait_readable:
  assumes "validate_wait_declaration v = Inr w" and "serializable w"
  shows "\<exists>wt. wait_view (json_or_null w) = Some wt"
proof -
  from assms(1) have "is_plain_object v"
    by (auto simp: validate_wait_declaration_def split: if_splits)
  then obtain c ps where v: "v = JObj c ps" by (rule plain_objectE)
  from assms(1) obtain kind where kind: "get_prop v ''kind'' = JStr kind"
    by (auto simp: validate_wait_declaration_def split: if_splits jsval.splits)
  with assms(1) have "kind \<in> set wait_kinds"
    by (auto simp: validate_wait_declaration_def split: if_splits)
  then consider (agent) "kind = ''agent_turn''" | (continue) "kind = ''user_continue''"
    | (input) "kind = ''user_input''" | (headless) "kind = ''headless_agent''"
    by (auto simp: wait_kinds_def)
  then show ?thesis
  proof cases
    case agent
    with assms(1) kind have "w = v" "is_plain_object (get_prop v ''target'')"
      "js_typeof (get_prop (get_prop v ''target'') ''agentSessionId'') = TNumber"
      "js_typeof (get_prop (get_prop v ''target'') ''sentAt'') = TString"
      by (auto simp: validate_wait_declaration_def Let_def split: if_splits)
    with agent kind v assms(2) agent_wait_readable [of c ps] show ?thesis by fastforce
  next
    case continue
    with assms(1) kind obtain qs where w: "w = JObj PlainProto ((''kind'', JStr ''user_continue'') # qs)"
      by (auto simp: validate_wait_declaration_def split: if_splits)
    have "json_prop (json_or_null w) ''kind'' = Some (JsonStr ''user_continue'')"
      using w by (simp add: json_or_null_def)
    then show ?thesis by (simp add: wait_view_def)
  next
    case input
    with assms(1) kind obtain qs where "w = v" "get_prop v ''questions'' = JArr qs"
      by (auto simp: validate_wait_declaration_def split: if_splits jsval.splits list.splits)
    with input kind v assms(2) user_input_readable [of c ps qs] show ?thesis by fastforce
  next
    case headless
    with assms(1) kind obtain hs where "w = v" "get_prop v ''operations'' = JArr hs"
      "\<forall>h \<in> set hs. is_headless_handle h"
      by (auto simp: validate_wait_declaration_def split: if_splits jsval.splits list.splits)
    with headless kind v assms(2) headless_readable [of c ps hs] show ?thesis by fastforce
  qed
qed

text \<open>
  C26: a suspend that passes validation and the serialization gate is saved with a wait the engine
  can read back: none of the readings of a stored wait can fail.
\<close>

theorem saved_suspend_has_readable_wait:
  assumes "validate_operation_result v = Inr (Suspend u w)"
    and "check_serializable (result_object (Suspend u w)) ''result'' = None"
  shows "\<exists>u' w' wt. stored_result (Suspend u w) = Suspend u' w' \<and> wait_view w' = Some wt"
proof -
  have "validate_wait_declaration (get_prop v ''wait'') = Inr w"
    using assms(1) by (auto simp: validate_operation_result_def Let_def split: if_splits sum.splits)
  moreover have "serializable w"
    using assms(2) by (auto simp: check_serializable_None serializable_props_iff)
  ultimately show ?thesis using validated_wait_readable by auto
qed

theorem saved_suspend_has_readable_wait_witness:
  "\<exists>u' w' wt. stored_result (Suspend None (JObj PlainProto [(''kind'', JStr ''headless_agent''),
       (''operations'', JArr [JObj PlainProto [(''operationId'', JStr ''7'')]])])) = Suspend u' w' \<and>
     wait_view w' = Some wt"
  by (rule saved_suspend_has_readable_wait
        [of "JObj PlainProto [(''isagiContract'', JNum (Finite 5)),
          (''isagiKind'', JStr ''operation-result''), (''type'', JStr ''suspend''),
          (''wait'', JObj PlainProto [(''kind'', JStr ''headless_agent''),
            (''operations'', JArr [JObj PlainProto [(''operationId'', JStr ''7'')]])])]"])
     (simp_all add: validate_operation_result_def is_workflow_branded_def
        workflow_contract_version_def validate_wait_declaration_def wait_kinds_def
        is_headless_handle_def is_plain_object_def own_or_undefined_def check_serializable_None)

end
