(* ===== verification/Rows.thy ===== *)
theory Rows
  imports Results "HOL-Library.List_Lexorder" "HOL-Library.Char_ord"
begin

text \<open>
  The rows a run leaves behind: \<^verbatim>\<open>apps/runtime/src/workflows/tables.ts\<close> and
  \<^verbatim>\<open>store/rows.ts\<close>, with the status and kind literals of
  \<^verbatim>\<open>packages/contracts/src/workflows\<close>. A \<open>*_json\<close> column holds the document it encodes. Texts built by
  template literals (event messages, failure messages) are kept as the list of their parts.
\<close>

section \<open>Literal sets\<close>

datatype run_status = Preparing | Running | Waiting | Paused | Completed | Failed | Cancelled

datatype invocation_status = InvRunning | InvCompleted | InvCancelled

datatype execution_status =
  ExRunning | ExWaiting | ExCompleted | ExFailed | ExInterrupted | ExCancelled

datatype operation_status = OpRunning | OpCompleted | OpFailed | OpInterrupted

datatype operation_kind = SpawnAgent | SendPrompt | RunHeadless | ClosePane

datatype node_kind = KindOperation | KindSubgraph | KindCheckpoint

datatype outcome_kind = SuccessOutcome | FailureOutcome

datatype stage =
    StageEnvironment | StageGraphInit | StageSubgraphParameters | StageNodeFunction | StageReducer
  | StageEdge | StageGraphOutput | StageSubgraphOnResult | StageCheckpointPlan | StageCheckpointCapture

datatype ev_category = CatRun | CatEnvironment | CatNode | CatLog | CatUi

datatype ev_kind =
    RunLaunched | RunPaused | RunResumed | RunRetried | RunCancelled | RunDismissed | RunCompleted
  | RunFailed | CodeReloaded | StopFailed
  | WorktreeCreated | SetupFinished | SetupFailed | SurfaceCreated | PreparationFailed
  | GraphEntered | GraphCompleted | NodeStarted | NodeWaiting | WaitDelivered | NodeCompleted
  | NodeFailed | NodeInterrupted | CheckpointCaptured | OperationStarted | OperationFinished
  | LogEvent | UiFeedback

section \<open>Instants and texts\<close>

text \<open>
  \<open>now()\<close>: an ISO instant. The strings \<open>toISOString\<close> writes have one format, on which \<open>>=\<close> and
  \<open>localeCompare\<close> order alike: character by character.
\<close>

datatype instant = Instant (iso_text: string)

instantiation instant :: linorder
begin

definition less_eq_instant :: "instant \<Rightarrow> instant \<Rightarrow> bool" where
  "less_eq_instant a b = (iso_text a \<le> iso_text b)"

definition less_instant :: "instant \<Rightarrow> instant \<Rightarrow> bool" where
  "less_instant a b = (iso_text a < iso_text b)"

instance
  by standard (auto simp: less_eq_instant_def less_instant_def instant.expand)

end

datatype part =
    Lit string | Quoted string | Arrow | LabelPart utf16 | NumPart int
  | ErrPart err_text | PurePart pure_message | ReducePart reduce_message
  | DeclaredPart declared_message | ResultPart result_message | UnstorablePart unserializable
  | OutcomeKindPart outcome_kind | OpStatusPart operation_status

type_synonym msg = "part list"

text \<open>\<open>label ?? id\<close>\<close>

definition name_or :: "utf16 option \<Rightarrow> string \<Rightarrow> part" where
  "name_or label i = (case label of Some l \<Rightarrow> LabelPart l | None \<Rightarrow> Lit i)"

section \<open>Errors, outcomes, placements\<close>

text \<open>\<open>WorkflowErrorDto\<close>, the \<open>error_json\<close> of a run or execution.\<close>

record run_error =
  re_stage :: stage
  re_message :: msg
  re_graph :: "string option"
  re_node :: "string option"

text \<open>\<open>WorkflowOutcomeDto\<close>: \<open>'v\<close> is the output as computed (\<open>jsval\<close>) or as stored (\<open>json\<close>).\<close>

record 'v outcome =
  oc_id :: string
  oc_kind :: outcome_kind
  oc_reason :: "string option"
  oc_output :: 'v

definition stored_outcome :: "jsval outcome \<Rightarrow> json outcome" where
  "stored_outcome oc =
     \<lparr>oc_id = oc_id oc, oc_kind = oc_kind oc, oc_reason = oc_reason oc,
      oc_output = json_or_null (oc_output oc)\<rparr>"

datatype worktree_choice = CurrentWorktree | ExistingWorktree nat | CreateWorktree string string

datatype surface_choice = CurrentSurface | ExistingSurface nat | CreateSurface string

datatype placement_source = DefaultPlacement | SelectorPlacement | OverridePlacement

record run_placement =
  rp_source :: placement_source
  rp_worktree :: worktree_choice
  rp_surface :: surface_choice
  rp_base_commit :: "string option"

section \<open>Rows\<close>

record artifact_row =
  a_hash :: string
  a_workflow_key :: string
  a_sdk_version :: string
  a_verifier_version :: string
  a_contract_version :: nat
  a_structure :: json
  a_first_seen_at :: instant

record run_row =
  r_id :: nat
  r_project_id :: nat
  r_workflow_key :: string
  r_title :: string
  r_artifact_hash :: string
  r_status :: run_status
  r_inputs :: json
  r_parameters :: json
  r_placement :: run_placement
  r_origin_worktree_id :: nat
  r_origin_worktree_path :: string
  r_origin_surface_id :: "nat option"
  r_origin_pane_id :: "nat option"
  r_origin_agent_session_id :: "nat option"
  r_worktree_id :: "nat option"
  r_worktree_path :: "string option"
  r_setup_done :: bool
  r_surface_id :: "nat option"
  r_error :: "run_error option"
  r_outcome :: "json outcome option"
  r_created_at :: instant
  r_updated_at :: instant
  r_ended_at :: "instant option"

record invocation_row =
  i_id :: nat
  i_run_id :: nat
  i_parent :: "nat option"
  i_graph_key :: string
  i_depth :: nat
  i_label :: "utf16 option"
  i_parameters :: json
  i_state :: json
  i_status :: invocation_status
  i_outcome :: "json outcome option"
  i_started_at :: instant
  i_ended_at :: "instant option"

text \<open>\<open>decision_json\<close> is \<open>{ to, update? }\<close>.\<close>

record execution_row =
  x_id :: nat
  x_run_id :: nat
  x_invocation_id :: nat
  x_node_id :: string
  x_node_kind :: node_kind
  x_visit_index :: nat
  x_label :: "utf16 option"
  x_artifact_hash :: string
  x_status :: execution_status
  x_retry_of :: "nat option"
  x_result :: "json saved_result option"
  x_event :: "json option"
  x_decision :: "(string \<times> json option) option"
  x_state_after :: "json option"
  x_child :: "nat option"
  x_checkpoint :: "nat option"
  x_error :: "run_error option"
  x_started_at :: instant
  x_ended_at :: "instant option"

record operation_row =
  o_id :: nat
  o_run_id :: nat
  o_execution_id :: nat
  o_seq :: nat
  o_kind :: operation_kind
  o_agent_session_id :: "int option"
  o_pane_id :: "nat option"
  o_harness :: "string option"
  o_model :: "string option"
  o_effort :: "string option"
  o_request :: json
  o_status :: operation_status
  o_response_text :: "string option"
  o_result :: "json option"
  o_harness_session_id :: "string option"
  o_usage :: "json option"
  o_started_at :: instant
  o_ended_at :: "instant option"

text \<open>\<open>data_json\<close>, one constructor per shape the engine appends.\<close>

datatype ev_data =
    NoData
  | DataTo string
  | DataFinished nat "json outcome"
  | DataOutcome "json outcome"
  | DataEntered nat string
  | DataStarted string node_kind "nat option"
  | DataError run_error
  | DataReason string
  | DataRetry nat bool
  | DataReload string string
  | DataSurface "nat option"
  | DataJson json
  | DataOperation nat operation_kind "operation_status option"
  | DataStage stage
  | DataMessage msg
  | DataLog string msg
  | DataCheckpoint nat
  | DataLaunched string string run_placement
  | DataWorktree nat "string option" string "string option"

record event_row =
  e_id :: nat
  e_run_id :: nat
  e_execution_id :: "nat option"
  e_at :: instant
  e_category :: ev_category
  e_kind :: ev_kind
  e_message :: msg
  e_data :: ev_data

record checkpoint_row =
  c_id :: nat
  c_run_id :: nat
  c_execution_id :: nat
  c_title :: string
  c_label :: "utf16 option"
  c_commit_sha :: "string option"
  c_scopes :: json
  c_created_at :: instant

text \<open>The seven tables.\<close>

record db =
  d_artifacts :: "artifact_row list"
  d_runs :: "run_row table"
  d_invocations :: "invocation_row table"
  d_executions :: "execution_row table"
  d_operations :: "operation_row table"
  d_events :: "event_row table"
  d_checkpoints :: "checkpoint_row table"

definition empty_db :: db where
  "empty_db = \<lparr>d_artifacts = [], d_runs = tab_empty, d_invocations = tab_empty,
     d_executions = tab_empty, d_operations = tab_empty, d_events = tab_empty,
     d_checkpoints = tab_empty\<rparr>"

definition db_wf :: "db \<Rightarrow> bool" where
  "db_wf db =
     (tab_wf r_id (d_runs db) \<and> tab_wf i_id (d_invocations db) \<and>
      tab_wf x_id (d_executions db) \<and> tab_wf o_id (d_operations db) \<and>
      tab_wf e_id (d_events db) \<and> tab_wf c_id (d_checkpoints db))"

lemma empty_db_wf: "db_wf empty_db"
  by (simp add: db_wf_def empty_db_def tab_wf_def tab_empty_def)

text \<open>
  \<open>storedParameters\<close>: a run's root parameters as placement and the root graph's \<open>init\<close> receive
  them; a stored null is handed over as \<open>undefined\<close>.
\<close>

definition stored_parameters :: "json \<Rightarrow> jsval" where
  "stored_parameters j = (if j = JsonNull then JUndefined else from_json j)"

text \<open>\<open>toNullableJson\<close>\<close>

definition to_nullable_json :: "jsval \<Rightarrow> json option" where
  "to_nullable_json v = (if v = JUndefined \<or> v = JNull then None else to_json v)"

end
