(* ===== verification/Store.thy ===== *)
theory Store
  imports Rows
begin

text \<open>
  The store: \<^verbatim>\<open>apps/runtime/src/workflows/store/{runs,tree,operations,events}.ts\<close>. Each
  function reads or writes the rows of one table. \<open>at\<close> is the clock: a transaction is synchronous,
  and its readings of \<open>now()\<close> are taken as one. A function that throws returns \<open>Inl\<close>, and the
  transaction it runs in is then rolled back. Every table is an instance of the \<open>row_store\<close> interface,
  whose laws are proved here for the store's own lookups and writes.
\<close>

section \<open>What a transaction can throw\<close>

datatype thrown_error =
    RunMissing nat
  | RowMissing string
  | ExecutionMissing nat

definition and_then :: "'e + 'a \<Rightarrow> ('a \<Rightarrow> 'e + 'b) \<Rightarrow> 'e + 'b" where
  "and_then r f = (case r of Inl e \<Rightarrow> Inl e | Inr a \<Rightarrow> f a)"

definition map_ok :: "('a \<Rightarrow> 'b) \<Rightarrow> 'e + 'a \<Rightarrow> 'e + 'b" where
  "map_ok f r = (case r of Inl e \<Rightarrow> Inl e | Inr a \<Rightarrow> Inr (f a))"

lemma and_then_simps [simp]:
  "and_then (Inl e) f = Inl e" "and_then (Inr a) f = f a"
  "map_ok g (Inl e) = Inl e" "map_ok g (Inr a) = Inr (g a)"
  by (simp_all add: and_then_def map_ok_def)

lemma and_then_Inr: "(and_then r f = Inr b) = (\<exists>a. r = Inr a \<and> f a = Inr b)"
  by (cases r) auto

lemma map_ok_Inr: "(map_ok g r = Inr b) = (\<exists>a. r = Inr a \<and> b = g a)"
  by (cases r) auto

section \<open>Runs and artifacts\<close>

definition active_run_statuses :: "run_status list" where
  "active_run_statuses = [Preparing, Running, Waiting, Paused]"

definition finished_run_statuses :: "run_status list" where
  "finished_run_statuses = [Completed, Failed, Cancelled]"

definition get_artifact :: "db \<Rightarrow> string \<Rightarrow> artifact_row option" where
  "get_artifact db hash = find (\<lambda>a. a_hash a = hash) (d_artifacts db)"

text \<open>Content-addressed: a hash that is already there keeps its row.\<close>

definition insert_artifact :: "artifact_row \<Rightarrow> db \<Rightarrow> db" where
  "insert_artifact a db =
     (if get_artifact db (a_hash a) = None then db\<lparr>d_artifacts := d_artifacts db @ [a]\<rparr> else db)"

definition insert_run :: "(nat \<Rightarrow> run_row) \<Rightarrow> db \<Rightarrow> run_row \<times> db" where
  "insert_run mk db =
     (let (r, t) = tab_insert mk (d_runs db) in (r, db\<lparr>d_runs := t\<rparr>))"

definition get_run :: "db \<Rightarrow> nat \<Rightarrow> run_row option" where
  "get_run db i = tab_get r_id (d_runs db) i"

definition patch_run :: "nat \<Rightarrow> (run_row \<Rightarrow> run_row) \<Rightarrow> db \<Rightarrow> db" where
  "patch_run i f db = db\<lparr>d_runs := tab_update r_id i f (d_runs db)\<rparr>"

text \<open>\<open>updateRun\<close> throws when no row was updated.\<close>

definition update_run ::
    "instant \<Rightarrow> nat \<Rightarrow> (run_row \<Rightarrow> run_row) \<Rightarrow> db \<Rightarrow> thrown_error + db" where
  "update_run at i f db =
     (case get_run db i of
        None \<Rightarrow> Inl (RunMissing i)
      | Some _ \<Rightarrow> Inr (patch_run i (\<lambda>r. (f r)\<lparr>r_updated_at := at\<rparr>) db))"

definition all_runs :: "db \<Rightarrow> run_row list" where
  "all_runs db = rows (d_runs db)"

record run_query =
  q_cursor :: "nat option"
  q_limit :: nat
  q_workflow_key :: "string option"
  q_status :: "run_status option"
  q_project :: "nat option"

definition matches :: "'a option \<Rightarrow> 'a \<Rightarrow> bool" where
  "matches wanted v = (case wanted of None \<Rightarrow> True | Some w \<Rightarrow> v = w)"

definition after_cursor :: "nat option \<Rightarrow> nat \<Rightarrow> bool" where
  "after_cursor c i = (case c of None \<Rightarrow> True | Some k \<Rightarrow> k < i)"

definition list_runs :: "db \<Rightarrow> run_query \<Rightarrow> run_row list" where
  "list_runs db q =
     take (q_limit q)
       (filter (\<lambda>r. after_cursor (q_cursor q) (r_id r) \<and> matches (q_workflow_key q) (r_workflow_key r) \<and>
                  matches (q_status q) (r_status r) \<and> matches (q_project q) (r_project_id r))
         (all_runs db))"

definition list_runs_with_status :: "db \<Rightarrow> run_status list \<Rightarrow> run_row list" where
  "list_runs_with_status db sts = filter (\<lambda>r. r_status r \<in> set sts) (all_runs db)"

definition list_attached_runs :: "db \<Rightarrow> run_row list" where
  "list_attached_runs db = filter (\<lambda>r. r_surface_id r \<noteq> None) (all_runs db)"

definition find_run_on_surface :: "db \<Rightarrow> nat \<Rightarrow> nat option \<Rightarrow> run_row option" where
  "find_run_on_surface db surface except =
     find (\<lambda>r. r_surface_id r = Some surface \<and> except \<noteq> Some (r_id r)) (all_runs db)"

text \<open>
  \<open>deleteRunsOfProject\<close>: the rows that reference a deleted run go with it (\<open>onDelete: 'cascade'\<close>).
\<close>

definition tab_delete :: "('r \<Rightarrow> bool) \<Rightarrow> 'r table \<Rightarrow> 'r table" where
  "tab_delete P t = t\<lparr>rows := filter (\<lambda>r. \<not> P r) (rows t)\<rparr>"

definition delete_runs_of_project :: "nat \<Rightarrow> db \<Rightarrow> nat \<times> db" where
  "delete_runs_of_project p db =
     (let gone = map r_id (filter (\<lambda>r. r_project_id r = p) (all_runs db))
      in (length gone,
          db\<lparr>d_runs := tab_delete (\<lambda>r. r_id r \<in> set gone) (d_runs db),
             d_invocations := tab_delete (\<lambda>r. i_run_id r \<in> set gone) (d_invocations db),
             d_executions := tab_delete (\<lambda>r. x_run_id r \<in> set gone) (d_executions db),
             d_operations := tab_delete (\<lambda>r. o_run_id r \<in> set gone) (d_operations db),
             d_events := tab_delete (\<lambda>r. e_run_id r \<in> set gone) (d_events db),
             d_checkpoints := tab_delete (\<lambda>r. c_run_id r \<in> set gone) (d_checkpoints db)\<rparr>))"

section \<open>The run's tree\<close>

definition new_invocation ::
    "instant \<Rightarrow> nat \<Rightarrow> nat option \<Rightarrow> string \<Rightarrow> nat \<Rightarrow> utf16 option \<Rightarrow> json \<Rightarrow> json \<Rightarrow> nat \<Rightarrow>
     invocation_row" where
  "new_invocation at run parent key depth label parameters st i =
     \<lparr>i_id = i, i_run_id = run, i_parent = parent, i_graph_key = key, i_depth = depth,
      i_label = label, i_parameters = parameters, i_state = st, i_status = InvRunning,
      i_outcome = None, i_started_at = at, i_ended_at = None\<rparr>"

definition insert_invocation :: "(nat \<Rightarrow> invocation_row) \<Rightarrow> db \<Rightarrow> invocation_row \<times> db" where
  "insert_invocation mk db =
     (let (r, t) = tab_insert mk (d_invocations db) in (r, db\<lparr>d_invocations := t\<rparr>))"

definition get_invocation :: "db \<Rightarrow> nat \<Rightarrow> invocation_row option" where
  "get_invocation db i = tab_get i_id (d_invocations db) i"

definition update_invocation :: "nat \<Rightarrow> (invocation_row \<Rightarrow> invocation_row) \<Rightarrow> db \<Rightarrow> db" where
  "update_invocation i f db = db\<lparr>d_invocations := tab_update i_id i f (d_invocations db)\<rparr>"

definition all_invocations :: "db \<Rightarrow> invocation_row list" where
  "all_invocations db = rows (d_invocations db)"

definition list_invocations :: "db \<Rightarrow> nat \<Rightarrow> invocation_row list" where
  "list_invocations db run = filter (\<lambda>i. i_run_id i = run) (all_invocations db)"

definition find_root_invocation :: "db \<Rightarrow> nat \<Rightarrow> invocation_row option" where
  "find_root_invocation db run =
     find (\<lambda>i. i_run_id i = run \<and> i_parent i = None) (all_invocations db)"

definition new_execution ::
    "instant \<Rightarrow> nat \<Rightarrow> nat \<Rightarrow> string \<Rightarrow> node_kind \<Rightarrow> nat \<Rightarrow> utf16 option \<Rightarrow> string \<Rightarrow> nat option \<Rightarrow>
     json saved_result option \<Rightarrow> json option \<Rightarrow> nat option \<Rightarrow> nat \<Rightarrow> execution_row" where
  "new_execution at run iv node kind visit label hash retry_of result event checkpoint i =
     \<lparr>x_id = i, x_run_id = run, x_invocation_id = iv, x_node_id = node, x_node_kind = kind,
      x_visit_index = visit, x_label = label, x_artifact_hash = hash, x_status = ExRunning,
      x_retry_of = retry_of, x_result = result, x_event = event, x_decision = None,
      x_state_after = None, x_child = None, x_checkpoint = checkpoint, x_error = None,
      x_started_at = at, x_ended_at = None\<rparr>"

definition insert_execution :: "(nat \<Rightarrow> execution_row) \<Rightarrow> db \<Rightarrow> execution_row \<times> db" where
  "insert_execution mk db =
     (let (r, t) = tab_insert mk (d_executions db) in (r, db\<lparr>d_executions := t\<rparr>))"

definition get_execution :: "db \<Rightarrow> nat \<Rightarrow> execution_row option" where
  "get_execution db i = tab_get x_id (d_executions db) i"

definition update_execution :: "nat \<Rightarrow> (execution_row \<Rightarrow> execution_row) \<Rightarrow> db \<Rightarrow> db" where
  "update_execution i f db = db\<lparr>d_executions := tab_update x_id i f (d_executions db)\<rparr>"

definition all_executions :: "db \<Rightarrow> execution_row list" where
  "all_executions db = rows (d_executions db)"

definition list_executions :: "db \<Rightarrow> nat \<Rightarrow> execution_row list" where
  "list_executions db run = filter (\<lambda>x. x_run_id x = run) (all_executions db)"

definition find_last :: "('a \<Rightarrow> bool) \<Rightarrow> 'a list \<Rightarrow> 'a option" where
  "find_last P xs = find P (rev xs)"

definition unfinished :: "execution_row \<Rightarrow> bool" where
  "unfinished x = (x_status x = ExRunning \<or> x_status x = ExWaiting)"

text \<open>\<open>findLeafExecution\<close>: the last unfinished execution that has not entered a child graph.\<close>

definition find_leaf_execution :: "db \<Rightarrow> nat \<Rightarrow> execution_row option" where
  "find_leaf_execution db run =
     find_last (\<lambda>x. unfinished x \<and> x_child x = None) (list_executions db run)"

text \<open>\<open>findRetryTarget\<close>: the last failed or interrupted execution not retried yet.\<close>

definition find_retry_target :: "db \<Rightarrow> nat \<Rightarrow> execution_row option" where
  "find_retry_target db run =
     (let executions = list_executions db run;
          retried = map x_retry_of executions
      in find_last (\<lambda>x. (x_status x = ExFailed \<or> x_status x = ExInterrupted) \<and>
                        Some (x_id x) \<notin> set retried) executions)"

definition count_visits :: "db \<Rightarrow> nat \<Rightarrow> string \<Rightarrow> nat" where
  "count_visits db iv node =
     length (filter (\<lambda>x. x_invocation_id x = iv \<and> x_node_id x = node \<and> x_retry_of x = None)
       (all_executions db))"

section \<open>Events\<close>

record event_draft =
  ed_run :: nat
  ed_execution :: "nat option"
  ed_category :: ev_category
  ed_kind :: ev_kind
  ed_message :: msg
  ed_data :: ev_data

definition draft :: "nat \<Rightarrow> nat option \<Rightarrow> ev_category \<Rightarrow> ev_kind \<Rightarrow> msg \<Rightarrow> ev_data \<Rightarrow> event_draft" where
  "draft run x cat kind m d =
     \<lparr>ed_run = run, ed_execution = x, ed_category = cat, ed_kind = kind, ed_message = m, ed_data = d\<rparr>"

definition append_event :: "instant \<Rightarrow> event_draft \<Rightarrow> db \<Rightarrow> db" where
  "append_event at d db =
     db\<lparr>d_events := snd (tab_insert (\<lambda>i. \<lparr>e_id = i, e_run_id = ed_run d,
        e_execution_id = ed_execution d, e_at = at, e_category = ed_category d,
        e_kind = ed_kind d, e_message = ed_message d, e_data = ed_data d\<rparr>) (d_events db))\<rparr>"

definition list_events :: "db \<Rightarrow> nat \<Rightarrow> nat option \<Rightarrow> nat \<Rightarrow> event_row list" where
  "list_events db run cursor limit =
     take limit (filter (\<lambda>e. e_run_id e = run \<and> after_cursor cursor (e_id e)) (rows (d_events db)))"

definition latest_ui_feedback :: "db \<Rightarrow> nat \<Rightarrow> event_row option" where
  "latest_ui_feedback db run =
     find_last (\<lambda>e. e_run_id e = run \<and> e_kind e = UiFeedback) (rows (d_events db))"

section \<open>Operations\<close>

fun operation_label :: "operation_kind \<Rightarrow> string" where
  "operation_label SpawnAgent = ''Spawn an agent''"
| "operation_label SendPrompt = ''Send a prompt''"
| "operation_label RunHeadless = ''Headless job''"
| "operation_label ClosePane = ''Close a pane''"

definition get_operation :: "db \<Rightarrow> nat \<Rightarrow> operation_row option" where
  "get_operation db i = tab_get o_id (d_operations db) i"

definition all_operations :: "db \<Rightarrow> operation_row list" where
  "all_operations db = rows (d_operations db)"

definition put_operation :: "(nat \<Rightarrow> operation_row) \<Rightarrow> db \<Rightarrow> operation_row \<times> db" where
  "put_operation mk db =
     (let (r, t) = tab_insert mk (d_operations db) in (r, db\<lparr>d_operations := t\<rparr>))"

text \<open>One more than the greatest \<open>seq\<close> of the execution, or 0.\<close>

definition next_seq :: "db \<Rightarrow> nat \<Rightarrow> nat" where
  "next_seq db x =
     fold (\<lambda>r n. max (Suc (o_seq r)) n) (filter (\<lambda>r. o_execution_id r = x) (all_operations db)) 0"

record operation_draft =
  od_run :: nat
  od_execution :: nat
  od_kind :: operation_kind
  od_agent_session_id :: "int option"
  od_pane_id :: "nat option"
  od_harness :: "string option"
  od_model :: "string option"
  od_effort :: "string option"
  od_request :: json

definition insert_operation :: "instant \<Rightarrow> operation_draft \<Rightarrow> db \<Rightarrow> operation_row \<times> db" where
  "insert_operation at d db =
     (let (r, db') = put_operation (\<lambda>i. \<lparr>o_id = i, o_run_id = od_run d, o_execution_id = od_execution d,
            o_seq = next_seq db (od_execution d), o_kind = od_kind d,
            o_agent_session_id = od_agent_session_id d, o_pane_id = od_pane_id d,
            o_harness = od_harness d, o_model = od_model d, o_effort = od_effort d,
            o_request = od_request d, o_status = OpRunning, o_response_text = None,
            o_result = None, o_harness_session_id = None, o_usage = None,
            o_started_at = at, o_ended_at = None\<rparr>) db
      in (r, append_event at (draft (o_run_id r) (Some (o_execution_id r)) CatNode OperationStarted
               [Lit (operation_label (o_kind r)), Lit '' started'']
               (DataOperation (o_id r) (o_kind r) None)) db'))"

definition update_operation :: "nat \<Rightarrow> (operation_row \<Rightarrow> operation_row) \<Rightarrow> db \<Rightarrow> db" where
  "update_operation i f db = db\<lparr>d_operations := tab_update o_id i f (d_operations db)\<rparr>"

definition settle_operation ::
    "instant \<Rightarrow> nat \<Rightarrow> operation_status \<Rightarrow> (operation_row \<Rightarrow> operation_row) \<Rightarrow> db \<Rightarrow> db" where
  "settle_operation at i status patch db =
     (let db' = update_operation i (\<lambda>r. (patch r)\<lparr>o_status := status, o_ended_at := Some at\<rparr>) db
      in case get_operation db' i of
           None \<Rightarrow> db'
         | Some r \<Rightarrow>
             append_event at (draft (o_run_id r) (Some (o_execution_id r)) CatNode OperationFinished
               [Lit (operation_label (o_kind r)), Lit '' '', OpStatusPart status]
               (DataOperation (o_id r) (o_kind r) (Some status))) db')"

record operation_query =
  oq_run :: "nat option"
  oq_execution :: "nat option"
  oq_agent_session :: "int option"
  oq_status :: "operation_status option"
  oq_cursor :: "nat option"
  oq_limit :: "nat option"

definition any_operation :: operation_query where
  "any_operation = \<lparr>oq_run = None, oq_execution = None, oq_agent_session = None,
     oq_status = None, oq_cursor = None, oq_limit = None\<rparr>"

definition list_operations :: "db \<Rightarrow> operation_query \<Rightarrow> operation_row list" where
  "list_operations db q =
     (let found = filter (\<lambda>r. matches (oq_run q) (o_run_id r) \<and>
            matches (oq_execution q) (o_execution_id r) \<and>
            (case oq_agent_session q of None \<Rightarrow> True | Some s \<Rightarrow> o_agent_session_id r = Some s) \<and>
            matches (oq_status q) (o_status r) \<and> after_cursor (oq_cursor q) (o_id r))
          (all_operations db)
      in case oq_limit q of None \<Rightarrow> found | Some n \<Rightarrow> take n found)"


section \<open>The tables as row stores\<close>

text \<open>
  The laws of \<open>row_store\<close> for the lookups and writes above, over a whole database with well-formed
  tables. Reading one table after a write to another is a rewrite (\<open>table_simps\<close>).
\<close>

lemma tab_laws:
  "tab_wf f t \<Longrightarrow> (tab_get f t i = Some r) = (r \<in> set (rows t) \<and> f r = i)"
  "tab_wf f t \<Longrightarrow> (\<And>r. f (g r) = f r) \<Longrightarrow> tab_wf f (tab_update f i g t)"
  "tab_wf f t \<Longrightarrow> (\<And>n. f (mk n) = n) \<Longrightarrow> tab_wf f (snd (tab_insert mk t))"
  "tab_wf f t \<Longrightarrow> (\<And>n. f (mk n) = n) \<Longrightarrow>
     (\<forall>r \<in> set (rows t). f r < f (fst (tab_insert mk t)))"
  "(\<And>n. f (mk n) = n) \<Longrightarrow> fst (tab_insert mk t) = mk (f (fst (tab_insert mk t)))"
  "rows (snd (tab_insert mk t)) = rows t @ [fst (tab_insert mk t)]"
  "rows (tab_update f i g t) = map (\<lambda>r. if f r = i then g r else r) (rows t)"
  "tab_wf f t \<Longrightarrow> sorted_wrt (<) (map f (rows t))"
  using tab_row_store [of f] by (auto simp: row_store_def tab_wf_def)

interpretation runs: row_store r_id get_run insert_run patch_run all_runs db_wf
  by unfold_locales
     (auto simp: get_run_def insert_run_def patch_run_def all_runs_def db_wf_def split_beta
        tab_laws)

interpretation invocations:
  row_store i_id get_invocation insert_invocation update_invocation all_invocations db_wf
  by unfold_locales
     (auto simp: get_invocation_def insert_invocation_def update_invocation_def
        all_invocations_def db_wf_def split_beta tab_laws)

interpretation executions:
  row_store x_id get_execution insert_execution update_execution all_executions db_wf
  by unfold_locales
     (auto simp: get_execution_def insert_execution_def update_execution_def
        all_executions_def db_wf_def split_beta tab_laws)

interpretation operations:
  row_store o_id get_operation put_operation update_operation all_operations db_wf
  by unfold_locales
     (auto simp: get_operation_def put_operation_def update_operation_def
        all_operations_def db_wf_def split_beta tab_laws)

lemmas table_defs =
  get_run_def insert_run_def patch_run_def all_runs_def
  get_invocation_def insert_invocation_def update_invocation_def all_invocations_def
  get_execution_def insert_execution_def update_execution_def all_executions_def
  get_operation_def put_operation_def update_operation_def all_operations_def

lemma db_wf_append_event [simp]: "db_wf db \<Longrightarrow> db_wf (append_event at d db)"
  by (auto simp: db_wf_def append_event_def intro!: tab_laws(3))

lemma append_event_tables [simp]:
  "get_run (append_event at d db) = get_run db"
  "all_runs (append_event at d db) = all_runs db"
  "get_invocation (append_event at d db) = get_invocation db"
  "all_invocations (append_event at d db) = all_invocations db"
  "get_execution (append_event at d db) = get_execution db"
  "all_executions (append_event at d db) = all_executions db"
  "get_operation (append_event at d db) = get_operation db"
  "all_operations (append_event at d db) = all_operations db"
  by (simp_all add: fun_eq_iff table_defs append_event_def)

lemma patch_run_tables [simp]:
  "all_invocations (patch_run i f db) = all_invocations db"
  "get_invocation (patch_run i f db) = get_invocation db"
  "all_executions (patch_run i f db) = all_executions db"
  "get_execution (patch_run i f db) = get_execution db"
  "all_operations (patch_run i f db) = all_operations db"
  "get_operation (patch_run i f db) = get_operation db"
  by (simp_all add: fun_eq_iff table_defs)

lemma update_invocation_tables [simp]:
  "all_runs (update_invocation i f db) = all_runs db"
  "get_run (update_invocation i f db) = get_run db"
  "all_executions (update_invocation i f db) = all_executions db"
  "get_execution (update_invocation i f db) = get_execution db"
  "all_operations (update_invocation i f db) = all_operations db"
  "get_operation (update_invocation i f db) = get_operation db"
  by (simp_all add: fun_eq_iff table_defs)

lemma update_execution_tables [simp]:
  "all_runs (update_execution i f db) = all_runs db"
  "get_run (update_execution i f db) = get_run db"
  "all_invocations (update_execution i f db) = all_invocations db"
  "get_invocation (update_execution i f db) = get_invocation db"
  "all_operations (update_execution i f db) = all_operations db"
  "get_operation (update_execution i f db) = get_operation db"
  by (simp_all add: fun_eq_iff table_defs)

lemma update_operation_tables [simp]:
  "all_runs (update_operation i f db) = all_runs db"
  "get_run (update_operation i f db) = get_run db"
  "all_invocations (update_operation i f db) = all_invocations db"
  "get_invocation (update_operation i f db) = get_invocation db"
  "all_executions (update_operation i f db) = all_executions db"
  "get_execution (update_operation i f db) = get_execution db"
  by (simp_all add: fun_eq_iff table_defs)

lemma insert_invocation_tables [simp]:
  "all_runs (snd (insert_invocation mk db)) = all_runs db"
  "get_run (snd (insert_invocation mk db)) = get_run db"
  "all_executions (snd (insert_invocation mk db)) = all_executions db"
  "get_execution (snd (insert_invocation mk db)) = get_execution db"
  "all_operations (snd (insert_invocation mk db)) = all_operations db"
  "get_operation (snd (insert_invocation mk db)) = get_operation db"
  by (simp_all add: fun_eq_iff table_defs split_beta)

lemma insert_execution_tables [simp]:
  "all_runs (snd (insert_execution mk db)) = all_runs db"
  "get_run (snd (insert_execution mk db)) = get_run db"
  "all_invocations (snd (insert_execution mk db)) = all_invocations db"
  "get_invocation (snd (insert_execution mk db)) = get_invocation db"
  "all_operations (snd (insert_execution mk db)) = all_operations db"
  "get_operation (snd (insert_execution mk db)) = get_operation db"
  by (simp_all add: fun_eq_iff table_defs split_beta)

lemma settle_operation_tables [simp]:
  "all_runs (settle_operation at i st p db) = all_runs db"
  "get_run (settle_operation at i st p db) = get_run db"
  "all_invocations (settle_operation at i st p db) = all_invocations db"
  "get_invocation (settle_operation at i st p db) = get_invocation db"
  "all_executions (settle_operation at i st p db) = all_executions db"
  "get_execution (settle_operation at i st p db) = get_execution db"
  by (simp_all add: settle_operation_def Let_def split: option.split)

lemmas db_wf_intros =
  db_wf_append_event runs.wf_upd runs.wf_ins invocations.wf_upd invocations.wf_ins
  executions.wf_upd executions.wf_ins operations.wf_upd operations.wf_ins

lemma settle_operation_wf: "db_wf db \<Longrightarrow> (\<And>r. o_id (p r) = o_id r) \<Longrightarrow> db_wf (settle_operation at i st p db)"
  by (auto simp: settle_operation_def Let_def intro!: db_wf_intros split: option.split)

end
