(* ===== verification/Graph.thy ===== *)
theory Graph
  imports Store
begin

text \<open>
  A loaded build as the engine reads it: \<^verbatim>\<open>structure/graph.ts\<close> over the graph, node, edge
  and outcome objects of \<^verbatim>\<open>packages/workflow-sdk/src/{graph,nodes}.ts\<close>. Author callbacks
  are fields; the one effectful callback, an operation node's \<open>run\<close>, is not, since what it returned
  is an input of the step that saves it. A record keyed by id is a property list, looked up by own
  property only.
\<close>

section \<open>Loaded graphs\<close>

type_synonym label_fn = "(jsval \<Rightarrow> label_answer) option"

datatype graph_node =
    OpNode (node_label: label_fn)
  | SubNode (node_label: label_fn) (child_graph_key: string) (node_parameters: callback)
      (node_on_result: "jsval \<Rightarrow> jsval \<Rightarrow> answer")
  | CheckNode (node_label: label_fn) (node_title: "string option") (node_plan: callback)

record graph_edge =
  eg_from :: string
  eg_to :: "string list"
  eg_choose :: "jsval \<Rightarrow> jsval \<Rightarrow> answer"

record graph_outcome =
  go_kind :: outcome_kind
  go_reason :: "string option"
  go_output :: callback

record graph_def =
  g_key :: string
  g_entry :: string
  g_fields :: "fields"
  g_nodes :: "(string \<times> graph_node) list"
  g_edges :: "(string \<times> graph_edge) list"
  g_outcomes :: "(string \<times> graph_outcome) list"
  g_init :: "jsval \<Rightarrow> jsval \<Rightarrow> answer"
  g_label :: label_fn

text \<open>\<open>LoadedWorkflowArtifact\<close>: the root graph and every graph by its key.\<close>

record artifact =
  art_root :: graph_def
  art_graphs :: "(string \<times> graph_def) list"

section \<open>Lookups\<close>

definition graph_of :: "artifact \<Rightarrow> string \<Rightarrow> graph_def option" where
  "graph_of a key = map_of (art_graphs a) key"

definition node_of :: "graph_def \<Rightarrow> string \<Rightarrow> graph_node option" where
  "node_of g i = map_of (g_nodes g) i"

definition outcome_of :: "graph_def \<Rightarrow> string \<Rightarrow> graph_outcome option" where
  "outcome_of g i = map_of (g_outcomes g) i"

definition edge_by_id :: "graph_def \<Rightarrow> string \<Rightarrow> graph_edge option" where
  "edge_by_id g i = map_of (g_edges g) i"

text \<open>\<open>edgeFromNode\<close>: the router leaving a node, when exactly one does.\<close>

definition edge_from_node :: "graph_def \<Rightarrow> string \<Rightarrow> (string \<times> graph_edge) option" where
  "edge_from_node g node =
     (case filter (\<lambda>(i, e). eg_from e = node) (g_edges g) of
        [only] \<Rightarrow> Some only
      | _ \<Rightarrow> None)"

fun node_kind_of :: "graph_node \<Rightarrow> node_kind" where
  "node_kind_of (OpNode _) = KindOperation"
| "node_kind_of (SubNode _ _ _ _) = KindSubgraph"
| "node_kind_of (CheckNode _ _ _) = KindCheckpoint"

datatype destination_kind = DestNode | DestOutcome

definition destination_kind_of :: "graph_def \<Rightarrow> string \<Rightarrow> destination_kind option" where
  "destination_kind_of g d =
     (if node_of g d \<noteq> None then Some DestNode
      else if outcome_of g d \<noteq> None then Some DestOutcome
      else None)"

lemma destination_node: "(destination_kind_of g d = Some DestNode) = (node_of g d \<noteq> None)"
  by (simp add: destination_kind_of_def)

lemma destination_outcomeD: "destination_kind_of g d = Some DestOutcome \<Longrightarrow> outcome_of g d \<noteq> None"
  by (auto simp: destination_kind_of_def split: if_splits)

lemma edge_from_node_source: "edge_from_node g n = Some (i, e) \<Longrightarrow> eg_from e = n \<and> (i, e) \<in> set (g_edges g)"
proof -
  assume "edge_from_node g n = Some (i, e)"
  then have "filter (\<lambda>(i, e). eg_from e = n) (g_edges g) = [(i, e)]"
    by (auto simp: edge_from_node_def split: list.splits)
  then have "(i, e) \<in> set (filter (\<lambda>(i, e). eg_from e = n) (g_edges g))" by simp
  then show ?thesis by simp
qed

end
