(* ===== verification/Chain.thy ===== *)
theory Chain
  imports Graph
begin

text \<open>
  The pure step: \<^verbatim>\<open>apps/runtime/src/workflows/engine/chain.ts\<close>. Everything after a node
  function's result is saved is computed first (\<open>compute_chain\<close>, \<open>compute_entry\<close>) and then applied in one
  write (\<open>apply_chain\<close>, \<open>apply_entry\<close>, \<open>apply_failure\<close>). The loop of \<open>computeChain\<close> follows a finished child
  graph into its parent; it is a partial function on options, \<open>None\<close> meaning that it does not end,
  and it always ends on a database whose invocations were opened after their parents.
\<close>

section \<open>Results of a computation\<close>

datatype 'a computed = Okay 'a | StepFailed run_error | Threw thrown_error

definition on_okay :: "'a computed \<Rightarrow> ('a \<Rightarrow> 'b computed) \<Rightarrow> 'b computed" where
  "on_okay c f = (case c of Okay a \<Rightarrow> f a | StepFailed e \<Rightarrow> StepFailed e | Threw t \<Rightarrow> Threw t)"

lemma on_okay_simps [simp]:
  "on_okay (Okay a) f = f a" "on_okay (StepFailed e) f = StepFailed e"
  "on_okay (Threw t) f = Threw t"
  by (simp_all add: on_okay_def)

lemma on_okay_Okay: "(on_okay c f = Okay b) = (\<exists>a. c = Okay a \<and> f a = Okay b)"
  by (cases c) auto

text \<open>\<open>failed(stage, message, at)\<close>\<close>

definition failed :: "stage \<Rightarrow> msg \<Rightarrow> string option \<Rightarrow> string option \<Rightarrow> 'a computed" where
  "failed st m g n = StepFailed \<lparr>re_stage = st, re_message = m, re_graph = g, re_node = n\<rparr>"

definition require_row :: "'a option \<Rightarrow> string \<Rightarrow> 'a computed" where
  "require_row r what = (case r of None \<Rightarrow> Threw (RowMissing what) | Some a \<Rightarrow> Okay a)"

lemma require_row_Okay [simp]: "(require_row r what = Okay a) = (r = Some a)"
  by (cases r) (auto simp: require_row_def)

lemma failed_not_Okay [simp]: "failed st m g n \<noteq> Okay a" "Okay a \<noteq> failed st m g n"
  by (simp_all add: failed_def)

definition state_value :: "state \<Rightarrow> jsval" where
  "state_value st = JObj PlainProto st"

text \<open>\<open>fromJson(invocation.stateJson)\<close>: a stored state is always an object.\<close>

definition state_of :: "json \<Rightarrow> state" where
  "state_of j = (case j of JsonObj ps \<Rightarrow> from_json_props ps | _ \<Rightarrow> [])"

definition node_label_of :: "graph_node \<Rightarrow> state \<Rightarrow> utf16 option" where
  "node_label_of n st = capture_label (node_label n) (state_value st)"

section \<open>Routing an execution\<close>

record next_execution =
  nx_invocation :: nat
  nx_node :: string
  nx_kind :: node_kind
  nx_visit :: nat
  nx_label :: "utf16 option"

record chain_step =
  cs_execution :: execution_row
  cs_event :: jsval
  cs_to :: string
  cs_update :: jsval
  cs_state :: state

datatype chain_next = NextExecution next_execution | RunFinished "jsval outcome"

record chain_plan =
  cp_completed :: "chain_step list"
  cp_finished :: "(invocation_row \<times> jsval outcome) list"
  cp_next :: chain_next

text \<open>What the loop is stepping: an execution, its update and the event delivered to it.\<close>

type_synonym chain_current = "execution_row \<times> jsval \<times> jsval"

text \<open>
  One turn of the loop, up to the push on \<open>completed\<close>: the update, the edge, its decision and the
  decision's own update.
\<close>

definition chain_decide ::
    "invocation_row \<Rightarrow> graph_def \<Rightarrow> chain_current \<Rightarrow> (chain_step \<times> destination_kind) computed" where
  "chain_decide i g cur =
     (case cur of (x, update, event) \<Rightarrow>
        let key = i_graph_key i; at_g = Some key; at_n = Some (x_node_id x) in
        case reduce_state (g_fields g) (state_of (i_state i)) update key of
          Inl m \<Rightarrow> failed StageReducer [ReducePart m] at_g at_n
        | Inr updated \<Rightarrow>
            (case edge_from_node g (x_node_id x) of
               None \<Rightarrow> failed StageEdge [Lit ''No edge leaves node '', Quoted (x_node_id x), Lit ''.''] at_g at_n
             | Some (eid, edge) \<Rightarrow>
                 (case evaluate_pure (WhatEdge eid)
                         (run2 (eg_choose edge) (state_value updated) event) (Some ''decision'') of
                    Inl m \<Rightarrow> failed StageEdge [PurePart m] at_g at_n
                  | Inr decision \<Rightarrow>
                      (case (is_plain_object decision, get_prop decision ''to'') of
                         (True, JStr to) \<Rightarrow>
                           (case (to \<in> set (eg_to edge), destination_kind_of g to) of
                              (True, Some dest) \<Rightarrow>
                                (case reduce_state (g_fields g) updated (get_prop decision ''update'') key of
                                   Inl m \<Rightarrow> failed StageReducer
                                     [Lit ''Edge '', Quoted eid, Lit '' update: '', ReducePart m] at_g at_n
                                 | Inr st \<Rightarrow>
                                     Okay (\<lparr>cs_execution = x, cs_event = event, cs_to = to,
                                            cs_update = get_prop decision ''update'', cs_state = st\<rparr>, dest))
                            | _ \<Rightarrow> failed StageEdge
                                [Lit ''Edge '', Quoted eid, Lit '' routed to '', Quoted to,
                                 Lit '', which is not one of its declared destinations.''] at_g at_n)
                       | _ \<Rightarrow> failed StageEdge
                           [Lit ''Edge '', Quoted eid, Lit '' must return { to }.''] at_g at_n))))"

text \<open>The declared outcome's output, from the state after the step.\<close>

definition chain_outcome :: "graph_def \<Rightarrow> string \<Rightarrow> string \<Rightarrow> state \<Rightarrow> jsval outcome computed" where
  "chain_outcome g key to st =
     (case outcome_of g to of
        None \<Rightarrow> failed StageGraphOutput [Lit ''Outcome '', Quoted to, Lit '' is not declared.''] (Some key) (Some to)
      | Some declared \<Rightarrow>
          (case evaluate_pure (WhatOutcomeOutput to) (run1 (go_output declared) (state_value st))
                  (Some ''output'') of
             Inl m \<Rightarrow> failed StageGraphOutput [PurePart m] (Some key) (Some to)
           | Inr v \<Rightarrow> Okay \<lparr>oc_id = to, oc_kind = go_kind declared, oc_reason = go_reason declared,
                           oc_output = v\<rparr>))"

definition outcome_kind_value :: "outcome_kind \<Rightarrow> jsval" where
  "outcome_kind_value k = JStr (case k of SuccessOutcome \<Rightarrow> ''success'' | FailureOutcome \<Rightarrow> ''failure'')"

text \<open>\<open>SubgraphResult\<close>, and the event that carries it.\<close>

definition subgraph_result :: "jsval outcome \<Rightarrow> jsval" where
  "subgraph_result oc =
     JObj PlainProto ([(''outcomeId'', JStr (oc_id oc)), (''outcomeKind'', outcome_kind_value (oc_kind oc))] @
       (case oc_reason oc of None \<Rightarrow> [] | Some r \<Rightarrow> [(''reason'', JStr r)]) @
       [(''output'', oc_output oc)])"

definition subgraph_event :: "jsval \<Rightarrow> jsval" where
  "subgraph_event result = JObj PlainProto [(''kind'', JStr ''subgraph''), (''result'', result)]"

text \<open>The \<open>onResult\<close> of a node that is still a subgraph node of this build.\<close>

definition on_result_of :: "artifact \<Rightarrow> string \<Rightarrow> string \<Rightarrow> (jsval \<Rightarrow> jsval \<Rightarrow> answer) option" where
  "on_result_of art key node =
     (case Option.bind (graph_of art key) (\<lambda>g. node_of g node) of
        Some (SubNode _ _ _ on_result) \<Rightarrow> Some on_result
      | _ \<Rightarrow> None)"

text \<open>The return into the parent: its subgraph node's \<open>onResult\<close> gives the parent's update.\<close>

definition chain_return :: "db \<Rightarrow> artifact \<Rightarrow> nat \<Rightarrow> jsval outcome \<Rightarrow> chain_current computed" where
  "chain_return db art parent_id oc =
     on_okay (require_row (get_execution db parent_id) ''execution'') (\<lambda>parent.
     on_okay (require_row (get_invocation db (x_invocation_id parent)) ''invocation'') (\<lambda>pi.
       let key = i_graph_key pi; node = x_node_id parent in
       case on_result_of art key node of
         Some on_result \<Rightarrow>
           (case evaluate_pure (WhatOnResult node)
                   (run2 on_result (state_value (state_of (i_state pi))) (subgraph_result oc)) None of
              Inl m \<Rightarrow> failed StageSubgraphOnResult [PurePart m] (Some key) (Some node)
            | Inr update \<Rightarrow> Okay (parent, update, subgraph_event (subgraph_result oc)))
       | None \<Rightarrow> failed StageSubgraphOnResult
           [Lit ''Node '', Quoted node, Lit '' in graph '', Quoted key, Lit '' is no longer a subgraph node.'']
           (Some key) (Some node)))"

datatype chain_turn =
    ArrivedAt next_execution
  | FinishedRun invocation_row "jsval outcome"
  | ReturnedTo invocation_row "jsval outcome" chain_current

definition chain_turn :: "db \<Rightarrow> artifact \<Rightarrow> chain_current \<Rightarrow> (chain_step \<times> chain_turn) computed" where
  "chain_turn db art cur =
     (let x = fst cur in
      on_okay (require_row (get_invocation db (x_invocation_id x)) ''invocation'') (\<lambda>i.
        let key = i_graph_key i in
        case graph_of art key of
          None \<Rightarrow> failed StageEdge [Lit ''Graph '', Quoted key, Lit '' is not in this build.'']
                    (Some key) (Some (x_node_id x))
        | Some g \<Rightarrow>
            on_okay (chain_decide i g cur) (\<lambda>(step, dest).
              case dest of
                DestNode \<Rightarrow>
                  (case node_of g (cs_to step) of
                     None \<Rightarrow> Threw (RowMissing ''node'')
                   | Some node \<Rightarrow>
                       Okay (step, ArrivedAt
                         \<lparr>nx_invocation = i_id i, nx_node = cs_to step, nx_kind = node_kind_of node,
                          nx_visit = count_visits db (i_id i) (cs_to step),
                          nx_label = node_label_of node (cs_state step)\<rparr>))
              | DestOutcome \<Rightarrow>
                  on_okay (chain_outcome g key (cs_to step) (cs_state step)) (\<lambda>oc.
                    case i_parent i of
                      None \<Rightarrow> Okay (step, FinishedRun i oc)
                    | Some p \<Rightarrow>
                        on_okay (chain_return db art p oc) (\<lambda>cur'.
                          Okay (step, ReturnedTo i oc cur'))))))"

partial_function (option) chain_loop ::
    "db \<Rightarrow> artifact \<Rightarrow> chain_current \<Rightarrow> chain_step list \<Rightarrow> (invocation_row \<times> jsval outcome) list \<Rightarrow>
     chain_plan computed option" where
  "chain_loop db art cur completed finished =
     (case chain_turn db art cur of
        StepFailed e \<Rightarrow> Some (StepFailed e)
      | Threw t \<Rightarrow> Some (Threw t)
      | Okay (step, turn) \<Rightarrow>
          (case turn of
             ArrivedAt nx \<Rightarrow>
               Some (Okay \<lparr>cp_completed = completed @ [step], cp_finished = finished,
                           cp_next = NextExecution nx\<rparr>)
           | FinishedRun i oc \<Rightarrow>
               Some (Okay \<lparr>cp_completed = completed @ [step], cp_finished = finished @ [(i, oc)],
                           cp_next = RunFinished oc\<rparr>)
           | ReturnedTo i oc cur' \<Rightarrow>
               chain_loop db art cur' (completed @ [step]) (finished @ [(i, oc)])))"

declare chain_loop.simps [code]

definition compute_chain ::
    "db \<Rightarrow> artifact \<Rightarrow> execution_row \<Rightarrow> jsval \<Rightarrow> jsval \<Rightarrow> chain_plan computed option" where
  "compute_chain db art stepped update event = chain_loop db art (stepped, update, event) [] []"

section \<open>Applying a step\<close>

definition start_execution :: "instant \<Rightarrow> run_row \<Rightarrow> next_execution \<Rightarrow> db \<Rightarrow> db" where
  "start_execution at run nx db =
     (let (x, db') = insert_execution
            (new_execution at (r_id run) (nx_invocation nx) (nx_node nx) (nx_kind nx) (nx_visit nx)
               (nx_label nx) (r_artifact_hash run) None None None None) db
      in append_event at (draft (r_id run) (Some (x_id x)) CatNode NodeStarted
           [Lit ''Started '', name_or (nx_label nx) (nx_node nx)]
           (DataStarted (nx_node nx) (nx_kind nx) None)) db')"

definition complete_step :: "instant \<Rightarrow> run_row \<Rightarrow> chain_step \<Rightarrow> db \<Rightarrow> db" where
  "complete_step at run s db =
     (let x = cs_execution s;
          st = json_or_null (state_value (cs_state s));
          db1 = update_execution (x_id x)
            (\<lambda>r. r\<lparr>x_status := ExCompleted, x_event := Some (json_or_null (cs_event s)),
                  x_decision := Some (cs_to s, if cs_update s = JUndefined then None
                                              else to_json (cs_update s)),
                  x_state_after := Some st, x_ended_at := Some at\<rparr>) db;
          db2 = update_invocation (x_invocation_id x) (\<lambda>i. i\<lparr>i_state := st\<rparr>) db1
      in append_event at (draft (r_id run) (Some (x_id x)) CatNode NodeCompleted
           [Lit (x_node_id x), Arrow, Lit (cs_to s)] (DataTo (cs_to s))) db2)"

definition finish_invocation ::
    "instant \<Rightarrow> run_row \<Rightarrow> invocation_row \<times> jsval outcome \<Rightarrow> db \<Rightarrow> db" where
  "finish_invocation at run d db =
     (case d of (i, oc) \<Rightarrow>
        append_event at (draft (r_id run) (i_parent i) CatNode GraphCompleted
            [Lit (i_graph_key i), Lit '' finished with '', Lit (oc_id oc), OutcomeKindPart (oc_kind oc)]
            (DataFinished (i_id i) (stored_outcome oc)))
          (update_invocation (i_id i)
            (\<lambda>r. r\<lparr>i_status := InvCompleted, i_outcome := Some (stored_outcome oc),
                  i_ended_at := Some at\<rparr>) db))"

definition apply_chain :: "instant \<Rightarrow> run_row \<Rightarrow> chain_plan \<Rightarrow> db \<Rightarrow> thrown_error + db" where
  "apply_chain at run plan db =
     (let db1 = fold (complete_step at run) (cp_completed plan) db;
          db2 = fold (finish_invocation at run) (cp_finished plan) db1
      in case cp_next plan of
           RunFinished oc \<Rightarrow>
             map_ok (append_event at (draft (r_id run) None CatRun RunCompleted
                  [Lit ''Finished with '', Lit (oc_id oc), OutcomeKindPart (oc_kind oc)]
                  (DataOutcome (stored_outcome oc))))
               (update_run at (r_id run)
                  (\<lambda>r. r\<lparr>r_status := Completed, r_outcome := Some (stored_outcome oc),
                        r_error := None, r_ended_at := Some at\<rparr>) db2)
         | NextExecution nx \<Rightarrow>
             (let db3 = start_execution at run nx db2
              in if r_status run = Waiting
                 then update_run at (r_id run) (\<lambda>r. r\<lparr>r_status := Running\<rparr>) db3
                 else Inr db3))"

section \<open>Entering a graph\<close>

record entry_plan =
  ep_graph_key :: string
  ep_depth :: nat
  ep_label :: "utf16 option"
  ep_parameters :: jsval
  ep_state :: state
  ep_node :: string
  ep_kind :: node_kind
  ep_node_label :: "utf16 option"

record destination =
  ds_worktree_id :: nat
  ds_worktree_path :: string
  ds_surface_id :: nat

definition destination_value :: "destination \<Rightarrow> jsval" where
  "destination_value d = JObj PlainProto
     [(''worktreeId'', JNum (Finite (int (ds_worktree_id d)))),
      (''worktreePath'', JStr (ds_worktree_path d)),
      (''surfaceId'', JNum (Finite (int (ds_surface_id d))))]"

definition compute_entry ::
    "graph_def \<Rightarrow> destination \<Rightarrow> nat \<Rightarrow> jsval computed \<Rightarrow> entry_plan computed" where
  "compute_entry g dst depth parameters =
     on_okay parameters (\<lambda>ps.
       case evaluate_pure (WhatInit (g_key g)) (run2 (g_init g) (destination_value dst) ps)
              (Some ''state'') of
         Inl m \<Rightarrow> failed StageGraphInit [PurePart m] (Some (g_key g)) None
       | Inr v \<Rightarrow>
           (case assert_declared_state_fields (g_fields g) v (g_key g) of
              Some m \<Rightarrow> failed StageGraphInit [DeclaredPart m] (Some (g_key g)) None
            | None \<Rightarrow>
                (case plain_props v of
                   None \<Rightarrow> Threw (RowMissing ''state'')
                 | Some st \<Rightarrow>
                     (case node_of g (g_entry g) of
                        None \<Rightarrow> failed StageGraphInit
                          [Lit ''Entry node '', Quoted (g_entry g), Lit '' is not declared.'']
                          (Some (g_key g)) None
                      | Some entry \<Rightarrow>
                          Okay \<lparr>ep_graph_key = g_key g, ep_depth = depth,
                                ep_label = capture_label (g_label g) ps, ep_parameters = ps,
                                ep_state = st, ep_node = g_entry g, ep_kind = node_kind_of entry,
                                ep_node_label = node_label_of entry st\<rparr>))))"

text \<open>
  \<open>subgraphParameters\<close>: \<open>node.parameters(\<dots>) ?? null\<close>, so a child without parameters is handed
  \<open>undefined\<close>.
\<close>

definition nullish_to_null :: "ran \<Rightarrow> ran" where
  "nullish_to_null r = (case r of Ran JUndefined \<Rightarrow> Ran JNull | _ \<Rightarrow> r)"

definition subgraph_parameters :: "graph_node \<Rightarrow> jsval \<Rightarrow> string \<Rightarrow> string \<Rightarrow> jsval computed" where
  "subgraph_parameters node parent_state key node_id =
     (case node of
        SubNode _ _ parameters _ \<Rightarrow>
          (case evaluate_pure (WhatParameters node_id)
                  (nullish_to_null (run1 parameters parent_state)) (Some ''parameters'') of
             Inl m \<Rightarrow> failed StageSubgraphParameters [PurePart m] (Some key) (Some node_id)
           | Inr v \<Rightarrow> Okay (if v = JNull then JUndefined else v))
      | _ \<Rightarrow> failed StageSubgraphParameters
          [Lit ''Node '', Quoted node_id, Lit '' is not a subgraph node.''] (Some key) (Some node_id))"

definition nullish_json :: "jsval \<Rightarrow> json" where
  "nullish_json v = (if v = JUndefined then JsonNull else json_or_null v)"

definition apply_entry ::
    "instant \<Rightarrow> run_row \<Rightarrow> entry_plan \<Rightarrow> execution_row option \<Rightarrow> db \<Rightarrow> db" where
  "apply_entry at run plan parent db =
     (let (i, db1) = insert_invocation
            (new_invocation at (r_id run) (map_option x_id parent) (ep_graph_key plan) (ep_depth plan)
               (ep_label plan) (nullish_json (ep_parameters plan))
               (json_or_null (state_value (ep_state plan)))) db;
          db2 = (case parent of
                   None \<Rightarrow> db1
                 | Some p \<Rightarrow> update_execution (x_id p)
                     (\<lambda>r. r\<lparr>x_status := ExWaiting, x_child := Some (i_id i)\<rparr>) db1);
          db3 = append_event at (draft (r_id run) (map_option x_id parent) CatNode GraphEntered
                  [Lit ''Entered '', name_or (ep_label plan) (ep_graph_key plan)]
                  (DataEntered (i_id i) (ep_graph_key plan))) db2
      in start_execution at run
           \<lparr>nx_invocation = i_id i, nx_node = ep_node plan, nx_kind = ep_kind plan, nx_visit = 0,
            nx_label = ep_node_label plan\<rparr> db3)"

section \<open>Recording a failure\<close>

text \<open>\<open>event_json\<close> is replaced when the caller passes one; \<open>status\<close> is failed or interrupted.\<close>

definition apply_failure ::
    "instant \<Rightarrow> run_row \<Rightarrow> execution_row option \<Rightarrow> run_error \<Rightarrow> json option \<Rightarrow> execution_status \<Rightarrow> db \<Rightarrow>
     thrown_error + db" where
  "apply_failure at run execution failure event status db =
     (let db1 = (case execution of
                   None \<Rightarrow> db
                 | Some x \<Rightarrow>
                     append_event at (draft (r_id run) (Some (x_id x)) CatNode
                         (if status = ExInterrupted then NodeInterrupted else NodeFailed)
                         (re_message failure) (DataError failure))
                       (update_execution (x_id x)
                          (\<lambda>r. r\<lparr>x_status := status, x_error := Some failure,
                                x_event := (case event of None \<Rightarrow> x_event r | Some e \<Rightarrow> Some e),
                                x_ended_at := Some at\<rparr>) db))
      in map_ok (append_event at (draft (r_id run) (map_option x_id execution) CatRun RunFailed
                   (re_message failure) (DataError failure)))
           (update_run at (r_id run)
              (\<lambda>r. r\<lparr>r_status := Failed, r_error := Some failure, r_ended_at := Some at\<rparr>) db1))"

end
