(* ===== verification/Waits.thy ===== *)
theory Waits
  imports Chain
begin

text \<open>
  Waits: when a suspended execution's wait has been answered, and with what.
  \<^verbatim>\<open>waits/latest-turn.ts\<close> (the latest-turn rule over the observer's edges),
  \<^verbatim>\<open>waits/check.ts\<close> (the four kinds of wait) and \<^verbatim>\<open>waits/user-input.ts\<close> (the
  answers to a form). What the agent port answers is an argument. Events are the objects an edge is
  given.
\<close>

section \<open>The latest-turn rule\<close>

datatype edge_type = TurnStarted | TurnEnded | TurnFailed

record turn_edge =
  te_type :: edge_type
  te_session :: int
  te_harness :: string
  te_seq :: "int option"
  te_at :: instant
  te_reason :: "string option"

datatype agent_turn_event =
    AgentEnded instant
  | AgentFailed instant string
  | AgentInterrupted instant string

record turn_span =
  ts_harness :: string
  ts_seq :: int
  ts_started :: instant
  ts_completed :: instant

datatype latest_turn_result =
    TurnWaiting bool
  | TurnDelivered agent_turn_event "turn_span option"

definition last_opt :: "'a list \<Rightarrow> 'a option" where
  "last_opt xs = (if xs = [] then None else Some (last xs))"

definition first_opt :: "'a list \<Rightarrow> 'a option" where
  "first_opt xs = (case xs of [] \<Rightarrow> None | x # _ \<Rightarrow> Some x)"

definition same_turn :: "turn_edge \<Rightarrow> turn_edge \<Rightarrow> bool" where
  "same_turn start e =
     (case (te_seq e, te_seq start) of
        (Some m, Some n) \<Rightarrow> m = n
      | _ \<Rightarrow> te_at start \<le> te_at e)"

text \<open>\<open>sort\<close> is stable, as \<open>sort_key\<close> is.\<close>

definition terminal_for :: "turn_edge \<Rightarrow> turn_edge list \<Rightarrow> turn_edge option" where
  "terminal_for start edges =
     first_opt (sort_key te_at
       (filter (\<lambda>e. te_type e \<noteq> TurnStarted \<and> te_session e = te_session start \<and>
                    te_harness e = te_harness start \<and> same_turn start e) edges))"

definition turn_event :: "turn_edge \<Rightarrow> agent_turn_event" where
  "turn_event t =
     (if te_type t = TurnEnded then AgentEnded (te_at t)
      else if te_reason t = Some ''session_died'' then AgentInterrupted (te_at t) ''session_died''
      else AgentFailed (te_at t)
             (case te_reason t of None \<Rightarrow> ''harness_error'' | Some r \<Rightarrow> r))"

definition latest_turn :: "int \<Rightarrow> instant \<Rightarrow> turn_edge list \<Rightarrow> latest_turn_result" where
  "latest_turn session sent_at edges =
     (case last_opt (sort_key te_at
             (filter (\<lambda>e. te_type e = TurnStarted \<and> te_session e = session \<and> sent_at \<le> te_at e) edges)) of
        None \<Rightarrow> TurnWaiting False
      | Some latest \<Rightarrow>
          (case terminal_for latest edges of
             None \<Rightarrow> TurnWaiting True
           | Some terminal \<Rightarrow>
               TurnDelivered (turn_event terminal)
                 (case te_seq latest of
                    None \<Rightarrow> None
                  | Some n \<Rightarrow> Some \<lparr>ts_harness = te_harness latest, ts_seq = n,
                                   ts_started = te_at latest, ts_completed = te_at terminal\<rparr>)))"

definition has_in_flight_turn :: "turn_edge list \<Rightarrow> bool" where
  "has_in_flight_turn edges =
     (case last_opt (sort_key te_at (filter (\<lambda>e. te_type e = TurnStarted) edges)) of
        None \<Rightarrow> False
      | Some latest \<Rightarrow> terminal_for latest edges = None)"

fun agent_event_value :: "agent_turn_event \<Rightarrow> jsval" where
  "agent_event_value (AgentEnded t) = JObj PlainProto
     [(''kind'', JStr ''agent_turn''), (''outcome'', JStr ''ended''), (''recordedAt'', JStr (iso_text t))]"
| "agent_event_value (AgentFailed t r) = JObj PlainProto
     [(''kind'', JStr ''agent_turn''), (''outcome'', JStr ''failed''), (''recordedAt'', JStr (iso_text t)),
      (''reason'', JStr r)]"
| "agent_event_value (AgentInterrupted t r) = JObj PlainProto
     [(''kind'', JStr ''agent_turn''), (''outcome'', JStr ''interrupted''),
      (''recordedAt'', JStr (iso_text t)), (''reason'', JStr r)]"

section \<open>Operation ids\<close>

text \<open>
  \<open>Number(handle.operationId)\<close> where it is an id: surrounding blanks are dropped, the empty string
  is 0, decimal digits with an optional plus sign, or a \<open>0x\<close>, \<open>0o\<close> or \<open>0b\<close> literal. The other
  spellings of a whole number (a fraction of zeros, an exponent) are not read as an id.
\<close>

definition digit_value :: "char \<Rightarrow> nat option" where
  "digit_value c =
     (let n = of_char c :: nat in
      if 48 \<le> n \<and> n \<le> 57 then Some (n - 48)
      else if 97 \<le> n \<and> n \<le> 102 then Some (n - 87)
      else if 65 \<le> n \<and> n \<le> 70 then Some (n - 55)
      else None)"

fun read_digits :: "nat \<Rightarrow> nat \<Rightarrow> string \<Rightarrow> nat option" where
  "read_digits base acc [] = Some acc"
| "read_digits base acc (c # cs) =
     (case digit_value c of
        None \<Rightarrow> None
      | Some d \<Rightarrow> if d < base then read_digits base (acc * base + d) cs else None)"

definition blank :: "char \<Rightarrow> bool" where
  "blank c = (let n = of_char c :: nat in n = 32 \<or> (9 \<le> n \<and> n \<le> 13))"

definition trim :: "string \<Rightarrow> string" where
  "trim s = rev (dropWhile blank (rev (dropWhile blank s)))"

definition number_of_string :: "string \<Rightarrow> nat option" where
  "number_of_string s =
     (case trim s of
        [] \<Rightarrow> Some 0
      | [c] \<Rightarrow> read_digits 10 0 [c]
      | CHR ''+'' # cs \<Rightarrow> read_digits 10 0 cs
      | c # d # cs \<Rightarrow>
          (if c = CHR ''0'' \<and> cs \<noteq> [] \<and> (d = CHR ''x'' \<or> d = CHR ''X'') then read_digits 16 0 cs
           else if c = CHR ''0'' \<and> cs \<noteq> [] \<and> (d = CHR ''o'' \<or> d = CHR ''O'') then read_digits 8 0 cs
           else if c = CHR ''0'' \<and> cs \<noteq> [] \<and> (d = CHR ''b'' \<or> d = CHR ''B'') then read_digits 2 0 cs
           else read_digits 10 0 (c # d # cs)))"

section \<open>Headless results\<close>

fun operation_status_value :: "operation_status \<Rightarrow> jsval" where
  "operation_status_value OpCompleted = JStr ''completed''"
| "operation_status_value OpFailed = JStr ''failed''"
| "operation_status_value OpInterrupted = JStr ''interrupted''"
| "operation_status_value OpRunning = JStr ''failed''"

definition headless_result_of :: "operation_row \<Rightarrow> jsval" where
  "headless_result_of row =
     (let member = (\<lambda>k. case o_result row of
                          None \<Rightarrow> []
                        | Some j \<Rightarrow> (case json_prop j k of None \<Rightarrow> [] | Some v \<Rightarrow> [(k, from_json v)]))
      in JObj PlainProto
           ([(''operationId'', JStr (nat_text (o_id row))),
             (''status'', operation_status_value (o_status row))] @
            (case o_response_text row of None \<Rightarrow> [] | Some t \<Rightarrow> [(''output'', JStr t)]) @
            member ''error'' @ member ''exitCode'' @ member ''interruption''))"

section \<open>Checking a wait\<close>

text \<open>What the agent port answers: \<open>None\<close> where its effect fails.\<close>

record agent_port =
  ap_turn_edges :: "int \<Rightarrow> bool \<Rightarrow> turn_edge list option"
  ap_is_alive :: "int \<Rightarrow> bool"
  ap_reply_text :: "int \<Rightarrow> turn_span \<Rightarrow> string option"

record agent_reply =
  ar_operation :: nat
  ar_text :: "string option"
  ar_unavailable :: "msg option"

datatype wait_check = StillWaiting | Delivered jsval "agent_reply option"

datatype wait_check_error = TurnEdgesFailed

text \<open>The spawn or send that produced a turn target.\<close>

definition prompt_operation :: "db \<Rightarrow> nat \<Rightarrow> int \<Rightarrow> string \<Rightarrow> operation_row option" where
  "prompt_operation db run session sent_at =
     find_last (\<lambda>r. case o_result r of
                      None \<Rightarrow> False
                    | Some j \<Rightarrow> json_prop j ''sentAt'' = Some (JsonStr sent_at))
       (filter (\<lambda>r. o_kind r = SpawnAgent \<or> o_kind r = SendPrompt)
         (list_operations db (any_operation\<lparr>oq_run := Some run, oq_agent_session := Some session\<rparr>)))"

definition reply_for :: "agent_port \<Rightarrow> int \<Rightarrow> operation_row \<Rightarrow> turn_span option \<Rightarrow> agent_reply" where
  "reply_for port session row turn =
     (let text = (case turn of None \<Rightarrow> None | Some t \<Rightarrow> ap_reply_text port session t)
      in \<lparr>ar_operation = o_id row, ar_text = text,
          ar_unavailable =
            (if text = None
             then Some [Lit ''The reply of agent session '', NumPart session,
                        Lit '' to operation '', NumPart (int (o_id row)), Lit '' could not be read.'']
             else None)\<rparr>)"

fun interrupted_event :: "agent_turn_event \<Rightarrow> bool" where
  "interrupted_event (AgentInterrupted _ _) = True"
| "interrupted_event _ = False"

definition check_agent_turn ::
    "db \<Rightarrow> agent_port \<Rightarrow> bool \<Rightarrow> instant \<Rightarrow> nat \<Rightarrow> int \<Rightarrow> string \<Rightarrow> wait_check_error + wait_check" where
  "check_agent_turn db port fresh at run session sent_at =
     (let refreshed = (if fresh then ap_turn_edges port session True else None)
      in case (case refreshed of Some es \<Rightarrow> Some es | None \<Rightarrow> ap_turn_edges port session False) of
           None \<Rightarrow> Inl TurnEdgesFailed
         | Some edges \<Rightarrow>
             (case latest_turn session (Instant sent_at) edges of
                TurnWaiting started \<Rightarrow>
                  if refreshed \<noteq> None \<and> \<not> started \<and> \<not> ap_is_alive port session
                  then Inr (Delivered (agent_event_value (AgentInterrupted at ''session_died'')) None)
                  else Inr StillWaiting
              | TurnDelivered event turn \<Rightarrow>
                  Inr (Delivered (agent_event_value event)
                    (case prompt_operation db run session sent_at of
                       Some row \<Rightarrow>
                         if interrupted_event event then None else Some (reply_for port session row turn)
                     | None \<Rightarrow> None))))"

definition handle_row :: "db \<Rightarrow> string \<Rightarrow> operation_row option" where
  "handle_row db h = (case number_of_string h of None \<Rightarrow> None | Some i \<Rightarrow> get_operation db i)"

definition check_headless :: "db \<Rightarrow> string list \<Rightarrow> wait_check" where
  "check_headless db handles =
     (case those (map (handle_row db) handles) of
        None \<Rightarrow> StillWaiting
      | Some found \<Rightarrow>
          if \<exists>r \<in> set found. o_status r = OpRunning then StillWaiting
          else Delivered (JObj PlainProto
                 [(''kind'', JStr ''headless_agent''), (''results'', JArr (map headless_result_of found))]) None)"

definition check_wait ::
    "db \<Rightarrow> agent_port \<Rightarrow> bool \<Rightarrow> instant \<Rightarrow> execution_row \<Rightarrow> wait \<Rightarrow> wait_check_error + wait_check" where
  "check_wait db port fresh at x w =
     (case w of
        UserContinue _ \<Rightarrow>
          Inr (case x_event x of Some e \<Rightarrow> Delivered (from_json e) None | None \<Rightarrow> StillWaiting)
      | UserInput _ \<Rightarrow>
          Inr (case x_event x of Some e \<Rightarrow> Delivered (from_json e) None | None \<Rightarrow> StillWaiting)
      | HeadlessAgent handles \<Rightarrow> Inr (check_headless db handles)
      | AgentTurn session sent_at \<Rightarrow> check_agent_turn db port fresh at (x_run_id x) session sent_at)"

section \<open>Answers to a form\<close>

datatype question_kind = TextQuestion | ConfirmQuestion | SelectQuestion | MultiSelectQuestion

record question =
  q_key :: string
  q_kind :: question_kind
  q_options :: "json list"
  q_default :: "json option"

datatype uv_reason =
    DuplicateQuestionKey | UnknownAnswerKey | MissingRequiredAnswer | InvalidAnswerType
  | InvalidAnswerValue | InvalidQuestionOptions | InvalidQuestionDefault

type_synonym uv_error = "uv_reason \<times> string"

text \<open>
  What every object inherits: \<open>question.key in answers\<close> is true of these names too, and reading one
  gives a function or the prototype itself.
\<close>

definition object_prototype_keys :: "string list" where
  "object_prototype_keys =
     [''constructor'', ''__defineGetter__'', ''__defineSetter__'', ''hasOwnProperty'',
      ''__lookupGetter__'', ''__lookupSetter__'', ''isPrototypeOf'', ''propertyIsEnumerable'',
      ''toString'', ''valueOf'', ''__proto__'', ''toLocaleString'']"

datatype looked = OwnAnswer json | InheritedValue | NoAnswer

definition look_up :: "(string \<times> json) list \<Rightarrow> string \<Rightarrow> looked" where
  "look_up answers k =
     (case map_of answers k of
        Some v \<Rightarrow> OwnAnswer v
      | None \<Rightarrow> if k \<in> set object_prototype_keys then InheritedValue else NoAnswer)"

fun is_string :: "json \<Rightarrow> bool" where
  "is_string (JsonStr _) = True"
| "is_string _ = False"

definition validate_answer :: "question \<Rightarrow> json \<Rightarrow> uv_error + json" where
  "validate_answer q a =
     (case q_kind q of
        TextQuestion \<Rightarrow> (if is_string a then Inr a else Inl (InvalidAnswerType, q_key q))
      | ConfirmQuestion \<Rightarrow> (case a of JsonBool _ \<Rightarrow> Inr a | _ \<Rightarrow> Inl (InvalidAnswerType, q_key q))
      | SelectQuestion \<Rightarrow>
          (if \<not> is_string a then Inl (InvalidAnswerType, q_key q)
           else if q_options q = [] then Inl (InvalidQuestionOptions, q_key q)
           else if a \<notin> set (q_options q) then Inl (InvalidAnswerValue, q_key q)
           else Inr a)
      | MultiSelectQuestion \<Rightarrow>
          (case a of
             JsonArr vs \<Rightarrow>
               if \<not> list_all is_string vs then Inl (InvalidAnswerType, q_key q)
               else if q_options q = [] then Inl (InvalidQuestionOptions, q_key q)
               else if \<exists>v \<in> set vs. v \<notin> set (q_options q) then Inl (InvalidAnswerValue, q_key q)
               else Inr (JsonArr vs)
           | _ \<Rightarrow> Inl (InvalidAnswerType, q_key q)))"

text \<open>\<open>undefined\<close> when the question has no default.\<close>

definition default_for_question :: "question \<Rightarrow> uv_error + json option" where
  "default_for_question q =
     (case q_default q of
        None \<Rightarrow> Inr None
      | Some d \<Rightarrow>
          (case q_kind q of
             TextQuestion \<Rightarrow> (if is_string d then Inr (Some d) else Inl (InvalidQuestionDefault, q_key q))
           | ConfirmQuestion \<Rightarrow>
               (case d of JsonBool _ \<Rightarrow> Inr (Some d) | _ \<Rightarrow> Inl (InvalidQuestionDefault, q_key q))
           | SelectQuestion \<Rightarrow>
               (if \<not> is_string d then Inl (InvalidQuestionDefault, q_key q)
                else if q_options q = [] then Inl (InvalidQuestionOptions, q_key q)
                else if d \<notin> set (q_options q) then Inl (InvalidQuestionDefault, q_key q)
                else Inr (Some d))
           | MultiSelectQuestion \<Rightarrow>
               (case d of
                  JsonArr vs \<Rightarrow>
                    if \<not> list_all is_string vs then Inl (InvalidQuestionDefault, q_key q)
                    else if q_options q = [] then Inl (InvalidQuestionOptions, q_key q)
                    else if \<exists>v \<in> set vs. v \<notin> set (q_options q) then Inl (InvalidQuestionDefault, q_key q)
                    else Inr (Some (JsonArr vs))
                | _ \<Rightarrow> Inl (InvalidQuestionDefault, q_key q))))"

fun first_duplicate_key :: "string list \<Rightarrow> question list \<Rightarrow> string option" where
  "first_duplicate_key seen [] = None"
| "first_duplicate_key seen (q # qs) =
     (if q_key q \<in> set seen then Some (q_key q) else first_duplicate_key (q_key q # seen) qs)"

text \<open>Assigning a string, a boolean or an array to \<open>__proto__\<close> makes no own property.\<close>

definition assign_answer :: "string \<Rightarrow> json \<Rightarrow> (string \<times> json) list \<Rightarrow> (string \<times> json) list" where
  "assign_answer k v res = (if k = ''__proto__'' then res else put k v res)"

fun collect_answers ::
    "(string \<times> json) list \<Rightarrow> question list \<Rightarrow> (string \<times> json) list \<Rightarrow> uv_error + (string \<times> json) list" where
  "collect_answers answers [] res = Inr res"
| "collect_answers answers (q # qs) res =
     (case look_up answers (q_key q) of
        OwnAnswer a \<Rightarrow>
          (case validate_answer q a of
             Inl e \<Rightarrow> Inl e
           | Inr v \<Rightarrow> collect_answers answers qs (assign_answer (q_key q) v res))
      | InheritedValue \<Rightarrow> Inl (InvalidAnswerType, q_key q)
      | NoAnswer \<Rightarrow>
          (case default_for_question q of
             Inl e \<Rightarrow> Inl e
           | Inr (Some d) \<Rightarrow> collect_answers answers qs (assign_answer (q_key q) d res)
           | Inr None \<Rightarrow> Inl (MissingRequiredAnswer, q_key q)))"

definition validate_user_input ::
    "question list \<Rightarrow> (string \<times> json) list \<Rightarrow> uv_error + (string \<times> json) list" where
  "validate_user_input qs answers =
     (case first_duplicate_key [] qs of
        Some k \<Rightarrow> Inl (DuplicateQuestionKey, k)
      | None \<Rightarrow>
          (case find (\<lambda>k. k \<notin> set (map q_key qs)) (keys answers) of
             Some k \<Rightarrow> Inl (UnknownAnswerKey, k)
           | None \<Rightarrow> collect_answers answers qs []))"

end
