(* ===== verification/Descriptors.thy ===== *)
theory Descriptors
  imports Rows
begin

text \<open>
  What a build's descriptor says of its structure, as
  \<^verbatim>\<open>packages/workflow-verifier/src/structure.ts\<close> declares it, and the check that a newer
  build still fits where a run is parked (\<^verbatim>\<open>structure/reload.ts\<close>). A diagnostic keeps its
  code and location; its message only words them.
\<close>

section \<open>Descriptors\<close>

datatype node_descriptor =
    OpDescriptor (nd_id: string) (nd_title: "string option") (nd_description: "string option")
  | SubDescriptor (nd_id: string) (nd_graph_key: string) (nd_title: "string option")
      (nd_description: "string option")
  | CheckDescriptor (nd_id: string) (nd_title: "string option") (nd_description: "string option")

record edge_descriptor =
  ed_id :: string
  ed_from :: string
  ed_to :: "string list"
  ed_title :: "string option"

record outcome_descriptor =
  ocd_id :: string
  ocd_kind :: outcome_kind
  ocd_reason :: "string option"
  ocd_title :: "string option"

record graph_descriptor =
  gd_key :: string
  gd_title :: string
  gd_description :: "string option"
  gd_state_fields :: "string list"
  gd_entry :: string
  gd_nodes :: "node_descriptor list"
  gd_edges :: "edge_descriptor list"
  gd_outcomes :: "outcome_descriptor list"

record structure_descriptor =
  sd_root :: string
  sd_graphs :: "graph_descriptor list"

datatype diagnostic_code =
    InvalidExport | UnsupportedContract | MissingCallback | InvalidIdentifier | MissingTitle
  | MissingInit | InvalidStateField | EmptyState | EmptyGraph | IdentifierCollision
  | UnknownNodeKind | SubgraphMissingGraph | MissingEntry | EntryNotExecutable
  | EdgeSourceUnknown | DuplicateEdgeSource | MissingOutgoingEdge | EmptyDestinationSet
  | DuplicateDestination | EdgeDestinationUnknown | NoOutcomes | InvalidLabel
  | DuplicateGraphKey | RecursiveGraphContainment | TooManyGraphs | TooManyNodes | TooManyEdges
  | TooManyOutcomes | ContainmentTooDeep
  | GraphMissing | SubgraphRegistrationChanged | NodeMissing | NodeKindChanged
  | EdgeIdentityChanged | DestinationNoLongerDeclared | OutcomeMissing | OutcomeKindChanged

record location =
  at_graph :: "string option"
  at_node :: "string option"
  at_edge :: "string option"
  at_outcome :: "string option"
  at_field :: "string option"

definition nowhere :: location where
  "nowhere = \<lparr>at_graph = None, at_node = None, at_edge = None, at_outcome = None, at_field = None\<rparr>"

type_synonym diagnostic = "diagnostic_code \<times> location"

fun kind_of_descriptor :: "node_descriptor \<Rightarrow> node_kind" where
  "kind_of_descriptor (OpDescriptor _ _ _) = KindOperation"
| "kind_of_descriptor (SubDescriptor _ _ _ _) = KindSubgraph"
| "kind_of_descriptor (CheckDescriptor _ _ _) = KindCheckpoint"

section \<open>Reloading\<close>

record reload_invocation =
  ri_graph_key :: string
  ri_entered_by :: "(string \<times> string) option"

record reload_position =
  rl_invocations :: "reload_invocation list"
  rl_parked :: "(string \<times> string \<times> node_kind) option"

text \<open>\<open>new Map(descriptor.graphs.map(\<dots>))\<close>: the last graph under a key wins.\<close>

definition descriptor_graph :: "structure_descriptor \<Rightarrow> string \<Rightarrow> graph_descriptor option" where
  "descriptor_graph d key = find (\<lambda>g. gd_key g = key) (rev (sd_graphs d))"

definition descriptor_node :: "graph_descriptor \<Rightarrow> string \<Rightarrow> node_descriptor option" where
  "descriptor_node g i = find (\<lambda>n. nd_id n = i) (gd_nodes g)"

definition still_enters :: "structure_descriptor \<Rightarrow> string \<times> string \<Rightarrow> string \<Rightarrow> bool" where
  "still_enters d link key =
     (case Option.bind (descriptor_graph d (fst link)) (\<lambda>g. descriptor_node g (snd link)) of
        Some (SubDescriptor _ k _ _) \<Rightarrow> k = key
      | _ \<Rightarrow> False)"

definition check_invocation :: "structure_descriptor \<Rightarrow> reload_invocation \<Rightarrow> diagnostic list" where
  "check_invocation d i =
     (if descriptor_graph d (ri_graph_key i) = None
      then [(GraphMissing, nowhere\<lparr>at_graph := Some (ri_graph_key i)\<rparr>)]
      else case ri_entered_by i of
             None \<Rightarrow> []
           | Some link \<Rightarrow>
               if still_enters d link (ri_graph_key i) then []
               else [(SubgraphRegistrationChanged,
                      nowhere\<lparr>at_graph := Some (fst link), at_node := Some (snd link)\<rparr>)])"

definition check_parked :: "structure_descriptor \<Rightarrow> string \<times> string \<times> node_kind \<Rightarrow> diagnostic list" where
  "check_parked d p =
     (case p of (key, node_id, kind) \<Rightarrow>
        (case descriptor_graph d key of
           None \<Rightarrow> []
         | Some g \<Rightarrow>
             (case descriptor_node g node_id of
                None \<Rightarrow> [(NodeMissing, nowhere\<lparr>at_graph := Some key, at_node := Some node_id\<rparr>)]
              | Some n \<Rightarrow>
                  if kind_of_descriptor n = kind then []
                  else [(NodeKindChanged, nowhere\<lparr>at_graph := Some key, at_node := Some node_id\<rparr>)])))"

definition check_reload :: "structure_descriptor \<Rightarrow> reload_position \<Rightarrow> diagnostic list" where
  "check_reload d pos =
     concat (map (check_invocation d) (rl_invocations pos)) @
     (case rl_parked pos of None \<Rightarrow> [] | Some p \<Rightarrow> check_parked d p)"

section \<open>What an accepted reload guarantees\<close>

lemma check_invocation_Nil:
  "(check_invocation d i = []) =
     (descriptor_graph d (ri_graph_key i) \<noteq> None \<and>
      (\<forall>link. ri_entered_by i = Some link \<longrightarrow> still_enters d link (ri_graph_key i)))"
  by (cases "ri_entered_by i") (auto simp: check_invocation_def)

lemma check_parked_Nil:
  "(check_parked d (key, node_id, kind) = []) =
     (\<forall>g. descriptor_graph d key = Some g \<longrightarrow>
        (\<exists>n. descriptor_node g node_id = Some n \<and> kind_of_descriptor n = kind))"
  by (cases "descriptor_graph d key") (auto simp: check_parked_def split: option.split)

lemma check_reload_Nil:
  "(check_reload d pos = []) =
     ((\<forall>i \<in> set (rl_invocations pos). check_invocation d i = []) \<and>
      (\<forall>p. rl_parked pos = Some p \<longrightarrow> check_parked d p = []))"
  by (cases "rl_parked pos") (auto simp: check_reload_def)

end
