(* ===== verification/Drive.thy ===== *)
theory Drive
  imports Waits Descriptors
begin

text \<open>
  Driving a run: \<^verbatim>\<open>engine/drive.ts\<close>, \<^verbatim>\<open>engine/prepare.ts\<close> (the commits),
  \<^verbatim>\<open>checkpoints/step.ts\<close> (the commits) and the defect handler of
  \<^verbatim>\<open>engine/service.ts\<close>. One driver step reads the run and its leaf, runs author code outside any
  transaction, and ends in one commit. Each commit is a function from the database it is applied to, which may have moved on
  since the reads: the rows it was given are the ones read before. \<open>Crashed\<close> is a throw inside a
  transaction, which rolls it back.
\<close>

section \<open>Refusals\<close>

datatype control = CtlPause | CtlResume | CtlRetry | CtlCancel | CtlDismiss | CtlAdvance

text \<open>\<open>WorkflowEngineError\<close>, by its code and the fields that code carries.\<close>

datatype engine_error =
    RunNotFound nat
  | ControlUnavailable nat control
  | WaitNotFound nat nat
  | ContinueTakesNoAnswers
  | UserInputInvalid uv_error
  | CodeIncompatible nat "diagnostic list"
  | AgentObservationUnavailable nat int

datatype refusal = Refused engine_error | Crashed thrown_error

definition crash :: "thrown_error + 'a \<Rightarrow> refusal + 'a" where
  "crash r = (case r of Inl t \<Rightarrow> Inl (Crashed t) | Inr a \<Rightarrow> Inr a)"

lemma crash_simps [simp]: "crash (Inl t) = Inl (Crashed t)" "crash (Inr a) = Inr a"
  by (simp_all add: crash_def)

lemma crash_Inr [simp]: "(crash r = Inr a) = (r = Inr a)"
  by (cases r) auto

section \<open>Where a run works\<close>

definition destination_of :: "run_row \<Rightarrow> destination option" where
  "destination_of run =
     (case (r_worktree_id run, r_worktree_path run, r_surface_id run) of
        (Some w, Some p, Some s) \<Rightarrow>
          Some \<lparr>ds_worktree_id = w, ds_worktree_path = p, ds_surface_id = s\<rparr>
      | _ \<Rightarrow> None)"

definition no_destination :: "run_row \<Rightarrow> msg" where
  "no_destination run =
     [Lit ''Workflow run '', NumPart (int (r_id run)), Lit '' has no worktree and surface to work in.'']"

definition drivable :: "run_row \<Rightarrow> bool" where
  "drivable run = (r_status run = Running \<or> r_status run = Waiting)"

section \<open>The reads of a step\<close>

text \<open>What \<open>step\<close> finds to do: nothing, or the run and the leaf it then works on.\<close>

definition read_step :: "db \<Rightarrow> nat \<Rightarrow> (run_row \<times> execution_row) option" where
  "read_step db run_id =
     (case get_run db run_id of
        None \<Rightarrow> None
      | Some run \<Rightarrow>
          if \<not> drivable run then None
          else (case find_leaf_execution db run_id of
                  None \<Rightarrow> None
                | Some leaf \<Rightarrow> Some (run, leaf)))"

datatype step_action =
    EnterSubgraph | CaptureCheckpoint | RunNodeFunction | RouteImmediate | CheckWait json

text \<open>What the leaf asks for, once its build is loaded.\<close>

definition step_action :: "execution_row \<Rightarrow> step_action" where
  "step_action leaf =
     (if x_node_kind leaf = KindSubgraph then EnterSubgraph
      else case x_result leaf of
             None \<Rightarrow> if x_node_kind leaf = KindCheckpoint then CaptureCheckpoint else RunNodeFunction
           | Some (Complete u cp) \<Rightarrow> RouteImmediate
           | Some (Suspend u w) \<Rightarrow> CheckWait w)"

section \<open>Failing a step\<close>

definition commit_fail_step ::
    "instant \<Rightarrow> nat \<Rightarrow> nat \<Rightarrow> run_error \<Rightarrow> db \<Rightarrow> thrown_error + db" where
  "commit_fail_step at run_id leaf_id failure db =
     (case get_run db run_id of
        None \<Rightarrow> Inr db
      | Some current \<Rightarrow>
          if \<not> drivable current then Inr db
          else apply_failure at current (get_execution db leaf_id) failure None ExFailed db)"

text \<open>\<open>failRunOnDefect\<close>: a failure or defect inside a step fails the run and its leaf.\<close>

definition commit_defect :: "instant \<Rightarrow> nat \<Rightarrow> msg \<Rightarrow> db \<Rightarrow> thrown_error + db" where
  "commit_defect at run_id m db =
     (case get_run db run_id of
        None \<Rightarrow> Inr db
      | Some run \<Rightarrow>
          if \<not> drivable run then Inr db
          else apply_failure at run (find_leaf_execution db run_id)
                 \<lparr>re_stage = StageNodeFunction, re_message = Lit ''Internal error: '' # m,
                  re_graph = None, re_node = None\<rparr> None ExFailed db)"

section \<open>Routing\<close>

definition immediate_event :: jsval where
  "immediate_event = JObj PlainProto [(''kind'', JStr ''immediate'')]"

text \<open>\<open>kind.replace('_', ' ')\<close>: the first underscore only.\<close>

fun first_underscore_blank :: "string \<Rightarrow> string" where
  "first_underscore_blank [] = []"
| "first_underscore_blank (c # cs) =
     (if c = CHR ''_'' then CHR '' '' # cs else c # first_underscore_blank cs)"

definition describe_event :: "jsval \<Rightarrow> msg" where
  "describe_event e =
     (case get_prop e ''kind'' of
        JStr k \<Rightarrow>
          (if k = ''agent_turn''
           then [Lit ''agent turn '', case get_prop e ''outcome'' of JStr oc \<Rightarrow> Lit oc | _ \<Rightarrow> Lit []]
           else if k = ''headless_agent''
           then [NumPart (case get_prop e ''results'' of JArr rs \<Rightarrow> int (length rs) | _ \<Rightarrow> 0),
                 Lit '' headless result(s)'']
           else [Lit (first_underscore_blank k)])
      | _ \<Rightarrow> [])"

definition is_suspend :: "'v saved_result \<Rightarrow> bool" where
  "is_suspend r = (case r of Suspend _ _ \<Rightarrow> True | Complete _ _ \<Rightarrow> False)"

definition record_reply :: "instant \<Rightarrow> nat \<Rightarrow> nat \<Rightarrow> agent_reply option \<Rightarrow> db \<Rightarrow> db" where
  "record_reply at run_id exec_id reply db =
     (case reply of
        None \<Rightarrow> db
      | Some r \<Rightarrow>
          (let db' = update_operation (ar_operation r) (\<lambda>row. row\<lparr>o_response_text := ar_text r\<rparr>) db
           in case ar_unavailable r of
                None \<Rightarrow> db'
              | Some m \<Rightarrow> append_event at (draft run_id (Some exec_id) CatLog LogEvent m
                            (DataLog ''warning'' m)) db'))"

text \<open>\<open>result.update\<close> of a saved result: absent is \<open>undefined\<close>.\<close>

definition saved_update_value :: "json saved_result \<Rightarrow> jsval" where
  "saved_update_value r = (case saved_update r of None \<Rightarrow> JUndefined | Some j \<Rightarrow> from_json j)"

text \<open>
  The pure step in one transaction. \<open>None\<close>: the chain does not end. The flag says that there is
  nothing more to do until something wakes the run.
\<close>

definition commit_route ::
    "instant \<Rightarrow> artifact \<Rightarrow> nat \<Rightarrow> nat \<Rightarrow> jsval \<Rightarrow> agent_reply option \<Rightarrow> db \<Rightarrow>
     (thrown_error + bool \<times> db) option" where
  "commit_route at art run_id exec_id event reply db =
     (case (get_run db run_id, get_execution db exec_id) of
        (Some run, Some x) \<Rightarrow>
          if \<not> drivable run \<or> \<not> unfinished x then Some (Inr (True, db))
          else (case x_result x of
                  None \<Rightarrow> Some (Inl (RowMissing ''result''))
                | Some result \<Rightarrow>
                    (let db1 = record_reply at run_id exec_id reply db;
                         db2 = (if is_suspend result \<and> x_event x = None
                                then append_event at (draft run_id (Some exec_id) CatNode WaitDelivered
                                       ([Lit (x_node_id x), Lit '': ''] @ describe_event event)
                                       (DataJson (json_or_null event))) db1
                                else db1)
                     in case compute_chain db2 art x (saved_update_value result) event of
                          None \<Rightarrow> None
                        | Some (Threw t) \<Rightarrow> Some (Inl t)
                        | Some (StepFailed failure) \<Rightarrow>
                            Some (map_ok (Pair True)
                              (apply_failure at run (Some x) failure (Some (json_or_null event)) ExFailed db2))
                        | Some (Okay plan) \<Rightarrow>
                            Some (map_ok (Pair False) (apply_chain at run plan db2))))
      | _ \<Rightarrow> Some (Inr (True, db)))"

section \<open>Entering a subgraph\<close>

definition commit_enter_subgraph ::
    "instant \<Rightarrow> artifact \<Rightarrow> nat \<Rightarrow> execution_row \<Rightarrow> db \<Rightarrow> thrown_error + db" where
  "commit_enter_subgraph at art run_id leaf db =
     (case get_run db run_id of
        None \<Rightarrow> Inr db
      | Some run \<Rightarrow>
          if \<not> drivable run then Inr db
          else
            (let invocation = get_invocation db (x_invocation_id leaf);
                 key = (case invocation of None \<Rightarrow> [] | Some i \<Rightarrow> i_graph_key i);
                 node = Option.bind (Option.bind invocation (\<lambda>i. graph_of art (i_graph_key i)))
                          (\<lambda>g. node_of g (x_node_id leaf));
                 fail = (\<lambda>failure. apply_failure at run (Some leaf) failure None ExFailed db)
             in case (invocation, node) of
                  (Some i, Some (SubNode lbl child_key ps onr)) \<Rightarrow>
                    (case graph_of art child_key of
                       None \<Rightarrow> fail \<lparr>re_stage = StageGraphInit,
                                 re_message = [Lit ''Graph '', Quoted child_key, Lit '' is not in this build.''],
                                 re_graph = Some child_key, re_node = None\<rparr>
                     | Some child \<Rightarrow>
                         (case destination_of run of
                            None \<Rightarrow> fail \<lparr>re_stage = StageGraphInit, re_message = no_destination run,
                                      re_graph = Some (g_key child), re_node = None\<rparr>
                          | Some dst \<Rightarrow>
                              (case compute_entry child dst (Suc (i_depth i))
                                      (subgraph_parameters (SubNode lbl child_key ps onr)
                                         (state_value (state_of (i_state i))) key (x_node_id leaf)) of
                                 Threw t \<Rightarrow> Inl t
                               | StepFailed failure \<Rightarrow> fail failure
                               | Okay plan \<Rightarrow> Inr (apply_entry at run plan (Some leaf) db))))
                | _ \<Rightarrow> fail \<lparr>re_stage = StageSubgraphParameters,
                         re_message = [Lit ''Node '', Quoted (x_node_id leaf),
                                       Lit '' is not a subgraph node in this build.''],
                         re_graph = Some key, re_node = Some (x_node_id leaf)\<rparr>))"

section \<open>Running a node function\<close>

text \<open>
  What is checked before an operation node's function is called: its node and the destination.
  \<open>Inr\<close> is what the function is called with.
\<close>

definition prepare_node_function ::
    "db \<Rightarrow> artifact \<Rightarrow> run_row \<Rightarrow> execution_row \<Rightarrow> run_error + (destination \<times> jsval)" where
  "prepare_node_function db art run leaf =
     (let invocation = get_invocation db (x_invocation_id leaf);
          key = (case invocation of None \<Rightarrow> [] | Some i \<Rightarrow> i_graph_key i);
          node = Option.bind (Option.bind invocation (\<lambda>i. graph_of art (i_graph_key i)))
                   (\<lambda>g. node_of g (x_node_id leaf));
          err = (\<lambda>m. \<lparr>re_stage = StageNodeFunction, re_message = m, re_graph = Some key,
                      re_node = Some (x_node_id leaf)\<rparr>)
      in case (invocation, node) of
           (Some i, Some (OpNode _)) \<Rightarrow>
             (case destination_of run of
                None \<Rightarrow> Inl (err (no_destination run))
              | Some dst \<Rightarrow> Inr (dst, state_value (state_of (i_state i))))
         | _ \<Rightarrow> Inl (err [Lit ''Node '', Quoted (x_node_id leaf),
                          Lit '' is not an operation node in this build.'']))"

text \<open>Every headless handle a wait names must be a headless operation of this run.\<close>

definition unknown_headless_handle :: "jsval saved_result \<Rightarrow> db \<Rightarrow> nat \<Rightarrow> msg option" where
  "unknown_headless_handle result db run_id =
     (case result of
        Suspend _ w \<Rightarrow>
          (if get_prop w ''kind'' \<noteq> JStr ''headless_agent'' then None
           else case get_prop w ''operations'' of
                  JArr hs \<Rightarrow>
                    (case find (\<lambda>h. case get_prop h ''operationId'' of
                              JStr s \<Rightarrow> (case handle_row db s of
                                           None \<Rightarrow> True
                                         | Some row \<Rightarrow> o_run_id row \<noteq> run_id \<or> o_kind row \<noteq> RunHeadless)
                            | _ \<Rightarrow> True) hs of
                       None \<Rightarrow> None
                     | Some h \<Rightarrow>
                         Some [Lit ''The wait names operation '',
                               Quoted (case get_prop h ''operationId'' of JStr s \<Rightarrow> s | _ \<Rightarrow> []),
                               Lit '', which is not a headless run of this workflow run.''])
                | _ \<Rightarrow> None)
      | _ \<Rightarrow> None)"

text \<open>\<open>returned\<close> is the author's message, or the value the function returned.\<close>

definition judge_returned ::
    "db \<Rightarrow> nat \<Rightarrow> msg + jsval \<Rightarrow> msg + jsval saved_result" where
  "judge_returned db run_id returned =
     (case returned of
        Inl m \<Rightarrow> Inl m
      | Inr v \<Rightarrow>
          (case validate_operation_result v of
             Inl m \<Rightarrow> Inl [ResultPart m]
           | Inr result \<Rightarrow>
               (case check_serializable (result_object result) ''result'' of
                  Some u \<Rightarrow> Inl [UnstorablePart u]
                | None \<Rightarrow>
                    (case unknown_headless_handle result db run_id of
                       Some m \<Rightarrow> Inl m
                     | None \<Rightarrow> Inr result))))"

text \<open>Saved even when the run was paused or cancelled meanwhile: it is what the function did.\<close>

definition commit_save_result ::
    "instant \<Rightarrow> string \<Rightarrow> nat \<Rightarrow> execution_row \<Rightarrow> msg + jsval \<Rightarrow> db \<Rightarrow> thrown_error + db" where
  "commit_save_result at graph_key run_id leaf returned db =
     (case (get_run db run_id, get_execution db (x_id leaf)) of
        (Some current, Some x) \<Rightarrow>
          (case judge_returned db run_id returned of
             Inl m \<Rightarrow>
               if x_status x = ExRunning \<and> r_status current \<noteq> Cancelled
               then apply_failure at current (Some x)
                      \<lparr>re_stage = StageNodeFunction, re_message = m, re_graph = Some graph_key,
                       re_node = Some (x_node_id leaf)\<rparr> None ExFailed db
               else Inr db
           | Inr result \<Rightarrow>
               Inr (update_execution (x_id x) (\<lambda>r. r\<lparr>x_result := Some (stored_result result)\<rparr>) db))
      | _ \<Rightarrow> Inr db)"

section \<open>Parking\<close>

definition park_execution :: "instant \<Rightarrow> execution_row \<Rightarrow> db \<Rightarrow> db" where
  "park_execution at x db =
     (if x_status x = ExRunning
      then append_event at (draft (x_run_id x) (Some (x_id x)) CatNode NodeWaiting
             [name_or (x_label x) (x_node_id x), Lit '' is waiting'']
             (case x_result x of Some (Suspend _ w) \<Rightarrow> DataJson w | _ \<Rightarrow> NoData))
           (update_execution (x_id x) (\<lambda>r. r\<lparr>x_status := ExWaiting\<rparr>) db)
      else db)"

definition commit_park :: "instant \<Rightarrow> nat \<Rightarrow> nat \<Rightarrow> db \<Rightarrow> thrown_error + db" where
  "commit_park at run_id exec_id db =
     (case (get_run db run_id, get_execution db exec_id) of
        (Some run, Some x) \<Rightarrow>
          if \<not> drivable run then Inr db
          else if r_status run = Running
          then update_run at run_id (\<lambda>r. r\<lparr>r_status := Waiting\<rparr>) (park_execution at x db)
          else Inr (park_execution at x db)
      | _ \<Rightarrow> Inr db)"

section \<open>Checkpoints\<close>

definition insert_checkpoint :: "(nat \<Rightarrow> checkpoint_row) \<Rightarrow> db \<Rightarrow> checkpoint_row \<times> db" where
  "insert_checkpoint mk db =
     (let (r, t) = tab_insert mk (d_checkpoints db) in (r, db\<lparr>d_checkpoints := t\<rparr>))"

definition get_checkpoint :: "db \<Rightarrow> nat \<Rightarrow> checkpoint_row option" where
  "get_checkpoint db i = tab_get c_id (d_checkpoints db) i"

text \<open>
  A captured checkpoint, its execution's result and its id, in one transaction; nothing when the
  execution already has a result.
\<close>

definition commit_save_checkpoint ::
    "instant \<Rightarrow> nat \<Rightarrow> execution_row \<Rightarrow> string \<Rightarrow> string option \<Rightarrow> json \<Rightarrow> db \<Rightarrow> db" where
  "commit_save_checkpoint at run_id leaf title commit scopes db =
     (case get_execution db (x_id leaf) of
        None \<Rightarrow> db
      | Some x \<Rightarrow>
          if x_result x \<noteq> None then db
          else
            (let (c, db1) = insert_checkpoint
                   (\<lambda>i. \<lparr>c_id = i, c_run_id = run_id, c_execution_id = x_id leaf, c_title = title,
                         c_label = x_label x, c_commit_sha = commit, c_scopes = scopes,
                         c_created_at = at\<rparr>) db;
                 result = Complete (Some (JsonObj [])) (Some (c_id c))
             in append_event at (draft run_id (Some (x_id leaf)) CatNode CheckpointCaptured
                  (Lit title # (case x_label x of None \<Rightarrow> [] | Some l \<Rightarrow> [Lit '' - '', LabelPart l]) @
                   [Lit '': checkpoint '', NumPart (int (c_id c)), Lit '' saved''])
                  (DataCheckpoint (c_id c)))
                (update_execution (x_id leaf)
                  (\<lambda>r. r\<lparr>x_result := Some result, x_checkpoint := Some (c_id c)\<rparr>) db1)))"

definition commit_fail_capture ::
    "instant \<Rightarrow> nat \<Rightarrow> execution_row \<Rightarrow> run_error \<Rightarrow> db \<Rightarrow> thrown_error + db" where
  "commit_fail_capture at run_id leaf failure db =
     (case (get_run db run_id, get_execution db (x_id leaf)) of
        (Some current, Some x) \<Rightarrow>
          if x_status x \<noteq> ExRunning \<or> \<not> drivable current then Inr db
          else apply_failure at current (Some x) failure None ExFailed db
      | _ \<Rightarrow> Inr db)"

end
