(* ===== verification/Controls.thy ===== *)
theory Controls
  imports Drive
begin

text \<open>
  Launch admission, preparation, the run controls and the restart:
  \<^verbatim>\<open>engine/launch.ts\<close> (its commit), \<^verbatim>\<open>engine/prepare.ts\<close>,
  \<^verbatim>\<open>engine/controls.ts\<close> and \<^verbatim>\<open>engine/restart.ts\<close>. Each control checks the run's
  status, changes the rows it owns and appends its event, in one transaction; Resume and Retry first
  resolve the latest build, which is an argument here, and check that it fits.
\<close>

section \<open>Launch\<close>

record launch_request =
  lr_project :: nat
  lr_workflow_key :: string
  lr_title :: string
  lr_artifact_hash :: string
  lr_inputs :: json
  lr_parameters :: json
  lr_placement :: run_placement
  lr_origin_worktree_id :: nat
  lr_origin_worktree_path :: string
  lr_origin_surface_id :: "nat option"
  lr_origin_pane_id :: "nat option"
  lr_origin_agent_session_id :: "nat option"
  lr_reused_worktree :: "(nat \<times> string) option"
  lr_reused_surface :: "nat option"

definition launched_row :: "instant \<Rightarrow> launch_request \<Rightarrow> nat \<Rightarrow> run_row" where
  "launched_row at l i =
     \<lparr>r_id = i, r_project_id = lr_project l, r_workflow_key = lr_workflow_key l, r_title = lr_title l,
      r_artifact_hash = lr_artifact_hash l, r_status = Preparing, r_inputs = lr_inputs l,
      r_parameters = lr_parameters l, r_placement = lr_placement l,
      r_origin_worktree_id = lr_origin_worktree_id l,
      r_origin_worktree_path = lr_origin_worktree_path l,
      r_origin_surface_id = lr_origin_surface_id l, r_origin_pane_id = lr_origin_pane_id l,
      r_origin_agent_session_id = lr_origin_agent_session_id l,
      r_worktree_id = map_option fst (lr_reused_worktree l),
      r_worktree_path = map_option snd (lr_reused_worktree l),
      r_setup_done = False, r_surface_id = lr_reused_surface l, r_error = None, r_outcome = None,
      r_created_at = at, r_updated_at = at, r_ended_at = None\<rparr>"

datatype launch_result = ProjectGone | SurfaceBusy nat | Launched run_row

text \<open>
  The surface is checked in the transaction that creates the run, so two launches cannot both take
  it. \<open>projects\<close> are the rows of another domain, read only to see that the project is there.
\<close>

definition commit_launch ::
    "instant \<Rightarrow> nat set \<Rightarrow> launch_request \<Rightarrow> db \<Rightarrow> launch_result \<times> db" where
  "commit_launch at projects l db =
     (if lr_project l \<notin> projects then (ProjectGone, db)
      else case Option.bind (lr_reused_surface l) (\<lambda>s. find_run_on_surface db s None) of
             Some occupant \<Rightarrow> (SurfaceBusy (r_id occupant), db)
           | None \<Rightarrow>
               (let (run, db') = insert_run (launched_row at l) db
                in (Launched run,
                    append_event at (draft (r_id run) None CatRun RunLaunched
                      [Lit ''Launched '', Lit (lr_title l)]
                      (DataLaunched (lr_workflow_key l) (lr_artifact_hash l) (lr_placement l))) db')))"

section \<open>Preparation\<close>

datatype worktree_step =
    WorktreeStopped
  | OpenWorktree string string
  | RunSetup nat
  | RequireWorktree "nat option"
  | WorktreeReady

text \<open>What preparation does about the worktree, from the run as just read.\<close>

definition worktree_step :: "run_row option \<Rightarrow> worktree_step" where
  "worktree_step r =
     (case r of
        None \<Rightarrow> WorktreeStopped
      | Some run \<Rightarrow>
          if r_status run \<noteq> Preparing then WorktreeStopped
          else (case rp_worktree (r_placement run) of
                  CreateWorktree branch ref \<Rightarrow>
                    (case r_worktree_id run of
                       None \<Rightarrow> OpenWorktree branch
                         (case rp_base_commit (r_placement run) of None \<Rightarrow> [] | Some c \<Rightarrow> c)
                     | Some w \<Rightarrow> if r_setup_done run then WorktreeReady else RunSetup w)
                | _ \<Rightarrow> RequireWorktree (r_worktree_id run)))"

datatype surface_step =
    SurfaceStopped
  | CreateEmptySurface "nat option" string
  | SurfaceReady
  | SurfaceGone msg

definition surface_step :: "run_row option \<Rightarrow> surface_step" where
  "surface_step r =
     (case r of
        None \<Rightarrow> SurfaceStopped
      | Some run \<Rightarrow>
          if r_status run \<noteq> Preparing then SurfaceStopped
          else if r_surface_id run \<noteq> None then SurfaceReady
          else (case rp_surface (r_placement run) of
                  CreateSurface title \<Rightarrow> CreateEmptySurface (r_worktree_id run) title
                | ExistingSurface s \<Rightarrow> SurfaceGone
                    [Lit ''Surface '', NumPart (int s),
                     Lit '' no longer exists, and a run never replaces a surface it did not create.'']
                | CurrentSurface \<Rightarrow> SurfaceGone
                    [Lit ''The launch surface'',
                     Lit '' no longer exists, and a run never replaces a surface it did not create.'']))"

definition environment_event :: "instant \<Rightarrow> nat \<Rightarrow> ev_kind \<Rightarrow> msg \<Rightarrow> ev_data \<Rightarrow> db \<Rightarrow> db" where
  "environment_event at run_id kind m d = append_event at (draft run_id None CatEnvironment kind m d)"

text \<open>The commit after \<open>openWorktree\<close> created the worktree, its setup done or failed.\<close>

definition commit_worktree_created ::
    "instant \<Rightarrow> nat \<Rightarrow> nat \<Rightarrow> string option \<Rightarrow> string \<Rightarrow> string option \<Rightarrow> bool \<Rightarrow> db \<Rightarrow>
     thrown_error + db" where
  "commit_worktree_created at run_id worktree path branch base setup_done db =
     map_ok (environment_event at run_id (if setup_done then SetupFinished else SetupFailed)
               [Lit (if setup_done then ''Setup finished'' else ''Setup failed'')] NoData \<circ>
             environment_event at run_id WorktreeCreated [Lit ''Created worktree '', Lit branch]
               (DataWorktree worktree path branch base))
       (update_run at run_id
          (\<lambda>r. r\<lparr>r_worktree_id := Some worktree, r_worktree_path := path, r_setup_done := setup_done\<rparr>) db)"

definition commit_setup :: "instant \<Rightarrow> nat \<Rightarrow> bool \<Rightarrow> db \<Rightarrow> thrown_error + db" where
  "commit_setup at run_id finished db =
     map_ok (environment_event at run_id (if finished then SetupFinished else SetupFailed)
               [Lit (if finished then ''Setup finished'' else ''Setup failed'')] NoData)
       (if finished then update_run at run_id (\<lambda>r. r\<lparr>r_setup_done := True\<rparr>) db else Inr db)"

definition commit_surface_created :: "instant \<Rightarrow> nat \<Rightarrow> nat \<Rightarrow> string \<Rightarrow> db \<Rightarrow> thrown_error + db" where
  "commit_surface_created at run_id surface title db =
     map_ok (environment_event at run_id SurfaceCreated [Lit ''Created surface '', Lit title]
               (DataSurface (Some surface)))
       (update_run at run_id (\<lambda>r. r\<lparr>r_surface_id := Some surface\<rparr>) db)"

definition environment_error :: "msg \<Rightarrow> run_error" where
  "environment_error m =
     \<lparr>re_stage = StageEnvironment, re_message = m, re_graph = None, re_node = None\<rparr>"

text \<open>Shared by a failed preparation and by the restart of one.\<close>

definition fail_preparation :: "instant \<Rightarrow> nat \<Rightarrow> msg \<Rightarrow> ev_data \<Rightarrow> db \<Rightarrow> thrown_error + db" where
  "fail_preparation at run_id m d db =
     map_ok (append_event at (draft run_id None CatRun RunFailed m (DataStage StageEnvironment)) \<circ>
             environment_event at run_id PreparationFailed m d)
       (update_run at run_id
          (\<lambda>r. r\<lparr>r_status := Failed, r_error := Some (environment_error m), r_ended_at := Some at\<rparr>) db)"

definition commit_preparation_failed :: "instant \<Rightarrow> nat \<Rightarrow> msg \<Rightarrow> db \<Rightarrow> thrown_error + db" where
  "commit_preparation_failed at run_id m db =
     (case get_run db run_id of
        None \<Rightarrow> Inr db
      | Some run \<Rightarrow>
          if r_status run \<noteq> Preparing then Inr db
          else fail_preparation at run_id m (DataMessage m) db)"

text \<open>\<open>enterRoot\<close>: the root invocation and its entry execution, once.\<close>

definition commit_enter_root :: "instant \<Rightarrow> artifact \<Rightarrow> nat \<Rightarrow> db \<Rightarrow> thrown_error + db" where
  "commit_enter_root at art run_id db =
     (case get_run db run_id of
        None \<Rightarrow> Inl (RowMissing ''run'')
      | Some current \<Rightarrow>
          if r_status current \<noteq> Preparing then Inr db
          else if find_root_invocation db run_id \<noteq> None
          then update_run at run_id (\<lambda>r. r\<lparr>r_status := Running\<rparr>) db
          else
            (let root = art_root art
             in case (case destination_of current of
                        None \<Rightarrow> failed StageGraphInit (no_destination current) (Some (g_key root)) None
                      | Some dst \<Rightarrow>
                          compute_entry root dst 0 (Okay (stored_parameters (r_parameters current)))) of
                  Threw t \<Rightarrow> Inl t
                | StepFailed failure \<Rightarrow> apply_failure at current None failure None ExFailed db
                | Okay plan \<Rightarrow>
                    map_ok (apply_entry at current plan None)
                      (update_run at run_id (\<lambda>r. r\<lparr>r_status := Running\<rparr>) db)))"

section \<open>Controls\<close>

definition require_run :: "db \<Rightarrow> nat \<Rightarrow> refusal + run_row" where
  "require_run db run_id =
     (case get_run db run_id of None \<Rightarrow> Inl (Refused (RunNotFound run_id)) | Some r \<Rightarrow> Inr r)"

definition refuse :: "nat \<Rightarrow> control \<Rightarrow> refusal + 'a" where
  "refuse run_id c = Inl (Refused (ControlUnavailable run_id c))"

definition run_event :: "instant \<Rightarrow> nat \<Rightarrow> ev_kind \<Rightarrow> string \<Rightarrow> ev_data \<Rightarrow> db \<Rightarrow> db" where
  "run_event at run_id kind m d = append_event at (draft run_id None CatRun kind [Lit m] d)"

definition pause :: "instant \<Rightarrow> nat \<Rightarrow> db \<Rightarrow> refusal + db" where
  "pause at run_id db =
     and_then (require_run db run_id) (\<lambda>run.
       if \<not> drivable run then refuse run_id CtlPause
       else map_ok (run_event at run_id RunPaused ''Paused'' (DataReason ''control''))
              (crash (update_run at run_id (\<lambda>r. r\<lparr>r_status := Paused\<rparr>) db)))"

text \<open>\<open>switchBuild\<close>: nothing when the hash is the run's.\<close>

definition switch_build :: "instant \<Rightarrow> run_row \<Rightarrow> string \<Rightarrow> db \<Rightarrow> thrown_error + db" where
  "switch_build at run hash db =
     (if hash = r_artifact_hash run then Inr db
      else map_ok (run_event at (r_id run) CodeReloaded ''Reloaded the latest build''
                     (DataReload (r_artifact_hash run) hash))
             (update_run at (r_id run) (\<lambda>r. r\<lparr>r_artifact_hash := hash\<rparr>) db))"

datatype position = Parked | RetryPosition

definition reload_invocation_of :: "db \<Rightarrow> invocation_row \<Rightarrow> reload_invocation" where
  "reload_invocation_of db i =
     \<lparr>ri_graph_key = i_graph_key i,
      ri_entered_by =
        (case Option.bind (i_parent i) (get_execution db) of
           None \<Rightarrow> None
         | Some x \<Rightarrow>
             (case get_invocation db (x_invocation_id x) of
                None \<Rightarrow> None
              | Some pi \<Rightarrow> if i_graph_key pi = [] then None else Some (i_graph_key pi, x_node_id x)))\<rparr>"

definition reload_position_of :: "db \<Rightarrow> nat \<Rightarrow> position \<Rightarrow> reload_position" where
  "reload_position_of db run_id position =
     \<lparr>rl_invocations =
        map (reload_invocation_of db)
          (filter (\<lambda>i. i_status i = InvRunning) (list_invocations db run_id)),
      rl_parked =
        map_option
          (\<lambda>x. (case get_invocation db (x_invocation_id x) of None \<Rightarrow> [] | Some i \<Rightarrow> i_graph_key i,
                x_node_id x, x_node_kind x))
          (case position of
             Parked \<Rightarrow> find_leaf_execution db run_id
           | RetryPosition \<Rightarrow> find_retry_target db run_id)\<rparr>"

text \<open>A refusal leaves the run unchanged.\<close>

definition reload_build :: "structure_descriptor \<Rightarrow> nat \<Rightarrow> position \<Rightarrow> db \<Rightarrow> refusal + unit" where
  "reload_build latest run_id position db =
     (case check_reload latest (reload_position_of db run_id position) of
        [] \<Rightarrow> Inr ()
      | ds \<Rightarrow> Inl (Refused (CodeIncompatible run_id ds)))"

definition resume_admitted :: "nat \<Rightarrow> db \<Rightarrow> refusal + unit" where
  "resume_admitted run_id db =
     and_then (require_run db run_id) (\<lambda>run.
       if r_status run \<noteq> Paused \<or> r_surface_id run = None then refuse run_id CtlResume else Inr ())"

definition commit_resume :: "instant \<Rightarrow> nat \<Rightarrow> string \<Rightarrow> db \<Rightarrow> refusal + db" where
  "commit_resume at run_id hash db =
     and_then (require_run db run_id) (\<lambda>current.
       if r_status current \<noteq> Paused then refuse run_id CtlResume
       else map_ok (run_event at run_id RunResumed ''Resumed'' NoData)
         (and_then (crash (switch_build at current hash db)) (\<lambda>db1.
            crash (update_run at run_id (\<lambda>r. r\<lparr>r_status := Running\<rparr>) db1))))"

text \<open>Whether a Retry prepares again: a failed preparation, or a root \<open>init\<close> that threw.\<close>

definition retry_prepares :: "run_row \<Rightarrow> db \<Rightarrow> bool" where
  "retry_prepares run db =
     ((case r_error run of Some e \<Rightarrow> re_stage e = StageEnvironment | None \<Rightarrow> False) \<or>
      find_root_invocation db (r_id run) = None)"

definition retry_admitted :: "nat \<Rightarrow> db \<Rightarrow> refusal + bool" where
  "retry_admitted run_id db =
     and_then (require_run db run_id) (\<lambda>run.
       let preparing = retry_prepares run db
       in if r_status run \<noteq> Failed \<or> (\<not> preparing \<and> r_surface_id run = None)
          then refuse run_id CtlRetry else Inr preparing)"

definition commit_retry_preparation :: "instant \<Rightarrow> nat \<Rightarrow> string \<Rightarrow> db \<Rightarrow> refusal + db" where
  "commit_retry_preparation at run_id hash db =
     and_then (require_run db run_id) (\<lambda>current.
       if r_status current \<noteq> Failed then refuse run_id CtlRetry
       else map_ok (run_event at run_id RunRetried ''Retrying preparation'' NoData)
         (and_then (crash (switch_build at current hash db)) (\<lambda>db1.
            crash (update_run at run_id
              (\<lambda>r. r\<lparr>r_status := Preparing, r_error := None, r_ended_at := None\<rparr>) db1))))"

definition user_wait :: "json saved_result option \<Rightarrow> bool" where
  "user_wait r =
     (case r of
        Some (Suspend _ w) \<Rightarrow>
          (case json_prop w ''kind'' of Some (JsonStr k) \<Rightarrow> take 5 k = ''user_'' | _ \<Rightarrow> False)
      | _ \<Rightarrow> False)"

text \<open>A Retry of an agent wait first observes the session again, and is refused when it cannot.\<close>

definition retry_observes :: "json saved_result option \<Rightarrow> int option" where
  "retry_observes r =
     (case r of
        Some (Suspend _ w) \<Rightarrow> (case wait_view w of Some (AgentTurn i _) \<Rightarrow> Some i | _ \<Rightarrow> None)
      | _ \<Rightarrow> None)"

definition commit_retry :: "instant \<Rightarrow> nat \<Rightarrow> string \<Rightarrow> execution_row \<Rightarrow> db \<Rightarrow> refusal + db" where
  "commit_retry at run_id hash target db =
     and_then (require_run db run_id) (\<lambda>current.
       if r_status current \<noteq> Failed then refuse run_id CtlRetry
       else
         and_then (crash (switch_build at current hash db)) (\<lambda>db1.
           let (x, db2) = insert_execution
                 (new_execution at run_id (x_invocation_id target) (x_node_id target)
                    (x_node_kind target) (x_visit_index target) (x_label target) hash
                    (Some (x_id target)) (x_result target)
                    (if user_wait (x_result target) then x_event target else None)
                    (x_checkpoint target)) db1;
               name = name_or (x_label target) (x_node_id target)
           in map_ok
                (append_event at (draft run_id (Some (x_id x)) CatNode NodeStarted
                   [Lit ''Started '', name, Lit '' again'']
                   (DataStarted (x_node_id target) (x_node_kind target) (Some (x_id target)))) \<circ>
                 append_event at (draft run_id (Some (x_id x)) CatRun RunRetried
                   [Lit ''Retrying '', name]
                   (DataRetry (x_id target) (x_result target \<noteq> None))))
                (crash (update_run at run_id
                   (\<lambda>r. r\<lparr>r_status := Running, r_error := None, r_ended_at := None\<rparr>) db2))))"

definition cancelled_record :: json where
  "cancelled_record = JsonObj [(''error'', JsonStr ''cancelled'')]"

definition cancel_executions :: "instant \<Rightarrow> nat \<Rightarrow> db \<Rightarrow> db" where
  "cancel_executions at run_id db =
     fold (\<lambda>x. if unfinished x
               then update_execution (x_id x) (\<lambda>r. r\<lparr>x_status := ExCancelled, x_ended_at := Some at\<rparr>)
               else id)
       (list_executions db run_id) db"

definition cancel_invocations :: "instant \<Rightarrow> nat \<Rightarrow> db \<Rightarrow> db" where
  "cancel_invocations at run_id db =
     fold (\<lambda>i. if i_status i = InvRunning
               then update_invocation (i_id i) (\<lambda>r. r\<lparr>i_status := InvCancelled, i_ended_at := Some at\<rparr>)
               else id)
       (list_invocations db run_id) db"

definition cancel_headless :: "instant \<Rightarrow> nat \<Rightarrow> db \<Rightarrow> db" where
  "cancel_headless at run_id db =
     fold (\<lambda>r. if o_kind r = RunHeadless
               then settle_operation at (o_id r) OpInterrupted (\<lambda>row. row\<lparr>o_result := Some cancelled_record\<rparr>)
               else id)
       (list_operations db (any_operation\<lparr>oq_run := Some run_id, oq_status := Some OpRunning\<rparr>)) db"

definition cancel :: "instant \<Rightarrow> nat \<Rightarrow> db \<Rightarrow> refusal + db" where
  "cancel at run_id db =
     and_then (require_run db run_id) (\<lambda>run.
       if r_status run \<notin> {Preparing, Running, Waiting, Paused, Failed} then refuse run_id CtlCancel
       else map_ok (run_event at run_id RunCancelled ''Cancelled'' NoData)
         (crash (update_run at run_id (\<lambda>r. r\<lparr>r_status := Cancelled, r_ended_at := Some at\<rparr>)
            (cancel_headless at run_id (cancel_invocations at run_id (cancel_executions at run_id db))))))"

definition dismiss :: "instant \<Rightarrow> nat \<Rightarrow> db \<Rightarrow> refusal + db" where
  "dismiss at run_id db =
     and_then (require_run db run_id) (\<lambda>run.
       if r_status run \<notin> set finished_run_statuses \<or> r_surface_id run = None
       then refuse run_id CtlDismiss
       else map_ok (run_event at run_id RunDismissed ''Dismissed'' (DataSurface (r_surface_id run)))
         (crash (update_run at run_id (\<lambda>r. r\<lparr>r_surface_id := None\<rparr>) db)))"

section \<open>Advance\<close>

definition continue_event :: jsval where
  "continue_event = JObj PlainProto [(''kind'', JStr ''user_continue'')]"

definition input_event :: "(string \<times> json) list \<Rightarrow> jsval" where
  "input_event answers = JObj PlainProto
     [(''kind'', JStr ''user_input''), (''answers'', from_json (JsonObj answers))]"

text \<open>
  A question of a stored wait, taken to have the SDK's shape. An unknown kind is handled as a
  multi-select; an option without a value matches no answer.
\<close>

definition question_of :: "json \<Rightarrow> question" where
  "question_of j =
     \<lparr>q_key = (case json_prop j ''key'' of Some (JsonStr k) \<Rightarrow> k | _ \<Rightarrow> []),
      q_kind =
        (case json_prop j ''kind'' of
           Some (JsonStr k) \<Rightarrow>
             (if k = ''text'' then TextQuestion
              else if k = ''confirm'' then ConfirmQuestion
              else if k = ''select'' then SelectQuestion
              else MultiSelectQuestion)
         | _ \<Rightarrow> MultiSelectQuestion),
      q_options =
        (case json_prop j ''options'' of
           Some (JsonArr os) \<Rightarrow> map (\<lambda>q. case json_prop q ''value'' of None \<Rightarrow> JsonNull | Some v \<Rightarrow> v) os
         | _ \<Rightarrow> []),
      q_default = json_prop j ''default''\<rparr>"

definition user_event ::
    "wait \<Rightarrow> (string \<times> json) list option \<Rightarrow> engine_error + jsval option" where
  "user_event w answers =
     (case w of
        UserContinue _ \<Rightarrow>
          (if answers \<noteq> None then Inl ContinueTakesNoAnswers else Inr (Some continue_event))
      | UserInput qs \<Rightarrow>
          (case validate_user_input (map question_of qs)
                  (case answers of None \<Rightarrow> [] | Some a \<Rightarrow> a) of
             Inl e \<Rightarrow> Inl (UserInputInvalid e)
           | Inr as \<Rightarrow> Inr (Some (input_event as)))
      | _ \<Rightarrow> Inr None)"

text \<open>The wait an execution is parked on, when it is open to an answer.\<close>

definition answerable_wait :: "db \<Rightarrow> nat \<Rightarrow> nat \<Rightarrow> (execution_row \<times> wait) option" where
  "answerable_wait db run_id exec_id =
     (case get_execution db exec_id of
        None \<Rightarrow> None
      | Some x \<Rightarrow>
          if x_run_id x \<noteq> run_id \<or> \<not> unfinished x \<or> x_event x \<noteq> None then None
          else (case x_result x of
                  Some (Suspend _ w) \<Rightarrow> map_option (Pair x) (wait_view w)
                | _ \<Rightarrow> None))"

definition advance ::
    "instant \<Rightarrow> nat \<Rightarrow> nat \<Rightarrow> (string \<times> json) list option \<Rightarrow> db \<Rightarrow> refusal + db" where
  "advance at run_id exec_id answers db =
     and_then (require_run db run_id) (\<lambda>run.
       if r_status run \<notin> {Running, Waiting, Paused} then refuse run_id CtlAdvance
       else case answerable_wait db run_id exec_id of
              None \<Rightarrow> Inl (Refused (WaitNotFound run_id exec_id))
            | Some (x, w) \<Rightarrow>
                (case user_event w answers of
                   Inl e \<Rightarrow> Inl (Refused e)
                 | Inr None \<Rightarrow> Inl (Refused (WaitNotFound run_id exec_id))
                 | Inr (Some event) \<Rightarrow>
                     Inr (append_event at (draft run_id (Some (x_id x)) CatNode WaitDelivered
                            [Lit (case w of UserContinue _ \<Rightarrow> ''Continued'' | _ \<Rightarrow> ''Answered'')]
                            (DataJson (json_or_null event)))
                          (update_execution (x_id x) (\<lambda>r. r\<lparr>x_event := Some (json_or_null event)\<rparr>) db))))"

section \<open>Restart\<close>

definition restart_record :: "operation_row \<Rightarrow> json" where
  "restart_record r =
     (if o_kind r = RunHeadless
      then JsonObj [(''exitCode'', JsonNull), (''error'', JsonStr ''runtime_restarted''),
             (''interruption'', JsonObj [(''reason'', JsonStr ''runtime_restarted''),
                (''launchedAt'', JsonStr (iso_text (o_started_at r)))])]
      else JsonObj [(''error'', JsonStr ''runtime_restarted'')])"

definition recover_operations :: "instant \<Rightarrow> db \<Rightarrow> db" where
  "recover_operations at db =
     fold (\<lambda>r. settle_operation at (o_id r) OpInterrupted (\<lambda>row. row\<lparr>o_result := Some (restart_record r)\<rparr>))
       (list_operations db (any_operation\<lparr>oq_status := Some OpRunning\<rparr>)) db"

definition restart_message :: msg where
  "restart_message = [Lit ''Preparation was interrupted by an app restart.'']"

definition interrupted_by_restart :: "execution_row \<Rightarrow> bool" where
  "interrupted_by_restart leaf =
     (x_node_kind leaf = KindOperation \<and> x_status leaf = ExRunning \<and> x_result leaf = None)"

definition recover_run :: "instant \<Rightarrow> run_row \<Rightarrow> db \<Rightarrow> thrown_error + db" where
  "recover_run at run db =
     (if r_status run = Paused then Inr db
      else if r_status run = Preparing then fail_preparation at (r_id run) restart_message NoData db
      else
        (case find_leaf_execution db (r_id run) of
           Some leaf \<Rightarrow>
             if interrupted_by_restart leaf
             then apply_failure at run (Some leaf)
                    \<lparr>re_stage = StageNodeFunction, re_message = [Lit ''Interrupted by an app restart.''],
                     re_graph = None, re_node = Some (x_node_id leaf)\<rparr> None ExInterrupted db
             else map_ok (run_event at (r_id run) RunPaused ''Paused by an app restart'' (DataReason ''app_restart''))
                    (update_run at (r_id run) (\<lambda>r. r\<lparr>r_status := Paused\<rparr>) db)
         | None \<Rightarrow>
             map_ok (run_event at (r_id run) RunPaused ''Paused by an app restart'' (DataReason ''app_restart''))
               (update_run at (r_id run) (\<lambda>r. r\<lparr>r_status := Paused\<rparr>) db)))"

fun recover_runs :: "instant \<Rightarrow> run_row list \<Rightarrow> db \<Rightarrow> thrown_error + db" where
  "recover_runs at [] db = Inr db"
| "recover_runs at (run # rs) db = and_then (recover_run at run db) (recover_runs at rs)"

definition recover_at_startup :: "instant \<Rightarrow> db \<Rightarrow> thrown_error + db" where
  "recover_at_startup at db =
     (let db1 = recover_operations at db
      in recover_runs at (list_runs_with_status db1 active_run_statuses) db1)"

end
