(* ===== verification/Prompts.thy ===== *)
theory Prompts
  imports Rows
begin

text \<open>
  The text of a prompt: \<^verbatim>\<open>prompt-renderer.ts\<close>, with the tokens the four harness definitions
  write for a skill or a command. What the author passes is any value; strings are over the code
  points below 256, on which \<open>\s\<close> and the categories \<open>Cc\<close> and \<open>Cf\<close> are the sets below.
\<close>

section \<open>Characters\<close>

text \<open>\<open>\s\<close>\<close>

definition white :: "char \<Rightarrow> bool" where
  "white c = (let n = of_char c :: nat in n = 32 \<or> (9 \<le> n \<and> n \<le> 13) \<or> n = 160)"

text \<open>\<open>String.prototype.trim\<close>.\<close>

definition js_trim :: "string \<Rightarrow> string" where
  "js_trim s = rev (dropWhile white (rev (dropWhile white s)))"

text \<open>\<open>\p{Cc}\<close> and \<open>\p{Cf}\<close>\<close>

definition control_char :: "char \<Rightarrow> bool" where
  "control_char c = (let n = of_char c :: nat in n \<le> 31 \<or> (127 \<le> n \<and> n \<le> 159) \<or> n = 173)"

section \<open>Harnesses\<close>

datatype agent_harness = PiHarness | OpenCodeHarness | ClaudeHarness | CodexHarness

fun render_skill_token :: "agent_harness \<Rightarrow> string \<Rightarrow> string" where
  "render_skill_token PiHarness name = ''/skill:'' @ name"
| "render_skill_token OpenCodeHarness name = ''/'' @ name"
| "render_skill_token ClaudeHarness name = ''/'' @ name"
| "render_skill_token CodexHarness name = ''$'' @ name"

fun render_command_token :: "agent_harness \<Rightarrow> string \<Rightarrow> string" where
  "render_command_token PiHarness name = ''/'' @ name"
| "render_command_token OpenCodeHarness name = ''/'' @ name"
| "render_command_token ClaudeHarness name = ''/'' @ name"
| "render_command_token CodexHarness name = ''$'' @ name"

section \<open>Validation\<close>

datatype modifier_kind = SkillModifier | CommandModifier

record modifier =
  mo_kind :: modifier_kind
  mo_name :: string

datatype prompt_reason = InvalidPrompt | InvalidModifier | EmptyInput

record prompt_error =
  pe_reason :: prompt_reason
  pe_message :: msg
  pe_index :: "nat option"
  pe_kind :: "string option"
  pe_name :: "string option"

definition prompt_error :: "prompt_reason \<Rightarrow> msg \<Rightarrow> prompt_error" where
  "prompt_error r m = \<lparr>pe_reason = r, pe_message = m, pe_index = None, pe_kind = None, pe_name = None\<rparr>"

definition validate_prompt :: "jsval \<Rightarrow> prompt_error + string option" where
  "validate_prompt p =
     (case p of
        JUndefined \<Rightarrow> Inr None
      | JStr s \<Rightarrow> Inr (Some s)
      | _ \<Rightarrow> Inl (prompt_error InvalidPrompt [Lit ''Workflow prompt must be a string when provided.'']))"

definition at_modifier :: "nat \<Rightarrow> string option \<Rightarrow> string \<Rightarrow> prompt_error" where
  "at_modifier i kind rest =
     (prompt_error InvalidModifier
        [Lit ''Workflow prompt modifier at index '', NumPart (int i), Lit rest])
       \<lparr>pe_index := Some i, pe_kind := kind\<rparr>"

fun kind_text :: "modifier_kind \<Rightarrow> string" where
  "kind_text SkillModifier = ''skill''"
| "kind_text CommandModifier = ''command''"

definition starts_with_sigil :: "string \<Rightarrow> bool" where
  "starts_with_sigil s = (case s of [] \<Rightarrow> False | c # _ \<Rightarrow> c = CHR ''/'' \<or> c = CHR ''$'')"

definition validate_name :: "nat \<Rightarrow> modifier_kind \<Rightarrow> jsval \<Rightarrow> prompt_error + modifier" where
  "validate_name i kind n =
     (case n of
        JStr name \<Rightarrow>
          if name = [] then Inl (at_modifier i (Some (kind_text kind)) '' must have a non-empty name.'')
          else if (\<exists>c \<in> set name. white c) \<or> (\<exists>c \<in> set name. control_char c)
          then Inl (at_modifier i (Some (kind_text kind))
                      '' cannot contain whitespace or control characters.'')
          else if starts_with_sigil name
          then Inl (at_modifier i (Some (kind_text kind)) '' cannot include a leading harness sigil.'')
          else Inr \<lparr>mo_kind = kind, mo_name = name\<rparr>
      | _ \<Rightarrow> Inl (at_modifier i (Some (kind_text kind)) '' must have a string name.''))"

definition validate_modifier :: "nat \<Rightarrow> jsval \<Rightarrow> prompt_error + modifier" where
  "validate_modifier i m =
     (case m of
        JObj c ps \<Rightarrow>
          if get_prop m ''kind'' = JStr ''skill'' then validate_name i SkillModifier (get_prop m ''name'')
          else if get_prop m ''kind'' = JStr ''command''
          then validate_name i CommandModifier (get_prop m ''name'')
          else Inl (at_modifier i (case get_prop m ''kind'' of JStr k \<Rightarrow> Some k | _ \<Rightarrow> None)
                      '' must have kind \"skill\" or \"command\".'')
      | _ \<Rightarrow> Inl (at_modifier i None '' must be an object.''))"

text \<open>\<open>Array.from\<close> visits the elements in order; the first bad one throws.\<close>

fun validate_each :: "nat \<Rightarrow> jsval list \<Rightarrow> prompt_error + modifier list" where
  "validate_each i [] = Inr []"
| "validate_each i (m # ms) =
     (case validate_modifier i m of
        Inl e \<Rightarrow> Inl e
      | Inr v \<Rightarrow> (case validate_each (Suc i) ms of Inl e \<Rightarrow> Inl e | Inr vs \<Rightarrow> Inr (v # vs)))"

fun find_command :: "nat \<Rightarrow> modifier list \<Rightarrow> (nat \<times> modifier) option" where
  "find_command i [] = None"
| "find_command i (m # ms) = (if mo_kind m = CommandModifier then Some (i, m) else find_command (Suc i) ms)"

definition validate_modifiers :: "jsval \<Rightarrow> prompt_error + modifier list" where
  "validate_modifiers ms =
     (case ms of
        JUndefined \<Rightarrow> Inr []
      | JArr es \<Rightarrow>
          (case validate_each 0 es of
             Inl e \<Rightarrow> Inl e
           | Inr vs \<Rightarrow>
               (case find_command 0 vs of
                  Some (i, c) \<Rightarrow>
                    if length vs \<noteq> 1
                    then Inl ((prompt_error InvalidModifier
                                 [Lit ''A command must be the sole workflow prompt modifier.''])
                                \<lparr>pe_index := Some i, pe_kind := Some (kind_text (mo_kind c)),
                                 pe_name := Some (mo_name c)\<rparr>)
                    else Inr vs
                | None \<Rightarrow> Inr vs))
      | _ \<Rightarrow> Inl (prompt_error InvalidModifier
                    [Lit ''Workflow prompt modifiers must be an array when provided.'']))"

section \<open>Rendering\<close>

definition render_token :: "agent_harness \<Rightarrow> modifier \<Rightarrow> string" where
  "render_token h m =
     (if mo_kind m = SkillModifier then render_skill_token h (mo_name m)
      else render_command_token h (mo_name m))"

text \<open>\<open>tokens.join(' ')\<close>\<close>

fun join_blank :: "string list \<Rightarrow> string" where
  "join_blank [] = []"
| "join_blank [t] = t"
| "join_blank (t # ts) = t @ CHR '' '' # join_blank ts"

definition present :: "string option \<Rightarrow> bool" where
  "present p = (case p of None \<Rightarrow> False | Some s \<Rightarrow> \<not> list_all white s)"

definition render_workflow_prompt :: "agent_harness \<Rightarrow> jsval \<Rightarrow> prompt_error + string" where
  "render_workflow_prompt h input =
     (case validate_prompt (get_prop input ''prompt'') of
        Inl e \<Rightarrow> Inl e
      | Inr p \<Rightarrow>
          (case validate_modifiers (get_prop input ''modifiers'') of
             Inl e \<Rightarrow> Inl e
           | Inr ms \<Rightarrow>
               if ms = [] \<and> \<not> present p
               then Inl (prompt_error EmptyInput
                      [Lit ''Workflow prompt input must include a modifier or a non-whitespace prompt.''])
               else (let tokens = map (render_token h) ms
                     in if \<not> present p then Inr (join_blank tokens)
                        else if tokens = [] then Inr (the p)
                        else Inr (join_blank tokens @ CHR '' '' # the p))))"

section \<open>What is accepted\<close>

definition plain_name :: "string \<Rightarrow> bool" where
  "plain_name s = (s \<noteq> [] \<and> (\<forall>c \<in> set s. \<not> white c \<and> \<not> control_char c) \<and> \<not> starts_with_sigil s)"

lemma validate_modifier_Inr:
  "validate_modifier i v = Inr m \<Longrightarrow> plain_name (mo_name m)"
  by (auto simp: validate_modifier_def validate_name_def plain_name_def
      split: jsval.splits if_splits)

lemma validate_each_Inr:
  "validate_each i es = Inr ms \<Longrightarrow> length ms = length es \<and> (\<forall>m \<in> set ms. plain_name (mo_name m))"
  by (induction i es arbitrary: ms rule: validate_each.induct)
     (auto split: sum.splits dest: validate_modifier_Inr)

lemma find_command_None: "find_command i ms = None \<Longrightarrow> m \<in> set ms \<Longrightarrow> mo_kind m = SkillModifier"
  by (induction ms arbitrary: i) (auto split: if_splits intro: modifier_kind.exhaust)

lemma validate_modifiers_Inr:
  assumes "validate_modifiers v = Inr ms"
  shows "m \<in> set ms \<Longrightarrow> plain_name (mo_name m)"
    and "length ms = 1 \<or> (\<forall>m \<in> set ms. mo_kind m = SkillModifier)"
proof -
  have "ms = [] \<or> (\<exists>es. validate_each 0 es = Inr ms) \<and> (length ms = 1 \<or> find_command 0 ms = None)"
    using assms by (auto simp: validate_modifiers_def split: jsval.splits sum.splits option.splits if_splits)
  then show "m \<in> set ms \<Longrightarrow> plain_name (mo_name m)"
    and "length ms = 1 \<or> (\<forall>m \<in> set ms. mo_kind m = SkillModifier)"
    by (auto dest: validate_each_Inr find_command_None)
qed

lemma blank_is_white [simp]: "white CHR '' ''"
  by (simp add: white_def)

lemma token_prefix:
  "\<exists>pre. render_token h m = pre @ mo_name m \<and> (pre = ''/skill:'' \<or> pre = ''/'' \<or> pre = ''$'')"
  by (cases h) (simp_all add: render_token_def)

lemma prefix_no_white:
  "\<not> (\<exists>c \<in> set ''/skill:''. white c)" "\<not> (\<exists>c \<in> set ''/''. white c)" "\<not> (\<exists>c \<in> set ''$''. white c)"
  by (simp_all add: white_def)

lemma token_no_white:
  assumes "plain_name (mo_name m)"
  shows "c \<in> set (render_token h m) \<Longrightarrow> \<not> white c" and "render_token h m \<noteq> []"
proof -
  obtain pre where pre: "render_token h m = pre @ mo_name m" "\<not> (\<exists>c \<in> set pre. white c)"
    using token_prefix [of h m] prefix_no_white by metis
  with assms show "c \<in> set (render_token h m) \<Longrightarrow> \<not> white c" and "render_token h m \<noteq> []"
    by (auto simp: plain_name_def)
qed

text \<open>The text cut at its blanks.\<close>

fun words_of :: "string \<Rightarrow> string \<Rightarrow> string list" where
  "words_of w [] = [rev w]"
| "words_of w (c # cs) = (if c = CHR '' '' then rev w # words_of [] cs else words_of (c # w) cs)"

lemma words_of_token:
  "\<forall>c \<in> set t. c \<noteq> CHR '' '' \<Longrightarrow>
     words_of w (t @ rest) = words_of (rev t @ w) rest"
  by (induction t arbitrary: w) auto

lemma words_of_join:
  "\<forall>t \<in> set ts. \<forall>c \<in> set t. c \<noteq> CHR '' '' \<Longrightarrow> ts \<noteq> [] \<Longrightarrow>
     words_of [] (join_blank ts) = ts \<and> words_of [] (join_blank ts @ CHR '' '' # s) = ts @ words_of [] s"
proof (induction ts rule: join_blank.induct)
  case (2 t)
  then show ?case using words_of_token [of t "[]" "[]"] by (simp add: words_of_token)
next
  case (3 t u us)
  then show ?case by (simp add: words_of_token)
qed simp

lemma join_not_white: "ts \<noteq> [] \<Longrightarrow> \<forall>t \<in> set ts. t \<noteq> [] \<and> (\<forall>c \<in> set t. \<not> white c) \<Longrightarrow> \<exists>c \<in> set (join_blank ts). \<not> white c"
  by (induction ts rule: join_blank.induct) (auto simp: neq_Nil_conv)

lemma present_Some: "present p \<Longrightarrow> \<exists>s. p = Some s \<and> (\<exists>c \<in> set s. \<not> white c)"
  by (auto simp: present_def list_all_iff split: option.splits)



end
