(* ===== verification/Operations.thy ===== *)
theory Operations
  imports Controls Prompts
begin

text \<open>
  What a node function does through its \<open>ctx\<close>: \<^verbatim>\<open>operations/context.ts\<close> and
  \<^verbatim>\<open>operations/headless.ts\<close>. Every side effect is an operation row: recorded before the effect,
  settled after it. A headless job is tracked in memory by its process until the commit that records
  its end. What the agent port, the processes and the author answer are arguments.
\<close>

section \<open>Requests\<close>

text \<open>\<open>WorkflowPromptInput\<close> and the fields each call adds to it.\<close>

record agent_input =
  ai_prompt :: "string option"
  ai_modifiers :: "modifier list option"
  ai_harness :: "string option"
  ai_model :: "string option"
  ai_effort :: "string option"
  ai_session :: "int option"

definition optional_member :: "string \<Rightarrow> json option \<Rightarrow> (string \<times> json) list" where
  "optional_member k v = (case v of None \<Rightarrow> [] | Some j \<Rightarrow> [(k, j)])"

definition modifier_json :: "modifier \<Rightarrow> json" where
  "modifier_json m =
     JsonObj [(''kind'', JsonStr (kind_text (mo_kind m))), (''name'', JsonStr (mo_name m))]"

definition request_members :: "agent_input \<Rightarrow> string \<Rightarrow> (string \<times> json) list" where
  "request_members input prompt =
     [(''prompt'', JsonStr prompt)] @
     optional_member ''authoredPrompt'' (map_option JsonStr (ai_prompt input)) @
     optional_member ''modifiers'' (map_option (\<lambda>ms. JsonArr (map modifier_json ms)) (ai_modifiers input)) @
     optional_member ''harness'' (map_option JsonStr (ai_harness input)) @
     optional_member ''model'' (map_option JsonStr (ai_model input)) @
     optional_member ''effort'' (map_option JsonStr (ai_effort input)) @
     optional_member ''agentSessionId'' (map_option JsonNum (ai_session input))"

section \<open>One call of the context\<close>

datatype agent_call =
    SpawnCall agent_input
  | SendCall agent_input string
  | ClosePaneCall nat
  | HeadlessCall agent_input "int option"

text \<open>
  The row a call records: \<open>SendCall\<close> carries the harness its session was created with. The rendered
  prompt is the second argument.
\<close>

definition call_draft :: "nat \<Rightarrow> nat \<Rightarrow> agent_call \<Rightarrow> string \<Rightarrow> operation_draft" where
  "call_draft run x c prompt =
     (case c of
        SpawnCall input \<Rightarrow>
          \<lparr>od_run = run, od_execution = x, od_kind = SpawnAgent, od_agent_session_id = None,
           od_pane_id = None, od_harness = ai_harness input, od_model = ai_model input,
           od_effort = ai_effort input, od_request = JsonObj (request_members input prompt)\<rparr>
      | SendCall input harness \<Rightarrow>
          \<lparr>od_run = run, od_execution = x, od_kind = SendPrompt, od_agent_session_id = ai_session input,
           od_pane_id = None, od_harness = Some harness, od_model = None, od_effort = None,
           od_request = JsonObj (request_members input prompt)\<rparr>
      | ClosePaneCall pane \<Rightarrow>
          \<lparr>od_run = run, od_execution = x, od_kind = ClosePane, od_agent_session_id = None,
           od_pane_id = Some pane, od_harness = None, od_model = None, od_effort = None,
           od_request = JsonObj [(''paneId'', JsonNum (int pane))]\<rparr>
      | HeadlessCall input timeout \<Rightarrow>
          \<lparr>od_run = run, od_execution = x, od_kind = RunHeadless, od_agent_session_id = None,
           od_pane_id = None, od_harness = ai_harness input, od_model = ai_model input,
           od_effort = ai_effort input,
           od_request = JsonObj (request_members input prompt @
             [(''timeoutMs'', case timeout of None \<Rightarrow> JsonNull | Some t \<Rightarrow> JsonNum t)])\<rparr>)"

text \<open>\<open>record\<close>: nothing new starts for a cancelled run.\<close>

definition commit_operation_started ::
    "instant \<Rightarrow> operation_draft \<Rightarrow> db \<Rightarrow> operation_row option \<times> db" where
  "commit_operation_started at d db =
     (if map_option r_status (get_run db (od_run d)) = Some Cancelled then (None, db)
      else (let (r, db') = insert_operation at d db in (Some r, db')))"

text \<open>\<open>logged\<close>\<close>

definition error_record :: "string \<Rightarrow> json" where
  "error_record cause = JsonObj [(''error'', JsonStr cause)]"

definition commit_operation_failed :: "instant \<Rightarrow> nat \<Rightarrow> string \<Rightarrow> db \<Rightarrow> db" where
  "commit_operation_failed at i cause db =
     settle_operation at i OpFailed (\<lambda>r. r\<lparr>o_result := Some (error_record cause)\<rparr>) db"

datatype call_value =
    Spawned int nat string string
  | Sent int string
  | PaneClosed

definition call_patch :: "call_value \<Rightarrow> operation_row \<Rightarrow> operation_row" where
  "call_patch v r =
     (case v of
        Spawned session pane sent_at harness_session \<Rightarrow>
          r\<lparr>o_result := Some (JsonObj [(''agentSessionId'', JsonNum session),
               (''paneId'', JsonNum (int pane)), (''sentAt'', JsonStr sent_at)]),
            o_harness_session_id := Some harness_session\<rparr>
      | Sent session sent_at \<Rightarrow>
          r\<lparr>o_result := Some (JsonObj [(''agentSessionId'', JsonNum session),
               (''sentAt'', JsonStr sent_at)])\<rparr>
      | PaneClosed \<Rightarrow> r)"

definition commit_operation_completed :: "instant \<Rightarrow> nat \<Rightarrow> call_value \<Rightarrow> db \<Rightarrow> db" where
  "commit_operation_completed at i v db = settle_operation at i OpCompleted (call_patch v) db"

text \<open>\<open>onCreated\<close>\<close>

definition commit_operation_session :: "nat \<Rightarrow> nat \<Rightarrow> int \<Rightarrow> db \<Rightarrow> db" where
  "commit_operation_session i pane session db =
     update_operation i (\<lambda>r. r\<lparr>o_pane_id := Some pane, o_agent_session_id := Some session\<rparr>) db"

definition commit_log :: "instant \<Rightarrow> nat \<Rightarrow> nat \<Rightarrow> string \<Rightarrow> string \<Rightarrow> db \<Rightarrow> db" where
  "commit_log at run x level m db =
     append_event at (draft run (Some x) CatLog LogEvent [Lit m] (DataLog level [Lit m])) db"

record ui_feedback =
  uf_kind :: "string option"
  uf_phase :: "string option"
  uf_message :: "string option"

definition commit_ui_feedback :: "instant \<Rightarrow> nat \<Rightarrow> nat \<Rightarrow> ui_feedback \<Rightarrow> db \<Rightarrow> db" where
  "commit_ui_feedback at run x f db =
     append_event at (draft run (Some x) CatUi UiFeedback
       [Lit (case uf_message f of None \<Rightarrow> [] | Some m \<Rightarrow> m)]
       (DataJson (JsonObj
          ([(''kind'', JsonStr (case uf_kind f of None \<Rightarrow> ''info'' | Some k \<Rightarrow> k))] @
           optional_member ''phase'' (map_option JsonStr (uf_phase f)) @
           optional_member ''message'' (map_option JsonStr (uf_message f)))))) db"

section \<open>How a headless job ended\<close>

datatype exit_status = Exited | ExitFailed | Killed

record headless_exit =
  he_status :: exit_status
  he_code :: "int option"

record headless_capture =
  hc_output :: string
  hc_semantic_error :: "string option"
  hc_harness_session :: "string option"
  hc_usage :: jsval

text \<open>\<open>captured\<close>: the failed read carries its message. \<open>None\<close> is a clean end.\<close>

definition headless_error :: "bool \<Rightarrow> string + headless_capture \<Rightarrow> headless_exit \<Rightarrow> string option" where
  "headless_error timed_out captured ex =
     (if timed_out then Some ''timeout''
      else case captured of
             Inl m \<Rightarrow> Some (''output_unavailable: '' @ m)
           | Inr out \<Rightarrow>
               (case hc_semantic_error out of
                  Some e \<Rightarrow> Some e
                | None \<Rightarrow>
                    if he_status ex = Killed then Some ''killed''
                    else if he_status ex = ExitFailed then Some ''process_failed''
                    else if he_code ex = Some 0 then None
                    else Some ''non_zero_exit''))"

definition headless_record :: "headless_exit \<Rightarrow> string option \<Rightarrow> json" where
  "headless_record ex error =
     JsonObj ([(''exitCode'', case he_code ex of None \<Rightarrow> JsonNull | Some c \<Rightarrow> JsonNum c)] @
              optional_member ''error'' (map_option JsonStr error))"

text \<open>Cancel may already have ended the operation.\<close>

definition commit_headless_settled ::
    "instant \<Rightarrow> nat \<Rightarrow> bool \<Rightarrow> string + headless_capture \<Rightarrow> headless_exit \<Rightarrow> db \<Rightarrow> db" where
  "commit_headless_settled at i timed_out captured ex db =
     (if map_option o_status (get_operation db i) \<noteq> Some OpRunning then db
      else (let error = headless_error timed_out captured ex
            in settle_operation at i (if error = None then OpCompleted else OpFailed)
                 (\<lambda>r. r\<lparr>o_response_text := (case captured of Inl _ \<Rightarrow> None | Inr out \<Rightarrow> Some (hc_output out)),
                      o_result := Some (headless_record ex error),
                      o_harness_session_id :=
                        (case captured of Inl _ \<Rightarrow> None | Inr out \<Rightarrow> hc_harness_session out),
                      o_usage := (case captured of Inl _ \<Rightarrow> None
                                    | Inr out \<Rightarrow> to_nullable_json (hc_usage out))\<rparr>) db))"

section \<open>Tracked processes\<close>

record tracked =
  tk_run :: nat
  tk_operation :: nat
  tk_timed_out :: bool
  tk_settling :: bool

type_synonym processes = "nat \<Rightarrow> tracked option"

datatype stop_reason = StopTimeout | StopCancelled

definition commit_stop_failed :: "instant \<Rightarrow> tracked \<Rightarrow> nat \<Rightarrow> stop_reason \<Rightarrow> string \<Rightarrow> db \<Rightarrow> db" where
  "commit_stop_failed at t p why cause db =
     append_event at (draft (tk_run t) None CatRun StopFailed
       [Lit ''Headless process '', NumPart (int p),
        Lit (if why = StopTimeout then '' timed out and could not be stopped: '' else '' could not be stopped: ''),
        Lit cause]
       (DataJson (JsonObj
          ([(''operationId'', JsonNum (int (tk_operation t))), (''ptyProcessId'', JsonNum (int p))] @
           (if why = StopTimeout then [(''reason'', JsonStr ''timeout'')] else []))))) db"

text \<open>\<open>startHeadless\<close> once its process is launched.\<close>

definition track :: "nat \<Rightarrow> nat \<Rightarrow> nat \<Rightarrow> processes \<Rightarrow> processes" where
  "track p run i ps =
     ps(p \<mapsto> \<lparr>tk_run = run, tk_operation = i, tk_timed_out = False, tk_settling = False\<rparr>)"

text \<open>
  \<open>stopTracked\<close>: \<open>failure\<close> is why the process could not be stopped. A stopped process is released; one
  that will not stop stays tracked.
\<close>

definition stop_tracked ::
    "instant \<Rightarrow> nat \<Rightarrow> string option \<Rightarrow> db \<times> processes \<Rightarrow> db \<times> processes" where
  "stop_tracked at p failure s =
     (case snd s p of
        None \<Rightarrow> s
      | Some t \<Rightarrow>
          (case failure of
             None \<Rightarrow> (fst s, (snd s)(p := None))
           | Some cause \<Rightarrow> (commit_stop_failed at t p StopCancelled cause (fst s), snd s)))"

text \<open>\<open>timeOutHeadless\<close> up to its look at the exit.\<close>

definition time_out_headless ::
    "instant \<Rightarrow> nat \<Rightarrow> string option \<Rightarrow> db \<times> processes \<Rightarrow> db \<times> processes" where
  "time_out_headless at p failure s =
     (case snd s p of
        None \<Rightarrow> s
      | Some t \<Rightarrow>
          (case failure of
             None \<Rightarrow> fst s
           | Some cause \<Rightarrow> commit_stop_failed at t p StopTimeout cause (fst s),
           (snd s)(p \<mapsto> t\<lparr>tk_timed_out := True\<rparr>)))"

text \<open>
  \<open>settleHeadless\<close>: \<open>settle_begin\<close> claims the job, so one settlement runs at a time; \<open>settle_end\<close> is
  its commit, which ends the tracking, or its failed commit, after which the job is free again.
\<close>

definition settle_begin :: "nat \<Rightarrow> processes \<Rightarrow> processes option" where
  "settle_begin p ps =
     (case ps p of
        None \<Rightarrow> None
      | Some t \<Rightarrow> if tk_settling t then None else Some (ps(p \<mapsto> t\<lparr>tk_settling := True\<rparr>)))"

definition settle_end ::
    "instant \<Rightarrow> nat \<Rightarrow> tracked \<Rightarrow> bool \<Rightarrow> string + headless_capture \<Rightarrow> headless_exit \<Rightarrow> bool \<Rightarrow>
     db \<times> processes \<Rightarrow> db \<times> processes" where
  "settle_end at p t timed_out captured ex committed s =
     (if committed
      then (commit_headless_settled at (tk_operation t) timed_out captured ex (fst s), (snd s)(p := None))
      else (fst s, (snd s)(p \<mapsto> t\<lparr>tk_settling := False\<rparr>)))"

end
