(* ===== verification/Engine.thy ===== *)
theory Engine
  imports Controls Operations
begin

text \<open>
  The engine as a transition system: \<^verbatim>\<open>engine/service.ts\<close>. Its state is the database and
  the run drivers in memory. A driver reads the run, reads its leaf, works outside any transaction
  and commits; between any two of these, any other request may commit. \<open>control_step\<close> are the commits
  of launch, preparation, the controls and the operation context; \<open>driver_step\<close> are the moves of one
  driver; \<open>job_step\<close> those of the headless jobs, tracked in memory too. A restart drops what is in
  memory and recovers. \<open>builds\<close> is what the content-addressed cache loads for a hash.
\<close>

section \<open>Drivers\<close>

datatype phase =
    AtStart
  | GotRun run_row
  | GotLeaf run_row execution_row
  | Calling run_row execution_row string
  | Capturing run_row execution_row
  | Checked run_row execution_row wait_check
  | Defect msg

record driver =
  dr_again :: bool
  dr_phase :: phase

record sys =
  s_db :: db
  s_drivers :: "nat \<Rightarrow> driver option"
  s_processes :: processes
  s_launching :: "nat set"

text \<open>\<open>kick\<close>: a run has at most one driver; kicking a driven run makes its driver look again.\<close>

definition kick :: "nat \<Rightarrow> sys \<Rightarrow> sys" where
  "kick r s =
     s\<lparr>s_drivers := (s_drivers s)(r \<mapsto>
         (case s_drivers s r of
            None \<Rightarrow> \<lparr>dr_again = False, dr_phase = AtStart\<rparr>
          | Some d \<Rightarrow> d\<lparr>dr_again := True\<rparr>))\<rparr>"

text \<open>A driver that found the run parked ends, unless it was kicked meanwhile.\<close>

definition park_driver :: "nat \<Rightarrow> sys \<Rightarrow> sys" where
  "park_driver r s =
     s\<lparr>s_drivers := (s_drivers s)(r :=
         (case s_drivers s r of
            Some d \<Rightarrow> if dr_again d then Some \<lparr>dr_again = False, dr_phase = AtStart\<rparr> else None
          | None \<Rightarrow> None))\<rparr>"

definition set_phase :: "nat \<Rightarrow> phase \<Rightarrow> sys \<Rightarrow> sys" where
  "set_phase r p s =
     s\<lparr>s_drivers := (s_drivers s)(r := map_option (\<lambda>d. d\<lparr>dr_phase := p\<rparr>) (s_drivers s r))\<rparr>"

definition phase_of :: "sys \<Rightarrow> nat \<Rightarrow> phase option" where
  "phase_of s r = map_option dr_phase (s_drivers s r)"

definition with_db :: "db \<Rightarrow> sys \<Rightarrow> sys" where
  "with_db db s = s\<lparr>s_db := db\<rparr>"

section \<open>Commits other than the drivers'\<close>

text \<open>
  Resume and Retry are admitted and check the build before their commit, against an earlier state
  of the database: the commit checks the status again, and a Retry's target is taken to be still
  the one its commit finds.
\<close>

inductive control_step :: "db \<Rightarrow> db \<Rightarrow> bool" where
  launch_step: "commit_launch at projects l db = (res, db') \<Longrightarrow> control_step db db'"
| artifact_step: "control_step db (insert_artifact a db)"
| worktree_created_step:
    "commit_worktree_created at r w path branch base ok db = Inr db' \<Longrightarrow> control_step db db'"
| setup_done_step: "commit_setup at r ok db = Inr db' \<Longrightarrow> control_step db db'"
| surface_created_step:
    "find_run_on_surface db sf None = None \<Longrightarrow>
     commit_surface_created at r sf title db = Inr db' \<Longrightarrow> control_step db db'"
| preparation_failed_step: "commit_preparation_failed at r m db = Inr db' \<Longrightarrow> control_step db db'"
| enter_root_step: "commit_enter_root at art r db = Inr db' \<Longrightarrow> control_step db db'"
| pause_step: "pause at r db = Inr db' \<Longrightarrow> control_step db db'"
| resume_step: "commit_resume at r hash db = Inr db' \<Longrightarrow> control_step db db'"
| retry_preparation_step:
    "retry_admitted r db = Inr True \<Longrightarrow> commit_retry_preparation at r hash db = Inr db' \<Longrightarrow>
     control_step db db'"
| retry_step:
    "retry_admitted r db = Inr False \<Longrightarrow> find_retry_target db r = Some target \<Longrightarrow>
     commit_retry at r hash target db = Inr db' \<Longrightarrow> control_step db db'"
| cancel_step: "cancel at r db = Inr db' \<Longrightarrow> control_step db db'"
| dismiss_step: "dismiss at r db = Inr db' \<Longrightarrow> control_step db db'"
| advance_step: "advance at r x answers db = Inr db' \<Longrightarrow> control_step db db'"
| surface_deleted_step:
    "control_step db (patch_run r (\<lambda>row. row\<lparr>r_surface_id := None\<rparr>) db)"
| operation_started_step:
    "od_kind d \<noteq> RunHeadless \<Longrightarrow> commit_operation_started at d db = (res, db') \<Longrightarrow> control_step db db'"
| operation_session_step:
    "get_operation db i = Some row \<Longrightarrow> o_kind row = SpawnAgent \<Longrightarrow>
     control_step db (commit_operation_session i pane session db)"
| operation_failed_step:
    "get_operation db i = Some row \<Longrightarrow> o_kind row \<noteq> RunHeadless \<Longrightarrow>
     control_step db (commit_operation_failed at i cause db)"
| operation_completed_step:
    "get_operation db i = Some row \<Longrightarrow> o_kind row \<noteq> RunHeadless \<Longrightarrow>
     control_step db (commit_operation_completed at i v db)"
| log_step: "control_step db (commit_log at r x level m db)"
| ui_feedback_step: "control_step db (commit_ui_feedback at r x f db)"

section \<open>The moves of a driver\<close>

inductive driver_step :: "(string \<Rightarrow> artifact option) \<Rightarrow> nat \<Rightarrow> sys \<Rightarrow> sys \<Rightarrow> bool" for builds r where
  read_parked:
    "phase_of s r = Some AtStart \<Longrightarrow>
     (case get_run (s_db s) r of None \<Rightarrow> True | Some run \<Rightarrow> \<not> drivable run) \<Longrightarrow>
     driver_step builds r s (park_driver r s)"
| read_run:
    "phase_of s r = Some AtStart \<Longrightarrow> get_run (s_db s) r = Some run \<Longrightarrow> drivable run \<Longrightarrow>
     driver_step builds r s (set_phase r (GotRun run) s)"
| no_leaf:
    "phase_of s r = Some (GotRun run) \<Longrightarrow> find_leaf_execution (s_db s) r = None \<Longrightarrow>
     driver_step builds r s (park_driver r s)"
| read_leaf:
    "phase_of s r = Some (GotRun run) \<Longrightarrow> find_leaf_execution (s_db s) r = Some leaf \<Longrightarrow>
     driver_step builds r s (set_phase r (GotLeaf run leaf) s)"
| build_not_loaded:
    "phase_of s r = Some (GotLeaf run leaf) \<Longrightarrow>
     commit_fail_step at r (x_id leaf)
       \<lparr>re_stage = StageNodeFunction,
        re_message = [Lit ''The build '', Lit (r_artifact_hash run), Lit '' could not be loaded: '', m],
        re_graph = None, re_node = None\<rparr> (s_db s) = Inr db' \<Longrightarrow>
     driver_step builds r s (park_driver r (with_db db' s))"
| subgraph_entered:
    "phase_of s r = Some (GotLeaf run leaf) \<Longrightarrow> builds (r_artifact_hash run) = Some art \<Longrightarrow>
     step_action leaf = EnterSubgraph \<Longrightarrow>
     commit_enter_subgraph at art r leaf (s_db s) = Inr db' \<Longrightarrow>
     driver_step builds r s (set_phase r AtStart (with_db db' s))"
| function_refused:
    "phase_of s r = Some (GotLeaf run leaf) \<Longrightarrow> builds (r_artifact_hash run) = Some art \<Longrightarrow>
     step_action leaf = RunNodeFunction \<Longrightarrow>
     prepare_node_function (s_db s) art run leaf = Inl failure \<Longrightarrow>
     commit_fail_step at r (x_id leaf) failure (s_db s) = Inr db' \<Longrightarrow>
     driver_step builds r s (set_phase r AtStart (with_db db' s))"
| function_called:
    "phase_of s r = Some (GotLeaf run leaf) \<Longrightarrow> builds (r_artifact_hash run) = Some art \<Longrightarrow>
     step_action leaf = RunNodeFunction \<Longrightarrow>
     prepare_node_function (s_db s) art run leaf = Inr (dst, st) \<Longrightarrow>
     get_invocation (s_db s) (x_invocation_id leaf) = Some i \<Longrightarrow>
     driver_step builds r s (set_phase r (Calling run leaf (i_graph_key i)) s)"
| function_returned:
    "phase_of s r = Some (Calling run leaf key) \<Longrightarrow>
     commit_save_result at key r leaf returned (s_db s) = Inr db' \<Longrightarrow>
     driver_step builds r s (set_phase r AtStart (with_db db' s))"
| capture_begun:
    "phase_of s r = Some (GotLeaf run leaf) \<Longrightarrow> step_action leaf = CaptureCheckpoint \<Longrightarrow>
     driver_step builds r s (set_phase r (Capturing run leaf) s)"
| capture_failed:
    "phase_of s r = Some (Capturing run leaf) \<Longrightarrow> re_stage failure \<noteq> StageEnvironment \<Longrightarrow>
     commit_fail_capture at r leaf failure (s_db s) = Inr db' \<Longrightarrow>
     driver_step builds r s (set_phase r AtStart (with_db db' s))"
| capture_saved:
    "phase_of s r = Some (Capturing run leaf) \<Longrightarrow>
     driver_step builds r s
       (set_phase r AtStart
         (with_db (commit_save_checkpoint at r leaf title commit scopes (s_db s)) s))"
| routed_immediate:
    "phase_of s r = Some (GotLeaf run leaf) \<Longrightarrow> builds (r_artifact_hash run) = Some art \<Longrightarrow>
     step_action leaf = RouteImmediate \<Longrightarrow>
     commit_route at art r (x_id leaf) immediate_event None (s_db s) = Some (Inr (b, db')) \<Longrightarrow>
     driver_step builds r s
       ((if b then park_driver r else set_phase r AtStart) (with_db db' s))"
| wait_checked:
    "phase_of s r = Some (GotLeaf run leaf) \<Longrightarrow> step_action leaf = CheckWait w \<Longrightarrow>
     wait_view w = Some wt \<Longrightarrow> check_wait (s_db s) port fresh at leaf wt = Inr chk \<Longrightarrow>
     driver_step builds r s (set_phase r (Checked run leaf chk) s)"
| wait_parked:
    "phase_of s r = Some (Checked run leaf StillWaiting) \<Longrightarrow>
     commit_park at r (x_id leaf) (s_db s) = Inr db' \<Longrightarrow>
     driver_step builds r s (park_driver r (with_db db' s))"
| wait_delivered:
    "phase_of s r = Some (Checked run leaf (Delivered event reply)) \<Longrightarrow>
     builds (r_artifact_hash run) = Some art \<Longrightarrow>
     commit_route at art r (x_id leaf) event reply (s_db s) = Some (Inr (b, db')) \<Longrightarrow>
     driver_step builds r s
       ((if b then park_driver r else set_phase r AtStart) (with_db db' s))"
| step_defect: "driver_step builds r s (set_phase r (Defect m) s)"
| defect_recorded:
    "phase_of s r = Some (Defect m) \<Longrightarrow> commit_defect at r m (s_db s) = Inr db' \<Longrightarrow>
     driver_step builds r s (park_driver r (with_db db' s))"
| defect_not_recorded:
    "phase_of s r = Some (Defect m) \<Longrightarrow> driver_step builds r s (park_driver r s)"

section \<open>Headless jobs\<close>

text \<open>
  \<open>s_launching\<close> are the operations whose launch is in flight; process ids are new. A start that fails,
  before or after its process is tracked, fails the operation. A job is settled by its exit, by the
  end of its timeout, or by a check of its wait that finds it ended; it is stopped when its operation
  was over before the launch returned, and after its run's Cancel. A settlement that finds its job
  stopped meanwhile changes nothing and has no step.
\<close>

definition with_jobs :: "db \<times> processes \<Rightarrow> sys \<Rightarrow> sys" where
  "with_jobs dp s = s\<lparr>s_db := fst dp, s_processes := snd dp\<rparr>"

inductive job_step :: "sys \<Rightarrow> sys \<Rightarrow> bool" where
  job_recorded:
    "od_kind d = RunHeadless \<Longrightarrow> commit_operation_started at d (s_db s) = (Some row, db') \<Longrightarrow>
     job_step s (with_db db' s\<lparr>s_launching := insert (o_id row) (s_launching s)\<rparr>)"
| job_launched:
    "i \<in> s_launching s \<Longrightarrow> get_operation (s_db s) i = Some row \<Longrightarrow> s_processes s p = None \<Longrightarrow>
     job_step s (s\<lparr>s_processes := track p (o_run_id row) i (s_processes s),
                   s_launching := s_launching s - {i}\<rparr>)"
| job_not_launched:
    "i \<in> s_launching s \<Longrightarrow>
     job_step s (with_db (commit_operation_failed at i cause (s_db s)) s
                   \<lparr>s_launching := s_launching s - {i}\<rparr>)"
| job_start_failed:
    "s_processes s p = Some t \<Longrightarrow>
     job_step s (with_db (commit_operation_failed at (tk_operation t) cause (s_db s)) s)"
| job_over_at_start:
    "s_processes s p = Some t \<Longrightarrow>
     map_option o_status (get_operation (s_db s) (tk_operation t)) \<noteq> Some OpRunning \<Longrightarrow>
     job_step s (with_jobs (stop_tracked at p failure (s_db s, s_processes s)) s)"
| job_stopped_by_cancel:
    "s_processes s p = Some t \<Longrightarrow> get_run (s_db s) (tk_run t) = Some run \<Longrightarrow>
     r_status run = Cancelled \<Longrightarrow>
     job_step s (with_jobs (stop_tracked at p failure (s_db s, s_processes s)) s)"
| job_timed_out:
    "job_step s (with_jobs (time_out_headless at p failure (s_db s, s_processes s)) s)"
| job_claimed:
    "settle_begin p (s_processes s) = Some ps \<Longrightarrow> job_step s (s\<lparr>s_processes := ps\<rparr>)"
| job_settled:
    "s_processes s p = Some t \<Longrightarrow> tk_settling t \<Longrightarrow> (timed_out \<Longrightarrow> tk_timed_out t) \<Longrightarrow>
     job_step s ((if committed then kick (tk_run t) else id)
       (with_jobs (settle_end at p t timed_out captured ex committed (s_db s, s_processes s)) s))"

section \<open>The engine\<close>

inductive engine_step :: "(string \<Rightarrow> artifact option) \<Rightarrow> sys \<Rightarrow> sys \<Rightarrow> bool" for builds where
  engine_control: "control_step (s_db s) db' \<Longrightarrow> engine_step builds s (with_db db' s)"
| engine_kick: "engine_step builds s (kick r s)"
| engine_driver: "driver_step builds r s s' \<Longrightarrow> engine_step builds s s'"
| engine_job: "job_step s s' \<Longrightarrow> engine_step builds s s'"
| engine_restart:
    "recover_at_startup at (s_db s) = Inr db' \<Longrightarrow>
     engine_step builds s
       \<lparr>s_db = db', s_drivers = (\<lambda>r. None), s_processes = (\<lambda>p. None), s_launching = {}\<rparr>"

definition initial_sys :: sys where
  "initial_sys =
     \<lparr>s_db = empty_db, s_drivers = (\<lambda>r. None), s_processes = (\<lambda>p. None), s_launching = {}\<rparr>"

inductive reachable :: "(string \<Rightarrow> artifact option) \<Rightarrow> sys \<Rightarrow> bool" for builds where
  reach_initial: "reachable builds initial_sys"
| reach_step: "reachable builds s \<Longrightarrow> engine_step builds s s' \<Longrightarrow> reachable builds s'"

inductive_cases control_stepE: "control_step db db'"
inductive_cases driver_stepE: "driver_step builds r s s'"
inductive_cases engine_stepE: "engine_step builds s s'"

end
