(* ===== verification/Spine.thy ===== *)
theory Spine
  imports Chain
begin

text \<open>
  The abstract specification of a run's rows: a call stack. A frame is an open graph invocation and
  the execution it is at; the root is first, each next invocation was entered by the execution of
  the frame below it. Entering a subgraph pushes, an outcome pops, an edge to a node replaces the
  top. \<open>tree_of\<close> reads a database as the part of its rows the stack depends on, and the lemmas say
  what each change of the tree does to the stack.
\<close>

section \<open>Trees and stacks\<close>

record xview =
  xv_run :: nat
  xv_inv :: nat
  xv_child :: "nat option"
  xv_retry :: "nat option"
  xv_status :: execution_status

record iview =
  iv_run :: nat
  iv_parent :: "nat option"
  iv_status :: invocation_status

definition view_x :: "execution_row \<Rightarrow> xview" where
  "view_x x = \<lparr>xv_run = x_run_id x, xv_inv = x_invocation_id x, xv_child = x_child x,
               xv_retry = x_retry_of x, xv_status = x_status x\<rparr>"

definition view_i :: "invocation_row \<Rightarrow> iview" where
  "view_i i = \<lparr>iv_run = i_run_id i, iv_parent = i_parent i, iv_status = i_status i\<rparr>"

type_synonym xtree = "nat \<Rightarrow> xview option"
type_synonym itree = "nat \<Rightarrow> iview option"

definition xtree_of :: "db \<Rightarrow> xtree" where
  "xtree_of db x = map_option view_x (get_execution db x)"

definition itree_of :: "db \<Rightarrow> itree" where
  "itree_of db i = map_option view_i (get_invocation db i)"

definition live :: "execution_status \<Rightarrow> bool" where
  "live s = (s = ExRunning \<or> s = ExWaiting)"

definition broken :: "execution_status \<Rightarrow> bool" where
  "broken s = (s = ExFailed \<or> s = ExInterrupted)"

definition retried :: "xtree \<Rightarrow> nat \<Rightarrow> nat \<Rightarrow> bool" where
  "retried X run x = (\<exists>y w. X y = Some w \<and> xv_run w = run \<and> xv_retry w = Some x)"

text \<open>Where a run still is: unfinished, or failed and not retried yet.\<close>

definition open_at :: "xtree \<Rightarrow> nat \<Rightarrow> nat \<Rightarrow> bool" where
  "open_at X run x =
     (\<exists>v. X x = Some v \<and> xv_run v = run \<and>
        (live (xv_status v) \<or> broken (xv_status v) \<and> \<not> retried X run x))"

type_synonym frame = "nat \<times> nat"

text \<open>\<open>c\<close> is the child the last execution has entered.\<close>

fun linked :: "xtree \<Rightarrow> itree \<Rightarrow> nat \<Rightarrow> nat option \<Rightarrow> frame list \<Rightarrow> nat option \<Rightarrow> bool" where
  "linked X I run p [] c = True"
| "linked X I run p ((i, x) # S) c =
     (I i = Some \<lparr>iv_run = run, iv_parent = p, iv_status = InvRunning\<rparr> \<and>
      (\<exists>v. X x = Some v \<and> xv_run v = run \<and> xv_inv v = i \<and>
           xv_child v = (case S of [] \<Rightarrow> c | f # _ \<Rightarrow> Some (fst f)) \<and>
           (xv_child v \<noteq> None \<longrightarrow> xv_status v = ExWaiting)) \<and>
      open_at X run x \<and>
      linked X I run (Some x) S c)"

definition stack :: "xtree \<Rightarrow> itree \<Rightarrow> nat \<Rightarrow> frame list \<Rightarrow> bool" where
  "stack X I run S =
     (linked X I run None S None \<and> distinct (map fst S) \<and>
      (\<forall>i v. I i = Some v \<and> iv_run v = run \<and> iv_status v = InvRunning \<longrightarrow> i \<in> fst ` set S) \<and>
      (\<forall>x. open_at X run x \<longrightarrow> x \<in> snd ` set S))"

section \<open>Linked frames\<close>

lemma linked_append:
  "linked X I run p (S1 @ S2) c =
     (linked X I run p S1 (case S2 of [] \<Rightarrow> c | f # _ \<Rightarrow> Some (fst f)) \<and>
      linked X I run (if S1 = [] then p else Some (snd (last S1))) S2 c)"
proof (induction S1 arbitrary: p)
  case (Cons f S1)
  obtain i x where f: "f = (i, x)" by (cases f)
  show ?case
    using Cons.IH [of "Some x"] by (cases S1; cases S2) (auto simp: f)
qed simp

lemma linked_member:
  assumes "linked X I run p S c" and "(i, x) \<in> set S"
  shows "(\<exists>q. I i = Some \<lparr>iv_run = run, iv_parent = q, iv_status = InvRunning\<rparr>) \<and>
         (\<exists>v. X x = Some v \<and> xv_run v = run \<and> xv_inv v = i) \<and> open_at X run x"
  using assms
proof (induction S arbitrary: p)
  case (Cons f S)
  obtain j y where f: "f = (j, y)" by (cases f)
  show ?case
  proof (cases "(i, x) = f")
    case True
    with Cons.prems(1) show ?thesis by (simp add: f) blast
  next
    case False
    moreover have "linked X I run (Some y) S c" using Cons.prems(1) by (simp add: f)
    ultimately show ?thesis using Cons.IH Cons.prems(2) by simp
  qed
qed simp

lemma linked_frame:
  assumes "linked X I run p S c" and "(i, x) \<in> set S"
  shows "\<exists>q. I i = Some \<lparr>iv_run = run, iv_parent = q, iv_status = InvRunning\<rparr>"
    and "\<exists>v. X x = Some v \<and> xv_run v = run \<and> xv_inv v = i"
    and "open_at X run x"
  using linked_member [OF assms] by blast+

lemma linked_cong:
  assumes "linked X I run p S c"
    and "\<And>i x. (i, x) \<in> set S \<Longrightarrow> I' i = I i \<and> X' x = X x"
    and "\<And>i x. (i, x) \<in> set S \<Longrightarrow> open_at X run x \<Longrightarrow> open_at X' run x"
  shows "linked X' I' run p S c"
  using assms
proof (induction S arbitrary: p)
  case (Cons f S)
  obtain i x where f: "f = (i, x)" by (cases f)
  have "linked X' I' run (Some x) S c"
    using Cons.prems by (intro Cons.IH) (auto simp: f)
  moreover have "I' i = I i" "X' x = X x" "open_at X run x \<Longrightarrow> open_at X' run x"
    using Cons.prems(2,3) [of i x] by (auto simp: f)
  ultimately show ?case using Cons.prems(1) by (auto simp: f)
qed simp

lemma linked_snd_distinct:
  assumes "linked X I run p S c" and "distinct (map fst S)"
  shows "distinct (map snd S)"
  using assms
proof (induction S arbitrary: p)
  case (Cons f S)
  obtain i x where f: "f = (i, x)" by (cases f)
  have "x \<notin> snd ` set S"
  proof
    assume "x \<in> snd ` set S"
    then obtain j where j: "(j, x) \<in> set S" by auto
    then have "\<exists>v. X x = Some v \<and> xv_run v = run \<and> xv_inv v = j"
      using Cons.prems(1) linked_frame(2) [of X I run "Some x" S c j x] by (simp add: f)
    then have "j = i" using Cons.prems(1) by (auto simp: f)
    with j Cons.prems(2) show False by (force simp: f)
  qed
  then show ?case using Cons by (auto simp: f)
qed simp

lemma linked_inner_child:
  assumes "linked X I run p S c" and "(i, x) \<in> set (butlast S)"
  shows "\<exists>v j. X x = Some v \<and> xv_child v = Some j \<and> xv_status v = ExWaiting"
  using assms by (induction S arbitrary: p) (fastforce split: list.splits if_splits)+

lemma linked_last:
  assumes "linked X I run p S c" and "S \<noteq> []"
  shows "\<exists>v. X (snd (last S)) = Some v \<and> xv_run v = run \<and> xv_inv v = fst (last S) \<and> xv_child v = c"
  using assms by (induction S arbitrary: p) (auto split: list.splits)

lemma stack_last:
  assumes "stack X I run S" and "S \<noteq> []"
  obtains v where "X (snd (last S)) = Some v" "xv_run v = run" "xv_inv v = fst (last S)"
    "xv_child v = None" "open_at X run (snd (last S))"
proof -
  have "last S \<in> set S" using assms(2) by simp
  then have "open_at X run (snd (last S))"
    using assms(1) linked_frame(3) [of X I run None S None "fst (last S)" "snd (last S)"]
    by (simp add: stack_def)
  with linked_last [of X I run None S None] assms that show thesis by (auto simp: stack_def)
qed

text \<open>The only place where a run is not inside a child graph is the top of its stack.\<close>

lemma stack_leaf:
  assumes "stack X I run S" and "open_at X run x" and "X x = Some v" and "xv_child v = None"
  shows "S \<noteq> [] \<and> x = snd (last S)"
proof -
  from assms(1,2) obtain i where m: "(i, x) \<in> set S" by (auto simp: stack_def)
  then have ne: "S \<noteq> []" by auto
  have "(i, x) \<notin> set (butlast S)"
    using assms(1,3,4) linked_inner_child [of X I run None S None i x] by (auto simp: stack_def)
  moreover have "set S = set (butlast S) \<union> {last S}"
    using ne by (metis append_butlast_last_id set_append list.set(1,2))
  ultimately have "last S = (i, x)" using m by auto
  then show ?thesis using ne by simp
qed

lemma stack_distinct: "stack X I run S \<Longrightarrow> distinct (map snd S) \<and> distinct (map fst S)"
  unfolding stack_def by (blast intro: linked_snd_distinct)

section \<open>Changing the tree\<close>

definition with_status :: "execution_status \<Rightarrow> xview \<Rightarrow> xview" where
  "with_status s v = v\<lparr>xv_status := s\<rparr>"

lemma with_status_twice [simp]: "with_status a (with_status b v) = with_status a v"
  by (simp add: with_status_def)

definition finish_all :: "nat set \<Rightarrow> xtree \<Rightarrow> xtree" where
  "finish_all A X x = (if x \<in> A then map_option (with_status ExCompleted) (X x) else X x)"

definition close_all :: "nat set \<Rightarrow> itree \<Rightarrow> itree" where
  "close_all A I i = (if i \<in> A then map_option (\<lambda>v. v\<lparr>iv_status := InvCompleted\<rparr>) (I i) else I i)"

definition new_x :: "nat \<Rightarrow> nat \<Rightarrow> nat option \<Rightarrow> xview" where
  "new_x run i retry =
     \<lparr>xv_run = run, xv_inv = i, xv_child = None, xv_retry = retry, xv_status = ExRunning\<rparr>"

definition retry_links :: "xtree \<Rightarrow> bool" where
  "retry_links X = (\<forall>y w r. X y = Some w \<and> xv_retry w = Some r \<longrightarrow> X r \<noteq> None)"

lemma live_completed [simp]:
  "\<not> live ExCompleted" "\<not> broken ExCompleted" "live ExRunning" "live ExWaiting"
  "\<not> live ExFailed" "\<not> live ExInterrupted" "broken ExFailed" "broken ExInterrupted"
  "\<not> live ExCancelled" "\<not> broken ExCancelled" "\<not> broken ExRunning" "\<not> broken ExWaiting"
  by (simp_all add: live_def broken_def)

lemma finish_all_link:
  "(\<exists>w. finish_all A X y = Some w \<and> xv_run w = run \<and> xv_retry w = r) =
     (\<exists>w. X y = Some w \<and> xv_run w = run \<and> xv_retry w = r)"
  by (cases "X y") (auto simp: finish_all_def with_status_def)

lemma retried_finish_all [simp]: "retried (finish_all A X) run x = retried X run x"
  unfolding retried_def finish_all_link ..

lemma retried_fresh:
  assumes "X e = None"
  shows "retried (X(e \<mapsto> w)) run x = (retried X run x \<or> xv_run w = run \<and> xv_retry w = Some x)"
proof -
  have "((X(e \<mapsto> w)) y = Some v) = (y = e \<and> v = w \<or> X y = Some v)" for y v
    using assms by auto
  then show ?thesis by (simp only: retried_def) blast
qed

lemma retried_same:
  assumes "X e = Some v" and "xv_run w = xv_run v" and "xv_retry w = xv_retry v"
  shows "retried (X(e \<mapsto> w)) run x = retried X run x"
proof -
  have "(\<exists>u. (X(e \<mapsto> w)) y = Some u \<and> xv_run u = run \<and> xv_retry u = Some x) =
        (\<exists>u. X y = Some u \<and> xv_run u = run \<and> xv_retry u = Some x)" for y
    using assms by auto
  then show ?thesis by (simp only: retried_def)
qed

lemma retried_new:
  "X e = None \<Longrightarrow> retried (X(e \<mapsto> new_x run' i None)) run x = retried X run x"
  by (simp add: retried_fresh new_x_def)

lemma open_new:
  assumes "X e = None"
  shows "open_at (X(e \<mapsto> new_x run i None)) run x = (x = e \<or> open_at X run x)"
proof -
  have ret: "retried (X(e \<mapsto> new_x run i None)) run y = retried X run y" for y
    using assms by (rule retried_new)
  show ?thesis unfolding open_at_def ret using assms by (auto simp: new_x_def)
qed

lemma open_finish_all:
  "open_at (finish_all A X) run x = (x \<notin> A \<and> open_at X run x)"
  by (auto simp: open_at_def finish_all_def with_status_def)

lemma finish_all_None [simp]: "(finish_all A X x = None) = (X x = None)"
  by (simp add: finish_all_def)

lemma linked_new_top:
  assumes "linked X I run p S1 (Some i)" and "S1 = [] \<Longrightarrow> q = p"
    and "S1 \<noteq> [] \<Longrightarrow> q = Some (snd (last S1))"
    and "I i = Some \<lparr>iv_run = run, iv_parent = q, iv_status = InvRunning\<rparr>"
    and "X e = Some (new_x run i r)"
  shows "linked X I run p (S1 @ [(i, e)]) None"
  using assms by (simp add: linked_append) (auto simp: new_x_def open_at_def)

text \<open>
  An edge: the frames \<open>S2\<close> are stepped, all but the lowest of them are left through their outcomes,
  and a new execution begins in the invocation of the lowest.
\<close>

lemma stack_route:
  assumes st: "stack X I run (S1 @ S2)" and "S2 \<noteq> []" and e: "X e = None"
  shows "stack ((finish_all (snd ` set S2) X)(e \<mapsto> new_x run (fst (hd S2)) None))
           (close_all (fst ` set (tl S2)) I) run (S1 @ [(fst (hd S2), e)])"
    (is "stack ?X ?I run ?S")
proof -
  obtain i x T where S2: "S2 = (i, x) # T"
    using assms(2) by (metis list.exhaust surj_pair)
  have lk: "linked X I run None S1 (Some i)"
    and top: "linked X I run (if S1 = [] then None else Some (snd (last S1))) S2 None"
    and dist: "distinct (map fst (S1 @ S2))"
    using st by (auto simp: stack_def linked_append S2)
  have dsnd: "distinct (map snd (S1 @ S2))"
    using stack_distinct [OF st] by simp_all
  have S1: "\<And>j y. (j, y) \<in> set S1 \<Longrightarrow> j \<notin> fst ` set S2 \<and> y \<notin> snd ` set S2 \<and> y \<noteq> e"
    using dist dsnd linked_frame(2) [OF lk] e by (fastforce simp: image_iff)
  have "linked ?X ?I run None S1 (Some i)"
    by (rule linked_cong [OF lk])
       (use S1 e in \<open>force simp: finish_all_def close_all_def S2 open_new open_finish_all\<close>)+
  then have "linked ?X ?I run None ?S None"
    using top dist by (intro linked_new_top) (auto simp: S2 close_all_def)
  moreover have "open_at ?X run y \<Longrightarrow> y \<in> snd ` set ?S" for y
    using st e by (auto simp: open_new open_finish_all stack_def S2)
  moreover have "?I j = Some v \<Longrightarrow> iv_run v = run \<Longrightarrow> iv_status v = InvRunning \<Longrightarrow> j \<in> fst ` set ?S" for j v
    using st by (auto simp: stack_def close_all_def S2 split: if_splits)
  ultimately show ?thesis using dist by (auto simp: stack_def S2)
qed

text \<open>The root's outcome: every frame is left.\<close>

lemma stack_finish:
  assumes "stack X I run S"
  shows "stack (finish_all (snd ` set S) X) (close_all (fst ` set S) I) run []"
  using assms by (auto simp: stack_def open_finish_all close_all_def split: if_splits)

text \<open>A subgraph node: its execution waits on the new child invocation.\<close>

definition entered :: "nat \<Rightarrow> xview \<Rightarrow> xview" where
  "entered c v = v\<lparr>xv_status := ExWaiting, xv_child := Some c\<rparr>"

lemma stack_push:
  assumes st: "stack X I run (S @ [(i, x)])" and c: "I c = None" and e: "X e = None"
    and xc: "X x = Some v"
  shows "stack (X(x \<mapsto> entered c v, e \<mapsto> new_x run c None))
           (I(c \<mapsto> \<lparr>iv_run = run, iv_parent = Some x, iv_status = InvRunning\<rparr>)) run
           (S @ [(i, x), (c, e)])"
    (is "stack ?X ?I run ?S")
proof -
  have lk: "linked X I run None S (Some i)"
    and top: "linked X I run (if S = [] then None else Some (snd (last S))) [(i, x)] None"
    using st by (auto simp: stack_def linked_append)
  have dist: "distinct (map fst (S @ [(i, x)]))" and dsnd: "distinct (map snd (S @ [(i, x)]))"
    using stack_distinct [OF st] by simp_all
  have ne: "x \<noteq> e" using xc e by auto
  have ret: "retried ?X run y = retried X run y" for y
    using xc e ne by (simp add: retried_new retried_same entered_def)
  have opn: "open_at ?X run y = (y = e \<or> y = x \<or> open_at X run y)" for y
    unfolding open_at_def ret using top xc e ne by (auto simp: open_at_def entered_def new_x_def)
  have S: "j \<noteq> i \<and> j \<noteq> c \<and> y \<noteq> x \<and> y \<noteq> e" if "(j, y) \<in> set S" for j y
    using dist dsnd linked_frame(1,2) [OF lk that] that c e by force
  have "i \<noteq> c" using top c by auto
  have "linked ?X ?I run None S (Some i)"
    by (rule linked_cong [OF lk]) (use S opn in auto)
  moreover have "linked ?X ?I run (if S = [] then None else Some (snd (last S))) [(i, x)] (Some c)"
    using top xc ne \<open>i \<noteq> c\<close> opn by (auto simp: entered_def)
  ultimately have "linked ?X ?I run None (S @ [(i, x)]) (Some c)"
    by (simp add: linked_append)
  then have "linked ?X ?I run None ((S @ [(i, x)]) @ [(c, e)]) None"
    by (rule linked_new_top) (auto simp: ne)
  moreover have "c \<notin> fst ` set (S @ [(i, x)])"
    using S \<open>i \<noteq> c\<close> by force
  ultimately show ?thesis
    using st dist opn by (auto simp: stack_def)
qed

lemma stack_root:
  assumes "\<And>i v. I i = Some v \<Longrightarrow> iv_run v \<noteq> run" and "\<And>x v. X x = Some v \<Longrightarrow> xv_run v \<noteq> run"
  shows "stack (X(e \<mapsto> new_x run c None))
           (I(c \<mapsto> \<lparr>iv_run = run, iv_parent = None, iv_status = InvRunning\<rparr>)) run [(c, e)]"
  using assms by (auto simp: stack_def open_at_def new_x_def split: if_splits)

text \<open>The top changes its status and stays open: parked, failed or interrupted.\<close>

lemma stack_status:
  assumes st: "stack X I run (S @ [(i, x)])" and xc: "X x = Some v"
    and s: "live s \<or> broken s \<and> \<not> retried X run x"
  shows "stack (X(x \<mapsto> with_status s v)) I run (S @ [(i, x)])"
    (is "stack ?X I run _")
proof -
  have lk: "linked X I run None S (Some i)"
    and top: "linked X I run (if S = [] then None else Some (snd (last S))) [(i, x)] None"
    using st by (auto simp: stack_def linked_append)
  have dsnd: "distinct (map snd (S @ [(i, x)]))"
    using stack_distinct [OF st] by simp_all
  have ret: "retried ?X run y = retried X run y" for y
    using xc by (simp add: retried_same with_status_def)
  have opn: "open_at ?X run y = (y = x \<or> open_at X run y)" for y
    unfolding open_at_def ret using xc s top by (auto simp: with_status_def)
  have "linked ?X I run None S (Some i)"
    by (rule linked_cong [OF lk]) (use dsnd opn in force)+
  moreover have "linked ?X I run (if S = [] then None else Some (snd (last S))) [(i, x)] None"
    using top xc opn by (auto simp: with_status_def)
  ultimately show ?thesis
    using st opn by (auto simp: stack_def linked_append)
qed

text \<open>A Retry: a new execution takes the place of the failed top.\<close>

lemma stack_retry:
  assumes st: "stack X I run (S @ [(i, x)])" and xc: "X x = Some v" "broken (xv_status v)"
    and e: "X e = None"
  shows "stack (X(e \<mapsto> new_x run i (Some x))) I run (S @ [(i, e)])"
    (is "stack ?X I run _")
proof -
  have lk: "linked X I run None S (Some i)"
    and top: "linked X I run (if S = [] then None else Some (snd (last S))) [(i, x)] None"
    using st by (auto simp: stack_def linked_append)
  have dsnd: "distinct (map snd (S @ [(i, x)]))"
    using stack_distinct [OF st] by simp_all
  have ret: "retried ?X run y = (y = x \<or> retried X run y)" for y
    using e by (auto simp: retried_fresh new_x_def)
  have opn: "open_at ?X run y = (y = e \<or> y \<noteq> x \<and> open_at X run y)" for y
    unfolding open_at_def ret using top xc e by (auto simp: new_x_def live_def broken_def)
  have S: "y \<noteq> x \<and> y \<noteq> e" if "(j, y) \<in> set S" for j y
    using dsnd linked_frame(2) [OF lk that] that e by force
  have "linked ?X I run None S (Some i)"
    by (rule linked_cong [OF lk]) (use S opn in auto)
  then have "linked ?X I run None (S @ [(i, e)]) None"
    using top by (intro linked_new_top) auto
  then show ?thesis
    using st opn by (auto simp: stack_def)
qed

end
