(* ===== verification/Unwinding.thy ===== *)
theory Unwinding
  imports Spine
begin

text \<open>
  The pure step refines the stack: \<open>computeChain\<close> ends on every database that has a stack, its plan
  completes the top frames from the top down and finishes the invocations it leaves, and \<open>applyChain\<close>
  replaces the lowest of those frames, or empties the stack when the root's outcome is reached.
\<close>

section \<open>Trees after the store's writes\<close>

lemma xtree_append_event [simp]: "xtree_of (append_event at d db) = xtree_of db"
  and itree_append_event [simp]: "itree_of (append_event at d db) = itree_of db"
  by (simp_all add: fun_eq_iff xtree_of_def itree_of_def)

lemma xtree_patch_run [simp]: "xtree_of (patch_run i f db) = xtree_of db"
  and itree_patch_run [simp]: "itree_of (patch_run i f db) = itree_of db"
  by (simp_all add: fun_eq_iff xtree_of_def itree_of_def)

lemma xtree_update_invocation [simp]: "xtree_of (update_invocation i f db) = xtree_of db"
  and itree_update_execution [simp]: "itree_of (update_execution i g db) = itree_of db"
  by (simp_all add: fun_eq_iff xtree_of_def itree_of_def)

lemma xtree_update_operation [simp]: "xtree_of (update_operation i f db) = xtree_of db"
  and itree_update_operation [simp]: "itree_of (update_operation i f db) = itree_of db"
  by (simp_all add: fun_eq_iff xtree_of_def itree_of_def)

lemma xtree_settle_operation [simp]: "xtree_of (settle_operation at i s p db) = xtree_of db"
  and itree_settle_operation [simp]: "itree_of (settle_operation at i s p db) = itree_of db"
  by (simp_all add: fun_eq_iff xtree_of_def itree_of_def)

text \<open>A row change that keeps the key and does \<open>g\<close> to the view.\<close>

lemma xtree_update_execution:
  assumes "db_wf db" and "\<And>r. x_id (f r) = x_id r" and "\<And>r. view_x (f r) = g (view_x r)"
  shows "xtree_of (update_execution i f db) =
         (\<lambda>x. if x = i then map_option g (xtree_of db x) else xtree_of db x)"
  using executions.get_upd [OF assms(1), of f] assms(2,3)
  by (auto simp: fun_eq_iff xtree_of_def option.map_comp comp_def)

lemma itree_update_invocation:
  assumes "db_wf db" and "\<And>r. i_id (f r) = i_id r" and "\<And>r. view_i (f r) = g (view_i r)"
  shows "itree_of (update_invocation i f db) =
         (\<lambda>x. if x = i then map_option g (itree_of db x) else itree_of db x)"
  using invocations.get_upd [OF assms(1), of f] assms(2,3)
  by (auto simp: fun_eq_iff itree_of_def option.map_comp comp_def)

lemma xtree_insert_execution:
  assumes "db_wf db" and "\<And>n. x_id (mk n) = n"
  shows "xtree_of (snd (insert_execution mk db)) =
         (xtree_of db)(x_id (fst (insert_execution mk db)) \<mapsto> view_x (fst (insert_execution mk db)))"
  using executions.get_ins [OF assms] by (auto simp: fun_eq_iff xtree_of_def)

lemma xtree_insert_fresh:
  assumes "db_wf db" and "\<And>n. x_id (mk n) = n"
  shows "xtree_of db (x_id (fst (insert_execution mk db))) = None"
  using executions.get_fresh [OF assms] by (simp add: xtree_of_def)

lemma itree_insert_execution [simp]: "itree_of (snd (insert_execution mk db)) = itree_of db"
  by (simp add: fun_eq_iff itree_of_def)

lemma itree_insert_invocation:
  assumes "db_wf db" and "\<And>n. i_id (mk n) = n"
  shows "itree_of (snd (insert_invocation mk db)) =
         (itree_of db)(i_id (fst (insert_invocation mk db)) \<mapsto> view_i (fst (insert_invocation mk db)))"
  using invocations.get_ins [OF assms] by (auto simp: fun_eq_iff itree_of_def)

lemma itree_insert_fresh:
  assumes "db_wf db" and "\<And>n. i_id (mk n) = n"
  shows "itree_of db (i_id (fst (insert_invocation mk db))) = None"
  using invocations.get_fresh [OF assms] by (simp add: itree_of_def)

lemma xtree_insert_invocation [simp]: "xtree_of (snd (insert_invocation mk db)) = xtree_of db"
  by (simp add: fun_eq_iff xtree_of_def)

section \<open>Well-formed tables after the steps\<close>

lemma start_execution_wf: "db_wf db \<Longrightarrow> db_wf (start_execution at run nx db)"
  by (auto simp: start_execution_def split_beta new_execution_def intro!: db_wf_intros)

lemma complete_step_wf: "db_wf db \<Longrightarrow> db_wf (complete_step at run s db)"
  by (auto simp: complete_step_def Let_def intro!: db_wf_intros)

lemma finish_invocation_wf: "db_wf db \<Longrightarrow> db_wf (finish_invocation at run d db)"
  by (auto simp: finish_invocation_def split_beta intro!: db_wf_intros)

lemma fold_complete_wf: "db_wf db \<Longrightarrow> db_wf (fold (complete_step at run) ss db)"
  by (induction ss arbitrary: db) (auto intro: complete_step_wf)

lemma fold_finish_wf: "db_wf db \<Longrightarrow> db_wf (fold (finish_invocation at run) ds db)"
  by (induction ds arbitrary: db) (auto intro: finish_invocation_wf)

lemma patch_run_wf: "db_wf db \<Longrightarrow> (\<And>r. r_id (f r) = r_id r) \<Longrightarrow> db_wf (patch_run i f db)"
  by (rule runs.wf_upd)

lemma update_run_Inr:
  "(update_run at i f db = Inr db') =
     (get_run db i \<noteq> None \<and> db' = patch_run i (\<lambda>r. (f r)\<lparr>r_updated_at := at\<rparr>) db)"
  by (auto simp: update_run_def split: option.split)

section \<open>Trees after the steps\<close>

lemma complete_step_tree:
  assumes "db_wf db"
  shows "xtree_of (complete_step at run s db) = finish_all {x_id (cs_execution s)} (xtree_of db)"
    and "itree_of (complete_step at run s db) = itree_of db"
proof -
  let ?f = "\<lambda>r. r\<lparr>x_status := ExCompleted, x_event := Some (json_or_null (cs_event s)),
        x_decision := Some (cs_to s, if cs_update s = JUndefined then None else to_json (cs_update s)),
        x_state_after := Some (json_or_null (state_value (cs_state s))), x_ended_at := Some at\<rparr>"
  have wf: "db_wf (update_execution i ?f db)" for i
    using assms by (rule executions.wf_upd) simp
  have "xtree_of (update_execution (x_id (cs_execution s)) ?f db) =
      (\<lambda>x. if x = x_id (cs_execution s) then map_option (with_status ExCompleted) (xtree_of db x)
           else xtree_of db x)"
    using assms by (rule xtree_update_execution) (simp_all add: view_x_def with_status_def)
  then show "xtree_of (complete_step at run s db) = finish_all {x_id (cs_execution s)} (xtree_of db)"
    by (simp add: complete_step_def Let_def finish_all_def fun_eq_iff)
  have "itree_of (update_invocation j (\<lambda>i. i\<lparr>i_state := st\<rparr>) (update_execution k ?f db)) =
      (\<lambda>x. if x = j then map_option (\<lambda>v. v) (itree_of (update_execution k ?f db) x)
           else itree_of (update_execution k ?f db) x)" for j st k
    using wf by (rule itree_update_invocation) (simp_all add: view_i_def)
  then show "itree_of (complete_step at run s db) = itree_of db"
    by (simp add: complete_step_def Let_def fun_eq_iff option.map_ident)
qed

lemma finish_invocation_tree:
  assumes "db_wf db"
  shows "xtree_of (finish_invocation at run d db) = xtree_of db"
    and "itree_of (finish_invocation at run d db) = close_all {i_id (fst d)} (itree_of db)"
proof -
  obtain i oc where d: "d = (i, oc)" by (cases d)
  show "xtree_of (finish_invocation at run d db) = xtree_of db"
    by (simp add: finish_invocation_def d)
  have "itree_of (update_invocation (i_id i) (\<lambda>r. r\<lparr>i_status := InvCompleted,
          i_outcome := Some (stored_outcome oc), i_ended_at := Some at\<rparr>) db) =
      (\<lambda>x. if x = i_id i then map_option (\<lambda>v. v\<lparr>iv_status := InvCompleted\<rparr>) (itree_of db x)
           else itree_of db x)"
    using assms by (rule itree_update_invocation) (simp_all add: view_i_def)
  then show "itree_of (finish_invocation at run d db) = close_all {i_id (fst d)} (itree_of db)"
    by (simp add: finish_invocation_def d close_all_def fun_eq_iff)
qed

lemma finish_all_union: "finish_all A (finish_all B X) = finish_all (A \<union> B) X"
  by (auto simp: fun_eq_iff finish_all_def option.map_comp comp_def)

lemma close_all_union: "close_all A (close_all B I) = close_all (A \<union> B) I"
  by (auto simp: fun_eq_iff close_all_def option.map_comp comp_def)

lemma finish_all_empty [simp]: "finish_all {} X = X" "close_all {} I = I"
  by (simp_all add: fun_eq_iff finish_all_def close_all_def)

lemma fold_complete_tree:
  "db_wf db \<Longrightarrow>
     xtree_of (fold (complete_step at run) ss db) =
       finish_all (set (map (x_id \<circ> cs_execution) ss)) (xtree_of db) \<and>
     itree_of (fold (complete_step at run) ss db) = itree_of db"
  by (induction ss arbitrary: db)
     (simp_all add: complete_step_wf complete_step_tree finish_all_union Un_commute)

lemma fold_finish_tree:
  "db_wf db \<Longrightarrow>
     xtree_of (fold (finish_invocation at run) ds db) = xtree_of db \<and>
     itree_of (fold (finish_invocation at run) ds db) =
       close_all (set (map (i_id \<circ> fst) ds)) (itree_of db)"
  by (induction ds arbitrary: db)
     (simp_all add: finish_invocation_wf finish_invocation_tree close_all_union Un_commute)

lemma fold_steps_runs [simp]:
  "get_run (fold (complete_step at run) ss db) = get_run db"
  "get_run (fold (finish_invocation at run) ds db) = get_run db"
  "get_run (start_execution at run nx db) = get_run db"
proof -
  show "get_run (fold (complete_step at run) ss db) = get_run db"
    by (induction ss arbitrary: db) (simp_all add: complete_step_def Let_def)
  show "get_run (fold (finish_invocation at run) ds db) = get_run db"
    by (induction ds arbitrary: db) (simp_all add: finish_invocation_def split_beta)
  show "get_run (start_execution at run nx db) = get_run db"
    by (simp add: start_execution_def split_beta)
qed

lemma start_execution_tree:
  assumes "db_wf db"
  shows "\<exists>e. xtree_of db e = None \<and>
             xtree_of (start_execution at run nx db) =
               (xtree_of db)(e \<mapsto> new_x (r_id run) (nx_invocation nx) None) \<and>
             itree_of (start_execution at run nx db) = itree_of db"
proof -
  let ?mk = "new_execution at (r_id run) (nx_invocation nx) (nx_node nx) (nx_kind nx) (nx_visit nx)
               (nx_label nx) (r_artifact_hash run) None None None None"
  have id: "\<And>n. x_id (?mk n) = n" by (simp add: new_execution_def)
  have "view_x (fst (insert_execution ?mk db)) = new_x (r_id run) (nx_invocation nx) None"
    by (subst executions.ins_row [OF id]) (simp add: view_x_def new_execution_def new_x_def)
  then show ?thesis
    using xtree_insert_execution [OF assms id] xtree_insert_fresh [OF assms id]
    by (intro exI [of _ "x_id (fst (insert_execution ?mk db))"])
       (simp add: start_execution_def split_beta)
qed

section \<open>One turn of the loop\<close>

lemma chain_decide_execution: "chain_decide i g cur = Okay (s, d) \<Longrightarrow> cs_execution s = fst cur"
  by (cases cur)
     (auto simp: chain_decide_def Let_def split: sum.splits option.splits prod.splits bool.splits jsval.splits)

lemma chain_return_execution:
  assumes "chain_return db art p oc = Okay cur'"
  shows "get_execution db p = Some (fst cur')"
proof -
  obtain a where a: "get_execution db p = Some a"
    using assms by (cases "get_execution db p") (auto simp: chain_return_def require_row_def)
  obtain i where i: "get_invocation db (x_invocation_id a) = Some i"
    using assms a
    by (cases "get_invocation db (x_invocation_id a)") (auto simp: chain_return_def require_row_def)
  obtain f where f: "on_result_of art (i_graph_key i) (x_node_id a) = Some f"
    using assms a i
    by (cases "on_result_of art (i_graph_key i) (x_node_id a)")
       (auto simp: chain_return_def require_row_def Let_def)
  show ?thesis
    using assms a i f
    by (cases "evaluate_pure (WhatOnResult (x_node_id a))
          (run2 f (state_value (state_of (i_state i))) (subgraph_result oc)) None")
       (auto simp: chain_return_def require_row_def Let_def)
qed

lemma chain_turn_Okay:
  assumes "chain_turn db art cur = Okay (s, turn)"
    and "get_invocation db (x_invocation_id (fst cur)) = Some i"
  shows "cs_execution s = fst cur \<and>
    (case turn of
       ArrivedAt nx \<Rightarrow> nx_invocation nx = i_id i
     | FinishedRun j oc \<Rightarrow> j = i \<and> i_parent i = None
     | ReturnedTo j oc cur' \<Rightarrow> j = i \<and> (\<exists>p. i_parent i = Some p \<and> get_execution db p = Some (fst cur')))"
proof -
  from assms obtain g where g: "graph_of art (i_graph_key i) = Some g"
    by (cases "graph_of art (i_graph_key i)") (auto simp: chain_turn_def Let_def require_row_def)
  let ?cont = "\<lambda>(step, dest). case dest of
                DestNode \<Rightarrow>
                  (case node_of g (cs_to step) of
                     None \<Rightarrow> Threw (RowMissing ''node'')
                   | Some node \<Rightarrow>
                       Okay (step, ArrivedAt
                         \<lparr>nx_invocation = i_id i, nx_node = cs_to step, nx_kind = node_kind_of node,
                          nx_visit = count_visits db (i_id i) (cs_to step),
                          nx_label = node_label_of node (cs_state step)\<rparr>))
              | DestOutcome \<Rightarrow>
                  on_okay (chain_outcome g (i_graph_key i) (cs_to step) (cs_state step)) (\<lambda>oc.
                    case i_parent i of
                      None \<Rightarrow> Okay (step, FinishedRun i oc)
                    | Some p \<Rightarrow>
                        on_okay (chain_return db art p oc) (\<lambda>cur'.
                          Okay (step, ReturnedTo i oc cur')))"
  have "on_okay (chain_decide i g cur) ?cont = Okay (s, turn)"
    using assms g by (simp add: chain_turn_def Let_def require_row_def)
  then obtain s' d where d: "chain_decide i g cur = Okay (s', d)" and c: "?cont (s', d) = Okay (s, turn)"
    by (auto simp: on_okay_Okay)
  then show ?thesis
    using chain_decide_execution [OF d]
    by (cases d) (auto simp: on_okay_Okay dest!: chain_return_execution split: option.splits)
qed

section \<open>The loop unwinds the stack\<close>

definition plan_unwinds :: "frame list \<Rightarrow> nat list \<Rightarrow> nat list \<Rightarrow> chain_plan \<Rightarrow> bool" where
  "plan_unwinds S done left plan =
     (\<exists>S1 S2. S = S1 @ S2 \<and> S2 \<noteq> [] \<and>
        map (x_id \<circ> cs_execution) (cp_completed plan) = done @ rev (map snd S2) \<and>
        (case cp_next plan of
           NextExecution nx \<Rightarrow>
             nx_invocation nx = fst (hd S2) \<and>
             map (i_id \<circ> fst) (cp_finished plan) = left @ rev (map fst (tl S2))
         | RunFinished oc \<Rightarrow>
             S1 = [] \<and> map (i_id \<circ> fst) (cp_finished plan) = left @ rev (map fst S2)))"

lemma plan_unwindsI:
  assumes "S = S1 @ S2" and "S2 \<noteq> []"
    and "map (x_id \<circ> cs_execution) (cp_completed plan) = done @ rev (map snd S2)"
    and "case cp_next plan of
           NextExecution nx \<Rightarrow>
             nx_invocation nx = fst (hd S2) \<and>
             map (i_id \<circ> fst) (cp_finished plan) = left @ rev (map fst (tl S2))
         | RunFinished oc \<Rightarrow>
             S1 = [] \<and> map (i_id \<circ> fst) (cp_finished plan) = left @ rev (map fst S2)"
  shows "plan_unwinds S done left plan"
  unfolding plan_unwinds_def using assms by blast

lemma linked_rows:
  assumes "linked (xtree_of db) (itree_of db) run p S c" and "(i, x) \<in> set S"
  obtains ir xr where "get_invocation db i = Some ir" and "get_execution db x = Some xr"
    and "x_invocation_id xr = i" and "x_run_id xr = run"
proof -
  obtain v q where v: "xtree_of db x = Some v" "xv_run v = run" "xv_inv v = i"
    and q: "itree_of db i = Some q"
    using linked_frame(1,2) [OF assms] by blast
  from v(1) obtain xr where xr: "get_execution db x = Some xr" "v = view_x xr"
    by (auto simp: xtree_of_def)
  from q obtain ir where "get_invocation db i = Some ir" by (auto simp: itree_of_def)
  with xr v that show thesis by (auto simp: view_x_def)
qed

lemma chain_loop_unwinds:
  assumes "db_wf db" and "linked (xtree_of db) (itree_of db) run None (S @ [(i, x)]) c"
    and "get_execution db x = Some (fst cur)"
  shows "\<exists>r. chain_loop db art cur completed finished = Some r \<and>
     (\<forall>plan. r = Okay plan \<longrightarrow>
        plan_unwinds (S @ [(i, x)]) (map (x_id \<circ> cs_execution) completed)
          (map (i_id \<circ> fst) finished) plan)"
  using assms(2,3)
proof (induction S arbitrary: i x c cur completed finished rule: rev_induct)
  case Nil
  obtain ir xr where ir: "get_invocation db i = Some ir" and "get_execution db x = Some xr"
    and xr: "x_invocation_id xr = i"
    using Nil.prems(1) by (rule linked_rows [of _ _ _ _ _ i x]) auto
  with Nil.prems have cur: "xr = fst cur" by simp
  have root: "i_parent ir = None"
    using Nil.prems(1) ir by (auto simp: itree_of_def view_i_def)
  have ids: "i_id ir = i" "x_id (fst cur) = x"
    using invocations.get_id [OF assms(1) ir] executions.get_id [OF assms(1) Nil.prems(2)] by auto
  have inv: "get_invocation db (x_invocation_id (fst cur)) = Some ir" using ir xr cur by simp
  show ?case
  proof (cases "chain_turn db art cur")
    case (Okay st)
    obtain s turn where st: "st = (s, turn)" by (cases st)
    note turn = chain_turn_Okay [OF Okay [unfolded st] inv]
    show ?thesis
    proof (cases turn)
      case (ArrivedAt nx)
      with turn Okay st ids show ?thesis
        by (subst chain_loop.simps)
           (auto intro!: plan_unwindsI [of _ "[]" "[(i, x)]"])
    next
      case (FinishedRun j oc)
      with turn Okay st ids show ?thesis
        by (subst chain_loop.simps)
           (auto intro!: plan_unwindsI [of _ "[]" "[(i, x)]"])
    next
      case (ReturnedTo j oc cur')
      with turn root show ?thesis by auto
    qed
  qed (simp_all add: chain_loop.simps)
next
  case (snoc f S)
  obtain j y where f: "f = (j, y)" by (cases f)
  obtain ir xr where ir: "get_invocation db i = Some ir" and "get_execution db x = Some xr"
    and xr: "x_invocation_id xr = i"
    using snoc.prems(1) by (rule linked_rows [of _ _ _ _ _ i x]) auto
  with snoc.prems have cur: "xr = fst cur" by simp
  have below: "linked (xtree_of db) (itree_of db) run None (S @ [(j, y)]) (Some i)"
    and top: "linked (xtree_of db) (itree_of db) run (Some y) [(i, x)] c"
    using snoc.prems(1) by (simp_all add: f linked_append)
  have parent: "i_parent ir = Some y"
    using top ir by (auto simp: itree_of_def view_i_def)
  have ids: "i_id ir = i" "x_id (fst cur) = x"
    using invocations.get_id [OF assms(1) ir] executions.get_id [OF assms(1) snoc.prems(2)] by auto
  have inv: "get_invocation db (x_invocation_id (fst cur)) = Some ir" using ir xr cur by simp
  show ?case
  proof (cases "chain_turn db art cur")
    case (Okay st)
    obtain s turn where st: "st = (s, turn)" by (cases st)
    note turn = chain_turn_Okay [OF Okay [unfolded st] inv]
    show ?thesis
    proof (cases turn)
      case (ArrivedAt nx)
      with turn Okay st ids show ?thesis
        by (subst chain_loop.simps)
           (auto intro!: plan_unwindsI [of _ "S @ [f]" "[(i, x)]"])
    next
      case (FinishedRun k oc)
      with turn parent show ?thesis by auto
    next
      case (ReturnedTo k oc cur')
      with turn parent have k: "k = ir" and got: "get_execution db y = Some (fst cur')" by auto
      obtain r where r: "chain_loop db art cur' (completed @ [s]) (finished @ [(k, oc)]) = Some r"
        and unwinds: "\<And>plan. r = Okay plan \<Longrightarrow>
          plan_unwinds (S @ [(j, y)]) (map (x_id \<circ> cs_execution) (completed @ [s]))
            (map (i_id \<circ> fst) (finished @ [(k, oc)])) plan"
        using snoc.IH [OF below got] by blast
      have "chain_loop db art cur completed finished = Some r"
        using Okay st ReturnedTo r by (subst chain_loop.simps) simp
      moreover have "plan_unwinds ((S @ [f]) @ [(i, x)]) (map (x_id \<circ> cs_execution) completed)
            (map (i_id \<circ> fst) finished) plan" if "r = Okay plan" for plan
      proof -
        from unwinds [OF that] obtain S1 S2 where S: "S @ [(j, y)] = S1 @ S2" "S2 \<noteq> []"
          and comp: "map (x_id \<circ> cs_execution) (cp_completed plan) =
            (map (x_id \<circ> cs_execution) completed @ [x]) @ rev (map snd S2)"
          and nx: "case cp_next plan of
              NextExecution nx \<Rightarrow> nx_invocation nx = fst (hd S2) \<and>
                map (i_id \<circ> fst) (cp_finished plan) =
                  (map (i_id \<circ> fst) finished @ [i]) @ rev (map fst (tl S2))
            | RunFinished oc \<Rightarrow> S1 = [] \<and>
                map (i_id \<circ> fst) (cp_finished plan) =
                  (map (i_id \<circ> fst) finished @ [i]) @ rev (map fst S2)"
          using turn ids k by (auto simp: plan_unwinds_def)
        show ?thesis
          by (rule plan_unwindsI [of _ S1 "S2 @ [(i, x)]"])
             (use S comp nx in \<open>auto simp: f split: chain_next.splits\<close>)
      qed
      ultimately show ?thesis by blast
    qed
  qed (simp_all add: chain_loop.simps)
qed

section \<open>The step as a change of the stack\<close>

text \<open>
  \<open>computeChain\<close> ends: from the top of a run's stack its loop returns into at most one parent
  per frame, whatever the author's callbacks do.
\<close>

lemma compute_chain_returns:
  assumes "db_wf db" and "stack (xtree_of db) (itree_of db) run (S @ [(i, x)])"
    and "get_execution db x = Some xr"
  shows "\<exists>r. compute_chain db art xr update event = Some r"
  using chain_loop_unwinds [OF assms(1), of run S i x None "(xr, update, event)" art "[]" "[]"] assms
  by (auto simp: compute_chain_def stack_def)

lemma compute_chain_unwinds:
  assumes "db_wf db" and "stack (xtree_of db) (itree_of db) run (S @ [(i, x)])"
    and "get_execution db x = Some xr" and "compute_chain db art xr update event = Some (Okay plan)"
  shows "plan_unwinds (S @ [(i, x)]) [] [] plan"
  using chain_loop_unwinds [OF assms(1), of run S i x None "(xr, update, event)" art "[]" "[]"] assms
  by (auto simp: compute_chain_def stack_def)

lemma apply_chain_db:
  assumes "apply_chain at run plan db = Inr db'"
  defines "db2 \<equiv> fold (finish_invocation at run) (cp_finished plan)
                  (fold (complete_step at run) (cp_completed plan) db)"
  shows "case cp_next plan of
      NextExecution nx \<Rightarrow>
        xtree_of db' = xtree_of (start_execution at run nx db2) \<and>
        itree_of db' = itree_of (start_execution at run nx db2)
    | RunFinished oc \<Rightarrow> xtree_of db' = xtree_of db2 \<and> itree_of db' = itree_of db2"
  using assms(1)
  by (auto simp: apply_chain_def Let_def db2_def [symmetric] map_ok_Inr update_run_Inr
        split: chain_next.splits if_splits)

lemma wf_after_chain:
  assumes "db_wf db" and "apply_chain at run plan db = Inr db'"
  shows "db_wf db'"
proof -
  let ?db2 = "fold (finish_invocation at run) (cp_finished plan)
                (fold (complete_step at run) (cp_completed plan) db)"
  have "db_wf ?db2" using assms(1) by (auto intro: fold_complete_wf fold_finish_wf)
  then show ?thesis
    using assms(2)
    by (auto simp: apply_chain_def Let_def map_ok_Inr update_run_Inr
          intro!: db_wf_intros start_execution_wf split: chain_next.splits if_splits)
qed

text \<open>The plan as a change of the trees, in terms of the frames it unwinds.\<close>

lemma route_trees:
  assumes wf: "db_wf db" and st: "stack (xtree_of db) (itree_of db) (r_id run) (S @ [(i, x)])"
    and x: "get_execution db x = Some xr"
    and plan: "compute_chain db art xr update event = Some (Okay plan)"
    and app: "apply_chain at run plan db = Inr db'"
  shows "\<exists>S1 S2. S @ [(i, x)] = S1 @ S2 \<and> S2 \<noteq> [] \<and>
    (case cp_next plan of
       NextExecution nx \<Rightarrow>
         (\<exists>e. xtree_of db e = None \<and>
              xtree_of db' = (finish_all (snd ` set S2) (xtree_of db))
                               (e \<mapsto> new_x (r_id run) (fst (hd S2)) None) \<and>
              itree_of db' = close_all (fst ` set (tl S2)) (itree_of db))
     | RunFinished oc \<Rightarrow>
         S1 = [] \<and> xtree_of db' = finish_all (snd ` set S2) (xtree_of db) \<and>
         itree_of db' = close_all (fst ` set S2) (itree_of db))"
proof -
  let ?db1 = "fold (complete_step at run) (cp_completed plan) db"
  let ?db2 = "fold (finish_invocation at run) (cp_finished plan) ?db1"
  have wf1: "db_wf ?db1" and wf2: "db_wf ?db2"
    using wf by (auto intro: fold_complete_wf fold_finish_wf)
  obtain S1 S2 where S: "S @ [(i, x)] = S1 @ S2" "S2 \<noteq> []"
    and comp: "map (x_id \<circ> cs_execution) (cp_completed plan) = rev (map snd S2)"
    and nx: "case cp_next plan of
           NextExecution nx \<Rightarrow>
             nx_invocation nx = fst (hd S2) \<and>
             map (i_id \<circ> fst) (cp_finished plan) = rev (map fst (tl S2))
         | RunFinished oc \<Rightarrow> S1 = [] \<and> map (i_id \<circ> fst) (cp_finished plan) = rev (map fst S2)"
    using compute_chain_unwinds [OF wf st x plan] unfolding plan_unwinds_def append_Nil by blast
  have x2: "xtree_of ?db2 = finish_all (snd ` set S2) (xtree_of db)"
    using fold_finish_tree [OF wf1] fold_complete_tree [OF wf] comp by simp
  have i2: "itree_of ?db2 = close_all (set (map (i_id \<circ> fst) (cp_finished plan))) (itree_of db)"
    using fold_finish_tree [OF wf1] fold_complete_tree [OF wf] by simp
  have "case cp_next plan of
       NextExecution nx \<Rightarrow>
         (\<exists>e. xtree_of db e = None \<and>
              xtree_of db' = (finish_all (snd ` set S2) (xtree_of db))
                               (e \<mapsto> new_x (r_id run) (fst (hd S2)) None) \<and>
              itree_of db' = close_all (fst ` set (tl S2)) (itree_of db))
     | RunFinished oc \<Rightarrow>
         S1 = [] \<and> xtree_of db' = finish_all (snd ` set S2) (xtree_of db) \<and>
         itree_of db' = close_all (fst ` set S2) (itree_of db)"
  proof (cases "cp_next plan")
    case (NextExecution n)
    obtain e where e: "xtree_of ?db2 e = None"
      "xtree_of (start_execution at run n ?db2) =
         (xtree_of ?db2)(e \<mapsto> new_x (r_id run) (nx_invocation n) None)"
      "itree_of (start_execution at run n ?db2) = itree_of ?db2"
      using start_execution_tree [OF wf2, of at run n] by blast
    have "map (i_id \<circ> fst) (cp_finished plan) = rev (map fst (tl S2))"
      and n: "nx_invocation n = fst (hd S2)"
      using nx NextExecution by simp_all
    then have "itree_of ?db2 = close_all (fst ` set (tl S2)) (itree_of db)"
      using i2 by (simp only: set_rev list.set_map)
    moreover have "xtree_of db' = xtree_of (start_execution at run n ?db2)"
      "itree_of db' = itree_of (start_execution at run n ?db2)"
      using apply_chain_db [OF app] NextExecution by simp_all
    ultimately show ?thesis using e x2 n NextExecution by auto
  next
    case (RunFinished oc)
    have "map (i_id \<circ> fst) (cp_finished plan) = rev (map fst S2)" and "S1 = []"
      using nx RunFinished by simp_all
    then have "itree_of ?db2 = close_all (fst ` set S2) (itree_of db)"
      using i2 by (simp only: set_rev list.set_map)
    moreover have "xtree_of db' = xtree_of ?db2" "itree_of db' = itree_of ?db2"
      using apply_chain_db [OF app] RunFinished by simp_all
    ultimately show ?thesis using x2 RunFinished \<open>S1 = []\<close> by simp
  qed
  with S show ?thesis by blast
qed

text \<open>
  routing refines the call stack: the plan \<open>computeChain\<close> returns, once applied, leaves the
  frames below the routed ones as they are, closes the invocations left through their outcomes, and
  starts the next execution in the invocation of the lowest routed frame; when the root's outcome is
  reached nothing of the stack is left.
\<close>

theorem route_refines_stack:
  assumes wf: "db_wf db" and st: "stack (xtree_of db) (itree_of db) (r_id run) (S @ [(i, x)])"
    and x: "get_execution db x = Some xr"
    and plan: "compute_chain db art xr update event = Some (Okay plan)"
    and app: "apply_chain at run plan db = Inr db'"
  shows "\<exists>S1 S2. S @ [(i, x)] = S1 @ S2 \<and> S2 \<noteq> [] \<and>
    (case cp_next plan of
       NextExecution nx \<Rightarrow>
         (\<exists>e. xtree_of db e = None \<and> xtree_of db' e = Some (new_x (r_id run) (fst (hd S2)) None) \<and>
              stack (xtree_of db') (itree_of db') (r_id run) (S1 @ [(fst (hd S2), e)]))
     | RunFinished oc \<Rightarrow> S1 = [] \<and> stack (xtree_of db') (itree_of db') (r_id run) [])"
proof -
  obtain S1 S2 where S: "S @ [(i, x)] = S1 @ S2" "S2 \<noteq> []"
    and trees: "case cp_next plan of
       NextExecution nx \<Rightarrow>
         (\<exists>e. xtree_of db e = None \<and>
              xtree_of db' = (finish_all (snd ` set S2) (xtree_of db))
                               (e \<mapsto> new_x (r_id run) (fst (hd S2)) None) \<and>
              itree_of db' = close_all (fst ` set (tl S2)) (itree_of db))
     | RunFinished oc \<Rightarrow>
         S1 = [] \<and> xtree_of db' = finish_all (snd ` set S2) (xtree_of db) \<and>
         itree_of db' = close_all (fst ` set S2) (itree_of db)"
    using route_trees [OF assms] by blast
  have st': "stack (xtree_of db) (itree_of db) (r_id run) (S1 @ S2)" using st S by simp
  have "case cp_next plan of
       NextExecution nx \<Rightarrow>
         (\<exists>e. xtree_of db e = None \<and> xtree_of db' e = Some (new_x (r_id run) (fst (hd S2)) None) \<and>
              stack (xtree_of db') (itree_of db') (r_id run) (S1 @ [(fst (hd S2), e)]))
     | RunFinished oc \<Rightarrow> S1 = [] \<and> stack (xtree_of db') (itree_of db') (r_id run) []"
  proof (cases "cp_next plan")
    case (NextExecution n)
    with trees stack_route [OF st' S(2)] show ?thesis by auto
  next
    case (RunFinished oc)
    with trees stack_finish [of _ _ _ S2] st' show ?thesis by auto
  qed
  with S show ?thesis by blast
qed

end
