(* ===== verification/Run_Invariant.thy ===== *)
theory Run_Invariant
  imports Engine Unwinding
begin

text \<open>
  What holds of every run between two commits, and that every commit keeps it: the tables are well
  formed, and each run's rows are in the shape its status says. A driven run has a stack whose top
  is unfinished, a failed one has a stack whose top failed (or nothing was entered yet), and a run
  that completed or was cancelled has nothing open.
\<close>

section \<open>The shape of a run\<close>

definition no_tree :: "xtree \<Rightarrow> itree \<Rightarrow> nat \<Rightarrow> bool" where
  "no_tree X I run =
     ((\<forall>x v. X x = Some v \<longrightarrow> xv_run v \<noteq> run) \<and> (\<forall>i v. I i = Some v \<longrightarrow> iv_run v \<noteq> run))"

definition quiet :: "xtree \<Rightarrow> itree \<Rightarrow> nat \<Rightarrow> bool" where
  "quiet X I run =
     ((\<forall>x v. X x = Some v \<and> xv_run v = run \<longrightarrow> \<not> live (xv_status v)) \<and>
      (\<forall>i v. I i = Some v \<and> iv_run v = run \<longrightarrow> iv_status v \<noteq> InvRunning))"

definition stack_with :: "(execution_status \<Rightarrow> bool) \<Rightarrow> xtree \<Rightarrow> itree \<Rightarrow> nat \<Rightarrow> nat \<Rightarrow> bool" where
  "stack_with P X I run x =
     (\<exists>S i v. stack X I run (S @ [(i, x)]) \<and> X x = Some v \<and> P (xv_status v))"

definition run_ok :: "xtree \<Rightarrow> itree \<Rightarrow> run_row \<Rightarrow> bool" where
  "run_ok X I r =
     (case r_status r of
        Preparing \<Rightarrow> no_tree X I (r_id r)
      | Running \<Rightarrow> \<exists>x. stack_with live X I (r_id r) x
      | Waiting \<Rightarrow> \<exists>x. stack_with live X I (r_id r) x
      | Paused \<Rightarrow> \<exists>x. stack_with live X I (r_id r) x
      | Failed \<Rightarrow>
          no_tree X I (r_id r) \<or>
          ((\<exists>x. stack_with broken X I (r_id r) x) \<and>
           (\<forall>e. r_error r = Some e \<longrightarrow> re_stage e \<noteq> StageEnvironment))
      | Completed \<Rightarrow> quiet X I (r_id r)
      | Cancelled \<Rightarrow> quiet X I (r_id r))"

definition links_ok :: "xtree \<Rightarrow> bool" where
  "links_ok X =
     (\<forall>y w x. X y = Some w \<and> xv_retry w = Some x \<longrightarrow>
        (\<exists>v. X x = Some v \<and> xv_run v = xv_run w \<and> broken (xv_status v)))"

definition db_ok :: "db \<Rightarrow> bool" where
  "db_ok db =
     (db_wf db \<and> links_ok (xtree_of db) \<and>
      (\<forall>x v. xtree_of db x = Some v \<longrightarrow> get_run db (xv_run v) \<noteq> None) \<and>
      (\<forall>i v. itree_of db i = Some v \<longrightarrow> get_run db (iv_run v) \<noteq> None) \<and>
      (\<forall>q r. get_run db q = Some r \<longrightarrow> run_ok (xtree_of db) (itree_of db) r))"

section \<open>Only a run's own rows matter\<close>

definition only_x :: "nat \<Rightarrow> xtree \<Rightarrow> xtree" where
  "only_x run X x = (case X x of Some v \<Rightarrow> if xv_run v = run then Some v else None | None \<Rightarrow> None)"

definition only_i :: "nat \<Rightarrow> itree \<Rightarrow> itree" where
  "only_i run I i = (case I i of Some v \<Rightarrow> if iv_run v = run then Some v else None | None \<Rightarrow> None)"

lemma only_x_Some: "(only_x run X x = Some v) = (X x = Some v \<and> xv_run v = run)"
  by (auto simp: only_x_def split: option.splits)

lemma only_i_Some: "(only_i run I i = Some v) = (I i = Some v \<and> iv_run v = run)"
  by (auto simp: only_i_def split: option.splits)

lemma option_eqI: "(\<And>v. (a = Some v) = (b = Some v)) \<Longrightarrow> a = b"
  by (cases a; cases b) auto

lemma only_x_eq:
  assumes "\<And>x v. xv_run v = run \<Longrightarrow> (X' x = Some v) = (X x = Some v)"
  shows "only_x run X' = only_x run X"
proof
  fix x
  show "only_x run X' x = only_x run X x"
    using assms [of _ x] by (intro option_eqI) (auto simp: only_x_Some)
qed

lemma only_i_eq:
  assumes "\<And>i v. iv_run v = run \<Longrightarrow> (I' i = Some v) = (I i = Some v)"
  shows "only_i run I' = only_i run I"
proof
  fix i
  show "only_i run I' i = only_i run I i"
    using assms [of _ i] by (intro option_eqI) (auto simp: only_i_Some)
qed

lemma open_only: "open_at (only_x run X) run x = open_at X run x"
proof -
  have "retried (only_x run X) run x = retried X run x"
    by (simp add: retried_def only_x_Some conj_assoc)
  then show ?thesis by (auto simp: open_at_def only_x_Some)
qed

lemma linked_only: "linked (only_x run X) (only_i run I) run p S c = linked X I run p S c"
proof (induction S arbitrary: p)
  case (Cons f S)
  then show ?case by (cases f) (auto simp: only_x_Some only_i_Some open_only)
qed simp

lemma stack_only: "stack (only_x run X) (only_i run I) run S = stack X I run S"
  by (auto simp: stack_def linked_only open_only only_i_Some)

lemma stack_with_only:
  "stack_with P (only_x run X) (only_i run I) run x = stack_with P X I run x"
proof -
  have "X x = Some v \<Longrightarrow> stack X I run (S @ [(i, x)]) \<Longrightarrow> xv_run v = run" for S i v
    using stack_last [of X I run "S @ [(i, x)]"] by auto
  then show ?thesis by (auto simp: stack_with_def stack_only only_x_Some)
qed

lemma run_ok_only: "run_ok (only_x (r_id r) X) (only_i (r_id r) I) r = run_ok X I r"
  by (auto simp: run_ok_def stack_with_only no_tree_def quiet_def only_x_Some only_i_Some
        split: run_status.split)

lemma run_ok_elsewhere:
  assumes "only_x (r_id r) X' = only_x (r_id r) X" and "only_i (r_id r) I' = only_i (r_id r) I"
  shows "run_ok X' I' r = run_ok X I r"
  using run_ok_only [of r X' I'] run_ok_only [of r X I] assms by simp

section \<open>Keeping the invariant\<close>

text \<open>
  A commit about one run \<open>q\<close>: the other runs' rows and their part of the tree are untouched, and \<open>q\<close>
  is in shape afterwards.
\<close>

lemma db_ok_step:
  assumes ok: "db_ok db" and wf: "db_wf db'"
    and runs: "\<And>j. j \<noteq> q \<Longrightarrow> get_run db' j = get_run db j"
    and q: "get_run db q \<noteq> None \<Longrightarrow> get_run db' q \<noteq> None"
    and own: "\<And>r. get_run db' q = Some r \<Longrightarrow> run_ok (xtree_of db') (itree_of db') r"
    and xs: "\<And>x v. xv_run v \<noteq> q \<Longrightarrow> (xtree_of db' x = Some v) = (xtree_of db x = Some v)"
    and isv: "\<And>i v. iv_run v \<noteq> q \<Longrightarrow> (itree_of db' i = Some v) = (itree_of db i = Some v)"
    and xq: "\<And>x v. xtree_of db' x = Some v \<Longrightarrow> xv_run v = q \<Longrightarrow> get_run db' q \<noteq> None"
    and iq: "\<And>i v. itree_of db' i = Some v \<Longrightarrow> iv_run v = q \<Longrightarrow> get_run db' q \<noteq> None"
    and links: "links_ok (xtree_of db')"
  shows "db_ok db'"
proof -
  have id: "r_id r = j" if "get_run db' j = Some r" for j r
    using runs.get_id [OF wf that] .
  have "run_ok (xtree_of db') (itree_of db') r" if g: "get_run db' j = Some r" and "j \<noteq> q" for j r
  proof -
    have "only_x j (xtree_of db') = only_x j (xtree_of db)"
      using xs \<open>j \<noteq> q\<close> by (intro only_x_eq) auto
    moreover have "only_i j (itree_of db') = only_i j (itree_of db)"
      using isv \<open>j \<noteq> q\<close> by (intro only_i_eq) auto
    ultimately have "run_ok (xtree_of db') (itree_of db') r = run_ok (xtree_of db) (itree_of db) r"
      using id [OF g] by (intro run_ok_elsewhere) auto
    with ok g runs [OF \<open>j \<noteq> q\<close>] show ?thesis by (auto simp: db_ok_def)
  qed
  with own have "\<forall>j r. get_run db' j = Some r \<longrightarrow> run_ok (xtree_of db') (itree_of db') r" by metis
  moreover have "get_run db' (xv_run v) \<noteq> None" if v: "xtree_of db' x = Some v" for x v
  proof (cases "xv_run v = q")
    case True
    with xq [OF v] show ?thesis by simp
  next
    case False
    with xs [of v x] v have "xtree_of db x = Some v" by simp
    with ok have "get_run db (xv_run v) \<noteq> None" unfolding db_ok_def by blast
    with runs [OF False] show ?thesis by simp
  qed
  moreover have "get_run db' (iv_run v) \<noteq> None" if v: "itree_of db' i = Some v" for i v
  proof (cases "iv_run v = q")
    case True
    with iq [OF v] show ?thesis by simp
  next
    case False
    with isv [of v i] v have "itree_of db i = Some v" by simp
    with ok have "get_run db (iv_run v) \<noteq> None" unfolding db_ok_def by blast
    with runs [OF False] show ?thesis by simp
  qed
  ultimately show ?thesis using wf links unfolding db_ok_def by blast
qed

lemma db_okD:
  assumes "db_ok db"
  shows "db_wf db" and "links_ok (xtree_of db)"
    and "\<And>q r. get_run db q = Some r \<Longrightarrow> run_ok (xtree_of db) (itree_of db) r"
    and "\<And>x v. xtree_of db x = Some v \<Longrightarrow> get_run db (xv_run v) \<noteq> None"
    and "\<And>i v. itree_of db i = Some v \<Longrightarrow> get_run db (iv_run v) \<noteq> None"
  using assms by (auto simp: db_ok_def)

text \<open>A write to the run row alone.\<close>

lemma db_ok_patch_run:
  assumes ok: "db_ok db" and keeps: "\<And>r. r_id (f r) = r_id r"
    and own: "\<And>r. get_run db q = Some r \<Longrightarrow> run_ok (xtree_of db) (itree_of db) (f r)"
  shows "db_ok (patch_run q f db)"
proof (rule db_ok_step [OF ok, of _ q])
  show "db_wf (patch_run q f db)" using db_okD(1) [OF ok] keeps by (rule patch_run_wf)
  show "get_run (patch_run q f db) j = get_run db j" if "j \<noteq> q" for j
    using runs.get_upd [OF db_okD(1) [OF ok] keeps, of q j] that by simp
  have g: "get_run (patch_run q f db) q = map_option f (get_run db q)"
    using runs.get_upd [OF db_okD(1) [OF ok] keeps, of q q] by simp
  show "get_run db q \<noteq> None \<Longrightarrow> get_run (patch_run q f db) q \<noteq> None" by (simp add: g)
  show "run_ok (xtree_of (patch_run q f db)) (itree_of (patch_run q f db)) r"
    if "get_run (patch_run q f db) q = Some r" for r
    using that own by (auto simp: g)
  show "get_run (patch_run q f db) q \<noteq> None"
    if "xtree_of (patch_run q f db) x = Some v" "xv_run v = q" for x v
    using that db_okD(4) [OF ok, of x v] by (auto simp: g)
  show "get_run (patch_run q f db) q \<noteq> None"
    if "itree_of (patch_run q f db) i = Some v" "iv_run v = q" for i v
    using that db_okD(5) [OF ok, of i v] by (auto simp: g)
  show "links_ok (xtree_of (patch_run q f db))" using db_okD(2) [OF ok] by simp
qed simp_all

text \<open>Writes that leave runs and trees alone.\<close>

lemma db_ok_same:
  assumes "db_ok db" and "db_wf db'" and "get_run db' = get_run db"
    and "xtree_of db' = xtree_of db" and "itree_of db' = itree_of db"
  shows "db_ok db'"
  using assms by (simp add: db_ok_def)

lemma db_ok_append_event [simp]: "db_ok db \<Longrightarrow> db_ok (append_event at d db)"
  by (rule db_ok_same) (auto dest: db_okD(1))

lemma db_ok_update_operation:
  "db_ok db \<Longrightarrow> (\<And>r. o_id (f r) = o_id r) \<Longrightarrow> db_ok (update_operation i f db)"
  by (rule db_ok_same) (auto dest: db_okD(1) intro: operations.wf_upd)

lemma db_ok_settle_operation:
  "db_ok db \<Longrightarrow> (\<And>r. o_id (f r) = o_id r) \<Longrightarrow> db_ok (settle_operation at i st f db)"
  by (rule db_ok_same) (auto dest: db_okD(1) intro: settle_operation_wf)

lemma run_ok_cong:
  "r_id r' = r_id r \<Longrightarrow> r_status r' = r_status r \<Longrightarrow> r_error r' = r_error r \<Longrightarrow>
     run_ok X I r' = run_ok X I r"
  by (auto simp: run_ok_def split: run_status.split)

lemma db_ok_patch_harmless:
  assumes "db_ok db" and "\<And>r. r_id (f r) = r_id r" and "\<And>r. r_status (f r) = r_status r"
    and "\<And>r. r_error (f r) = r_error r"
  shows "db_ok (patch_run q f db)"
proof (rule db_ok_patch_run [OF assms(1,2)])
  fix r assume "get_run db q = Some r"
  then show "run_ok (xtree_of db) (itree_of db) (f r)"
    using db_okD(3) [OF assms(1)] run_ok_cong [of "f r" r] assms by simp
qed

lemma update_run_ok:
  assumes "update_run at q f db = Inr db'" and "db_ok db" and "\<And>r. r_id (f r) = r_id r"
    and "\<And>r. get_run db q = Some r \<Longrightarrow> run_ok (xtree_of db) (itree_of db) (f r)"
  shows "db_ok db'"
proof -
  have "run_ok (xtree_of db) (itree_of db) ((f r)\<lparr>r_updated_at := at\<rparr>)" if "get_run db q = Some r" for r
    using assms(4) [OF that] run_ok_cong [of "(f r)\<lparr>r_updated_at := at\<rparr>" "f r"] by simp
  then show ?thesis
    using assms by (auto simp: update_run_Inr intro!: db_ok_patch_run)
qed

lemma update_run_harmless:
  assumes "update_run at q f db = Inr db'" and "db_ok db" and "\<And>r. r_id (f r) = r_id r"
    and "\<And>r. r_status (f r) = r_status r" and "\<And>r. r_error (f r) = r_error r"
  shows "db_ok db'"
  by (rule update_run_ok [OF assms(1-3)])
     (use db_okD(3) [OF assms(2)] run_ok_cong assms(3-5) in metis)

section \<open>The leaf and the retry target are the top\<close>

lemma stack_with_unique:
  assumes "stack_with P X I run x" and "stack_with Q X I run y"
  shows "x = y"
proof -
  obtain S i where S: "stack X I run (S @ [(i, x)])" using assms(1) by (auto simp: stack_with_def)
  obtain T j where T: "stack X I run (T @ [(j, y)])" using assms(2) by (auto simp: stack_with_def)
  obtain v where "X y = Some v" "xv_child v = None" "open_at X run y"
    using stack_last [OF T] by auto
  then show ?thesis using stack_leaf [OF S] by auto
qed

lemma stack_with_row:
  assumes "stack_with P X I run x"
  obtains v where "X x = Some v" "xv_run v = run" "xv_child v = None" "P (xv_status v)"
    "open_at X run x"
  using assms by (auto simp: stack_with_def elim!: stack_last)

lemma listed_execution:
  assumes "db_wf db"
  shows "(xr \<in> set (list_executions db q)) = (get_execution db (x_id xr) = Some xr \<and> x_run_id xr = q)"
  using executions.get_iff [OF assms, of "x_id xr" xr] by (auto simp: list_executions_def)

lemma listed_view:
  assumes "db_wf db" and "xr \<in> set (list_executions db q)"
  shows "xtree_of db (x_id xr) = Some (view_x xr)" and "xv_run (view_x xr) = q"
  using assms by (auto simp: listed_execution xtree_of_def view_x_def)

lemma view_row:
  assumes "xtree_of db x = Some v" and "db_wf db"
  obtains xr where "get_execution db x = Some xr" "x_id xr = x" "v = view_x xr"
  using assms executions.get_id by (auto simp: xtree_of_def)

lemma find_last_Some: "find_last P xs = Some z \<Longrightarrow> z \<in> set xs \<and> P z"
proof -
  assume "find_last P xs = Some z"
  then have "z \<in> set (rev xs) \<and> P z"
    unfolding find_last_def by (auto simp: find_Some_iff simp del: set_rev intro: nth_mem)
  then show ?thesis by simp
qed

lemma find_last_unique:
  assumes "y \<in> set xs" and "P y" and "\<And>z. z \<in> set xs \<Longrightarrow> P z \<Longrightarrow> z = y"
  shows "find_last P xs = Some y"
proof (cases "find P (rev xs)")
  case None
  with assms(1,2) show ?thesis by (auto simp: find_None_iff)
next
  case (Some z)
  then have "z \<in> set xs \<and> P z" using find_last_Some [of P xs z] by (simp add: find_last_def)
  with assms(3) Some show ?thesis by (auto simp: find_last_def)
qed

lemma find_last_None: "(find_last P xs = None) = (\<forall>x \<in> set xs. \<not> P x)"
  by (auto simp: find_last_def find_None_iff)

lemma unfinished_view: "unfinished xr = live (xv_status (view_x xr))"
  by (simp add: unfinished_def live_def view_x_def)

text \<open>The leaf of a run that has one is the top of its stack.\<close>

lemma leaf_is_top:
  assumes wf: "db_wf db" and st: "stack_with live (xtree_of db) (itree_of db) q x"
  obtains xr where "find_leaf_execution db q = Some xr" "x_id xr = x" "get_execution db x = Some xr"
    "x_run_id xr = q" "unfinished xr"
proof -
  obtain v where v: "xtree_of db x = Some v" "xv_run v = q" "xv_child v = None" "live (xv_status v)"
    using st by (rule stack_with_row)
  obtain xr where xr: "get_execution db x = Some xr" "x_id xr = x" "v = view_x xr"
    using v(1) wf by (rule view_row)
  have mem: "xr \<in> set (list_executions db q)"
    using xr v by (simp add: listed_execution [OF wf] view_x_def)
  have top: "z = xr" if z: "z \<in> set (list_executions db q)" "unfinished z \<and> x_child z = None" for z
  proof -
    have "open_at (xtree_of db) q (x_id z)"
      using listed_view [OF wf z(1)] z(2) by (auto simp: open_at_def unfinished_view)
    moreover obtain S i where "stack (xtree_of db) (itree_of db) q (S @ [(i, x)])"
      using st by (auto simp: stack_with_def)
    ultimately have "x_id z = x"
      using stack_leaf listed_view(1) [OF wf z(1)] z(2) by (fastforce simp: view_x_def)
    with z(1) xr show ?thesis by (auto simp: listed_execution [OF wf])
  qed
  have "find_leaf_execution db q = Some xr"
    unfolding find_leaf_execution_def
    by (rule find_last_unique [OF mem]) (use top v xr in \<open>auto simp: unfinished_view view_x_def\<close>)
  with xr v that show thesis by (auto simp: unfinished_view view_x_def)
qed

lemma no_leaf_unless_live:
  assumes wf: "db_wf db" and leaf: "find_leaf_execution db q = Some xr"
  shows "\<not> no_tree (xtree_of db) (itree_of db) q" and "\<not> quiet (xtree_of db) (itree_of db) q"
    and "\<not> stack_with broken (xtree_of db) (itree_of db) q x"
proof -
  from leaf have "xr \<in> set (list_executions db q) \<and> unfinished xr \<and> x_child xr = None"
    unfolding find_leaf_execution_def by (auto dest: find_last_Some)
  then have mem: "xr \<in> set (list_executions db q)" and un: "unfinished xr" "x_child xr = None" by auto
  note view = listed_view [OF wf mem]
  show "\<not> no_tree (xtree_of db) (itree_of db) q" using view by (auto simp: no_tree_def)
  show "\<not> quiet (xtree_of db) (itree_of db) q" using view un by (auto simp: quiet_def unfinished_view)
  show "\<not> stack_with broken (xtree_of db) (itree_of db) q x"
  proof
    assume st: "stack_with broken (xtree_of db) (itree_of db) q x"
    then obtain S i where S: "stack (xtree_of db) (itree_of db) q (S @ [(i, x)])"
      by (auto simp: stack_with_def)
    have "open_at (xtree_of db) q (x_id xr)" "xv_child (view_x xr) = None"
      using view un by (auto simp: open_at_def unfinished_view view_x_def)
    then have "x_id xr = x" using stack_leaf [OF S] view(1) by auto
    then have "broken (xv_status (view_x xr))" using st view(1) by (auto simp: stack_with_def)
    with un(1) show False by (auto simp: unfinished_view live_def broken_def)
  qed
qed

text \<open>The execution a Retry repeats is the top of the stack, and there is one.\<close>

lemma retry_target_is_top:
  assumes wf: "db_wf db" and st: "stack_with broken (xtree_of db) (itree_of db) q x"
  obtains xr where "find_retry_target db q = Some xr" "x_id xr = x" "get_execution db x = Some xr"
    "x_run_id xr = q"
proof -
  obtain S i v where S: "stack (xtree_of db) (itree_of db) q (S @ [(i, x)])"
    and v: "xtree_of db x = Some v" "broken (xv_status v)"
    using st by (auto simp: stack_with_def)
  obtain xr where xr: "get_execution db x = Some xr" "x_id xr = x" "v = view_x xr"
    using v(1) wf by (rule view_row)
  obtain u where u: "xtree_of db x = Some u" "xv_run u = q" "open_at (xtree_of db) q x"
    using stack_last [OF S] by auto
  have "u = view_x xr" using u(1) v(1) xr by simp
  with u(2) have run: "x_run_id xr = q" by (simp add: view_x_def)
  have mem: "xr \<in> set (list_executions db q)" using xr run by (simp add: listed_execution [OF wf])
  have unretried: "(Some (x_id z) \<notin> set (map x_retry_of (list_executions db q))) =
        (\<not> retried (xtree_of db) q (x_id z))" for z
  proof -
    have "retried (xtree_of db) q (x_id z) = (\<exists>y \<in> set (list_executions db q). x_retry_of y = Some (x_id z))"
    proof
      assume "retried (xtree_of db) q (x_id z)"
      then obtain y w where w: "xtree_of db y = Some w" "xv_run w = q" "xv_retry w = Some (x_id z)"
        by (auto simp: retried_def)
      obtain yr where "get_execution db y = Some yr" "x_id yr = y" "w = view_x yr"
        using w(1) wf by (rule view_row)
      with w show "\<exists>y \<in> set (list_executions db q). x_retry_of y = Some (x_id z)"
        by (auto simp: listed_execution [OF wf] view_x_def)
    next
      assume "\<exists>y \<in> set (list_executions db q). x_retry_of y = Some (x_id z)"
      then obtain y where y: "y \<in> set (list_executions db q)" "x_retry_of y = Some (x_id z)" by auto
      then show "retried (xtree_of db) q (x_id z)"
        using listed_view [OF wf y(1)] unfolding retried_def
        by (intro exI [of _ "x_id y"] exI [of _ "view_x y"]) (simp add: view_x_def)
    qed
    then show ?thesis by force
  qed
  have top: "z = xr" if z: "z \<in> set (list_executions db q)"
    "(x_status z = ExFailed \<or> x_status z = ExInterrupted) \<and>
       Some (x_id z) \<notin> set (map x_retry_of (list_executions db q))" for z
  proof -
    have br: "broken (xv_status (view_x z))" using z(2) by (auto simp: broken_def view_x_def)
    have "\<not> retried (xtree_of db) q (x_id z)" using unretried [of z] z(2) by blast
    then have opn: "open_at (xtree_of db) q (x_id z)"
      using listed_view [OF wf z(1)] br by (auto simp: open_at_def)
    have "xv_child (view_x z) = None"
    proof (rule ccontr)
      assume ch: "xv_child (view_x z) \<noteq> None"
      obtain j where j: "(j, x_id z) \<in> set (S @ [(i, x)])"
        using S opn unfolding stack_def by force
      have "x_id z \<noteq> x" using stack_last [OF S] listed_view(1) [OF wf z(1)] ch by force
      then have "(j, x_id z) \<in> set (butlast (S @ [(i, x)]))" using j by auto
      then have "xv_status (view_x z) = ExWaiting"
        using S linked_inner_child [of "xtree_of db" "itree_of db" q None "S @ [(i, x)]" None j "x_id z"]
          listed_view(1) [OF wf z(1)] by (auto simp: stack_def)
      with br show False by simp
    qed
    then have "x_id z = x" using stack_leaf [OF S opn listed_view(1) [OF wf z(1)]] by simp
    with z(1) xr show ?thesis by (auto simp: listed_execution [OF wf])
  qed
  have "(x_status xr = ExFailed \<or> x_status xr = ExInterrupted) \<and>
       Some (x_id xr) \<notin> set (map x_retry_of (list_executions db q))"
    using v xr u(3) unretried [of xr] by (auto simp: broken_def view_x_def open_at_def live_def)
  with mem top have "find_retry_target db q = Some xr"
    unfolding find_retry_target_def Let_def by (intro find_last_unique) blast+
  with xr run that show thesis by blast
qed

section \<open>The top changes its status\<close>

lemma db_ok_top:
  assumes ok: "db_ok db" and wf: "db_wf db'"
    and st: "stack_with live (xtree_of db) (itree_of db) q x" and v: "xtree_of db x = Some v"
    and xt: "xtree_of db' = (xtree_of db)(x \<mapsto> with_status s v)" and it: "itree_of db' = itree_of db"
    and runs: "\<And>j. j \<noteq> q \<Longrightarrow> get_run db' j = get_run db j" and r: "get_run db' q = Some r"
    and s: "if live s then r_status r \<in> {Running, Waiting, Paused}
            else broken s \<and> r_status r = Failed \<and> (\<forall>e. r_error r = Some e \<longrightarrow> re_stage e \<noteq> StageEnvironment)"
  shows "db_ok db'"
proof (rule db_ok_step [OF ok wf runs, of q])
  have rid: "r_id r = q" using runs.get_id [OF wf r] .
  obtain S i where S: "stack (xtree_of db) (itree_of db) q (S @ [(i, x)])"
    using st by (auto simp: stack_with_def)
  have vrun: "xv_run v = q" and lv: "live (xv_status v)"
    using st v by (auto elim!: stack_with_row)
  have links: "links_ok (xtree_of db)" using ok by (rule db_okD)
  have unret: "\<not> retried (xtree_of db) q x"
    using links v lv by (fastforce simp: links_ok_def retried_def live_def broken_def)
  have "stack (xtree_of db') (itree_of db') q (S @ [(i, x)])"
    unfolding xt it using S v unret s by (intro stack_status) (auto split: if_splits)
  moreover have "xtree_of db' x = Some (with_status s v)" "xv_status (with_status s v) = s"
    by (simp_all add: xt with_status_def)
  ultimately have st': "P s \<Longrightarrow> stack_with P (xtree_of db') (itree_of db') q x" for P
    unfolding stack_with_def by metis
  show "run_ok (xtree_of db') (itree_of db') r'" if "get_run db' q = Some r'" for r'
  proof -
    from that r have "r' = r" by simp
    then show ?thesis
    proof (cases "live s")
      case True
      with st' [of live] s rid \<open>r' = r\<close> show ?thesis by (auto simp: run_ok_def)
    next
      case False
      with s have "broken s" by simp
      with st' [of broken] s rid False \<open>r' = r\<close> show ?thesis by (auto simp: run_ok_def)
    qed
  qed
  show "links_ok (xtree_of db')"
    unfolding links_ok_def
  proof (intro allI impI)
    fix y w z assume w: "xtree_of db' y = Some w \<and> xv_retry w = Some z"
    obtain w' where "xtree_of db y = Some w'" "xv_retry w' = Some z" "xv_run w' = xv_run w"
      using w v by (cases "y = x") (auto simp: xt with_status_def)
    then obtain u where u: "xtree_of db z = Some u" "xv_run u = xv_run w" "broken (xv_status u)"
      using links unfolding links_ok_def by metis
    then have "z \<noteq> x" using v lv by (auto simp: live_def broken_def)
    with u show "\<exists>u. xtree_of db' z = Some u \<and> xv_run u = xv_run w \<and> broken (xv_status u)"
      by (simp add: xt)
  qed
  show "(xtree_of db' y = Some w) = (xtree_of db y = Some w)" if "xv_run w \<noteq> q" for y w
    using that v vrun by (auto simp: xt with_status_def)
qed (use r it in auto)

end
