(* ===== verification/Run_Machine.thy ===== *)
theory Run_Machine
  imports Run_Invariant
begin

text \<open>
  The run machine: a run's status together with its call stack, and the moves the engine's commits
  make on them. \<open>run_shape\<close> relates a database to the machine's state of one run; \<open>moves\<close> says that a
  commit is a move of one run and leaves every other run alone.
\<close>

section \<open>The machine\<close>

type_synonym run_state = "run_status \<times> frame list"

definition parked_or_driven :: "run_status set" where
  "parked_or_driven = {Running, Waiting, Paused}"

inductive control_move :: "run_state \<Rightarrow> run_state \<Rightarrow> bool" where
  move_stay: "control_move a a"
| move_pause: "s = Running \<or> s = Waiting \<Longrightarrow> control_move (s, S) (Paused, S)"
| move_resume: "control_move (Paused, S) (Running, S)"
| move_preparation_failed: "control_move (Preparing, []) (Failed, [])"
| move_prepare_again: "control_move (Failed, []) (Preparing, [])"
| move_enter_root: "control_move (Preparing, []) (Running, [f])"
| move_retry: "control_move (Failed, S @ [(i, x)]) (Running, S @ [(i, e)])"
| move_cancel: "s \<noteq> Completed \<Longrightarrow> s \<noteq> Cancelled \<Longrightarrow> control_move (s, S) (Cancelled, [])"

inductive driver_move :: "run_state \<Rightarrow> run_state \<Rightarrow> bool" where
  move_idle: "driver_move a a"
| move_park: "driver_move (Running, S) (Waiting, S)"
| move_route: "s = Running \<or> s = Waiting \<Longrightarrow> S2 \<noteq> [] \<Longrightarrow>
    driver_move (s, S1 @ S2) (Running, S1 @ [(fst (hd S2), e)])"
| move_push: "s = Running \<or> s = Waiting \<Longrightarrow> driver_move (s, S @ [f]) (s, S @ [f, g])"
| move_finish: "s = Running \<or> s = Waiting \<Longrightarrow> driver_move (s, S) (Completed, [])"
| move_fail: "s \<in> parked_or_driven \<Longrightarrow> driver_move (s, S) (Failed, S)"

inductive_cases control_moveE: "control_move (s, S) (t, T)"
inductive_cases driver_moveE: "driver_move (s, S) (t, T)"
inductive_simps control_move_from_cancelled: "control_move (Cancelled, S) t"
inductive_simps control_move_from_completed: "control_move (Completed, S) t"

section \<open>A run's rows as a state of the machine\<close>

definition top_is :: "(execution_status \<Rightarrow> bool) \<Rightarrow> xtree \<Rightarrow> frame list \<Rightarrow> bool" where
  "top_is P X S = (S \<noteq> [] \<and> (\<exists>v. X (snd (last S)) = Some v \<and> P (xv_status v)))"

definition no_environment_error :: "run_row \<Rightarrow> bool" where
  "no_environment_error r = (\<forall>e. r_error r = Some e \<longrightarrow> re_stage e \<noteq> StageEnvironment)"

definition run_shape :: "xtree \<Rightarrow> itree \<Rightarrow> run_row \<Rightarrow> frame list \<Rightarrow> bool" where
  "run_shape X I r S =
     (case r_status r of
        Preparing \<Rightarrow> no_tree X I (r_id r) \<and> S = []
      | Running \<Rightarrow> stack X I (r_id r) S \<and> top_is live X S
      | Waiting \<Rightarrow> stack X I (r_id r) S \<and> top_is live X S
      | Paused \<Rightarrow> stack X I (r_id r) S \<and> top_is live X S
      | Failed \<Rightarrow>
          no_tree X I (r_id r) \<and> S = [] \<or>
          stack X I (r_id r) S \<and> top_is broken X S \<and> no_environment_error r
      | Completed \<Rightarrow> quiet X I (r_id r) \<and> S = []
      | Cancelled \<Rightarrow> quiet X I (r_id r) \<and> S = [])"

lemma stack_with_top:
  "stack_with P X I run x = (\<exists>S. stack X I run S \<and> top_is P X S \<and> x = snd (last S))"
proof
  assume "stack_with P X I run x"
  then obtain S i v where "stack X I run (S @ [(i, x)])" "X x = Some v" "P (xv_status v)"
    by (auto simp: stack_with_def)
  then show "\<exists>S. stack X I run S \<and> top_is P X S \<and> x = snd (last S)"
    by (intro exI [of _ "S @ [(i, x)]"]) (simp add: top_is_def)
next
  assume "\<exists>S. stack X I run S \<and> top_is P X S \<and> x = snd (last S)"
  then obtain S where S: "stack X I run S" "top_is P X S" "x = snd (last S)" by blast
  then have "S = butlast S @ [(fst (last S), x)]" by (simp add: top_is_def)
  with S show "stack_with P X I run x"
    unfolding stack_with_def top_is_def by metis
qed

lemma ex_stack_with: "(\<exists>x. stack_with P X I run x) = (\<exists>S. stack X I run S \<and> top_is P X S)"
  by (simp add: stack_with_top)

lemma run_ok_shape: "run_ok X I r = (\<exists>S. run_shape X I r S)"
  by (cases "r_status r")
     (auto simp: run_ok_def run_shape_def ex_stack_with no_environment_error_def)

definition moves :: "(run_state \<Rightarrow> run_state \<Rightarrow> bool) \<Rightarrow> nat \<Rightarrow> db \<Rightarrow> db \<Rightarrow> bool" where
  "moves M q db db' =
     (db_wf db' \<and> links_ok (xtree_of db') \<and>
      (\<forall>j. j \<noteq> q \<longrightarrow> get_run db' j = get_run db j) \<and>
      (\<forall>x v. xv_run v \<noteq> q \<longrightarrow> (xtree_of db' x = Some v) = (xtree_of db x = Some v)) \<and>
      (\<forall>i v. iv_run v \<noteq> q \<longrightarrow> (itree_of db' i = Some v) = (itree_of db i = Some v)) \<and>
      (\<forall>x v. xtree_of db x = Some v \<longrightarrow> (\<exists>w. xtree_of db' x = Some w \<and> xv_run w = xv_run v)) \<and>
      (\<exists>r r' S S'. get_run db q = Some r \<and> get_run db' q = Some r' \<and>
         run_shape (xtree_of db) (itree_of db) r S \<and> run_shape (xtree_of db') (itree_of db') r' S' \<and>
         M (r_status r, S) (r_status r', S')))"

lemma moves_ok:
  assumes "db_ok db" and "moves M q db db'"
  shows "db_ok db'"
proof -
  from assms(2) obtain r r' S' where r: "get_run db q = Some r" and r': "get_run db' q = Some r'"
    and sh: "run_shape (xtree_of db') (itree_of db') r' S'"
    by (auto simp: moves_def)
  show ?thesis
    by (rule db_ok_step [OF assms(1), of _ q])
       (use assms(2) r' sh in \<open>auto simp: moves_def run_ok_shape\<close>)
qed

lemma moves_mono: "moves M q db db' \<Longrightarrow> (\<And>a b. M a b \<Longrightarrow> N a b) \<Longrightarrow> moves N q db db'"
  unfolding moves_def by blast

end
