(* ===== verification/Commit_Moves.thy ===== *)
theory Commit_Moves
  imports Run_Machine
begin

text \<open>
  Every commit of a driver is a move of the run machine: failing the top, entering a subgraph,
  routing and parking. Each lemma says what the commit does to the run's row and trees and rests on
  the stack lemmas of \<open>Spine\<close>.
\<close>

section \<open>A move from its effects\<close>

lemma run_shape_cong:
  "r_id r' = r_id r \<Longrightarrow> r_status r' = r_status r \<Longrightarrow> r_error r' = r_error r \<Longrightarrow>
     run_shape X I r' S = run_shape X I r S"
  by (auto simp: run_shape_def no_environment_error_def split: run_status.split)

lemma driven_shape:
  "r_status r \<in> parked_or_driven \<Longrightarrow>
     run_shape X I r S = (stack X I (r_id r) S \<and> top_is live X S)"
  by (auto simp: run_shape_def parked_or_driven_def)

lemma drivable_driven: "drivable r \<Longrightarrow> r_status r \<in> parked_or_driven"
  by (auto simp: drivable_def parked_or_driven_def)

text \<open>The run row and nothing else: \<open>f\<close> may change the status.\<close>

lemma moves_patch_run:
  assumes ok: "db_ok db" and keeps: "\<And>r. r_id (f r) = r_id r" and r: "get_run db q = Some r"
    and sh: "run_shape (xtree_of db) (itree_of db) r S"
    and sh': "run_shape (xtree_of db) (itree_of db) (f r) S'"
    and M: "M (r_status r, S) (r_status (f r), S')"
  shows "moves M q db (patch_run q f db)"
proof -
  note wf = db_okD(1) [OF ok]
  have g: "get_run (patch_run q f db) j = (if j = q then map_option f (get_run db j) else get_run db j)" for j
    using runs.get_upd [OF wf keeps] .
  show ?thesis
    using patch_run_wf [OF wf keeps] db_okD(2) [OF ok] r sh sh' M by (auto simp: moves_def g)
qed

lemma moves_update_run:
  assumes up: "update_run at q f db = Inr db'" and ok: "db_ok db" and keeps: "\<And>r. r_id (f r) = r_id r"
    and r: "get_run db q = Some r" and sh: "run_shape (xtree_of db) (itree_of db) r S"
    and sh': "run_shape (xtree_of db) (itree_of db) (f r) S'"
    and M: "M (r_status r, S) (r_status (f r), S')"
  shows "moves M q db db'"
proof -
  have "moves M q db (patch_run q (\<lambda>r. (f r)\<lparr>r_updated_at := at\<rparr>) db)"
    using run_shape_cong [of "(f r)\<lparr>r_updated_at := at\<rparr>" "f r" "xtree_of db" "itree_of db" S'] sh' M
    by (intro moves_patch_run [OF ok _ r sh, of _ S']) (simp_all add: keeps)
  with up show ?thesis by (simp add: update_run_Inr)
qed

lemma moves_same_rows:
  assumes "moves M q db db'" and "db_wf db''" and "get_run db'' = get_run db'"
    and "xtree_of db'' = xtree_of db'" and "itree_of db'' = itree_of db'"
  shows "moves M q db db''"
  using assms by (simp add: moves_def)

lemma moves_event [intro]: "moves M q db db' \<Longrightarrow> moves M q db (append_event at d db')"
  by (rule moves_same_rows) (auto simp: moves_def)

lemma moves_before:
  assumes "moves M q db1 db'" and "get_run db1 = get_run db"
    and "xtree_of db1 = xtree_of db" and "itree_of db1 = itree_of db"
  shows "moves M q db db'"
  using assms by (simp add: moves_def)

section \<open>Failing the top\<close>

lemma links_ok_status:
  assumes links: "links_ok X" and v: "X x = Some v" and lv: "live (xv_status v)"
    and w: "xv_run w = xv_run v" "xv_retry w = xv_retry v"
  shows "links_ok (X(x \<mapsto> w))"
  unfolding links_ok_def
proof (intro allI impI)
  fix y u z assume u: "(X(x \<mapsto> w)) y = Some u \<and> xv_retry u = Some z"
  obtain u' where "X y = Some u'" "xv_retry u' = Some z" "xv_run u' = xv_run u"
    using u v w by (cases "y = x") auto
  then obtain t where t: "X z = Some t" "xv_run t = xv_run u" "broken (xv_status t)"
    using links unfolding links_ok_def by metis
  then have "z \<noteq> x" using v lv by (auto simp: live_def broken_def)
  with t show "\<exists>v. (X(x \<mapsto> w)) z = Some v \<and> xv_run v = xv_run u \<and> broken (xv_status v)" by simp
qed

lemma live_unretried:
  assumes "links_ok X" and "X x = Some v" and "live (xv_status v)"
  shows "\<not> retried X q x"
proof
  assume "retried X q x"
  then obtain y w where "X y = Some w" "xv_retry w = Some x" by (auto simp: retried_def)
  with assms(1) obtain u where "X x = Some u" "broken (xv_status u)"
    unfolding links_ok_def by metis
  with assms(2,3) show False by (auto simp: live_def broken_def)
qed

lemma top_split:
  assumes "top_is P X S" and "x = snd (last S)"
  obtains S0 i v where "S = S0 @ [(i, x)]" "X x = Some v" "P (xv_status v)"
proof -
  obtain v where v: "S \<noteq> []" "X (snd (last S)) = Some v" "P (xv_status v)"
    using assms(1) by (auto simp: top_is_def)
  then have "S = butlast S @ [(fst (last S), x)]" using assms(2) by simp
  then show thesis by (rule that [OF _ _ v(3)]) (use v(2) assms(2) in simp)
qed

text \<open>The status of the live top, and the run row with it.\<close>

lemma moves_top:
  assumes ok: "db_ok db" and r: "get_run db q = Some r" and act: "r_status r \<in> parked_or_driven"
    and sh: "run_shape (xtree_of db) (itree_of db) r S" and x: "x = snd (last S)"
    and wf: "db_wf db'" and runs: "\<And>j. j \<noteq> q \<Longrightarrow> get_run db' j = get_run db j"
    and r': "get_run db' q = Some r'"
    and xt: "\<And>v. xtree_of db x = Some v \<Longrightarrow> xtree_of db' = (xtree_of db)(x \<mapsto> with_status s v)"
    and it: "itree_of db' = itree_of db"
    and s: "live s \<and> r_status r' \<in> parked_or_driven \<or>
            broken s \<and> r_status r' = Failed \<and> no_environment_error r'"
    and M: "M (r_status r, S) (r_status r', S)"
  shows "moves M q db db'"
proof -
  have rid: "r_id r = q" "r_id r' = q"
    using runs.get_id [OF db_okD(1) [OF ok] r] runs.get_id [OF wf r'] by auto
  have S: "stack (xtree_of db) (itree_of db) q S" "top_is live (xtree_of db) S"
    using sh act rid by (simp_all add: driven_shape)
  obtain S0 i v where S0: "S = S0 @ [(i, x)]" and v: "xtree_of db x = Some v" "live (xv_status v)"
    using S(2) x by (rule top_split)
  have vrun: "xv_run v = q" using stack_last [OF S(1)] S0 v(1) by auto
  note xt' = xt [OF v(1)]
  have links: "links_ok (xtree_of db)" using ok by (rule db_okD)
  have "stack (xtree_of db') (itree_of db') q S"
    unfolding xt' it S0
    using S S0 v s live_unretried [OF links v] by (intro stack_status) auto
  moreover have "live s \<Longrightarrow> top_is live (xtree_of db') S" "broken s \<Longrightarrow> top_is broken (xtree_of db') S"
    by (simp_all add: top_is_def S0 xt' with_status_def)
  ultimately have sh': "run_shape (xtree_of db') (itree_of db') r' S"
    using s rid by (auto simp: run_shape_def parked_or_driven_def)
  have "links_ok (xtree_of db')"
    unfolding xt' using links v by (rule links_ok_status) (simp_all add: with_status_def)
  moreover have "\<forall>y w. xv_run w \<noteq> q \<longrightarrow> (xtree_of db' y = Some w) = (xtree_of db y = Some w)"
    using v vrun by (auto simp: xt' with_status_def)
  moreover have "\<exists>w. xtree_of db' y = Some w \<and> xv_run w = xv_run u" if "xtree_of db y = Some u" for y u
    using that v by (cases "y = x") (auto simp: xt' with_status_def)
  ultimately show ?thesis
    using wf runs r r' sh sh' M it by (auto simp: moves_def)
qed

lemma apply_failure_Inr:
  assumes "apply_failure at run (Some xr) failure ev st db = Inr db'" and "db_wf db"
  shows "db_wf db'" and "get_run db (r_id run) \<noteq> None"
    and "get_run db' j = (if j = r_id run
           then map_option (\<lambda>r. r\<lparr>r_status := Failed, r_error := Some failure, r_ended_at := Some at,
                                 r_updated_at := at\<rparr>) (get_run db j)
           else get_run db j)"
    and "itree_of db' = itree_of db"
    and "xtree_of db' = (\<lambda>y. if y = x_id xr then map_option (with_status st) (xtree_of db y) else xtree_of db y)"
proof -
  let ?f = "\<lambda>r. r\<lparr>x_status := st, x_error := Some failure,
                x_event := (case ev of None \<Rightarrow> x_event r | Some e \<Rightarrow> Some e), x_ended_at := Some at\<rparr>"
  let ?g = "\<lambda>r. r\<lparr>r_status := Failed, r_error := Some failure, r_ended_at := Some at, r_updated_at := at\<rparr>"
  obtain d1 d2 where db': "db' = append_event at d2 (patch_run (r_id run) ?g
          (append_event at d1 (update_execution (x_id xr) ?f db)))"
    and have_run: "get_run db (r_id run) \<noteq> None"
    using assms(1) by (auto simp: apply_failure_def Let_def map_ok_Inr update_run_Inr)
  have wf1: "db_wf (append_event at d1 (update_execution (x_id xr) ?f db))"
    using assms(2) by (auto intro!: db_wf_intros)
  then show "db_wf db'" unfolding db' by (auto intro!: db_wf_intros)
  show "get_run db (r_id run) \<noteq> None" by (rule have_run)
  show "get_run db' j = (if j = r_id run then map_option ?g (get_run db j) else get_run db j)"
    using runs.get_upd [OF wf1, of ?g "r_id run" j] by (simp add: db')
  show "itree_of db' = itree_of db" by (simp add: db')
  show "xtree_of db' = (\<lambda>y. if y = x_id xr then map_option (with_status st) (xtree_of db y) else xtree_of db y)"
    using xtree_update_execution [OF assms(2), of ?f "with_status st" "x_id xr"]
    by (simp add: db' view_x_def with_status_def)
qed

lemma moves_failure:
  assumes ok: "db_ok db" and r: "get_run db q = Some r" and act: "r_status r \<in> parked_or_driven"
    and sh: "run_shape (xtree_of db) (itree_of db) r S" and x: "x_id xr = snd (last S)"
    and st: "broken st" and stg: "re_stage failure \<noteq> StageEnvironment"
    and ap: "apply_failure at r (Some xr) failure ev st db = Inr db'"
  shows "moves driver_move q db db'"
proof -
  note wf = db_okD(1) [OF ok]
  note eff = apply_failure_Inr [OF ap wf]
  have rid: "r_id r = q" using runs.get_id [OF wf r] .
  have r': "get_run db' q = Some (r\<lparr>r_status := Failed, r_error := Some failure, r_ended_at := Some at,
      r_updated_at := at\<rparr>)"
    using eff(3) [of q] r rid by simp
  show ?thesis
  proof (rule moves_top [OF ok r act sh x eff(1) _ r'])
    show "get_run db' j = get_run db j" if "j \<noteq> q" for j using eff(3) [of j] that rid by simp
    show "xtree_of db' = (xtree_of db)(x_id xr \<mapsto> with_status st v)" if "xtree_of db (x_id xr) = Some v" for v
      using eff(5) that by auto
    show "itree_of db' = itree_of db" by (rule eff(4))
  qed (use st stg act in \<open>auto simp: no_environment_error_def intro: move_fail\<close>)
qed

section \<open>What a driver holds\<close>

text \<open>
  A driver that read an execution as its run's leaf still has it: the run was cancelled meanwhile,
  or the execution is the live top of its stack.
\<close>

definition holds :: "db \<Rightarrow> nat \<Rightarrow> nat \<Rightarrow> bool" where
  "holds db q x =
     ((\<exists>v. xtree_of db x = Some v \<and> xv_run v = q) \<and>
      (\<exists>r. get_run db q = Some r \<and>
         (r_status r = Cancelled \<or>
          r_status r \<in> parked_or_driven \<and>
            (\<exists>S. run_shape (xtree_of db) (itree_of db) r S \<and> x = snd (last S)))))"

lemma holds_top:
  assumes "holds db q x" and "get_run db q = Some r" and "r_status r \<noteq> Cancelled"
  obtains S where "r_status r \<in> parked_or_driven"
    "run_shape (xtree_of db) (itree_of db) r S" "x = snd (last S)"
  using assms by (auto simp: holds_def)

lemma holds_row:
  assumes "holds db q x" and "db_wf db"
  obtains xr where "get_execution db x = Some xr" "x_id xr = x" "x_run_id xr = q"
proof -
  from assms(1) obtain v where v: "xtree_of db x = Some v" "xv_run v = q" by (auto simp: holds_def)
  obtain xr where "get_execution db x = Some xr" "x_id xr = x" "v = view_x xr"
    using v(1) assms(2) by (rule view_row)
  with v(2) that show thesis by (auto simp: view_x_def)
qed

lemma top_unfinished:
  assumes "run_shape (xtree_of db) (itree_of db) r S" and "r_status r \<in> parked_or_driven"
    and "get_execution db (snd (last S)) = Some xr"
  shows "unfinished xr"
  using assms by (auto simp: driven_shape top_is_def xtree_of_def unfinished_view)

text \<open>A driven run at rest: the trivial move.\<close>

lemma moves_idle:
  assumes "db_ok db" and "get_run db q = Some r" and "M (r_status r, S) (r_status r, S)"
    and "run_shape (xtree_of db) (itree_of db) r S"
  shows "moves M q db db"
  using assms unfolding moves_def by (auto dest: db_okD(1,2))

lemma commit_fail_step_moves:
  assumes ok: "db_ok db" and h: "holds db q x" and stg: "re_stage failure \<noteq> StageEnvironment"
    and c: "commit_fail_step at q x failure db = Inr db'"
  shows "db' = db \<or> moves driver_move q db db'"
proof (cases "get_run db q")
  case None
  with c show ?thesis by (simp add: commit_fail_step_def)
next
  case (Some r)
  show ?thesis
  proof (cases "drivable r")
    case False
    with c Some show ?thesis by (simp add: commit_fail_step_def)
  next
    case True
    then have "r_status r \<noteq> Cancelled" by (auto simp: drivable_def)
    with h Some obtain S where S: "r_status r \<in> parked_or_driven"
      "run_shape (xtree_of db) (itree_of db) r S" "x = snd (last S)" by (rule holds_top)
    obtain xr where xr: "get_execution db x = Some xr" "x_id xr = x"
      using holds_row [OF h db_okD(1) [OF ok]] by metis
    have "apply_failure at r (Some xr) failure None ExFailed db = Inr db'"
      using c Some True xr by (simp add: commit_fail_step_def)
    with moves_failure [OF ok Some S(1,2), of xr ExFailed failure at None db'] S(3) xr(2) stg
    show ?thesis by simp
  qed
qed

lemma commit_fail_capture_moves:
  assumes ok: "db_ok db" and h: "holds db q (x_id leaf)" and stg: "re_stage failure \<noteq> StageEnvironment"
    and c: "commit_fail_capture at q leaf failure db = Inr db'"
  shows "db' = db \<or> moves driver_move q db db'"
proof -
  obtain xr where xr: "get_execution db (x_id leaf) = Some xr" "x_id xr = x_id leaf"
    using holds_row [OF h db_okD(1) [OF ok]] by metis
  obtain r where r: "get_run db q = Some r" using h by (auto simp: holds_def)
  show ?thesis
  proof (cases "x_status xr \<noteq> ExRunning \<or> \<not> drivable r")
    case True
    with c xr r show ?thesis by (auto simp: commit_fail_capture_def)
  next
    case False
    then have "r_status r \<noteq> Cancelled" by (auto simp: drivable_def)
    with h r obtain S where S: "r_status r \<in> parked_or_driven"
      "run_shape (xtree_of db) (itree_of db) r S" "x_id leaf = snd (last S)" by (rule holds_top)
    have "apply_failure at r (Some xr) failure None ExFailed db = Inr db'"
      using c xr r False by (simp add: commit_fail_capture_def)
    with moves_failure [OF ok r S(1,2), of xr ExFailed failure at None db'] S(3) xr(2) stg
    show ?thesis by simp
  qed
qed

lemma leaf_of_shape:
  assumes wf: "db_wf db" and sh: "run_shape (xtree_of db) (itree_of db) r S"
    and act: "r_status r \<in> parked_or_driven"
  obtains xr where "find_leaf_execution db (r_id r) = Some xr" "x_id xr = snd (last S)"
    "get_execution db (x_id xr) = Some xr" "x_run_id xr = r_id r" "unfinished xr"
proof -
  have "stack_with live (xtree_of db) (itree_of db) (r_id r) (snd (last S))"
    using sh act by (auto simp: driven_shape stack_with_top)
  from leaf_is_top [OF wf this] that show thesis by metis
qed

lemma commit_defect_moves:
  assumes ok: "db_ok db" and c: "commit_defect at q m db = Inr db'"
  shows "db' = db \<or> moves driver_move q db db'"
proof (cases "get_run db q")
  case None
  with c show ?thesis by (simp add: commit_defect_def)
next
  case (Some r)
  show ?thesis
  proof (cases "drivable r")
    case False
    with c Some show ?thesis by (simp add: commit_defect_def)
  next
    case True
    note act = drivable_driven [OF True]
    have rid: "r_id r = q" using runs.get_id [OF db_okD(1) [OF ok] Some] .
    obtain S where S: "run_shape (xtree_of db) (itree_of db) r S"
      using db_okD(3) [OF ok Some] by (auto simp: run_ok_shape)
    obtain xr where xr: "find_leaf_execution db q = Some xr" "x_id xr = snd (last S)"
      using leaf_of_shape [OF db_okD(1) [OF ok] S act] rid by metis
    show ?thesis
      using moves_failure [OF ok Some act S xr(2), of ExFailed
          "\<lparr>re_stage = StageNodeFunction, re_message = Lit ''Internal error: '' # m, re_graph = None, re_node = None\<rparr>"
          at None db'] c Some True xr
      by (simp add: commit_defect_def)
  qed
qed

section \<open>Parking\<close>

lemma commit_park_moves:
  assumes ok: "db_ok db" and h: "holds db q x" and c: "commit_park at q x db = Inr db'"
  shows "db' = db \<or> moves driver_move q db db'"
proof -
  note wf = db_okD(1) [OF ok]
  obtain xr where xr: "get_execution db x = Some xr" "x_id xr = x"
    using holds_row [OF h wf] by metis
  obtain r where r: "get_run db q = Some r" using h by (auto simp: holds_def)
  show ?thesis
  proof (cases "drivable r")
    case False
    with c xr r show ?thesis by (simp add: commit_park_def)
  next
    case True
    then have nc: "r_status r \<noteq> Cancelled" by (auto simp: drivable_def)
    obtain S where act: "r_status r \<in> parked_or_driven"
      and S: "run_shape (xtree_of db) (itree_of db) r S" "x = snd (last S)"
      using h r nc by (rule holds_top)
    define db1 where "db1 = park_execution at xr db"
    have c': "(if r_status r = Running then update_run at q (\<lambda>r. r\<lparr>r_status := Waiting\<rparr>) db1 else Inr db1) =
        Inr db'"
      using c xr r True by (auto simp: commit_park_def db1_def split: if_splits)
    have un: "unfinished xr" using top_unfinished [OF S(1) act] S(2) xr by simp
    have wf1: "db_wf db1" using wf by (auto simp: db1_def park_execution_def intro!: db_wf_intros)
    have g1: "get_run db1 = get_run db" by (simp add: db1_def park_execution_def)
    have it1: "itree_of db1 = itree_of db" by (simp add: db1_def park_execution_def)
    have xt1: "xtree_of db1 = (xtree_of db)(x \<mapsto> with_status ExWaiting v)"
      if "xtree_of db x = Some v" for v
    proof (cases "x_status xr = ExRunning")
      case True
      have "xtree_of (update_execution x (\<lambda>r. r\<lparr>x_status := ExWaiting\<rparr>) db) =
          (\<lambda>y. if y = x then map_option (with_status ExWaiting) (xtree_of db y) else xtree_of db y)"
        using wf by (rule xtree_update_execution) (simp_all add: view_x_def with_status_def)
      with that True xr(2) show ?thesis by (auto simp: db1_def park_execution_def)
    next
      case False
      with un have "x_status xr = ExWaiting" by (simp add: unfinished_def)
      with that xr False show ?thesis
        by (auto simp: db1_def park_execution_def xtree_of_def view_x_def with_status_def fun_eq_iff)
    qed
    have rid: "r_id r = q" using runs.get_id [OF wf r] .
    show ?thesis
    proof (cases "r_status r = Running")
      case True
      let ?g = "\<lambda>r. r\<lparr>r_status := Waiting, r_updated_at := at\<rparr>"
      have db': "db' = patch_run q ?g db1" using c' True by (simp add: update_run_Inr)
      have g': "get_run db' j = (if j = q then map_option ?g (get_run db j) else get_run db j)" for j
        using runs.get_upd [OF wf1, of ?g q j] by (simp add: db' g1)
      have "moves driver_move q db db'"
        by (rule moves_top [OF ok r act S(1) S(2), of _ "r\<lparr>r_status := Waiting, r_updated_at := at\<rparr>" ExWaiting])
           (use wf1 g' r xt1 it1 True in
             \<open>auto simp: db' parked_or_driven_def intro: move_park intro!: patch_run_wf\<close>)
      then show ?thesis ..
    next
      case False
      with c' have "db' = db1" by simp
      moreover have "moves driver_move q db db1"
        by (rule moves_top [OF ok r act S(1) S(2) wf1, of r ExWaiting])
           (use g1 r xt1 it1 act in \<open>auto intro: move_idle\<close>)
      ultimately show ?thesis by simp
    qed
  qed
qed

end
