(* ===== verification/Commit_Routing.thy ===== *)
theory Commit_Routing
  imports Commit_Moves
begin

text \<open>
  The commits of a driver that change the tree: routing, entering a subgraph, saving a result.
\<close>

section \<open>Stages\<close>

definition graph_stage :: "run_error \<Rightarrow> bool" where
  "graph_stage e = (re_stage e \<noteq> StageEnvironment)"

text \<open>No failure of the pure step is one of preparation.\<close>

definition pure_failure_ok :: "'a computed \<Rightarrow> bool" where
  "pure_failure_ok c = (case c of StepFailed e \<Rightarrow> graph_stage e | _ \<Rightarrow> True)"

lemma pure_failure_ok_simps [simp]:
  "pure_failure_ok (Okay a)" "pure_failure_ok (Threw t)"
  "pure_failure_ok (StepFailed e) = graph_stage e"
  by (simp_all add: pure_failure_ok_def)

lemma pure_failure_failed [simp]:
  "st \<noteq> StageEnvironment \<Longrightarrow> pure_failure_ok (failed st m g n)"
  by (simp add: failed_def graph_stage_def)

lemma pure_failure_on_okay:
  "pure_failure_ok c \<Longrightarrow> (\<And>a. pure_failure_ok (f a)) \<Longrightarrow> pure_failure_ok (on_okay c f)"
  by (cases c) simp_all

lemma pure_failure_require [simp]: "pure_failure_ok (require_row r w)"
  by (cases r) (simp_all add: require_row_def)

lemma chain_decide_stage: "pure_failure_ok (chain_decide i g cur)"
  unfolding chain_decide_def Let_def
  by (cases cur) (auto split: sum.split option.split prod.split bool.split jsval.split)

lemma chain_outcome_stage: "pure_failure_ok (chain_outcome g key to st)"
  by (simp add: chain_outcome_def split: option.split sum.split)

lemma chain_return_stage: "pure_failure_ok (chain_return db art p oc)"
  unfolding chain_return_def Let_def
  by (intro pure_failure_on_okay) (auto split: option.split sum.split)

lemma chain_turn_stage: "pure_failure_ok (chain_turn db art cur)"
  unfolding chain_turn_def Let_def
  by (auto intro!: pure_failure_on_okay chain_decide_stage chain_outcome_stage chain_return_stage
        split: option.split prod.split destination_kind.split)

lemma chain_loop_stage:
  assumes "chain_loop db art cur completed finished = Some c"
  shows "pure_failure_ok c"
proof (rule chain_loop.raw_induct
    [where P = "\<lambda>db art cur completed finished c. pure_failure_ok c", OF _ assms])
  fix loop db art cur completed finished and c :: "chain_plan computed"
  assume IH: "\<And>db art cur completed finished y. loop db art cur completed finished = Some y \<Longrightarrow>
      pure_failure_ok y"
    and body: "(case chain_turn db art cur of
        StepFailed e \<Rightarrow> Some (StepFailed e)
      | Threw t \<Rightarrow> Some (Threw t)
      | Okay (step, turn) \<Rightarrow>
          (case turn of
             ArrivedAt nx \<Rightarrow>
               Some (Okay \<lparr>cp_completed = completed @ [step], cp_finished = finished,
                           cp_next = NextExecution nx\<rparr>)
           | FinishedRun i oc \<Rightarrow>
               Some (Okay \<lparr>cp_completed = completed @ [step], cp_finished = finished @ [(i, oc)],
                           cp_next = RunFinished oc\<rparr>)
           | ReturnedTo i oc cur' \<Rightarrow>
               loop db art cur' (completed @ [step]) (finished @ [(i, oc)]))) = Some c"
  show "pure_failure_ok c"
  proof (cases "chain_turn db art cur")
    case (StepFailed e)
    with body chain_turn_stage [of db art cur] show ?thesis by auto
  next
    case (Threw t)
    with body show ?thesis by auto
  next
    case (Okay st)
    with body IH show ?thesis by (cases st) (auto split: chain_turn.splits)
  qed
qed

lemma compute_chain_stage:
  "compute_chain db art xr u ev = Some (StepFailed e) \<Longrightarrow> re_stage e \<noteq> StageEnvironment"
  unfolding compute_chain_def by (drule chain_loop_stage) (simp add: graph_stage_def)

lemma compute_entry_stage:
  "pure_failure_ok ps \<Longrightarrow> compute_entry g dst d ps = StepFailed e \<Longrightarrow> re_stage e \<noteq> StageEnvironment"
proof -
  assume "pure_failure_ok ps"
  then have "pure_failure_ok (compute_entry g dst d ps)"
    unfolding compute_entry_def
    by (intro pure_failure_on_okay) (auto split: sum.split option.split)
  then show "compute_entry g dst d ps = StepFailed e \<Longrightarrow> ?thesis" by (simp add: graph_stage_def)
qed

lemma subgraph_parameters_stage: "pure_failure_ok (subgraph_parameters n v k i)"
  by (auto simp: subgraph_parameters_def split: graph_node.split sum.split)

section \<open>Routing\<close>

lemma live_frames:
  assumes "stack X I q S" and "top_is live X S" and "(j, y) \<in> set S"
  obtains v where "X y = Some v" "xv_run v = q" "live (xv_status v)"
proof -
  have lk: "linked X I q None S None" using assms(1) by (simp add: stack_def)
  obtain v where v: "X y = Some v" "xv_run v = q"
    using linked_frame(2) [OF lk assms(3)] by blast
  moreover have "live (xv_status v)"
  proof (cases "(j, y) \<in> set (butlast S)")
    case True
    then show ?thesis using linked_inner_child [OF lk] v by fastforce
  next
    case False
    have "S \<noteq> []" using assms(3) by auto
    then have "set S = set (butlast S) \<union> {last S}"
      by (metis append_butlast_last_id list.set(1,2) set_append)
    then have "last S = (j, y)" using False assms(3) by auto
    then show ?thesis using assms(2) v by (auto simp: top_is_def)
  qed
  ultimately show thesis by (rule that)
qed

lemma links_ok_finish:
  assumes links: "links_ok X" and lv: "\<And>x. x \<in> A \<Longrightarrow> \<exists>v. X x = Some v \<and> live (xv_status v)"
  shows "links_ok (finish_all A X)"
  unfolding links_ok_def
proof (intro allI impI)
  fix y w z assume w: "finish_all A X y = Some w \<and> xv_retry w = Some z"
  obtain w' where "X y = Some w'" "xv_retry w' = Some z" "xv_run w' = xv_run w"
    using w by (auto simp: finish_all_def with_status_def split: if_splits)
  then obtain u where u: "X z = Some u" "xv_run u = xv_run w" "broken (xv_status u)"
    using links unfolding links_ok_def by metis
  then have "z \<notin> A" using lv [of z] by (auto simp: live_def broken_def)
  with u show "\<exists>v. finish_all A X z = Some v \<and> xv_run v = xv_run w \<and> broken (xv_status v)"
    by (simp add: finish_all_def)
qed

lemma links_ok_new:
  assumes links: "links_ok X" and e: "X e = None"
    and r: "\<And>x. r = Some x \<Longrightarrow> \<exists>v. X x = Some v \<and> xv_run v = q \<and> broken (xv_status v)"
  shows "links_ok (X(e \<mapsto> new_x q i r))"
  unfolding links_ok_def
proof (intro allI impI)
  fix y w z assume w: "(X(e \<mapsto> new_x q i r)) y = Some w \<and> xv_retry w = Some z"
  have "\<exists>u. X z = Some u \<and> xv_run u = xv_run w \<and> broken (xv_status u)"
  proof (cases "y = e")
    case True
    with w r [of z] show ?thesis by (auto simp: new_x_def)
  next
    case False
    with w links show ?thesis by (auto simp: links_ok_def)
  qed
  then show "\<exists>v. (X(e \<mapsto> new_x q i r)) z = Some v \<and> xv_run v = xv_run w \<and> broken (xv_status v)"
    using e by auto
qed

lemma stack_nil_quiet: "stack X I q [] \<Longrightarrow> quiet X I q"
  by (auto simp: stack_def quiet_def open_at_def)

lemma apply_chain_run:
  assumes app: "apply_chain at run plan db = Inr db'" and wf: "db_wf db"
    and r: "get_run db (r_id run) = Some run"
  shows "j \<noteq> r_id run \<Longrightarrow> get_run db' j = get_run db j"
    and "\<exists>r'. get_run db' (r_id run) = Some r' \<and>
       r_status r' = (case cp_next plan of
          RunFinished _ \<Rightarrow> Completed
        | NextExecution _ \<Rightarrow> if r_status run = Waiting then Running else r_status run)"
proof -
  let ?db2 = "fold (finish_invocation at run) (cp_finished plan)
                (fold (complete_step at run) (cp_completed plan) db)"
  have wf2: "db_wf ?db2" using wf by (auto intro: fold_complete_wf fold_finish_wf)
  have wf3: "db_wf (start_execution at run nx ?db2)" for nx using wf2 by (rule start_execution_wf)
  have g: "get_run (patch_run (r_id run) f d) k =
      (if k = r_id run then map_option f (get_run d k) else get_run d k)"
    if "db_wf d" "\<And>r. r_id (f r) = r_id r" for f d k
    using runs.get_upd [OF that] .
  show "j \<noteq> r_id run \<Longrightarrow> get_run db' j = get_run db j"
    using app by (auto simp: apply_chain_def Let_def map_ok_Inr update_run_Inr g wf2 wf3
        split: chain_next.splits if_splits)
  show "\<exists>r'. get_run db' (r_id run) = Some r' \<and>
       r_status r' = (case cp_next plan of
          RunFinished _ \<Rightarrow> Completed
        | NextExecution _ \<Rightarrow> if r_status run = Waiting then Running else r_status run)"
    using app r by (auto simp: apply_chain_def Let_def map_ok_Inr update_run_Inr g wf2 wf3
        split: chain_next.splits if_splits)
qed

lemma moves_chain:
  assumes ok: "db_ok db" and r: "get_run db q = Some r" and act: "drivable r"
    and sh: "run_shape (xtree_of db) (itree_of db) r S" and x: "x = snd (last S)"
    and xr: "get_execution db x = Some xr"
    and plan: "compute_chain db art xr update event = Some (Okay plan)"
    and app: "apply_chain at r plan db = Inr db'"
  shows "moves driver_move q db db'"
proof -
  note wf = db_okD(1) [OF ok]
  have wf': "db_wf db'" using wf app by (rule wf_after_chain)
  have rid: "r_id r = q" using runs.get_id [OF wf r] .
  have st: "stack (xtree_of db) (itree_of db) q S" "top_is live (xtree_of db) S"
    using sh drivable_driven [OF act] rid by (simp_all add: driven_shape)
  obtain S0 i where S0: "S = S0 @ [(i, x)]"
    using top_split [OF st(2) x] by metis
  obtain S1 S2 where S: "S = S1 @ S2" "S2 \<noteq> []"
    and trees: "case cp_next plan of
       NextExecution nx \<Rightarrow>
         (\<exists>e. xtree_of db e = None \<and>
              xtree_of db' = (finish_all (snd ` set S2) (xtree_of db))
                               (e \<mapsto> new_x q (fst (hd S2)) None) \<and>
              itree_of db' = close_all (fst ` set (tl S2)) (itree_of db))
     | RunFinished oc \<Rightarrow>
         S1 = [] \<and> xtree_of db' = finish_all (snd ` set S2) (xtree_of db) \<and>
         itree_of db' = close_all (fst ` set S2) (itree_of db)"
    using route_trees [OF wf _ xr plan app, of S0 i] st(1) S0 rid by auto
  note run' = apply_chain_run [OF app wf] rid r
  obtain r' where r': "get_run db' q = Some r'"
    and status: "r_status r' = (case cp_next plan of
          RunFinished _ \<Rightarrow> Completed
        | NextExecution _ \<Rightarrow> if r_status r = Waiting then Running else r_status r)"
    using apply_chain_run(2) [OF app wf] rid r by auto
  have other: "get_run db' j = get_run db j" if "j \<noteq> q" for j
    using apply_chain_run(1) [OF app wf] rid r that by simp
  have rid': "r_id r' = q" using runs.get_id [OF wf' r'] .
  have lv: "\<exists>v. xtree_of db y = Some v \<and> xv_run v = q \<and> live (xv_status v)" if y: "y \<in> snd ` set S2" for y
  proof -
    from y obtain j where "(j, y) \<in> set S" using S by force
    then show ?thesis using live_frames [OF st] by metis
  qed
  have links: "links_ok (finish_all (snd ` set S2) (xtree_of db))"
    by (rule links_ok_finish [OF db_okD(2) [OF ok]]) (use lv in blast)
  have fin_other: "(finish_all (snd ` set S2) (xtree_of db) y = Some v) = (xtree_of db y = Some v)"
    if "xv_run v \<noteq> q" for y v
  proof (cases "y \<in> snd ` set S2")
    case True
    with lv [OF True] that show ?thesis by (auto simp: finish_all_def with_status_def)
  next
    case False
    then show ?thesis by (simp add: finish_all_def)
  qed
  have fin_mono: "\<exists>w. finish_all (snd ` set S2) (xtree_of db) y = Some w \<and> xv_run w = xv_run v"
    if "xtree_of db y = Some v" for y v
    using that by (auto simp: finish_all_def with_status_def)
  have inv_run: "\<exists>v. itree_of db j = Some v \<and> iv_run v = q" if "j \<in> fst ` set S" for j
  proof -
    from that obtain y where "(j, y) \<in> set S" by auto
    then show ?thesis using st(1) linked_frame(1) by (fastforce simp: stack_def)
  qed
  have close_other: "(close_all A (itree_of db) j = Some v) = (itree_of db j = Some v)"
    if "iv_run v \<noteq> q" "A \<subseteq> fst ` set S" for A j v
    using that inv_run [of j] by (auto simp: close_all_def subset_iff)
  show ?thesis
  proof (cases "cp_next plan")
    case (NextExecution n)
    then obtain e where e: "xtree_of db e = None"
      and xt: "xtree_of db' = (finish_all (snd ` set S2) (xtree_of db))(e \<mapsto> new_x q (fst (hd S2)) None)"
      and it: "itree_of db' = close_all (fst ` set (tl S2)) (itree_of db)"
      using trees by auto
    let ?T = "S1 @ [(fst (hd S2), e)]"
    have run: "r_status r' = Running" using status NextExecution act by (auto simp: drivable_def)
    have "stack (xtree_of db') (itree_of db') q ?T"
      unfolding xt it using st(1) S e by (intro stack_route) auto
    moreover have "top_is live (xtree_of db') ?T" by (simp add: top_is_def xt new_x_def)
    ultimately have sh': "run_shape (xtree_of db') (itree_of db') r' ?T"
      using run rid' by (simp add: run_shape_def)
    have "driver_move (r_status r, S) (r_status r', ?T)"
      unfolding run S(1) using act S(2) by (intro move_route) (auto simp: drivable_def)
    moreover have "links_ok (xtree_of db')"
      unfolding xt using links e by (intro links_ok_new) auto
    moreover have "(xtree_of db' y = Some v) = (xtree_of db y = Some v)" if "xv_run v \<noteq> q" for y v
      using fin_other [OF that, of y] that e by (auto simp: xt new_x_def)
    moreover have "(itree_of db' j = Some v) = (itree_of db j = Some v)" if "iv_run v \<noteq> q" for j v
      unfolding it using S by (intro close_other [OF that]) (auto dest: list.set_sel(2))
    moreover have "\<exists>w. xtree_of db' y = Some w \<and> xv_run w = xv_run v" if "xtree_of db y = Some v" for y v
      using fin_mono [OF that] that e by (auto simp: xt)
    ultimately show ?thesis
      using wf' other r r' sh sh' unfolding moves_def by blast
  next
    case (RunFinished oc)
    then have S1: "S1 = []" and xt: "xtree_of db' = finish_all (snd ` set S2) (xtree_of db)"
      and it: "itree_of db' = close_all (fst ` set S2) (itree_of db)"
      using trees by auto
    have run: "r_status r' = Completed" using status RunFinished by simp
    have "stack (xtree_of db') (itree_of db') q []"
      unfolding xt it using st(1) S S1 by (intro stack_finish) simp
    then have sh': "run_shape (xtree_of db') (itree_of db') r' []"
      using run rid' by (simp add: run_shape_def stack_nil_quiet)
    have "driver_move (r_status r, S) (r_status r', [])"
      unfolding run using act by (intro move_finish) (auto simp: drivable_def)
    moreover have "links_ok (xtree_of db')" unfolding xt by (rule links)
    moreover have "(xtree_of db' y = Some v) = (xtree_of db y = Some v)" if "xv_run v \<noteq> q" for y v
      using fin_other [OF that, of y] by (simp add: xt)
    moreover have "(itree_of db' j = Some v) = (itree_of db j = Some v)" if "iv_run v \<noteq> q" for j v
      unfolding it using S by (intro close_other [OF that]) auto
    moreover have "\<exists>w. xtree_of db' y = Some w \<and> xv_run w = xv_run v" if "xtree_of db y = Some v" for y v
      using fin_mono [OF that] by (simp add: xt)
    ultimately show ?thesis
      using wf' other r r' sh sh' unfolding moves_def by blast
  qed
qed

lemma record_reply_rows:
  "get_run (record_reply at q x reply db) = get_run db"
  "get_execution (record_reply at q x reply db) = get_execution db"
  "xtree_of (record_reply at q x reply db) = xtree_of db"
  "itree_of (record_reply at q x reply db) = itree_of db"
  by (simp_all add: record_reply_def Let_def split: option.split)

lemma record_reply_wf: "db_wf db \<Longrightarrow> db_wf (record_reply at q x reply db)"
  by (auto simp: record_reply_def Let_def intro!: db_wf_intros split: option.split)

lemma commit_route_moves:
  assumes ok: "db_ok db" and h: "holds db q x"
    and c: "commit_route at art q x event reply db = Some (Inr (b, db'))"
  shows "db' = db \<or> moves driver_move q db db'"
proof -
  note wf = db_okD(1) [OF ok]
  obtain xr where xr: "get_execution db x = Some xr" "x_id xr = x"
    using holds_row [OF h wf] by metis
  obtain r where r: "get_run db q = Some r" using h by (auto simp: holds_def)
  show ?thesis
  proof (cases "\<not> drivable r \<or> \<not> unfinished xr")
    case True
    with c xr r show ?thesis by (auto simp: commit_route_def)
  next
    case False
    then have dr: "drivable r" by simp
    then have nc: "r_status r \<noteq> Cancelled" by (auto simp: drivable_def)
    obtain S where act: "r_status r \<in> parked_or_driven"
      and S: "run_shape (xtree_of db) (itree_of db) r S" "x = snd (last S)"
      using h r nc by (rule holds_top)
    obtain result where result: "x_result xr = Some result"
      using c xr r False by (cases "x_result xr") (auto simp: commit_route_def)
    define db2 where "db2 = (let db1 = record_reply at q x reply db in
        if is_suspend result \<and> x_event xr = None
        then append_event at (draft q (Some x) CatNode WaitDelivered
               ([Lit (x_node_id xr), Lit '': ''] @ describe_event event)
               (DataJson (json_or_null event))) db1
        else db1)"
    have rows: "get_run db2 = get_run db" "get_execution db2 = get_execution db"
      "xtree_of db2 = xtree_of db" "itree_of db2 = itree_of db"
      by (simp_all add: db2_def Let_def record_reply_rows)
    have wf2: "db_wf db2" using wf by (auto simp: db2_def Let_def intro!: record_reply_wf db_wf_intros)
    have ok2: "db_ok db2" by (rule db_ok_same [OF ok wf2 rows(1,3,4)])
    have r2: "get_run db2 q = Some r" and x2: "get_execution db2 x = Some xr"
      using r xr rows by simp_all
    have S2: "run_shape (xtree_of db2) (itree_of db2) r S" using S rows by simp
    have "moves driver_move q db2 db'"
    proof (cases "compute_chain db2 art xr (saved_update_value result) event")
      case None
      with c xr r False result show ?thesis by (simp add: commit_route_def db2_def Let_def)
    next
      case (Some res)
      show ?thesis
      proof (cases res)
        case (Okay plan)
        then have "apply_chain at r plan db2 = Inr db'"
          using c xr r False result Some
          by (auto simp: commit_route_def db2_def Let_def map_ok_Inr split: if_splits)
        then show ?thesis using Some Okay by (intro moves_chain [OF ok2 r2 dr S2 S(2) x2]) auto
      next
        case (StepFailed failure)
        then have ap: "apply_failure at r (Some xr) failure (Some (json_or_null event)) ExFailed db2 = Inr db'"
          using c xr r False result Some
          by (auto simp: commit_route_def db2_def Let_def map_ok_Inr split: if_splits)
        have "re_stage failure \<noteq> StageEnvironment"
          using Some StepFailed by (intro compute_chain_stage) auto
        then show ?thesis
          using ap xr S(2) by (intro moves_failure [OF ok2 r2 act S2]) auto
      next
        case (Threw t)
        with c xr r False result Some show ?thesis
          by (auto simp: commit_route_def db2_def Let_def split: if_splits)
      qed
    qed
    then have "moves driver_move q db db'" by (rule moves_before) (rule rows)+
    then show ?thesis ..
  qed
qed

section \<open>Entering a graph\<close>

lemma apply_entry_rows:
  "get_run (apply_entry at run plan p db) = get_run db"
  by (simp add: apply_entry_def Let_def split_beta split: option.split)

lemma apply_entry_wf:
  assumes "db_wf db"
  shows "db_wf (apply_entry at run plan p db)"
  using assms
  by (auto simp: apply_entry_def Let_def split_beta new_invocation_def
        intro!: start_execution_wf db_wf_intros split: option.split)

lemma apply_entry_trees:
  assumes wf: "db_wf db"
  shows "\<exists>c e. itree_of db c = None \<and> xtree_of db e = None \<and>
    itree_of (apply_entry at run plan p db) =
      (itree_of db)(c \<mapsto> \<lparr>iv_run = r_id run, iv_parent = map_option x_id p, iv_status = InvRunning\<rparr>) \<and>
    xtree_of (apply_entry at run plan p db) =
      (case p of None \<Rightarrow> xtree_of db
       | Some x \<Rightarrow> (\<lambda>y. if y = x_id x then map_option (entered c) (xtree_of db y) else xtree_of db y))
      (e \<mapsto> new_x (r_id run) c None)"
proof -
  let ?mk = "new_invocation at (r_id run) (map_option x_id p) (ep_graph_key plan) (ep_depth plan)
               (ep_label plan) (nullish_json (ep_parameters plan))
               (json_or_null (state_value (ep_state plan)))"
  have id: "\<And>n. i_id (?mk n) = n" by (simp add: new_invocation_def)
  define c where "c = i_id (fst (insert_invocation ?mk db))"
  define db1 where "db1 = snd (insert_invocation ?mk db)"
  let ?db2 = "case p of None \<Rightarrow> db1
      | Some x \<Rightarrow> update_execution (x_id x) (\<lambda>r. r\<lparr>x_status := ExWaiting, x_child := Some c\<rparr>) db1"
  have wf1: "db_wf db1" unfolding db1_def using wf by (rule invocations.wf_ins) (rule id)
  have wf2: "db_wf ?db2" using wf1 by (cases p) (auto intro: executions.wf_upd)
  have "view_i (fst (insert_invocation ?mk db)) =
      \<lparr>iv_run = r_id run, iv_parent = map_option x_id p, iv_status = InvRunning\<rparr>"
    by (subst invocations.ins_row [OF id]) (simp add: view_i_def new_invocation_def)
  then have it1: "itree_of db1 = (itree_of db)(c \<mapsto>
      \<lparr>iv_run = r_id run, iv_parent = map_option x_id p, iv_status = InvRunning\<rparr>)"
    using itree_insert_invocation [OF wf id] by (simp add: db1_def c_def)
  have it: "itree_of ?db2 = (itree_of db)(c \<mapsto>
      \<lparr>iv_run = r_id run, iv_parent = map_option x_id p, iv_status = InvRunning\<rparr>)"
    unfolding it1 [symmetric] by (cases p) simp_all
  have xt1: "xtree_of db1 = xtree_of db" by (simp add: db1_def)
  have fresh: "itree_of db c = None" unfolding c_def using wf id by (rule itree_insert_fresh)
  have xt: "xtree_of ?db2 = (case p of None \<Rightarrow> xtree_of db
       | Some x \<Rightarrow> (\<lambda>y. if y = x_id x then map_option (entered c) (xtree_of db y) else xtree_of db y))"
  proof (cases p)
    case (Some x)
    have "xtree_of (update_execution (x_id x) (\<lambda>r. r\<lparr>x_status := ExWaiting, x_child := Some c\<rparr>) db1) =
        (\<lambda>y. if y = x_id x then map_option (entered c) (xtree_of db1 y) else xtree_of db1 y)"
      using wf1 by (rule xtree_update_execution) (simp_all add: view_x_def entered_def)
    then show ?thesis unfolding Some xt1 by (simp only: option.case)
  qed (simp add: xt1)
  define db3 where "db3 = append_event at (draft (r_id run) (map_option x_id p) CatNode GraphEntered
      [Lit ''Entered '', name_or (ep_label plan) (ep_graph_key plan)]
      (DataEntered c (ep_graph_key plan))) ?db2"
  define nx where "nx = \<lparr>nx_invocation = c, nx_node = ep_node plan, nx_kind = ep_kind plan, nx_visit = 0,
      nx_label = ep_node_label plan\<rparr>"
  have wf3: "db_wf db3" using wf2 by (simp add: db3_def)
  obtain e where e: "xtree_of db3 e = None"
    "xtree_of (start_execution at run nx db3) = (xtree_of db3)(e \<mapsto> new_x (r_id run) c None)"
    "itree_of (start_execution at run nx db3) = itree_of db3"
    using start_execution_tree [OF wf3, of at run nx] by (auto simp: nx_def)
  have "apply_entry at run plan p db = start_execution at run nx db3"
    unfolding apply_entry_def Let_def split_beta db3_def nx_def db1_def c_def by (rule refl)
  moreover have "xtree_of db e = None"
    using e(1) xt by (auto simp: db3_def split: option.splits if_splits)
  ultimately show ?thesis
    using e it xt fresh by (intro exI [of _ c] exI [of _ e]) (simp add: db3_def)
qed

lemma moves_push:
  assumes ok: "db_ok db" and r: "get_run db q = Some r" and act: "drivable r"
    and sh: "run_shape (xtree_of db) (itree_of db) r S" and x: "x_id leaf = snd (last S)"
  shows "moves driver_move q db (apply_entry at r plan (Some leaf) db)"
proof -
  let ?db' = "apply_entry at r plan (Some leaf) db"
  note wf = db_okD(1) [OF ok]
  have wf': "db_wf ?db'" using wf by (rule apply_entry_wf)
  have rid: "r_id r = q" using runs.get_id [OF wf r] .
  have st: "stack (xtree_of db) (itree_of db) q S" "top_is live (xtree_of db) S"
    using sh drivable_driven [OF act] rid by (simp_all add: driven_shape)
  obtain S0 i v where S0: "S = S0 @ [(i, x_id leaf)]" and v: "xtree_of db (x_id leaf) = Some v"
    "live (xv_status v)"
    using st(2) x by (rule top_split)
  have vrun: "xv_run v = q" using stack_last [OF st(1)] S0 v(1) by auto
  obtain c e where fresh: "itree_of db c = None" "xtree_of db e = None"
    and it: "itree_of ?db' = (itree_of db)(c \<mapsto>
        \<lparr>iv_run = q, iv_parent = Some (x_id leaf), iv_status = InvRunning\<rparr>)"
    and xt: "xtree_of ?db' = (xtree_of db)(x_id leaf \<mapsto> entered c v, e \<mapsto> new_x q c None)"
  proof -
    obtain c e where "itree_of db c = None" "xtree_of db e = None"
      "itree_of ?db' = (itree_of db)(c \<mapsto>
        \<lparr>iv_run = q, iv_parent = Some (x_id leaf), iv_status = InvRunning\<rparr>)"
      "xtree_of ?db' = (\<lambda>y. if y = x_id leaf then map_option (entered c) (xtree_of db y)
          else xtree_of db y)(e \<mapsto> new_x q c None)"
      using apply_entry_trees [OF wf, of at r plan "Some leaf"] rid by auto
    moreover have "(\<lambda>y. if y = x_id leaf then map_option (entered c) (xtree_of db y)
          else xtree_of db y) = (xtree_of db)(x_id leaf \<mapsto> entered c v)"
      using v by auto
    ultimately show thesis using that by simp
  qed
  let ?T = "S0 @ [(i, x_id leaf), (c, e)]"
  have ne: "x_id leaf \<noteq> e" using v fresh by auto
  have "stack (xtree_of ?db') (itree_of ?db') q ?T"
    unfolding xt it using st(1) S0 fresh v by (intro stack_push) auto
  moreover have "top_is live (xtree_of ?db') ?T" by (simp add: top_is_def xt new_x_def)
  ultimately have sh': "run_shape (xtree_of ?db') (itree_of ?db') r ?T"
    using rid drivable_driven [OF act] by (simp add: driven_shape)
  have "driver_move (r_status r, S) (r_status r, ?T)"
    unfolding S0 using act by (intro move_push) (auto simp: drivable_def)
  moreover have "links_ok (xtree_of ?db')"
  proof -
    have "links_ok ((xtree_of db)(x_id leaf \<mapsto> entered c v))"
      using db_okD(2) [OF ok] v by (rule links_ok_status) (simp_all add: entered_def)
    then show ?thesis unfolding xt using fresh ne by (intro links_ok_new) auto
  qed
  moreover have "(xtree_of ?db' y = Some w) = (xtree_of db y = Some w)" if "xv_run w \<noteq> q" for y w
    using that v vrun fresh by (auto simp: xt entered_def new_x_def)
  moreover have "(itree_of ?db' j = Some w) = (itree_of db j = Some w)" if "iv_run w \<noteq> q" for j w
    using that fresh by (auto simp: it)
  moreover have "\<exists>w. xtree_of ?db' y = Some w \<and> xv_run w = xv_run u" if "xtree_of db y = Some u" for y u
    using that v vrun fresh by (auto simp: xt entered_def new_x_def)
  moreover have "get_run ?db' = get_run db" by (rule apply_entry_rows)
  ultimately show ?thesis
    using wf' r sh sh' unfolding moves_def by auto
qed

lemma commit_enter_subgraph_moves:
  assumes ok: "db_ok db" and h: "holds db q (x_id leaf)"
    and c: "commit_enter_subgraph at art q leaf db = Inr db'"
  shows "db' = db \<or> moves driver_move q db db'"
proof -
  obtain r where r: "get_run db q = Some r" using h by (auto simp: holds_def)
  show ?thesis
  proof (cases "drivable r")
    case False
    with c r show ?thesis by (simp add: commit_enter_subgraph_def)
  next
    case True
    then have nc: "r_status r \<noteq> Cancelled" by (auto simp: drivable_def)
    obtain S where act: "r_status r \<in> parked_or_driven"
      and S: "run_shape (xtree_of db) (itree_of db) r S" "x_id leaf = snd (last S)"
      using h r nc by (rule holds_top)
    have fails: "moves driver_move q db db'"
      if "apply_failure at r (Some leaf) failure None ExFailed db = Inr db'"
        "re_stage failure \<noteq> StageEnvironment" for failure
      using that by (intro moves_failure [OF ok r act S]) auto
    have pushes: "moves driver_move q db db'" if "Inr (apply_entry at r plan (Some leaf) db) = (Inr db' :: thrown_error + db)"
      for plan
      using that moves_push [OF ok r True S] by auto
    let ?iv = "get_invocation db (x_invocation_id leaf)"
    let ?node = "Option.bind (Option.bind ?iv (\<lambda>i. graph_of art (i_graph_key i)))
                   (\<lambda>g. node_of g (x_node_id leaf))"
    show ?thesis
    proof (cases "\<exists>i lbl key ps onr. ?iv = Some i \<and> ?node = Some (SubNode lbl key ps onr)")
      case False
      then have "\<exists>failure. apply_failure at r (Some leaf) failure None ExFailed db = Inr db' \<and>
          re_stage failure \<noteq> StageEnvironment"
        using c r True
        by (cases ?iv; cases ?node) (auto simp: commit_enter_subgraph_def Let_def split: graph_node.splits)
      with fails show ?thesis by blast
    next
      case sub: True
      then obtain i lbl key ps onr where iv: "?iv = Some i" and node: "?node = Some (SubNode lbl key ps onr)"
        by blast
      have node': "Option.bind (graph_of art (i_graph_key i)) (\<lambda>g. node_of g (x_node_id leaf)) =
          Some (SubNode lbl key ps onr)"
        using node iv by simp
      show ?thesis
      proof (cases "graph_of art key")
        case None
        with c r True iv node' fails show ?thesis by (auto simp: commit_enter_subgraph_def Let_def)
      next
        case (Some child)
        note child = Some
        show ?thesis
        proof (cases "destination_of r")
          case None
          with c r True iv node' child fails show ?thesis
            by (auto simp: commit_enter_subgraph_def Let_def)
        next
          case (Some dst)
          let ?e = "compute_entry child dst (Suc (i_depth i))
                      (subgraph_parameters (SubNode lbl key ps onr) (state_value (state_of (i_state i)))
                         (i_graph_key i) (x_node_id leaf))"
          have c': "(case ?e of Threw t \<Rightarrow> Inl t
              | StepFailed failure \<Rightarrow> apply_failure at r (Some leaf) failure None ExFailed db
              | Okay plan \<Rightarrow> Inr (apply_entry at r plan (Some leaf) db)) = Inr db'"
            using c r True iv node' child Some by (simp add: commit_enter_subgraph_def Let_def)
          show ?thesis
          proof (cases ?e)
            case (StepFailed failure)
            then have "re_stage failure \<noteq> StageEnvironment"
              using subgraph_parameters_stage by (rule compute_entry_stage [rotated])
            with c' StepFailed fails show ?thesis by auto
          qed (use c' pushes in auto)
        qed
      qed
    qed
  qed
qed

section \<open>Saving a result\<close>

text \<open>Writes to an execution that leave its view alone.\<close>

lemma xtree_update_same:
  assumes "db_wf db" and "\<And>r. view_x (f r) = view_x r" and "\<And>r. x_id (f r) = x_id r"
  shows "xtree_of (update_execution x f db) = xtree_of db"
proof -
  have "xtree_of (update_execution x f db) =
      (\<lambda>y. if y = x then map_option id (xtree_of db y) else xtree_of db y)"
    using assms by (intro xtree_update_execution) auto
  then show ?thesis by (auto simp: fun_eq_iff option.map_id)
qed

lemma commit_save_result_moves:
  assumes ok: "db_ok db" and h: "holds db q (x_id leaf)"
    and c: "commit_save_result at key q leaf returned db = Inr db'"
  shows "db' = db \<or>
    db_wf db' \<and> get_run db' = get_run db \<and> xtree_of db' = xtree_of db \<and> itree_of db' = itree_of db \<or>
    moves driver_move q db db'"
proof -
  note wf = db_okD(1) [OF ok]
  obtain xr where xr: "get_execution db (x_id leaf) = Some xr" "x_id xr = x_id leaf"
    using holds_row [OF h wf] by metis
  obtain r where r: "get_run db q = Some r" using h by (auto simp: holds_def)
  show ?thesis
  proof (cases "judge_returned db q returned")
    case (Inr result)
    let ?f = "\<lambda>r. r\<lparr>x_result := Some (stored_result result)\<rparr>"
    have db': "db' = update_execution (x_id xr) ?f db"
      using c r xr Inr by (simp add: commit_save_result_def)
    have "xtree_of db' = xtree_of db"
      unfolding db' using wf by (rule xtree_update_same) (simp_all add: view_x_def)
    moreover have "db_wf db'" unfolding db' using wf by (rule executions.wf_upd) simp
    ultimately show ?thesis by (simp add: db')
  next
    case (Inl m)
    show ?thesis
    proof (cases "x_status xr = ExRunning \<and> r_status r \<noteq> Cancelled")
      case False
      with c r xr Inl show ?thesis by (auto simp: commit_save_result_def)
    next
      case True
      obtain S where act: "r_status r \<in> parked_or_driven"
        and S: "run_shape (xtree_of db) (itree_of db) r S" "x_id leaf = snd (last S)"
        using h r True by (auto elim: holds_top)
      have "apply_failure at r (Some xr)
              \<lparr>re_stage = StageNodeFunction, re_message = m, re_graph = Some key,
               re_node = Some (x_node_id leaf)\<rparr> None ExFailed db = Inr db'"
        using c r xr Inl True by (simp add: commit_save_result_def)
      then have "moves driver_move q db db'"
        using S xr by (intro moves_failure [OF ok r act S(1)]) auto
      then show ?thesis by simp
    qed
  qed
qed

lemma commit_save_checkpoint_rows:
  assumes wf: "db_wf db"
  shows "db_wf (commit_save_checkpoint at q leaf title commit scopes db)"
    and "get_run (commit_save_checkpoint at q leaf title commit scopes db) = get_run db"
    and "xtree_of (commit_save_checkpoint at q leaf title commit scopes db) = xtree_of db"
    and "itree_of (commit_save_checkpoint at q leaf title commit scopes db) = itree_of db"
proof -
  have ins: "db_wf (snd (insert_checkpoint mk db))" "get_run (snd (insert_checkpoint mk db)) = get_run db"
    "xtree_of (snd (insert_checkpoint mk db)) = xtree_of db"
    "itree_of (snd (insert_checkpoint mk db)) = itree_of db"
    if "\<And>n. c_id (mk n) = n" for mk
    using wf that
    by (auto simp: insert_checkpoint_def db_wf_def split_beta xtree_of_def itree_of_def fun_eq_iff
        table_defs intro!: tab_laws(3))
  show "db_wf (commit_save_checkpoint at q leaf title commit scopes db)"
    using ins(1) wf
    by (auto simp: commit_save_checkpoint_def Let_def split_beta intro!: db_wf_intros split: option.split)
  show "get_run (commit_save_checkpoint at q leaf title commit scopes db) = get_run db"
    using ins(2) by (auto simp: commit_save_checkpoint_def Let_def split_beta split: option.split)
  show "itree_of (commit_save_checkpoint at q leaf title commit scopes db) = itree_of db"
    using ins(4) by (auto simp: commit_save_checkpoint_def Let_def split_beta split: option.split)
  show "xtree_of (commit_save_checkpoint at q leaf title commit scopes db) = xtree_of db"
    using ins(1,3)
    by (auto simp: commit_save_checkpoint_def Let_def split_beta xtree_update_same view_x_def
        split: option.split)
qed

end
