(* ===== verification/Control_Moves.thy ===== *)
theory Control_Moves
  imports Commit_Routing
begin

text \<open>
  The commits of launch, preparation and the controls as moves of the run machine, and the restart.
  A commit leaves the rows the machine reads alone, moves one run, or creates one.
\<close>

section \<open>Kinds of commits\<close>

definition same_tree :: "db \<Rightarrow> db \<Rightarrow> bool" where
  "same_tree db db' =
     (db_wf db' \<and> get_run db' = get_run db \<and> xtree_of db' = xtree_of db \<and> itree_of db' = itree_of db)"

definition creates_run :: "db \<Rightarrow> db \<Rightarrow> bool" where
  "creates_run db db' =
     (\<exists>q r. get_run db q = None \<and> get_run db' = (get_run db)(q \<mapsto> r) \<and> r_status r = Preparing \<and>
        db_wf db' \<and> xtree_of db' = xtree_of db \<and> itree_of db' = itree_of db)"

definition machine_commit :: "(run_state \<Rightarrow> run_state \<Rightarrow> bool) \<Rightarrow> db \<Rightarrow> db \<Rightarrow> bool" where
  "machine_commit M db db' = (same_tree db db' \<or> creates_run db db' \<or> (\<exists>q. moves M q db db'))"

lemma same_tree_refl: "db_wf db \<Longrightarrow> same_tree db db"
  by (simp add: same_tree_def)

lemma same_tree_ok: "db_ok db \<Longrightarrow> same_tree db db' \<Longrightarrow> db_ok db'"
  by (rule db_ok_same) (auto simp: same_tree_def)

lemma creates_run_ok:
  assumes ok: "db_ok db" and cr: "creates_run db db'"
  shows "db_ok db'"
proof -
  obtain q r where q: "get_run db q = None" "get_run db' = (get_run db)(q \<mapsto> r)" "r_status r = Preparing"
    "db_wf db'" "xtree_of db' = xtree_of db" "itree_of db' = itree_of db"
    using cr by (auto simp: creates_run_def)
  have "r_id r = q" using q runs.get_id [of db' q r] by simp
  then have "run_ok (xtree_of db') (itree_of db') r"
    using db_okD(4,5) [OF ok] q by (force simp: run_ok_def no_tree_def)
  with ok q show ?thesis by (force simp: db_ok_def)
qed

lemma machine_commit_ok: "db_ok db \<Longrightarrow> machine_commit M db db' \<Longrightarrow> db_ok db'"
  by (auto simp: machine_commit_def intro: same_tree_ok creates_run_ok moves_ok)

text \<open>The shape a run is in, from the invariant.\<close>

lemma shape_of:
  assumes "db_ok db" and "get_run db q = Some r"
  obtains S where "run_shape (xtree_of db) (itree_of db) r S"
  using db_okD(3) [OF assms] by (auto simp: run_ok_shape)

text \<open>A write to the run row that keeps its status and error.\<close>

lemma stays:
  assumes up: "update_run at q f db = Inr db'" and ok: "db_ok db" and id: "\<And>r. r_id (f r) = r_id r"
    and st: "\<And>r. r_status (f r) = r_status r" and er: "\<And>r. r_error (f r) = r_error r"
  shows "moves control_move q db db'"
proof -
  obtain r where r: "get_run db q = Some r" using up by (cases "get_run db q") (auto simp: update_run_def)
  obtain S where S: "run_shape (xtree_of db) (itree_of db) r S" using ok r by (rule shape_of)
  have "run_shape (xtree_of db) (itree_of db) (f r) S"
    using S run_shape_cong [of "f r" r] id st er by simp
  then show ?thesis
    using moves_update_run [OF up ok id r S] by (simp add: st move_stay)
qed

lemma stays_patch:
  assumes ok: "db_ok db" and id: "\<And>r. r_id (f r) = r_id r"
    and st: "\<And>r. r_status (f r) = r_status r" and er: "\<And>r. r_error (f r) = r_error r"
  shows "machine_commit control_move db (patch_run q f db)"
proof (cases "get_run db q")
  case None
  have "get_run (patch_run q f db) = get_run db"
    using runs.get_upd [OF db_okD(1) [OF ok] id, of q] None by (auto simp: fun_eq_iff)
  then show ?thesis
    using patch_run_wf [OF db_okD(1) [OF ok] id] by (simp add: machine_commit_def same_tree_def)
next
  case (Some r)
  obtain S where S: "run_shape (xtree_of db) (itree_of db) r S" using ok Some by (rule shape_of)
  have S': "run_shape (xtree_of db) (itree_of db) (f r) S"
    using S run_shape_cong [of "f r" r] id st er by simp
  have "moves control_move q db (patch_run q f db)"
    by (rule moves_patch_run [OF ok id Some S S']) (simp add: st move_stay)
  then show ?thesis by (auto simp: machine_commit_def)
qed

section \<open>Launch and preparation\<close>

lemma launched_row_id: "r_id (launched_row at l n) = n"
  by (simp add: launched_row_def)

lemma commit_launch_machine:
  assumes ok: "db_ok db" and c: "commit_launch at projects l db = (res, db')"
  shows "machine_commit control_move db db'"
proof -
  let ?ins = "insert_run (launched_row at l) db"
  define run where "run = fst ?ins"
  define db1 where "db1 = snd ?ins"
  note wf = db_okD(1) [OF ok]
  have wf1: "db_wf db1" unfolding db1_def using wf launched_row_id by (rule runs.wf_ins)
  have trees: "xtree_of db1 = xtree_of db" "itree_of db1 = itree_of db"
    by (simp_all add: db1_def insert_run_def split_beta fun_eq_iff xtree_of_def itree_of_def
        get_execution_def get_invocation_def)
  have g: "get_run db1 = (get_run db)(r_id run \<mapsto> run)"
    using runs.get_ins [OF wf launched_row_id] by (auto simp: fun_eq_iff run_def db1_def)
  have fresh: "get_run db (r_id run) = None"
    unfolding run_def using wf launched_row_id by (rule runs.get_fresh)
  have st: "r_status run = Preparing"
    unfolding run_def by (subst runs.ins_row [OF launched_row_id]) (simp add: launched_row_def)
  have "creates_run db (append_event at d db1)" for d
    unfolding creates_run_def using fresh g st wf1 trees
    by (intro exI [of _ "r_id run"] exI [of _ run]) simp
  moreover have "db' = db \<or> (\<exists>d. db' = append_event at d db1)"
    using c by (auto simp: commit_launch_def Let_def split_beta db1_def split: if_splits option.splits)
  ultimately show ?thesis
    using same_tree_refl [OF wf] by (auto simp: machine_commit_def)
qed

lemmas event_of = environment_event_def run_event_def

lemma stays_with_events:
  assumes "map_ok g (update_run at q f db) = Inr db'" and "db_ok db" and "\<And>r. r_id (f r) = r_id r"
    and "\<And>r. r_status (f r) = r_status r" and "\<And>r. r_error (f r) = r_error r"
    and "\<And>d. moves control_move q db d \<Longrightarrow> moves control_move q db (g d)"
  shows "moves control_move q db db'"
  using assms stays [of at q f db] by (auto simp: map_ok_Inr)

lemma commit_worktree_created_moves:
  "commit_worktree_created at q w path branch base ok' db = Inr db' \<Longrightarrow> db_ok db \<Longrightarrow>
     moves control_move q db db'"
  unfolding commit_worktree_created_def
  by (rule stays_with_events, assumption+) (simp_all add: event_of moves_event)

lemma commit_surface_created_moves:
  "commit_surface_created at q sf title db = Inr db' \<Longrightarrow> db_ok db \<Longrightarrow> moves control_move q db db'"
  unfolding commit_surface_created_def
  by (rule stays_with_events, assumption+) (simp_all add: event_of moves_event)

lemma same_tree_event: "db_wf db \<Longrightarrow> same_tree db (append_event at d db)"
  by (simp add: same_tree_def)

lemma commit_setup_machine:
  assumes "commit_setup at q fin db = Inr db'" and "db_ok db"
  shows "machine_commit control_move db db'"
proof (cases fin)
  case True
  then obtain db1 m where up: "update_run at q (\<lambda>r. r\<lparr>r_setup_done := True\<rparr>) db = Inr db1"
    and db': "db' = environment_event at q SetupFinished m NoData db1"
    using assms(1) by (auto simp: commit_setup_def map_ok_Inr)
  have "moves control_move q db db1" by (rule stays [OF up assms(2)]) simp_all
  then have "moves control_move q db db'" by (simp add: db' event_of moves_event)
  then show ?thesis by (auto simp: machine_commit_def)
next
  case False
  then show ?thesis
    using assms db_okD(1) [OF assms(2)]
    by (auto simp: commit_setup_def event_of machine_commit_def intro!: same_tree_event)
qed

text \<open>A failed preparation, by preparation or by a restart.\<close>

lemma fail_preparation_moves:
  assumes f: "fail_preparation at q m d db = Inr db'" and ok: "db_ok db"
    and r: "get_run db q = Some r" and st: "r_status r = Preparing"
  shows "moves control_move q db db'"
proof -
  obtain S where S: "run_shape (xtree_of db) (itree_of db) r S" using ok r by (rule shape_of)
  then have S': "S = []" "no_tree (xtree_of db) (itree_of db) (r_id r)"
    using st by (simp_all add: run_shape_def)
  let ?f = "\<lambda>r. r\<lparr>r_status := Failed, r_error := Some (environment_error m), r_ended_at := Some at\<rparr>"
  obtain db1 where up: "update_run at q ?f db = Inr db1"
    and db': "db' = append_event at (draft q None CatRun RunFailed m (DataStage StageEnvironment))
                (environment_event at q PreparationFailed m d db1)"
    using f by (auto simp: fail_preparation_def map_ok_Inr)
  have "moves control_move q db db1"
    by (rule moves_update_run [OF up ok _ r S, of "[]"])
       (use S' st in \<open>auto simp: run_shape_def intro: move_preparation_failed\<close>)
  then show ?thesis by (auto simp: db' event_of)
qed

lemma commit_preparation_failed_machine:
  assumes c: "commit_preparation_failed at q m db = Inr db'" and ok: "db_ok db"
  shows "machine_commit control_move db db'"
proof (cases "\<exists>r. get_run db q = Some r \<and> r_status r = Preparing")
  case True
  then obtain r where r: "get_run db q = Some r" "r_status r = Preparing" by blast
  then have "fail_preparation at q m (DataMessage m) db = Inr db'"
    using c by (simp add: commit_preparation_failed_def)
  then have "moves control_move q db db'" using ok r by (rule fail_preparation_moves)
  then show ?thesis by (auto simp: machine_commit_def)
next
  case False
  then have "db' = db" using c by (auto simp: commit_preparation_failed_def split: option.splits if_splits)
  then show ?thesis using same_tree_refl [OF db_okD(1) [OF ok]] by (simp add: machine_commit_def)
qed

section \<open>Entering the root\<close>

lemma no_root_yet:
  assumes wf: "db_wf db" and none: "no_tree (xtree_of db) (itree_of db) q"
  shows "find_root_invocation db q = None"
proof -
  have "i_run_id i \<noteq> q" if "i \<in> set (all_invocations db)" for i
  proof -
    have "get_invocation db (i_id i) = Some i" using wf that by (rule invocations.listed_get)
    then have "itree_of db (i_id i) = Some (view_i i)" by (simp add: itree_of_def)
    with none have "iv_run (view_i i) \<noteq> q" unfolding no_tree_def by blast
    then show ?thesis by (simp add: view_i_def)
  qed
  then show ?thesis by (auto simp: find_root_invocation_def list_invocations_def find_None_iff)
qed

lemma apply_failure_none_Inr:
  assumes "apply_failure at run None failure ev st db = Inr db'" and "db_wf db"
  shows "\<exists>db1 d. update_run at (r_id run) (\<lambda>r. r\<lparr>r_status := Failed, r_error := Some failure,
           r_ended_at := Some at\<rparr>) db = Inr db1 \<and> db' = append_event at d db1"
  using assms by (auto simp: apply_failure_def Let_def map_ok_Inr)

lemma moves_root:
  assumes ok: "db_ok db" and r: "get_run db q = Some r" and st: "r_status r = Preparing"
    and up: "update_run at q (\<lambda>r. r\<lparr>r_status := Running\<rparr>) db = Inr db1"
  shows "moves control_move q db (apply_entry at r plan None db1)"
proof -
  note wf = db_okD(1) [OF ok]
  have rid: "r_id r = q" using runs.get_id [OF wf r] .
  obtain S where "run_shape (xtree_of db) (itree_of db) r S" using ok r by (rule shape_of)
  then have S: "run_shape (xtree_of db) (itree_of db) r []" and none: "no_tree (xtree_of db) (itree_of db) q"
    using st rid by (auto simp: run_shape_def)
  let ?g = "\<lambda>r. r\<lparr>r_status := Running, r_updated_at := at\<rparr>"
  let ?db' = "apply_entry at r plan None db1"
  have db1: "db1 = patch_run q ?g db" using up by (simp add: update_run_Inr)
  have wf1: "db_wf db1" unfolding db1 using wf by (rule patch_run_wf) simp
  have wf': "db_wf ?db'" using wf1 by (rule apply_entry_wf)
  have g1: "get_run db1 j = (if j = q then map_option ?g (get_run db j) else get_run db j)" for j
    unfolding db1 using wf by (rule runs.get_upd) simp
  have g': "get_run ?db' = get_run db1" by (rule apply_entry_rows)
  have tr1: "xtree_of db1 = xtree_of db" "itree_of db1 = itree_of db" by (simp_all add: db1 itree_of_def fun_eq_iff)
  obtain c e where fresh: "itree_of db c = None" "xtree_of db e = None"
    and it: "itree_of ?db' = (itree_of db)(c \<mapsto> \<lparr>iv_run = q, iv_parent = None, iv_status = InvRunning\<rparr>)"
    and xt: "xtree_of ?db' = (xtree_of db)(e \<mapsto> new_x q c None)"
    using apply_entry_trees [OF wf1, of at r plan None] rid tr1 by auto
  have "stack (xtree_of ?db') (itree_of ?db') q [(c, e)]"
    unfolding it xt using none by (intro stack_root) (auto simp: no_tree_def)
  then have sh': "run_shape (xtree_of ?db') (itree_of ?db') (?g r) [(c, e)]"
    using rid by (simp add: run_shape_def top_is_def xt new_x_def)
  have "links_ok (xtree_of ?db')"
    unfolding xt using db_okD(2) [OF ok] fresh by (intro links_ok_new) auto
  moreover have "control_move (r_status r, []) (r_status (?g r), [(c, e)])"
    using st by (simp add: move_enter_root)
  moreover have "get_run ?db' q = Some (?g r)" using g' g1 [of q] r by simp
  moreover have "get_run ?db' j = get_run db j" if "j \<noteq> q" for j using g' g1 [of j] that by simp
  moreover have "(xtree_of ?db' y = Some w) = (xtree_of db y = Some w)" if "xv_run w \<noteq> q" for y w
    using that fresh by (auto simp: xt new_x_def)
  moreover have "(itree_of ?db' j = Some w) = (itree_of db j = Some w)" if "iv_run w \<noteq> q" for j w
    using that fresh by (auto simp: it)
  moreover have "\<exists>w. xtree_of ?db' y = Some w \<and> xv_run w = xv_run u" if "xtree_of db y = Some u" for y u
    using that fresh by (auto simp: xt)
  ultimately show ?thesis
    using wf' r S sh' unfolding moves_def by blast
qed

lemma commit_enter_root_machine:
  assumes ok: "db_ok db" and c: "commit_enter_root at art q db = Inr db'"
  shows "machine_commit control_move db db'"
proof -
  note wf = db_okD(1) [OF ok]
  obtain r where r: "get_run db q = Some r"
    using c by (cases "get_run db q") (auto simp: commit_enter_root_def)
  have rid: "r_id r = q" using runs.get_id [OF wf r] .
  show ?thesis
  proof (cases "r_status r = Preparing")
    case False
    with c r same_tree_refl [OF wf] show ?thesis by (simp add: commit_enter_root_def machine_commit_def)
  next
    case True
    obtain S where S: "run_shape (xtree_of db) (itree_of db) r S" using ok r by (rule shape_of)
    then have S': "S = []" and none: "no_tree (xtree_of db) (itree_of db) q"
      using True rid by (simp_all add: run_shape_def)
    have root: "find_root_invocation db q = None" using wf none by (rule no_root_yet)
    define plan where "plan = (case destination_of r of
           None \<Rightarrow> failed StageGraphInit (no_destination r) (Some (g_key (art_root art))) None
         | Some dst \<Rightarrow> compute_entry (art_root art) dst 0 (Okay (stored_parameters (r_parameters r))))"
    have c': "(case plan of
           Threw t \<Rightarrow> Inl t
         | StepFailed failure \<Rightarrow> apply_failure at r None failure None ExFailed db
         | Okay p \<Rightarrow> map_ok (apply_entry at r p None)
             (update_run at q (\<lambda>r. r\<lparr>r_status := Running\<rparr>) db)) = Inr db'"
      using c r True root by (simp add: commit_enter_root_def plan_def Let_def)
    show ?thesis
    proof (cases plan)
      case (Threw t)
      with c' show ?thesis by simp
    next
      case (StepFailed failure)
      then obtain db1 d where up: "update_run at q (\<lambda>r. r\<lparr>r_status := Failed, r_error := Some failure,
           r_ended_at := Some at\<rparr>) db = Inr db1" and db': "db' = append_event at d db1"
        using c' apply_failure_none_Inr [of at r failure None ExFailed db db'] wf rid by auto
      have "moves control_move q db db1"
        by (rule moves_update_run [OF up ok _ r S, of "[]"])
           (use S' none rid True in \<open>auto simp: run_shape_def intro: move_preparation_failed\<close>)
      then show ?thesis by (auto simp: db' machine_commit_def)
    next
      case (Okay p)
      then obtain db1 where "update_run at q (\<lambda>r. r\<lparr>r_status := Running\<rparr>) db = Inr db1"
        and "db' = apply_entry at r p None db1"
        using c' by (auto simp: map_ok_Inr)
      then have "moves control_move q db db'" using moves_root [OF ok r True] by simp
      then show ?thesis by (auto simp: machine_commit_def)
    qed
  qed
qed

section \<open>Pause, Resume, Retry\<close>

lemma require_run_Inr: "(require_run db q = Inr r) = (get_run db q = Some r)"
  by (simp add: require_run_def split: option.split)

lemma refuse_Inr [simp]: "(refuse q c = Inr a) = False"
  by (simp add: refuse_def)

text \<open>A change of the run row that the machine does not see, before a move.\<close>

lemma moves_after_patch:
  assumes m: "moves M q db1 db2" and t: "xtree_of db1 = xtree_of db" "itree_of db1 = itree_of db"
    and r: "get_run db q = Some r" "get_run db1 q = Some r1"
    and same: "r_id r1 = r_id r" "r_status r1 = r_status r" "r_error r1 = r_error r"
    and others: "\<forall>j. j \<noteq> q \<longrightarrow> get_run db1 j = get_run db j"
  shows "moves M q db db2"
proof -
  have "run_shape (xtree_of db1) (itree_of db1) r1 S = run_shape (xtree_of db) (itree_of db) r S" for S
    using run_shape_cong [of r1 r] same t by simp
  then show ?thesis using m r t same others by (auto simp: moves_def)
qed

lemma switch_build_effect:
  assumes sw: "switch_build at r hash db = Inr db1" and ok: "db_ok db" and r: "get_run db q = Some r"
  obtains r1 where "db_ok db1" "xtree_of db1 = xtree_of db" "itree_of db1 = itree_of db"
    "get_run db1 q = Some r1" "r_id r1 = r_id r" "r_status r1 = r_status r" "r_error r1 = r_error r"
    "\<forall>j. j \<noteq> q \<longrightarrow> get_run db1 j = get_run db j"
proof (cases "hash = r_artifact_hash r")
  case True
  with sw have "db1 = db" by (simp add: switch_build_def)
  with ok r that show thesis by simp
next
  case False
  note wf = db_okD(1) [OF ok]
  have rid: "r_id r = q" using runs.get_id [OF wf r] .
  let ?f = "\<lambda>r. r\<lparr>r_artifact_hash := hash\<rparr>"
  let ?g = "\<lambda>r. r\<lparr>r_artifact_hash := hash, r_updated_at := at\<rparr>"
  obtain db0 d where up: "update_run at q ?f db = Inr db0" and db1: "db1 = append_event at d db0"
    using sw False rid by (auto simp: switch_build_def map_ok_Inr run_event_def)
  have db0: "db0 = patch_run q ?g db" using up by (simp add: update_run_Inr)
  have g: "get_run db1 j = (if j = q then map_option ?g (get_run db j) else get_run db j)" for j
    using runs.get_upd [OF wf, of ?g q j] by (simp add: db1 db0)
  have "db_ok db0" using up ok by (rule update_run_harmless) simp_all
  then have "db_ok db1" by (simp add: db1)
  moreover have "xtree_of db1 = xtree_of db" "itree_of db1 = itree_of db"
    by (simp_all add: db1 db0 itree_of_def fun_eq_iff)
  ultimately show thesis
    using g r by (intro that [of "?g r"]) auto
qed

lemma pause_moves:
  assumes c: "pause at q db = Inr db'" and ok: "db_ok db"
  shows "moves control_move q db db'"
proof -
  obtain r db1 where r: "get_run db q = Some r" and dr: "drivable r"
    and up: "update_run at q (\<lambda>r. r\<lparr>r_status := Paused\<rparr>) db = Inr db1"
    and db': "db' = run_event at q RunPaused ''Paused'' (DataReason ''control'') db1"
    using c by (auto simp: pause_def and_then_Inr require_run_Inr map_ok_Inr split: if_splits)
  obtain S where S: "run_shape (xtree_of db) (itree_of db) r S" using ok r by (rule shape_of)
  have "moves control_move q db db1"
    by (rule moves_update_run [OF up ok _ r S, of S])
       (use S dr in \<open>auto simp: run_shape_def drivable_def intro: move_pause\<close>)
  then show ?thesis by (simp add: db' run_event_def moves_event)
qed

lemma commit_resume_moves:
  assumes c: "commit_resume at q hash db = Inr db'" and ok: "db_ok db"
  shows "moves control_move q db db'"
proof -
  obtain r db1 db2 where r: "get_run db q = Some r" and st: "r_status r = Paused"
    and sw: "switch_build at r hash db = Inr db1"
    and up: "update_run at q (\<lambda>r. r\<lparr>r_status := Running\<rparr>) db1 = Inr db2"
    and db': "db' = run_event at q RunResumed ''Resumed'' NoData db2"
    using c by (auto simp: commit_resume_def and_then_Inr require_run_Inr map_ok_Inr split: if_splits)
  obtain r1 where ok1: "db_ok db1" and t: "xtree_of db1 = xtree_of db" "itree_of db1 = itree_of db"
    and r1: "get_run db1 q = Some r1"
    and same: "r_id r1 = r_id r" "r_status r1 = r_status r" "r_error r1 = r_error r"
    and others: "\<forall>j. j \<noteq> q \<longrightarrow> get_run db1 j = get_run db j"
    by (rule switch_build_effect [OF sw ok r])
  obtain S where S: "run_shape (xtree_of db1) (itree_of db1) r1 S" using ok1 r1 by (rule shape_of)
  have "moves control_move q db1 db2"
    by (rule moves_update_run [OF up ok1 _ r1 S, of S])
       (use S st same in \<open>auto simp: run_shape_def intro: move_resume\<close>)
  then have "moves control_move q db db2" using t r r1 same others by (rule moves_after_patch)
  then show ?thesis by (simp add: db' run_event_def moves_event)
qed

text \<open>A Retry prepares again exactly when nothing was entered yet.\<close>

lemma no_environment_root:
  assumes wf: "db_wf db" and sh: "run_shape (xtree_of db) (itree_of db) r S" and st: "r_status r = Failed"
  shows "retry_prepares r db = (S = [])"
proof (cases "S = []")
  case True
  then have "no_tree (xtree_of db) (itree_of db) (r_id r)"
    using sh st by (auto simp: run_shape_def top_is_def)
  then show ?thesis using True no_root_yet [OF wf] by (simp add: retry_prepares_def)
next
  case False
  then have stk: "stack (xtree_of db) (itree_of db) (r_id r) S" and ne: "no_environment_error r"
    using sh st by (auto simp: run_shape_def)
  obtain i x T where S: "S = (i, x) # T" using False by (metis list.exhaust surj_pair)
  then have "itree_of db i = Some \<lparr>iv_run = r_id r, iv_parent = None, iv_status = InvRunning\<rparr>"
    using stk by (simp add: stack_def)
  then obtain iv where "get_invocation db i = Some iv" "i_run_id iv = r_id r" "i_parent iv = None"
    by (auto simp: itree_of_def view_i_def)
  then have "find_root_invocation db (r_id r) \<noteq> None"
    using invocations.get_listed [OF wf] unfolding find_root_invocation_def find_None_iff by blast
  then show ?thesis using False ne by (auto simp: retry_prepares_def no_environment_error_def split: option.split)
qed

lemma retry_admitted_Inr:
  "(retry_admitted q db = Inr b) =
     (\<exists>r. get_run db q = Some r \<and> r_status r = Failed \<and> b = retry_prepares r db \<and>
        (b \<or> r_surface_id r \<noteq> None))"
  by (auto simp: retry_admitted_def and_then_Inr require_run_Inr Let_def)

lemma commit_retry_preparation_moves:
  assumes adm: "retry_admitted q db = Inr True"
    and c: "commit_retry_preparation at q hash db = Inr db'" and ok: "db_ok db"
  shows "moves control_move q db db'"
proof -
  obtain r db1 db2 where r: "get_run db q = Some r" and st: "r_status r = Failed"
    and sw: "switch_build at r hash db = Inr db1"
    and up: "update_run at q (\<lambda>r. r\<lparr>r_status := Preparing, r_error := None, r_ended_at := None\<rparr>) db1 = Inr db2"
    and db': "db' = run_event at q RunRetried ''Retrying preparation'' NoData db2"
    using c by (auto simp: commit_retry_preparation_def and_then_Inr require_run_Inr map_ok_Inr split: if_splits)
  obtain r1 where ok1: "db_ok db1" and t: "xtree_of db1 = xtree_of db" "itree_of db1 = itree_of db"
    and r1: "get_run db1 q = Some r1"
    and same: "r_id r1 = r_id r" "r_status r1 = r_status r" "r_error r1 = r_error r"
    and others: "\<forall>j. j \<noteq> q \<longrightarrow> get_run db1 j = get_run db j"
    by (rule switch_build_effect [OF sw ok r])
  obtain S where S0: "run_shape (xtree_of db) (itree_of db) r S" using ok r by (rule shape_of)
  have S: "run_shape (xtree_of db1) (itree_of db1) r1 S"
    using S0 run_shape_cong [of r1 r] same t by simp
  have "retry_prepares r db" using adm r by (simp add: retry_admitted_Inr)
  then have "S = []" using no_environment_root [OF db_okD(1) [OF ok] S0 st] by simp
  have "moves control_move q db1 db2"
    by (rule moves_update_run [OF up ok1 _ r1 S, of "[]"])
       (use S st same \<open>S = []\<close> in \<open>auto simp: run_shape_def top_is_def intro: move_prepare_again\<close>)
  then have "moves control_move q db db2" using t r r1 same others by (rule moves_after_patch)
  then show ?thesis by (simp add: db' run_event_def moves_event)
qed

lemma moves_retry:
  assumes ok: "db_ok db" and r: "get_run db q = Some r" and st: "r_status r = Failed"
    and sh: "run_shape (xtree_of db) (itree_of db) r (S0 @ [(i, x)])"
    and mk: "\<And>n. x_id (mk n) = n" "\<And>n. view_x (mk n) = new_x q i (Some x)"
    and up: "update_run at q (\<lambda>r. r\<lparr>r_status := Running, r_error := None, r_ended_at := None\<rparr>)
               (snd (insert_execution mk db)) = Inr db'"
  shows "moves control_move q db db'"
proof -
  note wf = db_okD(1) [OF ok]
  have rid: "r_id r = q" using runs.get_id [OF wf r] .
  define db2 where "db2 = snd (insert_execution mk db)"
  define e where "e = x_id (fst (insert_execution mk db))"
  have wf2: "db_wf db2" unfolding db2_def using wf mk(1) by (rule executions.wf_ins)
  have e: "xtree_of db e = None" unfolding e_def using wf mk(1) by (rule xtree_insert_fresh)
  have "view_x (fst (insert_execution mk db)) = new_x q i (Some x)"
    by (subst executions.ins_row [OF mk(1)]) (rule mk(2))
  then have xt2: "xtree_of db2 = (xtree_of db)(e \<mapsto> new_x q i (Some x))"
    using xtree_insert_execution [OF wf mk(1)] by (simp add: db2_def e_def)
  have it2: "itree_of db2 = itree_of db" and g2: "get_run db2 = get_run db" by (simp_all add: db2_def)
  let ?g = "\<lambda>r. r\<lparr>r_status := Running, r_error := None, r_ended_at := None, r_updated_at := at\<rparr>"
  have db': "db' = patch_run q ?g db2" using up by (simp add: update_run_Inr db2_def)
  have wf': "db_wf db'" unfolding db' using wf2 by (rule patch_run_wf) simp
  have g': "get_run db' j = (if j = q then map_option ?g (get_run db j) else get_run db j)" for j
    using runs.get_upd [OF wf2, of ?g q j] by (simp add: db' g2)
  have xt: "xtree_of db' = (xtree_of db)(e \<mapsto> new_x q i (Some x))" and it: "itree_of db' = itree_of db"
    using xt2 it2 by (simp_all add: db' itree_of_def fun_eq_iff)
  have stk: "stack (xtree_of db) (itree_of db) q (S0 @ [(i, x)])"
    and "top_is broken (xtree_of db) (S0 @ [(i, x)])"
    using sh st rid by (simp_all add: run_shape_def)
  then obtain v where v: "xtree_of db x = Some v" "broken (xv_status v)" by (auto simp: top_is_def)
  have vrun: "xv_run v = q" using stack_last [OF stk] v(1) by auto
  have "stack (xtree_of db') (itree_of db') q (S0 @ [(i, e)])"
    unfolding xt it using stk v e by (rule stack_retry)
  then have sh': "run_shape (xtree_of db') (itree_of db') (?g r) (S0 @ [(i, e)])"
    using rid by (simp add: run_shape_def top_is_def xt new_x_def)
  have "links_ok (xtree_of db')"
    unfolding xt using db_okD(2) [OF ok] e v vrun by (intro links_ok_new) auto
  moreover have "control_move (r_status r, S0 @ [(i, x)]) (r_status (?g r), S0 @ [(i, e)])"
    using st by (simp add: move_retry)
  moreover have "get_run db' q = Some (?g r)" using g' [of q] r by simp
  moreover have "get_run db' j = get_run db j" if "j \<noteq> q" for j using g' [of j] that by simp
  moreover have "(xtree_of db' y = Some w) = (xtree_of db y = Some w)" if "xv_run w \<noteq> q" for y w
    using that e by (auto simp: xt new_x_def)
  moreover have "\<exists>w. xtree_of db' y = Some w \<and> xv_run w = xv_run u" if "xtree_of db y = Some u" for y u
    using that e by (auto simp: xt)
  ultimately show ?thesis
    using wf' r sh sh' it unfolding moves_def by auto
qed

lemma commit_retry_moves:
  assumes adm: "retry_admitted q db = Inr False" and tgt: "find_retry_target db q = Some target"
    and c: "commit_retry at q hash target db = Inr db'" and ok: "db_ok db"
  shows "moves control_move q db db'"
proof -
  define mk where "mk = new_execution at q (x_invocation_id target) (x_node_id target)
                    (x_node_kind target) (x_visit_index target) (x_label target) hash
                    (Some (x_id target)) (x_result target)
                    (if user_wait (x_result target) then x_event target else None)
                    (x_checkpoint target)"
  obtain r db1 db2 d1 d2 where r: "get_run db q = Some r" and st: "r_status r = Failed"
    and sw: "switch_build at r hash db = Inr db1"
    and up: "update_run at q (\<lambda>r. r\<lparr>r_status := Running, r_error := None, r_ended_at := None\<rparr>)
               (snd (insert_execution mk db1)) = Inr db2"
    and db': "db' = append_event at d1 (append_event at d2 db2)"
    using c by (auto simp: commit_retry_def and_then_Inr require_run_Inr map_ok_Inr Let_def split_beta
        mk_def split: if_splits)
  obtain r1 where ok1: "db_ok db1" and t: "xtree_of db1 = xtree_of db" "itree_of db1 = itree_of db"
    and r1: "get_run db1 q = Some r1"
    and same: "r_id r1 = r_id r" "r_status r1 = r_status r" "r_error r1 = r_error r"
    and others: "\<forall>j. j \<noteq> q \<longrightarrow> get_run db1 j = get_run db j"
    by (rule switch_build_effect [OF sw ok r])
  note wf = db_okD(1) [OF ok]
  have rid: "r_id r = q" using runs.get_id [OF wf r] .
  obtain S where S: "run_shape (xtree_of db) (itree_of db) r S" using ok r by (rule shape_of)
  have "\<not> retry_prepares r db" using adm r by (simp add: retry_admitted_Inr)
  then have "S \<noteq> []" using no_environment_root [OF wf S st] by simp
  then have stk: "stack (xtree_of db) (itree_of db) q S" and top: "top_is broken (xtree_of db) S"
    using S st rid by (auto simp: run_shape_def)
  define x where "x = snd (last S)"
  have "stack_with broken (xtree_of db) (itree_of db) q x"
    using stk top by (auto simp: stack_with_top x_def)
  then obtain xr where xr: "find_retry_target db q = Some xr" "x_id xr = x" "get_execution db x = Some xr"
    by (rule retry_target_is_top [OF wf])
  with tgt have tx: "x_id target = x" "get_execution db x = Some target" by auto
  obtain v where v: "xtree_of db x = Some v" "xv_inv v = fst (last S)"
    using stack_last [OF stk \<open>S \<noteq> []\<close>] by (auto simp: x_def)
  then have inv': "x_invocation_id target = fst (last S)" using tx by (auto simp: xtree_of_def view_x_def)
  have split: "S = butlast S @ [(fst (last S), x)]" using \<open>S \<noteq> []\<close> by (simp add: x_def)
  have "run_shape (xtree_of db1) (itree_of db1) r1 (butlast S @ [(fst (last S), x)])"
    using S run_shape_cong [of r1 r] same t split by simp
  moreover have "view_x (mk n) = new_x q (fst (last S)) (Some x)" "x_id (mk n) = n" for n
    using inv' tx(1) by (simp_all add: mk_def new_execution_def view_x_def new_x_def)
  ultimately have "moves control_move q db1 db2"
    using moves_retry [OF ok1 r1 _ _ _ _ up] st same by simp
  then have "moves control_move q db db2" using t r r1 same others by (rule moves_after_patch)
  then show ?thesis by (simp add: db' moves_event)
qed

end
