(* ===== verification/Cancel_Restart.thy ===== *)
theory Cancel_Restart
  imports Control_Moves
begin

text \<open>
  Cancel, Dismiss, Advance and the restart as moves of the run machine. Cancel and the restart write
  many rows in one transaction; each loop is read off the rows by \<open>get_fold_upd\<close>.
\<close>

section \<open>Cancel\<close>

lemma cancel_executions_wf: "db_wf db \<Longrightarrow> db_wf (cancel_executions at q db)"
  unfolding cancel_executions_def by (rule executions.wf_fold_upd) simp_all

lemma cancel_invocations_wf: "db_wf db \<Longrightarrow> db_wf (cancel_invocations at q db)"
  unfolding cancel_invocations_def by (rule invocations.wf_fold_upd) simp_all

lemma fold_update_execution_tables:
  "get_run (fold (\<lambda>x. if P x then update_execution (k x) f else id) xs db) = get_run db"
  "get_invocation (fold (\<lambda>x. if P x then update_execution (k x) f else id) xs db) = get_invocation db"
  "all_invocations (fold (\<lambda>x. if P x then update_execution (k x) f else id) xs db) = all_invocations db"
  "all_operations (fold (\<lambda>x. if P x then update_execution (k x) f else id) xs db) = all_operations db"
  by (induction xs arbitrary: db) simp_all

lemma fold_update_invocation_tables:
  "get_run (fold (\<lambda>x. if P x then update_invocation (k x) f else id) xs db) = get_run db"
  "get_execution (fold (\<lambda>x. if P x then update_invocation (k x) f else id) xs db) = get_execution db"
  "all_operations (fold (\<lambda>x. if P x then update_invocation (k x) f else id) xs db) = all_operations db"
  by (induction xs arbitrary: db) simp_all

definition cancel_x :: "nat \<Rightarrow> xtree \<Rightarrow> xtree" where
  "cancel_x q X x = map_option
     (\<lambda>v. if xv_run v = q \<and> live (xv_status v) then with_status ExCancelled v else v) (X x)"

definition cancel_i :: "nat \<Rightarrow> itree \<Rightarrow> itree" where
  "cancel_i q I i = map_option
     (\<lambda>v. if iv_run v = q \<and> iv_status v = InvRunning then v\<lparr>iv_status := InvCancelled\<rparr> else v) (I i)"

lemma cancel_executions_tree:
  assumes wf: "db_wf db"
  shows "xtree_of (cancel_executions at q db) = cancel_x q (xtree_of db)"
proof
  fix x
  let ?f = "\<lambda>r. r\<lparr>x_status := ExCancelled, x_ended_at := Some at\<rparr>"
  have g: "get_execution (cancel_executions at q db) x =
      (if \<exists>r \<in> set (list_executions db q). unfinished r \<and> x_id r = x
       then map_option ?f (get_execution db x) else get_execution db x)"
    unfolding cancel_executions_def by (rule executions.get_fold_upd [OF wf]) simp_all
  show "xtree_of (cancel_executions at q db) x = cancel_x q (xtree_of db) x"
  proof (cases "get_execution db x")
    case None
    then show ?thesis by (simp add: xtree_of_def cancel_x_def g)
  next
    case (Some r)
    have id: "x_id r = x" using executions.get_id [OF wf Some] .
    have "(\<exists>s \<in> set (list_executions db q). unfinished s \<and> x_id s = x) = (x_run_id r = q \<and> unfinished r)"
      using Some id listed_execution [OF wf] by (metis option.inject)
    then show ?thesis
      using Some by (auto simp: xtree_of_def cancel_x_def g unfinished_view view_x_def with_status_def)
  qed
qed

lemma cancel_invocations_tree:
  assumes wf: "db_wf db"
  shows "itree_of (cancel_invocations at q db) = cancel_i q (itree_of db)"
proof
  fix i
  let ?f = "\<lambda>r. r\<lparr>i_status := InvCancelled, i_ended_at := Some at\<rparr>"
  have g: "get_invocation (cancel_invocations at q db) i =
      (if \<exists>r \<in> set (list_invocations db q). i_status r = InvRunning \<and> i_id r = i
       then map_option ?f (get_invocation db i) else get_invocation db i)"
    unfolding cancel_invocations_def by (rule invocations.get_fold_upd [OF wf]) simp_all
  have listed: "(r \<in> set (list_invocations db q)) =
      (get_invocation db (i_id r) = Some r \<and> i_run_id r = q)" for r
    using invocations.get_iff [OF wf, of "i_id r" r] by (auto simp: list_invocations_def)
  show "itree_of (cancel_invocations at q db) i = cancel_i q (itree_of db) i"
  proof (cases "get_invocation db i")
    case None
    then show ?thesis by (simp add: itree_of_def cancel_i_def g)
  next
    case (Some r)
    have id: "i_id r = i" using invocations.get_id [OF wf Some] .
    have "(\<exists>s \<in> set (list_invocations db q). i_status s = InvRunning \<and> i_id s = i) =
        (i_run_id r = q \<and> i_status r = InvRunning)"
      using Some id listed by (metis option.inject)
    then show ?thesis
      using Some by (auto simp: itree_of_def cancel_i_def g view_i_def)
  qed
qed

lemma fold_settle_tables:
  assumes "\<And>r w. o_id (f r w) = o_id w" and "db_wf db"
  shows "db_wf (fold (\<lambda>r. if P r then settle_operation at (o_id r) st (f r) else id) xs db)"
    and "get_run (fold (\<lambda>r. if P r then settle_operation at (o_id r) st (f r) else id) xs db) = get_run db"
    and "xtree_of (fold (\<lambda>r. if P r then settle_operation at (o_id r) st (f r) else id) xs db) = xtree_of db"
    and "itree_of (fold (\<lambda>r. if P r then settle_operation at (o_id r) st (f r) else id) xs db) = itree_of db"
proof -
  have it: "itree_of (settle_operation at i st g d) = itree_of d" for i g d
    by (simp add: itree_of_def fun_eq_iff)
  show "db_wf (fold (\<lambda>r. if P r then settle_operation at (o_id r) st (f r) else id) xs db)"
    using assms(2) by (induction xs arbitrary: db) (simp_all add: settle_operation_wf assms(1))
  show "get_run (fold (\<lambda>r. if P r then settle_operation at (o_id r) st (f r) else id) xs db) = get_run db"
    by (induction xs arbitrary: db) simp_all
  show "xtree_of (fold (\<lambda>r. if P r then settle_operation at (o_id r) st (f r) else id) xs db) = xtree_of db"
    by (induction xs arbitrary: db) simp_all
  show "itree_of (fold (\<lambda>r. if P r then settle_operation at (o_id r) st (f r) else id) xs db) = itree_of db"
    by (induction xs arbitrary: db) (simp_all add: it)
qed

lemma cancel_x_Some:
  "(cancel_x q X x = Some w) =
     (\<exists>v. X x = Some v \<and>
        w = (if xv_run v = q \<and> live (xv_status v) then with_status ExCancelled v else v))"
  by (cases "X x") (auto simp: cancel_x_def)

lemma cancel_i_Some:
  "(cancel_i q I i = Some w) =
     (\<exists>v. I i = Some v \<and>
        w = (if iv_run v = q \<and> iv_status v = InvRunning then v\<lparr>iv_status := InvCancelled\<rparr> else v))"
  by (cases "I i") (auto simp: cancel_i_def)

lemma with_status_fields [simp]:
  "xv_run (with_status s v) = xv_run v" "xv_status (with_status s v) = s"
  "xv_retry (with_status s v) = xv_retry v"
  by (simp_all add: with_status_def)

lemma cancelled_quiet: "quiet (cancel_x q X) (cancel_i q I) q"
  unfolding quiet_def cancel_x_Some cancel_i_Some
  by (intro conjI allI impI; elim conjE exE) (simp_all split: if_splits)

lemma links_ok_cancel:
  assumes "links_ok X"
  shows "links_ok (cancel_x q X)"
  unfolding links_ok_def
proof (intro allI impI)
  fix y w z assume w: "cancel_x q X y = Some w \<and> xv_retry w = Some z"
  obtain w' where "X y = Some w'" "xv_retry w' = Some z" "xv_run w' = xv_run w"
    using w unfolding cancel_x_Some by (auto split: if_splits)
  then obtain u where u: "X z = Some u" "xv_run u = xv_run w" "broken (xv_status u)"
    using assms unfolding links_ok_def by metis
  then show "\<exists>v. cancel_x q X z = Some v \<and> xv_run v = xv_run w \<and> broken (xv_status v)"
    by (auto simp: cancel_x_Some live_def broken_def)
qed

lemma cancel_moves:
  assumes c: "cancel at q db = Inr db'" and ok: "db_ok db"
  shows "moves control_move q db db'"
proof -
  note wf = db_okD(1) [OF ok]
  define db3 where "db3 = cancel_headless at q (cancel_invocations at q (cancel_executions at q db))"
  let ?f = "\<lambda>r. r\<lparr>r_status := Cancelled, r_ended_at := Some at\<rparr>"
  let ?g = "\<lambda>r. r\<lparr>r_status := Cancelled, r_ended_at := Some at, r_updated_at := at\<rparr>"
  obtain r db4 where r: "get_run db q = Some r" and st: "r_status r \<in> {Preparing, Running, Waiting, Paused, Failed}"
    and up: "update_run at q ?f db3 = Inr db4"
    and db': "db' = run_event at q RunCancelled ''Cancelled'' NoData db4"
    using c by (auto simp: cancel_def and_then_Inr require_run_Inr map_ok_Inr db3_def split: if_splits)
  have wf2: "db_wf (cancel_invocations at q (cancel_executions at q db))"
    using wf by (intro cancel_invocations_wf cancel_executions_wf)
  have keep: "o_id (row\<lparr>o_result := Some cancelled_record\<rparr>) = o_id row" for row by simp
  note settled = fold_settle_tables [of "\<lambda>r row. row\<lparr>o_result := Some cancelled_record\<rparr>", OF keep wf2]
  have wf3: "db_wf db3" unfolding db3_def cancel_headless_def by (rule settled(1))
  have g3: "get_run db3 = get_run db"
    unfolding db3_def cancel_headless_def settled(2)
    by (simp add: cancel_invocations_def cancel_executions_def fold_update_invocation_tables
        fold_update_execution_tables)
  have "xtree_of (cancel_invocations at q d) = xtree_of d" for d
    by (simp add: cancel_invocations_def fun_eq_iff xtree_of_def fold_update_invocation_tables)
  then have xt3: "xtree_of db3 = cancel_x q (xtree_of db)"
    unfolding db3_def cancel_headless_def settled(3) using cancel_executions_tree [OF wf] by simp
  have "itree_of (cancel_executions at q db) = itree_of db"
    by (simp add: cancel_executions_def fun_eq_iff itree_of_def fold_update_execution_tables)
  then have it3: "itree_of db3 = cancel_i q (itree_of db)"
    unfolding db3_def cancel_headless_def settled(4)
    using cancel_invocations_tree [OF cancel_executions_wf [OF wf]] by simp
  have db4: "db4 = patch_run q ?g db3" using up by (simp add: update_run_Inr)
  have wf4: "db_wf db4" unfolding db4 using wf3 by (rule patch_run_wf) simp
  have g4: "get_run db4 j = (if j = q then map_option ?g (get_run db j) else get_run db j)" for j
    using runs.get_upd [OF wf3, of ?g q j] by (simp add: db4 g3)
  have xt: "xtree_of db4 = cancel_x q (xtree_of db)" using xt3 by (simp add: db4)
  have it: "itree_of db4 = cancel_i q (itree_of db)" using it3 by (simp add: db4 itree_of_def fun_eq_iff)
  have rid: "r_id r = q" using runs.get_id [OF wf r] .
  obtain S where S: "run_shape (xtree_of db) (itree_of db) r S" using ok r by (rule shape_of)
  have sh': "run_shape (xtree_of db4) (itree_of db4) (?g r) []"
    using rid by (simp add: run_shape_def xt it cancelled_quiet)
  have "links_ok (xtree_of db4)" unfolding xt using db_okD(2) [OF ok] by (rule links_ok_cancel)
  moreover have "control_move (r_status r, S) (r_status (?g r), [])"
    using st by (auto intro: move_cancel)
  moreover have "get_run db4 q = Some (?g r)" using g4 [of q] r by simp
  moreover have "get_run db4 j = get_run db j" if "j \<noteq> q" for j using g4 [of j] that by simp
  moreover have "(xtree_of db4 y = Some w) = (xtree_of db y = Some w)" if "xv_run w \<noteq> q" for y w
    using that unfolding xt cancel_x_Some by (auto split: if_splits)
  moreover have "(itree_of db4 j = Some w) = (itree_of db j = Some w)" if "iv_run w \<noteq> q" for j w
    using that unfolding it cancel_i_Some by (auto split: if_splits)
  moreover have "\<exists>w. xtree_of db4 y = Some w \<and> xv_run w = xv_run u" if "xtree_of db y = Some u" for y u
    using that unfolding xt cancel_x_Some by simp
  ultimately have "moves control_move q db db4"
    using wf4 r S sh' unfolding moves_def by blast
  then show ?thesis by (simp add: db' run_event_def moves_event)
qed

section \<open>Dismiss, Advance, operations\<close>

lemma dismiss_moves:
  assumes c: "dismiss at q db = Inr db'" and ok: "db_ok db"
  shows "moves control_move q db db'"
proof -
  obtain d db1 where up: "update_run at q (\<lambda>r. r\<lparr>r_surface_id := None\<rparr>) db = Inr db1"
    and db': "db' = run_event at q RunDismissed ''Dismissed'' d db1"
    using c by (auto simp: dismiss_def and_then_Inr map_ok_Inr split: if_splits)
  have "moves control_move q db db1" by (rule stays [OF up ok]) simp_all
  then show ?thesis by (simp add: db' run_event_def moves_event)
qed

lemma advance_Inr:
  assumes "advance at q x answers db = Inr db'"
  obtains r xr w event m where "get_run db q = Some r" "r_status r \<in> {Running, Waiting, Paused}"
    "answerable_wait db q x = Some (xr, w)" "user_event w answers = Inr (Some event)"
    "db' = append_event at (draft q (Some (x_id xr)) CatNode WaitDelivered m (DataJson (json_or_null event)))
             (update_execution (x_id xr) (\<lambda>r. r\<lparr>x_event := Some (json_or_null event)\<rparr>) db)"
proof -
  from assms obtain r where r: "get_run db q = Some r" "r_status r \<in> {Running, Waiting, Paused}"
    by (auto simp: advance_def and_then_Inr require_run_Inr split: if_splits)
  from assms r obtain xr w where xw: "answerable_wait db q x = Some (xr, w)"
    by (cases "answerable_wait db q x") (auto simp: advance_def require_run_def)
  from assms r xw obtain event where ev: "user_event w answers = Inr (Some event)"
    by (cases "user_event w answers")
       (auto simp: advance_def require_run_def split: option.splits)
  show thesis
    by (rule that [OF r xw ev]) (use assms r xw ev in \<open>auto simp: advance_def require_run_def\<close>)
qed

lemma advance_same_tree:
  assumes c: "advance at q x answers db = Inr db'" and wf: "db_wf db"
  shows "same_tree db db'"
proof -
  let ?u = "\<lambda>i e. update_execution i (\<lambda>r. r\<lparr>x_event := e\<rparr>) db"
  have "same_tree db (?u i e)" for i e
  proof -
    have "db_wf (?u i e)" using wf by (rule executions.wf_upd) simp
    moreover have "xtree_of (?u i e) = xtree_of db"
      using wf by (rule xtree_update_same) (simp_all add: view_x_def)
    moreover have "itree_of (?u i e) = itree_of db" by (simp add: itree_of_def fun_eq_iff)
    ultimately show ?thesis by (simp add: same_tree_def)
  qed
  then have *: "same_tree db (append_event at d (?u i e))" for i e d
    by (simp add: same_tree_def itree_of_def)
  from c show ?thesis by (rule advance_Inr) (simp add: *)
qed

lemma itree_operations [simp]:
  "itree_of (update_operation i f db) = itree_of db"
  "itree_of (settle_operation at i st f db) = itree_of db"
  "itree_of (append_event at d db) = itree_of db"
  by (simp_all add: itree_of_def fun_eq_iff)

lemma put_operation_tables [simp]:
  "get_run (snd (put_operation mk db)) = get_run db"
  "get_execution (snd (put_operation mk db)) = get_execution db"
  "get_invocation (snd (put_operation mk db)) = get_invocation db"
  by (simp_all add: fun_eq_iff table_defs split_beta)

lemma insert_operation_same_tree:
  assumes "db_wf db"
  shows "same_tree db (snd (insert_operation at d db))"
proof -
  let ?mk = "\<lambda>i. \<lparr>o_id = i, o_run_id = od_run d, o_execution_id = od_execution d,
            o_seq = next_seq db (od_execution d), o_kind = od_kind d,
            o_agent_session_id = od_agent_session_id d, o_pane_id = od_pane_id d,
            o_harness = od_harness d, o_model = od_model d, o_effort = od_effort d,
            o_request = od_request d, o_status = OpRunning, o_response_text = None,
            o_result = None, o_harness_session_id = None, o_usage = None,
            o_started_at = at, o_ended_at = None\<rparr>"
  have "db_wf (snd (put_operation ?mk db))" using assms by (rule operations.wf_ins) simp
  then show ?thesis
    by (simp add: insert_operation_def split_beta same_tree_def xtree_of_def itree_of_def fun_eq_iff)
qed

lemma insert_artifact_same_tree: "db_wf db \<Longrightarrow> same_tree db (insert_artifact a db)"
  by (simp add: insert_artifact_def same_tree_def db_wf_def table_defs fun_eq_iff xtree_of_def itree_of_def)

lemma update_operation_same_tree:
  "db_wf db \<Longrightarrow> (\<And>r. o_id (f r) = o_id r) \<Longrightarrow> same_tree db (update_operation i f db)"
  unfolding same_tree_def by (auto intro: operations.wf_upd)

lemma settle_operation_same_tree:
  "db_wf db \<Longrightarrow> (\<And>r. o_id (f r) = o_id r) \<Longrightarrow> same_tree db (settle_operation at i st f db)"
  unfolding same_tree_def by (auto intro: settle_operation_wf)

lemma call_patch_id [simp]: "o_id (call_patch v r) = o_id r"
  by (cases v) (simp_all add: call_patch_def)

lemma commit_operation_started_same_tree:
  "db_wf db \<Longrightarrow> commit_operation_started at d db = (res, db') \<Longrightarrow> same_tree db db'"
  using insert_operation_same_tree [of db at d]
  by (auto simp: commit_operation_started_def split_beta same_tree_refl split: if_splits)

lemma operation_commits_same_tree:
  assumes "db_wf db"
  shows "same_tree db (commit_operation_session i pane session db)"
    and "same_tree db (commit_operation_failed at i cause db)"
    and "same_tree db (commit_operation_completed at i v db)"
    and "same_tree db (commit_log at r x level m db)"
    and "same_tree db (commit_ui_feedback at r x f db)"
    and "same_tree db (commit_headless_settled at i timed_out captured ex db)"
    and "same_tree db (commit_stop_failed at t p why m db)"
  using assms
  by (simp_all add: commit_operation_session_def commit_operation_failed_def commit_operation_completed_def
      commit_log_def commit_ui_feedback_def commit_headless_settled_def commit_stop_failed_def Let_def
      update_operation_same_tree settle_operation_same_tree same_tree_event same_tree_refl)

text \<open>Every commit that is not a driver's is a control move of one run, makes a run, or is neither.\<close>

lemma control_step_machine:
  assumes "control_step db db'" and ok: "db_ok db"
  shows "machine_commit control_move db db'"
proof -
  note wf = db_okD(1) [OF ok]
  have same: "same_tree db db' \<Longrightarrow> ?thesis" and move: "\<And>q. moves control_move q db db' \<Longrightarrow> ?thesis"
    by (auto simp: machine_commit_def)
  from assms(1) show ?thesis
  proof (cases rule: control_step.cases)
    case launch_step
    then show ?thesis using commit_launch_machine [OF ok] by simp
  next
    case artifact_step
    then show ?thesis using insert_artifact_same_tree [OF wf] same by simp
  next
    case worktree_created_step
    then show ?thesis using commit_worktree_created_moves ok move by blast
  next
    case setup_done_step
    then show ?thesis using commit_setup_machine ok by blast
  next
    case surface_created_step
    then show ?thesis using commit_surface_created_moves ok move by blast
  next
    case preparation_failed_step
    then show ?thesis using commit_preparation_failed_machine ok by blast
  next
    case enter_root_step
    then show ?thesis using commit_enter_root_machine ok by blast
  next
    case pause_step
    then show ?thesis using pause_moves ok move by blast
  next
    case resume_step
    then show ?thesis using commit_resume_moves ok move by blast
  next
    case retry_preparation_step
    then show ?thesis using commit_retry_preparation_moves ok move by blast
  next
    case retry_step
    then show ?thesis using commit_retry_moves ok move by blast
  next
    case cancel_step
    then show ?thesis using cancel_moves ok move by blast
  next
    case dismiss_step
    then show ?thesis using dismiss_moves ok move by blast
  next
    case advance_step
    then show ?thesis using advance_same_tree wf same by blast
  next
    case (surface_deleted_step r)
    then show ?thesis using stays_patch [OF ok, of "\<lambda>row. row\<lparr>r_surface_id := None\<rparr>" r] by simp
  next
    case operation_started_step
    then show ?thesis using commit_operation_started_same_tree [OF wf] same by blast
  next
    case operation_session_step
    then show ?thesis using operation_commits_same_tree(1) [OF wf] same by simp
  next
    case operation_failed_step
    then show ?thesis using operation_commits_same_tree(2) [OF wf] same by simp
  next
    case operation_completed_step
    then show ?thesis using operation_commits_same_tree(3) [OF wf] same by simp
  next
    case log_step
    then show ?thesis using operation_commits_same_tree(4) [OF wf] same by simp
  next
    case ui_feedback_step
    then show ?thesis using operation_commits_same_tree(5) [OF wf] same by simp
  qed
qed

end
