(* ===== verification/Engine_Invariant.thy ===== *)
theory Engine_Invariant
  imports Cancel_Restart
begin

text \<open>
  The invariant of the whole engine: every run is in the shape of its status, and what a driver
  holds between its read and its commit is still its run's leaf. It is proved for every interleaving
  of drivers, controls and restarts.
\<close>

section \<open>Commits about other runs\<close>

definition apart :: "nat \<Rightarrow> db \<Rightarrow> db \<Rightarrow> bool" where
  "apart q db db' =
     (get_run db' q = get_run db q \<and>
      (\<forall>x v. xv_run v = q \<longrightarrow> (xtree_of db' x = Some v) = (xtree_of db x = Some v)) \<and>
      (\<forall>i v. iv_run v = q \<longrightarrow> (itree_of db' i = Some v) = (itree_of db i = Some v)))"

definition refines :: "(run_state \<Rightarrow> run_state \<Rightarrow> bool) \<Rightarrow> nat \<Rightarrow> db \<Rightarrow> db \<Rightarrow> bool" where
  "refines M q db db' =
     (\<exists>r r' S S'. get_run db q = Some r \<and> get_run db' q = Some r' \<and>
        run_shape (xtree_of db) (itree_of db) r S \<and> run_shape (xtree_of db') (itree_of db') r' S' \<and>
        M (r_status r, S) (r_status r', S'))"

lemma apart_refl: "apart q db db"
  by (simp add: apart_def)

lemma apart_trans: "apart q a b \<Longrightarrow> apart q b c \<Longrightarrow> apart q a c"
  by (simp add: apart_def)

lemma moves_apart: "moves M q db db' \<Longrightarrow> p \<noteq> q \<Longrightarrow> apart p db db'"
  by (auto simp: moves_def apart_def)

lemma moves_refines: "moves M q db db' \<Longrightarrow> refines M q db db'"
  by (simp add: moves_def refines_def)

lemma refines_mono: "refines M q db db' \<Longrightarrow> (\<And>a b. M a b \<Longrightarrow> N a b) \<Longrightarrow> refines N q db db'"
  unfolding refines_def by blast

lemma same_tree_apart: "same_tree db db' \<Longrightarrow> apart q db db'"
  by (simp add: same_tree_def apart_def)

lemma creates_run_apart: "creates_run db db' \<Longrightarrow> get_run db q \<noteq> None \<Longrightarrow> apart q db db'"
  by (auto simp: creates_run_def apart_def)

lemma top_is_only: "stack X I q S \<Longrightarrow> top_is P (only_x q X) S = top_is P X S"
proof (cases "S = []")
  case False
  assume "stack X I q S"
  then obtain v where "X (snd (last S)) = Some v" "xv_run v = q" using False by (rule stack_last)
  then show ?thesis by (auto simp: top_is_def only_x_def)
qed (simp add: top_is_def)

lemma no_tree_only: "no_tree (only_x q X) (only_i q I) q = no_tree X I q"
  by (auto simp: no_tree_def only_x_Some only_i_Some)

lemma quiet_only: "quiet (only_x q X) (only_i q I) q = quiet X I q"
  by (auto simp: quiet_def only_x_Some only_i_Some)

lemma run_shape_only:
  "run_shape (only_x (r_id r) X) (only_i (r_id r) I) r S = run_shape X I r S"
  by (auto simp: run_shape_def no_tree_only quiet_only stack_only top_is_only split: run_status.split)

lemma apart_shape:
  assumes "apart q db db'" and "r_id r = q"
  shows "run_shape (xtree_of db') (itree_of db') r S = run_shape (xtree_of db) (itree_of db) r S"
proof -
  have "only_x q (xtree_of db') = only_x q (xtree_of db)"
    using assms(1) by (intro only_x_eq) (simp add: apart_def)
  moreover have "only_i q (itree_of db') = only_i q (itree_of db)"
    using assms(1) by (intro only_i_eq) (simp add: apart_def)
  ultimately show ?thesis
    using run_shape_only [of r "xtree_of db'" "itree_of db'" S]
      run_shape_only [of r "xtree_of db" "itree_of db" S] assms(2) by simp
qed

lemma apart_refines:
  assumes "apart q a b" and "refines M q b c" and "db_wf b"
  shows "refines M q a c"
proof -
  obtain r r' S S' where r: "get_run b q = Some r" "get_run c q = Some r'"
    "run_shape (xtree_of b) (itree_of b) r S" "run_shape (xtree_of c) (itree_of c) r' S'"
    "M (r_status r, S) (r_status r', S')"
    using assms(2) by (auto simp: refines_def)
  moreover have "r_id r = q" using runs.get_id [OF assms(3) r(1)] .
  moreover have "get_run a q = Some r" using assms(1) r(1) by (simp add: apart_def)
  ultimately show ?thesis
    using apart_shape [OF assms(1), of r S] unfolding refines_def by blast
qed

lemma refines_apart:
  assumes "refines M q a b" and "apart q b c" and "db_wf b"
  shows "refines M q a c"
proof -
  obtain r r' S S' where r: "get_run a q = Some r" "get_run b q = Some r'"
    "run_shape (xtree_of a) (itree_of a) r S" "run_shape (xtree_of b) (itree_of b) r' S'"
    "M (r_status r, S) (r_status r', S')"
    using assms(1) by (auto simp: refines_def)
  moreover have "r_id r' = q" using runs.get_id [OF assms(3) r(2)] .
  moreover have "get_run c q = Some r'" using assms(2) r(2) by (simp add: apart_def)
  ultimately show ?thesis
    using apart_shape [OF assms(2), of r' S'] unfolding refines_def by blast
qed

text \<open>A run that a commit is not about stays where it is.\<close>

lemma refines_idle:
  assumes "db_ok db" and "get_run db q = Some r" and "apart q db db'" and "\<And>a. M a a"
  shows "refines M q db db'"
proof -
  obtain S where S: "run_shape (xtree_of db) (itree_of db) r S" using assms(1,2) by (rule shape_of)
  have "r_id r = q" using runs.get_id [OF db_okD(1) [OF assms(1)] assms(2)] .
  then show ?thesis
    using assms(2-4) S apart_shape [OF assms(3), of r S] unfolding refines_def by (auto simp: apart_def)
qed

section \<open>What a driver holds stays true\<close>

lemma shape_top_unique:
  assumes "run_shape X I r S" and "run_shape X I r T" and "r_status r \<in> parked_or_driven"
  shows "snd (last S) = snd (last T)"
proof -
  have "stack_with live X I (r_id r) (snd (last S))" "stack_with live X I (r_id r) (snd (last T))"
    using assms by (auto simp: driven_shape stack_with_top)
  then show ?thesis by (rule stack_with_unique)
qed

lemma holds_apart:
  assumes h: "holds db q x" and a: "apart q db db'" and wf: "db_wf db"
  shows "holds db' q x"
proof -
  obtain r where r: "get_run db q = Some r" using h by (auto simp: holds_def)
  then have "r_id r = q" using runs.get_id [OF wf] by blast
  then have "run_shape (xtree_of db') (itree_of db') r S = run_shape (xtree_of db) (itree_of db) r S" for S
    using apart_shape [OF a] by simp
  then show ?thesis using h a r unfolding holds_def by (auto simp: apart_def)
qed

lemma holds_control:
  assumes h: "holds db q x" and m: "moves control_move q db db'"
  shows "holds db' q x"
proof -
  obtain r r' S S' where r: "get_run db q = Some r" and r': "get_run db' q = Some r'"
    and S: "run_shape (xtree_of db) (itree_of db) r S"
    and S': "run_shape (xtree_of db') (itree_of db') r' S'"
    and mv: "control_move (r_status r, S) (r_status r', S')"
    using m by (auto simp: moves_def)
  obtain v where "xtree_of db x = Some v" "xv_run v = q" using h by (auto simp: holds_def)
  then have x: "\<exists>v. xtree_of db' x = Some v \<and> xv_run v = q" using m by (auto simp: moves_def)
  show ?thesis
  proof (cases "r_status r = Cancelled")
    case True
    then have "r_status r' = Cancelled" using mv by (auto elim: control_moveE)
    then show ?thesis using x r' by (simp add: holds_def)
  next
    case False
    then obtain T where T: "r_status r \<in> parked_or_driven"
      "run_shape (xtree_of db) (itree_of db) r T" "x = snd (last T)"
      using h r by (auto elim: holds_top)
    then have "x = snd (last S)" using shape_top_unique [OF S T(2,1)] by simp
    moreover have "r_status r' = Cancelled \<or> r_status r' \<in> parked_or_driven \<and> S' = S"
      using mv T(1) by (auto simp: parked_or_driven_def elim: control_moveE)
    ultimately show ?thesis using x r' S' by (auto simp: holds_def)
  qed
qed

lemma holds_machine:
  assumes h: "holds db q x" and m: "machine_commit control_move db db'" and wf: "db_wf db"
  shows "holds db' q x"
proof -
  have ne: "get_run db q \<noteq> None" using h by (auto simp: holds_def)
  from m consider (same) "same_tree db db'" | (new) "creates_run db db'"
    | (move) p where "moves control_move p db db'"
    by (auto simp: machine_commit_def)
  then show ?thesis
  proof cases
    case same
    then show ?thesis using h wf by (blast intro: holds_apart same_tree_apart)
  next
    case new
    then show ?thesis using h wf ne by (blast intro: holds_apart creates_run_apart)
  next
    case (move p)
    show ?thesis
    proof (cases "p = q")
      case True
      with move h show ?thesis by (auto intro: holds_control)
    next
      case False
      with move h wf show ?thesis by (blast intro: holds_apart moves_apart)
    qed
  qed
qed

text \<open>The leaf a driver finds is one it holds.\<close>

lemma leaf_held:
  assumes ok: "db_ok db" and leaf: "find_leaf_execution db q = Some xr"
  shows "holds db q (x_id xr)"
proof -
  note wf = db_okD(1) [OF ok]
  have mem: "xr \<in> set (list_executions db q)"
    using leaf find_last_Some unfolding find_leaf_execution_def by fastforce
  note view = listed_view [OF wf mem]
  have "get_run db q \<noteq> None" using db_okD(4) [OF ok view(1)] view(2) by simp
  then obtain r where r: "get_run db q = Some r" by blast
  have rid: "r_id r = q" using runs.get_id [OF wf r] .
  obtain S where S: "run_shape (xtree_of db) (itree_of db) r S" using ok r by (rule shape_of)
  have act: "r_status r \<in> parked_or_driven"
  proof (rule ccontr)
    assume "r_status r \<notin> parked_or_driven"
    then have "no_tree (xtree_of db) (itree_of db) q \<or> quiet (xtree_of db) (itree_of db) q \<or>
        (\<exists>x. stack_with broken (xtree_of db) (itree_of db) q x)"
      using S rid
      by (cases "r_status r") (auto simp: run_shape_def parked_or_driven_def stack_with_top)
    with no_leaf_unless_live [OF wf leaf] show False by blast
  qed
  obtain yr where "find_leaf_execution db q = Some yr" "x_id yr = snd (last S)"
    using leaf_of_shape [OF wf S act] rid by metis
  with leaf have "x_id xr = snd (last S)" by simp
  with S act r view show ?thesis by (auto simp: holds_def)
qed

section \<open>The engine's invariant\<close>

fun phase_ok :: "db \<Rightarrow> nat \<Rightarrow> phase \<Rightarrow> bool" where
  "phase_ok db q (GotLeaf run leaf) = holds db q (x_id leaf)"
| "phase_ok db q (Calling run leaf key) = holds db q (x_id leaf)"
| "phase_ok db q (Capturing run leaf) = holds db q (x_id leaf)"
| "phase_ok db q (Checked run leaf chk) = holds db q (x_id leaf)"
| "phase_ok db q p = True"

definition sys_ok :: "sys \<Rightarrow> bool" where
  "sys_ok s = (db_ok (s_db s) \<and> (\<forall>q p. phase_of s q = Some p \<longrightarrow> phase_ok (s_db s) q p))"

lemma phase_ok_step:
  assumes "phase_ok db q p" and "\<And>x. holds db q x \<Longrightarrow> holds db' q x"
  shows "phase_ok db' q p"
  using assms by (cases p) auto

lemma phase_of_updates [simp]:
  "phase_of (with_db db s) q = phase_of s q" "s_db (with_db db s) = db"
  "s_db (set_phase r p s) = s_db s" "s_db (park_driver r s) = s_db s" "s_db (kick r s) = s_db s"
  "phase_of (set_phase r p s) q = (if q = r then map_option (\<lambda>_. p) (phase_of s r) else phase_of s q)"
  by (simp_all add: phase_of_def with_db_def set_phase_def park_driver_def kick_def option.map_comp comp_def)

lemma phase_of_park:
  "phase_of (park_driver r s) q = (if q = r then (if phase_of (park_driver r s) r = None then None else Some AtStart)
     else phase_of s q)"
  by (auto simp: phase_of_def park_driver_def split: option.split)

lemma phase_of_kick:
  "phase_of (kick r s) q = (if q = r \<and> phase_of s r = None then Some AtStart else phase_of s q)"
  by (auto simp: phase_of_def kick_def split: option.split)

text \<open>
  A driver's own commit: the other drivers keep what they hold, and its own phase afterwards asks
  for nothing.
\<close>

lemma sys_ok_own:
  assumes ok: "sys_ok s" and db': "db_ok db'" and a: "\<And>q. q \<noteq> r \<Longrightarrow> apart q (s_db s) db'"
    and db: "s_db s' = db'" and ph: "\<And>q. q \<noteq> r \<Longrightarrow> phase_of s' q = phase_of s q"
    and own: "\<And>p. phase_of s' r = Some p \<Longrightarrow> phase_ok db' r p"
  shows "sys_ok s'"
  unfolding sys_ok_def
proof (intro conjI allI impI)
  show "db_ok (s_db s')" using db db' by simp
  fix q p assume p: "phase_of s' q = Some p"
  show "phase_ok (s_db s') q p"
  proof (cases "q = r")
    case True
    with own p db show ?thesis by simp
  next
    case False
    then have "phase_ok (s_db s) q p" using ok p ph by (simp add: sys_ok_def)
    then show ?thesis
      using holds_apart [OF _ a [OF False]] db_okD(1) ok db
      by (auto simp: sys_ok_def intro: phase_ok_step)
  qed
qed

text \<open>A commit that may have done nothing.\<close>

lemma done_or_moves:
  assumes "db' = db \<or> moves M q db db'" and "db_ok db"
  shows "db_ok db'" and "p \<noteq> q \<Longrightarrow> apart p db db'"
  using assms by (auto intro: moves_ok moves_apart apart_refl)

lemma done_or_refines:
  assumes "db' = db \<or> moves driver_move q db db'" and "db_ok db" and "get_run db p = Some r"
  shows "refines driver_move p db db'"
proof (cases "p = q \<and> db' \<noteq> db")
  case True
  with assms(1) show ?thesis by (auto intro: moves_refines)
next
  case False
  then have "apart p db db'" using assms(1) by (auto intro: apart_refl moves_apart)
  with assms(2,3) show ?thesis by (blast intro: refines_idle move_idle)
qed

lemma same_tree_refines:
  "db_ok db \<Longrightarrow> get_run db p = Some r \<Longrightarrow> same_tree db db' \<Longrightarrow> refines driver_move p db db'"
  by (blast intro: refines_idle same_tree_apart move_idle)

text \<open>
  What a driver step does to the database: nothing, a commit that the machine does not see, or one
  of its own moves.
\<close>

definition driver_effect :: "nat \<Rightarrow> db \<Rightarrow> db \<Rightarrow> bool" where
  "driver_effect r db db' = (same_tree db db' \<or> moves driver_move r db db')"

lemma driver_effect_ok: "db_ok db \<Longrightarrow> driver_effect r db db' \<Longrightarrow> db_ok db'"
  by (auto simp: driver_effect_def intro: same_tree_ok moves_ok)

lemma driver_effect_apart: "driver_effect r db db' \<Longrightarrow> q \<noteq> r \<Longrightarrow> apart q db db'"
  by (auto simp: driver_effect_def intro: same_tree_apart moves_apart)

lemma driver_effect_refines:
  assumes "db_ok db" and "driver_effect r db db'" and "get_run db q = Some row"
  shows "refines driver_move q db db'"
proof -
  from assms(2) consider "same_tree db db'" | "moves driver_move r db db'"
    by (auto simp: driver_effect_def)
  then show ?thesis
  proof cases
    case 1
    with assms show ?thesis by (blast intro: same_tree_refines)
  next
    case 2
    with assms show ?thesis by (intro done_or_refines) auto
  qed
qed

lemma done_effect: "db_ok db \<Longrightarrow> db' = db \<or> moves driver_move r db db' \<Longrightarrow> driver_effect r db db'"
  by (auto simp: driver_effect_def intro: same_tree_refl db_okD(1))

lemma loaded_phase: "sys_ok s \<Longrightarrow> phase_of s r = Some p \<Longrightarrow> phase_ok (s_db s) r p"
  by (simp add: sys_ok_def)

lemma park_phase: "phase_of (park_driver r s) r = Some p \<Longrightarrow> p = AtStart"
  using phase_of_park [of r s r] by (auto split: if_splits)

lemma park_other: "q \<noteq> r \<Longrightarrow> phase_of (park_driver r s) q = phase_of s q"
  using phase_of_park [of r s q] by simp

definition reads_nothing :: "phase \<Rightarrow> bool" where
  "reads_nothing p = (\<forall>db q. phase_ok db q p)"

lemma reads_nothing_simps [simp]: "reads_nothing AtStart" "reads_nothing (GotRun run)" "reads_nothing (Defect m)"
  by (simp_all add: reads_nothing_def)

lemma sys_ok_after:
  assumes ok: "sys_ok s" and e: "driver_effect r (s_db s) db'"
    and s': "s' = park_driver r (with_db db' s) \<or>
             (\<exists>p. s' = set_phase r p (with_db db' s) \<and> phase_ok db' r p)"
  shows "sys_ok s'"
proof -
  have ok': "db_ok (s_db s)" using ok by (simp add: sys_ok_def)
  from s' show ?thesis
  proof
    assume p: "s' = park_driver r (with_db db' s)"
    show ?thesis
      by (rule sys_ok_own [OF ok driver_effect_ok [OF ok' e] driver_effect_apart [OF e]])
         (auto simp: p park_other dest: park_phase)
  next
    assume "\<exists>p. s' = set_phase r p (with_db db' s) \<and> phase_ok db' r p"
    then obtain p where p: "s' = set_phase r p (with_db db' s)" "phase_ok db' r p" by blast
    show ?thesis
      by (rule sys_ok_own [OF ok driver_effect_ok [OF ok' e] driver_effect_apart [OF e]])
         (use p in auto)
  qed
qed

text \<open>Every driver step is one of these.\<close>

definition driver_outcome :: "nat \<Rightarrow> sys \<Rightarrow> sys \<Rightarrow> bool" where
  "driver_outcome r s s' =
     (\<exists>db'. driver_effect r (s_db s) db' \<and> s_db s' = db' \<and>
        (s' = park_driver r (with_db db' s) \<or>
         (\<exists>p. s' = set_phase r p (with_db db' s) \<and> phase_ok db' r p)))"

lemma outcome_parked:
  "driver_effect r (s_db s) db' \<Longrightarrow> driver_outcome r s (park_driver r (with_db db' s))"
  by (auto simp: driver_outcome_def)

lemma outcome_phase:
  "driver_effect r (s_db s) db' \<Longrightarrow> phase_ok db' r p \<Longrightarrow>
     driver_outcome r s (set_phase r p (with_db db' s))"
  by (auto simp: driver_outcome_def)

lemma with_same_db: "with_db (s_db s) s = s"
  by (simp add: with_db_def)

lemma driver_step_outcome:
  assumes st: "driver_step builds r s s'" and ok: "sys_ok s"
  shows "driver_outcome r s s'"
proof -
  have dbok: "db_ok (s_db s)" using ok by (simp add: sys_ok_def)
  note wf = db_okD(1) [OF dbok]
  have idle: "driver_effect r (s_db s) (s_db s)" by (simp add: driver_effect_def same_tree_refl wf)
  note eff = done_effect [OF dbok]
  have parks: "driver_outcome r s (park_driver r s)"
    using outcome_parked [of r s "s_db s"] idle by (simp add: with_same_db)
  have sets: "driver_outcome r s (set_phase r p s)" if "phase_ok (s_db s) r p" for p
    using outcome_phase [of r s "s_db s" p] idle that by (simp add: with_same_db)
  have either: "driver_outcome r s ((if b then park_driver r else set_phase r AtStart) (with_db db' s))"
    if "driver_effect r (s_db s) db'" for b db'
    using that by (cases b) (simp_all add: outcome_parked outcome_phase)
  from st show ?thesis
  proof (cases rule: driver_step.cases)
    case read_parked
    then show ?thesis using parks by simp
  next
    case read_run
    then show ?thesis using sets by simp
  next
    case no_leaf
    then show ?thesis using parks by simp
  next
    case (read_leaf run leaf)
    then show ?thesis using sets leaf_held [OF dbok] by simp
  next
    case (build_not_loaded run leaf at m db')
    have h: "holds (s_db s) r (x_id leaf)" using loaded_phase [OF ok build_not_loaded(2)] by simp
    have "db' = s_db s \<or> moves driver_move r (s_db s) db'"
      by (rule commit_fail_step_moves [OF dbok h _ build_not_loaded(3)]) simp
    then show ?thesis using build_not_loaded by (auto intro!: outcome_parked eff)
  next
    case (subgraph_entered run leaf art at db')
    have "holds (s_db s) r (x_id leaf)" using loaded_phase [OF ok subgraph_entered(2)] by simp
    then have "db' = s_db s \<or> moves driver_move r (s_db s) db'"
      by (rule commit_enter_subgraph_moves [OF dbok _ subgraph_entered(5)])
    then show ?thesis using subgraph_entered by (auto intro!: outcome_phase eff)
  next
    case (function_refused run leaf art failure at db')
    have "holds (s_db s) r (x_id leaf)" using loaded_phase [OF ok function_refused(2)] by simp
    moreover have "re_stage failure \<noteq> StageEnvironment"
      using function_refused by (auto simp: prepare_node_function_def Let_def split: option.splits graph_node.splits)
    ultimately have "db' = s_db s \<or> moves driver_move r (s_db s) db'"
      by (rule commit_fail_step_moves [OF dbok _ _ function_refused(6)])
    then show ?thesis using function_refused by (auto intro!: outcome_phase eff)
  next
    case (function_called run leaf art dst st i)
    have "holds (s_db s) r (x_id leaf)" using loaded_phase [OF ok function_called(2)] by simp
    then show ?thesis using function_called sets by simp
  next
    case (function_returned run leaf key at returned db')
    have "holds (s_db s) r (x_id leaf)" using loaded_phase [OF ok function_returned(2)] by simp
    then have "driver_effect r (s_db s) db'"
      using commit_save_result_moves [OF dbok _ function_returned(3)] idle
      unfolding driver_effect_def same_tree_def by blast
    then show ?thesis using function_returned by (auto intro!: outcome_phase)
  next
    case (capture_begun run leaf)
    have "holds (s_db s) r (x_id leaf)" using loaded_phase [OF ok capture_begun(2)] by simp
    then show ?thesis using capture_begun sets by simp
  next
    case (capture_failed run leaf failure at db')
    have "holds (s_db s) r (x_id leaf)" using loaded_phase [OF ok capture_failed(2)] by simp
    then have "db' = s_db s \<or> moves driver_move r (s_db s) db'"
      by (rule commit_fail_capture_moves [OF dbok _ capture_failed(3) capture_failed(4)])
    then show ?thesis using capture_failed by (auto intro!: outcome_phase eff)
  next
    case (capture_saved run leaf at title commit scopes)
    have "driver_effect r (s_db s) (commit_save_checkpoint at r leaf title commit scopes (s_db s))"
      using commit_save_checkpoint_rows [OF wf] by (simp add: driver_effect_def same_tree_def)
    then show ?thesis using capture_saved by (auto intro!: outcome_phase)
  next
    case (routed_immediate run leaf art at b db')
    have "holds (s_db s) r (x_id leaf)" using loaded_phase [OF ok routed_immediate(2)] by simp
    then have "db' = s_db s \<or> moves driver_move r (s_db s) db'"
      by (rule commit_route_moves [OF dbok _ routed_immediate(5)])
    then show ?thesis unfolding routed_immediate(1) by (rule either [OF eff])
  next
    case (wait_checked run leaf w wt port fresh at chk)
    have "holds (s_db s) r (x_id leaf)" using loaded_phase [OF ok wait_checked(2)] by simp
    then show ?thesis using wait_checked sets by simp
  next
    case (wait_parked run leaf at db')
    have "holds (s_db s) r (x_id leaf)" using loaded_phase [OF ok wait_parked(2)] by simp
    then have "db' = s_db s \<or> moves driver_move r (s_db s) db'"
      by (rule commit_park_moves [OF dbok _ wait_parked(3)])
    then show ?thesis using wait_parked by (auto intro!: outcome_parked eff)
  next
    case (wait_delivered run leaf event reply art at b db')
    have "holds (s_db s) r (x_id leaf)" using loaded_phase [OF ok wait_delivered(2)] by simp
    then have "db' = s_db s \<or> moves driver_move r (s_db s) db'"
      by (rule commit_route_moves [OF dbok _ wait_delivered(4)])
    then show ?thesis unfolding wait_delivered(1) by (rule either [OF eff])
  next
    case (step_defect m)
    then show ?thesis using sets by simp
  next
    case (defect_recorded m at db')
    then have "db' = s_db s \<or> moves driver_move r (s_db s) db'"
      by (intro commit_defect_moves [OF dbok])
    then show ?thesis using defect_recorded by (auto intro!: outcome_parked eff)
  next
    case defect_not_recorded
    then show ?thesis using parks by simp
  qed
qed

lemma driver_step_ok:
  assumes "driver_step builds r s s'" and "sys_ok s"
  shows "sys_ok s'"
proof -
  obtain db' where "driver_effect r (s_db s) db'"
    "s' = park_driver r (with_db db' s) \<or> (\<exists>p. s' = set_phase r p (with_db db' s) \<and> phase_ok db' r p)"
    using driver_step_outcome [OF assms] by (auto simp: driver_outcome_def)
  then show ?thesis by (rule sys_ok_after [OF assms(2)])
qed

section \<open>Headless jobs\<close>

lemma with_jobs_simps [simp]:
  "s_db (with_jobs dp s) = fst dp" "phase_of (with_jobs dp s) q = phase_of s q"
  by (simp_all add: with_jobs_def phase_of_def)

lemma stop_tracked_same_tree:
  "db_wf (fst s) \<Longrightarrow> same_tree (fst s) (fst (stop_tracked at p failure s))"
  "db_wf (fst s) \<Longrightarrow> same_tree (fst s) (fst (time_out_headless at p failure s))"
  "db_wf (fst s) \<Longrightarrow> same_tree (fst s) (fst (settle_end at p t timed_out captured ex committed s))"
  by (auto simp: stop_tracked_def time_out_headless_def settle_end_def same_tree_refl
      operation_commits_same_tree split: option.split)

text \<open>The machine does not see a job, and no driver loses what it holds.\<close>

lemma job_step_effect:
  assumes "job_step s s'" and "db_wf (s_db s)"
  shows "same_tree (s_db s) (s_db s') \<and> (\<forall>q. phase_of s' q = phase_of s q \<or> phase_of s' q = Some AtStart)"
  using assms(1)
proof (cases rule: job_step.cases)
  case (job_recorded d at row db')
  then show ?thesis
    using commit_operation_started_same_tree [OF assms(2)] by (auto simp: phase_of_def with_db_def)
next
  case (job_settled p t timed_out committed at captured ex)
  then show ?thesis
    using stop_tracked_same_tree(3) [of "(s_db s, s_processes s)"] assms(2)
    by (cases committed) (auto simp: phase_of_kick)
next
  case (job_over_at_start p t failure at)
  then show ?thesis using stop_tracked_same_tree(1) [of "(s_db s, s_processes s)"] assms(2) by simp
next
  case (job_stopped_by_cancel p t run failure at)
  then show ?thesis using stop_tracked_same_tree(1) [of "(s_db s, s_processes s)"] assms(2) by simp
next
  case (job_timed_out at p failure)
  then show ?thesis using stop_tracked_same_tree(2) [of "(s_db s, s_processes s)"] assms(2) by simp
qed (use assms(2) in \<open>auto simp: phase_of_def with_db_def same_tree_refl operation_commits_same_tree\<close>)

lemma job_step_ok:
  assumes j: "job_step s s'" and ok: "sys_ok s"
  shows "sys_ok s'"
proof -
  have dbok: "db_ok (s_db s)" using ok by (simp add: sys_ok_def)
  note wf = db_okD(1) [OF dbok]
  have st: "same_tree (s_db s) (s_db s')"
    and ph: "\<And>q. phase_of s' q = phase_of s q \<or> phase_of s' q = Some AtStart"
    using job_step_effect [OF j wf] by auto
  have "phase_ok (s_db s') q p" if p: "phase_of s' q = Some p" for q p
  proof (cases "phase_of s q = Some p")
    case True
    then have "phase_ok (s_db s) q p" using ok by (simp add: sys_ok_def)
    then show ?thesis
      using holds_apart [OF _ same_tree_apart [OF st] wf] by (auto intro: phase_ok_step)
  next
    case False
    with ph [of q] p have "p = AtStart" by auto
    then show ?thesis by simp
  qed
  then show ?thesis using same_tree_ok [OF dbok st] by (simp add: sys_ok_def)
qed

section \<open>Restart\<close>

inductive run_move :: "run_state \<Rightarrow> run_state \<Rightarrow> bool" where
  by_control: "control_move a b \<Longrightarrow> run_move a b"
| by_driver: "driver_move a b \<Longrightarrow> run_move a b"

lemma recover_operations_same:
  assumes "db_wf db"
  shows "same_tree db (recover_operations at db)"
proof -
  have keep: "o_id (row\<lparr>o_result := Some j\<rparr>) = o_id row" for row j by simp
  note settled = fold_settle_tables [of "\<lambda>r row. row\<lparr>o_result := Some (restart_record r)\<rparr>" db,
      OF keep assms, where P = "\<lambda>_. True", unfolded if_True]
  show ?thesis unfolding same_tree_def recover_operations_def using settled by blast
qed

text \<open>What the restart does to one run it recovers.\<close>

lemma recover_run_moves:
  assumes ok: "db_ok db" and r: "get_run db (r_id run) = Some run"
    and act: "r_status run \<in> set active_run_statuses" and c: "recover_run at run db = Inr db'"
  shows "(db' = db \<and> r_status run = Paused \<or> moves run_move (r_id run) db db') \<and>
         (\<exists>r'. get_run db' (r_id run) = Some r' \<and> r_status r' \<in> {Paused, Failed})"
proof -
  let ?q = "r_id run"
  note wf = db_okD(1) [OF ok]
  obtain S where S: "run_shape (xtree_of db) (itree_of db) run S" using ok r by (rule shape_of)
  show ?thesis
  proof (cases "r_status run = Paused")
    case True
    with c r show ?thesis by (simp add: recover_run_def)
  next
    case False
    note paused = False
    show ?thesis
    proof (cases "r_status run = Preparing")
      case True
      then have f: "fail_preparation at ?q restart_message NoData db = Inr db'"
        using c by (simp add: recover_run_def)
      have "moves run_move ?q db db'"
        using fail_preparation_moves [OF f ok r True] by (rule moves_mono) (rule by_control)
      moreover have "\<exists>r'. get_run db' ?q = Some r' \<and> r_status r' = Failed"
        using f r runs.get_upd [OF wf]
        by (auto simp: fail_preparation_def map_ok_Inr update_run_Inr environment_event_def)
      ultimately show ?thesis by auto
    next
      case False
      then have driven: "r_status run = Running \<or> r_status run = Waiting"
        using act paused by (auto simp: active_run_statuses_def)
      then have pd: "r_status run \<in> parked_or_driven" by (auto simp: parked_or_driven_def)
      obtain xr where xr: "find_leaf_execution db ?q = Some xr" "x_id xr = snd (last S)"
        using leaf_of_shape [OF wf S pd] by metis
      show ?thesis
      proof (cases "interrupted_by_restart xr")
        case True
        define f where "f = \<lparr>re_stage = StageNodeFunction,
          re_message = [Lit ''Interrupted by an app restart.''], re_graph = None,
          re_node = Some (x_node_id xr)\<rparr>"
        have stg: "re_stage f \<noteq> StageEnvironment" by (simp add: f_def)
        have ap: "apply_failure at run (Some xr) f None ExInterrupted db = Inr db'"
          using c paused False True xr by (simp add: recover_run_def f_def)
        have "moves driver_move ?q db db'"
          by (rule moves_failure [OF ok r pd S xr(2) _ stg ap]) simp
        then have "moves run_move ?q db db'" by (rule moves_mono) (rule by_driver)
        moreover have "\<exists>r'. get_run db' ?q = Some r' \<and> r_status r' = Failed"
          using apply_failure_Inr(3) [OF ap wf, of ?q] r by auto
        ultimately show ?thesis by auto
      next
        case nint: False
        then obtain db1 d where up: "update_run at ?q (\<lambda>r. r\<lparr>r_status := Paused\<rparr>) db = Inr db1"
          and db': "db' = append_event at d db1"
          using c paused False xr by (auto simp: recover_run_def map_ok_Inr run_event_def)
        have "moves control_move ?q db db1"
          by (rule moves_update_run [OF up ok _ r S, of S])
             (use S driven in \<open>auto simp: run_shape_def intro: move_pause\<close>)
        then have "moves control_move ?q db db'" by (simp add: db' moves_event)
        then have "moves run_move ?q db db'" by (rule moves_mono) (rule by_control)
        moreover have "\<exists>r'. get_run db' ?q = Some r' \<and> r_status r' = Paused"
          using up r runs.get_upd [OF wf] by (auto simp: db' update_run_Inr)
        ultimately show ?thesis by auto
      qed
    qed
  qed
qed

lemma recover_runs_effect:
  assumes "recover_runs at rs db = Inr db'" and "db_ok db" and "distinct (map r_id rs)"
    and "\<And>r. r \<in> set rs \<Longrightarrow> get_run db (r_id r) = Some r \<and> r_status r \<in> set active_run_statuses"
  shows "db_ok db' \<and> (\<forall>q. q \<notin> r_id ` set rs \<longrightarrow> apart q db db') \<and>
    (\<forall>r \<in> set rs. refines run_move (r_id r) db db' \<and>
       (\<exists>r'. get_run db' (r_id r) = Some r' \<and> r_status r' \<in> {Paused, Failed}))"
  using assms
proof (induction rs arbitrary: db)
  case Nil
  then show ?case by (simp add: apart_refl)
next
  case (Cons run rs)
  let ?q = "r_id run"
  obtain db1 where c: "recover_run at run db = Inr db1" and rest: "recover_runs at rs db1 = Inr db'"
    using Cons.prems(1) by (auto simp: and_then_Inr)
  have r: "get_run db ?q = Some run" "r_status run \<in> set active_run_statuses"
    using Cons.prems(4) [of run] by simp_all
  have m: "db1 = db \<and> r_status run = Paused \<or> moves run_move ?q db db1"
    and after: "\<exists>r'. get_run db1 ?q = Some r' \<and> r_status r' \<in> {Paused, Failed}"
    using recover_run_moves [OF Cons.prems(2) r c] by auto
  have ok1: "db_ok db1" using m Cons.prems(2) by (auto intro: moves_ok)
  have apart1: "p \<noteq> ?q \<Longrightarrow> apart p db db1" for p using m by (auto intro: apart_refl moves_apart)
  have ref1: "refines run_move ?q db db1"
    using m refines_idle [OF Cons.prems(2) r(1) apart_refl, of run_move]
    by (auto intro: moves_refines by_control move_stay)
  have other: "?q \<notin> r_id ` set rs" using Cons.prems(3) by simp
  have "get_run db1 (r_id s) = Some s \<and> r_status s \<in> set active_run_statuses" if "s \<in> set rs" for s
  proof -
    have "r_id s \<noteq> ?q" using that other by (metis image_eqI)
    then show ?thesis using apart1 [of "r_id s"] Cons.prems(4) [of s] that by (auto simp: apart_def)
  qed
  then have IH: "db_ok db'" "\<And>q. q \<notin> r_id ` set rs \<Longrightarrow> apart q db1 db'"
    "\<And>s. s \<in> set rs \<Longrightarrow> refines run_move (r_id s) db1 db' \<and>
       (\<exists>r'. get_run db' (r_id s) = Some r' \<and> r_status r' \<in> {Paused, Failed})"
    using Cons.IH [OF rest ok1] Cons.prems(3) by auto
  have "refines run_move ?q db db'"
    using ref1 IH(2) [OF other] db_okD(1) [OF ok1] by (rule refines_apart)
  moreover have "\<exists>r'. get_run db' ?q = Some r' \<and> r_status r' \<in> {Paused, Failed}"
    using after IH(2) [OF other] by (simp add: apart_def)
  moreover have "refines run_move (r_id s) db db'" if "s \<in> set rs" for s
  proof -
    have "r_id s \<noteq> ?q" using that other by (metis image_eqI)
    then have "apart (r_id s) db db1" by (rule apart1)
    then show ?thesis using IH(3) [OF that] db_okD(1) [OF ok1] by (blast intro: apart_refines)
  qed
  moreover have "apart q db db'" if "q \<notin> r_id ` set (run # rs)" for q
    using apart1 [of q] IH(2) [of q] that by (auto intro: apart_trans)
  ultimately show ?case using IH(1,3) by simp
qed

lemma recover_effect:
  assumes c: "recover_at_startup at db = Inr db'" and ok: "db_ok db"
  shows "db_ok db'"
    and "get_run db q = Some r \<Longrightarrow> refines run_move q db db'"
    and "get_run db' q = Some r' \<Longrightarrow> r_status r' \<notin> {Preparing, Running, Waiting}"
proof -
  define db1 where "db1 = recover_operations at db"
  let ?rs = "list_runs_with_status db1 active_run_statuses"
  note wf = db_okD(1) [OF ok]
  have st: "same_tree db db1" unfolding db1_def using wf by (rule recover_operations_same)
  have ok1: "db_ok db1" using ok st by (rule same_tree_ok)
  note wf1 = db_okD(1) [OF ok1]
  have c1: "recover_runs at ?rs db1 = Inr db'" using c by (simp add: recover_at_startup_def db1_def Let_def)
  have "distinct (map r_id (all_runs db1))"
    using runs.listed_distinct [OF wf1] by (rule sorted_wrt_less_distinct)
  then have d: "distinct (map r_id ?rs)" by (auto simp: list_runs_with_status_def distinct_map_filter)
  have listed: "r \<in> set ?rs \<longleftrightarrow> get_run db1 (r_id r) = Some r \<and> r_status r \<in> set active_run_statuses" for r
    using runs.get_iff [OF wf1, of "r_id r" r] by (auto simp: list_runs_with_status_def)
  have E: "db_ok db' \<and> (\<forall>q. q \<notin> r_id ` set ?rs \<longrightarrow> apart q db1 db') \<and>
    (\<forall>s \<in> set ?rs. refines run_move (r_id s) db1 db' \<and>
       (\<exists>r'. get_run db' (r_id s) = Some r' \<and> r_status r' \<in> {Paused, Failed}))"
    by (rule recover_runs_effect [OF c1 ok1 d]) (use listed in blast)
  have e: "db_ok db'" "\<And>q. q \<notin> r_id ` set ?rs \<Longrightarrow> apart q db1 db'"
    "\<And>s. s \<in> set ?rs \<Longrightarrow> refines run_move (r_id s) db1 db'"
    "\<And>s. s \<in> set ?rs \<Longrightarrow> \<exists>r'. get_run db' (r_id s) = Some r' \<and> r_status r' \<in> {Paused, Failed}"
    using E by blast+
  show "db_ok db'" by (rule e(1))
  show "refines run_move q db db'" if r: "get_run db q = Some r"
  proof -
    have r1: "get_run db1 q = Some r" using r st by (simp add: same_tree_def)
    then have rid: "r_id r = q" using runs.get_id [OF wf1] by blast
    have "refines run_move q db1 db'"
    proof (cases "r_status r \<in> set active_run_statuses")
      case True
      then show ?thesis using e(3) [of r] listed [of r] r1 rid by simp
    next
      case False
      have "q \<notin> r_id ` set ?rs"
      proof
        assume "q \<in> r_id ` set ?rs"
        then obtain s where s: "s \<in> set ?rs" "r_id s = q" by blast
        with listed [of s] r1 have "s = r" "r_status s \<in> set active_run_statuses" by auto
        with False show False by simp
      qed
      then have "apart q db1 db'" by (rule e(2))
      then show ?thesis by (rule refines_idle [OF ok1 r1]) (rule by_control [OF move_stay])
    qed
    with same_tree_apart [OF st] show ?thesis using wf1 by (rule apart_refines)
  qed
  show "r_status r' \<notin> {Preparing, Running, Waiting}" if r': "get_run db' q = Some r'"
  proof (cases "q \<in> r_id ` set ?rs")
    case True
    then obtain s where "s \<in> set ?rs" "r_id s = q" by blast
    then show ?thesis using e(4) [of s] r' by auto
  next
    case False
    then have "get_run db1 q = Some r'" using e(2) [OF False] r' by (simp add: apart_def)
    then have "r_id r' = q" "get_run db1 (r_id r') = Some r'" using runs.get_id [OF wf1, of q r'] by auto
    then have "r_status r' \<notin> set active_run_statuses" using False listed [of r'] by blast
    then show ?thesis by (simp add: active_run_statuses_def)
  qed
qed

section \<open>Every step of the engine\<close>

lemma control_step_apart_or:
  assumes "control_step db db'" and "db_ok db" and "get_run db q = Some r"
  shows "refines control_move q db db'"
proof -
  from control_step_machine [OF assms(1,2)]
  consider "same_tree db db'" | "creates_run db db'" | p where "moves control_move p db db'"
    by (auto simp: machine_commit_def)
  then show ?thesis
  proof cases
    case 1
    with assms show ?thesis by (blast intro: refines_idle same_tree_apart move_stay)
  next
    case 2
    with assms have "apart q db db'" by (intro creates_run_apart) auto
    with assms show ?thesis by (blast intro: refines_idle move_stay)
  next
    case (3 p)
    show ?thesis
    proof (cases "p = q")
      case True
      with 3 show ?thesis by (blast intro: moves_refines)
    next
      case False
      with 3 have "apart q db db'" by (blast intro: moves_apart)
      with assms show ?thesis by (blast intro: refines_idle move_stay)
    qed
  qed
qed

lemma engine_step_ok:
  assumes "engine_step builds s s'" and ok: "sys_ok s"
  shows "sys_ok s'"
  using assms(1)
proof (cases rule: engine_step.cases)
  case (engine_control db')
  have dbok: "db_ok (s_db s)" using ok by (simp add: sys_ok_def)
  have m: "machine_commit control_move (s_db s) db'"
    using control_step_machine [OF engine_control(2) dbok] .
  have "holds db' q x" if "holds (s_db s) q x" for q x
    using holds_machine [OF that m] db_okD(1) [OF dbok] by blast
  then show ?thesis
    using ok machine_commit_ok [OF dbok m] phase_ok_step engine_control(1)
    unfolding sys_ok_def by (metis phase_of_updates(1,2))
next
  case (engine_kick r)
  then show ?thesis using ok by (auto simp: sys_ok_def phase_of_kick split: if_splits)
next
  case engine_driver
  then show ?thesis using ok by (blast intro: driver_step_ok)
next
  case engine_job
  then show ?thesis using ok by (blast intro: job_step_ok)
next
  case (engine_restart at db')
  then show ?thesis
    using ok recover_effect(1) by (auto simp: sys_ok_def phase_of_def)
qed

lemma initial_ok: "sys_ok initial_sys"
proof -
  have "get_run empty_db = (\<lambda>_. None)" "xtree_of empty_db = (\<lambda>_. None)" "itree_of empty_db = (\<lambda>_. None)"
    by (simp_all add: fun_eq_iff xtree_of_def itree_of_def table_defs empty_db_def tab_get_def tab_empty_def)
  then show ?thesis
    by (simp add: sys_ok_def initial_sys_def phase_of_def db_ok_def empty_db_wf links_ok_def)
qed

lemma reachable_ok: "reachable builds s \<Longrightarrow> sys_ok s"
  by (induction rule: reachable.induct) (auto intro: initial_ok engine_step_ok)

lemma reachable_db_ok: "reachable builds s \<Longrightarrow> db_ok (s_db s)"
  using reachable_ok by (auto simp: sys_ok_def)

lemma engine_step_refines:
  assumes st: "engine_step builds s s'" and ok: "sys_ok s" and r: "get_run (s_db s) q = Some r"
  shows "refines run_move q (s_db s) (s_db s')"
proof -
  have dbok: "db_ok (s_db s)" using ok by (simp add: sys_ok_def)
  from st show ?thesis
  proof (cases rule: engine_step.cases)
    case (engine_control db')
    then show ?thesis
      using control_step_apart_or [OF _ dbok r, of db'] by (auto intro: refines_mono by_control)
  next
    case (engine_kick r')
    then show ?thesis
      using refines_idle [OF dbok r apart_refl, of run_move] by (auto intro: by_control move_stay)
  next
    case (engine_driver r')
    then obtain db' where "driver_effect r' (s_db s) db'" "s_db s' = db'"
      using driver_step_outcome [OF _ ok] by (auto simp: driver_outcome_def)
    then show ?thesis
      using driver_effect_refines [OF dbok _ r] by (auto intro: refines_mono by_driver)
  next
    case engine_job
    then have "same_tree (s_db s) (s_db s')" using job_step_effect db_okD(1) [OF dbok] by blast
    then show ?thesis using refines_idle [OF dbok r same_tree_apart, of "s_db s'" run_move]
      by (auto intro: by_control move_stay)
  next
    case (engine_restart at db')
    then show ?thesis using recover_effect(2) [OF _ dbok r] by simp
  qed
qed

end
