(* ===== verification/History.thy ===== *)
theory History
  imports Engine_Invariant
begin

text \<open>
  What no commit takes back. The locales name what a relation between two databases must satisfy to
  be kept by every commit: a law per store operation, from the narrowest writes (\<open>commit_history\<close>) to
  those that create a run or attach it to a surface (\<open>run_history\<close>), save a result (\<open>saving_history\<close>)
  or end a run and its operations (\<open>settling_history\<close>). Two relations satisfy all of them: \<open>grows\<close>, that the event log only grows and a row keeps its key and the
  columns it was created with, and \<open>calm\<close>, that no run becomes cancelled and no headless operation
  changes its status.
\<close>

section \<open>Tables that grow\<close>

definition rows_grow :: "('r \<Rightarrow> 'r \<Rightarrow> bool) \<Rightarrow> 'r list \<Rightarrow> 'r list \<Rightarrow> bool" where
  "rows_grow R xs ys = (\<exists>zs ws. ys = zs @ ws \<and> list_all2 R xs zs)"

lemma rows_grow_refl: "(\<And>x. R x x) \<Longrightarrow> rows_grow R xs xs"
  unfolding rows_grow_def by (rule exI [of _ xs]) (simp add: list_all2_refl)

lemma rows_grow_trans:
  assumes "rows_grow R xs ys" and "rows_grow R ys zs" and "\<And>a b c. R a b \<Longrightarrow> R b c \<Longrightarrow> R a c"
  shows "rows_grow R xs zs"
proof -
  obtain ys1 ys2 where ys: "ys = ys1 @ ys2" "list_all2 R xs ys1" using assms(1) by (auto simp: rows_grow_def)
  obtain zs1 zs2 where zs: "zs = zs1 @ zs2" "list_all2 R ys zs1" using assms(2) by (auto simp: rows_grow_def)
  obtain u v where u: "zs1 = u @ v" "list_all2 R ys1 u"
    using zs(2) ys(1) by (auto simp: list_all2_append1)
  have "list_all2 R xs u" using list_all2_trans [OF assms(3) ys(2) u(2)] .
  then show ?thesis using zs(1) u(1) by (auto simp: rows_grow_def)
qed

lemma rows_grow_map: "(\<And>x. R x (f x)) \<Longrightarrow> rows_grow R xs (map f xs)"
  unfolding rows_grow_def by (intro exI [of _ "map f xs"] exI [of _ "[]"]) (simp add: list.rel_map list.rel_refl)

lemma rows_grow_snoc: "(\<And>x. R x x) \<Longrightarrow> rows_grow R xs (xs @ [y])"
  unfolding rows_grow_def by (intro exI [of _ xs] exI [of _ "[y]"]) (simp add: list_all2_refl)

lemma rows_grow_member:
  assumes "rows_grow R xs ys" and "x \<in> set xs"
  shows "\<exists>y \<in> set ys. R x y"
proof -
  obtain zs ws where "ys = zs @ ws" "list_all2 R xs zs" using assms(1) by (auto simp: rows_grow_def)
  moreover obtain i where i: "i < length xs" "x = xs ! i" using assms(2) by (auto simp: in_set_conv_nth)
  ultimately have "R x (zs ! i)" "zs ! i \<in> set ys"
    by (auto simp: list_all2_conv_all_nth)
  then show ?thesis by blast
qed

lemma rows_grow_eq: "rows_grow (=) xs ys = (\<exists>ws. ys = xs @ ws)"
  by (auto simp: rows_grow_def list.rel_eq)

lemma rows_grow_mono: "rows_grow R xs ys \<Longrightarrow> (\<And>x y. R x y \<Longrightarrow> Q x y) \<Longrightarrow> rows_grow Q xs ys"
  unfolding rows_grow_def by (metis list_all2_mono)

text \<open>What a row was created with.\<close>

definition same_run :: "run_row \<Rightarrow> run_row \<Rightarrow> bool" where
  "same_run r s =
     (r_id s = r_id r \<and> r_project_id s = r_project_id r \<and> r_workflow_key s = r_workflow_key r \<and>
      r_title s = r_title r \<and> r_inputs s = r_inputs r \<and> r_parameters s = r_parameters r \<and>
      r_placement s = r_placement r \<and> r_created_at s = r_created_at r)"

definition same_invocation :: "invocation_row \<Rightarrow> invocation_row \<Rightarrow> bool" where
  "same_invocation r s =
     (i_id s = i_id r \<and> i_run_id s = i_run_id r \<and> i_parent s = i_parent r \<and>
      i_graph_key s = i_graph_key r \<and> i_depth s = i_depth r \<and> i_parameters s = i_parameters r)"

definition same_entry :: "execution_row \<Rightarrow> execution_row \<Rightarrow> bool" where
  "same_entry r s =
     (x_id s = x_id r \<and> x_run_id s = x_run_id r \<and> x_invocation_id s = x_invocation_id r \<and>
      x_node_id s = x_node_id r \<and> x_node_kind s = x_node_kind r \<and>
      x_visit_index s = x_visit_index r \<and> x_retry_of s = x_retry_of r)"

definition same_execution :: "execution_row \<Rightarrow> execution_row \<Rightarrow> bool" where
  "same_execution r s = (same_entry r s \<and> x_result s = x_result r)"

definition same_operation :: "operation_row \<Rightarrow> operation_row \<Rightarrow> bool" where
  "same_operation r s =
     (o_id s = o_id r \<and> o_run_id s = o_run_id r \<and> o_execution_id s = o_execution_id r \<and>
      o_seq s = o_seq r \<and> o_kind s = o_kind r \<and> o_request s = o_request r)"

text \<open>What every commit but the ones that end a run or a headless job keeps besides.\<close>

definition calm_run :: "run_row \<Rightarrow> run_row \<Rightarrow> bool" where
  "calm_run r s =
     (same_run r s \<and> (r_status s = Cancelled \<longrightarrow> r_status r = Cancelled) \<and>
      r_surface_id s = r_surface_id r)"

definition calm_operation :: "operation_row \<Rightarrow> operation_row \<Rightarrow> bool" where
  "calm_operation r s = (same_operation r s \<and> o_status s = o_status r)"

lemmas same_defs = calm_run_def calm_operation_def same_run_def same_invocation_def same_entry_def same_execution_def same_operation_def

text \<open>\<open>X\<close> is what an execution keeps.\<close>

definition grows :: "(execution_row \<Rightarrow> execution_row \<Rightarrow> bool) \<Rightarrow> db \<Rightarrow> db \<Rightarrow> bool" where
  "grows X db db' =
     (rows_grow (=) (rows (d_events db)) (rows (d_events db')) \<and>
      rows_grow same_run (all_runs db) (all_runs db') \<and>
      rows_grow same_invocation (all_invocations db) (all_invocations db') \<and>
      rows_grow X (all_executions db) (all_executions db') \<and>
      rows_grow same_operation (all_operations db) (all_operations db'))"

definition keeping :: "(execution_row \<Rightarrow> execution_row \<Rightarrow> bool) \<Rightarrow> bool" where
  "keeping X = ((\<forall>r. X r r) \<and> (\<forall>a b c. X a b \<longrightarrow> X b c \<longrightarrow> X a c))"

lemma keeping_same [simp]: "keeping same_execution" "keeping same_entry"
  by (auto simp: keeping_def same_execution_def same_entry_def)

lemma same_refl [simp]:
  "same_run r r" "same_invocation i i" "same_operation o' o'"
  by (simp_all add: same_defs)

lemma grows_refl: "keeping X \<Longrightarrow> grows X db db"
  by (simp add: grows_def keeping_def rows_grow_refl)

lemma grows_trans:
  assumes "grows X a b" and "grows X b c" and "keeping X"
  shows "grows X a c"
  unfolding grows_def
proof (intro conjI)
  show "rows_grow (=) (rows (d_events a)) (rows (d_events c))"
    using assms(1,2) by (auto simp: grows_def rows_grow_eq)
  show "rows_grow same_run (all_runs a) (all_runs c)"
    using assms(1,2) by (auto simp: grows_def same_run_def elim: rows_grow_trans)
  show "rows_grow same_invocation (all_invocations a) (all_invocations c)"
    using assms(1,2) by (auto simp: grows_def same_invocation_def elim: rows_grow_trans)
  show "rows_grow X (all_executions a) (all_executions c)"
    using assms unfolding grows_def keeping_def by (meson rows_grow_trans)
  show "rows_grow same_operation (all_operations a) (all_operations c)"
    using assms(1,2) by (auto simp: grows_def same_operation_def elim: rows_grow_trans)
qed

lemma grows_weaken: "grows same_execution db db' \<Longrightarrow> grows same_entry db db'"
  unfolding grows_def by (auto simp: same_execution_def elim: rows_grow_mono)

section \<open>One rule per store operation\<close>

lemma events_of:
  "d_events (patch_run i f db) = d_events db"
  "d_events (update_invocation i g db) = d_events db"
  "d_events (update_execution i h db) = d_events db"
  "d_events (update_operation i k db) = d_events db"
  "d_events (snd (insert_run a db)) = d_events db"
  "d_events (snd (insert_invocation b db)) = d_events db"
  "d_events (snd (insert_execution c db)) = d_events db"
  "d_events (snd (put_operation d db)) = d_events db"
  "d_events (snd (insert_checkpoint e db)) = d_events db"
  "d_events (insert_artifact art db) = d_events db"
  by (simp_all add: table_defs split_beta insert_checkpoint_def insert_artifact_def)

lemma other_tables:
  "all_runs (snd (put_operation d db)) = all_runs db"
  "all_invocations (snd (put_operation d db)) = all_invocations db"
  "all_executions (snd (put_operation d db)) = all_executions db"
  "all_runs (snd (insert_checkpoint e db)) = all_runs db"
  "all_invocations (snd (insert_checkpoint e db)) = all_invocations db"
  "all_executions (snd (insert_checkpoint e db)) = all_executions db"
  "all_operations (snd (insert_checkpoint e db)) = all_operations db"
  "all_runs (insert_artifact art db) = all_runs db"
  "all_invocations (insert_artifact art db) = all_invocations db"
  "all_executions (insert_artifact art db) = all_executions db"
  "all_operations (insert_artifact art db) = all_operations db"
  "all_invocations (snd (insert_run a db)) = all_invocations db"
  "all_executions (snd (insert_run a db)) = all_executions db"
  "all_operations (snd (insert_run a db)) = all_operations db"
  by (simp_all add: table_defs split_beta insert_checkpoint_def insert_artifact_def)

lemma append_event_grows: "keeping X \<Longrightarrow> grows X db (append_event at d db)"
  by (simp add: grows_def rows_grow_refl keeping_def rows_grow_eq append_event_def tab_laws table_defs)

lemma patch_run_grows: "keeping X \<Longrightarrow> (\<And>r. same_run r (f r)) \<Longrightarrow> grows X db (patch_run i f db)"
  by (simp add: grows_def rows_grow_refl keeping_def events_of runs.list_upd rows_grow_map)

lemma update_invocation_grows:
  "keeping X \<Longrightarrow> (\<And>r. same_invocation r (f r)) \<Longrightarrow> grows X db (update_invocation i f db)"
  by (simp add: grows_def rows_grow_refl keeping_def events_of invocations.list_upd rows_grow_map)

lemma update_execution_grows:
  "keeping X \<Longrightarrow> (\<And>r. X r (f r)) \<Longrightarrow> grows X db (update_execution i f db)"
  by (simp add: grows_def rows_grow_refl keeping_def events_of executions.list_upd rows_grow_map)

lemma update_operation_grows:
  "keeping X \<Longrightarrow> (\<And>r. same_operation r (f r)) \<Longrightarrow> grows X db (update_operation i f db)"
  by (simp add: grows_def rows_grow_refl keeping_def events_of operations.list_upd rows_grow_map)

lemma insert_grows:
  assumes "keeping X"
  shows "grows X db (snd (insert_run a db))" "grows X db (snd (insert_invocation b db))"
    "grows X db (snd (insert_execution c db))" "grows X db (snd (put_operation d db))"
    "grows X db (snd (insert_checkpoint e db))" "grows X db (insert_artifact art db)"
  using assms
  by (simp_all add: grows_def rows_grow_refl rows_grow_snoc keeping_def events_of other_tables
      runs.list_ins invocations.list_ins executions.list_ins operations.list_ins)

section \<open>What every commit keeps\<close>

text \<open>The two driver steps that write a result.\<close>

definition saves_result :: "nat \<Rightarrow> sys \<Rightarrow> sys \<Rightarrow> bool" where
  "saves_result r s s' =
     ((\<exists>run leaf key at returned. phase_of s r = Some (Calling run leaf key) \<and>
         commit_save_result at key r leaf returned (s_db s) = Inr (s_db s')) \<or>
      (\<exists>run leaf at t c sc. phase_of s r = Some (Capturing run leaf) \<and>
         s_db s' = commit_save_checkpoint at r leaf t c sc (s_db s)))"


text \<open>The commits that create a run or change the surface it is attached to.\<close>

definition attaches :: "db \<Rightarrow> db \<Rightarrow> bool" where
  "attaches db db' =
     ((\<exists>at projects l res. commit_launch at projects l db = (res, db')) \<or>
      (\<exists>at q sf title. find_run_on_surface db sf None = None \<and>
         commit_surface_created at q sf title db = Inr db') \<or>
      (\<exists>at q. dismiss at q db = Inr db') \<or>
      (\<exists>q. db' = patch_run q (\<lambda>row. row\<lparr>r_surface_id := None\<rparr>) db))"

locale commit_history =
  fixes G :: "db \<Rightarrow> db \<Rightarrow> bool"
  assumes refl: "G db db"
    and trans: "G a b \<Longrightarrow> G b c \<Longrightarrow> G a c"
    and event: "G db (append_event at d db)"
    and run: "(\<And>r. calm_run r (fr r)) \<Longrightarrow> G db (patch_run i fr db)"
    and invocation: "(\<And>r. same_invocation r (fi r)) \<Longrightarrow> G db (update_invocation i fi db)"
    and execution: "(\<And>r. same_execution r (fx r)) \<Longrightarrow> G db (update_execution i fx db)"
    and operation: "(\<And>r. calm_operation r (fo r)) \<Longrightarrow> G db (update_operation i fo db)"
    and other_operation: "db_wf db \<Longrightarrow> get_operation db i = Some row \<Longrightarrow> o_kind row \<noteq> RunHeadless \<Longrightarrow>
      (\<And>r. same_operation r (fo r)) \<Longrightarrow> G db (update_operation i fo db)"
    and new_invocation: "G db (snd (insert_invocation mi db))"
    and new_execution: "G db (snd (insert_execution mx db))"
    and new_operation: "(\<And>i. o_kind (mo i) \<noteq> RunHeadless) \<Longrightarrow> G db (snd (put_operation mo db))"
    and new_checkpoint: "G db (snd (insert_checkpoint mc db))"
    and new_artifact: "G db (insert_artifact art db)"
begin

text \<open>The laws, as rules that peel the last write off a commit.\<close>

lemma peel:
  assumes "G db db'"
  shows "G db (append_event at ev db')"
    and "(\<And>r. calm_run r (fr r)) \<Longrightarrow> G db (patch_run i fr db')"
    and "(\<And>r. same_invocation r (fi r)) \<Longrightarrow> G db (update_invocation i fi db')"
    and "(\<And>r. same_execution r (fx r)) \<Longrightarrow> G db (update_execution i fx db')"
    and "(\<And>r. calm_operation r (fo r)) \<Longrightarrow> G db (update_operation i fo db')"
    and "G db (snd (insert_invocation b db'))" and "G db (snd (insert_execution c db'))"
    and "G db (snd (insert_checkpoint e db'))" and "G db (insert_artifact art db')"
  using trans [OF assms]
  by (blast intro: event run invocation execution operation new_invocation new_execution
      new_checkpoint new_artifact)+

lemma peel_update_run:
  "update_run at i f db' = Inr db'' \<Longrightarrow> G db db' \<Longrightarrow> (\<And>r. calm_run r (f r)) \<Longrightarrow> G db db''"
  by (auto simp: update_run_Inr same_defs intro!: peel)

lemma update_run_history:
  "update_run at i f db = Inr db' \<Longrightarrow> (\<And>r. calm_run r (f r)) \<Longrightarrow> G db db'"
  by (rule peel_update_run [OF _ refl]) simp_all

lemma settle_other:
  "db_wf db \<Longrightarrow> get_operation db i = Some row \<Longrightarrow> o_kind row \<noteq> RunHeadless \<Longrightarrow>
     (\<And>r. same_operation r (f r)) \<Longrightarrow> G db (settle_operation at i st f db)"
  by (auto simp: settle_operation_def Let_def same_operation_def
      intro!: peel(1) other_operation split: option.split)

lemma fold_history:
  assumes "\<And>x d. G db d \<Longrightarrow> G db (f x d)" and "G db db'"
  shows "G db (fold f xs db')"
  using assms(2) by (induction xs arbitrary: db') (auto intro: assms(1))

lemma start_execution_history:
  "G db db' \<Longrightarrow> G db (start_execution at run nx db')"
  by (auto simp: start_execution_def split_beta intro!: peel)

lemma complete_step_history:
  "G db db' \<Longrightarrow> G db (complete_step at run s db')"
  by (auto simp: complete_step_def Let_def same_defs intro!: peel)

lemma finish_invocation_history:
  "G db db' \<Longrightarrow> G db (finish_invocation at run d db')"
  by (auto simp: finish_invocation_def same_defs intro!: peel split: prod.split)

lemma apply_chain_history:
  assumes "apply_chain at run plan db' = Inr db''" and "G db db'"
  shows "G db db''"
proof -
  let ?db2 = "fold (finish_invocation at run) (cp_finished plan)
                (fold (complete_step at run) (cp_completed plan) db')"
  have g2: "G db ?db2"
    using assms(2) by (intro fold_history finish_invocation_history complete_step_history)
  show ?thesis
  proof (cases "cp_next plan")
    case (NextExecution nx)
    have g3: "G db (start_execution at run nx ?db2)"
      using g2 by (rule start_execution_history)
    show ?thesis
    proof (cases "r_status run = Waiting")
      case True
      with assms(1) NextExecution
      have "update_run at (r_id run) (\<lambda>r. r\<lparr>r_status := Running\<rparr>) (start_execution at run nx ?db2) = Inr db''"
        by (simp add: apply_chain_def Let_def)
      then show ?thesis using g3 by (rule peel_update_run) (simp_all add: same_defs)
    qed (use assms(1) NextExecution g3 in \<open>simp add: apply_chain_def Let_def\<close>)
  next
    case (RunFinished oc)
    with assms(1) obtain d db3 where up: "update_run at (r_id run)
            (\<lambda>r. r\<lparr>r_status := Completed, r_outcome := Some (stored_outcome oc),
                  r_error := None, r_ended_at := Some at\<rparr>) ?db2 = Inr db3"
      and db'': "db'' = append_event at d db3"
      by (auto simp: apply_chain_def Let_def map_ok_Inr)
    have "G db db3" using up g2 by (rule peel_update_run) (simp_all add: same_defs)
    then show ?thesis unfolding db'' by (rule peel)
  qed
qed

lemma apply_entry_history:
  "G db db' \<Longrightarrow> G db (apply_entry at run plan p db')"
  by (auto simp: apply_entry_def Let_def split_beta same_defs
      intro!: start_execution_history peel split: option.split)

lemma apply_failure_history:
  assumes "apply_failure at run xo failure ev st db' = Inr db''" and g: "G db db'"
  shows "G db db''"
proof -
  define db1 where "db1 = (case xo of None \<Rightarrow> db' | Some x \<Rightarrow>
      append_event at (draft (r_id run) (Some (x_id x)) CatNode
         (if st = ExInterrupted then NodeInterrupted else NodeFailed) (re_message failure) (DataError failure))
        (update_execution (x_id x) (\<lambda>r. r\<lparr>x_status := st, x_error := Some failure,
             x_event := (case ev of None \<Rightarrow> x_event r | Some e \<Rightarrow> Some e), x_ended_at := Some at\<rparr>) db'))"
  have g1: "G db db1"
    unfolding db1_def using g by (auto simp: same_defs intro!: peel split: option.split)
  obtain d db2 where up: "update_run at (r_id run) (\<lambda>r. r\<lparr>r_status := Failed,
       r_error := Some failure, r_ended_at := Some at\<rparr>) db1 = Inr db2" and db'': "db'' = append_event at d db2"
    using assms(1) by (auto simp: apply_failure_def Let_def map_ok_Inr db1_def)
  have "G db db2" using up g1 by (rule peel_update_run) (simp_all add: same_defs)
  then show ?thesis unfolding db'' by (rule peel)
qed

lemmas fails_history = apply_failure_history [OF _ refl]

lemma commit_fail_step_history: "commit_fail_step at q x f db = Inr db' \<Longrightarrow> G db db'"
  by (auto simp: commit_fail_step_def refl split: option.splits if_splits intro: fails_history)

lemma commit_fail_capture_history: "commit_fail_capture at q l f db = Inr db' \<Longrightarrow> G db db'"
  by (auto simp: commit_fail_capture_def refl split: option.splits if_splits intro: fails_history)

lemma commit_defect_history: "commit_defect at q m db = Inr db' \<Longrightarrow> G db db'"
  by (auto simp: commit_defect_def refl split: option.splits if_splits intro: fails_history)

lemma park_execution_history: "G db (park_execution at x db)"
  by (auto simp: park_execution_def same_defs refl intro!: peel)

lemma commit_park_history: "commit_park at q x db = Inr db' \<Longrightarrow> G db db'"
  by (auto simp: commit_park_def refl same_defs park_execution_history
      split: option.splits if_splits intro: peel_update_run)

lemma record_reply_history: "G db (record_reply at q x reply db)"
  by (auto simp: record_reply_def Let_def same_defs refl intro!: peel split: option.split)

lemma commit_route_history:
  assumes "commit_route at art q x ev reply db = Some (Inr (b, db'))"
  shows "G db db'"
proof -
  consider run xr where "get_run db q = Some run" "get_execution db x = Some xr" | "db' = db"
    using assms by (auto simp: commit_route_def split: option.splits)
  then show ?thesis
  proof cases
    case (1 run xr)
    define db2 where "db2 = (let db1 = record_reply at q x reply db in
        if is_suspend (the (x_result xr)) \<and> x_event xr = None
        then append_event at (draft q (Some x) CatNode WaitDelivered
               ([Lit (x_node_id xr), Lit '': ''] @ describe_event ev) (DataJson (json_or_null ev))) db1
        else db1)"
    have g2: "G db db2"
      by (auto simp: db2_def Let_def record_reply_history intro!: peel)
    show ?thesis
      using assms 1 g2
      by (auto simp: commit_route_def Let_def db2_def map_ok_Inr refl
          split: option.splits if_splits computed.splits
          intro: apply_chain_history apply_failure_history)
  qed (simp add: refl)
qed

lemma commit_enter_subgraph_history:
  "commit_enter_subgraph at art q leaf db = Inr db' \<Longrightarrow> G db db'"
  by (auto simp: commit_enter_subgraph_def Let_def refl
      split: option.splits if_splits computed.splits graph_node.splits
      intro: fails_history apply_entry_history)

lemma fail_preparation_history: "fail_preparation at q m d db = Inr db' \<Longrightarrow> G db db'"
  by (auto simp: fail_preparation_def map_ok_Inr event_of same_defs
      intro!: peel elim!: update_run_history)

lemma commit_worktree_created_history:
  "commit_worktree_created at q w path branch base ok db = Inr db' \<Longrightarrow> G db db'"
  by (auto simp: commit_worktree_created_def map_ok_Inr event_of same_defs
      intro!: peel elim!: update_run_history)

lemma commit_setup_history: "commit_setup at q ok db = Inr db' \<Longrightarrow> G db db'"
  by (auto simp: commit_setup_def map_ok_Inr event_of same_defs refl split: if_splits
      intro!: peel elim!: update_run_history)

lemma commit_preparation_failed_history: "commit_preparation_failed at q m db = Inr db' \<Longrightarrow> G db db'"
  by (auto simp: commit_preparation_failed_def refl split: option.splits if_splits
      intro: fail_preparation_history)

lemma commit_enter_root_history: "commit_enter_root at art q db = Inr db' \<Longrightarrow> G db db'"
  by (auto simp: commit_enter_root_def Let_def refl map_ok_Inr same_defs
      split: option.splits if_splits computed.splits
      intro: fails_history intro!: apply_entry_history elim!: update_run_history)

lemma switch_build_history:
  "switch_build at r hash db = Inr db' \<Longrightarrow> G db db'"
  by (auto simp: switch_build_def refl map_ok_Inr event_of same_defs split: if_splits
      intro!: peel elim!: update_run_history)

lemma pause_history: "pause at q db = Inr db' \<Longrightarrow> G db db'"
  by (auto simp: pause_def and_then_Inr map_ok_Inr event_of same_defs split: if_splits
      intro!: peel elim!: update_run_history)

lemma commit_resume_history: "commit_resume at q hash db = Inr db' \<Longrightarrow> G db db'"
  by (auto simp: commit_resume_def and_then_Inr map_ok_Inr event_of same_defs split: if_splits
      intro!: peel elim!: peel_update_run dest: switch_build_history)

lemma commit_retry_preparation_history:
  "commit_retry_preparation at q hash db = Inr db' \<Longrightarrow> G db db'"
  by (auto simp: commit_retry_preparation_def and_then_Inr map_ok_Inr event_of same_defs split: if_splits
      intro!: peel elim!: peel_update_run dest: switch_build_history)

lemma commit_retry_history: "commit_retry at q hash target db = Inr db' \<Longrightarrow> G db db'"
  by (auto simp: commit_retry_def and_then_Inr map_ok_Inr Let_def split_beta event_of same_defs
      split: if_splits intro!: peel elim!: peel_update_run dest: switch_build_history)

lemma advance_history: "advance at q x answers db = Inr db' \<Longrightarrow> G db db'"
  by (erule advance_Inr) (auto simp: same_defs refl intro!: peel)

lemma operation_commits_history:
  assumes "db_wf db"
  shows "od_kind d \<noteq> RunHeadless \<Longrightarrow> commit_operation_started at d db = (res, db') \<Longrightarrow> G db db'"
    and "get_operation db i = Some row \<Longrightarrow> o_kind row = SpawnAgent \<Longrightarrow>
      G db (commit_operation_session i pane session db)"
    and "get_operation db i = Some row \<Longrightarrow> o_kind row \<noteq> RunHeadless \<Longrightarrow>
      G db (commit_operation_failed at i cause db)"
    and "get_operation db i = Some row \<Longrightarrow> o_kind row \<noteq> RunHeadless \<Longrightarrow>
      G db (commit_operation_completed at i v db)"
    and "G db (commit_log at q x level m db)" and "G db (commit_ui_feedback at q x f db)"
    and "G db (commit_stop_failed at t p why m db)"
proof -
  show "od_kind d \<noteq> RunHeadless \<Longrightarrow> commit_operation_started at d db = (res, db') \<Longrightarrow> G db db'"
    by (auto simp: commit_operation_started_def insert_operation_def split_beta Let_def refl
        intro!: peel(1) new_operation split: if_splits)
  show "get_operation db i = Some row \<Longrightarrow> o_kind row = SpawnAgent \<Longrightarrow>
      G db (commit_operation_session i pane session db)"
    by (simp add: commit_operation_session_def operation same_defs)
  show "get_operation db i = Some row \<Longrightarrow> o_kind row \<noteq> RunHeadless \<Longrightarrow>
      G db (commit_operation_failed at i cause db)"
    using assms by (auto simp: commit_operation_failed_def same_defs intro: settle_other)
  show "get_operation db i = Some row \<Longrightarrow> o_kind row \<noteq> RunHeadless \<Longrightarrow>
      G db (commit_operation_completed at i v db)"
    using assms by (auto simp: commit_operation_completed_def call_patch_def same_defs
        intro!: settle_other split: call_value.split)
qed (simp_all add: commit_log_def commit_ui_feedback_def commit_stop_failed_def event)

text \<open>A driver either keeps every result, or is at one of the two commits that save one.\<close>

lemma commit_save_result_cases:
  assumes c: "commit_save_result at key q leaf returned db = Inr db'" and wf: "db_wf db"
  shows "G db db' \<or> (\<exists>res. db' = update_execution (x_id leaf) (\<lambda>r. r\<lparr>x_result := Some res\<rparr>) db)"
proof -
  consider r x where "get_run db q = Some r" "get_execution db (x_id leaf) = Some x" | "db' = db"
    using c by (auto simp: commit_save_result_def split: option.splits)
  then show ?thesis
  proof cases
    case (1 r x)
    have "x_id x = x_id leaf" using executions.get_id [OF wf 1(2)] .
    with 1 c show ?thesis
      by (auto simp: commit_save_result_def refl split: sum.splits if_splits intro: fails_history)
  qed (simp add: refl)
qed

lemma driver_step_keeps_or_saves:
  assumes "driver_step builds r s s'"
  shows "G (s_db s) (s_db s') \<or> saves_result r s s'"
  using assms
proof (cases rule: driver_step.cases)
  case (routed_immediate run leaf art at b db')
  then show ?thesis by (cases b) (auto intro: commit_route_history)
next
  case (wait_delivered run leaf event reply art at b db')
  then show ?thesis by (cases b) (auto intro: commit_route_history)
next
  case function_returned
  then show ?thesis by (auto simp: saves_result_def)
next
  case capture_saved
  then show ?thesis by (auto simp: saves_result_def)
qed (auto intro: refl commit_fail_step_history commit_enter_subgraph_history
      commit_fail_capture_history commit_park_history commit_defect_history)

text \<open>The restart, its operations apart.\<close>

lemma recover_run_history: "recover_run at run db = Inr db' \<Longrightarrow> G db db'"
  by (auto simp: recover_run_def refl map_ok_Inr event_of same_defs split: if_splits option.splits
      intro: fail_preparation_history fails_history intro!: peel elim!: update_run_history)

lemma recover_runs_history: "recover_runs at rs db = Inr db' \<Longrightarrow> G db db'"
proof (induction rs arbitrary: db)
  case (Cons run rs)
  then obtain db1 where "recover_run at run db = Inr db1" "recover_runs at rs db1 = Inr db'"
    by (auto simp: and_then_Inr)
  then show ?case using Cons.IH recover_run_history by (blast intro: trans)
qed (simp add: refl)

text \<open>Every commit that is not a driver's, Cancel and the surfaces apart.\<close>

lemma control_step_keeps_or_attaches:
  assumes "control_step db db'" and "db_wf db"
  shows "G db db' \<or> attaches db db' \<or> (\<exists>at q. cancel at q db = Inr db')"
  using assms(1)
proof (cases rule: control_step.cases)
  case launch_step
  then show ?thesis unfolding attaches_def by blast
next
  case surface_created_step
  then show ?thesis unfolding attaches_def by blast
next
  case dismiss_step
  then show ?thesis unfolding attaches_def by blast
next
  case surface_deleted_step
  then show ?thesis unfolding attaches_def by blast
next
  case cancel_step
  then show ?thesis by blast
qed (use assms(2) in \<open>auto intro: new_artifact commit_worktree_created_history
      commit_setup_history commit_preparation_failed_history
      commit_enter_root_history pause_history commit_resume_history commit_retry_preparation_history
      commit_retry_history advance_history operation_commits_history\<close>)

end

section \<open>The commits that create or attach a run\<close>

locale run_history = commit_history +
  assumes attach: "(\<And>r. same_run r (fr r) \<and> r_status (fr r) = r_status r) \<Longrightarrow> G db (patch_run i fr db)"
    and new_run: "(\<And>i. r_status (mr i) \<noteq> Cancelled) \<Longrightarrow> G db (snd (insert_run mr db))"
begin

lemma commit_launch_history: "commit_launch at projects l db = (res, db') \<Longrightarrow> G db db'"
  by (auto simp: commit_launch_def launched_row_def Let_def split_beta refl split: if_splits option.splits
      intro!: peel new_run)

lemma update_attach_history:
  "update_run at i f db = Inr db' \<Longrightarrow> (\<And>r. same_run r (f r) \<and> r_status (f r) = r_status r) \<Longrightarrow> G db db'"
  by (auto simp: update_run_Inr same_defs intro!: attach)

lemma commit_surface_created_history: "commit_surface_created at q sf title db = Inr db' \<Longrightarrow> G db db'"
  by (auto simp: commit_surface_created_def map_ok_Inr event_of same_defs
      intro!: peel(1) elim!: update_attach_history)

lemma dismiss_history: "dismiss at q db = Inr db' \<Longrightarrow> G db db'"
  by (auto simp: dismiss_def and_then_Inr map_ok_Inr event_of same_defs split: if_splits
      intro!: peel(1) elim!: update_attach_history)

lemma attaches_history: "attaches db db' \<Longrightarrow> G db db'"
  by (auto simp: attaches_def same_defs
      intro: commit_launch_history commit_surface_created_history dismiss_history attach)

lemma control_step_history:
  assumes "control_step db db'" and "db_wf db"
  shows "G db db' \<or> (\<exists>at q. cancel at q db = Inr db')"
  using control_step_keeps_or_attaches [OF assms] attaches_history by blast

end

section \<open>The commits that save a result\<close>

locale saving_history = commit_history +
  assumes any_execution: "(\<And>r. same_entry r (fx r)) \<Longrightarrow> G db (update_execution i fx db)"
begin

lemma commit_save_result_history:
  assumes c: "commit_save_result at key q leaf returned db = Inr db'"
  shows "G db db'"
proof -
  consider r x where "get_run db q = Some r" "get_execution db (x_id leaf) = Some x" | "db' = db"
    using c by (auto simp: commit_save_result_def split: option.splits)
  then show ?thesis
    using c by cases (auto simp: commit_save_result_def refl same_defs
        split: sum.splits if_splits intro: fails_history any_execution)
qed

lemma peel_any_execution:
  "G db db' \<Longrightarrow> (\<And>r. same_entry r (f r)) \<Longrightarrow> G db (update_execution i f db')"
  by (blast intro: trans any_execution)

lemma commit_save_checkpoint_history: "G db (commit_save_checkpoint at q leaf t c sc db)"
  by (auto simp: commit_save_checkpoint_def Let_def split_beta refl same_entry_def
      intro!: peel(1) peel(8) peel_any_execution split: option.split)

lemma driver_step_history: "driver_step builds r s s' \<Longrightarrow> G (s_db s) (s_db s')"
  by (drule driver_step_keeps_or_saves)
     (auto simp: saves_result_def intro: commit_save_result_history commit_save_checkpoint_history)

end

section \<open>The commits that end a run and its operations\<close>

locale settling_history = commit_history +
  assumes any_run: "(\<And>r. same_run r (fr r) \<and> r_surface_id (fr r) = r_surface_id r) \<Longrightarrow>
      G db (patch_run i fr db)"
    and any_operation: "(\<And>r. same_operation r (fo r)) \<Longrightarrow> G db (update_operation i fo db)"
    and any_new_operation: "G db (snd (put_operation mo db))"
begin

lemma settle_history:
  "G db db' \<Longrightarrow> (\<And>r. same_operation r (f r)) \<Longrightarrow> G db (settle_operation at i st f db')"
  by (auto simp: settle_operation_def Let_def same_operation_def
      intro!: peel(1) trans [OF _ any_operation] split: option.split)


lemma cancel_history: "cancel at q db = Inr db' \<Longrightarrow> G db db'"
proof -
  assume c: "cancel at q db = Inr db'"
  define db1 where "db1 = cancel_executions at q db"
  define db2 where "db2 = cancel_invocations at q db1"
  define db3 where "db3 = cancel_headless at q db2"
  have "G db db1" unfolding db1_def cancel_executions_def
    by (rule fold_history) (auto simp: refl same_defs intro!: peel)
  then have "G db db2" unfolding db2_def cancel_invocations_def
    by (intro fold_history) (auto simp: same_defs intro!: peel)
  then have g3: "G db db3" unfolding db3_def cancel_headless_def
    by (intro fold_history) (auto simp: same_defs intro!: settle_history)
  obtain d db4 where "update_run at q (\<lambda>r. r\<lparr>r_status := Cancelled, r_ended_at := Some at\<rparr>) db3 = Inr db4"
    "db' = append_event at d db4"
    using c by (auto simp: cancel_def and_then_Inr map_ok_Inr event_of db1_def db2_def db3_def split: if_splits)
  then show ?thesis using g3 by (auto simp: update_run_Inr same_defs intro!: peel(1) trans [OF _ any_run])
qed

lemma recover_history: "recover_at_startup at db = Inr db' \<Longrightarrow> G db db'"
proof -
  assume c: "recover_at_startup at db = Inr db'"
  have "G db (recover_operations at db)"
    unfolding recover_operations_def
    by (rule fold_history) (auto simp: refl same_defs intro!: settle_history)
  then show ?thesis
    using c by (auto simp: recover_at_startup_def Let_def intro: trans dest: recover_runs_history)
qed

lemma headless_history:
  "commit_operation_started at d db = (res, db') \<Longrightarrow> G db db'"
  "G db (commit_operation_failed at i cause db)"
  "G db (commit_headless_settled at i timed_out captured ex db)"
proof -
  show "commit_operation_started at d db = (res, db') \<Longrightarrow> G db db'"
    by (auto simp: commit_operation_started_def insert_operation_def split_beta Let_def refl
        intro!: peel(1) any_new_operation split: if_splits)
qed (simp_all add: commit_operation_failed_def commit_headless_settled_def Let_def refl same_operation_def
      settle_history)

lemma job_step_history:
  assumes "job_step s s'"
  shows "G (s_db s) (s_db s')"
  using assms
proof (cases rule: job_step.cases)
  case (job_settled p t timed_out committed at captured ex)
  then show ?thesis
    by (cases committed) (simp_all add: settle_end_def headless_history refl)
qed (auto simp: refl event headless_history stop_tracked_def time_out_headless_def commit_stop_failed_def
      with_db_def split: option.split intro: headless_history)

end

section \<open>What the relations keep\<close>

definition headless_rows :: "operation_row list \<Rightarrow> (nat \<times> nat \<times> operation_status) list" where
  "headless_rows rs =
     map (\<lambda>r. (o_id r, o_run_id r, o_status r)) (filter (\<lambda>r. o_kind r = RunHeadless) rs)"

definition calm :: "db \<Rightarrow> db \<Rightarrow> bool" where
  "calm db db' =
     ((\<forall>r' \<in> set (all_runs db'). r_status r' = Cancelled \<longrightarrow>
         (\<exists>r \<in> set (all_runs db). r_id r = r_id r' \<and> r_status r = Cancelled)) \<and>
      headless_rows (all_operations db') = headless_rows (all_operations db))"

lemma headless_rows_map:
  "(\<And>r. r \<in> set xs \<Longrightarrow> o_kind (f r) = o_kind r \<and> (o_kind r = RunHeadless \<longrightarrow>
      o_id (f r) = o_id r \<and> o_run_id (f r) = o_run_id r \<and> o_status (f r) = o_status r)) \<Longrightarrow>
     headless_rows (map f xs) = headless_rows xs"
  by (induction xs) (simp_all add: headless_rows_def)

lemma headless_rows_snoc: "o_kind r \<noteq> RunHeadless \<Longrightarrow> headless_rows (xs @ [r]) = headless_rows xs"
  by (simp add: headless_rows_def)

interpretation strict: settling_history "grows same_execution"
  by unfold_locales
     (auto simp: same_defs intro: grows_refl grows_trans append_event_grows patch_run_grows
        update_invocation_grows update_execution_grows update_operation_grows insert_grows)

interpretation strict_runs: run_history "grows same_execution"
  by unfold_locales (auto intro: patch_run_grows insert_grows)

interpretation entries: settling_history "grows same_entry"
  by unfold_locales
     (auto simp: same_defs intro: grows_refl grows_trans append_event_grows patch_run_grows
        update_invocation_grows update_execution_grows update_operation_grows insert_grows)

interpretation entry_runs: run_history "grows same_entry"
  by unfold_locales (auto intro: patch_run_grows insert_grows)

interpretation saved: saving_history "grows same_entry"
  by unfold_locales (auto intro: update_execution_grows)

interpretation calm: saving_history calm
proof unfold_locales
  fix a b c assume "calm a b" "calm b c"
  then show "calm a c" unfolding calm_def by metis
next
  fix db i row fo assume wf: "db_wf db" and r: "get_operation db i = Some row" "o_kind row \<noteq> RunHeadless"
    and keep: "\<And>r. same_operation r (fo r)"
  have "o_id r = i \<Longrightarrow> r \<in> set (all_operations db) \<Longrightarrow> o_kind r \<noteq> RunHeadless" for r
    using operations.get_iff [OF wf, of i r] r by auto
  moreover have "o_kind (fo r) = o_kind r" for r using keep [of r] by (simp add: same_operation_def)
  ultimately show "calm db (update_operation i fo db)"
    by (auto simp: calm_def operations.list_upd intro!: headless_rows_map)
next
  fix db i fo assume "\<And>r. calm_operation r (fo r)"
  then show "calm db (update_operation i fo db)"
    by (auto simp: calm_def operations.list_upd same_defs intro!: headless_rows_map)
next
  fix db and mo :: "nat \<Rightarrow> operation_row" assume "\<And>i. o_kind (mo i) \<noteq> RunHeadless"
  then have "o_kind (fst (put_operation mo db)) \<noteq> RunHeadless"
    by (simp add: put_operation_def tab_insert_def Let_def)
  then show "calm db (snd (put_operation mo db))"
    by (auto simp: calm_def operations.list_ins other_tables headless_rows_snoc)
qed (auto simp: calm_def runs.list_upd other_tables same_defs)

interpretation calm_runs: run_history calm
proof unfold_locales
  fix db and mr :: "nat \<Rightarrow> run_row" assume "\<And>i. r_status (mr i) \<noteq> Cancelled"
  then have "r_status (fst (insert_run mr db)) \<noteq> Cancelled"
    by (simp add: insert_run_def tab_insert_def Let_def)
  then show "calm db (snd (insert_run mr db))"
    by (auto simp: calm_def runs.list_ins other_tables)
qed (auto simp: calm_def runs.list_upd same_defs)

end
