(* ===== verification/Engine_History.thy ===== *)
theory Engine_History
  imports History
begin

text \<open>
  The history of the engine: over every step the event log and the tables only grow, a saved result
  is written once, and no headless operation is running that nothing tracks.
\<close>

section \<open>The log and the rows\<close>

lemma engine_step_grows:
  assumes "engine_step builds s s'" and wf: "db_wf (s_db s)"
  shows "grows same_entry (s_db s) (s_db s')"
  using assms(1)
proof (cases rule: engine_step.cases)
  case (engine_control db')
  then show ?thesis
    using entry_runs.control_step_history [OF engine_control(2) wf] by (auto intro: entries.cancel_history)
next
  case engine_kick
  then show ?thesis by (simp add: entries.refl)
next
  case engine_driver
  then show ?thesis by (auto intro: saved.driver_step_history)
next
  case engine_job
  then show ?thesis by (auto intro: entries.job_step_history)
next
  case engine_restart
  then show ?thesis by (auto intro: entries.recover_history)
qed

section \<open>Results are written once\<close>

lemma grows_get:
  assumes "grows X db db'" and "db_wf db" and "db_wf db'" and "get_execution db x = Some r"
    and X: "\<And>a b. X a b \<Longrightarrow> x_id b = x_id a"
  shows "\<exists>r'. get_execution db' x = Some r' \<and> X r r'"
proof -
  have "r \<in> set (all_executions db)" "x_id r = x" using assms(2,4) executions.get_iff by auto
  then obtain r' where "r' \<in> set (all_executions db')" "X r r'"
    using assms(1) rows_grow_member unfolding grows_def by metis
  then show ?thesis using X \<open>x_id r = x\<close> executions.get_iff [OF assms(3)] by metis
qed

definition keeps_saved :: "nat \<Rightarrow> db \<Rightarrow> db \<Rightarrow> bool" where
  "keeps_saved q db db' =
     (\<forall>x r. get_execution db x = Some r \<and> (x_run_id r \<noteq> q \<or> x_result r \<noteq> None) \<longrightarrow>
        (\<exists>r'. get_execution db' x = Some r' \<and> same_execution r r'))"

lemma strict_keeps_saved:
  "grows same_execution db db' \<Longrightarrow> db_wf db \<Longrightarrow> db_wf db' \<Longrightarrow> keeps_saved q db db'"
  by (auto simp: keeps_saved_def same_execution_def same_entry_def dest!: grows_get)

definition leaf_row :: "db \<Rightarrow> nat \<Rightarrow> execution_row \<Rightarrow> json saved_result option \<Rightarrow> bool" where
  "leaf_row db q leaf res =
     (\<exists>r. get_execution db (x_id leaf) = Some r \<and> x_run_id r = q \<and> x_result r = res)"

fun result_phase :: "db \<Rightarrow> nat \<Rightarrow> phase \<Rightarrow> bool" where
  "result_phase db q (GotLeaf run leaf) = leaf_row db q leaf (x_result leaf)"
| "result_phase db q (Calling run leaf key) = leaf_row db q leaf None"
| "result_phase db q (Capturing run leaf) = (\<exists>res. leaf_row db q leaf res)"
| "result_phase db q p = True"

definition results_ok :: "sys \<Rightarrow> bool" where
  "results_ok s = (\<forall>q p. phase_of s q = Some p \<longrightarrow> result_phase (s_db s) q p)"

lemma result_phase_step:
  assumes "result_phase db q p" and "\<And>leaf res. leaf_row db q leaf res \<Longrightarrow> leaf_row db' q leaf res"
  shows "result_phase db' q p"
  using assms by (cases p) auto

lemma leaf_row_strict:
  assumes "leaf_row db q leaf res" and "grows same_execution db db'" and "db_wf db" and "db_wf db'"
  shows "leaf_row db' q leaf res"
  using assms(1) grows_get [OF assms(2-4), of "x_id leaf"]
  by (fastforce simp: leaf_row_def same_execution_def same_entry_def)

lemma leaf_row_other:
  assumes "leaf_row db q leaf res" and "keeps_saved r db db'" and "q \<noteq> r"
  shows "leaf_row db' q leaf res"
  using assms by (fastforce simp: leaf_row_def keeps_saved_def same_execution_def same_entry_def)

lemma step_action_cases:
  "step_action leaf = RunNodeFunction \<Longrightarrow> x_result leaf = None"
  by (auto simp: step_action_def split: if_splits option.splits saved_result.splits)

lemma find_leaf_row:
  "db_wf db \<Longrightarrow> find_leaf_execution db q = Some leaf \<Longrightarrow> leaf_row db q leaf (x_result leaf)"
  using find_last_Some executions.get_iff
  by (fastforce simp: find_leaf_execution_def leaf_row_def list_executions_def)

lemma commit_save_checkpoint_cases:
  assumes wf: "db_wf db" and "db' = commit_save_checkpoint at q leaf t c sc db"
  shows "db' = db \<or> (\<exists>xr. get_execution db (x_id leaf) = Some xr \<and> x_result xr = None) \<and>
    (\<forall>x. x \<noteq> x_id leaf \<longrightarrow> get_execution db' x = get_execution db x)"
proof -
  have "get_execution (snd (insert_checkpoint e db)) = get_execution db" for e
    by (simp add: insert_checkpoint_def split_beta fun_eq_iff table_defs)
  moreover have "db_wf (snd (insert_checkpoint e db))" if "\<And>n. c_id (e n) = n" for e
    using wf that by (auto simp: insert_checkpoint_def db_wf_def split_beta intro!: tab_laws(3))
  ultimately show ?thesis
    using assms(2)
    by (auto simp: commit_save_checkpoint_def Let_def split_beta executions.get_upd split: option.splits if_splits)
qed

text \<open>A driver saves only a result that is not there, of its own run.\<close>

lemma driver_step_keeps_saved:
  assumes st: "driver_step builds r s s'" and ok: "sys_ok s" and res: "results_ok s"
  shows "keeps_saved r (s_db s) (s_db s')"
proof -
  have wf: "db_wf (s_db s)" "db_wf (s_db s')"
    using ok driver_step_ok [OF st ok] by (auto simp: sys_ok_def dest: db_okD(1))
  have phase: "result_phase (s_db s) r p" if "phase_of s r = Some p" for p
    using res that by (simp add: results_ok_def)
  from strict.driver_step_keeps_or_saves [OF st]
  consider "grows same_execution (s_db s) (s_db s')" | "saves_result r s s'" by blast
  then show ?thesis
  proof cases
    case 1
    then show ?thesis using wf by (rule strict_keeps_saved)
  next
    case 2
    then consider (fn) run leaf key at returned where "phase_of s r = Some (Calling run leaf key)"
        "commit_save_result at key r leaf returned (s_db s) = Inr (s_db s')"
      | (cp) run leaf at t c sc where "phase_of s r = Some (Capturing run leaf)"
        "s_db s' = commit_save_checkpoint at r leaf t c sc (s_db s)"
      by (auto simp: saves_result_def)
    then show ?thesis
    proof cases
      case fn
      have none: "leaf_row (s_db s) r leaf None" using phase [OF fn(1)] by simp
      from strict.commit_save_result_cases [OF fn(2) wf(1)] show ?thesis
      proof
        assume "grows same_execution (s_db s) (s_db s')"
        then show ?thesis using wf by (rule strict_keeps_saved)
      next
        assume "\<exists>res. s_db s' = update_execution (x_id leaf) (\<lambda>r. r\<lparr>x_result := Some res\<rparr>) (s_db s)"
        then obtain res where
          "s_db s' = update_execution (x_id leaf) (\<lambda>r. r\<lparr>x_result := Some res\<rparr>) (s_db s)" ..
        with none show ?thesis
          by (auto simp: keeps_saved_def leaf_row_def executions.get_upd [OF wf(1)] same_defs)
      qed
    next
      case cp
      obtain res where row: "leaf_row (s_db s) r leaf res" using phase [OF cp(1)] by auto
      have same: "s_db s' = s_db s \<or> res = None \<and>
          (\<forall>x. x \<noteq> x_id leaf \<longrightarrow> get_execution (s_db s') x = get_execution (s_db s) x)"
        using commit_save_checkpoint_cases [OF wf(1) cp(2)] row by (auto simp: leaf_row_def)
      show ?thesis
        unfolding keeps_saved_def
      proof (intro allI impI)
        fix x xr assume x: "get_execution (s_db s) x = Some xr \<and> (x_run_id xr \<noteq> r \<or> x_result xr \<noteq> None)"
        have "s_db s' = s_db s \<or> x \<noteq> x_id leaf" using same row x by (auto simp: leaf_row_def)
        with same have "get_execution (s_db s') x = get_execution (s_db s) x" by auto
        with x show "\<exists>r'. get_execution (s_db s') x = Some r' \<and> same_execution xr r'"
          by (auto simp: same_defs)
      qed
    qed
  qed
qed

lemma results_ok_strict:
  assumes res: "results_ok s" and g: "grows same_execution (s_db s) (s_db s')"
    and wf: "db_wf (s_db s)" "db_wf (s_db s')"
    and ph: "\<And>q. phase_of s' q = phase_of s q \<or> phase_of s' q = Some AtStart \<or> phase_of s' q = None"
  shows "results_ok s'"
  unfolding results_ok_def
proof (intro allI impI)
  fix q p assume p: "phase_of s' q = Some p"
  show "result_phase (s_db s') q p"
  proof (cases "phase_of s q = Some p")
    case True
    then have "result_phase (s_db s) q p" using res by (simp add: results_ok_def)
    then show ?thesis by (rule result_phase_step) (rule leaf_row_strict [OF _ g wf])
  next
    case False
    with ph [of q] p have "p = AtStart" by auto
    then show ?thesis by simp
  qed
qed

text \<open>A driver's own phase after its step.\<close>

lemma driver_step_result_phase:
  assumes st: "driver_step builds r s s'" and wf: "db_wf (s_db s)" and res: "results_ok s"
    and p: "phase_of s' r = Some p"
  shows "result_phase (s_db s') r p"
proof -
  have phase: "result_phase (s_db s) r p" if "phase_of s r = Some p" for p
    using res that by (simp add: results_ok_def)
  from st show ?thesis
  proof (cases rule: driver_step.cases)
    case (read_leaf run leaf)
    then show ?thesis using p find_leaf_row [OF wf] by auto
  next
    case (function_called run leaf art dst st i)
    then show ?thesis using p phase [of "GotLeaf run leaf"] step_action_cases [of leaf] by auto
  next
    case (capture_begun run leaf)
    then show ?thesis using p phase [of "GotLeaf run leaf"] by auto
  next
    case (routed_immediate run leaf art at b db')
    then show ?thesis using p by (cases b) (auto dest: park_phase)
  next
    case (wait_delivered run leaf event reply art at b db')
    then show ?thesis using p by (cases b) (auto dest: park_phase)
  qed (use p in \<open>auto dest: park_phase\<close>)
qed

lemma driver_step_other_phase:
  assumes "driver_step builds r s s'" and "q \<noteq> r"
  shows "phase_of s' q = phase_of s q"
  using assms(1)
proof (cases rule: driver_step.cases)
  case (routed_immediate run leaf art at b db')
  then show ?thesis using assms(2) by (cases b) (simp_all add: park_other)
next
  case (wait_delivered run leaf event reply art at b db')
  then show ?thesis using assms(2) by (cases b) (simp_all add: park_other)
qed (use assms(2) in \<open>simp_all add: park_other\<close>)

lemma engine_step_results_ok:
  assumes st: "engine_step builds s s'" and ok: "sys_ok s" and res: "results_ok s"
  shows "results_ok s'"
proof -
  have wf: "db_wf (s_db s)" "db_wf (s_db s')"
    using ok engine_step_ok [OF st ok] by (auto simp: sys_ok_def dest: db_okD(1))
  from st show ?thesis
  proof (cases rule: engine_step.cases)
    case (engine_control db')
    then have "grows same_execution (s_db s) (s_db s')"
      using strict_runs.control_step_history [OF engine_control(2) wf(1)] by (auto intro: strict.cancel_history)
    then show ?thesis by (rule results_ok_strict [OF res _ wf]) (simp add: engine_control)
  next
    case (engine_kick r)
    then show ?thesis
      by (intro results_ok_strict [OF res _ wf]) (auto simp: phase_of_kick strict.refl)
  next
    case (engine_driver r)
    show ?thesis unfolding results_ok_def
    proof (intro allI impI)
      fix q p assume p: "phase_of s' q = Some p"
      show "result_phase (s_db s') q p"
      proof (cases "q = r")
        case True
        then show ?thesis using driver_step_result_phase [OF engine_driver(1) wf(1) res] p by simp
      next
        case False
        then have "phase_of s q = Some p" using driver_step_other_phase [OF engine_driver(1)] p by simp
        then have "result_phase (s_db s) q p" using res by (simp add: results_ok_def)
        then show ?thesis
          by (rule result_phase_step)
             (rule leaf_row_other [OF _ driver_step_keeps_saved [OF engine_driver(1) ok res] False])
      qed
    qed
  next
    case engine_job
    then show ?thesis
      using job_step_effect [OF engine_job wf(1)] strict.job_step_history
      by (intro results_ok_strict [OF res _ wf]) blast+
  next
    case engine_restart
    then show ?thesis by (simp add: results_ok_def phase_of_def)
  qed
qed

lemma reachable_results_ok: "reachable builds s \<Longrightarrow> results_ok s"
proof (induction rule: reachable.induct)
  case reach_initial
  then show ?case by (simp add: results_ok_def initial_sys_def phase_of_def)
next
  case (reach_step s s')
  then show ?case using engine_step_results_ok reachable_ok by blast
qed

lemma engine_step_keeps_saved:
  assumes st: "engine_step builds s s'" and ok: "sys_ok s" and res: "results_ok s"
    and x: "get_execution (s_db s) x = Some r" "x_result r \<noteq> None"
  shows "\<exists>r'. get_execution (s_db s') x = Some r' \<and> same_execution r r'"
proof -
  have wf: "db_wf (s_db s)" "db_wf (s_db s')"
    using ok engine_step_ok [OF st ok] by (auto simp: sys_ok_def dest: db_okD(1))
  have "\<exists>q. keeps_saved q (s_db s) (s_db s')"
    using st
  proof (cases rule: engine_step.cases)
    case (engine_control db')
    then have "grows same_execution (s_db s) (s_db s')"
      using strict_runs.control_step_history [OF engine_control(2) wf(1)] by (auto intro: strict.cancel_history)
    then show ?thesis using wf strict_keeps_saved by blast
  next
    case (engine_driver r)
    then show ?thesis using driver_step_keeps_saved ok res by blast
  next
    case engine_job
    then show ?thesis using strict.job_step_history wf strict_keeps_saved by blast
  next
    case (engine_restart at db')
    then have "grows same_execution (s_db s) (s_db s')" by (auto intro: strict.recover_history)
    then show ?thesis using wf strict_keeps_saved by blast
  next
    case engine_kick
    then show ?thesis using strict_keeps_saved [OF strict.refl wf(1) wf(1)] by auto
  qed
  then show ?thesis using x by (auto simp: keeps_saved_def)
qed

end
