(* ===== verification/Headless_Jobs.thy ===== *)
theory Headless_Jobs
  imports Engine_History
begin

text \<open>
  No headless operation is left running that nothing tracks: while its row says \<open>running\<close>, its launch
  is in flight or its process is tracked, so that an exit, a timeout or a check of the wait can still
  end it. The invariant also says what Cancel promises: a cancelled run has no headless operation
  running.
\<close>

section \<open>What a settlement does to the headless operations\<close>

definition headless_of :: "db \<Rightarrow> (nat \<times> nat \<times> operation_status) set" where
  "headless_of db = set (headless_rows (all_operations db))"

lemma headless_of_iff:
  "(i, q, st) \<in> headless_of db \<longleftrightarrow>
     (\<exists>r \<in> set (all_operations db). o_kind r = RunHeadless \<and> o_id r = i \<and> o_run_id r = q \<and> o_status r = st)"
  by (auto simp: headless_of_def headless_rows_def)

lemma all_operations_settle:
  "all_operations (settle_operation at i st f db) =
     map (\<lambda>r. if o_id r = i then (f r)\<lparr>o_status := st, o_ended_at := Some at\<rparr> else r) (all_operations db)"
proof -
  have "all_operations (append_event at d db') = all_operations db'" for d db'
    by (simp add: append_event_def all_operations_def split_beta)
  then show ?thesis
    by (simp add: settle_operation_def Let_def operations.list_upd split: option.split)
qed

lemma headless_of_settle:
  assumes "\<And>r. same_operation r (f r)"
  shows "(j, q, s) \<in> headless_of (settle_operation at i st f db) \<longleftrightarrow>
    (if j = i then s = st \<and> (\<exists>s0. (j, q, s0) \<in> headless_of db) else (j, q, s) \<in> headless_of db)"
proof -
  define u where "u r = (if o_id r = i then (f r)\<lparr>o_status := st, o_ended_at := Some at\<rparr> else r)" for r
  have u: "o_kind (u r) = o_kind r" "o_id (u r) = o_id r" "o_run_id (u r) = o_run_id r"
    "o_status (u r) = (if o_id r = i then st else o_status r)" for r
    using assms [of r] by (simp_all add: u_def same_operation_def)
  have "all_operations (settle_operation at i st f db) = map u (all_operations db)"
    unfolding all_operations_settle u_def ..
  then have "(j, q, s) \<in> headless_of (settle_operation at i st f db) \<longleftrightarrow>
    (\<exists>r \<in> set (all_operations db). o_kind r = RunHeadless \<and> o_id r = j \<and> o_run_id r = q \<and>
       (if o_id r = i then st else o_status r) = s)"
    by (simp add: headless_of_iff u)
  also have "\<dots> \<longleftrightarrow> (if j = i
      then s = st \<and> (\<exists>r \<in> set (all_operations db). o_kind r = RunHeadless \<and> o_id r = j \<and> o_run_id r = q)
      else (j, q, s) \<in> headless_of db)"
    unfolding headless_of_iff by (cases "j = i") (auto split: if_split_asm)
  also have "(\<exists>r \<in> set (all_operations db). o_kind r = RunHeadless \<and> o_id r = j \<and> o_run_id r = q) \<longleftrightarrow>
      (\<exists>s0. (j, q, s0) \<in> headless_of db)"
    unfolding headless_of_iff by blast
  finally show ?thesis .
qed

text \<open>Operations end, and those of \<open>P\<close> have ended.\<close>

definition ends :: "(nat \<Rightarrow> nat \<Rightarrow> bool) \<Rightarrow> db \<Rightarrow> db \<Rightarrow> bool" where
  "ends P db db' =
     ((\<forall>j q s. (j, q, s) \<in> headless_of db' \<longrightarrow> (\<exists>s0. (j, q, s0) \<in> headless_of db)) \<and>
      (\<forall>j q s. (j, q, s) \<in> headless_of db \<longrightarrow> (\<exists>s'. (j, q, s') \<in> headless_of db')) \<and>
      (\<forall>j q. (j, q, OpRunning) \<in> headless_of db' \<longrightarrow> (j, q, OpRunning) \<in> headless_of db \<and> \<not> P j q))"

lemma ends_settle:
  assumes "\<And>r. same_operation r (f r)" and "st \<noteq> OpRunning"
  shows "ends (\<lambda>j q. j = i) db (settle_operation at i st f db)"
  using assms(2) unfolding ends_def headless_of_settle [OF assms(1)] by (auto split: if_splits)

lemma ends_trans: "ends P a b \<Longrightarrow> ends Q b c \<Longrightarrow> ends (\<lambda>j q. P j q \<or> Q j q) a c"
  unfolding ends_def by blast

lemma ends_mono: "ends P a b \<Longrightarrow> (\<And>j q. (j, q, OpRunning) \<in> headless_of a \<Longrightarrow> Q j q \<Longrightarrow> P j q) \<Longrightarrow> ends Q a b"
  unfolding ends_def by blast

lemma calm_ends: "calm db db' \<Longrightarrow> headless_of db' = headless_of db"
  by (simp add: calm_def headless_of_def)

lemma same_ends: "headless_of db' = headless_of db \<Longrightarrow> ends (\<lambda>j q. False) db db'"
  by (auto simp: ends_def)

lemma ends_fold:
  assumes "\<And>x. x \<in> set xs \<Longrightarrow> P x \<Longrightarrow> (\<And>r. same_operation r (f x r))" and "st \<noteq> OpRunning"
  shows "ends (\<lambda>j q. \<exists>x \<in> set xs. P x \<and> j = o_id x) db
     (fold (\<lambda>x. if P x then settle_operation at (o_id x) st (f x) else id) xs db)"
  using assms(1)
proof (induction xs arbitrary: db)
  case (Cons x xs)
  let ?step = "(if P x then settle_operation at (o_id x) st (f x) else id) db"
  have "ends (\<lambda>j q. P x \<and> j = o_id x) db ?step"
    using ends_settle [of "f x" st "o_id x" db at] assms(2) Cons.prems [of x]
    by (auto simp: same_ends)
  then show ?case
    using ends_trans [OF _ Cons.IH [of ?step]] Cons.prems by (auto elim!: ends_mono)
qed (simp add: same_ends)

lemma listed_operations:
  "set (list_operations db (any_operation\<lparr>oq_run := Some q, oq_status := Some OpRunning\<rparr>)) =
     {r \<in> set (all_operations db). o_run_id r = q \<and> o_status r = OpRunning}"
  "set (list_operations db (any_operation\<lparr>oq_status := Some OpRunning\<rparr>)) =
     {r \<in> set (all_operations db). o_status r = OpRunning}"
  by (auto simp: list_operations_def any_operation_def matches_def after_cursor_def Let_def)

lemma cancel_headless_ends: "ends (\<lambda>j r. r = q) db (cancel_headless at q db)"
proof (rule ends_mono)
  show "ends (\<lambda>j r. \<exists>x \<in> set (list_operations db
        (any_operation\<lparr>oq_run := Some q, oq_status := Some OpRunning\<rparr>)). o_kind x = RunHeadless \<and> j = o_id x)
      db (cancel_headless at q db)"
    unfolding cancel_headless_def by (rule ends_fold) (simp_all add: same_operation_def)
  fix j r assume "(j, r, OpRunning) \<in> headless_of db" and "r = q"
  then show "\<exists>x \<in> set (list_operations db
        (any_operation\<lparr>oq_run := Some q, oq_status := Some OpRunning\<rparr>)). o_kind x = RunHeadless \<and> j = o_id x"
    by (auto simp: headless_of_iff listed_operations)
qed

lemma recover_operations_ends: "ends (\<lambda>j r. True) db (recover_operations at db)"
proof (rule ends_mono)
  show "ends (\<lambda>j r. \<exists>x \<in> set (list_operations db (any_operation\<lparr>oq_status := Some OpRunning\<rparr>)).
        True \<and> j = o_id x) db (recover_operations at db)"
    unfolding recover_operations_def
    using ends_fold [where P = "\<lambda>_. True" and f = "\<lambda>r row. row\<lparr>o_result := Some (restart_record r)\<rparr>"
        and st = OpInterrupted] by (simp add: same_operation_def)
  fix j r assume "(j, r, OpRunning) \<in> headless_of db"
  then show "\<exists>x \<in> set (list_operations db (any_operation\<lparr>oq_status := Some OpRunning\<rparr>)). True \<and> j = o_id x"
    by (auto simp: headless_of_iff listed_operations)
qed

section \<open>The invariant\<close>

definition owned :: "sys \<Rightarrow> nat \<Rightarrow> bool" where
  "owned s i = (i \<in> s_launching s \<or> (\<exists>p t. s_processes s p = Some t \<and> tk_operation t = i))"

definition jobs_ok :: "sys \<Rightarrow> bool" where
  "jobs_ok s =
     ((\<forall>i q. (i, q, OpRunning) \<in> headless_of (s_db s) \<longrightarrow> owned s i) \<and>
      (\<forall>p t. s_processes s p = Some t \<longrightarrow> (\<exists>st. (tk_operation t, tk_run t, st) \<in> headless_of (s_db s))) \<and>
      (\<forall>i \<in> s_launching s. \<exists>q st. (i, q, st) \<in> headless_of (s_db s)) \<and>
      (\<forall>r \<in> set (all_runs (s_db s)). r_status r = Cancelled \<longrightarrow>
         (\<forall>i. (i, r_id r, OpRunning) \<notin> headless_of (s_db s))))"

lemma jobs_okD:
  assumes "jobs_ok s"
  shows "(i, q, OpRunning) \<in> headless_of (s_db s) \<Longrightarrow> owned s i"
    and "s_processes s p = Some t \<Longrightarrow> \<exists>st. (tk_operation t, tk_run t, st) \<in> headless_of (s_db s)"
    and "i \<in> s_launching s \<Longrightarrow> \<exists>q st. (i, q, st) \<in> headless_of (s_db s)"
    and "r \<in> set (all_runs (s_db s)) \<Longrightarrow> r_status r = Cancelled \<Longrightarrow> (i, r_id r, OpRunning) \<notin> headless_of (s_db s)"
  using assms unfolding jobs_ok_def by blast+

text \<open>
  A step that ends operations: what it stops tracking has ended, and the runs it leaves cancelled
  were cancelled before or have nothing running.
\<close>

lemma jobs_ok_ends:
  assumes ok: "jobs_ok s" and e: "ends P (s_db s) (s_db s')"
    and own: "\<And>i q. (i, q, OpRunning) \<in> headless_of (s_db s') \<Longrightarrow> owned s i \<Longrightarrow> owned s' i"
    and ps: "\<And>p t. s_processes s' p = Some t \<Longrightarrow>
      (\<exists>t0. s_processes s p = Some t0 \<and> tk_operation t = tk_operation t0 \<and> tk_run t = tk_run t0) \<or>
      (\<exists>st. (tk_operation t, tk_run t, st) \<in> headless_of (s_db s'))"
    and la: "s_launching s' \<subseteq> s_launching s"
    and runs: "\<And>r. r \<in> set (all_runs (s_db s')) \<Longrightarrow> r_status r = Cancelled \<Longrightarrow>
      (\<exists>r0 \<in> set (all_runs (s_db s)). r_id r0 = r_id r \<and> r_status r0 = Cancelled) \<or> (\<forall>j. P j (r_id r))"
  shows "jobs_ok s'"
  unfolding jobs_ok_def
proof (intro conjI allI ballI impI)
  fix i q assume i: "(i, q, OpRunning) \<in> headless_of (s_db s')"
  then have "(i, q, OpRunning) \<in> headless_of (s_db s)" using e by (auto simp: ends_def)
  then show "owned s' i" using jobs_okD(1) [OF ok] own [OF i] by blast
next
  fix p t assume "s_processes s' p = Some t"
  then show "\<exists>st. (tk_operation t, tk_run t, st) \<in> headless_of (s_db s')"
    using ps jobs_okD(2) [OF ok] e unfolding ends_def by metis
next
  fix i assume "i \<in> s_launching s'"
  then show "\<exists>q st. (i, q, st) \<in> headless_of (s_db s')"
    using la jobs_okD(3) [OF ok, of i] e unfolding ends_def by blast
next
  fix r i assume r: "r \<in> set (all_runs (s_db s'))" "r_status r = Cancelled"
  show "(i, r_id r, OpRunning) \<notin> headless_of (s_db s')"
  proof
    assume "(i, r_id r, OpRunning) \<in> headless_of (s_db s')"
    then have "(i, r_id r, OpRunning) \<in> headless_of (s_db s)" "\<not> P i (r_id r)"
      using e unfolding ends_def by blast+
    then show False using runs [OF r] jobs_okD(4) [OF ok] by metis
  qed
qed

lemma jobs_ok_calm:
  assumes "jobs_ok s" and "calm (s_db s) (s_db s')"
    and "s_processes s' = s_processes s" and "s_launching s' = s_launching s"
  shows "jobs_ok s'"
proof (rule jobs_ok_ends [OF assms(1) same_ends])
  show "headless_of (s_db s') = headless_of (s_db s)" using assms(2) by (rule calm_ends)
  fix r assume "r \<in> set (all_runs (s_db s'))" "r_status r = Cancelled"
  then show "(\<exists>r0 \<in> set (all_runs (s_db s)). r_id r0 = r_id r \<and> r_status r0 = Cancelled) \<or> (\<forall>j. False)"
    using assms(2) unfolding calm_def by blast
qed (use assms(3,4) in \<open>auto simp: owned_def\<close>)

section \<open>Every step keeps it\<close>

lemma fold_keeps_runs:
  "(\<And>x d. all_runs (g x d) = all_runs d) \<Longrightarrow> all_runs (fold g xs d) = all_runs d"
  by (induction xs arbitrary: d) simp_all

lemma cancel_ends:
  assumes c: "cancel at q db = Inr db'"
  shows "ends (\<lambda>j r. r = q) db db'"
    and "r \<in> set (all_runs db') \<Longrightarrow> r_status r = Cancelled \<Longrightarrow>
      (\<exists>r0 \<in> set (all_runs db). r_id r0 = r_id r \<and> r_status r0 = Cancelled) \<or> r_id r = q"
proof -
  define db2 where "db2 = cancel_invocations at q (cancel_executions at q db)"
  define db3 where "db3 = cancel_headless at q db2"
  have "calm db (cancel_executions at q db)" unfolding cancel_executions_def
    by (rule calm.fold_history) (auto simp: calm.refl same_defs intro!: calm.peel)
  then have c2: "calm db db2" unfolding db2_def cancel_invocations_def
    by (intro calm.fold_history) (auto simp: same_defs intro!: calm.peel)
  have r3: "all_runs db3 = all_runs db2"
    unfolding db3_def cancel_headless_def by (rule fold_keeps_runs) simp
  obtain d db4 where up: "update_run at q (\<lambda>r. r\<lparr>r_status := Cancelled, r_ended_at := Some at\<rparr>) db3 = Inr db4"
    and db': "db' = append_event at d db4"
    using c by (auto simp: cancel_def and_then_Inr map_ok_Inr event_of db2_def db3_def split: if_splits)
  have ops: "headless_of db' = headless_of db3"
    using up by (auto simp: db' update_run_Inr headless_of_def append_event_def all_operations_def split_beta
        patch_run_def)
  have "ends (\<lambda>j r. r = q) db db3"
    using ends_trans [OF same_ends [OF calm_ends [OF c2]] cancel_headless_ends [of q db2 at]]
    by (simp add: db3_def)
  then show "ends (\<lambda>j r. r = q) db db'" unfolding ends_def ops .
  show "(\<exists>r0 \<in> set (all_runs db). r_id r0 = r_id r \<and> r_status r0 = Cancelled) \<or> r_id r = q"
    if r: "r \<in> set (all_runs db')" "r_status r = Cancelled"
  proof (cases "r_id r = q")
    case False
    then have "r \<in> set (all_runs db3)"
      using up r by (auto simp: db' update_run_Inr runs.list_upd split: if_splits)
    then show ?thesis using r(2) r3 c2 unfolding calm_def by auto
  qed simp
qed

lemma restart_ends:
  assumes c: "recover_at_startup at db = Inr db'"
  shows "(i, q, OpRunning) \<notin> headless_of db'"
proof -
  have "calm (recover_operations at db) db'"
    using c by (auto simp: recover_at_startup_def Let_def intro: calm.recover_runs_history)
  then show ?thesis
    using calm_ends recover_operations_ends [of db at] by (auto simp: ends_def)
qed

lemma started_headless:
  assumes c: "commit_operation_started at d db = (Some row, db')" and k: "od_kind d = RunHeadless" and wf: "db_wf db"
  shows "headless_of db' = insert (o_id row, od_run d, OpRunning) (headless_of db)"
    and "all_runs db' = all_runs db"
    and "r \<in> set (all_runs db) \<Longrightarrow> r_id r = od_run d \<Longrightarrow> r_status r \<noteq> Cancelled"
proof -
  have ne: "map_option r_status (get_run db (od_run d)) \<noteq> Some Cancelled"
    and ins: "insert_operation at d db = (row, db')"
    using c by (auto simp: commit_operation_started_def split_beta split: if_splits)
  show "r \<in> set (all_runs db) \<Longrightarrow> r_id r = od_run d \<Longrightarrow> r_status r \<noteq> Cancelled"
    using ne runs.get_iff [OF wf, of "od_run d" r] by auto
  let ?mk = "\<lambda>i. \<lparr>o_id = i, o_run_id = od_run d, o_execution_id = od_execution d,
            o_seq = next_seq db (od_execution d), o_kind = od_kind d,
            o_agent_session_id = od_agent_session_id d, o_pane_id = od_pane_id d,
            o_harness = od_harness d, o_model = od_model d, o_effort = od_effort d,
            o_request = od_request d, o_status = OpRunning, o_response_text = None,
            o_result = None, o_harness_session_id = None, o_usage = None,
            o_started_at = at, o_ended_at = None\<rparr>"
  obtain ev where row: "row = fst (put_operation ?mk db)" and db': "db' = append_event at ev (snd (put_operation ?mk db))"
    using ins by (auto simp: insert_operation_def split_beta)
  have made: "\<exists>i. row = ?mk i" unfolding row by (auto simp: put_operation_def tab_insert_def Let_def)
  have "all_operations (append_event at ev d') = all_operations d'" for d'
    by (simp add: append_event_def all_operations_def split_beta)
  then have "all_operations db' = all_operations db @ [row]"
    unfolding db' by (simp add: operations.list_ins row)
  then show "headless_of db' = insert (o_id row, od_run d, OpRunning) (headless_of db)"
    using made k by (auto simp: headless_of_def headless_rows_def)
  show "all_runs db' = all_runs db"
    unfolding db' by (simp add: other_tables)
qed

lemma settled_not_running:
  assumes "db_wf db" and "map_option o_status (get_operation db i) \<noteq> Some OpRunning"
  shows "(i, q, OpRunning) \<notin> headless_of db"
  using assms operations.get_iff [OF assms(1), of i] by (auto simp: headless_of_iff)

lemma headless_unique:
  assumes "db_wf db" and "(i, q, st) \<in> headless_of db" and "(i, q', st') \<in> headless_of db"
  shows "q = q' \<and> st = st'"
proof -
  obtain r where r: "get_operation db i = Some r" "o_run_id r = q" "o_status r = st"
    using assms(2) operations.get_iff [OF assms(1)] unfolding headless_of_iff by blast
  obtain r' where r': "get_operation db i = Some r'" "o_run_id r' = q'" "o_status r' = st'"
    using assms(3) operations.get_iff [OF assms(1)] unfolding headless_of_iff by blast
  from r r' show ?thesis by auto
qed

lemma failed_ends: "ends (\<lambda>j q. j = i) db (commit_operation_failed at i cause db)"
  unfolding commit_operation_failed_def by (rule ends_settle) (simp_all add: same_operation_def)

lemma headless_settled_ends:
  assumes "db_wf db"
  shows "ends (\<lambda>j q. j = i) db (commit_headless_settled at i timed_out captured ex db)"
proof (cases "map_option o_status (get_operation db i) = Some OpRunning")
  case True
  show ?thesis
    unfolding commit_headless_settled_def Let_def if_not_P [OF not_not [THEN iffD2, OF True]]
    by (rule ends_settle) (simp_all add: same_operation_def)
next
  case False
  then have "ends (\<lambda>j q. j = i) db db"
    using settled_not_running [OF assms False] by (auto simp: ends_def)
  then show ?thesis using False by (simp add: commit_headless_settled_def)
qed

lemma commit_runs:
  "all_runs (commit_operation_failed at i cause db) = all_runs db"
  "all_runs (commit_headless_settled at i timed_out captured ex db) = all_runs db"
  by (simp_all add: commit_operation_failed_def commit_headless_settled_def Let_def)

lemma headless_of_event [simp]: "headless_of (append_event at d db) = headless_of db"
  by (simp add: headless_of_def append_event_def all_operations_def split_beta)

lemma owned_relabel:
  assumes "owned s i"
    and "\<And>p t. s_processes s p = Some t \<Longrightarrow> \<exists>t'. s_processes s' p = Some t' \<and> tk_operation t' = tk_operation t"
    and "s_launching s' = s_launching s"
  shows "owned s' i"
  using assms unfolding owned_def by metis

lemma owned_untrack:
  assumes "owned s i" and "s_processes s p = Some t" and "i \<noteq> tk_operation t"
    and "s_processes s' = (s_processes s)(p := None)" and "s_launching s' = s_launching s"
  shows "owned s' i"
  using assms unfolding owned_def by (metis fun_upd_other option.inject)

text \<open>Only a flag of a tracked process changes.\<close>

lemma jobs_ok_flag:
  assumes ok: "jobs_ok s" and t: "s_processes s p = Some t" and s': "s' = s\<lparr>s_processes := (s_processes s)(p \<mapsto> t')\<rparr>"
    and t': "tk_operation t' = tk_operation t" "tk_run t' = tk_run t"
  shows "jobs_ok s'"
proof (rule jobs_ok_ends [OF ok same_ends])
  fix i assume "owned s i"
  then show "owned s' i"
  proof (rule owned_relabel)
    fix p' u assume "s_processes s p' = Some u"
    then show "\<exists>u'. s_processes s' p' = Some u' \<and> tk_operation u' = tk_operation u"
      using t t' by (cases "p' = p") (auto simp: s')
  qed (simp add: s')
next
  fix p' u assume "s_processes s' p' = Some u"
  then show "(\<exists>t0. s_processes s p' = Some t0 \<and> tk_operation u = tk_operation t0 \<and> tk_run u = tk_run t0) \<or>
      (\<exists>st. (tk_operation u, tk_run u, st) \<in> headless_of (s_db s'))"
    using t t' by (cases "p' = p") (auto simp: s')
qed (auto simp: s')

text \<open>Stopping a process whose operation is over.\<close>

lemma jobs_ok_stop:
  assumes ok: "jobs_ok s" and t: "s_processes s p = Some t"
    and over: "\<And>q. (tk_operation t, q, OpRunning) \<notin> headless_of (s_db s)"
  shows "jobs_ok (with_jobs (stop_tracked at p failure (s_db s, s_processes s)) s)"
proof (rule jobs_ok_ends [OF ok same_ends])
  fix i q assume "(i, q, OpRunning) \<in> headless_of (s_db (with_jobs (stop_tracked at p failure (s_db s, s_processes s)) s))"
    and o': "owned s i"
  then have "(i, q, OpRunning) \<in> headless_of (s_db s)"
    using t by (cases failure) (simp_all add: stop_tracked_def commit_stop_failed_def with_jobs_def)
  then have "i \<noteq> tk_operation t" using over by blast
  then show "owned (with_jobs (stop_tracked at p failure (s_db s, s_processes s)) s) i"
    using t o' by (cases failure) (auto simp: stop_tracked_def with_jobs_def elim: owned_untrack owned_relabel)
qed (use t in \<open>cases failure; auto simp: stop_tracked_def commit_stop_failed_def with_jobs_def split: if_splits\<close>)+

text \<open>The steps of a job.\<close>

lemma job_step_jobs_ok:
  assumes j: "job_step s s'" and wf: "db_wf (s_db s)" and ok: "jobs_ok s"
  shows "jobs_ok s'"
  using j
proof (cases rule: job_step.cases)
  case (job_recorded d at row db')
  note st = started_headless [OF job_recorded(3,2) wf]
  have s': "s_db s' = db'" "s_processes s' = s_processes s" "s_launching s' = insert (o_id row) (s_launching s)"
    using job_recorded(1) by (simp_all add: with_db_def)
  show ?thesis unfolding jobs_ok_def s' st(1,2)
  proof (intro conjI allI ballI impI)
    fix i q assume "(i, q, OpRunning) \<in> insert (o_id row, od_run d, OpRunning) (headless_of (s_db s))"
    then show "owned s' i" using jobs_okD(1) [OF ok] by (auto simp: owned_def s')
  next
    fix p t assume "s_processes s p = Some t"
    then show "\<exists>st. (tk_operation t, tk_run t, st) \<in> insert (o_id row, od_run d, OpRunning) (headless_of (s_db s))"
      using jobs_okD(2) [OF ok] by blast
  next
    fix i assume "i \<in> insert (o_id row) (s_launching s)"
    then show "\<exists>q st. (i, q, st) \<in> insert (o_id row, od_run d, OpRunning) (headless_of (s_db s))"
      using jobs_okD(3) [OF ok, of i] by blast
  next
    fix r i assume "r \<in> set (all_runs (s_db s))" "r_status r = Cancelled"
    then show "(i, r_id r, OpRunning) \<notin> insert (o_id row, od_run d, OpRunning) (headless_of (s_db s))"
      using jobs_okD(4) [OF ok] st(3) by blast
  qed
next
  case (job_launched i row p)
  have "row \<in> set (all_operations (s_db s))" "o_id row = i"
    using job_launched(3) operations.get_iff [OF wf] by auto
  moreover obtain q st where "(i, q, st) \<in> headless_of (s_db s)" using jobs_okD(3) [OF ok job_launched(2)] by blast
  then obtain r where "r \<in> set (all_operations (s_db s))" "o_kind r = RunHeadless" "o_id r = i"
    by (auto simp: headless_of_iff)
  ultimately have "o_kind row = RunHeadless"
    using job_launched(3) operations.get_iff [OF wf, of i r] by auto
  then have h: "(i, o_run_id row, o_status row) \<in> headless_of (s_db s)"
    using \<open>row \<in> _\<close> \<open>o_id row = i\<close> by (auto simp: headless_of_iff)
  define t0 where "t0 = \<lparr>tk_run = o_run_id row, tk_operation = i, tk_timed_out = False, tk_settling = False\<rparr>"
  have s': "s_db s' = s_db s" "s_processes s' = (s_processes s)(p \<mapsto> t0)" "s_launching s' = s_launching s - {i}"
    using job_launched(1) by (simp_all add: track_def t0_def)
  show ?thesis
  proof (rule jobs_ok_ends [OF ok same_ends])
    fix j q assume "owned s j"
    moreover have "owned s' i" unfolding owned_def s' by (auto simp: t0_def)
    moreover have "owned s' j" if "s_processes s p' = Some t" "tk_operation t = j" for p' t
      using that job_launched(4) unfolding owned_def s'(2) by (metis fun_upd_other option.distinct(1))
    ultimately show "owned s' j" by (cases "j = i") (auto simp: owned_def s'(3))
  next
    fix p' t assume "s_processes s' p' = Some t"
    then show "(\<exists>t0. s_processes s p' = Some t0 \<and> tk_operation t = tk_operation t0 \<and> tk_run t = tk_run t0) \<or>
      (\<exists>st. (tk_operation t, tk_run t, st) \<in> headless_of (s_db s'))"
      using h by (cases "p' = p") (auto simp: s' t0_def)
  qed (auto simp: s')
next
  case (job_not_launched i at cause)
  show ?thesis
  proof (rule jobs_ok_ends [OF ok])
    show "ends (\<lambda>j q. j = i) (s_db s) (s_db s')" using job_not_launched failed_ends by (simp add: with_db_def)
    fix j q assume "(j, q, OpRunning) \<in> headless_of (s_db s')" "owned s j"
    then show "owned s' j"
      using job_not_launched failed_ends [of i "s_db s" at cause] by (auto simp: ends_def owned_def with_db_def)
  qed (use job_not_launched in \<open>auto simp: with_db_def commit_runs\<close>)
next
  case (job_start_failed p t at cause)
  show ?thesis
  proof (rule jobs_ok_ends [OF ok])
    show "ends (\<lambda>j q. j = tk_operation t) (s_db s) (s_db s')"
      using job_start_failed failed_ends by (simp add: with_db_def)
  qed (use job_start_failed in \<open>auto simp: with_db_def commit_runs owned_def\<close>)
next
  case (job_over_at_start p t failure at)
  have "(tk_operation t, q, OpRunning) \<notin> headless_of (s_db s)" for q
    using settled_not_running [OF wf job_over_at_start(3)] .
  then show ?thesis using jobs_ok_stop [OF ok job_over_at_start(2)] job_over_at_start(1) by simp
next
  case (job_stopped_by_cancel p t run failure at)
  obtain st where st: "(tk_operation t, tk_run t, st) \<in> headless_of (s_db s)"
    using jobs_okD(2) [OF ok job_stopped_by_cancel(2)] by blast
  have "run \<in> set (all_runs (s_db s))" "r_id run = tk_run t"
    using job_stopped_by_cancel(3) runs.get_iff [OF wf] by auto
  then have no: "(j, tk_run t, OpRunning) \<notin> headless_of (s_db s)" for j
    using jobs_okD(4) [OF ok _ job_stopped_by_cancel(4)] by metis
  have "(tk_operation t, q, OpRunning) \<notin> headless_of (s_db s)" for q
  proof
    assume q: "(tk_operation t, q, OpRunning) \<in> headless_of (s_db s)"
    then have "q = tk_run t" using headless_unique [OF wf q st] by simp
    with q no show False by blast
  qed
  then show ?thesis using jobs_ok_stop [OF ok job_stopped_by_cancel(2)] job_stopped_by_cancel(1) by simp
next
  case (job_timed_out at p failure)
  show ?thesis
  proof (rule jobs_ok_ends [OF ok same_ends])
    show "headless_of (s_db s') = headless_of (s_db s)"
      unfolding job_timed_out by (auto simp: time_out_headless_def commit_stop_failed_def headless_of_event
          split: option.split)
    show "r \<in> set (all_runs (s_db s')) \<Longrightarrow> r_status r = Cancelled \<Longrightarrow>
      (\<exists>r0 \<in> set (all_runs (s_db s)). r_id r0 = r_id r \<and> r_status r0 = Cancelled) \<or> (\<forall>j. False)" for r
      unfolding job_timed_out by (auto simp: time_out_headless_def commit_stop_failed_def split: option.splits)
    fix i assume "owned s i"
    then show "owned s' i"
    proof (rule owned_relabel)
      fix p' t assume "s_processes s p' = Some t"
      then show "\<exists>t'. s_processes s' p' = Some t' \<and> tk_operation t' = tk_operation t"
        by (cases "p' = p") (auto simp: job_timed_out time_out_headless_def with_jobs_def split: option.splits)
    qed (simp add: job_timed_out with_jobs_def)
  qed (auto simp: job_timed_out time_out_headless_def with_jobs_def split: option.splits if_splits)
next
  case (job_claimed p ps)
  then obtain t0 where t0: "s_processes s p = Some t0"
    and s': "s' = s\<lparr>s_processes := (s_processes s)(p \<mapsto> t0\<lparr>tk_settling := True\<rparr>)\<rparr>"
    by (auto simp: settle_begin_def split: option.splits if_splits)
  show ?thesis by (rule jobs_ok_flag [OF ok t0 s']) simp_all
next
  case (job_settled p t timed_out committed at captured ex)
  have same: "jobs_ok (kick r s0) = jobs_ok s0" for r s0
    by (simp add: jobs_ok_def kick_def owned_def)
  show ?thesis
  proof (cases committed)
    case False
    show ?thesis
      by (rule jobs_ok_flag [OF ok job_settled(2), of _ "t\<lparr>tk_settling := False\<rparr>"])
         (use job_settled(1) False in \<open>simp_all add: with_jobs_def settle_end_def\<close>)
  next
    case True
    let ?s = "with_jobs (settle_end at p t timed_out captured ex True (s_db s, s_processes s)) s"
    have "jobs_ok ?s"
    proof (rule jobs_ok_ends [OF ok])
      show e: "ends (\<lambda>j q. j = tk_operation t) (s_db s) (s_db ?s)"
        using headless_settled_ends [OF wf] by (simp add: settle_end_def)
      fix j q assume jq: "(j, q, OpRunning) \<in> headless_of (s_db ?s)" and o': "owned s j"
      have "j \<noteq> tk_operation t" using jq e unfolding ends_def by blast
      with o' job_settled(2) show "owned ?s j"
        by (rule owned_untrack) (simp_all add: with_jobs_def settle_end_def)
    qed (use job_settled in \<open>auto simp: with_jobs_def settle_end_def commit_runs split: if_splits\<close>)
    then show ?thesis using job_settled(1) True by (simp add: same)
  qed
qed

lemma driver_step_jobs:
  assumes "driver_step builds r s s'"
  shows "s_processes s' = s_processes s \<and> s_launching s' = s_launching s"
proof -
  have p: "s_processes (park_driver r s) = s_processes s" "s_launching (park_driver r s) = s_launching s"
    "s_processes (set_phase r ph s) = s_processes s" "s_launching (set_phase r ph s) = s_launching s"
    "s_processes (with_db db s) = s_processes s" "s_launching (with_db db s) = s_launching s" for s ph db
    by (simp_all add: park_driver_def set_phase_def with_db_def)
  from assms show ?thesis by cases (simp_all add: p)
qed

lemma engine_step_jobs_ok:
  assumes st: "engine_step builds s s'" and sok: "sys_ok s" and ok: "jobs_ok s"
  shows "jobs_ok s'"
proof -
  have wf: "db_wf (s_db s)" using sok by (auto simp: sys_ok_def dest: db_okD(1))
  from st show ?thesis
  proof (cases rule: engine_step.cases)
    case (engine_control db')
    then have s': "s_db s' = db'" "s_processes s' = s_processes s" "s_launching s' = s_launching s"
      by (simp_all add: with_db_def)
    from calm_runs.control_step_history [OF engine_control(2) wf] show ?thesis
    proof
      assume "calm (s_db s) db'"
      then show ?thesis by (intro jobs_ok_calm [OF ok]) (simp_all add: s')
    next
      assume "\<exists>at q. cancel at q (s_db s) = Inr db'"
      then obtain at q where c: "cancel at q (s_db s) = Inr db'" by blast
      show ?thesis
        by (rule jobs_ok_ends [OF ok]) (use cancel_ends [OF c] in \<open>auto simp: s' owned_def\<close>)
    qed
  next
    case (engine_kick r)
    then show ?thesis using ok by (simp add: jobs_ok_def kick_def owned_def)
  next
    case (engine_driver r)
    then have "s_processes s' = s_processes s \<and> s_launching s' = s_launching s"
      using driver_step_jobs by blast
    then show ?thesis using jobs_ok_calm [OF ok] calm.driver_step_history [OF engine_driver] by blast
  next
    case engine_job
    then show ?thesis using job_step_jobs_ok wf ok by blast
  next
    case (engine_restart at db')
    then show ?thesis using restart_ends [OF engine_restart(2)] by (simp add: jobs_ok_def)
  qed
qed

lemma reachable_jobs_ok: "reachable builds s \<Longrightarrow> jobs_ok s"
proof (induction rule: reachable.induct)
  case reach_initial
  then show ?case
    by (simp add: jobs_ok_def initial_sys_def headless_of_iff all_operations_def all_runs_def empty_db_def tab_empty_def)
next
  case (reach_step s s')
  then show ?case using engine_step_jobs_ok reachable_ok by blast
qed

end
