(* ===== verification/Fixture.thy ===== *)
theory Fixture
  imports Headless_Jobs
begin

text \<open>
  A concrete run, for the witnesses: a graph with two operation nodes in a row, launched, prepared and
  driven through its first node function. Every commit is evaluated on the concrete tables.
\<close>

section \<open>A build\<close>

definition fx_graph :: graph_def where
  "fx_graph =
     \<lparr>g_key = ''main'', g_entry = ''a'', g_fields = [],
      g_nodes = [(''a'', OpNode None), (''b'', OpNode None)],
      g_edges =
        [(''ab'', \<lparr>eg_from = ''a'', eg_to = [''b''],
                  eg_choose = (\<lambda>st e. Ret (JObj PlainProto [(''to'', JStr ''b''), (''update'', JObj PlainProto [])]))\<rparr>),
         (''bz'', \<lparr>eg_from = ''b'', eg_to = [''ok''],
                  eg_choose = (\<lambda>st e. Ret (JObj PlainProto [(''to'', JStr ''ok''), (''update'', JObj PlainProto [])]))\<rparr>)],
      g_outcomes = [(''ok'', \<lparr>go_kind = SuccessOutcome, go_reason = None, go_output = (\<lambda>st. Ret JNull)\<rparr>)],
      g_init = (\<lambda>d p. Ret (JObj PlainProto [])), g_label = None\<rparr>"

definition fx_artifact :: artifact where
  "fx_artifact = \<lparr>art_root = fx_graph, art_graphs = [(''main'', fx_graph)]\<rparr>"

definition fx_builds :: "string \<Rightarrow> artifact option" where
  "fx_builds h = (if h = ''h1'' then Some fx_artifact else None)"

definition fx_now :: instant where
  "fx_now = Instant ''t''"

definition fx_launch :: launch_request where
  "fx_launch =
     \<lparr>lr_project = 1, lr_workflow_key = ''w'', lr_title = ''W'', lr_artifact_hash = ''h1'',
      lr_inputs = JsonNull, lr_parameters = JsonNull,
      lr_placement = \<lparr>rp_source = DefaultPlacement, rp_worktree = CurrentWorktree,
        rp_surface = CurrentSurface, rp_base_commit = None\<rparr>,
      lr_origin_worktree_id = 1, lr_origin_worktree_path = ''/p'', lr_origin_surface_id = Some 4,
      lr_origin_pane_id = None, lr_origin_agent_session_id = None,
      lr_reused_worktree = Some (1, ''/p''), lr_reused_surface = Some 4\<rparr>"

section \<open>Its commits\<close>

definition the_ok :: "'e + 'a \<Rightarrow> 'a" where
  "the_ok r = (case r of Inr a \<Rightarrow> a | Inl e \<Rightarrow> undefined)"

definition fx_db1 :: db where
  "fx_db1 = snd (commit_launch fx_now {1} fx_launch empty_db)"

definition fx_db2 :: db where
  "fx_db2 = the_ok (commit_enter_root fx_now fx_artifact 1 fx_db1)"

definition fx_returned :: jsval where
  "fx_returned = JObj PlainProto [(''isagiContract'', JNum (Finite 5)),
     (''isagiKind'', JStr ''operation-result''), (''type'', JStr ''complete'')]"

definition fx_leaf :: execution_row where
  "fx_leaf =
     \<lparr>x_id = 1, x_run_id = 1, x_invocation_id = 1, x_node_id = ''a'', x_node_kind = KindOperation,
      x_visit_index = 0, x_label = None, x_artifact_hash = ''h1'', x_status = ExRunning,
      x_retry_of = None, x_result = None, x_event = None, x_decision = None, x_state_after = None,
      x_child = None, x_checkpoint = None, x_error = None, x_started_at = fx_now, x_ended_at = None\<rparr>"

definition fx_run :: run_row where
  "fx_run = (launched_row fx_now fx_launch 1)\<lparr>r_status := Running\<rparr>"

definition fx_saved :: execution_row where
  "fx_saved = fx_leaf\<lparr>x_result := Some (Complete None None)\<rparr>"

definition fx_db3 :: db where
  "fx_db3 = the_ok (commit_save_result fx_now ''main'' 1 fx_leaf (Inr fx_returned) fx_db2)"

definition fx_db4 :: db where
  "fx_db4 = snd (the_ok (the (commit_route fx_now fx_artifact 1 1 immediate_event None fx_db3)))"

definition fx_draft :: operation_draft where
  "fx_draft = call_draft 1 1 (HeadlessCall \<lparr>ai_prompt = Some ''go'', ai_modifiers = None,
     ai_harness = Some ''pi'', ai_model = None, ai_effort = None, ai_session = None\<rparr> None) ''go''"

definition fx_db_job :: db where
  "fx_db_job = snd (commit_operation_started fx_now fx_draft fx_db2)"

definition fx_db_cancelled :: db where
  "fx_db_cancelled = the_ok (cancel fx_now 1 fx_db_job)"

definition fx_db_failed :: db where
  "fx_db_failed = the_ok (commit_save_result fx_now ''main'' 1 fx_leaf (Inl [Lit ''boom'']) fx_db2)"

lemma fx_commits:
  "commit_enter_root fx_now fx_artifact 1 fx_db1 = Inr fx_db2"
  "commit_save_result fx_now ''main'' 1 fx_leaf (Inr fx_returned) fx_db2 = Inr fx_db3"
  "commit_route fx_now fx_artifact 1 1 immediate_event None fx_db3 = Some (Inr (False, fx_db4))"
  "cancel fx_now 1 fx_db_job = Inr fx_db_cancelled"
  "commit_save_result fx_now ''main'' 1 fx_leaf (Inl [Lit ''boom'']) fx_db2 = Inr fx_db_failed"
  by code_simp+

lemma fx_reads:
  "get_run fx_db2 1 = Some fx_run" "get_run fx_db3 1 = Some fx_run" "get_run fx_db4 1 = Some fx_run"
  "find_leaf_execution fx_db2 1 = Some fx_leaf" "find_leaf_execution fx_db3 1 = Some fx_saved"
  "get_execution fx_db3 1 = Some fx_saved"
  "prepare_node_function fx_db2 fx_artifact fx_run fx_leaf =
     Inr (\<lparr>ds_worktree_id = 1, ds_worktree_path = ''/p'', ds_surface_id = 4\<rparr>, JObj PlainProto [])"
  "map_option i_graph_key (get_invocation fx_db2 1) = Some ''main''"
  by code_simp+

lemma fx_job:
  "commit_operation_started fx_now fx_draft fx_db2 = (get_operation fx_db_job 1, fx_db_job)"
  "map_option o_status (get_operation fx_db_job 1) = Some OpRunning"
  "map_option o_kind (get_operation fx_db_job 1) = Some RunHeadless"
  by code_simp+

section \<open>Its states\<close>

definition fx_launched :: sys where
  "fx_launched = with_db fx_db1 initial_sys"

definition fx_entered :: sys where
  "fx_entered = with_db fx_db2 fx_launched"

definition fx_calling :: sys where
  "fx_calling = set_phase 1 (Calling fx_run fx_leaf ''main'') (set_phase 1 (GotLeaf fx_run fx_leaf)
     (set_phase 1 (GotRun fx_run) (kick 1 fx_entered)))"

definition fx_returned_sys :: sys where
  "fx_returned_sys = set_phase 1 AtStart (with_db fx_db3 fx_calling)"

definition fx_routing :: sys where
  "fx_routing = set_phase 1 (GotLeaf fx_run fx_saved) (set_phase 1 (GotRun fx_run) fx_returned_sys)"

definition fx_routed :: sys where
  "fx_routed = set_phase 1 AtStart (with_db fx_db4 fx_routing)"

definition fx_failed_sys :: sys where
  "fx_failed_sys = set_phase 1 AtStart (with_db fx_db_failed fx_calling)"

definition fx_job_sys :: sys where
  "fx_job_sys = with_db fx_db_job fx_entered\<lparr>s_launching := insert 1 (s_launching fx_entered)\<rparr>"

definition fx_cancelled :: sys where
  "fx_cancelled = with_db fx_db_cancelled fx_job_sys"

lemma fx_phases [simp]:
  "s_db fx_launched = fx_db1" "s_db fx_entered = fx_db2" "s_db fx_calling = fx_db2"
  "s_db fx_returned_sys = fx_db3" "s_db fx_routing = fx_db3" "s_db fx_routed = fx_db4"
  "s_db fx_failed_sys = fx_db_failed" "s_db fx_job_sys = fx_db_job" "s_db fx_cancelled = fx_db_cancelled"
  by (simp_all add: fx_launched_def fx_entered_def fx_calling_def fx_returned_sys_def fx_routing_def
      fx_routed_def fx_failed_sys_def fx_job_sys_def fx_cancelled_def with_db_def set_phase_def kick_def)

lemma fx_phase:
  "phase_of fx_calling 1 = Some (Calling fx_run fx_leaf ''main'')"
  "phase_of fx_returned_sys 1 = Some AtStart"
  "phase_of fx_routing 1 = Some (GotLeaf fx_run fx_saved)"
proof -
  have none: "phase_of fx_entered 1 = None"
    by (simp add: fx_entered_def fx_launched_def initial_sys_def) (simp add: phase_of_def)
  show c: "phase_of fx_calling 1 = Some (Calling fx_run fx_leaf ''main'')"
    by (simp add: fx_calling_def phase_of_kick none del: One_nat_def)
  then show r: "phase_of fx_returned_sys 1 = Some AtStart" by (simp add: fx_returned_sys_def del: One_nat_def)
  then show "phase_of fx_routing 1 = Some (GotLeaf fx_run fx_saved)" by (simp add: fx_routing_def del: One_nat_def)
qed

lemma fx_actions: "step_action fx_leaf = RunNodeFunction" "step_action fx_saved = RouteImmediate"
  "x_id fx_leaf = 1" "x_id fx_saved = 1" "r_artifact_hash fx_run = ''h1''" "drivable fx_run"
  by code_simp+

lemma fx_loaded: "fx_builds ''h1'' = Some fx_artifact"
  by (simp add: fx_builds_def)

lemma fx_reach_entered: "reachable fx_builds fx_launched" "reachable fx_builds fx_entered"
proof -
  have "control_step (s_db initial_sys) fx_db1"
    unfolding initial_sys_def fx_db1_def sys.simps by (rule launch_step) (rule prod.collapse [symmetric])
  then show l: "reachable fx_builds fx_launched"
    unfolding fx_launched_def by (intro reach_step [OF reach_initial] engine_control)
  have "control_step (s_db fx_launched) fx_db2"
    unfolding fx_phases by (rule enter_root_step) (rule fx_commits(1))
  then show "reachable fx_builds fx_entered"
    unfolding fx_entered_def by (intro reach_step [OF l] engine_control)
qed

lemma fx_reach_calling: "reachable fx_builds fx_calling"
proof -
  let ?s1 = "kick 1 fx_entered" let ?s2 = "set_phase 1 (GotRun fx_run) ?s1"
  let ?s3 = "set_phase 1 (GotLeaf fx_run fx_leaf) ?s2"
  have none: "phase_of fx_entered 1 = None"
    by (simp add: fx_entered_def fx_launched_def initial_sys_def) (simp add: phase_of_def)
  have p: "phase_of ?s1 1 = Some AtStart" "phase_of ?s2 1 = Some (GotRun fx_run)"
    "phase_of ?s3 1 = Some (GotLeaf fx_run fx_leaf)" by (simp_all add: phase_of_kick none del: One_nat_def)
  have d: "s_db ?s1 = fx_db2" "s_db ?s2 = fx_db2" "s_db ?s3 = fx_db2" by simp_all
  obtain i where i: "get_invocation fx_db2 1 = Some i" "i_graph_key i = ''main''" using fx_reads(8) by auto
  have "reachable fx_builds ?s1" by (rule reach_step [OF fx_reach_entered(2)]) (rule engine_kick)
  moreover have "driver_step fx_builds 1 ?s1 ?s2"
    using p(1) fx_reads(1) fx_actions(6) d(1) by (intro read_run) simp_all
  ultimately have "reachable fx_builds ?s2" by (blast intro: reach_step engine_driver)
  moreover have "driver_step fx_builds 1 ?s2 ?s3"
    using p(2) fx_reads(4) d(2) by (intro read_leaf) simp_all
  ultimately have "reachable fx_builds ?s3" by (blast intro: reach_step engine_driver)
  moreover have "driver_step fx_builds 1 ?s3 (set_phase 1 (Calling fx_run fx_leaf (i_graph_key i)) ?s3)"
    by (rule function_called [OF p(3), where art = fx_artifact])
       (use fx_actions fx_loaded fx_reads(7) i d(3) in \<open>simp_all add: fx_leaf_def\<close>)
  ultimately have "reachable fx_builds (set_phase 1 (Calling fx_run fx_leaf ''main'') ?s3)"
    unfolding i(2) by (blast intro: reach_step engine_driver)
  then show ?thesis unfolding fx_calling_def .
qed

lemma fx_reach_routing: "reachable fx_builds fx_returned_sys" "reachable fx_builds fx_routing"
proof -
  have "driver_step fx_builds 1 fx_calling fx_returned_sys"
    unfolding fx_returned_sys_def
    by (rule function_returned [OF fx_phase(1), where returned = "Inr fx_returned" and at = fx_now])
       (simp add: fx_commits del: One_nat_def)
  then show r: "reachable fx_builds fx_returned_sys"
    by (rule reach_step [OF fx_reach_calling engine_driver])
  let ?s = "set_phase 1 (GotRun fx_run) fx_returned_sys"
  have "driver_step fx_builds 1 fx_returned_sys ?s"
    by (rule read_run [OF fx_phase(2) _ fx_actions(6)]) (simp only: fx_phases fx_reads)
  then have "reachable fx_builds ?s" by (rule reach_step [OF r engine_driver])
  moreover have "driver_step fx_builds 1 ?s fx_routing"
    unfolding fx_routing_def using fx_reads(5) by (intro read_leaf) (simp_all add: fx_phase(2) del: One_nat_def)
  ultimately show "reachable fx_builds fx_routing" by (blast intro: reach_step engine_driver)
qed

lemma fx_reach_failed: "reachable fx_builds fx_failed_sys"
proof -
  have "driver_step fx_builds 1 fx_calling fx_failed_sys"
    unfolding fx_failed_sys_def
    by (rule function_returned [OF fx_phase(1), where returned = "Inl [Lit ''boom'']" and at = fx_now])
       (simp add: fx_commits del: One_nat_def)
  then show ?thesis by (rule reach_step [OF fx_reach_calling engine_driver])
qed

lemma fx_route_step: "engine_step fx_builds fx_routing fx_routed"
proof -
  have "driver_step fx_builds 1 fx_routing
      ((if False then park_driver 1 else set_phase 1 AtStart) (with_db fx_db4 fx_routing))"
    by (rule routed_immediate [OF fx_phase(3), where art = fx_artifact and at = fx_now])
       (simp_all add: fx_actions fx_loaded fx_commits del: One_nat_def)
  then show ?thesis unfolding fx_routed_def by (auto intro: engine_driver)
qed

lemma fx_reach_job: "reachable fx_builds fx_job_sys" "reachable fx_builds fx_cancelled"
  "engine_step fx_builds fx_job_sys fx_cancelled"
proof -
  obtain row where row: "get_operation fx_db_job 1 = Some row" using fx_job(2) by auto
  have id: "o_id row = 1" using row by (auto simp: get_operation_def tab_get_def find_Some_iff)
  have "job_step fx_entered (with_db fx_db_job fx_entered\<lparr>s_launching := insert (o_id row) (s_launching fx_entered)\<rparr>)"
    by (rule job_recorded [where d = fx_draft and at = fx_now])
       (use fx_job(1) row in \<open>simp_all add: fx_draft_def call_draft_def\<close>)
  then show j: "reachable fx_builds fx_job_sys"
    unfolding fx_job_sys_def id by (intro reach_step [OF fx_reach_entered(2)] engine_job)
  have "control_step (s_db fx_job_sys) fx_db_cancelled" unfolding fx_phases by (rule cancel_step) (rule fx_commits(4))
  then show c: "engine_step fx_builds fx_job_sys fx_cancelled" unfolding fx_cancelled_def by (rule engine_control)
  show "reachable fx_builds fx_cancelled" by (rule reach_step [OF j c])
qed

end
