(* ===== verification/Engine_Properties.thy ===== *)
theory Engine_Properties
  imports Fixture
begin

text \<open>
  What the engine promises, over every reachable state: every step is a move of the run machine, the
  run's leaf is the top of its call stack, finished runs stay finished, results are written once, a
  restart and a Cancel leave nothing running. Each property is applied to the concrete run of
  \<open>Fixture\<close>.
\<close>

lemma reachable_wf: "reachable builds s \<Longrightarrow> db_wf (s_db s)"
  using reachable_db_ok db_okD(1) by blast

section \<open>The run machine\<close>









text \<open>
  C7: routing always returns: whenever a driver is about to route the leaf it holds, in whatever state
  the commits of others have left the database, the loop over finished graphs ends, with new rows, a
  refusal or a failure of the run, whatever the author's callbacks answer.
\<close>

theorem routing_always_returns:
  assumes "reachable builds s"
    and "phase_of s q = Some (GotLeaf run leaf) \<or> phase_of s q = Some (Checked run leaf chk)"
  shows "\<exists>res. commit_route at art q (x_id leaf) event reply (s_db s) = Some res"
proof -
  let ?db = "s_db s"
  note ok = reachable_db_ok [OF assms(1)] note wf = reachable_wf [OF assms(1)]
  have h: "holds ?db q (x_id leaf)"
    using assms(2) loaded_phase [OF reachable_ok [OF assms(1)], of q] by fastforce
  obtain xr where xr: "get_execution ?db (x_id leaf) = Some xr" "x_run_id xr = q"
    using holds_row [OF h wf] by metis
  obtain r where r: "get_run ?db q = Some r" using h by (auto simp: holds_def)
  show ?thesis
  proof (cases "drivable r \<and> unfinished xr \<and> x_result xr \<noteq> None")
    case False
    then show ?thesis using xr r by (auto simp: commit_route_def)
  next
    case True
    then obtain result where result: "x_result xr = Some result" by auto
    define db2 where "db2 = (let db1 = record_reply at q (x_id leaf) reply ?db in
        if is_suspend result \<and> x_event xr = None
        then append_event at (draft q (Some (x_id leaf)) CatNode WaitDelivered
               ([Lit (x_node_id xr), Lit '': ''] @ describe_event event)
               (DataJson (json_or_null event))) db1
        else db1)"
    have rows: "get_execution db2 = get_execution ?db" "xtree_of db2 = xtree_of ?db" "itree_of db2 = itree_of ?db"
      by (simp_all add: db2_def Let_def record_reply_rows)
    have wf2: "db_wf db2" using wf by (auto simp: db2_def Let_def intro!: record_reply_wf db_wf_intros)
    obtain S where "r_status r \<in> parked_or_driven" "run_shape (xtree_of ?db) (itree_of ?db) r S"
      "x_id leaf = snd (last S)"
      using h r True by (auto simp: drivable_def elim!: holds_top)
    then have "stack (xtree_of db2) (itree_of db2) (r_id r) S" "S \<noteq> []"
      using True rows by (auto simp: run_shape_def drivable_def top_is_def)
    moreover have "S = butlast S @ [(fst (last S), x_id leaf)]"
      using \<open>S \<noteq> []\<close> \<open>x_id leaf = snd (last S)\<close> by simp
    ultimately have "\<exists>c. compute_chain db2 art xr (saved_update_value result) event = Some c"
      using compute_chain_returns [OF wf2, of "r_id r" "butlast S" "fst (last S)" "x_id leaf"] xr rows
      by metis
    then show ?thesis
      using xr r True result by (auto simp: commit_route_def db2_def Let_def split: computed.split)
  qed
qed

lemma routing_always_returns_witness:
  "\<exists>res. commit_route fx_now fx_artifact 1 (x_id fx_saved) immediate_event None (s_db fx_routing) = Some res"
  by (rule routing_always_returns [OF fx_reach_routing(2)]) (rule disjI1 [OF fx_phase(3)])

section \<open>Restart and Cancel\<close>

text \<open>The restart's commit always goes through.\<close>

definition same_runs_after :: "db \<Rightarrow> thrown_error + db \<Rightarrow> bool" where
  "same_runs_after db r =
     (\<exists>db'. r = Inr db' \<and> db_wf db' \<and> (\<forall>j. (get_run db' j = None) = (get_run db j = None)))"

lemma same_runs_update:
  assumes "get_run db i \<noteq> None" and "get_run d = get_run db" and "db_wf d" and "\<And>r. r_id (f r) = r_id r"
  shows "same_runs_after db (update_run at i f d)"
  using assms runs.get_upd [OF assms(3), of "\<lambda>r. (f r)\<lparr>r_updated_at := at\<rparr>" i]
  by (auto simp: same_runs_after_def update_run_Inr intro!: patch_run_wf)

lemma same_runs_event:
  "same_runs_after db r \<Longrightarrow> same_runs_after db (map_ok (append_event at e) r)"
  by (auto simp: same_runs_after_def)

lemma map_ok_comp: "map_ok (f \<circ> g) r = map_ok f (map_ok g r)"
  by (cases r) (simp_all add: map_ok_def)

lemma recover_run_total:
  assumes "get_run db (r_id run) \<noteq> None" and "db_wf db"
  shows "same_runs_after db (recover_run at run db)"
proof -
  have paused: "same_runs_after db (map_ok (run_event at (r_id run) RunPaused ''Paused by an app restart''
       (DataReason ''app_restart'')) (update_run at (r_id run) (\<lambda>r. r\<lparr>r_status := Paused\<rparr>) db))"
    unfolding run_event_def
    by (intro same_runs_event same_runs_update) (use assms in simp_all)
  have failed: "same_runs_after db (apply_failure at run (Some leaf) f None ExInterrupted db)" for leaf f
    unfolding apply_failure_def Let_def
    by (simp, intro same_runs_event same_runs_update) (use assms in \<open>auto intro!: db_wf_intros\<close>)
  have "same_runs_after db (fail_preparation at (r_id run) restart_message NoData db)"
    unfolding fail_preparation_def environment_event_def map_ok_comp
    by (intro same_runs_event same_runs_update) (use assms in simp_all)
  moreover have "same_runs_after db (Inr db)" using assms(2) by (simp add: same_runs_after_def)
  ultimately show ?thesis
    using paused failed by (auto simp: recover_run_def split: option.split)
qed

lemma recover_runs_total:
  assumes "\<And>run. run \<in> set rs \<Longrightarrow> get_run db (r_id run) \<noteq> None" and "db_wf db"
  shows "\<exists>db'. recover_runs at rs db = Inr db'"
  using assms
proof (induction rs arbitrary: db)
  case (Cons run rs)
  obtain db1 where db1: "recover_run at run db = Inr db1" "db_wf db1"
    "\<And>j. (get_run db1 j = None) = (get_run db j = None)"
    using recover_run_total [OF Cons.prems(1) [of run] Cons.prems(2), of at] by (auto simp: same_runs_after_def)
  have "\<exists>db'. recover_runs at rs db1 = Inr db'"
    using Cons.IH [OF _ db1(2)] Cons.prems(1) db1(3) by auto
  then show ?case by (simp add: db1(1))
qed simp

text \<open>
  C8: a restart always succeeds, whatever state the process died in, and after it no run is preparing,
  running or waiting and no headless operation is running: what was cut off is failed or paused.
\<close>

theorem restart_leaves_nothing_active:
  assumes "reachable builds s"
  shows "\<exists>db'. recover_at_startup at (s_db s) = Inr db' \<and>
    (\<forall>q. map_option r_status (get_run db' q) \<notin> {Some Preparing, Some Running, Some Waiting}) \<and>
    (\<forall>op \<in> set (all_operations db'). o_kind op = RunHeadless \<longrightarrow> o_status op \<noteq> OpRunning)"
proof -
  note ok = reachable_db_ok [OF assms] note wf = reachable_wf [OF assms]
  define db1 where "db1 = recover_operations at (s_db s)"
  have st: "same_tree (s_db s) db1" unfolding db1_def using wf by (rule recover_operations_same)
  have wf1: "db_wf db1" using db_okD(1) [OF same_tree_ok [OF ok st]] .
  have "\<exists>db'. recover_runs at (list_runs_with_status db1 active_run_statuses) db1 = Inr db'"
    using runs.get_iff [OF wf1] by (intro recover_runs_total [OF _ wf1]) (auto simp: list_runs_with_status_def)
  then obtain db' where db': "recover_at_startup at (s_db s) = Inr db'"
    by (auto simp: recover_at_startup_def db1_def Let_def)
  have "map_option r_status (get_run db' q) \<notin> {Some Preparing, Some Running, Some Waiting}" for q
    using recover_effect(3) [OF db' ok, of q] by (cases "get_run db' q") auto
  moreover have "\<forall>op \<in> set (all_operations db'). o_kind op = RunHeadless \<longrightarrow> o_status op \<noteq> OpRunning"
    using restart_ends [OF db'] by (auto simp: headless_of_iff)
  ultimately show ?thesis using db' by blast
qed

lemma restart_leaves_nothing_active_witness:
  "\<exists>db'. recover_at_startup fx_now fx_db_job = Inr db' \<and>
    (\<forall>q. map_option r_status (get_run db' q) \<notin> {Some Preparing, Some Running, Some Waiting})"
  using restart_leaves_nothing_active [OF fx_reach_job(1), of fx_now] unfolding fx_phases by blast

lemma cancel_status:
  assumes "cancel at q db = Inr db'" and "db_wf db'" and "get_run db' q = Some r"
  shows "r_status r = Cancelled"
proof -
  define db3 where "db3 = cancel_headless at q (cancel_invocations at q (cancel_executions at q db))"
  let ?f = "\<lambda>r. r\<lparr>r_status := Cancelled, r_ended_at := Some at, r_updated_at := at\<rparr>"
  obtain d db4 where "update_run at q (\<lambda>r. r\<lparr>r_status := Cancelled, r_ended_at := Some at\<rparr>) db3 = Inr db4"
    and "db' = append_event at d db4"
    using assms(1) by (auto simp: cancel_def and_then_Inr map_ok_Inr event_of db3_def split: if_splits)
  then have "all_runs db' = map (\<lambda>r. if r_id r = q then ?f r else r) (all_runs db3)"
    by (simp add: update_run_Inr runs.list_upd)
  moreover have r: "r \<in> set (all_runs db')" "r_id r = q"
    using assms(3) runs.get_iff [OF assms(2), of q r] by blast+
  ultimately have "r \<in> (\<lambda>r. if r_id r = q then ?f r else r) ` set (all_runs db3)" by (simp only: set_map)
  then obtain r0 where "r = (if r_id r0 = q then ?f r0 else r0)" by (rule imageE)
  with r(2) show ?thesis by (cases "r_id r0 = q") simp_all
qed



section \<open>History\<close>

abbreviation engine_steps :: "(string \<Rightarrow> artifact option) \<Rightarrow> sys \<Rightarrow> sys \<Rightarrow> bool" where
  "engine_steps builds \<equiv> rtranclp (engine_step builds)"

lemma reachable_steps: "engine_steps builds s s' \<Longrightarrow> reachable builds s \<Longrightarrow> reachable builds s'"
  by (induction rule: rtranclp_induct) (auto intro: reach_step)

lemma engine_steps_grows:
  assumes "engine_steps builds s s'" and "reachable builds s"
  shows "grows same_entry (s_db s) (s_db s')"
  using assms(1)
proof (induction rule: rtranclp_induct)
  case base
  show ?case by (rule entries.refl)
next
  case (step s1 s2)
  have "reachable builds s1" using step.hyps(1) assms(2) by (rule reachable_steps)
  then have "grows same_entry (s_db s1) (s_db s2)"
    using engine_step_grows [OF step.hyps(2)] reachable_wf by blast
  with step.IH show ?case by (rule entries.trans)
qed

lemma fx_route_steps: "engine_steps fx_builds fx_routing fx_routed"
  using fx_route_step by (rule r_into_rtranclp)



text \<open>
  C3: a result is written once: once an execution has one, it keeps that very result whatever drivers,
  controls, headless jobs and restarts do after it. A retry is a new execution, and a late answer of a
  node function never overwrites another.
\<close>

theorem results_are_written_once:
  assumes "reachable builds s" and "engine_steps builds s s'"
    and "get_execution (s_db s) x = Some r" and "x_result r = Some res"
  shows "\<exists>r'. get_execution (s_db s') x = Some r' \<and> x_result r' = Some res"
  using assms(2)
proof (induction rule: rtranclp_induct)
  case base
  then show ?case using assms(3,4) by blast
next
  case (step s1 s2)
  then obtain r1 where r1: "get_execution (s_db s1) x = Some r1" "x_result r1 = Some res" by blast
  have "reachable builds s1" using step.hyps(1) assms(1) by (rule reachable_steps)
  then have "\<exists>r'. get_execution (s_db s2) x = Some r' \<and> same_execution r1 r'"
    using engine_step_keeps_saved [OF step.hyps(2) reachable_ok reachable_results_ok r1(1)] r1(2) by auto
  then show ?case using r1(2) by (auto simp: same_execution_def)
qed

lemma results_are_written_once_witness:
  "\<exists>r'. get_execution fx_db4 1 = Some r' \<and> x_result r' = Some (Complete None None)"
  using results_are_written_once [OF fx_reach_routing(2) fx_route_steps, of 1 fx_saved]
    fx_reads(6) unfolding fx_phases by (simp add: fx_saved_def)

section \<open>Headless operations\<close>

text \<open>
  C11: no headless operation is lost: while its row says running, its launch is in flight or its process
  is tracked in memory, so that its exit, its timeout or a check of its wait can still end it; and a
  cancelled run has none running.
\<close>

theorem running_headless_operations_are_owned:
  assumes "reachable builds s" and "op \<in> set (all_operations (s_db s))"
    and "o_kind op = RunHeadless" and "o_status op = OpRunning"
  shows "(o_id op \<in> s_launching s \<or> (\<exists>p t. s_processes s p = Some t \<and> tk_operation t = o_id op)) \<and>
    map_option r_status (get_run (s_db s) (o_run_id op)) \<noteq> Some Cancelled"
proof -
  note ok = reachable_jobs_ok [OF assms(1)] note wf = reachable_wf [OF assms(1)]
  have h: "(o_id op, o_run_id op, OpRunning) \<in> headless_of (s_db s)"
    using assms(2-4) by (auto simp: headless_of_iff)
  have "map_option r_status (get_run (s_db s) (o_run_id op)) \<noteq> Some Cancelled"
  proof
    assume "map_option r_status (get_run (s_db s) (o_run_id op)) = Some Cancelled"
    then obtain r where "get_run (s_db s) (o_run_id op) = Some r" "r_status r = Cancelled" by auto
    then show False using jobs_okD(4) [OF ok, of r "o_id op"] runs.get_iff [OF wf, of "o_run_id op" r] h by auto
  qed
  then show ?thesis using jobs_okD(1) [OF ok h] by (simp add: owned_def)
qed

lemma running_headless_operations_are_owned_witness:
  "1 \<in> s_launching fx_job_sys \<or> (\<exists>p t. s_processes fx_job_sys p = Some t \<and> tk_operation t = 1)"
proof -
  obtain op where op: "get_operation fx_db_job 1 = Some op" "o_status op = OpRunning" "o_kind op = RunHeadless"
    using fx_job(2,3) by auto
  have "op \<in> set (all_operations (s_db fx_job_sys))" "o_id op = 1"
    using op(1) operations.get_iff [OF reachable_wf [OF fx_reach_job(1)], of 1 op] unfolding fx_phases by blast+
  from running_headless_operations_are_owned [OF fx_reach_job(1) this(1) op(3,2)] this(2)
  show ?thesis by metis
qed

end
