(* ===== verification/Surface_Use.thy ===== *)
theory Surface_Use
  imports Engine_History Fixture
begin

text \<open>
  A surface has at most one run attached to it. \<open>attached_surfaces\<close> are the surfaces of the runs in the
  database, and the commits that change them are the four of \<open>attaches\<close>; all the others keep them,
  which the locales of \<open>History\<close> give for the relation \<open>same_surfaces\<close>.
\<close>

section \<open>The surfaces in use\<close>

definition attached_surfaces :: "db \<Rightarrow> nat list" where
  "attached_surfaces db = List.map_filter r_surface_id (all_runs db)"

definition same_surfaces :: "db \<Rightarrow> db \<Rightarrow> bool" where
  "same_surfaces db db' = (attached_surfaces db' = attached_surfaces db)"

lemma map_filter_kept: "(\<And>x. g (h x) = g x) \<Longrightarrow> List.map_filter g (map h xs) = List.map_filter g xs"
  by (induction xs) (simp_all add: map_filter_simps split: option.split)

lemma map_filter_snoc:
  "List.map_filter g (xs @ [x]) = List.map_filter g xs @ (case g x of None \<Rightarrow> [] | Some y \<Rightarrow> [y])"
  by (induction xs) (simp_all add: map_filter_simps split: option.split)

lemma set_map_filter: "set (List.map_filter g xs) = {y. \<exists>x \<in> set xs. g x = Some y}"
  by (induction xs) (auto simp: map_filter_simps split: option.split)

lemma attached_tables:
  "attached_surfaces (append_event at e db) = attached_surfaces db"
  "attached_surfaces (update_invocation i f db) = attached_surfaces db"
  "attached_surfaces (update_execution i g db) = attached_surfaces db"
  "attached_surfaces (update_operation i h db) = attached_surfaces db"
  "attached_surfaces (snd (insert_invocation a db)) = attached_surfaces db"
  "attached_surfaces (snd (insert_execution b db)) = attached_surfaces db"
  "attached_surfaces (snd (put_operation c db)) = attached_surfaces db"
  "attached_surfaces (snd (insert_checkpoint d db)) = attached_surfaces db"
  "attached_surfaces (insert_artifact art db) = attached_surfaces db"
  by (simp_all add: attached_surfaces_def other_tables append_event_tables update_invocation_tables
      update_execution_tables update_operation_tables insert_invocation_tables insert_execution_tables)

lemma attached_patch_run:
  "(\<And>r. r_surface_id (f r) = r_surface_id r) \<Longrightarrow> attached_surfaces (patch_run i f db) = attached_surfaces db"
  by (simp add: attached_surfaces_def runs.list_upd map_filter_kept)

interpretation surfaces: saving_history same_surfaces
  by unfold_locales (simp_all add: same_surfaces_def attached_tables attached_patch_run calm_run_def)

interpretation surface_ends: settling_history same_surfaces
  by unfold_locales (simp_all add: same_surfaces_def attached_tables attached_patch_run)

section \<open>The commits that attach or detach a run\<close>

text \<open>Clearing or setting the surface of the one row under a key.\<close>

lemma map_filter_cleared:
  assumes "distinct (List.map_filter g xs)" and "\<And>x. g (h x) = None"
  shows "distinct (List.map_filter g (map (\<lambda>x. if k x = i then h x else x) xs))"
  using assms(1)
proof (induction xs)
  case (Cons x xs)
  have "set (List.map_filter g (map (\<lambda>x. if k x = i then h x else x) xs)) \<subseteq> set (List.map_filter g xs)"
    using assms(2) by (auto simp: set_map_filter split: if_splits)
  then show ?case using Cons assms(2) by (auto simp: map_filter_simps split: option.splits)
qed (simp add: map_filter_simps)

lemma map_filter_assigned:
  assumes "distinct (map k xs)" and "distinct (List.map_filter g xs)" and "y \<notin> set (List.map_filter g xs)"
    and "\<And>x. g (h x) = Some y"
  shows "distinct (List.map_filter g (map (\<lambda>x. if k x = i then h x else x) xs))"
  using assms(1-3)
proof (induction xs)
  case (Cons x xs)
  have other: "map (\<lambda>x. if k x = i then h x else x) xs = xs" if "k x = i"
    using that Cons.prems(1) by (intro map_idI) (auto simp: image_iff)
  have new: "set (List.map_filter g (map (\<lambda>x. if k x = i then h x else x) xs))
      \<subseteq> insert y (set (List.map_filter g xs))"
    using assms(4) by (auto simp: set_map_filter split: if_splits)
  show ?case
    using Cons other new assms(4) by (auto simp: map_filter_simps split: option.splits)
qed (simp add: map_filter_simps)

lemma free_surface:
  "find_run_on_surface db s None = None \<longleftrightarrow> s \<notin> set (attached_surfaces db)"
  by (auto simp: find_run_on_surface_def find_None_iff attached_surfaces_def set_map_filter)

lemma attached_launched_row:
  "attached_surfaces (snd (insert_run (launched_row at l) db)) =
     attached_surfaces db @ (case lr_reused_surface l of None \<Rightarrow> [] | Some s \<Rightarrow> [s])"
proof -
  have "r_surface_id (fst (insert_run (launched_row at l) db)) = lr_reused_surface l"
    by (simp add: insert_run_def tab_insert_def launched_row_def split_beta Let_def)
  then show ?thesis by (simp add: attached_surfaces_def runs.list_ins map_filter_snoc)
qed

lemma attaches_keeps_distinct:
  assumes "attaches db db'" and "db_wf db" and "distinct (attached_surfaces db)"
  shows "distinct (attached_surfaces db')"
proof -
  have ids: "distinct (map r_id (all_runs db))"
    using runs.listed_distinct assms(2) sorted_wrt_less_distinct by blast
  have cleared: "distinct (attached_surfaces (patch_run q f db))"
    if "\<And>r. r_surface_id (f r) = None" for q f
    unfolding attached_surfaces_def runs.list_upd
    using assms(3) that by (intro map_filter_cleared) (simp_all add: attached_surfaces_def)
  have assigned: "distinct (attached_surfaces (patch_run q f db))"
    if "\<And>r. r_surface_id (f r) = Some s" "find_run_on_surface db s None = None" for q f s
    using map_filter_assigned [OF ids assms(3) [unfolded attached_surfaces_def]] that free_surface
    by (auto simp: attached_surfaces_def runs.list_upd)
  from assms(1) show ?thesis unfolding attaches_def
  proof (elim disjE exE conjE)
    fix at projects l res assume "commit_launch at projects l db = (res, db')"
    then show ?thesis
      using assms(3) free_surface [of db]
      by (auto simp: commit_launch_def Let_def split_beta attached_tables attached_launched_row
          split: if_splits option.splits bind_splits)
  next
    fix at q sf title
    assume "find_run_on_surface db sf None = None" "commit_surface_created at q sf title db = Inr db'"
    then show ?thesis
      by (auto simp: commit_surface_created_def map_ok_Inr event_of attached_tables update_run_Inr
          intro!: assigned)
  next
    fix at q assume "dismiss at q db = Inr db'"
    then show ?thesis
      by (auto simp: dismiss_def and_then_Inr map_ok_Inr event_of attached_tables update_run_Inr
          intro!: cleared split: if_splits)
  qed (auto intro: cleared)
qed

lemma engine_step_keeps_distinct:
  assumes "engine_step builds s s'" and wf: "db_wf (s_db s)" and d: "distinct (attached_surfaces (s_db s))"
  shows "distinct (attached_surfaces (s_db s'))"
proof -
  have "same_surfaces (s_db s) (s_db s') \<or> attaches (s_db s) (s_db s')"
    using assms(1)
  proof (cases rule: engine_step.cases)
    case (engine_control db')
    then show ?thesis
      using surfaces.control_step_keeps_or_attaches [OF engine_control(2) wf]
      by (auto intro: surface_ends.cancel_history)
  next
    case engine_kick
    then show ?thesis by (simp add: surfaces.refl)
  next
    case engine_driver
    then show ?thesis by (auto intro: surfaces.driver_step_history)
  next
    case engine_job
    then show ?thesis by (auto intro: surface_ends.job_step_history)
  next
    case engine_restart
    then show ?thesis by (auto intro: surface_ends.recover_history)
  qed
  then show ?thesis
    using attaches_keeps_distinct [OF _ wf d] d by (auto simp: same_surfaces_def)
qed



end
