(* ===== verification/Placement.thy ===== *)
theory Placement
  imports Controls Author_Code Prompts
begin

text \<open>
  Where a run executes, \<^verbatim>\<open>engine/environment\<close>: what the author's \<open>placement\<close> hook may read
  (\<^verbatim>\<open>discovery.ts\<close>), which of three sources decides (\<^verbatim>\<open>selection.ts\<close>), and the
  request checked against live rows (\<^verbatim>\<open>placement.ts\<close>). Projects, worktrees and surfaces
  belong to other domains of the runtime: \<open>places\<close> holds what their services answer at one moment,
  and as they may change between two reads, every read has its own. \<open>'e\<close> is a failure of the
  infrastructure, which is reported as itself.
\<close>

section \<open>Rejections\<close>

datatype reason =
    Worktree_Not_Found | Surface_Not_Found | Pane_Not_Found | Surface_Worktree_Mismatch
  | Agent_Session_Not_On_Surface | Launch_Context_Mismatch
  | Unknown_Workflow_Key | Workflow_Discovery_Failed | Workflow_Load_Failed
  | Workflow_Command_Failed | Workflow_Parse_Rejected | Workflow_Parameters_Invalid
  | Workflow_Placement_Failed | Workflow_Placement_Invalid
  | Worktree_Creation_Unsupported | Workflow_Branch_Invalid | Base_Ref_Not_Found
  | Environment_Collision | Workflow_Surface_Busy

datatype placement_issue =
    Surface_Not_On_Worktree | Worktree_Not_In_Project | Invalid_Surface_Title | No_Current_Surface

datatype collision = Branch_Collision | Worktree_Collision | Checkout_Path_Collision

text \<open>
  \<open>WorkflowEngineError\<close> with the context fields a launch sets; \<open>ee_cause\<close> is a message that comes
  verbatim from elsewhere, the wording of the engine's own messages is left out.
\<close>

record engine_error =
  ee_code :: reason
  ee_issue :: "placement_issue option"
  ee_collision :: "collision option"
  ee_workflow_key :: "string option"
  ee_worktree_id :: "nat option"
  ee_surface_id :: "nat option"
  ee_pane_id :: "nat option"
  ee_agent_session_id :: "nat option"
  ee_project_id :: "nat option"
  ee_active_run :: "nat option"
  ee_branch :: "string option"
  ee_base_ref :: "string option"
  ee_load_failure_reason :: "string option"
  ee_source_directory :: "string option"
  ee_package_directories :: "(string \<times> string list) option"
  ee_cause :: "err_text option"

definition engine_error :: "reason \<Rightarrow> engine_error" where
  "engine_error code =
     \<lparr>ee_code = code, ee_issue = None, ee_collision = None, ee_workflow_key = None,
      ee_worktree_id = None, ee_surface_id = None, ee_pane_id = None, ee_agent_session_id = None,
      ee_project_id = None, ee_active_run = None, ee_branch = None, ee_base_ref = None,
      ee_load_failure_reason = None, ee_source_directory = None, ee_package_directories = None,
      ee_cause = None\<rparr>"

definition rejection :: "reason \<Rightarrow> string \<Rightarrow> engine_error" where
  "rejection code workflow_key = (engine_error code)\<lparr>ee_workflow_key := Some workflow_key\<rparr>"

datatype 'e stop = Refused engine_error | Broken 'e

text \<open>A read of another service: its failure stops the launch as itself.\<close>

definition reading :: "'e + 'a \<Rightarrow> ('a \<Rightarrow> 'e stop + 'b) \<Rightarrow> 'e stop + 'b" where
  "reading r k = (case r of Inl e \<Rightarrow> Inl (Broken e) | Inr a \<Rightarrow> k a)"

definition proceed :: "'e stop + 'a \<Rightarrow> ('a \<Rightarrow> 'e stop + 'b) \<Rightarrow> 'e stop + 'b" where
  "proceed r k = (case r of Inl e \<Rightarrow> Inl e | Inr a \<Rightarrow> k a)"

section \<open>Places\<close>

record worktree =
  wt_id :: nat
  wt_project_id :: nat
  wt_path :: string
  wt_branch :: "string option"
  wt_head :: "string option"

datatype project_kind = GitProject | FolderProject

text \<open>\<open>LaunchProject\<close>, and the project row it is read from.\<close>

record project =
  pj_id :: nat
  pj_name :: string
  pj_kind :: project_kind
  pj_root_path :: string

record surface_row =
  sf_id :: nat
  sf_worktree_id :: nat
  sf_title :: string

datatype pane_session = AgentOnPane nat | TerminalOnPane nat

record pane =
  pn_id :: nat
  pn_session :: "pane_session option"

record surface_detail = surface_row + sf_panes :: "pane list"

datatype workspace_code =
    Worktrees_Not_Supported | Invalid_Branch_Name | Base_Ref_Missing | Branch_Exists | Worktree_Exists
  | Checkout_Path_Exists | Checkout_Path_Registered | Project_Not_Found | Project_Not_Present
  | Other_Workspace_Code string

record workspace_error =
  we_code :: workspace_code
  we_message :: string
  we_worktree_id :: "nat option"

datatype 'e preflight_failure = WorkspaceRefused workspace_error | PreflightBroken 'e

record 'e places =
  find_worktree :: "nat \<Rightarrow> 'e + worktree option"
  find_project :: "nat \<Rightarrow> 'e + project option"
  list_worktrees :: "'e + worktree list"
  get_surface_detail :: "nat \<Rightarrow> string + surface_detail"
  find_surface :: "nat \<Rightarrow> 'e + surface_row option"
  list_surface_metadata :: "'e + surface_row list"
  preflight_worktree_creation :: "nat \<Rightarrow> string \<Rightarrow> string \<Rightarrow> 'e preflight_failure + string"

text \<open>\<open>WorkflowOrigin\<close>.\<close>

record origin =
  og_worktree_id :: nat
  og_worktree_path :: string
  og_surface_id :: "nat option"
  og_pane_id :: "nat option"
  og_agent_session_id :: "nat option"

section \<open>What the placement hook may read\<close>

record worktree_summary =
  ws_id :: nat
  ws_path :: string
  ws_branch :: "string option"
  ws_head :: "string option"
  ws_is_root :: bool

text \<open>
  A context's call, \<open>run\<close> of \<^verbatim>\<open>engine/author-bridge.ts\<close>: a rejection once the context is closed,
  otherwise the effect's own result. \<open>'e\<close> carries the message an author sees.
\<close>

datatype 'e author_failure = ContextClosed | NotInThisProject nat | ServiceFailed 'e

definition bridge_run :: "bool \<Rightarrow> 'e author_failure + 'a \<Rightarrow> 'e author_failure + 'a" where
  "bridge_run closed effect = (if closed then Inl ContextClosed else effect)"

definition listed_worktrees ::
    "'e places \<Rightarrow> project \<Rightarrow> bool \<Rightarrow> 'e author_failure + worktree_summary list" where
  "listed_worktrees w project closed =
     bridge_run closed
       (case list_worktrees w of
          Inl e \<Rightarrow> Inl (ServiceFailed e)
        | Inr rs \<Rightarrow>
            Inr (map (\<lambda>r. \<lparr>ws_id = wt_id r, ws_path = wt_path r, ws_branch = wt_branch r,
                           ws_head = wt_head r, ws_is_root = (wt_path r = pj_root_path project)\<rparr>)
                   (filter (\<lambda>r. wt_project_id r = pj_id project) rs)))"

definition listed_surfaces ::
    "'e places \<Rightarrow> 'e places \<Rightarrow> project \<Rightarrow> bool \<Rightarrow> nat \<Rightarrow> 'e author_failure + surface_row list" where
  "listed_surfaces w w' project closed worktree_id =
     bridge_run closed
       (case find_worktree w worktree_id of
          Inl e \<Rightarrow> Inl (ServiceFailed e)
        | Inr found \<Rightarrow>
            if (case found of None \<Rightarrow> True | Some r \<Rightarrow> wt_project_id r \<noteq> pj_id project)
            then Inl (NotInThisProject worktree_id)
            else (case list_surface_metadata w' of
                    Inl e \<Rightarrow> Inl (ServiceFailed e)
                  | Inr rs \<Rightarrow> Inr (filter (\<lambda>r. sf_worktree_id r = worktree_id) rs)))"

text \<open>
  The context handed to the hook. Its calls are made at moments of the author's choosing, so each
  takes the places of that moment; after \<open>placement_hook_result\<close> the context is closed.
\<close>

record 'e placement_context =
  px_origin :: origin
  px_project_id :: nat
  px_project_name :: string
  px_project_kind :: project_kind
  px_list_worktrees :: "'e places \<Rightarrow> 'e author_failure + worktree_summary list"
  px_list_surfaces :: "'e places \<Rightarrow> 'e places \<Rightarrow> nat \<Rightarrow> 'e author_failure + surface_row list"

definition make_placement_context :: "origin \<Rightarrow> project \<Rightarrow> bool \<Rightarrow> 'e placement_context" where
  "make_placement_context og project closed =
     \<lparr>px_origin = og, px_project_id = pj_id project, px_project_name = pj_name project,
      px_project_kind = pj_kind project,
      px_list_worktrees = (\<lambda>w. listed_worktrees w project closed),
      px_list_surfaces = (\<lambda>w w'. listed_surfaces w w' project closed)\<rparr>"

section \<open>Selection\<close>

type_synonym placement_request = "worktree_choice \<times> surface_choice"

text \<open>
  \<open>workflowPlacementRequestSchema\<close> of \<^verbatim>\<open>packages/contracts\<close>: the fields a decoder reads, with
  \<open>positiveInteger\<close> and \<open>nonEmptyString\<close>; unknown fields are dropped.
\<close>

definition positive_integer :: "jsval \<Rightarrow> nat option" where
  "positive_integer v =
     (case v of JNum (Finite n) \<Rightarrow> if 0 < n then Some (nat n) else None | _ \<Rightarrow> None)"

definition non_empty_string :: "jsval \<Rightarrow> string option" where
  "non_empty_string v = (case v of JStr s \<Rightarrow> if s = [] then None else Some s | _ \<Rightarrow> None)"

definition decode_worktree_choice :: "jsval \<Rightarrow> worktree_choice option" where
  "decode_worktree_choice v =
     (if get_prop v ''kind'' = JStr ''current'' then Some CurrentWorktree
      else if get_prop v ''kind'' = JStr ''existing''
      then map_option ExistingWorktree (positive_integer (get_prop v ''worktreeId''))
      else if get_prop v ''kind'' = JStr ''create''
      then (case (non_empty_string (get_prop v ''branch''), non_empty_string (get_prop v ''fromRef'')) of
              (Some branch, Some from_ref) \<Rightarrow> Some (CreateWorktree branch from_ref)
            | _ \<Rightarrow> None)
      else None)"

definition decode_surface_choice :: "jsval \<Rightarrow> surface_choice option" where
  "decode_surface_choice v =
     (if get_prop v ''kind'' = JStr ''current'' then Some CurrentSurface
      else if get_prop v ''kind'' = JStr ''existing''
      then map_option ExistingSurface (positive_integer (get_prop v ''surfaceId''))
      else if get_prop v ''kind'' = JStr ''create''
      then map_option CreateSurface (non_empty_string (get_prop v ''title''))
      else None)"

definition decode_placement_request :: "jsval \<Rightarrow> placement_request option" where
  "decode_placement_request v =
     (if js_typeof v \<noteq> TObject then None
      else case (decode_worktree_choice (get_prop v ''worktree''),
                 decode_surface_choice (get_prop v ''surface'')) of
             (Some wc, Some sc) \<Rightarrow> Some (wc, sc)
           | _ \<Rightarrow> None)"

definition surface_title_max_length :: nat where
  "surface_title_max_length = 80"

definition default_placement_request :: "origin \<Rightarrow> string \<Rightarrow> placement_request" where
  "default_placement_request og command_title =
     (CurrentWorktree,
      if og_surface_id og = None
      then CreateSurface (take surface_title_max_length (js_trim command_title))
      else CurrentSurface)"

text \<open>
  An override counts before the hook, the hook before the default. The hook is absent when the
  definition's \<open>placement\<close> is not a function; \<open>hook\<close> is what it answers for its context.
\<close>

definition selection_failed :: "string \<Rightarrow> err_text option \<Rightarrow> engine_error" where
  "selection_failed workflow_key cause =
     (rejection Workflow_Placement_Failed workflow_key)\<lparr>ee_cause := cause\<rparr>"

definition select_placement ::
    "string \<Rightarrow> origin \<Rightarrow> project \<Rightarrow> json \<Rightarrow> jsval option \<Rightarrow> string \<Rightarrow>
     ('e placement_context \<Rightarrow> json \<Rightarrow> answer) option \<Rightarrow>
     'e stop + (placement_source \<times> placement_request)" where
  "select_placement workflow_key og project parameters override command_title hook =
     (case override of
        Some placement \<Rightarrow>
          (case decode_placement_request placement of
             Some request \<Rightarrow> Inr (OverridePlacement, request)
           | None \<Rightarrow> Inl (Refused (rejection Workflow_Placement_Invalid workflow_key)))
      | None \<Rightarrow>
          (case hook of
             None \<Rightarrow> Inr (DefaultPlacement, default_placement_request og command_title)
           | Some h \<Rightarrow>
               (case h (make_placement_context og project False) parameters of
                  Throw t \<Rightarrow> Inl (Refused (selection_failed workflow_key (Some (error_message t))))
                | Ret raw \<Rightarrow>
                    (case decode_placement_request raw of
                       None \<Rightarrow> Inl (Refused (selection_failed workflow_key None))
                     | Some request \<Rightarrow> Inr (SelectorPlacement, request)))))"

section \<open>Resolution\<close>

datatype resolved_worktree = ReuseWorktree nat string | NewWorktree string string string

datatype resolved_surface = ReuseSurface nat | NewSurface string

record resolved_placement =
  rs_source :: placement_source
  rs_request :: placement_request
  rs_project_id :: nat
  rs_worktree :: resolved_worktree
  rs_surface :: resolved_surface

definition creation_rejection :: "workspace_error \<Rightarrow> string \<Rightarrow> project \<Rightarrow> string \<Rightarrow> string \<Rightarrow> engine_error"
where
  "creation_rejection e workflow_key project branch from_ref =
     (let common = (\<lambda>code. (rejection code workflow_key)\<lparr>ee_cause := Some (Text (we_message e))\<rparr>);
          collide = (\<lambda>c. (common Environment_Collision)
            \<lparr>ee_collision := Some c, ee_branch := Some branch\<rparr>) in
      case we_code e of
        Worktrees_Not_Supported \<Rightarrow>
          (common Worktree_Creation_Unsupported)\<lparr>ee_project_id := Some (pj_id project)\<rparr>
      | Invalid_Branch_Name \<Rightarrow> (common Workflow_Branch_Invalid)\<lparr>ee_branch := Some branch\<rparr>
      | Base_Ref_Missing \<Rightarrow>
          (common Base_Ref_Not_Found)\<lparr>ee_base_ref := Some from_ref, ee_branch := Some branch\<rparr>
      | Branch_Exists \<Rightarrow> collide Branch_Collision
      | Worktree_Exists \<Rightarrow> (collide Worktree_Collision)\<lparr>ee_worktree_id := we_worktree_id e\<rparr>
      | Checkout_Path_Exists \<Rightarrow> collide Checkout_Path_Collision
      | Checkout_Path_Registered \<Rightarrow> collide Checkout_Path_Collision
      | Project_Not_Found \<Rightarrow> (common Worktree_Not_Found)\<lparr>ee_project_id := Some (pj_id project)\<rparr>
      | Project_Not_Present \<Rightarrow> (common Worktree_Not_Found)\<lparr>ee_project_id := Some (pj_id project)\<rparr>
      | Other_Workspace_Code code \<Rightarrow> common Workflow_Load_Failed)"

definition resolve_worktree ::
    "'e places \<Rightarrow> string \<Rightarrow> origin \<Rightarrow> project \<Rightarrow> worktree_choice \<Rightarrow> 'e stop + resolved_worktree"
where
  "resolve_worktree w workflow_key og project choice =
     (case choice of
        CurrentWorktree \<Rightarrow> Inr (ReuseWorktree (og_worktree_id og) (og_worktree_path og))
      | ExistingWorktree i \<Rightarrow>
          reading (find_worktree w i) (\<lambda>found.
            case found of
              None \<Rightarrow>
                Inl (Refused ((rejection Worktree_Not_Found workflow_key)\<lparr>ee_worktree_id := Some i\<rparr>))
            | Some row \<Rightarrow>
                if wt_project_id row \<noteq> pj_id project
                then Inl (Refused ((rejection Workflow_Placement_Invalid workflow_key)
                       \<lparr>ee_issue := Some Worktree_Not_In_Project, ee_worktree_id := Some (wt_id row),
                        ee_project_id := Some (pj_id project)\<rparr>))
                else Inr (ReuseWorktree (wt_id row) (wt_path row)))
      | CreateWorktree wanted from_ref \<Rightarrow>
          (let branch = js_trim wanted in
           case preflight_worktree_creation w (pj_id project) branch from_ref of
             Inl (WorkspaceRefused e) \<Rightarrow>
               Inl (Refused (creation_rejection e workflow_key project branch from_ref))
           | Inl (PreflightBroken e) \<Rightarrow> Inl (Broken e)
           | Inr commit \<Rightarrow> Inr (NewWorktree branch from_ref commit)))"

text \<open>\<open>validateSurfaceTitle\<close> of \<^verbatim>\<open>environment/surfaces/service.ts\<close>.\<close>

definition validate_surface_title :: "string \<Rightarrow> string option" where
  "validate_surface_title title =
     (let trimmed = js_trim title in
      if trimmed = [] \<or> 80 < length trimmed then None else Some trimmed)"

definition resolve_surface ::
    "'e places \<Rightarrow> string \<Rightarrow> origin \<Rightarrow> nat option \<Rightarrow> surface_choice \<Rightarrow> 'e stop + resolved_surface" where
  "resolve_surface w workflow_key og resolved_worktree_id choice =
     (case choice of
        CurrentSurface \<Rightarrow>
          (case og_surface_id og of
             None \<Rightarrow> Inl (Refused ((rejection Workflow_Placement_Invalid workflow_key)
               \<lparr>ee_issue := Some No_Current_Surface, ee_worktree_id := Some (og_worktree_id og)\<rparr>))
           | Some current \<Rightarrow>
               if resolved_worktree_id \<noteq> Some (og_worktree_id og)
               then Inl (Refused ((rejection Workflow_Placement_Invalid workflow_key)
                 \<lparr>ee_issue := Some Surface_Not_On_Worktree, ee_surface_id := Some current,
                  ee_worktree_id := Some (og_worktree_id og)\<rparr>))
               else Inr (ReuseSurface current))
      | ExistingSurface i \<Rightarrow>
          reading (find_surface w i) (\<lambda>found.
            case found of
              None \<Rightarrow>
                Inl (Refused ((rejection Surface_Not_Found workflow_key)\<lparr>ee_surface_id := Some i\<rparr>))
            | Some row \<Rightarrow>
                if Some (sf_worktree_id row) \<noteq> resolved_worktree_id
                then Inl (Refused ((rejection Workflow_Placement_Invalid workflow_key)
                  \<lparr>ee_issue := Some Surface_Not_On_Worktree, ee_surface_id := Some (sf_id row),
                   ee_worktree_id := Some (sf_worktree_id row)\<rparr>))
                else Inr (ReuseSurface (sf_id row)))
      | CreateSurface wanted \<Rightarrow>
          (case validate_surface_title wanted of
             None \<Rightarrow> Inl (Refused ((rejection Workflow_Placement_Invalid workflow_key)
               \<lparr>ee_issue := Some Invalid_Surface_Title\<rparr>))
           | Some title \<Rightarrow> Inr (NewSurface title)))"

definition reused_worktree_id :: "resolved_worktree \<Rightarrow> nat option" where
  "reused_worktree_id r = (case r of ReuseWorktree i p \<Rightarrow> Some i | NewWorktree b f c \<Rightarrow> None)"

definition resolve_placement ::
    "'e places \<Rightarrow> 'e places \<Rightarrow> string \<Rightarrow> origin \<Rightarrow> project \<Rightarrow> placement_source \<times> placement_request \<Rightarrow>
     'e stop + resolved_placement" where
  "resolve_placement w w' workflow_key og project selection =
     (case selection of (source, request) \<Rightarrow>
      proceed (resolve_worktree w workflow_key og project (fst request)) (\<lambda>wt.
      proceed (resolve_surface w' workflow_key og (reused_worktree_id wt) (snd request)) (\<lambda>sf.
      Inr \<lparr>rs_source = source, rs_request = request, rs_project_id = pj_id project,
           rs_worktree = wt, rs_surface = sf\<rparr>)))"

section \<open>What a resolved placement says\<close>

lemma reading_Inr [simp]:
  "reading r k = Inr b \<longleftrightarrow> (\<exists>a. r = Inr a \<and> k a = Inr b)"
  by (cases r) (auto simp: reading_def)

lemma proceed_Inr [simp]:
  "proceed r k = Inr b \<longleftrightarrow> (\<exists>a. r = Inr a \<and> k a = Inr b)"
  by (cases r) (auto simp: proceed_def)

lemma validate_surface_title_Some:
  "validate_surface_title t = Some s \<longleftrightarrow> s = js_trim t \<and> s \<noteq> [] \<and> length s \<le> 80"
  by (auto simp: validate_surface_title_def Let_def)

text \<open>A reused worktree is the origin's, or a row of the launch project.\<close>

lemma resolve_worktree_reuses:
  "resolve_worktree w key og project choice = Inr (ReuseWorktree i p) \<Longrightarrow>
     choice = CurrentWorktree \<and> i = og_worktree_id og \<and> p = og_worktree_path og \<or>
     (\<exists>j row. choice = ExistingWorktree j \<and> find_worktree w j = Inr (Some row) \<and>
        wt_id row = i \<and> wt_path row = p \<and> wt_project_id row = pj_id project)"
  by (auto simp: resolve_worktree_def Let_def split: worktree_choice.splits option.splits if_splits
      sum.splits preflight_failure.splits)

lemma resolve_worktree_creates:
  "resolve_worktree w key og project choice = Inr (NewWorktree b f c) \<Longrightarrow>
     \<exists>wanted. choice = CreateWorktree wanted f \<and> b = js_trim wanted \<and>
       preflight_worktree_creation w (pj_id project) b f = Inr c"
  by (auto simp: resolve_worktree_def Let_def split: worktree_choice.splits option.splits if_splits
      sum.splits preflight_failure.splits)

text \<open>A reused surface is on the worktree the run is placed on, so never on one yet to be created.\<close>

lemma resolve_surface_reuses:
  "resolve_surface w key og wid choice = Inr (ReuseSurface i) \<Longrightarrow>
     choice = CurrentSurface \<and> og_surface_id og = Some i \<and> wid = Some (og_worktree_id og) \<or>
     (\<exists>j row. choice = ExistingSurface j \<and> find_surface w j = Inr (Some row) \<and>
        sf_id row = i \<and> wid = Some (sf_worktree_id row))"
  by (auto simp: resolve_surface_def split: surface_choice.splits option.splits if_splits)

lemma resolve_surface_creates:
  "resolve_surface w key og wid choice = Inr (NewSurface t) \<Longrightarrow>
     \<exists>wanted. choice = CreateSurface wanted \<and> validate_surface_title wanted = Some t"
  by (auto simp: resolve_surface_def split: surface_choice.splits option.splits if_splits)

text \<open>The default placement is one the resolution accepts, whatever the command's title.\<close>

lemma js_trim_head:
  assumes "js_trim s = c # cs"
  shows "\<not> white c"
proof -
  obtain ds where "dropWhile white s = js_trim s @ ds"
    using takeWhile_dropWhile_id [of white "rev (dropWhile white s)"] unfolding js_trim_def
    by (metis rev_append rev_rev_ident)
  then have "dropWhile white s \<noteq> [] \<and> hd (dropWhile white s) = c" unfolding assms by simp
  then show ?thesis using hd_dropWhile [of white s] by metis
qed

lemma js_trim_length: "length (js_trim s) \<le> length s"
  unfolding js_trim_def by (metis length_dropWhile_le length_rev order_trans)

lemma default_title_is_valid:
  assumes "og_surface_id og = None" and "js_trim title \<noteq> []"
    and "default_placement_request og title = (wc, CreateSurface t)"
  shows "\<exists>s. validate_surface_title t = Some s"
proof -
  have t: "t = take 80 (js_trim title)"
    using assms(1,3) by (simp add: default_placement_request_def surface_title_max_length_def)
  obtain c cs where c: "js_trim title = c # cs" using assms(2) by (cases "js_trim title") auto
  then have "t = c # take 79 cs" using t by (simp add: take_Cons')
  then have "js_trim t \<noteq> []" using js_trim_head [OF c] by (auto simp: js_trim_def dropWhile_eq_Nil_conv)
  moreover have "length (js_trim t) \<le> 80"
    using js_trim_length [of t] t by simp
  ultimately show ?thesis by (auto simp: validate_surface_title_Some)
qed

end
