(* ===== verification/Checkpoint_Plan.thy ===== *)
theory Checkpoint_Plan
  imports Author_Code "HOL-Library.List_Lexorder" "HOL-Library.Char_ord" "HOL-Library.Sublist"
begin

text \<open>
  The plan a checkpoint's author function returned, read by
  \<^verbatim>\<open>checkpoints/plan.ts\<close> before anything touches the file system: relative paths in their one
  spelling, scopes that never nest, and a refusal that names the field for anything else. A path is
  a string in the data, as in the code; the lemmas look at the list of its segments.
\<close>

section \<open>Paths\<close>

abbreviation slash :: char where
  "slash \<equiv> CHR ''/''"

text \<open>\<open>split('/')\<close> and \<open>join('/')\<close>.\<close>

fun segments :: "string \<Rightarrow> string list" where
  "segments [] = [[]]"
| "segments (c # s) =
     (if c = slash then [] # segments s
      else (case segments s of [] \<Rightarrow> [[c]] | p # ps \<Rightarrow> (c # p) # ps))"

fun join_segments :: "string list \<Rightarrow> string" where
  "join_segments [] = []"
| "join_segments [p] = p"
| "join_segments (p # q # ps) = p @ slash # join_segments (q # ps)"

text \<open>\<open>posix.normalize\<close>; the segments are resolved on a stack, the last one first.\<close>

definition resolve_segment :: "bool \<Rightarrow> string list \<Rightarrow> string \<Rightarrow> string list" where
  "resolve_segment allow_above st s =
     (if s = [] \<or> s = ''.'' then st
      else if s = ''..'' then
        (case st of
           p # ps \<Rightarrow> if p \<noteq> ''..'' then ps else if allow_above then s # st else st
         | [] \<Rightarrow> if allow_above then [s] else [])
      else s # st)"

definition posix_normalize :: "string \<Rightarrow> string" where
  "posix_normalize path =
     (if path = [] then ''.''
      else
        let absolute = (hd path = slash);
            trailing = (last path = slash);
            body = join_segments (rev (foldl (resolve_segment (\<not> absolute)) [] (segments path)))
        in if body = [] then (if absolute then [slash] else if trailing then ''./'' else ''.'')
           else (if absolute then [slash] else []) @ body @ (if trailing then [slash] else []))"

definition drive_letter :: "char \<Rightarrow> bool" where
  "drive_letter c = ((CHR ''A'' \<le> c \<and> c \<le> CHR ''Z'') \<or> (CHR ''a'' \<le> c \<and> c \<le> CHR ''z''))"

fun drive_prefix :: "string \<Rightarrow> bool" where
  "drive_prefix (c # d # s) = (drive_letter c \<and> d = CHR '':'')"
| "drive_prefix s = False"

definition backslash :: char where
  "backslash = CHR 0x5C"

definition strip_trailing :: "string \<Rightarrow> string" where
  "strip_trailing s = rev (dropWhile (\<lambda>c. c = slash) (rev s))"

definition normalize_relative_path :: "string \<Rightarrow> string option" where
  "normalize_relative_path candidate =
     (if candidate = [] \<or> CHR 0x00 \<in> set candidate then None
      else if hd candidate = slash \<or> hd candidate = backslash then None
      else if drive_prefix candidate then None
      else
        let slashed = map (\<lambda>c. if c = backslash then slash else c) candidate in
        if ''..'' \<in> set (segments slashed) then None
        else
          let normalized = strip_trailing (posix_normalize slashed) in
          if normalized = [] \<or> normalized = ''.'' then None else Some normalized)"

definition has_git_segment :: "string \<Rightarrow> bool" where
  "has_git_segment path = (''.git'' \<in> set (segments path))"

fun starts_with :: "string \<Rightarrow> string \<Rightarrow> bool" where
  "starts_with s [] = True"
| "starts_with [] (c # p) = False"
| "starts_with (d # s) (c # p) = (d = c \<and> starts_with s p)"

definition path_contains :: "string \<Rightarrow> string \<Rightarrow> bool" where
  "path_contains outer inner = (inner = outer \<or> starts_with inner (outer @ [slash]))"

section \<open>Plans\<close>

datatype scope_kind = DirectoryScope | FileScope

record scope =
  sc_name :: string
  sc_kind :: scope_kind
  sc_path :: string
  sc_exclude :: "string list"

text \<open>
  The refusals, one for each message, with what the message names. \<open>PlanThrows\<close> is none of them:
  \<open>JSON.stringify\<close> of the rejected value throws, and so does \<open>normalizeCheckpointPlan\<close>.
\<close>

datatype plan_error =
    NotAPlan | TooManyScopes
  | NotAScope nat | IncompleteScope nat | BadScopeName nat string | ScopeUsedTwice nat string
  | NotARelativePath nat scope_kind jsval | NamesGit nat scope_kind string
  | ExcludeNotAllowed nat | TooManyExclusions nat | BadExclusion nat nat jsval
  | ScopesOverlap scope scope
  | PlanThrows

definition checkpoint_max_scopes :: nat where "checkpoint_max_scopes = 64"

definition checkpoint_max_exclusions :: nat where "checkpoint_max_exclusions = 64"

definition lower_or_digit :: "char \<Rightarrow> bool" where
  "lower_or_digit c = ((CHR ''a'' \<le> c \<and> c \<le> CHR ''z'') \<or> (CHR ''0'' \<le> c \<and> c \<le> CHR ''9''))"

definition scope_name_pattern :: "string \<Rightarrow> bool" where
  "scope_name_pattern s =
     (case s of
        [] \<Rightarrow> False
      | c # rest \<Rightarrow>
          lower_or_digit c \<and> length rest \<le> 63 \<and>
          list_all (\<lambda>d. lower_or_digit d \<or> d \<in> set ''._-'') rest)"

definition refuse_value :: "jsval \<Rightarrow> plan_error \<Rightarrow> plan_error + 'a" where
  "refuse_value raw message = Inl (if stringify_throws raw then PlanThrows else message)"

definition normalize_string :: "jsval \<Rightarrow> string option" where
  "normalize_string v = (case v of JStr s \<Rightarrow> normalize_relative_path s | _ \<Rightarrow> None)"

text \<open>The loop over one scope's exclusions; \<open>unique\<close> is the set built so far.\<close>

fun normalize_exclusions ::
    "nat \<Rightarrow> nat \<Rightarrow> string list \<Rightarrow> jsval list \<Rightarrow> plan_error + string list" where
  "normalize_exclusions index i unique [] = Inr unique"
| "normalize_exclusions index i unique (v # vs) =
     (case normalize_string v of
        None \<Rightarrow> refuse_value v (BadExclusion index i v)
      | Some normalized \<Rightarrow>
          if has_git_segment normalized then refuse_value v (BadExclusion index i v)
          else normalize_exclusions index (Suc i) (List.insert normalized unique) vs)"

definition normalize_exclude ::
    "nat \<Rightarrow> scope_kind \<Rightarrow> jsval \<Rightarrow> plan_error + string list" where
  "normalize_exclude index kind v =
     (case v of
        JUndefined \<Rightarrow> Inr []
      | JArr raw \<Rightarrow>
          if kind = FileScope then Inl (ExcludeNotAllowed index)
          else if checkpoint_max_exclusions < length raw then Inl (TooManyExclusions index)
          else (case normalize_exclusions index 0 [] raw of
                  Inl e \<Rightarrow> Inl e
                | Inr unique \<Rightarrow> Inr (sort unique))
      | _ \<Rightarrow> Inl (ExcludeNotAllowed index))"

text \<open>One turn of the loop over \<open>capture\<close>; \<open>seen\<close> holds the names used so far.\<close>

definition normalize_scope :: "nat \<Rightarrow> string list \<Rightarrow> jsval \<Rightarrow> plan_error + scope" where
  "normalize_scope index seen candidate =
     (if \<not> is_plain_object candidate then Inl (NotAScope index)
      else
        let has_directory = (get_prop candidate ''directory'' \<noteq> JUndefined);
            has_file = (get_prop candidate ''file'' \<noteq> JUndefined) in
        case get_prop candidate ''scope'' of
          JStr name \<Rightarrow>
            if has_directory = has_file then Inl (IncompleteScope index)
            else if \<not> scope_name_pattern name then Inl (BadScopeName index name)
            else if name \<in> set seen then Inl (ScopeUsedTwice index name)
            else
              let kind = (if has_directory then DirectoryScope else FileScope);
                  raw = get_prop candidate (if has_directory then ''directory'' else ''file'') in
              (case normalize_string raw of
                 None \<Rightarrow> refuse_value raw (NotARelativePath index kind raw)
               | Some path \<Rightarrow>
                   if has_git_segment path then Inl (NamesGit index kind path)
                   else (case normalize_exclude index kind (get_prop candidate ''exclude'') of
                           Inl e \<Rightarrow> Inl e
                         | Inr exclude \<Rightarrow>
                             Inr \<lparr>sc_name = name, sc_kind = kind, sc_path = path,
                                  sc_exclude = exclude\<rparr>))
        | _ \<Rightarrow> Inl (IncompleteScope index))"

fun normalize_scopes :: "nat \<Rightarrow> string list \<Rightarrow> jsval list \<Rightarrow> plan_error + scope list" where
  "normalize_scopes index seen [] = Inr []"
| "normalize_scopes index seen (candidate # rest) =
     (case normalize_scope index seen candidate of
        Inl e \<Rightarrow> Inl e
      | Inr s \<Rightarrow>
          (case normalize_scopes (Suc index) (sc_name s # seen) rest of
             Inl e \<Rightarrow> Inl e
           | Inr ss \<Rightarrow> Inr (s # ss)))"

definition overlap :: "scope \<Rightarrow> scope \<Rightarrow> bool" where
  "overlap a b = (path_contains (sc_path a) (sc_path b) \<or> path_contains (sc_path b) (sc_path a))"

fun first_overlap :: "scope list \<Rightarrow> (scope \<times> scope) option" where
  "first_overlap [] = None"
| "first_overlap (a # rest) =
     (case find (overlap a) rest of
        Some b \<Rightarrow> Some (a, b)
      | None \<Rightarrow> first_overlap rest)"

definition normalize_checkpoint_plan :: "jsval \<Rightarrow> plan_error + scope list" where
  "normalize_checkpoint_plan v =
     (if \<not> is_plain_object v then Inl NotAPlan
      else case get_prop v ''capture'' of
        JArr capture \<Rightarrow>
          if checkpoint_max_scopes < length capture then Inl TooManyScopes
          else (case normalize_scopes 0 [] capture of
                  Inl e \<Rightarrow> Inl e
                | Inr scopes \<Rightarrow>
                    (case first_overlap scopes of
                       Some (a, b) \<Rightarrow> Inl (ScopesOverlap a b)
                     | None \<Rightarrow> Inr scopes))
      | _ \<Rightarrow> Inl NotAPlan)"

section \<open>Segments\<close>

named_theorems path_simps \<open>paths as lists of segments\<close>

lemma segments_not_Nil [simp]: "segments s \<noteq> []"
  by (induction s) (auto split: list.splits)

lemma segments_slash [path_simps]: "segments (a @ slash # b) = segments a @ segments b"
proof (induction a)
  case Nil
  then show ?case by simp
next
  case (Cons c a)
  then show ?case by (cases "segments a") auto
qed

lemma join_segments_Cons:
  "ps \<noteq> [] \<Longrightarrow> join_segments (p # ps) = p @ slash # join_segments ps"
  by (cases ps) auto

lemma join_segments_append:
  "ps \<noteq> [] \<Longrightarrow> qs \<noteq> [] \<Longrightarrow> join_segments (ps @ qs) = join_segments ps @ slash # join_segments qs"
  by (induction ps rule: join_segments.induct) (auto simp: join_segments_Cons)

lemma join_of_segments [simp]: "join_segments (segments s) = s"
proof (induction s)
  case Nil
  then show ?case by simp
next
  case (Cons c s)
  obtain p ps where ps: "segments s = p # ps" by (cases "segments s") auto
  have "join_segments ((c # p) # ps) = c # join_segments (p # ps)" by (cases ps) auto
  with Cons ps show ?case by (auto simp: join_segments_Cons)
qed

lemma segments_inject: "(segments a = segments b) = (a = b)"
  by (metis join_of_segments)

lemma no_slash_in_segments: "p \<in> set (segments s) \<Longrightarrow> slash \<notin> set p"
  by (induction s arbitrary: p) (force split: if_splits list.splits)+

lemma segments_of_name [path_simps]: "slash \<notin> set n \<Longrightarrow> segments n = [n]"
  by (induction n) auto

lemma segments_of_join:
  "ps \<noteq> [] \<Longrightarrow> \<forall>p \<in> set ps. slash \<notin> set p \<Longrightarrow> segments (join_segments ps) = ps"
  by (induction ps rule: join_segments.induct) (auto simp: path_simps)

lemma starts_with_iff: "starts_with s p = prefix p s"
  by (induction s p rule: starts_with.induct) auto

lemma path_contains_iff [path_simps]:
  "path_contains a b = prefix (segments a) (segments b)"
proof
  assume "path_contains a b"
  then show "prefix (segments a) (segments b)"
    by (auto simp: path_contains_def starts_with_iff prefix_def path_simps)
next
  assume "prefix (segments a) (segments b)"
  then obtain qs where qs: "segments b = segments a @ qs" by (auto simp: prefix_def)
  show "path_contains a b"
  proof (cases "qs = []")
    case True
    with qs show ?thesis by (simp add: path_contains_def segments_inject)
  next
    case False
    have "b = join_segments (segments a @ qs)" using qs by (metis join_of_segments)
    with False have "b = a @ slash # join_segments qs" by (simp add: join_segments_append)
    then show ?thesis by (simp add: path_contains_def starts_with_iff)
  qed
qed

lemma comparable_prefixes:
  "prefix xs zs \<Longrightarrow> prefix ys zs \<Longrightarrow> prefix xs ys \<or> prefix ys xs"
  by (rule prefix_same_cases)

section \<open>Normal paths\<close>

definition trivial_segment :: "string \<Rightarrow> bool" where
  "trivial_segment s = (s = [] \<or> s = ''.'')"

text \<open>One spelling: no empty segment, no \<open>.\<close> and no \<open>..\<close>.\<close>

definition normal_path :: "string \<Rightarrow> bool" where
  "normal_path p = list_all (\<lambda>s. \<not> trivial_segment s \<and> s \<noteq> ''..'') (segments p)"

lemma resolve_without_parent:
  "''..'' \<notin> set segs \<Longrightarrow>
   foldl (resolve_segment b) st segs = rev (filter (\<lambda>s. \<not> trivial_segment s) segs) @ st"
  by (induction segs arbitrary: st) (auto simp: resolve_segment_def trivial_segment_def)

lemma strip_trailing_slash: "strip_trailing (s @ [slash]) = strip_trailing s"
  by (simp add: strip_trailing_def)

lemma strip_trailing_last: "s \<noteq> [] \<Longrightarrow> last s \<noteq> slash \<Longrightarrow> strip_trailing s = s"
  by (cases s rule: rev_cases) (auto simp: strip_trailing_def)

lemma last_join:
  "ps \<noteq> [] \<Longrightarrow> last ps \<noteq> [] \<Longrightarrow> join_segments ps \<noteq> [] \<and> last (join_segments ps) = last (last ps)"
  by (induction ps rule: join_segments.induct) auto

lemma join_nontrivial:
  assumes "ps \<noteq> []" and "list_all (\<lambda>s. \<not> trivial_segment s \<and> slash \<notin> set s) ps"
  shows "join_segments ps \<noteq> []" and "strip_trailing (join_segments ps) = join_segments ps"
    and "join_segments ps \<noteq> ''.''"
proof -
  have last: "last ps \<noteq> []" "slash \<notin> set (last ps)"
    using assms by (auto simp: list_all_iff trivial_segment_def)
  have "last (join_segments ps) \<noteq> slash" using last_join [OF assms(1)] last by (metis last_in_set)
  then show ne: "join_segments ps \<noteq> []" and "strip_trailing (join_segments ps) = join_segments ps"
    using last_join [OF assms(1)] last(1) by (auto intro: strip_trailing_last)
  show "join_segments ps \<noteq> ''.''"
  proof
    assume "join_segments ps = ''.''"
    then have "segments (join_segments ps) = [''.'']" by simp
    moreover have "segments (join_segments ps) = ps"
      using assms by (intro segments_of_join) (auto simp: list_all_iff)
    ultimately show False using assms(2) by (simp add: trivial_segment_def)
  qed
qed

definition slashed :: "string \<Rightarrow> string" where
  "slashed s = map (\<lambda>c. if c = backslash then slash else c) s"

definition admitted_path :: "string \<Rightarrow> bool" where
  "admitted_path s =
     (s \<noteq> [] \<and> CHR 0x00 \<notin> set s \<and> hd s \<noteq> slash \<and> hd s \<noteq> backslash \<and> \<not> drive_prefix s \<and>
      ''..'' \<notin> set (segments (slashed s)))"

definition spelled :: "string \<Rightarrow> string list" where
  "spelled s = filter (\<lambda>p. \<not> trivial_segment p) (segments (slashed s))"

lemma normalize_relative_path_iff:
  "normalize_relative_path s =
     (if admitted_path s \<and> spelled s \<noteq> [] then Some (join_segments (spelled s)) else None)"
proof (cases "admitted_path s")
  case False
  then show ?thesis by (auto simp: normalize_relative_path_def admitted_path_def slashed_def Let_def)
next
  case True
  let ?u = "slashed s"
  have u: "?u \<noteq> []" "hd ?u \<noteq> slash" "''..'' \<notin> set (segments ?u)"
    using True by (cases s; auto simp: admitted_path_def slashed_def)+
  have code: "normalize_relative_path s =
      (let n = strip_trailing (posix_normalize ?u) in if n = [] \<or> n = ''.'' then None else Some n)"
    using True by (auto simp: normalize_relative_path_def admitted_path_def slashed_def Let_def)
  have body: "rev (foldl (resolve_segment True) [] (segments ?u)) = spelled s"
    using u(3) by (simp add: resolve_without_parent spelled_def)
  have norm: "posix_normalize ?u =
     (let body = join_segments (spelled s); t = (last ?u = slash) in
      if body = [] then (if t then ''./'' else ''.'') else body @ (if t then [slash] else []))"
    using u(1,2) by (simp add: posix_normalize_def body Let_def)
  show ?thesis
  proof (cases "spelled s = []")
    case empty: True
    have "strip_trailing ''./'' = ''.''" "strip_trailing ''.'' = ''.''"
      by (simp_all add: strip_trailing_def)
    then show ?thesis using empty unfolding code norm by (simp add: Let_def)
  next
    case False
    have "list_all (\<lambda>p. \<not> trivial_segment p \<and> slash \<notin> set p) (spelled s)"
      by (auto simp: spelled_def list_all_iff dest: no_slash_in_segments)
    note join_nontrivial [OF False this]
    then show ?thesis
      using False True unfolding code norm by (simp add: Let_def strip_trailing_slash)
  qed
qed

lemma normalized_segments:
  assumes "normalize_relative_path s = Some p"
  shows "segments p = spelled s" and "normal_path p"
proof -
  have p: "admitted_path s" "spelled s \<noteq> []" "p = join_segments (spelled s)"
    using assms by (auto simp: normalize_relative_path_iff split: if_splits)
  then show seg: "segments p = spelled s"
    by (auto simp: spelled_def intro!: segments_of_join dest: no_slash_in_segments)
  show "normal_path p"
    using p(1) unfolding normal_path_def seg by (auto simp: spelled_def admitted_path_def list_all_iff)
qed

text \<open>A drive letter is only looked for in front of what the author wrote.\<close>

lemma drive_letter_behind_a_dot: "normalize_relative_path ''./C:/x'' = Some ''C:/x''"
  by (simp add: normalize_relative_path_def posix_normalize_def resolve_segment_def strip_trailing_def
      backslash_def Let_def)

lemma drive_letter_in_front: "normalize_relative_path ''C:/x'' = None"
  by (simp add: normalize_relative_path_def backslash_def drive_letter_def)

section \<open>What a plan is\<close>

text \<open>The exclusions and scopes a plan may name, and what they are read as.\<close>

definition exclusion_ok :: "jsval \<Rightarrow> bool" where
  "exclusion_ok v =
     (case normalize_string v of None \<Rightarrow> False | Some p \<Rightarrow> \<not> has_git_segment p)"

definition exclude_ok :: "scope_kind \<Rightarrow> jsval \<Rightarrow> bool" where
  "exclude_ok kind v =
     (case v of
        JUndefined \<Rightarrow> True
      | JArr raw \<Rightarrow> kind = DirectoryScope \<and> length raw \<le> 64 \<and> list_all exclusion_ok raw
      | _ \<Rightarrow> False)"

definition read_exclude :: "jsval \<Rightarrow> string list" where
  "read_exclude v =
     (case v of JArr raw \<Rightarrow> sorted_list_of_set (set (map (the \<circ> normalize_string) raw)) | _ \<Rightarrow> [])"

definition kind_of :: "jsval \<Rightarrow> scope_kind" where
  "kind_of c = (if get_prop c ''directory'' \<noteq> JUndefined then DirectoryScope else FileScope)"

definition path_of :: "jsval \<Rightarrow> string option" where
  "path_of c =
     normalize_string (get_prop c (if kind_of c = DirectoryScope then ''directory'' else ''file''))"

definition named :: "jsval \<Rightarrow> string" where
  "named c = (case get_prop c ''scope'' of JStr name \<Rightarrow> name | _ \<Rightarrow> [])"

definition scope_ok :: "jsval \<Rightarrow> bool" where
  "scope_ok c =
     (is_plain_object c \<and>
      (get_prop c ''directory'' = JUndefined) \<noteq> (get_prop c ''file'' = JUndefined) \<and>
      js_typeof (get_prop c ''scope'') = TString \<and> scope_name_pattern (named c) \<and>
      (case path_of c of None \<Rightarrow> False | Some p \<Rightarrow> \<not> has_git_segment p) \<and>
      exclude_ok (kind_of c) (get_prop c ''exclude''))"

definition read_scope :: "jsval \<Rightarrow> scope" where
  "read_scope c =
     \<lparr>sc_name = named c, sc_kind = kind_of c, sc_path = the (path_of c),
      sc_exclude = read_exclude (get_prop c ''exclude'')\<rparr>"

definition captures :: "jsval \<Rightarrow> jsval list" where
  "captures v = (case get_prop v ''capture'' of JArr cs \<Rightarrow> cs | _ \<Rightarrow> [])"

definition conforming_plan :: "jsval \<Rightarrow> bool" where
  "conforming_plan v =
     (is_plain_object v \<and> describe_shape (get_prop v ''capture'') = ShapeArray \<and>
      length (captures v) \<le> 64 \<and> list_all scope_ok (captures v) \<and>
      distinct (map named (captures v)) \<and>
      sorted_wrt (\<lambda>a b. \<not> overlap a b) (map read_scope (captures v)))"

lemma js_typeof_string: "(js_typeof v = TString) = (\<exists>s. v = JStr s)"
  by (cases v) auto

lemma shape_array: "(describe_shape v = ShapeArray) = (\<exists>vs. v = JArr vs)"
  by (cases v) auto

lemma bind_Inr: "((case x of Inl e \<Rightarrow> Inl e | Inr y \<Rightarrow> f y) = Inr r) = (\<exists>y. x = Inr y \<and> f y = Inr r)"
  by (cases x) auto

lemma normalize_exclusions_iff:
  "normalize_exclusions index i unique vs = Inr r \<longleftrightarrow>
     list_all exclusion_ok vs \<and>
     r = foldl (\<lambda>u v. List.insert (the (normalize_string v)) u) unique vs"
  by (induction index i unique vs arbitrary: r rule: normalize_exclusions.induct)
     (auto simp: exclusion_ok_def refuse_value_def split: option.splits)

lemma fold_insert_set:
  "distinct u \<Longrightarrow>
   distinct (foldl (\<lambda>u v. List.insert (f v) u) u vs) \<and>
   set (foldl (\<lambda>u v. List.insert (f v) u) u vs) = set u \<union> f ` set vs"
  by (induction vs arbitrary: u) auto

lemma normalize_exclude_iff:
  "normalize_exclude index kind v = Inr r \<longleftrightarrow> exclude_ok kind v \<and> r = read_exclude v"
proof (cases v)
  case (JArr raw)
  let ?u = "foldl (\<lambda>u v. List.insert (the (normalize_string v)) u) [] raw"
  have "sort ?u = sorted_list_of_set ((the \<circ> normalize_string) ` set raw)"
    using fold_insert_set [of "[]" "the \<circ> normalize_string" raw] sorted_list_of_set_sort_remdups [of ?u]
    by (simp add: distinct_remdups_id comp_def)
  with JArr show ?thesis
    by (cases kind) (auto simp: normalize_exclude_def exclude_ok_def read_exclude_def
        checkpoint_max_exclusions_def normalize_exclusions_iff bind_Inr)
qed (auto simp: normalize_exclude_def exclude_ok_def read_exclude_def)

lemma normalize_scope_iff:
  "normalize_scope index seen c = Inr s \<longleftrightarrow>
     scope_ok c \<and> named c \<notin> set seen \<and> s = read_scope c"
proof (cases "get_prop c ''scope''")
  case (JStr name)
  then show ?thesis
    by (auto simp: normalize_scope_def scope_ok_def named_def read_scope_def path_of_def kind_of_def
        refuse_value_def normalize_exclude_iff bind_Inr Let_def split: option.splits)
qed (auto simp: normalize_scope_def scope_ok_def Let_def)

lemma normalize_scopes_iff:
  "normalize_scopes index seen cs = Inr ss \<longleftrightarrow>
     list_all scope_ok cs \<and> distinct (map named cs) \<and> set (map named cs) \<inter> set seen = {} \<and>
     ss = map read_scope cs"
proof (induction cs arbitrary: index seen ss)
  case Nil
  then show ?case by auto
next
  case (Cons c cs)
  have "sc_name (read_scope c) = named c" by (simp add: read_scope_def)
  then show ?case
    using Cons.IH [of "Suc index" "named c # seen"]
    by (auto simp: normalize_scope_iff bind_Inr)
qed

lemma first_overlap_None: "(first_overlap ss = None) = sorted_wrt (\<lambda>a b. \<not> overlap a b) ss"
  by (induction ss) (auto split: option.splits simp: find_None_iff find_Some_iff)

lemma conforming_capture:
  "get_prop v ''capture'' = JArr cs \<Longrightarrow>
   conforming_plan v =
     (is_plain_object v \<and> length cs \<le> 64 \<and> list_all scope_ok cs \<and> distinct (map named cs) \<and>
      sorted_wrt (\<lambda>a b. \<not> overlap a b) (map read_scope cs))"
  by (simp add: conforming_plan_def captures_def)

lemma normalize_plan_iff:
  "normalize_checkpoint_plan v = Inr ss \<longleftrightarrow> conforming_plan v \<and> ss = map read_scope (captures v)"
proof (cases "get_prop v ''capture''")
  case (JArr cs)
  then have cs: "captures v = cs" by (simp add: captures_def)
  have "(case normalize_scopes 0 [] cs of Inl e \<Rightarrow> Inl e
         | Inr scopes \<Rightarrow> (case first_overlap scopes of Some (a, b) \<Rightarrow> Inl (ScopesOverlap a b) | None \<Rightarrow> Inr scopes)) = Inr ss \<longleftrightarrow>
      list_all scope_ok cs \<and> distinct (map named cs) \<and>
      sorted_wrt (\<lambda>a b. \<not> overlap a b) (map read_scope cs) \<and> ss = map read_scope cs"
    unfolding bind_Inr normalize_scopes_iff
    by (auto simp: first_overlap_None [symmetric] split: option.splits)
  with JArr cs show ?thesis
    by (auto simp: normalize_checkpoint_plan_def conforming_capture [OF JArr] checkpoint_max_scopes_def)
qed (auto simp: normalize_checkpoint_plan_def conforming_plan_def)

end
