(* ===== verification/Registry.thy ===== *)
theory Registry
  imports Checkpoint_Plan "HOL-Library.Sorting_Algorithms"
begin

text \<open>
  Where workflows come from: the ordered sources of \<^verbatim>\<open>structure/registry.ts\<close>, and
  \<^verbatim>\<open>structure/discovery.ts\<close>, which lets a later source's package of a name win over the earlier
  ones. \<open>readdir\<close> is what the file system lists; the order of \<open>localeCompare\<close>, which depends on
  the locale, is a comparator. Paths are those of \<open>posix\<close>.
\<close>

section \<open>Sources\<close>

datatype source_kind = CoreSource | AdditionalSource nat | ProjectSource "nat option" string

record source =
  so_kind :: source_kind
  so_root :: string
  so_explicit :: bool

text \<open>The loop of \<open>dedupeWorkflowSources\<close>, from the last source to the first.\<close>

fun dedupe_loop :: "string list \<Rightarrow> string list \<Rightarrow> source list \<Rightarrow> source list" where
  "dedupe_loop explicit seen [] = []"
| "dedupe_loop explicit seen (s # rest) =
     (if so_root s \<in> set seen then dedupe_loop explicit seen rest
      else s\<lparr>so_explicit := so_root s \<in> set explicit\<rparr>
             # dedupe_loop explicit (so_root s # seen) rest)"

definition dedupe_workflow_sources :: "source list \<Rightarrow> source list" where
  "dedupe_workflow_sources sources =
     rev (dedupe_loop (map so_root (filter so_explicit sources)) [] (rev sources))"

text \<open>\<open>join\<close> of \<open>node:path\<close>.\<close>

definition path_join :: "string list \<Rightarrow> string" where
  "path_join parts = posix_normalize (join_segments (filter (\<lambda>p. p \<noteq> []) parts))"

record registry_context =
  rc_project_id :: "nat option"
  rc_project_root :: "string option"

definition project_workflows_path :: "registry_context \<Rightarrow> string option" where
  "project_workflows_path context =
     (case rc_project_root context of
        None \<Rightarrow> None
      | Some root \<Rightarrow> if root = [] then None else Some (path_join [root, ''.isagi'', ''workflows'']))"

text \<open>The sources in their order of precedence, the strongest last.\<close>

definition configured_sources :: "string \<Rightarrow> string list \<Rightarrow> registry_context \<Rightarrow> source list" where
  "configured_sources workflows_path additional context =
     \<lparr>so_kind = CoreSource, so_root = posix_normalize workflows_path, so_explicit = False\<rparr>
     # map (\<lambda>(i, root). \<lparr>so_kind = AdditionalSource i, so_root = posix_normalize root,
                           so_explicit = True\<rparr>) (enumerate 0 additional)
     @ (case project_workflows_path context of
          None \<Rightarrow> []
        | Some root \<Rightarrow>
            [\<lparr>so_kind = ProjectSource (rc_project_id context)
                 (case rc_project_root context of Some r \<Rightarrow> r | None \<Rightarrow> root),
              so_root = posix_normalize root, so_explicit = False\<rparr>])"

definition workflow_discovery_sources :: "string \<Rightarrow> string list \<Rightarrow> registry_context \<Rightarrow> source list" where
  "workflow_discovery_sources workflows_path additional context =
     dedupe_workflow_sources (configured_sources workflows_path additional context)"

section \<open>Scanning\<close>

record candidate =
  cd_key :: string
  cd_package_root :: string
  cd_source :: source

definition scan_names :: "string comparator \<Rightarrow> source \<Rightarrow> string list \<Rightarrow> candidate list" where
  "scan_names cmp s names =
     map (\<lambda>key. \<lparr>cd_key = key, cd_package_root = path_join [so_root s, key], cd_source = s\<rparr>)
       (Sorting_Algorithms.sort cmp
         (filter (\<lambda>name. \<not> starts_with name ''.'' \<and> name \<noteq> ''node_modules'') names))"

datatype directory = Names "string list" | MissingDirectory | UnreadableDirectory

datatype registry_log = DirectoryMissing string | CollisionResolved string string "string list"

text \<open>What one registry remembers, and what it has logged.\<close>

record registry =
  rg_missing_warned :: "string list"
  rg_shadow_logged :: "string list"
  rg_log :: "registry_log list"

datatype registry_error = ScanFailed source

definition scan_source_with_policy ::
    "string comparator \<Rightarrow> (string \<Rightarrow> directory) \<Rightarrow> source \<Rightarrow> registry \<Rightarrow>
     (registry_error + candidate list) \<times> registry" where
  "scan_source_with_policy cmp readdir s g =
     (case readdir (so_root s) of
        Names names \<Rightarrow> (Inr (scan_names cmp s names), g)
      | UnreadableDirectory \<Rightarrow> (Inl (ScanFailed s), g)
      | MissingDirectory \<Rightarrow>
          if \<not> so_explicit s \<or> so_root s \<in> set (rg_missing_warned g) then (Inr [], g)
          else (Inr [], g\<lparr>rg_missing_warned := so_root s # rg_missing_warned g,
                          rg_log := rg_log g @ [DirectoryMissing (so_root s)]\<rparr>))"

fun scan_sources ::
    "string comparator \<Rightarrow> (string \<Rightarrow> directory) \<Rightarrow> source list \<Rightarrow> registry \<Rightarrow>
     (registry_error + candidate list list) \<times> registry" where
  "scan_sources cmp readdir [] g = (Inr [], g)"
| "scan_sources cmp readdir (s # ss) g =
     (case scan_source_with_policy cmp readdir s g of
        (Inl e, g1) \<Rightarrow> (Inl e, g1)
      | (Inr cs, g1) \<Rightarrow>
          (case scan_sources cmp readdir ss g1 of
             (Inl e, g2) \<Rightarrow> (Inl e, g2)
           | (Inr css, g2) \<Rightarrow> (Inr (cs # css), g2)))"

section \<open>Discovery\<close>

record discovered =
  dw_key :: string
  dw_winner :: candidate
  dw_shadowed :: "candidate list"

definition see_candidate ::
    "candidate \<Rightarrow> (string \<times> discovered) list \<Rightarrow> (string \<times> discovered) list" where
  "see_candidate c m =
     put (cd_key c)
       \<lparr>dw_key = cd_key c, dw_winner = c,
        dw_shadowed = (case map_of m (cd_key c) of
                         None \<Rightarrow> []
                       | Some d \<Rightarrow> dw_shadowed d @ [dw_winner d])\<rparr> m"

definition discover_ordered :: "string comparator \<Rightarrow> candidate list list \<Rightarrow> discovered list" where
  "discover_ordered cmp scanned =
     Sorting_Algorithms.sort (key dw_key cmp) (map snd (fold (fold see_candidate) scanned []))"

definition log_shadows :: "discovered \<Rightarrow> registry \<Rightarrow> registry" where
  "log_shadows d g =
     (if dw_shadowed d = [] then g
      else let shadowed = map cd_package_root (dw_shadowed d);
               k = dw_key d @ '':'' @ cd_package_root (dw_winner d) @ '':''
                     @ concat (map (\<lambda>p. p @ '':'') (butlast shadowed)) @ last shadowed in
        if k \<in> set (rg_shadow_logged g) then g
        else g\<lparr>rg_shadow_logged := k # rg_shadow_logged g,
               rg_log := rg_log g
                 @ [CollisionResolved (dw_key d) (cd_package_root (dw_winner d)) shadowed]\<rparr>)"

definition discover ::
    "string comparator \<Rightarrow> (string \<Rightarrow> directory) \<Rightarrow> string \<Rightarrow> string list \<Rightarrow> registry_context \<Rightarrow> registry \<Rightarrow>
     (registry_error + discovered list) \<times> registry" where
  "discover cmp readdir workflows_path additional context g =
     (case scan_sources cmp readdir (workflow_discovery_sources workflows_path additional context) g of
        (Inl e, g1) \<Rightarrow> (Inl e, g1)
      | (Inr scanned, g1) \<Rightarrow>
          (let ds = discover_ordered cmp scanned in (Inr ds, fold log_shadows ds g1)))"

text \<open>\<open>find\<close> of a snapshot.\<close>

definition find_entry :: "discovered list \<Rightarrow> string \<Rightarrow> discovered option" where
  "find_entry ds workflow_key = map_of (rev (map (\<lambda>d. (dw_key d, d)) ds)) workflow_key"

section \<open>The last source wins\<close>

text \<open>What the packages of one name, in the order of the sources, amount to.\<close>

definition entry_of :: "string \<Rightarrow> candidate list \<Rightarrow> discovered option" where
  "entry_of k cs =
     (if cs = [] then None else Some \<lparr>dw_key = k, dw_winner = last cs, dw_shadowed = butlast cs\<rparr>)"

definition packages :: "string \<Rightarrow> candidate list \<Rightarrow> candidate list" where
  "packages k cs = filter (\<lambda>c. cd_key c = k) cs"

lemma packages_simps [simp]:
  "packages k [] = []" "packages k (cs @ cs') = packages k cs @ packages k cs'"
  "packages k (c # cs) = (if cd_key c = k then c # packages k cs else packages k cs)"
  by (simp_all add: packages_def)

lemma see_candidate_entry:
  assumes "\<And>k. map_of m k = entry_of k (packages k cs)"
  shows "map_of (see_candidate c m) k = entry_of k (packages k (cs @ [c]))"
  using assms by (auto simp: see_candidate_def entry_of_def)

lemma fold_see_candidate_entry:
  "(\<And>k. map_of m k = entry_of k (packages k cs)) \<Longrightarrow>
     map_of (fold see_candidate ds m) k = entry_of k (packages k (cs @ ds))"
proof (induction ds arbitrary: m cs)
  case Nil
  then show ?case by simp
next
  case (Cons d ds)
  from Cons.IH [OF see_candidate_entry [OF Cons.prems]] show ?case by simp
qed

lemma fold_fold_concat: "fold (fold f) xss s = fold f (concat xss) s"
  by (induction xss arbitrary: s) auto

lemma see_candidate_keys: "distinct (keys m) \<Longrightarrow> distinct (keys (see_candidate c m))"
  by (simp add: see_candidate_def distinct_keys_put)

lemma seen_keys: "distinct (keys m) \<Longrightarrow> distinct (keys (fold see_candidate cs m))"
  by (induction cs arbitrary: m) (auto simp: see_candidate_keys)

lemma put_keyed:
  assumes "\<forall>(i, d) \<in> set m. dw_key d = i" and "dw_key e = k"
  shows "\<forall>(i, d) \<in> set (put k e m). dw_key d = i"
  using assms by (induction k e m rule: put.induct) auto

lemma seen_keyed:
  "(\<forall>(i, d) \<in> set m. dw_key d = i) \<Longrightarrow> (\<forall>(i, d) \<in> set (fold see_candidate cs m). dw_key d = i)"
proof (induction cs arbitrary: m)
  case (Cons c cs)
  have "\<forall>(i, d) \<in> set (see_candidate c m). dw_key d = i"
    unfolding see_candidate_def by (rule put_keyed [OF Cons.prems]) simp
  then show ?case using Cons.IH by simp
qed simp

lemma keyed_map: "(\<forall>(i, d) \<in> set m. f d = i) \<Longrightarrow> map f (map snd m) = keys m"
  by (induction m) (auto simp: keys_def)

lemma keyed_pairs: "(\<forall>(i, d) \<in> set m. f d = i) \<Longrightarrow> map (\<lambda>d. (f d, d)) (map snd m) = m"
  by (induction m) auto

lemma permuted_keys_distinct:
  assumes "mset xs = mset ys"
  shows "distinct (map f xs) = distinct (map f ys)"
proof -
  have "mset (map f xs) = mset (map f ys)" using assms by simp
  then show ?thesis by (rule mset_eq_imp_distinct_iff)
qed

lemma map_of_by_key: "distinct (map f xs) \<Longrightarrow> d \<in> set xs \<Longrightarrow> map_of (map (\<lambda>d. (f d, d)) xs) (f d) = Some d"
  by (rule map_of_is_SomeI) (auto simp: comp_def)

lemma map_of_permuted:
  assumes "mset xs = mset ys" and "distinct (map f ys)"
  shows "map_of (map (\<lambda>d. (f d, d)) xs) = map_of (map (\<lambda>d. (f d, d)) ys)"
proof (rule map_of_eqI)
  show "set (map fst (map (\<lambda>d. (f d, d)) xs)) = set (map fst (map (\<lambda>d. (f d, d)) ys))"
    using assms(1) by (auto simp: comp_def dest: mset_eq_setD)
next
  have dx: "distinct (map f xs)" using permuted_keys_distinct [OF assms(1)] assms(2) by blast
  show "\<forall>k\<in>set (map fst (map (\<lambda>d. (f d, d)) xs)).
      map_of (map (\<lambda>d. (f d, d)) xs) k = map_of (map (\<lambda>d. (f d, d)) ys) k"
  proof
    fix k assume "k \<in> set (map fst (map (\<lambda>d. (f d, d)) xs))"
    then obtain d where d: "d \<in> set xs" "k = f d" by auto
    then have "d \<in> set ys" using assms(1) by (metis mset_eq_setD)
    then show "map_of (map (\<lambda>d. (f d, d)) xs) k = map_of (map (\<lambda>d. (f d, d)) ys) k"
      using d dx assms(2) by (simp add: map_of_by_key)
  qed
qed

lemma discover_ordered_perm:
  "mset (discover_ordered cmp scanned) = mset (map snd (fold see_candidate (concat scanned) []))"
  by (simp add: discover_ordered_def fold_fold_concat)

lemma discover_ordered_distinct: "distinct (map dw_key (discover_ordered cmp scanned))"
proof -
  let ?m = "fold see_candidate (concat scanned) []"
  have "map dw_key (map snd ?m) = keys ?m" by (rule keyed_map, rule seen_keyed) simp
  then have "distinct (map dw_key (map snd ?m))" using seen_keys [of "[]"] by simp
  then show ?thesis using permuted_keys_distinct [OF discover_ordered_perm] by blast
qed

lemma discover_ordered_sorted: "Sorting_Algorithms.sorted (key dw_key cmp) (discover_ordered cmp scanned)"
  by (simp add: discover_ordered_def)

lemma find_entry_discovered:
  "find_entry (discover_ordered cmp scanned) k = entry_of k (packages k (concat scanned))"
proof -
  let ?m = "fold see_candidate (concat scanned) []" and ?ds = "discover_ordered cmp scanned"
  have keyed: "\<forall>(i, d) \<in> set ?m. dw_key d = i" by (rule seen_keyed) simp
  have dm: "distinct (map dw_key (map snd ?m))"
    using keyed_map [OF keyed] seen_keys [of "[]"] by simp
  have "find_entry ?ds k = map_of (map (\<lambda>d. (dw_key d, d)) (rev ?ds)) k"
    by (simp add: find_entry_def rev_map)
  also have "\<dots> = map_of (map (\<lambda>d. (dw_key d, d)) (map snd ?m)) k"
    using map_of_permuted [of "rev ?ds" "map snd ?m" dw_key] dm discover_ordered_perm [of cmp scanned]
    by simp
  also have "\<dots> = map_of ?m k" using keyed_pairs [OF keyed] by simp
  also have "\<dots> = entry_of k (packages k (concat scanned))"
    using fold_see_candidate_entry [of "[]" "[]"] by (simp add: entry_of_def)
  finally show ?thesis .
qed

text \<open>A root that is configured twice counts where it comes last.\<close>

lemma dedupe_loop_roots:
  "distinct (map so_root (dedupe_loop e seen ss)) \<and>
   set (map so_root (dedupe_loop e seen ss)) = set (map so_root ss) - set seen"
  by (induction e seen ss rule: dedupe_loop.induct) auto

lemma dedupe_loop_find:
  assumes "\<And>s s'. so_root s = so_root s' \<Longrightarrow> Q s = Q s'"
  shows "map_option so_root (find Q (dedupe_loop e seen ss)) =
     map_option so_root (find (\<lambda>s. Q s \<and> so_root s \<notin> set seen) ss)"
proof (induction e seen ss rule: dedupe_loop.induct)
  case (2 e seen s ss)
  have q: "Q (s\<lparr>so_explicit := b\<rparr>) = Q s" for b by (rule assms) simp
  have skip: "find (\<lambda>t. Q t \<and> so_root t \<noteq> so_root s \<and> so_root t \<notin> set seen) ss =
      find (\<lambda>t. Q t \<and> so_root t \<notin> set seen) ss" if "\<not> Q s"
    using that by (intro find_cong refl) (auto dest: assms)
  show ?case using 2 skip by (auto simp: q)
qed simp

lemma sources_distinct: "distinct (map so_root (workflow_discovery_sources p a c))"
  unfolding workflow_discovery_sources_def dedupe_workflow_sources_def rev_map [symmetric] distinct_rev
  using dedupe_loop_roots by blast

lemma sources_find:
  assumes "\<And>s s'. so_root s = so_root s' \<Longrightarrow> Q s = Q s'"
  shows "map_option so_root (find Q (rev (workflow_discovery_sources p a c))) =
     map_option so_root (find Q (rev (configured_sources p a c)))"
  using dedupe_loop_find [OF assms, where seen = "[]"]
  by (simp add: workflow_discovery_sources_def dedupe_workflow_sources_def)

section \<open>What a scan finds\<close>

definition listing :: "string comparator \<Rightarrow> (string \<Rightarrow> directory) \<Rightarrow> source \<Rightarrow> candidate list" where
  "listing cmp readdir s =
     (case readdir (so_root s) of Names names \<Rightarrow> scan_names cmp s names | _ \<Rightarrow> [])"

definition lists_package :: "(string \<Rightarrow> directory) \<Rightarrow> string \<Rightarrow> source \<Rightarrow> bool" where
  "lists_package readdir k s =
     (case readdir (so_root s) of
        Names names \<Rightarrow> k \<in> set names \<and> \<not> starts_with k ''.'' \<and> k \<noteq> ''node_modules''
      | _ \<Rightarrow> False)"

definition unreadable :: "(string \<Rightarrow> directory) \<Rightarrow> source \<Rightarrow> bool" where
  "unreadable readdir s = (readdir (so_root s) = UnreadableDirectory)"

lemma scan_sources_result:
  "fst (scan_sources cmp readdir ss g) =
     (case find (unreadable readdir) ss of
        Some s \<Rightarrow> Inl (ScanFailed s)
      | None \<Rightarrow> Inr (map (listing cmp readdir) ss))"
  by (induction ss arbitrary: g)
     (auto simp: scan_source_with_policy_def unreadable_def listing_def split_beta
        split: directory.split sum.splits option.splits)

lemma packages_of_names:
  "c \<in> set (packages k (scan_names cmp s names)) \<Longrightarrow> cd_package_root c = path_join [so_root s, k]"
  by (auto simp: packages_def scan_names_def)

lemma packages_nonempty:
  "packages k (listing cmp readdir s) \<noteq> [] \<longleftrightarrow> lists_package readdir k s"
  by (auto simp: packages_def listing_def lists_package_def scan_names_def filter_empty_conv
      split: directory.split)

lemma packages_of_listing:
  "c \<in> set (packages k (listing cmp readdir s)) \<Longrightarrow> cd_package_root c = path_join [so_root s, k]"
  by (auto simp: listing_def dest: packages_of_names split: directory.splits)

lemma last_package:
  "map_option (\<lambda>d. cd_package_root (dw_winner d))
     (entry_of k (packages k (concat (map (listing cmp readdir) ss)))) =
   map_option (\<lambda>s. path_join [so_root s, k]) (find (lists_package readdir k) (rev ss))"
proof (induction ss rule: rev_induct)
  case Nil
  then show ?case by (simp add: entry_of_def)
next
  case (snoc s ss)
  show ?case
  proof (cases "lists_package readdir k s")
    case True
    then have "packages k (listing cmp readdir s) \<noteq> []" using packages_nonempty by blast
    then show ?thesis using True packages_of_listing [OF last_in_set]
      by (simp add: entry_of_def)
  next
    case False
    then have "packages k (listing cmp readdir s) = []" using packages_nonempty by blast
    then show ?thesis using False snoc.IH by simp
  qed
qed

text \<open>
  C21: what a snapshot offers under a name is the package of the strongest source that lists one:
  the project's before the configured directories, a later directory before an earlier one, all of
  them before the core. Every package of that name is accounted for, the winner last and the
  shadowed ones in order; the names are distinct and sorted. Discovery fails exactly when a
  directory is there and cannot be read.
\<close>

theorem strongest_source_wins:
  "case fst (discover cmp readdir path additional context g) of
     Inl (ScanFailed s) \<Rightarrow>
       find (unreadable readdir) (workflow_discovery_sources path additional context) = Some s
   | Inr ds \<Rightarrow>
       find (unreadable readdir) (workflow_discovery_sources path additional context) = None \<and>
       distinct (map dw_key ds) \<and> Sorting_Algorithms.sorted (key dw_key cmp) ds \<and>
       (\<forall>k. find_entry ds k =
          entry_of k (packages k (concat (map (listing cmp readdir)
            (workflow_discovery_sources path additional context))))) \<and>
       (\<forall>k. map_option (\<lambda>d. cd_package_root (dw_winner d)) (find_entry ds k) =
          map_option (\<lambda>s. path_join [so_root s, k])
            (find (lists_package readdir k) (rev (configured_sources path additional context))))"
proof -
  let ?ss = "workflow_discovery_sources path additional context"
  have root: "map_option (\<lambda>s. path_join [so_root s, k]) x =
      map_option (\<lambda>r. path_join [r, k]) (map_option so_root x)" for k x
    by (cases x) auto
  have found: "map_option (\<lambda>s. path_join [so_root s, k]) (find (lists_package readdir k) (rev ?ss)) =
      map_option (\<lambda>s. path_join [so_root s, k])
        (find (lists_package readdir k) (rev (configured_sources path additional context)))" for k
    unfolding root by (subst sources_find) (auto simp: lists_package_def)
  show ?thesis
    using scan_sources_result [of cmp readdir ?ss g] found
    by (auto simp: discover_def Let_def split_beta find_entry_discovered last_package
        discover_ordered_distinct discover_ordered_sorted split: sum.split option.splits)
qed

end
