(* ===== verification/Launch.thy ===== *)
theory Launch
  imports Placement Registry
begin

text \<open>
  Starting a run, \<^verbatim>\<open>engine/launch.ts\<close>: where it was launched from, the latest build
  (\<^verbatim>\<open>engine/builds.ts\<close>), the author's \<open>command\<close> and \<open>parse\<close>, the placement, and the transaction
  that creates the run. \<open>w k\<close> is what the other domains answer at the \<open>k\<close>-th read, so rows may
  change or go between two reads; \<open>meanwhile\<close> are the commits of others before the launch's own.
\<close>

section \<open>The origin\<close>

text \<open>\<open>WorkflowLaunchOrigin\<close>, as the request names it.\<close>

record launch_origin =
  lo_worktree_id :: nat
  lo_surface_id :: "nat option"
  lo_pane_id :: "nat option"
  lo_agent_session_id :: "nat option"

definition agent_on_pane :: "pane \<Rightarrow> nat option" where
  "agent_on_pane p = (case pn_session p of Some (AgentOnPane i) \<Rightarrow> Some i | _ \<Rightarrow> None)"

definition launch_context_mismatch :: "nat \<Rightarrow> nat option \<Rightarrow> nat option \<Rightarrow> nat option \<Rightarrow> engine_error" where
  "launch_context_mismatch worktree_id surface_id pane_id agent_session_id =
     (engine_error Launch_Context_Mismatch)
       \<lparr>ee_worktree_id := Some worktree_id, ee_surface_id := surface_id, ee_pane_id := pane_id,
        ee_agent_session_id := agent_session_id\<rparr>"

text \<open>The part of \<open>buildOrigin\<close> that looks for the pane and the agent session on the surface.\<close>

definition origin_on_surface ::
    "worktree \<Rightarrow> surface_detail \<Rightarrow> launch_origin \<Rightarrow> 'e stop + origin" where
  "origin_on_surface wt sf o' =
     (let og = (\<lambda>pane session. \<lparr>og_worktree_id = wt_id wt, og_worktree_path = wt_path wt,
                  og_surface_id = Some (sf_id sf), og_pane_id = pane,
                  og_agent_session_id = session\<rparr>) in
      case lo_agent_session_id o' of
        Some session \<Rightarrow>
          (case find (\<lambda>p. agent_on_pane p = Some session) (sf_panes sf) of
             None \<Rightarrow>
               Inl (Refused ((engine_error Agent_Session_Not_On_Surface)
                 \<lparr>ee_worktree_id := Some (wt_id wt), ee_surface_id := Some (sf_id sf),
                  ee_agent_session_id := Some session\<rparr>))
           | Some agent_pane \<Rightarrow>
               if lo_pane_id o' \<noteq> None \<and> lo_pane_id o' \<noteq> Some (pn_id agent_pane)
               then Inl (Refused (launch_context_mismatch (wt_id wt) (Some (sf_id sf)) (lo_pane_id o')
                           (Some session)))
               else Inr (og (Some (pn_id agent_pane)) (Some session)))
      | None \<Rightarrow>
          (case lo_pane_id o' of
             None \<Rightarrow> Inr (og None None)
           | Some i \<Rightarrow>
               (case find (\<lambda>p. pn_id p = i) (sf_panes sf) of
                  None \<Rightarrow>
                    Inl (Refused ((engine_error Pane_Not_Found)
                      \<lparr>ee_worktree_id := Some (wt_id wt), ee_surface_id := Some (sf_id sf),
                       ee_pane_id := Some i\<rparr>))
                | Some p \<Rightarrow> Inr (og (Some i) (agent_on_pane p)))))"

definition build_origin :: "(nat \<Rightarrow> 'e places) \<Rightarrow> launch_origin \<Rightarrow> 'e stop + origin" where
  "build_origin w o' =
     reading (find_worktree (w 0) (lo_worktree_id o')) (\<lambda>found.
       case found of
         None \<Rightarrow>
           Inl (Refused ((engine_error Worktree_Not_Found)
             \<lparr>ee_worktree_id := Some (lo_worktree_id o')\<rparr>))
       | Some wt \<Rightarrow>
           (case lo_surface_id o' of
              None \<Rightarrow>
                if lo_pane_id o' \<noteq> None \<or> lo_agent_session_id o' \<noteq> None
                then Inl (Refused (launch_context_mismatch (wt_id wt) None (lo_pane_id o')
                            (lo_agent_session_id o')))
                else Inr \<lparr>og_worktree_id = wt_id wt, og_worktree_path = wt_path wt,
                          og_surface_id = None, og_pane_id = None, og_agent_session_id = None\<rparr>
            | Some surface \<Rightarrow>
                (case get_surface_detail (w 1) surface of
                   Inl message \<Rightarrow>
                     Inl (Refused ((engine_error Surface_Not_Found)
                       \<lparr>ee_worktree_id := Some (lo_worktree_id o'), ee_surface_id := Some surface,
                        ee_cause := Some (Text message)\<rparr>))
                 | Inr sf \<Rightarrow>
                     if sf_worktree_id sf \<noteq> wt_id wt
                     then Inl (Refused ((engine_error Surface_Worktree_Mismatch)
                       \<lparr>ee_worktree_id := Some (wt_id wt), ee_surface_id := Some (sf_id sf)\<rparr>))
                     else origin_on_surface wt sf o')))"

definition require_project :: "(nat \<Rightarrow> 'e places) \<Rightarrow> nat \<Rightarrow> 'e stop + project" where
  "require_project w worktree_id =
     reading (find_worktree (w 2) worktree_id) (\<lambda>wt.
     reading (case wt of None \<Rightarrow> Inr None | Some r \<Rightarrow> find_project (w 3) (wt_project_id r)) (\<lambda>found.
     case found of
       None \<Rightarrow>
         Inl (Refused ((engine_error Worktree_Not_Found)\<lparr>ee_worktree_id := Some worktree_id\<rparr>))
     | Some project \<Rightarrow> Inr project))"

section \<open>The build\<close>

record manifest =
  mf_title :: string
  mf_description :: "string option"
  mf_inputs :: "json option"
  mf_hidden :: "bool option"

text \<open>
  The author's functions as they settle once awaited. A launch reads the manifest by its SDK type;
  what \<open>parse\<close> returns may be anything.
\<close>

record 'e workflow_definition =
  df_command :: "origin \<Rightarrow> thrown + manifest"
  df_parse :: "origin \<Rightarrow> json \<Rightarrow> answer"
  df_placement :: "('e placement_context \<Rightarrow> json \<Rightarrow> answer) option"

record 'e build =
  pb_artifact_hash :: string
  pb_sdk_version :: string
  pb_verifier_version :: string
  pb_contract_version :: nat
  pb_descriptor :: json
  pb_definition :: "'e workflow_definition"

record load_failure =
  lf_reason :: string
  lf_message :: string

text \<open>
  The registry's configuration, and the loader, which verifies and publishes the package found
  under a name.
\<close>

record 'e launch_env =
  le_compare :: "string comparator"
  le_readdir :: "string \<Rightarrow> directory"
  le_workflows_path :: string
  le_additional :: "string list"
  le_load :: "string \<Rightarrow> string \<Rightarrow> load_failure + 'e build"

definition project_context :: "'e places \<Rightarrow> nat \<Rightarrow> 'e stop + registry_context" where
  "project_context w project_id =
     reading (find_project w project_id) (\<lambda>project.
       Inr \<lparr>rc_project_id = Some project_id, rc_project_root = map_option pj_root_path project\<rparr>)"

definition discover_for ::
    "'e launch_env \<Rightarrow> registry \<Rightarrow> registry_context \<Rightarrow> registry_error + discovered list" where
  "discover_for env g context =
     fst (discover (le_compare env) (le_readdir env) (le_workflows_path env) (le_additional env) context g)"

definition discovery_failed :: "registry_error \<Rightarrow> engine_error" where
  "discovery_failed e =
     (case e of ScanFailed s \<Rightarrow>
        (engine_error Workflow_Discovery_Failed)\<lparr>ee_source_directory := Some (so_root s)\<rparr>)"

definition resolve_latest_build ::
    "'e launch_env \<Rightarrow> registry \<Rightarrow> string \<Rightarrow> registry_context \<Rightarrow> 'e stop + 'e build" where
  "resolve_latest_build env g workflow_key context =
     (case discover_for env g context of
        Inl e \<Rightarrow> Inl (Refused ((discovery_failed e)\<lparr>ee_workflow_key := Some workflow_key\<rparr>))
      | Inr ds \<Rightarrow>
          (case find_entry ds workflow_key of
             None \<Rightarrow> Inl (Refused (rejection Unknown_Workflow_Key workflow_key))
           | Some entry \<Rightarrow>
               (case le_load env workflow_key (cd_package_root (dw_winner entry)) of
                  Inl failure \<Rightarrow>
                    Inl (Refused ((rejection Workflow_Load_Failed workflow_key)
                      \<lparr>ee_cause := Some (Text (lf_message failure)),
                       ee_load_failure_reason := Some (lf_reason failure),
                       ee_package_directories := Some (cd_package_root (dw_winner entry),
                         map cd_package_root (dw_shadowed entry))\<rparr>))
                | Inr b \<Rightarrow> Inr b)))"

text \<open>The row \<open>resolveLatestBuild\<close> commits for the build.\<close>

definition artifact_of_build :: "instant \<Rightarrow> string \<Rightarrow> 'e build \<Rightarrow> artifact_row" where
  "artifact_of_build at workflow_key b =
     \<lparr>a_hash = pb_artifact_hash b, a_workflow_key = workflow_key, a_sdk_version = pb_sdk_version b,
      a_verifier_version = pb_verifier_version b, a_contract_version = pb_contract_version b,
      a_structure = pb_descriptor b, a_first_seen_at = at\<rparr>"

section \<open>The launch\<close>

record launch_input =
  li_workflow_key :: string
  li_inputs :: json
  li_origin :: launch_origin
  li_placement :: "jsval option"

definition storable_parameters :: "jsval \<Rightarrow> string \<Rightarrow> 'e stop + json" where
  "storable_parameters v workflow_key =
     (let parameters = (if v = JUndefined then JNull else v) in
      case check_serializable parameters ''parameters'' of
        Some u \<Rightarrow> Inl (Refused (rejection Workflow_Parameters_Invalid workflow_key))
      | None \<Rightarrow> Inr (json_or_null parameters))"

definition launch_build ::
    "(nat \<Rightarrow> 'e places) \<Rightarrow> 'e launch_env \<Rightarrow> registry \<Rightarrow> launch_input \<Rightarrow>
     'e stop + origin \<times> project \<times> 'e build" where
  "launch_build w env g input =
     proceed (build_origin w (li_origin input)) (\<lambda>og.
     proceed (require_project w (og_worktree_id og)) (\<lambda>project.
     proceed (project_context (w 4) (pj_id project)) (\<lambda>context.
     proceed (resolve_latest_build env g (li_workflow_key input) context) (\<lambda>b.
     Inr (og, project, b)))))"

text \<open>From the resolved placement to the row the launch inserts.\<close>

definition launch_request_of ::
    "launch_input \<Rightarrow> origin \<Rightarrow> project \<Rightarrow> 'e build \<Rightarrow> string \<Rightarrow> json \<Rightarrow> resolved_placement \<Rightarrow> launch_request"
where
  "launch_request_of input og project b title parameters rs =
     \<lparr>lr_project = pj_id project, lr_workflow_key = li_workflow_key input, lr_title = title,
      lr_artifact_hash = pb_artifact_hash b, lr_inputs = li_inputs input, lr_parameters = parameters,
      lr_placement =
        \<lparr>rp_source = rs_source rs, rp_worktree = fst (rs_request rs), rp_surface = snd (rs_request rs),
         rp_base_commit = (case rs_worktree rs of
           ReuseWorktree i p \<Rightarrow> None | NewWorktree branch from_ref commit \<Rightarrow> Some commit)\<rparr>,
      lr_origin_worktree_id = og_worktree_id og, lr_origin_worktree_path = og_worktree_path og,
      lr_origin_surface_id = og_surface_id og, lr_origin_pane_id = og_pane_id og,
      lr_origin_agent_session_id = og_agent_session_id og,
      lr_reused_worktree = (case rs_worktree rs of
        ReuseWorktree i p \<Rightarrow> Some (i, p) | NewWorktree branch from_ref commit \<Rightarrow> None),
      lr_reused_surface = (case rs_surface rs of ReuseSurface i \<Rightarrow> Some i | NewSurface t \<Rightarrow> None)\<rparr>"

definition plan_launch ::
    "(nat \<Rightarrow> 'e places) \<Rightarrow> launch_input \<Rightarrow> origin \<Rightarrow> project \<Rightarrow> 'e build \<Rightarrow> 'e stop + launch_request" where
  "plan_launch w input og project b =
     (let key = li_workflow_key input; d = pb_definition b in
      case df_command d og of
        Inl t \<Rightarrow>
          Inl (Refused ((rejection Workflow_Command_Failed key)
            \<lparr>ee_worktree_id := Some (og_worktree_id og), ee_surface_id := og_surface_id og,
             ee_cause := Some (error_message t)\<rparr>))
      | Inr m \<Rightarrow>
          (case df_parse d og (li_inputs input) of
             Throw t \<Rightarrow>
               Inl (Refused ((rejection Workflow_Parse_Rejected key)
                 \<lparr>ee_cause := Some (error_message t)\<rparr>))
           | Ret parsed \<Rightarrow>
               proceed (storable_parameters parsed key) (\<lambda>parameters.
               proceed (select_placement key og project parameters (li_placement input) (mf_title m)
                 (df_placement d)) (\<lambda>selection.
               proceed (resolve_placement (w 5) (w 6) key og project selection) (\<lambda>rs.
               Inr (launch_request_of input og project b (mf_title m) parameters rs))))))"

text \<open>The launch's transaction and its answer.\<close>

definition finish_launch ::
    "instant \<Rightarrow> nat set \<Rightarrow> launch_request \<Rightarrow> db \<Rightarrow> ('e stop + nat) \<times> db" where
  "finish_launch at projects l db =
     (case commit_launch at projects l db of
        (ProjectGone, db') \<Rightarrow>
          (Inl (Refused ((rejection Worktree_Not_Found (lr_workflow_key l))
             \<lparr>ee_worktree_id := Some (lr_origin_worktree_id l)\<rparr>)), db')
      | (SurfaceBusy occupant, db') \<Rightarrow>
          (Inl (Refused ((rejection Workflow_Surface_Busy (lr_workflow_key l))
             \<lparr>ee_surface_id := lr_reused_surface l, ee_active_run := Some occupant\<rparr>)), db')
      | (Launched run, db') \<Rightarrow> (Inr (r_id run), db'))"

definition launch ::
    "(nat \<Rightarrow> 'e places) \<Rightarrow> 'e launch_env \<Rightarrow> registry \<Rightarrow> instant \<Rightarrow> instant \<Rightarrow> nat set \<Rightarrow> (db \<Rightarrow> db) \<Rightarrow>
     launch_input \<Rightarrow> db \<Rightarrow> ('e stop + nat) \<times> db" where
  "launch w env g at at' projects meanwhile input db =
     (case launch_build w env g input of
        Inl e \<Rightarrow> (Inl e, db)
      | Inr (og, project, b) \<Rightarrow>
          (let db1 = insert_artifact (artifact_of_build at (li_workflow_key input) b) db in
           case plan_launch w input og project b of
             Inl e \<Rightarrow> (Inl e, db1)
           | Inr l \<Rightarrow> finish_launch at' projects l (meanwhile db1)))"

section \<open>The launch palette's list\<close>

text \<open>\<open>listWorkflowDescriptors\<close>: one that cannot be loaded does not hide the others.\<close>

record descriptor_listing =
  dl_workflow_key :: string
  dl_result :: "string + manifest"

definition describe_entry :: "'e launch_env \<Rightarrow> origin \<Rightarrow> discovered \<Rightarrow> descriptor_listing" where
  "describe_entry env og entry =
     \<lparr>dl_workflow_key = dw_key entry,
      dl_result =
        (case le_load env (dw_key entry) (cd_package_root (dw_winner entry)) of
           Inl failure \<Rightarrow> Inl (lf_reason failure)
         | Inr b \<Rightarrow>
             (case df_command (pb_definition b) og of
                Inl t \<Rightarrow> Inl ''artifact_load_failed''
              | Inr m \<Rightarrow> Inr m))\<rparr>"

definition list_workflow_descriptors ::
    "(nat \<Rightarrow> 'e places) \<Rightarrow> 'e launch_env \<Rightarrow> registry \<Rightarrow> launch_origin \<Rightarrow> 'e stop + descriptor_listing list"
where
  "list_workflow_descriptors w env g o' =
     proceed (build_origin w o') (\<lambda>og.
     proceed (require_project w (og_worktree_id og)) (\<lambda>project.
     proceed (project_context (w 4) (pj_id project)) (\<lambda>context.
     case discover_for env g context of
       Inl e \<Rightarrow> Inl (Refused (engine_error Workflow_Discovery_Failed))
     | Inr ds \<Rightarrow> Inr (map (describe_entry env og) ds))))"

end
