(* ===== verification/Launch_Properties.thy ===== *)
theory Launch_Properties
  imports Launch
begin

text \<open>
  What holds of a run when its launch returns, and of the database when a launch is refused.
\<close>

section \<open>What the other domains promise\<close>

text \<open>
  A row found under a key carries that key, a worktree stays in its project, and a surface on its
  worktree, from one read to the next.
\<close>

definition stable_places :: "(nat \<Rightarrow> 'e places) \<Rightarrow> bool" where
  "stable_places w =
     ((\<forall>k i r. find_worktree (w k) i = Inr (Some r) \<longrightarrow> wt_id r = i) \<and>
      (\<forall>k i p. find_project (w k) i = Inr (Some p) \<longrightarrow> pj_id p = i) \<and>
      (\<forall>j k i r r'. find_worktree (w j) i = Inr (Some r) \<longrightarrow> find_worktree (w k) i = Inr (Some r') \<longrightarrow>
         wt_project_id r' = wt_project_id r))"

definition worktree_seen :: "(nat \<Rightarrow> 'e places) \<Rightarrow> nat \<Rightarrow> string \<Rightarrow> nat \<Rightarrow> bool" where
  "worktree_seen w i path project =
     (\<exists>k r. find_worktree (w k) i = Inr (Some r) \<and> wt_path r = path \<and> wt_project_id r = project)"

definition surface_seen :: "(nat \<Rightarrow> 'e places) \<Rightarrow> nat \<Rightarrow> nat \<Rightarrow> bool" where
  "surface_seen w s worktree =
     ((\<exists>k j d. get_surface_detail (w k) j = Inr d \<and> sf_id d = s \<and> sf_worktree_id d = worktree) \<or>
      (\<exists>k j r. find_surface (w k) j = Inr (Some r) \<and> sf_id r = s \<and> sf_worktree_id r = worktree))"

lemma surface_seen_row:
  "find_surface (w k) j = Inr (Some r) \<Longrightarrow> surface_seen w (sf_id r) (sf_worktree_id r)"
  unfolding surface_seen_def by blast

section \<open>The parts of a launch\<close>

lemma origin_on_surface_places:
  "origin_on_surface wt sf o' = Inr og \<Longrightarrow>
     og_worktree_id og = wt_id wt \<and> og_worktree_path og = wt_path wt \<and> og_surface_id og = Some (sf_id sf)"
  by (auto simp: origin_on_surface_def Let_def split: option.splits if_splits)

lemma build_origin_places:
  fixes w :: "nat \<Rightarrow> 'e places"
  assumes "build_origin w o' = Inr og"
  obtains wt where "find_worktree (w 0) (lo_worktree_id o') = Inr (Some wt)"
    "og_worktree_id og = wt_id wt" "og_worktree_path og = wt_path wt"
    "\<And>s. og_surface_id og = Some s \<Longrightarrow> surface_seen w s (wt_id wt)"
proof -
  obtain wt where wt: "find_worktree (w 0) (lo_worktree_id o') = Inr (Some wt)"
    using assms by (auto simp: build_origin_def split: option.splits)
  show thesis
  proof (cases "lo_surface_id o'")
    case None
    then show thesis using assms wt by (intro that [OF wt]) (auto simp: build_origin_def split: if_splits)
  next
    case (Some s)
    then obtain d where d: "get_surface_detail (w 1) s = Inr d" "sf_worktree_id d = wt_id wt"
      "origin_on_surface wt d o' = (Inr og :: 'e stop + origin)"
      using assms wt by (auto simp: build_origin_def split: sum.splits if_splits)
    then show thesis using origin_on_surface_places [OF d(3)]
      by (intro that [OF wt]) (auto simp: surface_seen_def)
  qed
qed

lemma require_project_places:
  assumes "require_project w i = Inr project"
  obtains wt where "find_worktree (w 2) i = Inr (Some wt)"
    "find_project (w 3) (wt_project_id wt) = Inr (Some project)"
  using assms by (auto simp: require_project_def split: option.splits)

lemma resolved_places:
  assumes res: "resolve_placement w5 w6 k og project (source, request) = Inr rs"
  shows "rs_project_id rs = pj_id project" and "rs_source rs = source" and "rs_request rs = request"
    and "resolve_worktree w5 k og project (fst request) = Inr (rs_worktree rs)"
    and "resolve_surface w6 k og (reused_worktree_id (rs_worktree rs)) (snd request) = Inr (rs_surface rs)"
  using res by (auto simp: resolve_placement_def)

lemma plan_launch_InrE:
  assumes "plan_launch w input og project b = Inr l"
  obtains title parameters selection rs where
    "l = launch_request_of input og project b title parameters rs"
    "resolve_placement (w 5) (w 6) (li_workflow_key input) og project selection = Inr rs"
proof -
  obtain m where m: "df_command (pb_definition b) og = Inr m"
    using assms by (auto simp: plan_launch_def Let_def split: sum.splits)
  obtain parsed where p: "df_parse (pb_definition b) og (li_inputs input) = Ret parsed"
    using assms m by (auto simp: plan_launch_def Let_def split: answer.splits)
  from assms m p have "\<exists>parameters selection rs.
      l = launch_request_of input og project b (mf_title m) parameters rs \<and>
      resolve_placement (w 5) (w 6) (li_workflow_key input) og project selection = Inr rs"
    by (simp add: plan_launch_def Let_def del: split_paired_Ex) blast
  then show thesis using that by blast
qed

text \<open>What a plan that is not refused asks the transaction to insert.\<close>

definition placed :: "(nat \<Rightarrow> 'e places) \<Rightarrow> launch_request \<Rightarrow> bool" where
  "placed w l =
     (case lr_reused_worktree l of
        None \<Rightarrow>
          lr_reused_surface l = None \<and>
          (\<exists>wanted from_ref commit. rp_worktree (lr_placement l) = CreateWorktree wanted from_ref \<and>
             rp_base_commit (lr_placement l) = Some commit \<and>
             preflight_worktree_creation (w 5) (lr_project l) (js_trim wanted) from_ref = Inr commit)
      | Some (i, path) \<Rightarrow>
          worktree_seen w i path (lr_project l) \<and> rp_base_commit (lr_placement l) = None \<and>
          pred_option (\<lambda>s. surface_seen w s i) (lr_reused_surface l))"

lemma plan_is_placed:
  assumes stable: "stable_places w"
    and origin: "build_origin w o' = Inr og"
    and project: "require_project w (og_worktree_id og) = Inr project"
    and plan: "plan_launch w input og project b = Inr l"
  shows "placed w l" and "lr_project l = pj_id project"
    and "lr_reused_surface l = None \<Longrightarrow> \<exists>title. rp_surface (lr_placement l) = CreateSurface title \<and>
      validate_surface_title title \<noteq> None"
proof -
  from plan obtain title parameters selection rs where
    l: "l = launch_request_of input og project b title parameters rs"
    and "resolve_placement (w 5) (w 6) (li_workflow_key input) og project selection = Inr rs"
    by (elim plan_launch_InrE)
  then obtain source request where
    res: "resolve_placement (w 5) (w 6) (li_workflow_key input) og project (source, request) = Inr rs"
    by (cases selection) blast
  note rs = resolved_places [OF res]
  show p: "lr_project l = pj_id project" by (simp add: l launch_request_of_def)
  obtain wt where wt: "find_worktree (w 0) (lo_worktree_id o') = Inr (Some wt)"
    "og_worktree_id og = wt_id wt" "og_worktree_path og = wt_path wt"
    "\<And>s. og_surface_id og = Some s \<Longrightarrow> surface_seen w s (wt_id wt)"
    using origin by (rule build_origin_places) blast
  obtain wt' where wt': "find_worktree (w 2) (og_worktree_id og) = Inr (Some wt')"
    "find_project (w 3) (wt_project_id wt') = Inr (Some project)"
    using project by (rule require_project_places) blast
  have wid: "wt_id wt = lo_worktree_id o'" using stable wt(1) unfolding stable_places_def by blast
  have "wt_project_id wt = wt_project_id wt'"
    using stable wt(1,2) wt'(1) wid unfolding stable_places_def by metis
  then have home: "worktree_seen w (og_worktree_id og) (og_worktree_path og) (pj_id project)"
    using stable wt wid wt'(2) unfolding stable_places_def worktree_seen_def by metis
  show "placed w l"
  proof (cases "rs_worktree rs")
    case (ReuseWorktree i path)
    have "worktree_seen w i path (pj_id project)"
      using resolve_worktree_reuses [OF rs(4) [unfolded ReuseWorktree]] home
      by (auto simp: worktree_seen_def) (metis stable stable_places_def)
    moreover have "surface_seen w s i" if "rs_surface rs = ReuseSurface s" for s
      using resolve_surface_reuses [OF rs(5) [unfolded that]] wt(2,4) ReuseWorktree
      by (auto simp: reused_worktree_id_def dest: surface_seen_row)
    ultimately show ?thesis using ReuseWorktree
      by (auto simp: placed_def l launch_request_of_def split: resolved_surface.split)
  next
    case (NewWorktree branch from_ref commit)
    then show ?thesis
      using resolve_worktree_creates [OF rs(4) [unfolded NewWorktree]] rs(3)
        resolve_surface_reuses [of "w 6" "li_workflow_key input" og None "snd request"] rs(5)
      by (auto simp: placed_def l launch_request_of_def reused_worktree_id_def
          split: resolved_surface.split)
  qed
  show "\<exists>title. rp_surface (lr_placement l) = CreateSurface title \<and> validate_surface_title title \<noteq> None"
    if "lr_reused_surface l = None"
    using that rs(3,5)
    by (auto simp: l launch_request_of_def split: resolved_surface.splits dest!: resolve_surface_creates)
qed

section \<open>The transaction\<close>

lemma finish_launch_Inr:
  assumes "finish_launch at projects l db = (Inr run_id, db')"
  obtains run where "r_id run = run_id" "run = launched_row at l run_id"
    "all_runs db' = all_runs db @ [run]" "lr_project l \<in> projects"
    "pred_option (\<lambda>s. find_run_on_surface db s None = None) (lr_reused_surface l)"
  using assms
  by (auto simp: finish_launch_def commit_launch_def insert_run_def Let_def split_beta launched_row_def
      tab_insert_def all_runs_def append_event_def
      split: launch_result.splits if_splits option.splits bind_splits)

lemma finish_launch_Inl:
  "finish_launch at projects l db = (Inl e, db') \<Longrightarrow> db' = db"
  by (auto simp: finish_launch_def commit_launch_def Let_def split_beta
      split: launch_result.splits if_splits option.splits)


lemma launch_InrE:
  fixes w :: "nat \<Rightarrow> 'e places"
  assumes "launch w env g at at' projects meanwhile input db = (Inr run_id, db')"
  obtains og project b l where
    "build_origin w (li_origin input) = Inr og" "require_project w (og_worktree_id og) = Inr project"
    "plan_launch w input og project b = Inr l"
    "finish_launch at' projects l
       (meanwhile (insert_artifact (artifact_of_build at (li_workflow_key input) b) db)) =
       (Inr run_id :: 'e stop + nat, db')"
  using assms
  by (auto simp: launch_def launch_build_def Let_def split: sum.splits prod.splits)

section \<open>A launch\<close>

text \<open>
  One project with one worktree and one surface, two directories that offer the workflow \<open>go\<close>, and
  a launch from the surface that places the run where it is.
\<close>

definition wit_worktree :: worktree where
  "wit_worktree = \<lparr>wt_id = 3, wt_project_id = 7, wt_path = ''/p/w'', wt_branch = None, wt_head = None\<rparr>"

definition wit_surface :: surface_detail where
  "wit_surface = \<lparr>sf_id = 4, sf_worktree_id = 3, sf_title = ''main'',
     sf_panes = [\<lparr>pn_id = 8, pn_session = Some (AgentOnPane 9)\<rparr>]\<rparr>"

definition wit_places :: "nat \<Rightarrow> unit places" where
  "wit_places = (\<lambda>k.
     \<lparr>find_worktree = (\<lambda>i. Inr (if i = 3 then Some wit_worktree else None)),
      find_project = (\<lambda>i. Inr (if i = 7 then Some \<lparr>pj_id = 7, pj_name = ''p'', pj_kind = GitProject,
                                             pj_root_path = ''/p''\<rparr> else None)),
      list_worktrees = Inr [wit_worktree],
      get_surface_detail = (\<lambda>i. if i = 4 then Inr wit_surface else Inl ''not found''),
      find_surface = (\<lambda>i. Inr None),
      list_surface_metadata = Inr [],
      preflight_worktree_creation = (\<lambda>p b r. Inr ''c0'')\<rparr>)"

definition wit_the_build :: "unit build" where
  "wit_the_build =
     \<lparr>pb_artifact_hash = ''h'', pb_sdk_version = ''1'', pb_verifier_version = ''1'',
      pb_contract_version = 1, pb_descriptor = JsonNull,
      pb_definition = \<lparr>df_command = (\<lambda>og. Inr \<lparr>mf_title = ''Go'', mf_description = None,
          mf_inputs = None, mf_hidden = None\<rparr>),
        df_parse = (\<lambda>og inputs. Ret JUndefined), df_placement = None\<rparr>\<rparr>"

definition wit_env :: "unit launch_env" where
  "wit_env =
     \<lparr>le_compare = key length default,
      le_readdir = (\<lambda>root. if root = ''/core'' then Names [''go''] else MissingDirectory),
      le_workflows_path = ''/core'', le_additional = [],
      le_load = (\<lambda>k root. Inr wit_the_build)\<rparr>"

definition wit_input :: launch_input where
  "wit_input =
     \<lparr>li_workflow_key = ''go'', li_inputs = JsonNull,
      li_origin = \<lparr>lo_worktree_id = 3, lo_surface_id = Some 4, lo_pane_id = Some 8,
                   lo_agent_session_id = None\<rparr>,
      li_placement = None\<rparr>"

definition wit_request :: launch_request where
  "wit_request =
     \<lparr>lr_project = 7, lr_workflow_key = ''go'', lr_title = ''Go'', lr_artifact_hash = ''h'',
      lr_inputs = JsonNull, lr_parameters = JsonNull,
      lr_placement = \<lparr>rp_source = DefaultPlacement, rp_worktree = CurrentWorktree,
        rp_surface = CurrentSurface, rp_base_commit = None\<rparr>,
      lr_origin_worktree_id = 3, lr_origin_worktree_path = ''/p/w'', lr_origin_surface_id = Some 4,
      lr_origin_pane_id = Some 8, lr_origin_agent_session_id = Some 9,
      lr_reused_worktree = Some (3, ''/p/w''), lr_reused_surface = Some 4\<rparr>"

definition wit_registry :: registry where
  "wit_registry = \<lparr>rg_missing_warned = [], rg_shadow_logged = [], rg_log = []\<rparr>"

definition wit_launch :: "instant \<Rightarrow> instant \<Rightarrow> db \<Rightarrow> (unit stop + nat) \<times> db" where
  "wit_launch t t' db = launch wit_places wit_env wit_registry t t' {7} id wit_input db"


lemma wit_sources:
  "workflow_discovery_sources ''/core'' [] \<lparr>rc_project_id = Some 7, rc_project_root = Some ''/p''\<rparr> =
    [\<lparr>so_kind = CoreSource, so_root = ''/core'', so_explicit = False\<rparr>,
     \<lparr>so_kind = ProjectSource (Some 7) ''/p'', so_root = ''/p/.isagi/workflows'', so_explicit = False\<rparr>]"
  by (simp add: workflow_discovery_sources_def configured_sources_def dedupe_workflow_sources_def
      project_workflows_path_def path_join_def posix_normalize_def resolve_segment_def)

lemma wit_found:
  "discover_for wit_env wit_registry \<lparr>rc_project_id = Some 7, rc_project_root = Some ''/p''\<rparr> =
     Inr [\<lparr>dw_key = ''go'',
       dw_winner = \<lparr>cd_key = ''go'', cd_package_root = ''/core/go'',
         cd_source = \<lparr>so_kind = CoreSource, so_root = ''/core'', so_explicit = False\<rparr>\<rparr>,
       dw_shadowed = []\<rparr>]"
  by (simp add: discover_for_def discover_def wit_env_def wit_sources scan_source_with_policy_def
      scan_names_def path_join_def posix_normalize_def resolve_segment_def discover_ordered_def
      see_candidate_def Sorting_Algorithms.sort_def)

lemma wit_build:
  "launch_build wit_places wit_env wit_registry wit_input =
     Inr (\<lparr>og_worktree_id = 3, og_worktree_path = ''/p/w'', og_surface_id = Some 4,
           og_pane_id = Some 8, og_agent_session_id = Some 9\<rparr>,
          \<lparr>pj_id = 7, pj_name = ''p'', pj_kind = GitProject, pj_root_path = ''/p''\<rparr>, wit_the_build)"
  by (simp add: launch_build_def build_origin_def require_project_def project_context_def
      wit_places_def wit_input_def wit_worktree_def wit_surface_def origin_on_surface_def agent_on_pane_def
      reading_def proceed_def resolve_latest_build_def wit_found find_entry_def)
     (simp add: wit_env_def)

lemma wit_planned:
  "plan_launch wit_places wit_input
     \<lparr>og_worktree_id = 3, og_worktree_path = ''/p/w'', og_surface_id = Some 4, og_pane_id = Some 8,
      og_agent_session_id = Some 9\<rparr>
     \<lparr>pj_id = 7, pj_name = ''p'', pj_kind = GitProject, pj_root_path = ''/p''\<rparr> wit_the_build
   = Inr wit_request"
  by (simp add: plan_launch_def wit_the_build_def Let_def wit_input_def storable_parameters_def
       check_serializable_def select_placement_def default_placement_request_def resolve_placement_def
       resolve_worktree_def resolve_surface_def reused_worktree_id_def launch_request_of_def proceed_def
       wit_request_def json_or_null_def)

lemma wit_plan:
  "wit_launch t t' db = finish_launch t' {7} wit_request
     (insert_artifact (artifact_of_build t ''go'' wit_the_build) db)"
  by (simp add: wit_launch_def launch_def wit_build wit_planned Let_def)
     (simp add: wit_input_def)

lemma wit_stable: "stable_places wit_places"
  by (auto simp: stable_places_def wit_places_def wit_worktree_def split: if_splits)

definition wit_now :: instant where
  "wit_now = Instant ''2026-01-01T00:00:00.000Z''"

definition wit_launched :: db where
  "wit_launched = snd (wit_launch wit_now wit_now empty_db)"

lemma wit_request_simps:
  "lr_project wit_request = 7" "lr_reused_surface wit_request = Some 4" "lr_workflow_key wit_request = ''go''"
  by (simp_all add: wit_request_def)

lemma wit_launched_run:
  "wit_launch wit_now wit_now empty_db = (Inr 1, wit_launched)"
  unfolding wit_launched_def
  by (rule prod_eqI)
     (simp_all add: wit_plan finish_launch_def commit_launch_def wit_request_simps find_run_on_surface_def
       insert_artifact_def insert_run_def tab_insert_def all_runs_def empty_db_def tab_empty_def
       launched_row_def get_artifact_def Let_def split_beta)

lemma wit_launched_runs: "all_runs wit_launched = [launched_row wit_now wit_request 1]"
proof -
  let ?db = "insert_artifact (artifact_of_build wit_now ''go'' wit_the_build) empty_db"
  have "all_runs ?db = []"
    by (simp add: insert_artifact_def all_runs_def empty_db_def tab_empty_def get_artifact_def)
  then show ?thesis
    using finish_launch_Inr [OF wit_launched_run [unfolded wit_plan]] by (metis append_Nil)
qed

text \<open>The same launch again finds the surface taken.\<close>

lemma wit_launched_twice:
  "fst (wit_launch wit_now wit_now wit_launched) =
     Inl (Refused ((rejection Workflow_Surface_Busy ''go'')
       \<lparr>ee_surface_id := Some 4, ee_active_run := Some 1\<rparr>))"
proof -
  have "all_runs (insert_artifact a wit_launched) = [launched_row wit_now wit_request 1]" for a
    using wit_launched_runs by (simp add: insert_artifact_def all_runs_def)
  then show ?thesis
    by (simp add: wit_plan finish_launch_def commit_launch_def wit_request_simps find_run_on_surface_def
        launched_row_def)
qed

section \<open>The properties\<close>

text \<open>
  C19: a launch that returns has created one run, being prepared, in a project that exists, and has
  placed it. A worktree it reuses was seen to be one of that project, under the path recorded with
  it; a surface it reuses was seen on that very worktree, and no other run has it; a worktree still
  to be created comes with the commit its ref pointed at and never with a surface; and a surface
  still to be created has a title the surfaces accept.
\<close>

theorem launched_run_is_placed:
  fixes w :: "nat \<Rightarrow> 'e places"
  assumes "launch w env g at at' projects meanwhile input db = (Inr run_id, db')"
    and "stable_places w"
  shows "\<exists>run others.
     all_runs db' = others @ [run] \<and> r_id run = run_id \<and> r_status run = Preparing \<and>
     r_workflow_key run = li_workflow_key input \<and> r_project_id run \<in> projects \<and>
     (case r_worktree_id run of
        None \<Rightarrow>
          r_worktree_path run = None \<and> r_surface_id run = None \<and>
          (\<exists>wanted from_ref commit. rp_worktree (r_placement run) = CreateWorktree wanted from_ref \<and>
             rp_base_commit (r_placement run) = Some commit \<and>
             preflight_worktree_creation (w 5) (r_project_id run) (js_trim wanted) from_ref = Inr commit)
      | Some i \<Rightarrow>
          (\<exists>path. r_worktree_path run = Some path \<and> worktree_seen w i path (r_project_id run)) \<and>
          rp_base_commit (r_placement run) = None) \<and>
     (case r_surface_id run of
        None \<Rightarrow> (\<exists>title. rp_surface (r_placement run) = CreateSurface title \<and>
                   validate_surface_title title \<noteq> None)
      | Some s \<Rightarrow> (\<exists>i. r_worktree_id run = Some i \<and> surface_seen w s i) \<and>
          list_all (\<lambda>other. r_surface_id other \<noteq> Some s) others)"
proof -
  obtain og project b l where l: "build_origin w (li_origin input) = Inr og"
    "require_project w (og_worktree_id og) = Inr project" "plan_launch w input og project b = Inr l"
    and f: "finish_launch at' projects l
      (meanwhile (insert_artifact (artifact_of_build at (li_workflow_key input) b) db)) =
      (Inr run_id :: 'e stop + nat, db')"
    using assms(1) by (rule launch_InrE)
  let ?db = "meanwhile (insert_artifact (artifact_of_build at (li_workflow_key input) b) db)"
  note placed = plan_is_placed [OF assms(2) l]
  have key: "lr_workflow_key l = li_workflow_key input"
    using l(3) by (rule plan_launch_InrE) (simp add: launch_request_of_def)
  obtain run where run: "r_id run = run_id" "run = launched_row at' l run_id"
    "all_runs db' = all_runs ?db @ [run]" "lr_project l \<in> projects"
    "pred_option (\<lambda>s. find_run_on_surface ?db s None = None) (lr_reused_surface l)"
    using f by (rule finish_launch_Inr)
  have free: "list_all (\<lambda>other. r_surface_id other \<noteq> Some s) (all_runs ?db)"
    if "lr_reused_surface l = Some s" for s
    using run(5) that by (auto simp: find_run_on_surface_def find_None_iff list_all_iff)
  show ?thesis
    using run(1,3,4) placed free key
    by (intro exI [of _ run] exI [of _ "all_runs ?db"])
       (auto simp: run(2) launched_row_def placed_def split: option.splits)
qed

theorem launched_run_is_placed_witness:
  "\<exists>run others. all_runs wit_launched = others @ [run] \<and> r_id run = 1 \<and>
     r_status run = Preparing \<and> r_project_id run \<in> {7}"
  using launched_run_is_placed [OF wit_launched_run [unfolded wit_launch_def] wit_stable] by blast

text \<open>
  C20: a refused or broken launch creates no run and tells nobody anything: the database is as it
  was, but for the record of the build it had resolved and what others committed meanwhile.
\<close>

theorem refused_launch_creates_nothing:
  fixes w :: "nat \<Rightarrow> 'e places"
  assumes "launch w env g at at' projects meanwhile input db = (Inl stop, db')"
  shows "db' = db \<or>
    (\<exists>b. db' \<in> {insert_artifact (artifact_of_build at (li_workflow_key input) (b :: 'e build)) db,
      meanwhile (insert_artifact (artifact_of_build at (li_workflow_key input) b) db)})"
  using assms
  by (auto simp: launch_def Let_def split: sum.splits prod.splits dest: finish_launch_Inl)

theorem refused_launch_creates_nothing_witness:
  "snd (wit_launch wit_now wit_now wit_launched) = wit_launched \<or>
   (\<exists>b. snd (wit_launch wit_now wit_now wit_launched) \<in>
     {insert_artifact (artifact_of_build wit_now ''go'' (b :: unit build)) wit_launched})"
proof -
  have "launch wit_places wit_env wit_registry wit_now wit_now {7} id wit_input wit_launched =
    (Inl (Refused ((rejection Workflow_Surface_Busy ''go'')
       \<lparr>ee_surface_id := Some 4, ee_active_run := Some 1\<rparr>)),
     snd (wit_launch wit_now wit_now wit_launched))"
    using wit_launched_twice by (simp add: wit_launch_def prod_eq_iff)
  from refused_launch_creates_nothing [OF this] show ?thesis by (simp add: wit_input_def)
qed

end
