(* ===== verification/Structure.thy ===== *)
theory Structure
  imports Js_Heap Descriptors
begin

text \<open>
  The structural inspection of a workflow bundle, \<^verbatim>\<open>describeWorkflowModule\<close> of
  \<^verbatim>\<open>packages/workflow-verifier/src/structure.ts\<close>, over the object graph an imported module
  is. Author objects are references into a heap of \<open>Js_Heap\<close>, so that a graph is compared by identity,
  as the source does, and may contain itself. The collector of diagnostics is the list of those
  added, in the order in which they are added; a diagnostic keeps its code and its location.

  A property is read off the object's own properties: author code that hides one behind a getter or
  inherits it from a class, or that registers a typed array where a record belongs, is not shown.
\<close>

section \<open>Reading author objects\<close>

definition object_at :: "heap \<Rightarrow> hval \<Rightarrow> hobj option" where
  "object_at h v = (case v of HRef a \<Rightarrow> map_of h a | _ \<Rightarrow> None)"

fun is_function_object :: "hobj option \<Rightarrow> bool" where
  "is_function_object (Some HFunction) = True"
| "is_function_object _ = False"

definition is_function :: "heap \<Rightarrow> hval \<Rightarrow> bool" where
  "is_function h v = is_function_object (object_at h v)"

definition is_object :: "heap \<Rightarrow> hval \<Rightarrow> bool" where
  "is_object h v = (case object_at h v of None \<Rightarrow> False | Some ob \<Rightarrow> ob \<noteq> HFunction)"

text \<open>\<open>isObject(v) && !Array.isArray(v)\<close>, giving the own properties when it holds.\<close>

definition registry :: "heap \<Rightarrow> hval \<Rightarrow> (string \<times> hval) list option" where
  "registry h v = (case object_at h v of Some (HObject c ps) \<Rightarrow> Some ps | _ \<Rightarrow> None)"

definition array_at :: "heap \<Rightarrow> hval \<Rightarrow> hval list option" where
  "array_at h v = (case object_at h v of Some (HArray es) \<Rightarrow> Some es | _ \<Rightarrow> None)"

definition own :: "(string \<times> hval) list \<Rightarrow> string \<Rightarrow> hval" where
  "own ps k = (case map_of ps k of None \<Rightarrow> HUndefined | Some v \<Rightarrow> v)"

definition member :: "heap \<Rightarrow> hval \<Rightarrow> string \<Rightarrow> hval" where
  "member h v k = (case registry h v of None \<Rightarrow> HUndefined | Some ps \<Rightarrow> own ps k)"

text \<open>The contract version this release recognizes, and its resource limits.\<close>

definition recognized_version :: int where
  "recognized_version = 5"

definition max_graphs :: nat where "max_graphs = 512"

definition max_nodes :: nat where "max_nodes = 256"

definition max_edges :: nat where "max_edges = 256"

definition max_outcomes :: nat where "max_outcomes = 64"

definition max_depth :: nat where "max_depth = 64"

definition is_branded :: "heap \<Rightarrow> hval \<Rightarrow> string \<Rightarrow> bool" where
  "is_branded h v kind =
     (is_object h v \<and> member h v ''isagiContract'' = HNum (Finite recognized_version) \<and>
      member h v ''isagiKind'' = HStr kind)"

definition contract_version_of :: "heap \<Rightarrow> hval \<Rightarrow> jsnum option" where
  "contract_version_of h v =
     (if \<not> is_object h v then None
      else (case member h v ''isagiContract'' of HNum n \<Rightarrow> Some n | _ \<Rightarrow> None))"

text \<open>\<open>identifierPattern\<close>: \<open>/^[A-Za-z][A-Za-z0-9_-]{0,63}$/\<close>.\<close>

definition letter :: "char \<Rightarrow> bool" where
  "letter c = (CHR ''A'' \<le> c \<and> c \<le> CHR ''Z'' \<or> CHR ''a'' \<le> c \<and> c \<le> CHR ''z'')"

definition ident_char :: "char \<Rightarrow> bool" where
  "ident_char c =
     (letter c \<or> CHR ''0'' \<le> c \<and> c \<le> CHR ''9'' \<or> c = CHR ''_'' \<or> c = CHR ''-'')"

fun valid_identifier :: "string \<Rightarrow> bool" where
  "valid_identifier [] = False"
| "valid_identifier (c # cs) = (letter c \<and> length cs \<le> 63 \<and> list_all ident_char cs)"

definition key_of :: "heap \<Rightarrow> nat \<Rightarrow> string option" where
  "key_of h g = (case member h (HRef g) ''key'' of HStr s \<Rightarrow> Some s | _ \<Rightarrow> None)"

text \<open>\<open>locate\<close> and the location factories \<open>at\<close>: the graph's key, when it has one, and the rest.\<close>

definition in_graph :: "heap \<Rightarrow> nat \<Rightarrow> location" where
  "in_graph h g = nowhere\<lparr>at_graph := key_of h g\<rparr>"

definition at_field_of :: "location \<Rightarrow> string \<Rightarrow> location" where
  "at_field_of l f = l\<lparr>at_field := Some f\<rparr>"

definition at_node_of :: "location \<Rightarrow> string \<Rightarrow> location" where
  "at_node_of l n = l\<lparr>at_node := Some n\<rparr>"

definition at_edge_of :: "location \<Rightarrow> string \<Rightarrow> location" where
  "at_edge_of l e = l\<lparr>at_edge := Some e\<rparr>"

definition at_outcome_of :: "location \<Rightarrow> string \<Rightarrow> location" where
  "at_outcome_of l oid = l\<lparr>at_outcome := Some oid\<rparr>"

text \<open>One diagnostic when the condition holds.\<close>

definition report_if :: "bool \<Rightarrow> diagnostic_code \<Rightarrow> location \<Rightarrow> diagnostic list" where
  "report_if b c l = (if b then [(c, l)] else [])"

lemma report_if_Nil [simp]: "(report_if b c l = []) = (\<not> b)"
  by (simp add: report_if_def)

definition over_limit :: "heap \<Rightarrow> hval \<Rightarrow> nat \<Rightarrow> bool" where
  "over_limit h v allowed =
     (case registry h v of None \<Rightarrow> False | Some ps \<Rightarrow> length (keys ps) > allowed)"

section \<open>Collecting the graphs\<close>

text \<open>\<open>childGraphsOf\<close>: the diagnostics it adds, and the children in the order of their node ids.\<close>

definition child_at :: "heap \<Rightarrow> (string \<times> hval) list \<Rightarrow> string \<Rightarrow> nat option" where
  "child_at h nodes i =
     (if \<not> is_branded h (own nodes i) ''subgraph-node'' then None
      else (case member h (own nodes i) ''graph'' of
              HRef c \<Rightarrow> if is_branded h (HRef c) ''graph'' then Some c else None
            | _ \<Rightarrow> None))"

definition limit_diagnostics :: "heap \<Rightarrow> nat \<Rightarrow> diagnostic list" where
  "limit_diagnostics h g =
     report_if (over_limit h (member h (HRef g) ''edges'') max_edges)
       TooManyEdges (at_field_of (in_graph h g) ''edges'') @
     report_if (over_limit h (member h (HRef g) ''outcomes'') max_outcomes)
       TooManyOutcomes (at_field_of (in_graph h g) ''outcomes'') @
     report_if (over_limit h (member h (HRef g) ''nodes'') max_nodes)
       TooManyNodes (at_field_of (in_graph h g) ''nodes'')"

definition child_graphs_of :: "heap \<Rightarrow> nat \<Rightarrow> diagnostic list \<times> nat list" where
  "child_graphs_of h g =
     (limit_diagnostics h g,
      if over_limit h (member h (HRef g) ''nodes'') max_nodes then []
      else (case registry h (member h (HRef g) ''nodes'') of
              None \<Rightarrow> []
            | Some nodes \<Rightarrow> List.map_filter (child_at h nodes) (sort (keys nodes))))"

text \<open>
  What one pass leaves behind. \<open>visited\<close> of the source always holds the graphs of \<open>graphs\<close>, so one
  field stands for both.
\<close>

record collected =
  c_graphs :: "nat list"
  c_adjacency :: "(nat \<times> nat list) list"
  c_by_key :: "(string \<times> nat) list"
  c_cycle :: bool
  c_truncated :: bool
  c_diagnostics :: "diagnostic list"

definition nothing_collected :: collected where
  "nothing_collected = \<lparr>c_graphs = [], c_adjacency = [], c_by_key = [], c_cycle = False,
     c_truncated = False, c_diagnostics = []\<rparr>"

definition add_diagnostic :: "diagnostic_code \<Rightarrow> location \<Rightarrow> collected \<Rightarrow> collected" where
  "add_diagnostic c l s = s\<lparr>c_diagnostics := c_diagnostics s @ [(c, l)]\<rparr>"

text \<open>The step of \<open>descend\<close> that registers the graph's declared key.\<close>

definition register_key :: "heap \<Rightarrow> nat \<Rightarrow> collected \<Rightarrow> collected" where
  "register_key h g s =
     (case key_of h g of
        None \<Rightarrow> s
      | Some k \<Rightarrow>
          (case map_of (c_by_key s) k of
             None \<Rightarrow> s\<lparr>c_by_key := put k g (c_by_key s)\<rparr>
           | Some other \<Rightarrow>
               if other \<noteq> g then add_diagnostic DuplicateGraphKey (nowhere\<lparr>at_graph := Some k\<rparr>) s
               else s))"

definition visit :: "heap \<Rightarrow> nat \<Rightarrow> collected \<Rightarrow> collected" where
  "visit h g s =
     s\<lparr>c_graphs := c_graphs s @ [g],
       c_adjacency := put g (snd (child_graphs_of h g)) (c_adjacency s),
       c_diagnostics := c_diagnostics s @ fst (child_graphs_of h g)\<rparr>"

function descend :: "heap \<Rightarrow> nat list \<Rightarrow> nat \<Rightarrow> collected \<Rightarrow> collected"
  and descend_all :: "heap \<Rightarrow> nat list \<Rightarrow> nat list \<Rightarrow> collected \<Rightarrow> collected" where
  "descend h path g s =
     (if c_truncated s then s
      else if g \<in> set path
      then (add_diagnostic RecursiveGraphContainment (in_graph h g) s)\<lparr>c_cycle := True\<rparr>
      else (let s = register_key h g s in
        if g \<in> set (c_graphs s) then s
        else if length (c_graphs s) \<ge> max_graphs
        then (add_diagnostic TooManyGraphs nowhere s)\<lparr>c_truncated := True\<rparr>
        else descend_all h (path @ [g]) (snd (child_graphs_of h g)) (visit h g s)))"
| "descend_all h path [] s = s"
| "descend_all h path (g # gs) s = descend_all h path gs (descend h path g s)"
  by pat_completeness auto

lemma register_key_graphs [simp]:
  "c_graphs (register_key h g s) = c_graphs s"
  "c_adjacency (register_key h g s) = c_adjacency s"
  "c_cycle (register_key h g s) = c_cycle s"
  "c_truncated (register_key h g s) = c_truncated s"
  by (simp_all add: register_key_def add_diagnostic_def split: option.split)

lemma visit_simps [simp]:
  "c_graphs (visit h g s) = c_graphs s @ [g]"
  "c_adjacency (visit h g s) = put g (snd (child_graphs_of h g)) (c_adjacency s)"
  "c_by_key (visit h g s) = c_by_key s"
  "c_cycle (visit h g s) = c_cycle s"
  "c_truncated (visit h g s) = c_truncated s"
  "c_diagnostics (visit h g s) = c_diagnostics s @ fst (child_graphs_of h g)"
  by (simp_all add: visit_def)

lemma add_diagnostic_simps [simp]:
  "c_graphs (add_diagnostic c l s) = c_graphs s"
  "c_adjacency (add_diagnostic c l s) = c_adjacency s"
  "c_by_key (add_diagnostic c l s) = c_by_key s"
  "c_cycle (add_diagnostic c l s) = c_cycle s"
  "c_truncated (add_diagnostic c l s) = c_truncated s"
  "c_diagnostics (add_diagnostic c l s) = c_diagnostics s @ [(c, l)]"
  by (simp_all add: add_diagnostic_def)

text \<open>The collection only grows, and a graph is only entered while there is room for it.\<close>

lemma descend_grows:
  "descend_descend_all_dom (Inl (h, path, g, s)) \<Longrightarrow>
     length (c_graphs s) \<le> length (c_graphs (descend h path g s))"
  "descend_descend_all_dom (Inr (h, path, gs, s)) \<Longrightarrow>
     length (c_graphs s) \<le> length (c_graphs (descend_all h path gs s))"
proof (induction h path g s and h path gs s rule: descend_descend_all.pinduct)
  case (1 h path g s)
  then show ?case by (auto simp: descend.psimps Let_def)
next
  case (3 h path g gs s)
  then show ?case by (simp add: descend_all.psimps)
qed (simp add: descend_all.psimps)

termination descend
proof (relation "measures
        [\<lambda>x. case x of Inl (h, path, g, s) \<Rightarrow> max_graphs - length (c_graphs s)
                      | Inr (h, path, gs, s) \<Rightarrow> max_graphs - length (c_graphs s),
         \<lambda>x. case x of Inl _ \<Rightarrow> 0 | Inr (_, _, gs, _) \<Rightarrow> Suc (length gs)]", goal_cases)
  case (4 h path g gs s)
  then have "length (c_graphs s) \<le> length (c_graphs (descend h path g s))"
    by (rule descend_grows(1))
  then show ?case by auto
qed auto

declare descend.simps [simp del]

definition collect_structure :: "heap \<Rightarrow> nat \<Rightarrow> collected" where
  "collect_structure h root = descend h [] root nothing_collected"

section \<open>The containment depth\<close>

text \<open>
  \<open>depthOf\<close> with its memo of measured graphs. Its recursion ends only on an acyclic relation, where
  it is called; the fuel counts the calls that may be nested, and the number of graphs is enough.
\<close>

type_synonym memo = "(nat \<times> nat) list"

definition children_in :: "(nat \<times> nat list) list \<Rightarrow> nat \<Rightarrow> nat list" where
  "children_in adj g = (case map_of adj g of None \<Rightarrow> [] | Some cs \<Rightarrow> cs)"

function depth_of :: "nat \<Rightarrow> (nat \<times> nat list) list \<Rightarrow> nat \<Rightarrow> memo \<Rightarrow> (nat \<times> memo) option"
  and deepest_child ::
    "nat \<Rightarrow> (nat \<times> nat list) list \<Rightarrow> nat list \<Rightarrow> nat \<Rightarrow> memo \<Rightarrow> (nat \<times> memo) option" where
  "depth_of 0 adj g depths = None"
| "depth_of (Suc n) adj g depths =
     (case map_of depths g of
        Some d \<Rightarrow> Some (d, depths)
      | None \<Rightarrow>
          (case deepest_child n adj (children_in adj g) 0 depths of
             None \<Rightarrow> None
           | Some (d, depths') \<Rightarrow> Some (d + 1, put g (d + 1) depths')))"
| "deepest_child n adj [] deepest depths = Some (deepest, depths)"
| "deepest_child n adj (c # cs) deepest depths =
     (case depth_of n adj c depths of
        None \<Rightarrow> None
      | Some (d, depths') \<Rightarrow> deepest_child n adj cs (max deepest d) depths')"
  by pat_completeness auto

termination
  by (relation "measures
        [\<lambda>x. case x of Inl (n, _) \<Rightarrow> n | Inr (n, _) \<Rightarrow> n,
         \<lambda>x. case x of Inl _ \<Rightarrow> 0 | Inr (_, _, cs, _) \<Rightarrow> Suc (length cs)]") auto

definition containment_depth :: "nat \<Rightarrow> collected \<Rightarrow> nat option" where
  "containment_depth root s =
     map_option fst (depth_of (Suc (length (c_graphs s))) (c_adjacency s) root [])"

definition validate_containment_depth :: "heap \<Rightarrow> nat \<Rightarrow> collected \<Rightarrow> diagnostic list" where
  "validate_containment_depth h root s =
     (case containment_depth root s of
        None \<Rightarrow> []
      | Some d \<Rightarrow> report_if (d > max_depth) ContainmentTooDeep (in_graph h root))"

section \<open>Validating one graph\<close>

text \<open>\<open>validateState\<close>; the field names it returns are not used by its caller.\<close>

definition validate_field :: "heap \<Rightarrow> location \<Rightarrow> string \<times> hval \<Rightarrow> diagnostic list" where
  "validate_field h l r =
     report_if (\<not> is_branded h (snd r) ''state-field'' \<or> \<not> is_function h (member h (snd r) ''reduce''))
       InvalidStateField (at_field_of l (fst r))"

definition validate_state :: "heap \<Rightarrow> location \<Rightarrow> hval \<Rightarrow> diagnostic list" where
  "validate_state h l state =
     (case registry h state of
        None \<Rightarrow> [(InvalidStateField, at_field_of l ''state'')]
      | Some ps \<Rightarrow>
          report_if (ps = []) EmptyState (at_field_of l ''state'') @
          concat (map (validate_field h l) ps))"

definition require_optional_label :: "heap \<Rightarrow> location \<Rightarrow> hval \<Rightarrow> diagnostic list" where
  "require_optional_label h l v =
     report_if (member h v ''label'' \<noteq> HUndefined \<and> \<not> is_function h (member h v ''label''))
       InvalidLabel l"

definition validate_node :: "heap \<Rightarrow> location \<Rightarrow> hval \<Rightarrow> diagnostic list" where
  "validate_node h l node =
     (if is_branded h node ''operation-node''
      then report_if (\<not> is_function h (member h node ''run'')) MissingCallback l @
           require_optional_label h l node
      else if is_branded h node ''subgraph-node''
      then report_if (\<not> is_function h (member h node ''parameters'')) MissingCallback l @
           report_if (\<not> is_function h (member h node ''onResult'')) MissingCallback l @
           report_if (\<not> is_branded h (member h node ''graph'') ''graph'') SubgraphMissingGraph l @
           require_optional_label h l node
      else if is_branded h node ''checkpoint-node''
      then report_if (\<not> is_function h (member h node ''plan'')) MissingCallback l @
           require_optional_label h l node
      else [(UnknownNodeKind, l)])"

text \<open>\<open>validateNodes\<close> and \<open>validateOutcomes\<close> report and return the registered ids.\<close>

definition validate_nodes :: "heap \<Rightarrow> location \<Rightarrow> hval \<Rightarrow> diagnostic list \<times> string list" where
  "validate_nodes h l nodes =
     (case registry h nodes of
        None \<Rightarrow> ([(EmptyGraph, at_field_of l ''nodes'')], [])
      | Some ps \<Rightarrow>
          (report_if (ps = []) EmptyGraph (at_field_of l ''nodes'') @
           concat (map (\<lambda>(i, node).
             report_if (\<not> valid_identifier i) InvalidIdentifier (at_node_of l i) @
             validate_node h (at_node_of l i) node) ps),
           keys ps))"

definition validate_outcome :: "heap \<Rightarrow> location \<Rightarrow> hval \<Rightarrow> diagnostic list" where
  "validate_outcome h l v =
     (if \<not> is_branded h v ''outcome'' then [(MissingCallback, l)]
      else report_if (\<not> is_function h (member h v ''output'')) MissingCallback l @
           report_if (member h v ''kind'' \<noteq> HStr ''success'' \<and> member h v ''kind'' \<noteq> HStr ''failure'')
             MissingCallback l)"

definition validate_outcomes :: "heap \<Rightarrow> location \<Rightarrow> hval \<Rightarrow> diagnostic list \<times> string list" where
  "validate_outcomes h l outcomes =
     (case registry h outcomes of
        None \<Rightarrow> ([(NoOutcomes, at_field_of l ''outcomes'')], [])
      | Some ps \<Rightarrow>
          (report_if (ps = []) NoOutcomes (at_field_of l ''outcomes'') @
           concat (map (\<lambda>(i, v).
             report_if (\<not> valid_identifier i) InvalidIdentifier (at_outcome_of l i) @
             validate_outcome h (at_outcome_of l i) v) ps),
           keys ps))"

fun named_in :: "hval \<Rightarrow> string list \<Rightarrow> bool" where
  "named_in (HStr s) ids = (s \<in> set ids)"
| "named_in _ ids = False"

definition validate_entry ::
    "location \<Rightarrow> string list \<Rightarrow> string list \<Rightarrow> hval \<Rightarrow> diagnostic list" where
  "validate_entry l node_ids outcome_ids entry =
     (if named_in entry node_ids then []
      else if named_in entry outcome_ids then [(EntryNotExecutable, at_field_of l ''entry'')]
      else [(MissingEntry, at_field_of l ''entry'')])"

text \<open>The loop over the declared destinations, with the set of those seen.\<close>

fun validate_each_destination ::
    "location \<Rightarrow> string list \<Rightarrow> string list \<Rightarrow> string list \<Rightarrow> hval list \<Rightarrow> diagnostic list" where
  "validate_each_destination l node_ids outcome_ids seen [] = []"
| "validate_each_destination l node_ids outcome_ids seen (HStr d # ds) =
     (if d \<in> set seen
      then (DuplicateDestination, l) # validate_each_destination l node_ids outcome_ids seen ds
      else report_if (d \<notin> set node_ids \<and> d \<notin> set outcome_ids) EdgeDestinationUnknown l @
           validate_each_destination l node_ids outcome_ids (d # seen) ds)"
| "validate_each_destination l node_ids outcome_ids seen (_ # ds) =
     (EdgeDestinationUnknown, l) # validate_each_destination l node_ids outcome_ids seen ds"

definition validate_destinations ::
    "heap \<Rightarrow> location \<Rightarrow> string list \<Rightarrow> string list \<Rightarrow> hval \<Rightarrow> diagnostic list" where
  "validate_destinations h l node_ids outcome_ids to =
     (case array_at h to of
        None \<Rightarrow> [(EmptyDestinationSet, l)]
      | Some [] \<Rightarrow> [(EmptyDestinationSet, l)]
      | Some ds \<Rightarrow> validate_each_destination l node_ids outcome_ids [] ds)"

text \<open>The routers of each source node, in the order in which \<open>sources\<close> was filled.\<close>

type_synonym sources = "(string \<times> string list) list"

definition add_source :: "string list \<Rightarrow> hval \<Rightarrow> string \<Rightarrow> sources \<Rightarrow> sources" where
  "add_source node_ids from_value edge_id src =
     (case from_value of
        HStr f \<Rightarrow>
          if f \<notin> set node_ids then src
          else (case map_of src f of
                  None \<Rightarrow> put f [edge_id] src
                | Some owners \<Rightarrow> put f (owners @ [edge_id]) src)
      | _ \<Rightarrow> src)"

definition validate_edge ::
    "heap \<Rightarrow> location \<Rightarrow> string list \<Rightarrow> string list \<Rightarrow> string \<Rightarrow> hval \<Rightarrow> diagnostic list" where
  "validate_edge h l node_ids outcome_ids i v =
     report_if (\<not> valid_identifier i) InvalidIdentifier (at_edge_of l i) @
     (if \<not> is_branded h v ''edge'' then [(MissingCallback, at_edge_of l i)]
      else report_if (\<not> is_function h (member h v ''choose'')) MissingCallback (at_edge_of l i) @
           report_if (\<not> named_in (member h v ''from'') node_ids) EdgeSourceUnknown (at_edge_of l i) @
           validate_destinations h (at_edge_of l i) node_ids outcome_ids (member h v ''to''))"

fun edge_sources :: "heap \<Rightarrow> string list \<Rightarrow> (string \<times> hval) list \<Rightarrow> sources \<Rightarrow> sources" where
  "edge_sources h node_ids [] src = src"
| "edge_sources h node_ids ((i, v) # es) src =
     edge_sources h node_ids es
       (if is_branded h v ''edge'' then add_source node_ids (member h v ''from'') i src else src)"

definition validate_edges ::
    "heap \<Rightarrow> location \<Rightarrow> string list \<Rightarrow> string list \<Rightarrow> hval \<Rightarrow> diagnostic list" where
  "validate_edges h l node_ids outcome_ids edges =
     (case registry h edges of
        None \<Rightarrow> [(MissingOutgoingEdge, at_field_of l ''edges'')]
      | Some ps \<Rightarrow>
          (let src = edge_sources h node_ids ps [] in
            concat (map (\<lambda>(i, v). validate_edge h l node_ids outcome_ids i v) ps) @
            concat (map (\<lambda>(f, owners).
              report_if (length owners > 1) DuplicateEdgeSource (at_node_of l f)) src) @
            concat (map (\<lambda>n.
              report_if (n \<notin> set (keys src)) MissingOutgoingEdge (at_node_of l n)) node_ids)))"

definition validate_header :: "heap \<Rightarrow> nat \<Rightarrow> diagnostic list" where
  "validate_header h g =
     report_if (case key_of h g of None \<Rightarrow> True | Some k \<Rightarrow> \<not> valid_identifier k)
       InvalidIdentifier (at_field_of (in_graph h g) ''key'') @
     report_if (case member h (HRef g) ''title'' of HStr t \<Rightarrow> t = [] | _ \<Rightarrow> True)
       MissingTitle (at_field_of (in_graph h g) ''title'') @
     report_if (\<not> is_function h (member h (HRef g) ''init''))
       MissingInit (at_field_of (in_graph h g) ''init'') @
     report_if (member h (HRef g) ''label'' \<noteq> HUndefined \<and>
                \<not> is_function h (member h (HRef g) ''label''))
       InvalidLabel (at_field_of (in_graph h g) ''label'')"

definition validate_graph :: "heap \<Rightarrow> nat \<Rightarrow> diagnostic list" where
  "validate_graph h g =
     validate_header h g @
     (if over_limit h (member h (HRef g) ''nodes'') max_nodes \<or>
         over_limit h (member h (HRef g) ''edges'') max_edges \<or>
         over_limit h (member h (HRef g) ''outcomes'') max_outcomes then []
      else
        let l = in_graph h g;
            nodes = validate_nodes h l (member h (HRef g) ''nodes'');
            outcomes = validate_outcomes h l (member h (HRef g) ''outcomes'')
        in validate_state h l (member h (HRef g) ''state'') @ fst nodes @ fst outcomes @
           concat (map (\<lambda>i. [(IdentifierCollision, at_node_of l i)])
             (filter (\<lambda>i. i \<in> set (snd outcomes)) (snd nodes))) @
           validate_entry l (snd nodes) (snd outcomes) (member h (HRef g) ''entry'') @
           validate_edges h l (snd nodes) (snd outcomes) (member h (HRef g) ''edges''))"

section \<open>Describing an accepted structure\<close>

text \<open>
  \<open>String(v)\<close> where the source has validated that \<open>v\<close> is a string, and \<open>optional\<close>.
\<close>

fun text_of :: "hval \<Rightarrow> string" where
  "text_of (HStr s) = s"
| "text_of _ = []"

fun optional_text :: "hval \<Rightarrow> string option" where
  "optional_text (HStr s) = Some s"
| "optional_text _ = None"

definition entries_of :: "heap \<Rightarrow> hval \<Rightarrow> (string \<times> hval) list" where
  "entries_of h v = (case registry h v of None \<Rightarrow> [] | Some ps \<Rightarrow> ps)"

definition describe_node :: "heap \<Rightarrow> string \<Rightarrow> hval \<Rightarrow> node_descriptor" where
  "describe_node h i node =
     (let title = optional_text (member h node ''title'');
          description = optional_text (member h node ''description'')
      in if member h node ''isagiKind'' = HStr ''subgraph-node''
         then SubDescriptor i (text_of (member h (member h node ''graph'') ''key'')) title description
         else if member h node ''isagiKind'' = HStr ''checkpoint-node''
         then CheckDescriptor i title description
         else OpDescriptor i title description)"

text \<open>The destinations an edge declares, each once.\<close>

definition distinct_destinations :: "hval list \<Rightarrow> string list" where
  "distinct_destinations ds =
     fold (\<lambda>d to. if text_of d \<in> set to then to else to @ [text_of d]) ds []"

definition describe_edge :: "heap \<Rightarrow> string \<Rightarrow> hval \<Rightarrow> edge_descriptor" where
  "describe_edge h i edge =
     \<lparr>ed_id = i, ed_from = text_of (member h edge ''from''),
      ed_to = (case array_at h (member h edge ''to'') of
                 None \<Rightarrow> [] | Some ds \<Rightarrow> distinct_destinations ds),
      ed_title = optional_text (member h edge ''title'')\<rparr>"

definition describe_outcome :: "heap \<Rightarrow> string \<Rightarrow> hval \<Rightarrow> outcome_descriptor" where
  "describe_outcome h i v =
     \<lparr>ocd_id = i,
      ocd_kind = (if member h v ''kind'' = HStr ''failure'' then FailureOutcome else SuccessOutcome),
      ocd_reason = optional_text (member h v ''reason''),
      ocd_title = optional_text (member h v ''title'')\<rparr>"

text \<open>The entries of a registration collection in the order of their ids.\<close>

definition sorted_entries :: "(string \<Rightarrow> hval \<Rightarrow> 'd) \<Rightarrow> (string \<times> hval) list \<Rightarrow> 'd list" where
  "sorted_entries f ps = map (\<lambda>i. f i (own ps i)) (sort (keys ps))"

definition describe_graph :: "heap \<Rightarrow> nat \<Rightarrow> graph_descriptor" where
  "describe_graph h g =
     (let v = HRef g in
      \<lparr>gd_key = text_of (member h v ''key''),
       gd_title = text_of (member h v ''title''),
       gd_description = optional_text (member h v ''description''),
       gd_state_fields = sort (keys (entries_of h (member h v ''state''))),
       gd_entry = text_of (member h v ''entry''),
       gd_nodes = sorted_entries (describe_node h) (entries_of h (member h v ''nodes'')),
       gd_edges = sorted_entries (describe_edge h) (entries_of h (member h v ''edges'')),
       gd_outcomes = sorted_entries (describe_outcome h) (entries_of h (member h v ''outcomes''))\<rparr>)"

section \<open>The inspection\<close>

definition validate_workflow :: "heap \<Rightarrow> hval \<Rightarrow> diagnostic list" where
  "validate_workflow h workflow =
     report_if (\<not> is_function h (member h workflow ''command''))
       MissingCallback (at_field_of nowhere ''command'') @
     report_if (\<not> is_function h (member h workflow ''parse''))
       MissingCallback (at_field_of nowhere ''parse'') @
     report_if (member h workflow ''placement'' \<noteq> HUndefined \<and>
                \<not> is_function h (member h workflow ''placement''))
       MissingCallback (at_field_of nowhere ''placement'')"

definition structure_diagnostics :: "heap \<Rightarrow> nat \<Rightarrow> collected \<Rightarrow> diagnostic list" where
  "structure_diagnostics h root s =
     c_diagnostics s @ concat (map (validate_graph h) (c_graphs s)) @
     (if \<not> c_cycle s \<and> \<not> c_truncated s then validate_containment_depth h root s else [])"

definition structure_of :: "heap \<Rightarrow> nat \<Rightarrow> collected \<Rightarrow> structure_descriptor" where
  "structure_of h root s =
     \<lparr>sd_root = text_of (member h (HRef root) ''key''),
      sd_graphs = sort_key gd_key (map (describe_graph h) (c_graphs s))\<rparr>"

definition describe_workflow_module ::
    "heap \<Rightarrow> hval \<Rightarrow> diagnostic list + structure_descriptor" where
  "describe_workflow_module h namespace =
     (let workflow = member h namespace ''default'' in
      if \<not> is_branded h workflow ''workflow''
      then Inl (case contract_version_of h workflow of
                  Some n \<Rightarrow> if n \<noteq> Finite recognized_version then [(UnsupportedContract, nowhere)]
                            else [(InvalidExport, nowhere)]
                | None \<Rightarrow> [(InvalidExport, nowhere)])
      else (case member h workflow ''graph'' of
              HRef root \<Rightarrow>
                if \<not> is_branded h (HRef root) ''graph''
                then Inl (validate_workflow h workflow @
                          [(InvalidExport, at_field_of nowhere ''graph'')])
                else (let s = collect_structure h root;
                          found = validate_workflow h workflow @ structure_diagnostics h root s
                      in if found \<noteq> [] then Inl found else Inr (structure_of h root s))
            | _ \<Rightarrow> Inl (validate_workflow h workflow @
                        [(InvalidExport, at_field_of nowhere ''graph'')])))"

section \<open>The canonical form\<close>

text \<open>
  The value \<open>canonicalizeDescriptor\<close> hands to \<open>JSON.stringify\<close>, with its fixed key order and its absent
  optional keys.
\<close>

definition optional_entry :: "string \<Rightarrow> string option \<Rightarrow> (string \<times> jsval) list" where
  "optional_entry k v = (case v of None \<Rightarrow> [] | Some s \<Rightarrow> [(k, JStr s)])"

definition text_array :: "string list \<Rightarrow> jsval" where
  "text_array ss = JArr (map JStr ss)"

fun canonical_node :: "node_descriptor \<Rightarrow> jsval" where
  "canonical_node (OpDescriptor i t d) =
     JObj PlainProto ([(''id'', JStr i), (''kind'', JStr ''operation'')] @
       optional_entry ''title'' t @ optional_entry ''description'' d)"
| "canonical_node (SubDescriptor i k t d) =
     JObj PlainProto ([(''id'', JStr i), (''kind'', JStr ''subgraph''), (''graphKey'', JStr k)] @
       optional_entry ''title'' t @ optional_entry ''description'' d)"
| "canonical_node (CheckDescriptor i t d) =
     JObj PlainProto ([(''id'', JStr i), (''kind'', JStr ''checkpoint'')] @
       optional_entry ''title'' t @ optional_entry ''description'' d)"

definition canonical_edge :: "edge_descriptor \<Rightarrow> jsval" where
  "canonical_edge e =
     JObj PlainProto ([(''id'', JStr (ed_id e)), (''from'', JStr (ed_from e)), (''to'', text_array (ed_to e))] @
       optional_entry ''title'' (ed_title e))"

definition canonical_outcome :: "outcome_descriptor \<Rightarrow> jsval" where
  "canonical_outcome oc =
     JObj PlainProto ([(''id'', JStr (ocd_id oc)),
         (''kind'', JStr (if ocd_kind oc = FailureOutcome then ''failure'' else ''success''))] @
       optional_entry ''reason'' (ocd_reason oc) @ optional_entry ''title'' (ocd_title oc))"

definition canonical_graph :: "graph_descriptor \<Rightarrow> jsval" where
  "canonical_graph g =
     JObj PlainProto ([(''key'', JStr (gd_key g)), (''title'', JStr (gd_title g))] @
       optional_entry ''description'' (gd_description g) @
       [(''stateFields'', text_array (gd_state_fields g)), (''entry'', JStr (gd_entry g)),
        (''nodes'', JArr (map canonical_node (gd_nodes g))),
        (''edges'', JArr (map canonical_edge (gd_edges g))),
        (''outcomes'', JArr (map canonical_outcome (gd_outcomes g)))])"

definition canonicalize_descriptor :: "structure_descriptor \<Rightarrow> jsval" where
  "canonicalize_descriptor d =
     JObj PlainProto [(''descriptorVersion'', JNum (Finite 2)),
       (''workflowContractVersion'', JNum (Finite recognized_version)),
       (''rootGraphKey'', JStr (sd_root d)), (''graphs'', JArr (map canonical_graph (sd_graphs d)))]"

section \<open>The command manifest\<close>

datatype manifest_problem =
    NotAManifest | BadTitle | BadDescription | BadHidden | BadInputs
  | InputNotObject nat | InputKind nat | InputKey nat | InputLabel nat | InputOptions nat
  | OptionValue nat nat

fun non_empty_text :: "hval \<Rightarrow> bool" where
  "non_empty_text (HStr s) = (s \<noteq> [])"
| "non_empty_text _ = False"

fun is_text :: "hval \<Rightarrow> bool" where
  "is_text (HStr s) = True"
| "is_text _ = False"

fun is_flag :: "hval \<Rightarrow> bool" where
  "is_flag (HBool b) = True"
| "is_flag _ = False"

definition problem_if :: "bool \<Rightarrow> manifest_problem \<Rightarrow> manifest_problem list" where
  "problem_if b x = (if b then [x] else [])"

definition command_input_kinds :: "hval list" where
  "command_input_kinds = map HStr [''text'', ''select'', ''multi-select'', ''confirm'']"

fun check_options :: "heap \<Rightarrow> nat \<Rightarrow> nat \<Rightarrow> hval list \<Rightarrow> manifest_problem list" where
  "check_options h i j [] = []"
| "check_options h i j (opt # opts) =
     problem_if (\<not> is_text (member h opt ''value'')) (OptionValue i j) @ check_options h i (Suc j) opts"

definition check_input :: "heap \<Rightarrow> nat \<Rightarrow> hval \<Rightarrow> manifest_problem list" where
  "check_input h i input =
     (if \<not> is_object h input then [InputNotObject i]
      else problem_if (member h input ''kind'' \<notin> set command_input_kinds) (InputKind i) @
           problem_if (\<not> non_empty_text (member h input ''key'')) (InputKey i) @
           problem_if (\<not> non_empty_text (member h input ''label'')) (InputLabel i) @
           (if member h input ''kind'' = HStr ''select'' \<or> member h input ''kind'' = HStr ''multi-select''
            then (case array_at h (member h input ''options'') of
                    None \<Rightarrow> [InputOptions i]
                  | Some opts \<Rightarrow> check_options h i 0 opts)
            else []))"

fun check_inputs :: "heap \<Rightarrow> nat \<Rightarrow> hval list \<Rightarrow> manifest_problem list" where
  "check_inputs h i [] = []"
| "check_inputs h i (input # inputs) = check_input h i input @ check_inputs h (Suc i) inputs"

definition check_command_manifest :: "heap \<Rightarrow> hval \<Rightarrow> manifest_problem list" where
  "check_command_manifest h m =
     (if \<not> is_object h m \<or> array_at h m \<noteq> None then [NotAManifest]
      else problem_if (\<not> non_empty_text (member h m ''title'')) BadTitle @
           problem_if (member h m ''description'' \<noteq> HUndefined \<and> \<not> is_text (member h m ''description''))
             BadDescription @
           problem_if (member h m ''hidden'' \<noteq> HUndefined \<and> \<not> is_flag (member h m ''hidden'')) BadHidden @
           problem_if (member h m ''inputs'' \<noteq> HUndefined \<and> array_at h (member h m ''inputs'') = None)
             BadInputs @
           check_inputs h 0 (case array_at h (member h m ''inputs'') of None \<Rightarrow> [] | Some es \<Rightarrow> es))"

end
