(* ===== verification/Containment.thy ===== *)
theory Containment
  imports Structure "HOL-Library.Sublist"
begin

text \<open>
  What the pass over the containment relation establishes: which graphs it collects, that it reports
  a cycle exactly when there is one, and the longest chain of nested graphs, which
  \<^verbatim>\<open>validateContainmentDepth\<close> of \<^verbatim>\<open>packages/workflow-verifier/src/structure.ts\<close>
  measures over the recorded adjacency.
\<close>

section \<open>The containment relation\<close>

definition children_of :: "heap \<Rightarrow> nat \<Rightarrow> nat list" where
  "children_of h g = snd (child_graphs_of h g)"

inductive contained :: "heap \<Rightarrow> nat \<Rightarrow> nat \<Rightarrow> bool" for h root where
  contained_root: "contained h root root"
| contained_child: "contained h root g \<Longrightarrow> c \<in> set (children_of h g) \<Longrightarrow> contained h root c"

definition contains :: "heap \<Rightarrow> (nat \<times> nat) set" where
  "contains h = {(g, c). c \<in> set (children_of h g)}"

lemma contains_iff: "((g, c) \<in> contains h) = (c \<in> set (children_of h g))"
  by (simp add: contains_def)

lemma contained_rtrancl: "contained h root g = ((root, g) \<in> (contains h)\<^sup>*)"
proof
  show "contained h root g \<Longrightarrow> (root, g) \<in> (contains h)\<^sup>*"
    by (induction rule: contained.induct) (auto simp: contains_iff [symmetric] intro: rtrancl_into_rtrancl)
  show "(root, g) \<in> (contains h)\<^sup>* \<Longrightarrow> contained h root g"
    by (induction rule: rtrancl_induct) (auto simp: contains_iff intro: contained.intros)
qed

section \<open>What one descent does\<close>

text \<open>
  Relating the collection before and after: graphs are appended, once each and at most up to the limit, their recorded
  children are their children, a verdict once given stands, and the key table only grows.
\<close>

definition extends :: "collected \<Rightarrow> collected \<Rightarrow> bool" where
  "extends s s' =
     (prefix (c_graphs s) (c_graphs s') \<and> prefix (c_diagnostics s) (c_diagnostics s') \<and>
      (c_cycle s \<longrightarrow> c_cycle s') \<and> (c_truncated s \<longrightarrow> c_truncated s') \<and>
      (\<forall>k g. map_of (c_by_key s) k = Some g \<longrightarrow> map_of (c_by_key s') k = Some g))"

definition collected_wf :: "heap \<Rightarrow> collected \<Rightarrow> bool" where
  "collected_wf h s =
     (distinct (c_graphs s) \<and> length (c_graphs s) \<le> max_graphs \<and>
      (\<forall>g. map_of (c_adjacency s) g =
         (if g \<in> set (c_graphs s) then Some (children_of h g) else None)))"

lemma extends_refl: "extends s s"
  by (simp add: extends_def)

lemma extends_trans: "extends s s' \<Longrightarrow> extends s' s'' \<Longrightarrow> extends s s''"
  unfolding extends_def by (blast intro: prefix_order.trans)

lemma extends_graphs: "extends s s' \<Longrightarrow> set (c_graphs s) \<subseteq> set (c_graphs s')"
  by (auto simp: extends_def prefix_def)

lemma extends_add_diagnostic: "extends s (add_diagnostic c l s)"
  by (simp add: extends_def)

lemma extends_register_key: "extends s (register_key h g s)"
  by (auto simp: extends_def register_key_def add_diagnostic_def split: option.split)

lemma extends_visit: "extends s (visit h g s)"
  by (simp add: extends_def)

lemma extends_flags:
  "extends s (s\<lparr>c_cycle := True\<rparr>)" "extends s (s\<lparr>c_truncated := True\<rparr>)"
  by (simp_all add: extends_def)

lemma descend_extends:
  "extends s (descend h path g s)"
  "extends s (descend_all h path gs s)"
proof (induction h path g s and h path gs s rule: descend_descend_all.induct)
  case (1 h path g s)
  show ?case
    using extends_trans [OF extends_add_diagnostic extends_flags(1)]
      extends_trans [OF extends_trans [OF extends_register_key extends_add_diagnostic] extends_flags(2)]
      extends_trans [OF extends_trans [OF extends_register_key extends_visit] "1.IH" [OF _ _ refl]]
    by (simp add: descend.simps [of h path g s] Let_def extends_refl extends_register_key)
next
  case (3 h path g gs s)
  then show ?case by (auto intro: extends_trans)
qed (simp add: extends_refl)

lemma collected_wf_nothing: "collected_wf h nothing_collected"
  by (simp add: collected_wf_def nothing_collected_def)

lemma collected_wf_visit:
  "collected_wf h s \<Longrightarrow> g \<notin> set (c_graphs s) \<Longrightarrow> length (c_graphs s) < max_graphs \<Longrightarrow>
   collected_wf h (visit h g s)"
  by (auto simp: collected_wf_def children_of_def)

text \<open>The five ways one call of \<open>descend\<close> can go.\<close>

lemma descend_cases:
  obtains
    (stopped) "c_truncated s" "descend h path g s = s"
  | (cycle) "\<not> c_truncated s" "g \<in> set path"
      "descend h path g s = (add_diagnostic RecursiveGraphContainment (in_graph h g) s)\<lparr>c_cycle := True\<rparr>"
  | (again) "\<not> c_truncated s" "g \<notin> set path" "g \<in> set (c_graphs s)"
      "descend h path g s = register_key h g s"
  | (full) "\<not> c_truncated s" "g \<notin> set path" "g \<notin> set (c_graphs s)" "length (c_graphs s) \<ge> max_graphs"
      "descend h path g s = (add_diagnostic TooManyGraphs nowhere (register_key h g s))\<lparr>c_truncated := True\<rparr>"
  | (entered) "\<not> c_truncated s" "g \<notin> set path" "g \<notin> set (c_graphs s)" "length (c_graphs s) < max_graphs"
      "descend h path g s = descend_all h (path @ [g]) (children_of h g) (visit h g (register_key h g s))"
  by (cases "c_truncated s"; cases "g \<in> set path"; cases "g \<in> set (c_graphs s)";
      cases "length (c_graphs s) \<ge> max_graphs")
     (simp_all add: descend.simps [of h path g s] Let_def children_of_def)

text \<open>The induction that follows the descent: only an entered graph has a recursive call.\<close>

lemma descend_induct [case_names graph Nil Cons]:
  assumes "\<And>h path g s. (\<not> c_truncated s \<Longrightarrow> g \<notin> set path \<Longrightarrow> g \<notin> set (c_graphs s) \<Longrightarrow>
             length (c_graphs s) < max_graphs \<Longrightarrow>
             Q h (path @ [g]) (children_of h g) (visit h g (register_key h g s))) \<Longrightarrow> P h path g s"
    and "\<And>h path s. Q h path [] s"
    and "\<And>h path g gs s. P h path g s \<Longrightarrow> Q h path gs (descend h path g s) \<Longrightarrow> Q h path (g # gs) s"
  shows "P h path g s" and "Q h path gs s"
  by (induction h path g s and h path gs s rule: descend_descend_all.induct)
     (use assms in \<open>simp_all add: children_of_def\<close>)

lemma descend_wf:
  "collected_wf h s \<Longrightarrow> collected_wf h (descend h path g s)"
  "collected_wf h s \<Longrightarrow> collected_wf h (descend_all h path gs s)"
proof (induction h path g s and h path gs s rule: descend_induct)
  case (graph h path g s)
  have key: "collected_wf h (register_key h g s)"
    using graph.prems by (simp add: collected_wf_def)
  show ?case
  proof (cases rule: descend_cases [where h = h and path = path and g = g and s = s])
    case entered
    have "collected_wf h (visit h g (register_key h g s))"
      using key entered(3,4) by (simp add: collected_wf_visit)
    with graph.IH entered show ?thesis by simp
  qed (use graph.prems key in \<open>simp_all add: collected_wf_def\<close>)
qed auto

text \<open>The same two facts for the collection of a whole structure.\<close>

lemma collect_structure_wf: "collected_wf h (collect_structure h root)"
  unfolding collect_structure_def by (rule descend_wf(1) [OF collected_wf_nothing])

section \<open>Which graphs are collected\<close>

lemma descend_covers:
  "set path \<subseteq> set (c_graphs s) \<Longrightarrow> \<not> c_truncated (descend h path g s) \<Longrightarrow>
     g \<in> set (c_graphs (descend h path g s)) \<and>
     (\<forall>x \<in> set (c_graphs (descend h path g s)) - set (c_graphs s).
        set (children_of h x) \<subseteq> set (c_graphs (descend h path g s)))"
  "set path \<subseteq> set (c_graphs s) \<Longrightarrow> \<not> c_truncated (descend_all h path gs s) \<Longrightarrow>
     set gs \<subseteq> set (c_graphs (descend_all h path gs s)) \<and>
     (\<forall>x \<in> set (c_graphs (descend_all h path gs s)) - set (c_graphs s).
        set (children_of h x) \<subseteq> set (c_graphs (descend_all h path gs s)))"
proof (induction h path g s and h path gs s rule: descend_induct)
  case (graph h path g s)
  show ?case
  proof (cases rule: descend_cases [where h = h and path = path and g = g and s = s])
    case entered
    have ext: "set (c_graphs (visit h g (register_key h g s))) \<subseteq> set (c_graphs (descend h path g s))"
      unfolding entered(5) by (intro extends_graphs descend_extends)
    have "set (path @ [g]) \<subseteq> set (c_graphs (visit h g (register_key h g s)))"
      using graph.prems(1) by auto
    from graph.IH [OF entered(1-4) this] graph.prems(2) ext show ?thesis
      unfolding entered(5) by auto
  qed (use graph.prems in auto)
next
  case (Cons h path g gs s)
  let ?s = "descend h path g s"
  have ext: "set (c_graphs s) \<subseteq> set (c_graphs ?s)" "set (c_graphs ?s) \<subseteq> set (c_graphs (descend_all h path gs ?s))"
    by (intro extends_graphs descend_extends)+
  have nt: "\<not> c_truncated ?s"
    using Cons.prems(2) descend_extends(2) [of ?s h path gs] by (auto simp: extends_def)
  have "set path \<subseteq> set (c_graphs ?s)" using Cons.prems(1) ext(1) by blast
  then have rest: "set gs \<subseteq> set (c_graphs (descend_all h path gs ?s))"
    "\<forall>x \<in> set (c_graphs (descend_all h path gs ?s)) - set (c_graphs ?s).
       set (children_of h x) \<subseteq> set (c_graphs (descend_all h path gs ?s))"
    using Cons.IH(2) Cons.prems(2) by simp_all
  have "g \<in> set (c_graphs ?s)" "\<forall>x \<in> set (c_graphs ?s) - set (c_graphs s).
       set (children_of h x) \<subseteq> set (c_graphs ?s)"
    using Cons.IH(1) [OF Cons.prems(1) nt] by blast+
  with rest ext(2) show ?case by (simp add: subset_iff) blast
qed simp

lemma descend_sound:
  "x \<in> set (c_graphs (descend h path g s)) \<Longrightarrow> x \<in> set (c_graphs s) \<or> contained h g x"
  "x \<in> set (c_graphs (descend_all h path gs s)) \<Longrightarrow>
     x \<in> set (c_graphs s) \<or> (\<exists>g \<in> set gs. contained h g x)"
proof (induction h path g s and h path gs s rule: descend_induct)
  case (graph h path g s)
  show ?case
  proof (cases rule: descend_cases [where h = h and path = path and g = g and s = s])
    case entered
    from graph.IH [OF entered(1-4)] graph.prems
    consider "x \<in> set (c_graphs s)" | "x = g" | c where "c \<in> set (children_of h g)" "contained h c x"
      unfolding entered(5) by auto
    then show ?thesis
    proof cases
      case 3
      then have "(g, x) \<in> (contains h)\<^sup>*"
        by (auto simp: contained_rtrancl contains_iff [symmetric] intro: converse_rtrancl_into_rtrancl)
      then show ?thesis by (simp add: contained_rtrancl)
    qed (auto intro: contained_root)
  qed (use graph.prems in auto)
qed auto


section \<open>Cycles\<close>

text \<open>
  The graphs that are left: collected, and not on the path. Their children are all left too, and
  they have no cycle among them, as long as none has been reported.
\<close>

definition left_graphs :: "nat list \<Rightarrow> collected \<Rightarrow> nat set" where
  "left_graphs path s = set (c_graphs s) - set path"

definition from_set :: "heap \<Rightarrow> nat set \<Rightarrow> (nat \<times> nat) set" where
  "from_set h A = {(x, y) \<in> contains h. x \<in> A}"

definition settled :: "heap \<Rightarrow> nat list \<Rightarrow> collected \<Rightarrow> bool" where
  "settled h path s =
     (set path \<subseteq> set (c_graphs s) \<and>
      (\<forall>x \<in> left_graphs path s. set (children_of h x) \<subseteq> left_graphs path s) \<and>
      acyclic (from_set h (left_graphs path s)))"

lemma trancl_stays:
  "(x, y) \<in> (from_set h (insert g A))\<^sup>+ \<Longrightarrow> x \<in> A \<Longrightarrow> g \<notin> A \<Longrightarrow>
   (\<forall>z \<in> A. set (children_of h z) \<subseteq> A) \<Longrightarrow> (x, y) \<in> (from_set h A)\<^sup>+ \<and> y \<in> A"
proof (induction rule: trancl_induct)
  case (base y)
  then have "(x, y) \<in> from_set h A" "y \<in> A" by (auto simp: from_set_def contains_def)
  then show ?case by auto
next
  case (step y z)
  then have y: "(x, y) \<in> (from_set h A)\<^sup>+" "y \<in> A" by auto
  with step have "(y, z) \<in> from_set h A" "z \<in> A" by (auto simp: from_set_def contains_def)
  with y show ?case by auto
qed

lemma acyclic_insert_graph:
  assumes "acyclic (from_set h A)" and "\<forall>z \<in> A. set (children_of h z) \<subseteq> A"
    and "g \<notin> A" and "set (children_of h g) \<subseteq> A"
  shows "acyclic (from_set h (insert g A))"
  unfolding acyclic_def
proof (intro allI notI)
  fix x assume x: "(x, x) \<in> (from_set h (insert g A))\<^sup>+"
  obtain y where y: "(x, y) \<in> from_set h (insert g A)" "(y, x) \<in> (from_set h (insert g A))\<^sup>*"
    using tranclD [OF x] by blast
  have "y \<in> A" using y(1) assms(2,4) by (auto simp: from_set_def contains_def)
  then have "x \<in> A"
    using y(2) assms(2,3) by (auto dest!: rtranclD trancl_stays)
  with trancl_stays [OF x] assms show False by (auto simp: acyclic_def)
qed

lemma descend_settled:
  "settled h path s \<Longrightarrow> \<not> c_truncated (descend h path g s) \<Longrightarrow> \<not> c_cycle (descend h path g s) \<Longrightarrow>
     settled h path (descend h path g s) \<and> g \<in> left_graphs path (descend h path g s)"
  "settled h path s \<Longrightarrow> \<not> c_truncated (descend_all h path gs s) \<Longrightarrow>
     \<not> c_cycle (descend_all h path gs s) \<Longrightarrow>
     settled h path (descend_all h path gs s) \<and> set gs \<subseteq> left_graphs path (descend_all h path gs s)"
proof (induction h path g s and h path gs s rule: descend_induct)
  case (graph h path g s)
  show ?case
  proof (cases rule: descend_cases [where h = h and path = path and g = g and s = s])
    case entered
    let ?s = "descend h path g s"
    have lefts: "left_graphs (path @ [g]) (visit h g (register_key h g s)) = left_graphs path s"
      using entered(3) by (auto simp: left_graphs_def)
    have "settled h (path @ [g]) (visit h g (register_key h g s))"
      using graph.prems(1) unfolding settled_def lefts by auto
    from graph.IH [OF entered(1-4) this] graph.prems(2,3)
    have s: "settled h (path @ [g]) ?s" "set (children_of h g) \<subseteq> left_graphs (path @ [g]) ?s"
      unfolding entered(5) by auto
    have here: "left_graphs path ?s = insert g (left_graphs (path @ [g]) ?s)"
      "g \<notin> left_graphs (path @ [g]) ?s"
      using s(1) entered(2) by (auto simp: settled_def left_graphs_def)
    show ?thesis
      using s acyclic_insert_graph [OF _ _ here(2) s(2)] unfolding settled_def here(1) by auto
  qed (use graph.prems in \<open>auto simp: settled_def left_graphs_def\<close>)
next
  case (Cons h path g gs s)
  let ?s = "descend h path g s"
  have ext: "extends ?s (descend_all h path gs ?s)" by (rule descend_extends)
  with Cons.prems have "settled h path ?s \<and> g \<in> left_graphs path ?s"
    by (intro Cons.IH(1)) (auto simp: extends_def)
  with Cons.IH(2) Cons.prems extends_graphs [OF ext] show ?case
    by (auto simp: left_graphs_def)
qed simp

text \<open>The other way: a reported cycle is one.\<close>

lemma descend_cycle:
  "c_cycle (descend h path g s) \<Longrightarrow> (\<forall>p \<in> set path. (p, g) \<in> (contains h)\<^sup>+) \<Longrightarrow>
     c_cycle s \<or> (\<exists>x. contained h g x \<and> (x, x) \<in> (contains h)\<^sup>+)"
  "c_cycle (descend_all h path gs s) \<Longrightarrow> (\<forall>p \<in> set path. \<forall>g \<in> set gs. (p, g) \<in> (contains h)\<^sup>+) \<Longrightarrow>
     c_cycle s \<or> (\<exists>g \<in> set gs. \<exists>x. contained h g x \<and> (x, x) \<in> (contains h)\<^sup>+)"
proof (induction h path g s and h path gs s rule: descend_induct)
  case (graph h path g s)
  show ?case
  proof (cases rule: descend_cases [where h = h and path = path and g = g and s = s])
    case cycle
    with graph.prems(2) show ?thesis by (auto intro: contained_root)
  next
    case entered
    have "\<forall>p \<in> set (path @ [g]). \<forall>c \<in> set (children_of h g). (p, c) \<in> (contains h)\<^sup>+"
      using graph.prems(2) by (auto simp: contains_iff [symmetric] intro: trancl_into_trancl)
    from graph.IH [OF entered(1-4) _ this] graph.prems(1)
    consider "c_cycle s" | c x where "c \<in> set (children_of h g)" "contained h c x"
        "(x, x) \<in> (contains h)\<^sup>+"
      unfolding entered(5) by auto
    then show ?thesis
      by cases (auto simp: contained_rtrancl contains_iff [symmetric]
          intro: converse_rtrancl_into_rtrancl)
  qed (use graph.prems in auto)
qed auto



section \<open>Truncation\<close>

lemma contained_in_heap: "contained h root g \<Longrightarrow> g = root \<or> g \<in> fst ` set h"
proof (induction rule: contained.induct)
  case (contained_child g c)
  then have "is_branded h (HRef c) ''graph''"
    by (auto simp: children_of_def child_graphs_of_def child_at_def List.map_filter_def
        split: if_splits option.splits hval.splits)
  then have "map_of h c \<noteq> None"
    by (auto simp: is_branded_def is_object_def object_at_def split: option.splits)
  then show ?case by (auto simp: map_of_eq_None_iff)
qed simp

lemma contained_finite: "finite {g. contained h root g}"
  by (rule finite_subset [of _ "insert root (fst ` set h)"]) (auto dest: contained_in_heap)

lemma contained_trans: "contained h root g \<Longrightarrow> contained h g x \<Longrightarrow> contained h root x"
  by (simp add: contained_rtrancl)

lemma card_too_many:
  assumes "collected_wf h s" and "\<forall>x \<in> set (c_graphs s). contained h root x"
    and "contained h root g" and "g \<notin> set (c_graphs s)" and "max_graphs \<le> length (c_graphs s)"
  shows "max_graphs < card {g. contained h root g}"
proof -
  have "card (insert g (set (c_graphs s))) \<le> card {g. contained h root g}"
    by (rule card_mono) (use assms contained_finite in auto)
  moreover have "card (insert g (set (c_graphs s))) = Suc (length (c_graphs s))"
    using assms(1,4) by (simp add: collected_wf_def distinct_card)
  ultimately show ?thesis using assms(5) by simp
qed

lemma descend_truncated:
  "c_truncated (descend h path g s) \<Longrightarrow> collected_wf h s \<Longrightarrow>
     (\<forall>x \<in> set (c_graphs s). contained h root x) \<Longrightarrow> contained h root g \<Longrightarrow>
     c_truncated s \<or> max_graphs < card {g. contained h root g}"
  "c_truncated (descend_all h path gs s) \<Longrightarrow> collected_wf h s \<Longrightarrow>
     (\<forall>x \<in> set (c_graphs s). contained h root x) \<Longrightarrow> (\<forall>g \<in> set gs. contained h root g) \<Longrightarrow>
     c_truncated s \<or> max_graphs < card {g. contained h root g}"
proof (induction h path g s and h path gs s rule: descend_induct)
  case (graph h path g s)
  show ?case
  proof (cases rule: descend_cases [where h = h and path = path and g = g and s = s])
    case full
    show ?thesis using card_too_many [OF graph.prems(2-4) full(3,4)] by simp
  next
    case entered
    have "collected_wf h (visit h g (register_key h g s))"
      using graph.prems(2) entered(3,4) by (simp add: collected_wf_def children_of_def)
    with graph.IH [OF entered(1-4)] graph.prems entered show ?thesis
      by (auto intro: contained_child)
  qed (use graph.prems in auto)
next
  case (Cons h path g gs s)
  have "\<forall>x \<in> set (c_graphs (descend h path g s)). contained h root x"
    using Cons.prems(3,4) by (auto dest!: descend_sound(1) intro: contained_trans)
  with Cons show ?case by (auto intro: descend_wf)
qed simp

section \<open>A pass without diagnostics\<close>

definition clean :: "heap \<Rightarrow> collected \<Rightarrow> bool" where
  "clean h s =
     (c_diagnostics s = [] \<longrightarrow> \<not> c_cycle s \<and> \<not> c_truncated s \<and>
        (\<forall>g \<in> set (c_graphs s). limit_diagnostics h g = [] \<and>
           (\<forall>k. key_of h g = Some k \<longrightarrow> map_of (c_by_key s) k = Some g)))"

lemma register_key_clean:
  assumes "clean h s" and "c_diagnostics (register_key h g s) = []"
  shows "c_diagnostics s = []" and "clean h (register_key h g s)"
    and "key_of h g = Some k \<Longrightarrow> map_of (c_by_key (register_key h g s)) k = Some g"
  using assms by (auto simp: clean_def register_key_def split: option.splits if_splits)

lemma register_key_keeps_clean: "clean h s \<Longrightarrow> clean h (register_key h g s)"
  using register_key_clean(2) by (cases "c_diagnostics (register_key h g s) = []") (auto simp: clean_def)

lemma visit_clean:
  assumes "clean h s"
  shows "clean h (visit h g (register_key h g s))"
  using register_key_keeps_clean [OF assms, of g] register_key_clean(3) [OF assms, of g]
  by (auto simp: clean_def child_graphs_of_def)

lemma descend_clean:
  "clean h s \<Longrightarrow> clean h (descend h path g s)"
  "clean h s \<Longrightarrow> clean h (descend_all h path gs s)"
proof (induction h path g s and h path gs s rule: descend_induct)
  case (graph h path g s)
  show ?case
  proof (cases rule: descend_cases [where h = h and path = path and g = g and s = s])
    case entered
    with graph.IH visit_clean [OF graph.prems] show ?thesis by simp
  qed (use graph.prems register_key_keeps_clean [OF graph.prems] in \<open>auto simp: clean_def\<close>)
qed auto

lemma collect_structure_clean: "clean h (collect_structure h root)"
  unfolding collect_structure_def by (rule descend_clean) (simp add: clean_def nothing_collected_def)

section \<open>The collection\<close>

lemma nothing_simps [simp]:
  "c_graphs nothing_collected = []" "c_cycle nothing_collected = False"
  "c_truncated nothing_collected = False"
  by (simp_all add: nothing_collected_def)

lemma collected_subset: "set (c_graphs (collect_structure h root)) \<subseteq> {g. contained h root g}"
  unfolding collect_structure_def by (auto dest: descend_sound(1))

lemma collected_all:
  assumes "\<not> c_truncated (collect_structure h root)"
  shows "set (c_graphs (collect_structure h root)) = {g. contained h root g}"
proof
  let ?G = "set (c_graphs (collect_structure h root))"
  have G: "root \<in> ?G" "\<forall>x \<in> ?G. set (children_of h x) \<subseteq> ?G"
    using descend_covers(1) [of "[]" nothing_collected h root] assms
    unfolding collect_structure_def by auto
  have "contained h root g \<Longrightarrow> g \<in> ?G" for g
    by (induction rule: contained.induct) (use G in auto)
  then show "{g. contained h root g} \<subseteq> ?G" by blast
qed (rule collected_subset)

lemma collected_truncated:
  "c_truncated (collect_structure h root) = (max_graphs < card {g. contained h root g})"
proof
  assume "c_truncated (collect_structure h root)"
  then show "max_graphs < card {g. contained h root g}"
    using descend_truncated(1) [of h "[]" root nothing_collected root]
    unfolding collect_structure_def by (auto intro: contained_root collected_wf_nothing)
next
  assume many: "max_graphs < card {g. contained h root g}"
  show "c_truncated (collect_structure h root)"
  proof (rule ccontr)
    assume "\<not> c_truncated (collect_structure h root)"
    from collected_all [OF this] many collect_structure_wf [of h root]
    show False by (metis card_length collected_wf_def leD le_trans)
  qed
qed

lemma collected_acyclic:
  assumes "\<not> c_truncated (collect_structure h root)" and "\<not> c_cycle (collect_structure h root)"
  shows "acyclic (from_set h {g. contained h root g})"
proof -
  have "settled h [] (collect_structure h root)"
    using descend_settled(1) [of h "[]" nothing_collected root] assms
    unfolding collect_structure_def by (auto simp: settled_def left_graphs_def from_set_def acyclic_def)
  then show ?thesis
    using collected_all [OF assms(1)] by (simp add: settled_def left_graphs_def)
qed

lemma contained_trancl:
  "(x, y) \<in> (contains h)\<^sup>+ \<Longrightarrow> contained h root x \<Longrightarrow> (x, y) \<in> (from_set h {g. contained h root g})\<^sup>+"
proof (induction rule: trancl_induct)
  case (base y)
  then show ?case by (auto simp: from_set_def)
next
  case (step y z)
  then have "contained h root y" by (auto simp: contained_rtrancl)
  with step show ?case by (auto simp: from_set_def intro: trancl_into_trancl)
qed

lemma collected_cycle:
  assumes "\<not> c_truncated (collect_structure h root)"
  shows "c_cycle (collect_structure h root) =
    (\<exists>g. contained h root g \<and> (g, g) \<in> (contains h)\<^sup>+)"
proof
  assume "c_cycle (collect_structure h root)"
  then show "\<exists>g. contained h root g \<and> (g, g) \<in> (contains h)\<^sup>+"
    using descend_cycle(1) [of h "[]" root nothing_collected] unfolding collect_structure_def by auto
next
  assume "\<exists>g. contained h root g \<and> (g, g) \<in> (contains h)\<^sup>+"
  then show "c_cycle (collect_structure h root)"
    using collected_acyclic [OF assms] contained_trancl unfolding acyclic_def by blast
qed

section \<open>The containment depth\<close>

text \<open>A chain of nested graphs, each a child of the one before it.\<close>

fun nested :: "(nat \<times> nat list) list \<Rightarrow> nat list \<Rightarrow> bool" where
  "nested adj [] = False"
| "nested adj [g] = True"
| "nested adj (g # c # gs) = (c \<in> set (children_in adj g) \<and> nested adj (c # gs))"

definition depth_is :: "(nat \<times> nat list) list \<Rightarrow> nat \<Rightarrow> nat \<Rightarrow> bool" where
  "depth_is adj g d =
     ((\<exists>gs. nested adj (g # gs) \<and> length (g # gs) = d) \<and>
      (\<forall>gs. nested adj (g # gs) \<longrightarrow> length (g # gs) \<le> d))"

definition depths_ok :: "(nat \<times> nat list) list \<Rightarrow> memo \<Rightarrow> bool" where
  "depths_ok adj m = (\<forall>g d. map_of m g = Some d \<longrightarrow> depth_is adj g d)"

definition deepest_is :: "(nat \<times> nat list) list \<Rightarrow> nat list \<Rightarrow> nat \<Rightarrow> nat \<Rightarrow> bool" where
  "deepest_is adj cs d0 d =
     (d0 \<le> d \<and> (d = d0 \<or> (\<exists>c \<in> set cs. depth_is adj c d)) \<and>
      (\<forall>c \<in> set cs. \<forall>gs. nested adj (c # gs) \<longrightarrow> length (c # gs) \<le> d))"

lemma nested_Cons: "nested adj (g # gs) = (gs = [] \<or> hd gs \<in> set (children_in adj g) \<and> nested adj gs)"
  by (cases gs) auto

lemma depth_is_Suc:
  assumes "deepest_is adj (children_in adj g) 0 d"
  shows "depth_is adj g (Suc d)"
proof -
  have "length (g # gs) \<le> Suc d" if "nested adj (g # gs)" for gs
    using that assms by (cases gs) (auto simp: deepest_is_def)
  moreover have "\<exists>gs. nested adj (g # gs) \<and> length (g # gs) = Suc d"
  proof (cases "d = 0")
    case False
    with assms obtain c gs where "c \<in> set (children_in adj g)" "nested adj (c # gs)" "length (c # gs) = d"
      by (auto simp: deepest_is_def depth_is_def)
    then show ?thesis by (intro exI [of _ "c # gs"]) simp
  qed (auto intro: exI [of _ "[]"])
  ultimately show ?thesis by (simp add: depth_is_def)
qed

lemma deepest_is_Cons:
  "depth_is adj c d1 \<Longrightarrow> deepest_is adj cs (max d0 d1) d \<Longrightarrow> deepest_is adj (c # cs) d0 d"
  unfolding deepest_is_def depth_is_def by (auto simp: max_def split: if_splits) 

text \<open>Enough fuel: more than the graphs of any chain below.\<close>

lemma depth_of_correct:
  "depths_ok adj m \<Longrightarrow> (\<forall>gs. nested adj (g # gs) \<longrightarrow> length (g # gs) \<le> n) \<Longrightarrow>
     \<exists>d m'. depth_of n adj g m = Some (d, m') \<and> depth_is adj g d \<and> depths_ok adj m'"
  "depths_ok adj m \<Longrightarrow> (\<forall>c \<in> set cs. \<forall>gs. nested adj (c # gs) \<longrightarrow> length (c # gs) \<le> n) \<Longrightarrow>
     \<exists>d m'. deepest_child n adj cs d0 m = Some (d, m') \<and> deepest_is adj cs d0 d \<and> depths_ok adj m'"
proof (induction n adj g m and n adj cs d0 m rule: depth_of_deepest_child.induct)
  case (1 adj g m)
  from spec [OF "1.prems"(2), of "[]"] show ?case by simp
next
  case (2 n adj g m)
  show ?case
  proof (cases "map_of m g")
    case None
    have "\<forall>c \<in> set (children_in adj g). \<forall>gs. nested adj (c # gs) \<longrightarrow> length (c # gs) \<le> n"
    proof (intro ballI allI impI)
      fix c gs assume "c \<in> set (children_in adj g)" "nested adj (c # gs)"
      then have "nested adj (g # c # gs)" by simp
      with "2.prems"(2) have "length (g # c # gs) \<le> Suc n" by blast
      then show "length (c # gs) \<le> n" by simp
    qed
    from "2.IH" [OF None "2.prems"(1) this] obtain d m' where
      d: "deepest_child n adj (children_in adj g) 0 m = Some (d, m')"
        "deepest_is adj (children_in adj g) 0 d" "depths_ok adj m'" by blast
    from depth_is_Suc [OF d(2)] d(1,3) None show ?thesis by (auto simp: depths_ok_def)
  qed (use "2.prems"(1) in \<open>auto simp: depths_ok_def\<close>)
next
  case (3 n adj deepest m)
  then show ?case by (simp add: deepest_is_def)
next
  case (4 n adj c cs deepest m)
  from "4.IH"(1) [OF "4.prems"(1)] "4.prems"(2) obtain d1 m1 where
    c: "depth_of n adj c m = Some (d1, m1)" "depth_is adj c d1" "depths_ok adj m1" by auto
  from "4.IH"(2) [OF c(1) refl c(3)] "4.prems"(2) obtain d m' where
    "deepest_child n adj cs (max deepest d1) m1 = Some (d, m')"
    "deepest_is adj cs (max deepest d1) d" "depths_ok adj m'" by auto
  with c deepest_is_Cons [OF c(2)] show ?case by auto
qed

text \<open>Chains of the recorded adjacency of a complete collection without a cycle.\<close>

lemma children_in_collected:
  "collected_wf h s \<Longrightarrow> g \<in> set (c_graphs s) \<Longrightarrow> children_in (c_adjacency s) g = children_of h g"
  by (simp add: collected_wf_def children_in_def)

lemma nested_collected:
  assumes "collected_wf h s" and "set (c_graphs s) = {g. contained h root g}"
    and "acyclic (from_set h {g. contained h root g})"
  shows "nested (c_adjacency s) (g # gs) \<Longrightarrow> contained h root g \<Longrightarrow>
    distinct (g # gs) \<and> set (g # gs) \<subseteq> {g. contained h root g} \<and>
    (\<forall>x \<in> set gs. (g, x) \<in> (from_set h {g. contained h root g})\<^sup>+)"
proof (induction gs arbitrary: g)
  case (Cons c gs)
  have c: "c \<in> set (children_of h g)" "nested (c_adjacency s) (c # gs)"
    using Cons.prems children_in_collected [OF assms(1), of g] assms(2) by auto
  have step: "(g, c) \<in> from_set h {g. contained h root g}"
    using c(1) Cons.prems(2) by (simp add: from_set_def contains_def)
  have "contained h root c" using Cons.prems(2) c(1) by (rule contained_child)
  from Cons.IH [OF c(2) this] have ih: "distinct (c # gs)" "set (c # gs) \<subseteq> {g. contained h root g}"
    "\<forall>x \<in> set gs. (c, x) \<in> (from_set h {g. contained h root g})\<^sup>+" by auto
  have below: "\<forall>x \<in> set (c # gs). (g, x) \<in> (from_set h {g. contained h root g})\<^sup>+"
    using step ih(3) by (auto intro: trancl_into_trancl2)
  then have "g \<notin> set (c # gs)" using assms(3) by (auto simp: acyclic_def)
  with ih below Cons.prems(2) show ?case by auto
qed simp

lemma collected_depth:
  assumes "\<not> c_truncated (collect_structure h root)" and "\<not> c_cycle (collect_structure h root)"
  obtains d where "containment_depth root (collect_structure h root) = Some d"
    and "depth_is (c_adjacency (collect_structure h root)) root d"
proof -
  let ?s = "collect_structure h root"
  have wf: "collected_wf h ?s" by (rule collect_structure_wf)
  have "length (root # gs) \<le> Suc (length (c_graphs ?s))" if "nested (c_adjacency ?s) (root # gs)" for gs
  proof -
    have "distinct (root # gs) \<and> set (root # gs) \<subseteq> {g. contained h root g} \<and>
        (\<forall>x \<in> set gs. (root, x) \<in> (from_set h {g. contained h root g})\<^sup>+)"
      using nested_collected [OF wf collected_all collected_acyclic] assms that contained_root by blast
    then have "card (set (root # gs)) \<le> card (set (c_graphs ?s))" "distinct (root # gs)"
      using collected_all [OF assms(1)] contained_finite [of h root]
      by (auto intro!: card_mono simp del: set_simps)
    then show ?thesis using distinct_card [of "root # gs"] card_length [of "c_graphs ?s"] by simp
  qed
  with depth_of_correct(1) [of "c_adjacency ?s" "[]" root "Suc (length (c_graphs ?s))"]
  show ?thesis by (auto simp: depths_ok_def containment_depth_def intro: that)
qed

text \<open>
  C35: the pass over a bundle's graphs always returns. It stops early exactly when more than 512
  distinct graphs are nested in the root; otherwise it collects each nested graph once and no other,
  and reports recursive containment exactly when some nested graph contains itself.
\<close>

theorem collection_is_exact:
  "c_truncated (collect_structure h root) = (512 < card {g. contained h root g}) \<and>
    (c_truncated (collect_structure h root) \<or>
       distinct (c_graphs (collect_structure h root)) \<and>
       set (c_graphs (collect_structure h root)) = {g. contained h root g} \<and>
       c_cycle (collect_structure h root) = (\<exists>g. contained h root g \<and> (g, g) \<in> (contains h)\<^sup>+))"
  using collected_truncated [of h root] collected_all [of h root] collected_cycle [of h root]
    collect_structure_wf [of h root]
  unfolding collected_wf_def max_graphs_def by blast


end
