(* ===== verification/Structure_Properties.thy ===== *)
theory Structure_Properties
  imports Containment
begin

text \<open>
  What an accepted bundle is: the descriptor \<open>describe_workflow_module\<close> returns satisfies
  every structural rule the engine builds on, its collections are in canonical order, and the
  nesting of its graphs is bounded.
\<close>

section \<open>Well-formed descriptors\<close>

abbreviation node_ids :: "graph_descriptor \<Rightarrow> string list" where
  "node_ids g \<equiv> map nd_id (gd_nodes g)"

abbreviation outcome_ids :: "graph_descriptor \<Rightarrow> string list" where
  "outcome_ids g \<equiv> map ocd_id (gd_outcomes g)"

definition edge_ok :: "graph_descriptor \<Rightarrow> edge_descriptor \<Rightarrow> bool" where
  "edge_ok g e =
     (valid_identifier (ed_id e) \<and> ed_from e \<in> set (node_ids g) \<and> ed_to e \<noteq> [] \<and>
      distinct (ed_to e) \<and> set (ed_to e) \<subseteq> set (node_ids g) \<union> set (outcome_ids g))"

fun node_ok :: "string list \<Rightarrow> node_descriptor \<Rightarrow> bool" where
  "node_ok graph_keys (SubDescriptor i k t d) = (valid_identifier i \<and> k \<in> set graph_keys)"
| "node_ok graph_keys n = valid_identifier (nd_id n)"

definition routers :: "graph_descriptor \<Rightarrow> string \<Rightarrow> edge_descriptor list" where
  "routers g n = filter (\<lambda>e. ed_from e = n) (gd_edges g)"

definition graph_ok :: "string list \<Rightarrow> graph_descriptor \<Rightarrow> bool" where
  "graph_ok graph_keys g =
     (valid_identifier (gd_key g) \<and> gd_title g \<noteq> [] \<and>
      gd_state_fields g \<noteq> [] \<and> sorted_wrt (<) (gd_state_fields g) \<and>
      gd_nodes g \<noteq> [] \<and> length (gd_nodes g) \<le> 256 \<and> sorted_wrt (<) (node_ids g) \<and>
      list_all (node_ok graph_keys) (gd_nodes g) \<and>
      gd_outcomes g \<noteq> [] \<and> length (gd_outcomes g) \<le> 64 \<and> sorted_wrt (<) (outcome_ids g) \<and>
      list_all valid_identifier (outcome_ids g) \<and>
      length (gd_edges g) \<le> 256 \<and> sorted_wrt (<) (map ed_id (gd_edges g)) \<and>
      list_all (edge_ok g) (gd_edges g) \<and>
      set (node_ids g) \<inter> set (outcome_ids g) = {} \<and> gd_entry g \<in> set (node_ids g) \<and>
      list_all (\<lambda>n. length (routers g n) = 1) (node_ids g))"

definition descriptor_ok :: "structure_descriptor \<Rightarrow> bool" where
  "descriptor_ok d =
     (sd_root d \<in> set (map gd_key (sd_graphs d)) \<and> length (sd_graphs d) \<le> 512 \<and>
      sorted_wrt (<) (map gd_key (sd_graphs d)) \<and>
      list_all (graph_ok (map gd_key (sd_graphs d))) (sd_graphs d))"

text \<open>A JavaScript object has each own key once.\<close>

definition heap_wf :: "heap \<Rightarrow> bool" where
  "heap_wf h = (\<forall>a c ps. map_of h a = Some (HObject c ps) \<longrightarrow> distinct (keys ps))"

lemma registry_distinct: "heap_wf h \<Longrightarrow> registry h v = Some ps \<Longrightarrow> distinct (keys ps)"
  by (auto simp: heap_wf_def registry_def object_at_def split: hval.splits option.splits hobj.splits)

section \<open>Sorted registrations\<close>

lemma strictly_sorted_sort: "distinct xs \<Longrightarrow> sorted_wrt (<) (sort (xs :: string list))"
  by (simp add: strict_sorted_iff)

lemma sorted_entries_ids:
  "(\<And>i v. idf (f i v) = i) \<Longrightarrow> map idf (sorted_entries f ps) = sort (keys ps)"
  by (simp add: sorted_entries_def comp_def)

lemma own_member: "distinct (keys ps) \<Longrightarrow> (i, v) \<in> set ps \<Longrightarrow> own ps i = v"
  by (simp add: own_def keys_def)

lemma set_sorted_entries:
  "distinct (keys ps) \<Longrightarrow> set (sorted_entries f ps) = {f i v | i v. (i, v) \<in> set ps}"
proof -
  assume d: "distinct (keys ps)"
  have "(\<exists>j \<in> set (keys ps). x = f j (own ps j)) = (\<exists>i v. x = f i v \<and> (i, v) \<in> set ps)" for x
    using own_member [OF d] by (force simp: keys_def)
  then show ?thesis by (simp add: sorted_entries_def set_eq_iff image_iff)
qed

lemma length_filter_sorted_entries:
  assumes "distinct (keys ps)"
  shows "length (filter P (sorted_entries f ps)) = length (filter (\<lambda>(i, v). P (f i v)) ps)"
proof -
  have "length (filter P (sorted_entries f ps)) =
      length (filter (\<lambda>i. P (f i (own ps i))) (sort (keys ps)))"
    by (simp add: sorted_entries_def filter_map comp_def)
  also have "\<dots> = length (filter (\<lambda>i. P (f i (own ps i))) (keys ps))"
    by (simp add: filter_sort)
  also have "\<dots> = length (filter (\<lambda>(i, v). P (f i v)) ps)"
    using own_member [OF assms]
    by (auto simp: keys_def filter_map comp_def intro!: arg_cong [of _ _ length] filter_cong)
  finally show ?thesis .
qed

section \<open>Edges\<close>

lemma validate_each_destination_Nil:
  "validate_each_destination l ns outs seen ds = [] \<Longrightarrow>
   \<exists>ss. ds = map HStr ss \<and> distinct ss \<and> set ss \<inter> set seen = {} \<and> set ss \<subseteq> set ns \<union> set outs"
proof (induction l ns outs seen ds rule: validate_each_destination.induct)
  case (2 l ns outs seen d ds)
  then obtain ss where "ds = map HStr ss" "distinct ss" "set ss \<inter> set (d # seen) = {}"
    "set ss \<subseteq> set ns \<union> set outs" by (auto split: if_splits)
  with 2 show ?case by (intro exI [of _ "d # ss"]) (auto split: if_splits)
qed auto

lemma distinct_destinations_strings:
  "distinct ss \<Longrightarrow> distinct_destinations (map HStr ss) = ss"
proof -
  have "distinct (acc @ ss) \<Longrightarrow>
      fold (\<lambda>d to. if text_of d \<in> set to then to else to @ [text_of d]) (map HStr ss) acc = acc @ ss" for acc
    by (induction ss arbitrary: acc) auto
  then show "distinct ss \<Longrightarrow> ?thesis" by (simp add: distinct_destinations_def)
qed

lemma validate_destinations_Nil:
  assumes "validate_destinations h l ns outs to = []"
  obtains ss where "array_at h to = Some (map HStr ss)" and "ss \<noteq> []" and "distinct ss"
    and "set ss \<subseteq> set ns \<union> set outs"
proof -
  obtain ds where ds: "array_at h to = Some ds" "ds \<noteq> []" "validate_each_destination l ns outs [] ds = []"
    using assms by (auto simp: validate_destinations_def split: option.splits list.splits)
  with validate_each_destination_Nil [OF ds(3)] show ?thesis by (auto intro: that)
qed

definition owners :: "heap \<Rightarrow> (string \<times> hval) list \<Rightarrow> string \<Rightarrow> string list" where
  "owners h es f = map fst (filter (\<lambda>(i, v). is_branded h v ''edge'' \<and> member h v ''from'' = HStr f) es)"

lemma edge_sources_owners:
  "f \<in> set ns \<Longrightarrow> map_of (edge_sources h ns es src) f =
     (case map_of src f of
        None \<Rightarrow> (if owners h es f = [] then None else Some (owners h es f))
      | Some ws \<Rightarrow> Some (ws @ owners h es f))"
proof (induction h ns es src rule: edge_sources.induct)
  case (2 h ns i v es src)
  then show ?case
    by (cases "member h v ''from''")
       (auto simp: owners_def add_source_def split: option.splits if_splits)
qed (simp add: owners_def split: option.split)

lemma one_router:
  assumes "validate_edges h l ns outs edges = []" and "registry h edges = Some ps" and "f \<in> set ns"
  shows "length (owners h ps f) = 1"
proof -
  let ?src = "edge_sources h ns ps []"
  have "f \<in> set (keys ?src)" and few: "\<forall>(g, ws) \<in> set ?src. length ws \<le> 1"
    using assms by (auto simp: validate_edges_def Let_def concat_eq_Nil_conv)
  then obtain ws where ws: "map_of ?src f = Some ws"
    by (metis map_of_eq_None_keys option.exhaust)
  then have "owners h ps f \<noteq> []" "ws = owners h ps f"
    using edge_sources_owners [OF assms(3), of h ps "[]"] by (auto split: if_splits)
  moreover have "length ws \<le> 1" using few map_of_SomeD [OF ws] by auto
  ultimately show ?thesis by (metis One_nat_def Suc_leI le_antisym length_greater_0_conv)
qed

section \<open>One accepted graph\<close>

text \<open>What the checks on a graph's collections leave, read off the heap.\<close>

lemma validate_nodes_Nil:
  assumes "fst (validate_nodes h l v) = []"
  obtains ps where "registry h v = Some ps" and "ps \<noteq> []" and "snd (validate_nodes h l v) = keys ps"
    and "\<forall>(i, v) \<in> set ps. valid_identifier i \<and> validate_node h (at_node_of l i) v = []"
  using assms by (cases "registry h v") (force simp: validate_nodes_def)+

lemma validate_outcomes_Nil:
  assumes "fst (validate_outcomes h l v) = []"
  obtains ps where "registry h v = Some ps" and "ps \<noteq> []" and "snd (validate_outcomes h l v) = keys ps"
    and "\<forall>(i, v) \<in> set ps. valid_identifier i"
  using assms by (cases "registry h v") (force simp: validate_outcomes_def)+

lemma validate_state_Nil:
  assumes "validate_state h l v = []"
  obtains ps where "registry h v = Some ps" and "ps \<noteq> []"
  using assms by (cases "registry h v") (auto simp: validate_state_def)

lemma validate_edges_Nil:
  assumes "validate_edges h l ns outs v = []"
  obtains ps where "registry h v = Some ps"
    and "\<forall>(i, e) \<in> set ps. is_branded h e ''edge'' \<and> validate_edge h l ns outs i e = []"
  using assms by (cases "registry h v")
    (force simp: validate_edges_def validate_edge_def Let_def split: if_splits)+

lemma validate_edge_Nil:
  assumes "validate_edge h l ns outs i e = []" and "is_branded h e ''edge''"
  shows "valid_identifier i" and "\<exists>f \<in> set ns. member h e ''from'' = HStr f"
    and "ed_to (describe_edge h i e) \<noteq> []" and "distinct (ed_to (describe_edge h i e))"
    and "set (ed_to (describe_edge h i e)) \<subseteq> set ns \<union> set outs"
proof -
  show "valid_identifier i" using assms(1) by (simp add: validate_edge_def)
  show "\<exists>f \<in> set ns. member h e ''from'' = HStr f"
    using assms by (cases "member h e ''from''") (auto simp: validate_edge_def)
  have "validate_destinations h (at_edge_of l i) ns outs (member h e ''to'') = []"
    using assms by (simp add: validate_edge_def)
  then obtain ss where "array_at h (member h e ''to'') = Some (map HStr ss)" "ss \<noteq> []" "distinct ss"
    "set ss \<subseteq> set ns \<union> set outs" by (rule validate_destinations_Nil)
  then show "ed_to (describe_edge h i e) \<noteq> []" "distinct (ed_to (describe_edge h i e))"
    "set (ed_to (describe_edge h i e)) \<subseteq> set ns \<union> set outs"
    by (simp_all add: describe_edge_def distinct_destinations_strings)
qed

lemma over_limit_registry: "registry h v = Some ps \<Longrightarrow> \<not> over_limit h v n \<Longrightarrow> length ps \<le> n"
  by (simp add: over_limit_def keys_def)

lemma limit_diagnostics_Nil:
  "(limit_diagnostics h g = []) =
     (\<not> over_limit h (member h (HRef g) ''nodes'') max_nodes \<and>
      \<not> over_limit h (member h (HRef g) ''edges'') max_edges \<and>
      \<not> over_limit h (member h (HRef g) ''outcomes'') max_outcomes)"
  by (auto simp: limit_diagnostics_def)

lemma subgraph_is_child:
  assumes "registry h (member h (HRef g) ''nodes'') = Some ps" and "distinct (keys ps)"
    and "\<not> over_limit h (member h (HRef g) ''nodes'') max_nodes" and "(i, node) \<in> set ps"
    and "is_branded h node ''subgraph-node''" and "is_branded h (member h node ''graph'') ''graph''"
  obtains c where "member h node ''graph'' = HRef c" and "c \<in> set (children_of h g)"
proof -
  from assms(6) obtain c where c: "member h node ''graph'' = HRef c"
    by (cases "member h node ''graph''") (auto simp: is_branded_def is_object_def object_at_def)
  with assms have "child_at h ps i = Some c" by (simp add: child_at_def own_member)
  moreover have "i \<in> set (keys ps)" using assms(4) by (force simp: keys_def)
  ultimately have "c \<in> set (children_of h g)"
    using assms(1,3) by (force simp: children_of_def child_graphs_of_def List.map_filter_def)
  with c show ?thesis by (rule that)
qed

lemma describe_node_ok:
  assumes "valid_identifier i" and "validate_node h l node = []"
    and "\<And>c. is_branded h node ''subgraph-node'' \<Longrightarrow> member h node ''graph'' = HRef c \<Longrightarrow>
           text_of (member h (HRef c) ''key'') \<in> set graph_keys"
  shows "node_ok graph_keys (describe_node h i node)"
proof (cases "member h node ''isagiKind'' = HStr ''subgraph-node''")
  case True
  with assms(2) have sub: "is_branded h node ''subgraph-node''" "is_branded h (member h node ''graph'') ''graph''"
    by (auto simp: validate_node_def is_branded_def split: if_splits)
  then obtain c where "member h node ''graph'' = HRef c"
    by (cases "member h node ''graph''") (auto simp: is_branded_def is_object_def object_at_def)
  with assms sub True show ?thesis by (simp add: describe_node_def)
qed (use assms(1) in \<open>simp add: describe_node_def Let_def\<close>)

lemma describe_ids [simp]:
  "nd_id (describe_node h i v) = i" "ed_id (describe_edge h i v) = i" "ocd_id (describe_outcome h i v) = i"
  by (simp_all add: describe_node_def describe_edge_def describe_outcome_def Let_def)

lemma describe_collections:
  "registry h (member h (HRef g) ''state'') = Some fs \<Longrightarrow> gd_state_fields (describe_graph h g) = sort (keys fs)"
  "registry h (member h (HRef g) ''nodes'') = Some ps \<Longrightarrow>
     gd_nodes (describe_graph h g) = sorted_entries (describe_node h) ps"
  "registry h (member h (HRef g) ''edges'') = Some es \<Longrightarrow>
     gd_edges (describe_graph h g) = sorted_entries (describe_edge h) es"
  "registry h (member h (HRef g) ''outcomes'') = Some out \<Longrightarrow>
     gd_outcomes (describe_graph h g) = sorted_entries (describe_outcome h) out"
  by (simp_all add: describe_graph_def entries_of_def Let_def)

lemma describe_graph_header:
  assumes "validate_header h g = []"
  shows "valid_identifier (gd_key (describe_graph h g))" and "gd_title (describe_graph h g) \<noteq> []"
    and "key_of h g = Some (gd_key (describe_graph h g))"
  using assms
  by (auto simp: validate_header_def describe_graph_def key_of_def Let_def split: hval.splits option.splits)

lemma length_sorted_entries [simp]: "length (sorted_entries f ps) = length ps"
  by (simp add: sorted_entries_def keys_def)

text \<open>Everything the checks of one graph leave about its four collections.\<close>

lemma accepted_collections:
  assumes ok: "validate_graph h g = []" and limits: "limit_diagnostics h g = []"
  obtains ps out fs es where "validate_header h g = []"
    and "registry h (member h (HRef g) ''nodes'') = Some ps" and "ps \<noteq> []"
    and "\<forall>(i, v) \<in> set ps. valid_identifier i \<and> validate_node h (at_node_of (in_graph h g) i) v = []"
    and "registry h (member h (HRef g) ''outcomes'') = Some out" and "out \<noteq> []"
    and "\<forall>(i, v) \<in> set out. valid_identifier i"
    and "registry h (member h (HRef g) ''state'') = Some fs" and "fs \<noteq> []"
    and "registry h (member h (HRef g) ''edges'') = Some es"
    and "\<forall>(i, e) \<in> set es. is_branded h e ''edge'' \<and>
           validate_edge h (in_graph h g) (keys ps) (keys out) i e = []"
    and "set (keys ps) \<inter> set (keys out) = {}"
    and "validate_entry (in_graph h g) (keys ps) (keys out) (member h (HRef g) ''entry'') = []"
    and "validate_edges h (in_graph h g) (keys ps) (keys out) (member h (HRef g) ''edges'') = []"
proof -
  let ?l = "in_graph h g"
  let ?nodes = "validate_nodes h ?l (member h (HRef g) ''nodes'')"
  let ?outs = "validate_outcomes h ?l (member h (HRef g) ''outcomes'')"
  have parts: "validate_header h g = []" "validate_state h ?l (member h (HRef g) ''state'') = []"
    "fst ?nodes = []" "fst ?outs = []" "\<forall>i \<in> set (snd ?nodes). i \<notin> set (snd ?outs)"
    "validate_entry ?l (snd ?nodes) (snd ?outs) (member h (HRef g) ''entry'') = []"
    "validate_edges h ?l (snd ?nodes) (snd ?outs) (member h (HRef g) ''edges'') = []"
    using ok limits by (auto simp: validate_graph_def limit_diagnostics_Nil Let_def filter_empty_conv)
  obtain ps where ps: "registry h (member h (HRef g) ''nodes'') = Some ps" "ps \<noteq> []" "snd ?nodes = keys ps"
    "\<forall>(i, v) \<in> set ps. valid_identifier i \<and> validate_node h (at_node_of ?l i) v = []"
    by (rule validate_nodes_Nil [OF parts(3)])
  obtain out where out: "registry h (member h (HRef g) ''outcomes'') = Some out" "out \<noteq> []"
    "snd ?outs = keys out" "\<forall>(i, v) \<in> set out. valid_identifier i"
    by (rule validate_outcomes_Nil [OF parts(4)])
  obtain fs where fs: "registry h (member h (HRef g) ''state'') = Some fs" "fs \<noteq> []"
    by (rule validate_state_Nil [OF parts(2)])
  obtain es where es: "registry h (member h (HRef g) ''edges'') = Some es"
    "\<forall>(i, e) \<in> set es. is_branded h e ''edge'' \<and> validate_edge h ?l (keys ps) (keys out) i e = []"
    by (rule validate_edges_Nil [OF parts(7) [unfolded ps(3) out(3)]])
  show ?thesis
    using that [OF parts(1) ps(1,2,4) out(1,2,4) fs es] parts(5-7) unfolding ps(3) out(3) by blast
qed

lemma sort_keys_Nil [simp]: "(sort (keys ps) = []) = (ps = [])"
  for ps :: "(string \<times> hval) list"
  by (metis keys_def length_0_conv length_map length_sort)

lemma describe_graph_ok:
  assumes wf: "heap_wf h" and limits: "limit_diagnostics h g = []" and ok: "validate_graph h g = []"
    and below: "\<And>c. c \<in> set (children_of h g) \<Longrightarrow> text_of (member h (HRef c) ''key'') \<in> set graph_keys"
  shows "graph_ok graph_keys (describe_graph h g)"
proof -
  let ?d = "describe_graph h g"
  from ok limits obtain ps out fs es where header: "validate_header h g = []"
    and ps: "registry h (member h (HRef g) ''nodes'') = Some ps" "ps \<noteq> []"
      "\<forall>(i, v) \<in> set ps. valid_identifier i \<and> validate_node h (at_node_of (in_graph h g) i) v = []"
    and out: "registry h (member h (HRef g) ''outcomes'') = Some out" "out \<noteq> []"
      "\<forall>(i, v) \<in> set out. valid_identifier i"
    and fs: "registry h (member h (HRef g) ''state'') = Some fs" "fs \<noteq> []"
    and es: "registry h (member h (HRef g) ''edges'') = Some es"
      "\<forall>(i, e) \<in> set es. is_branded h e ''edge'' \<and>
         validate_edge h (in_graph h g) (keys ps) (keys out) i e = []"
    and apart: "set (keys ps) \<inter> set (keys out) = {}"
    and ent: "validate_entry (in_graph h g) (keys ps) (keys out) (member h (HRef g) ''entry'') = []"
    and eds: "validate_edges h (in_graph h g) (keys ps) (keys out) (member h (HRef g) ''edges'') = []"
    by (rule accepted_collections)
  have d: "distinct (keys ps)" "distinct (keys out)" "distinct (keys fs)" "distinct (keys es)"
    using registry_distinct [OF wf] ps(1) out(1) fs(1) es(1) by blast+
  have coll: "gd_state_fields ?d = sort (keys fs)" "gd_nodes ?d = sorted_entries (describe_node h) ps"
    "gd_edges ?d = sorted_entries (describe_edge h) es" "gd_outcomes ?d = sorted_entries (describe_outcome h) out"
    using describe_collections fs(1) ps(1) es(1) out(1) by blast+
  have ids: "node_ids ?d = sort (keys ps)" "outcome_ids ?d = sort (keys out)"
    "map ed_id (gd_edges ?d) = sort (keys es)"
    unfolding coll by (rule sorted_entries_ids, simp)+
  have sizes: "length (gd_nodes ?d) \<le> 256" "length (gd_edges ?d) \<le> 256" "length (gd_outcomes ?d) \<le> 64"
    using limits over_limit_registry [OF ps(1)] over_limit_registry [OF es(1)] over_limit_registry [OF out(1)]
    by (simp_all add: limit_diagnostics_Nil coll max_nodes_def max_edges_def max_outcomes_def)
  have nodes: "list_all (node_ok graph_keys) (gd_nodes ?d)"
  proof (unfold list_all_iff coll set_sorted_entries [OF d(1)], safe)
    fix i node assume node: "(i, node) \<in> set ps"
    show "node_ok graph_keys (describe_node h i node)"
    proof (rule describe_node_ok)
      fix c assume sub: "is_branded h node ''subgraph-node''" "member h node ''graph'' = HRef c"
      have "is_branded h (member h node ''graph'') ''graph''"
        using bspec [OF ps(3) node] sub(1) by (auto simp: validate_node_def is_branded_def split: if_splits)
      from subgraph_is_child [OF ps(1) d(1) _ node sub(1) this] limits sub(2)
      show "text_of (member h (HRef c) ''key'') \<in> set graph_keys"
        by (auto simp: limit_diagnostics_Nil intro: below)
    qed (use bspec [OF ps(3) node] in auto)
  qed
  have edges: "list_all (edge_ok ?d) (gd_edges ?d)"
  proof (unfold list_all_iff coll(3) set_sorted_entries [OF d(4)], safe)
    fix i e assume e: "(i, e) \<in> set es"
    have b: "is_branded h e ''edge''" and v: "validate_edge h (in_graph h g) (keys ps) (keys out) i e = []"
      using bspec [OF es(2) e] by auto
    from validate_edge_Nil [OF v b] show "edge_ok ?d (describe_edge h i e)"
      by (auto simp: edge_ok_def ids describe_edge_def)
  qed
  have routed: "length (routers ?d n) = 1" if "n \<in> set (node_ids ?d)" for n
  proof -
    have "length (owners h es n) = 1"
      using one_router [OF eds es(1)] that unfolding ids by simp
    moreover have "(case r of (i, v) \<Rightarrow> ed_from (describe_edge h i v) = n) =
        (case r of (i, v) \<Rightarrow> is_branded h v ''edge'' \<and> member h v ''from'' = HStr n)" if "r \<in> set es" for r
      using that bspec [OF es(2) that] validate_edge_Nil(2) [of h "in_graph h g" "keys ps" "keys out" "fst r" "snd r"]
      by (auto simp: describe_edge_def split: prod.split)
    ultimately show ?thesis
      unfolding routers_def coll length_filter_sorted_entries [OF d(4)] owners_def
      by (simp cong: filter_cong)
  qed
  have entry: "gd_entry ?d \<in> set (node_ids ?d)"
    using ent unfolding ids
    by (cases "member h (HRef g) ''entry''") (auto simp: validate_entry_def describe_graph_def Let_def split: if_splits)
  have "list_all valid_identifier (outcome_ids ?d)"
    unfolding ids using out(3) by (auto simp: list_all_iff keys_def)
  moreover have "set (node_ids ?d) \<inter> set (outcome_ids ?d) = {}"
    using apart unfolding ids by simp
  moreover have "gd_state_fields ?d \<noteq> []" "gd_nodes ?d \<noteq> []" "gd_outcomes ?d \<noteq> []"
    using fs(2) ps(2) out(2) unfolding coll by (simp_all add: sorted_entries_def)
  ultimately show ?thesis
    using describe_graph_header(1,2) [OF header] sizes nodes edges entry routed
      strictly_sorted_sort [OF d(1)] strictly_sorted_sort [OF d(2)] strictly_sorted_sort [OF d(3)]
      strictly_sorted_sort [OF d(4)]
    unfolding graph_ok_def ids coll(1) by (simp add: list_all_iff)
qed

section \<open>Accepted bundles\<close>

lemma describe_accepted:
  assumes "describe_workflow_module h namespace = Inr d"
  obtains root where "is_branded h (HRef root) ''graph''"
    and "structure_diagnostics h root (collect_structure h root) = []"
    and "d = structure_of h root (collect_structure h root)"
  using assms by (auto simp: describe_workflow_module_def Let_def split: if_splits hval.splits option.splits)

lemma accepted_collection:
  assumes "structure_diagnostics h root (collect_structure h root) = []"
  defines "s \<equiv> collect_structure h root"
  shows "\<not> c_truncated s" and "\<not> c_cycle s" and "set (c_graphs s) = {g. contained h root g}"
    and "distinct (c_graphs s)" and "length (c_graphs s) \<le> 512"
    and "\<And>g. g \<in> set (c_graphs s) \<Longrightarrow> limit_diagnostics h g = [] \<and> validate_graph h g = []"
    and "\<And>g k. g \<in> set (c_graphs s) \<Longrightarrow> key_of h g = Some k \<Longrightarrow> map_of (c_by_key s) k = Some g"
proof -
  have found: "c_diagnostics s = []" "\<And>g. g \<in> set (c_graphs s) \<Longrightarrow> validate_graph h g = []"
    using assms by (auto simp: structure_diagnostics_def)
  with collect_structure_clean [of h root] show "\<not> c_truncated s" "\<not> c_cycle s"
    "\<And>g. g \<in> set (c_graphs s) \<Longrightarrow> limit_diagnostics h g = [] \<and> validate_graph h g = []"
    "\<And>g k. g \<in> set (c_graphs s) \<Longrightarrow> key_of h g = Some k \<Longrightarrow> map_of (c_by_key s) k = Some g"
    by (auto simp: clean_def s_def)
  then show "set (c_graphs s) = {g. contained h root g}" by (simp add: collected_all s_def)
  show "distinct (c_graphs s)" "length (c_graphs s) \<le> 512"
    using collect_structure_wf [of h root] by (simp_all add: collected_wf_def max_graphs_def s_def)
qed

lemma accepted_key:
  assumes "structure_diagnostics h root (collect_structure h root) = []" and "contained h root g"
  shows "key_of h g = Some (gd_key (describe_graph h g))"
  using accepted_collection(3,6) [OF assms(1)] assms(2)
  by (intro describe_graph_header(3)) (auto simp: validate_graph_def)

lemma accepted_key_inj:
  assumes "structure_diagnostics h root (collect_structure h root) = []"
    and "contained h root g" and "contained h root g'"
    and "gd_key (describe_graph h g) = gd_key (describe_graph h g')"
  shows "g = g'"
proof -
  let ?keyed = "map_of (c_by_key (collect_structure h root))"
  have "?keyed (gd_key (describe_graph h x)) = Some x" if "contained h root x" for x
  proof (rule accepted_collection(7) [OF assms(1) _ accepted_key [OF assms(1) that]])
    show "x \<in> set (c_graphs (collect_structure h root))"
      using that unfolding accepted_collection(3) [OF assms(1)] by simp
  qed
  from this [OF assms(2)] this [OF assms(3)] show ?thesis unfolding assms(4) by simp
qed

lemma distinct_map_sort_key: "distinct (map f xs) \<Longrightarrow> distinct (map f (sort_key f xs))"
  by (simp add: distinct_map)

lemma accepted_keys:
  assumes "structure_diagnostics h root (collect_structure h root) = []"
  shows "set (map gd_key (sd_graphs (structure_of h root (collect_structure h root)))) =
      (\<lambda>g. gd_key (describe_graph h g)) ` {g. contained h root g}"
    and "sorted_wrt (<) (map gd_key (sd_graphs (structure_of h root (collect_structure h root))))"
proof -
  let ?gs = "c_graphs (collect_structure h root)"
  have "inj_on (\<lambda>g. gd_key (describe_graph h g)) (set ?gs)"
    using accepted_key_inj [OF assms] accepted_collection(3) [OF assms] by (auto intro: inj_onI)
  then have "distinct (map (\<lambda>g. gd_key (describe_graph h g)) ?gs)"
    using accepted_collection(4) [OF assms] by (simp add: distinct_map)
  then have "distinct (map gd_key (sort_key gd_key (map (describe_graph h) ?gs)))"
    by (intro distinct_map_sort_key) (simp add: comp_def)
  then show "sorted_wrt (<) (map gd_key (sd_graphs (structure_of h root (collect_structure h root))))"
    by (simp add: structure_of_def strict_sorted_iff)
qed (use accepted_collection(3) [OF assms] in \<open>auto simp: structure_of_def\<close>)

text \<open>
  C33: a bundle that passes inspection satisfies every structural rule: its graph keys are distinct
  identifiers, every graph has an entry that is one of its nodes, exactly one router for every node,
  destinations that are nodes or outcomes of the same graph and never both, every subgraph node names
  a graph of the descriptor, the resource limits hold, and every collection is in canonical order.
\<close>

theorem accepted_structure_is_well_formed:
  assumes "heap_wf h" and "describe_workflow_module h namespace = Inr d"
  shows "descriptor_ok d"
proof -
  from assms(2) obtain root where ok: "structure_diagnostics h root (collect_structure h root) = []"
    and d: "d = structure_of h root (collect_structure h root)" by (rule describe_accepted)
  note keys = accepted_keys [OF ok, folded d]
  have key: "text_of (member h (HRef g) ''key'') \<in> set (map gd_key (sd_graphs d))" if "contained h root g" for g
    unfolding keys(1) using that by (auto simp: describe_graph_def Let_def)
  have "graph_ok (map gd_key (sd_graphs d)) (describe_graph h g)" if "contained h root g" for g
  proof (rule describe_graph_ok [OF assms(1)])
    show "limit_diagnostics h g = []" "validate_graph h g = []"
      using accepted_collection(3,6) [OF ok] that by auto
  qed (use that in \<open>auto intro: key contained_child simp del: set_map\<close>)
  moreover have "set (sd_graphs d) = describe_graph h ` {g. contained h root g}"
    using accepted_collection(3) [OF ok] by (simp add: d structure_of_def)
  moreover have "length (sd_graphs d) \<le> 512" using accepted_collection(5) [OF ok] by (simp add: d structure_of_def)
  ultimately show ?thesis
    using keys(2) key [OF contained_root] by (auto simp: descriptor_ok_def list_all_iff d structure_of_def)
qed

section \<open>The depth of accepted bundles\<close>

fun subgraph_key :: "node_descriptor \<Rightarrow> string option" where
  "subgraph_key (SubDescriptor i k t d) = Some k"
| "subgraph_key _ = None"

definition subgraph_keys :: "structure_descriptor \<Rightarrow> string \<Rightarrow> string list" where
  "subgraph_keys d k =
     concat (map (\<lambda>g. List.map_filter subgraph_key (gd_nodes g)) (filter (\<lambda>g. gd_key g = k) (sd_graphs d)))"

lemma subgraph_keys_member:
  assumes "k \<in> set (subgraph_keys d j)"
  obtains g n where "g \<in> set (sd_graphs d)" and "gd_key g = j" and "n \<in> set (gd_nodes g)"
    and "subgraph_key n = Some k"
proof -
  from assms obtain g where g: "g \<in> set (sd_graphs d)" "gd_key g = j"
    "k \<in> set (List.map_filter subgraph_key (gd_nodes g))"
    by (auto simp: subgraph_keys_def)
  from g(3) obtain n where "n \<in> set (gd_nodes g)" "subgraph_key n = Some k"
    unfolding List.map_filter_def by auto
  with g(1,2) show ?thesis by (rule that)
qed

text \<open>A chain of graph keys, each named by a subgraph node of the graph before it.\<close>

fun key_chain :: "structure_descriptor \<Rightarrow> string list \<Rightarrow> bool" where
  "key_chain d [] = False"
| "key_chain d [k] = True"
| "key_chain d (k # k' # ks) = (k' \<in> set (subgraph_keys d k) \<and> key_chain d (k' # ks))"

lemma described_child:
  assumes wf: "heap_wf h" and ok: "validate_graph h g = []" and limits: "limit_diagnostics h g = []"
    and n: "n \<in> set (gd_nodes (describe_graph h g))" and k: "subgraph_key n = Some k"
  obtains c where "c \<in> set (children_of h g)" and "k = text_of (member h (HRef c) ''key'')"
proof -
  from ok limits obtain ps out fs es where
    ps: "registry h (member h (HRef g) ''nodes'') = Some ps" 
      "\<forall>(i, v) \<in> set ps. valid_identifier i \<and> validate_node h (at_node_of (in_graph h g) i) v = []"
    by (rule accepted_collections)
  have dist: "distinct (keys ps)" using registry_distinct [OF wf ps(1)] .
  obtain i v where v: "(i, v) \<in> set ps" "n = describe_node h i v"
    using n unfolding describe_collections(2) [OF ps(1)] set_sorted_entries [OF dist] by blast
  have sub: "member h v ''isagiKind'' = HStr ''subgraph-node''" "k = text_of (member h (member h v ''graph'') ''key'')"
    using k unfolding v(2) by (auto simp: describe_node_def Let_def split: if_splits)
  with bspec [OF ps(2) v(1)] have "is_branded h v ''subgraph-node''" "is_branded h (member h v ''graph'') ''graph''"
    by (auto simp: validate_node_def is_branded_def split: if_splits)
  then obtain c where "member h v ''graph'' = HRef c" "c \<in> set (children_of h g)"
    using limits subgraph_is_child [OF ps(1) dist _ v(1)] unfolding limit_diagnostics_Nil by blast
  with sub(2) show ?thesis by (simp add: that)
qed

lemma key_chain_nested:
  assumes wf: "heap_wf h" and ok: "structure_diagnostics h root (collect_structure h root) = []"
  defines "d \<equiv> structure_of h root (collect_structure h root)"
  shows "key_chain d (gd_key (describe_graph h g) # ks) \<Longrightarrow> contained h root g \<Longrightarrow>
    \<exists>gs. nested (c_adjacency (collect_structure h root)) (g # gs) \<and> length gs = length ks"
proof (induction ks arbitrary: g)
  case Nil
  show ?case by (rule exI [of _ "[]"]) simp
next
  case (Cons k ks)
  have graphs: "set (sd_graphs d) = describe_graph h ` {g. contained h root g}"
    using accepted_collection(3) [OF ok] by (simp add: d_def structure_of_def)
  from Cons.prems(1) have "k \<in> set (subgraph_keys d (gd_key (describe_graph h g)))" by simp
  then obtain dg n where "dg \<in> set (sd_graphs d)" "gd_key dg = gd_key (describe_graph h g)"
    "n \<in> set (gd_nodes dg)" "subgraph_key n = Some k"
    by (rule subgraph_keys_member)
  moreover from this(1) obtain g' where "dg = describe_graph h g'" "contained h root g'"
    unfolding graphs by blast
  moreover from calculation have "g' = g"
    by (intro accepted_key_inj [OF ok _ Cons.prems(2)]) simp_all
  ultimately have n: "n \<in> set (gd_nodes (describe_graph h g))" "subgraph_key n = Some k"
    by simp_all
  have g: "validate_graph h g = []" "limit_diagnostics h g = []"
    using accepted_collection(3,6) [OF ok] Cons.prems(2) by auto
  obtain c where c: "c \<in> set (children_of h g)" "k = text_of (member h (HRef c) ''key'')"
    by (rule described_child [OF wf g n])
  have cont: "contained h root c" using Cons.prems(2) c(1) by (rule contained_child)
  have "key_chain d (gd_key (describe_graph h c) # ks)"
    using Cons.prems(1) c(2) by (simp add: describe_graph_def Let_def)
  from Cons.IH [OF this cont] obtain gs where
    "nested (c_adjacency (collect_structure h root)) (c # gs)" "length gs = length ks" by blast
  with c(1) children_in_collected [OF collect_structure_wf] accepted_collection(3) [OF ok] Cons.prems(2)
  show ?case by (intro exI [of _ "c # gs"]) simp
qed

text \<open>
  C34: an accepted bundle nests at most 64 graphs, counted from the root: no chain of subgraph nodes is
  longer, whichever branch it takes and however often graphs are shared. In particular no graph
  contains itself.
\<close>

theorem accepted_nesting_is_bounded:
  assumes "heap_wf h" and "describe_workflow_module h namespace = Inr d"
    and "key_chain d (sd_root d # ks)"
  shows "length (sd_root d # ks) \<le> 64"
proof -
  from assms(2) obtain root where ok: "structure_diagnostics h root (collect_structure h root) = []"
    and d: "d = structure_of h root (collect_structure h root)" by (rule describe_accepted)
  obtain n where n: "containment_depth root (collect_structure h root) = Some n"
    "depth_is (c_adjacency (collect_structure h root)) root n"
    using collected_depth accepted_collection(1,2) [OF ok] by blast
  have "n \<le> 64"
    using ok n(1) accepted_collection(1,2) [OF ok]
    by (simp add: structure_diagnostics_def validate_containment_depth_def max_depth_def)
  moreover have "sd_root d = gd_key (describe_graph h root)"
    by (simp add: d structure_of_def describe_graph_def Let_def)
  then obtain gs where "nested (c_adjacency (collect_structure h root)) (root # gs)" "length gs = length ks"
    using key_chain_nested [OF assms(1) ok _ contained_root] assms(3) unfolding d by metis
  then have "length (root # gs) \<le> n" using n(2) by (auto simp: depth_is_def)
  ultimately show ?thesis using \<open>length gs = length ks\<close> by simp
qed

section \<open>A bundle\<close>

text \<open>A root graph whose one node enters a nested graph of one operation.\<close>

definition branded :: "string \<Rightarrow> (string \<times> hval) list \<Rightarrow> hobj" where
  "branded kind ps =
     HObject PlainProto ((''isagiContract'', HNum (Finite 5)) # (''isagiKind'', HStr kind) # ps)"

definition bundle_heap :: heap where
  "bundle_heap =
    [(0, HObject PlainProto [(''default'', HRef 1)]),
     (1, branded ''workflow'' [(''command'', HRef 2), (''parse'', HRef 2), (''graph'', HRef 3)]),
     (2, HFunction),
     (3, branded ''graph'' [(''key'', HStr ''outer''), (''title'', HStr ''Outer''), (''init'', HRef 2),
           (''state'', HRef 4), (''nodes'', HRef 5), (''edges'', HRef 6), (''outcomes'', HRef 7),
           (''entry'', HStr ''enter'')]),
     (4, HObject PlainProto [(''n'', HRef 8)]),
     (5, HObject PlainProto [(''enter'', HRef 9)]),
     (6, HObject PlainProto [(''leave'', HRef 10)]),
     (7, HObject PlainProto [(''ok'', HRef 11)]),
     (8, branded ''state-field'' [(''reduce'', HRef 2)]),
     (9, branded ''subgraph-node'' [(''parameters'', HRef 2), (''onResult'', HRef 2), (''graph'', HRef 13)]),
     (10, branded ''edge'' [(''from'', HStr ''enter''), (''to'', HRef 12), (''choose'', HRef 2)]),
     (11, branded ''outcome'' [(''kind'', HStr ''success''), (''output'', HRef 2)]),
     (12, HArray [HStr ''ok'']),
     (13, branded ''graph'' [(''key'', HStr ''inner''), (''title'', HStr ''Inner''), (''init'', HRef 2),
           (''state'', HRef 4), (''nodes'', HRef 14), (''edges'', HRef 15), (''outcomes'', HRef 7),
           (''entry'', HStr ''ask'')]),
     (14, HObject PlainProto [(''ask'', HRef 16)]),
     (15, HObject PlainProto [(''asked'', HRef 17)]),
     (16, branded ''operation-node'' [(''run'', HRef 2)]),
     (17, branded ''edge'' [(''from'', HStr ''ask''), (''to'', HRef 12), (''choose'', HRef 2)])]"

definition bundle_structure :: structure_descriptor where
  "bundle_structure = structure_of bundle_heap 3 (collect_structure bundle_heap 3)"

lemma bundle_accepted: "describe_workflow_module bundle_heap (HRef 0) = Inr bundle_structure"
  by code_simp

lemma bundle_wf: "heap_wf bundle_heap"
proof -
  have "list_all (\<lambda>(a, ob). case ob of HObject c ps \<Rightarrow> distinct (keys ps) | _ \<Rightarrow> True) bundle_heap"
    by code_simp
  then show ?thesis by (auto simp: heap_wf_def list_all_iff dest!: map_of_SomeD)
qed

lemma accepted_structure_is_well_formed_witness:
  "descriptor_ok bundle_structure \<and> map gd_key (sd_graphs bundle_structure) = [''inner'', ''outer'']"
proof
  show "descriptor_ok bundle_structure"
    by (rule accepted_structure_is_well_formed [OF bundle_wf bundle_accepted])
qed code_simp

lemma accepted_nesting_is_bounded_witness:
  "key_chain bundle_structure [''outer'', ''inner''] \<and> sd_root bundle_structure = ''outer'' \<and>
   length [sd_root bundle_structure, ''inner''] \<le> 64"
proof -
  have "key_chain bundle_structure [''outer'', ''inner'']" "sd_root bundle_structure = ''outer''"
    by code_simp+
  moreover from this have "length [sd_root bundle_structure, ''inner''] \<le> 64"
    by (intro accepted_nesting_is_bounded [OF bundle_wf bundle_accepted]) simp
  ultimately show ?thesis by blast
qed

section \<open>The canonical form identifies the structure\<close>

lemma optional_entry_inj: "(optional_entry k v = optional_entry k w) = (v = w)"
  by (auto simp: optional_entry_def split: option.splits)

lemma optional_entry_append:
  "(optional_entry k v @ xs = optional_entry k w @ ys) = (v = w \<and> xs = ys)"
  if "k \<notin> fst ` set xs" and "k \<notin> fst ` set ys"
  using that by (auto simp: optional_entry_def split: option.splits)

lemma optional_entry_keys: "fst ` set (optional_entry k v) \<subseteq> {k}"
  by (auto simp: optional_entry_def split: option.splits)

lemma canonical_node_inj: "(canonical_node m = canonical_node n) = (m = n)"
  by (cases m; cases n) (auto simp: optional_entry_def split: option.splits)

lemma text_array_inj: "(text_array xs = text_array ys) = (xs = ys)"
  by (auto simp: text_array_def inj_map_eq_map inj_def)

lemma canonical_edge_inj: "(canonical_edge e = canonical_edge f) = (e = f)"
  by (cases e; cases f) (auto simp: canonical_edge_def optional_entry_inj text_array_inj)

lemma canonical_outcome_inj: "(canonical_outcome x = canonical_outcome y) = (x = y)"
  by (cases x; cases y; cases "ocd_kind x"; cases "ocd_kind y")
     (auto simp: canonical_outcome_def optional_entry_def split: option.splits)

lemma map_inj_eq: "(\<And>x y. (f x = f y) = (x = y)) \<Longrightarrow> (map f xs = map f ys) = (xs = ys)"
  by (rule inj_map_eq_map) (simp add: inj_def)

lemma canonical_graph_inj: "(canonical_graph g = canonical_graph g') = (g = g')"
  by (cases g; cases g')
     (auto simp: canonical_graph_def optional_entry_append optional_entry_inj text_array_inj
        map_inj_eq [OF canonical_node_inj] map_inj_eq [OF canonical_edge_inj]
        map_inj_eq [OF canonical_outcome_inj])

text \<open>
  C36: the canonical form identifies a structure: two descriptors serialize to the same value
  exactly when they are the same, so equal hashes of equal text mean equal structures, and nothing a
  descriptor says is left out of the text.
\<close>

theorem canonical_form_identifies_structure:
  "(canonicalize_descriptor d = canonicalize_descriptor d') = (d = d')"
  by (cases d; cases d') (auto simp: canonicalize_descriptor_def map_inj_eq [OF canonical_graph_inj])

end
