(* ===== verification/Palette_Paths.thy ===== *)
theory Palette_Paths
  imports Prompts
begin

text \<open>
  The two pure policies the command palette's machine calls:
  \<^verbatim>\<open>apps/web/src/lib/palette/path-step.ts\<close>, what a highlight of the path step means and what Enter
  and a click do next, and \<^verbatim>\<open>apps/web/src/lib/palette/model.ts\<close>, which argument of a command is asked
  next. A command's option, skip and default functions are functions of the model; the palette's
  context is whatever they read, a type of its own.
\<close>

section \<open>Highlights\<close>

text \<open>\<open>moveIndex\<close> of \<^verbatim>\<open>lib/keyboard-selection.ts\<close>; \<open>%\<close> truncates towards zero.\<close>

definition js_rem :: "int \<Rightarrow> int \<Rightarrow> int" where
  "js_rem a b = (if a < 0 then - ((- a) mod b) else a mod b)"

definition move_index :: "int option \<Rightarrow> int \<Rightarrow> nat \<Rightarrow> int option" where
  "move_index current delta len =
     (if len = 0 then None
      else case current of
             None \<Rightarrow> Some (if delta < 0 then int len - 1 else 0)
           | Some i \<Rightarrow> Some (js_rem (i + delta + int len) (int len)))"

record path_suggestion =
  ps_label :: string
  ps_path :: string
  ps_hidden :: "bool option"

record path_step =
  pd_suggestions :: "path_suggestion list"
  pd_query :: string
  pd_loading :: bool
  pd_error :: "string option"
  pd_attempt :: nat
  pd_highlight :: "int option"

type_synonym path_view = "string \<times> path_step"

datatype path_intent = Accept string | Submit string | NoIntent

definition path_buffer_value :: "string \<Rightarrow> string" where
  "path_buffer_value query = js_trim query"

definition path_suggestions_are_stale :: "path_view \<Rightarrow> bool" where
  "path_suggestions_are_stale v = (pd_query (snd v) \<noteq> fst v)"

definition selectable_path_suggestions :: "path_view \<Rightarrow> path_suggestion list" where
  "selectable_path_suggestions v =
     (if path_suggestions_are_stale v then [] else pd_suggestions (snd v))"

text \<open>Reading an array at an index that may be out of range.\<close>

definition element_at :: "'a list \<Rightarrow> int \<Rightarrow> 'a option" where
  "element_at xs i = (if 0 \<le> i \<and> i < int (length xs) then Some (xs ! nat i) else None)"

definition highlighted_path_suggestion :: "path_view \<Rightarrow> path_suggestion option" where
  "highlighted_path_suggestion v =
     (case pd_highlight (snd v) of
        None \<Rightarrow> None
      | Some i \<Rightarrow> element_at (selectable_path_suggestions v) i)"

definition moved_path_highlight :: "path_view \<Rightarrow> int \<Rightarrow> int option" where
  "moved_path_highlight v delta =
     move_index (pd_highlight (snd v)) delta (length (selectable_path_suggestions v))"

definition next_path_intent :: "path_view \<Rightarrow> path_intent" where
  "next_path_intent v =
     (case highlighted_path_suggestion v of
        Some s \<Rightarrow> Accept (ps_path s)
      | None \<Rightarrow>
          (let value = path_buffer_value (fst v) in
            if value = [] then NoIntent else Submit value))"

definition path_pick_intent :: "path_view \<Rightarrow> int \<Rightarrow> path_intent" where
  "path_pick_intent v i =
     (case element_at (selectable_path_suggestions v) i of
        None \<Rightarrow> NoIntent
      | Some s \<Rightarrow>
          if ps_path s = path_buffer_value (fst v) then Submit (ps_path s) else Accept (ps_path s))"

definition with_path_separator :: "string \<Rightarrow> string" where
  "with_path_separator path =
     (if path \<noteq> [] \<and> last path = CHR ''/'' then path else path @ ''/'')"

section \<open>Arguments\<close>

text \<open>
  \<open>ArgValues\<close>, \<open>ArgPayloads\<close> and the labels are property lists. A payload is whatever the command put
  into its option; the machine passes it on.
\<close>

type_synonym arg_values = "(string \<times> string) list"
type_synonym arg_payloads = "(string \<times> jsval) list"

record option_row =
  op_value :: string
  op_label :: "string option"
  op_hint :: "string option"
  op_default :: bool
  op_create :: bool
  op_payload :: jsval

datatype 'v maybe_promise = Now 'v | Later

datatype default_selection = SelectFirst | SelectNone

datatype 'c arg_spec =
    SelectArg (arg_key: string) (arg_label: string)
      (select_options: "'c \<Rightarrow> arg_values \<Rightarrow> option_row list maybe_promise")
      (select_default: "default_selection option")
      (select_finish: "(string \<Rightarrow> jsval \<Rightarrow> 'c \<Rightarrow> arg_values \<Rightarrow> bool) option")
      (select_skip: "('c \<Rightarrow> arg_values \<Rightarrow> arg_payloads \<Rightarrow> bool) option")
  | ComboArg (arg_key: string) (arg_label: string) (combo_prefix: "string option")
      (combo_options: "'c \<Rightarrow> arg_values \<Rightarrow> option_row list maybe_promise")
      (combo_default: "default_selection option") (combo_create_hint: "string option")
      (combo_finish: "(string \<Rightarrow> jsval \<Rightarrow> 'c \<Rightarrow> arg_values \<Rightarrow> bool) option")
  | ReviewArg (arg_key: string) (arg_label: string)
  | TextArg (arg_key: string) (arg_label: string) (text_default: "('c \<Rightarrow> arg_values \<Rightarrow> string) option")
  | PathArg (arg_key: string) (arg_label: string)

text \<open>\<open>toLowerCase\<close> on characters below 256.\<close>

definition lower_char :: "char \<Rightarrow> char" where
  "lower_char c =
     (let n = of_char c :: nat in
       if 65 \<le> n \<and> n \<le> 90 \<or> 192 \<le> n \<and> n \<le> 222 \<and> n \<noteq> 215 then char_of (n + 32) else c)"

definition lower_text :: "string \<Rightarrow> string" where
  "lower_text = map lower_char"

fun includes_text :: "string \<Rightarrow> string \<Rightarrow> bool" where
  "includes_text [] q = (q = [])"
| "includes_text (c # cs) q = (take (length q) (c # cs) = q \<or> includes_text cs q)"

definition option_matches :: "string \<Rightarrow> option_row \<Rightarrow> bool" where
  "option_matches q opt =
     (includes_text (lower_text (case op_label opt of None \<Rightarrow> op_value opt | Some l \<Rightarrow> l)) q \<or>
      includes_text (lower_text (op_value opt)) q)"

definition text_or :: "string option \<Rightarrow> string \<Rightarrow> string" where
  "text_or a b = (case a of None \<Rightarrow> b | Some s \<Rightarrow> s)"

definition created_option :: "string \<Rightarrow> string option \<Rightarrow> option_row" where
  "created_option proposed hint =
     \<lparr>op_value = proposed, op_label = None, op_hint = Some (text_or hint ''new worktree''),
      op_default = False, op_create = True, op_payload = JUndefined\<rparr>"

definition compute_step_options :: "'c arg_spec \<Rightarrow> option_row list \<Rightarrow> string \<Rightarrow> option_row list" where
  "compute_step_options spec options query =
     (let q = lower_text query;
          result = (if q \<noteq> [] then filter (option_matches q) options else options)
      in case spec of
           ComboArg k l prefix opts dflt hint fin \<Rightarrow>
             if query = [] then result
             else (let proposed = text_or prefix [] @ query in
               if \<exists>opt \<in> set options. lower_text (op_value opt) = lower_text proposed \<or>
                                        lower_text (op_value opt) = q
               then result
               else created_option proposed hint # result)
         | _ \<Rightarrow> result)"

fun selects_none :: "'c arg_spec \<Rightarrow> bool" where
  "selects_none (SelectArg k l opts dflt fin sk) = (dflt = Some SelectNone)"
| "selects_none (ComboArg k l prefix opts dflt hint fin) = (dflt = Some SelectNone)"
| "selects_none _ = False"

fun find_index :: "('a \<Rightarrow> bool) \<Rightarrow> 'a list \<Rightarrow> nat option" where
  "find_index P [] = None"
| "find_index P (x # xs) = (if P x then Some 0 else map_option Suc (find_index P xs))"

definition default_option_index :: "'c arg_spec \<Rightarrow> option_row list \<Rightarrow> nat option" where
  "default_option_index spec options =
     (if selects_none spec then None
      else case find_index op_default options of
             Some i \<Rightarrow> Some i
           | None \<Rightarrow> if options \<noteq> [] then Some 0 else None)"

definition first_unfilled_step :: "'c arg_spec list \<Rightarrow> arg_values \<Rightarrow> nat" where
  "first_unfilled_step args vals =
     (case find_index (\<lambda>a. map_of vals (arg_key a) = None) args of
        Some i \<Rightarrow> i
      | None \<Rightarrow> length args - 1)"

fun is_skipped :: "'c arg_spec \<Rightarrow> 'c \<Rightarrow> arg_values \<Rightarrow> arg_payloads \<Rightarrow> bool" where
  "is_skipped (SelectArg k l opts dflt fin (Some skip)) ctx vals payloads = skip ctx vals payloads"
| "is_skipped _ ctx vals payloads = False"

text \<open>\<open>nextVisibleStep\<close>: how many of the steps from an index on are skipped.\<close>

definition next_visible_step ::
    "'c arg_spec list \<Rightarrow> nat \<Rightarrow> 'c \<Rightarrow> arg_values \<Rightarrow> arg_payloads \<Rightarrow> nat" where
  "next_visible_step args start ctx vals payloads =
     start + length (takeWhile (\<lambda>a. is_skipped a ctx vals payloads) (drop start args))"

text \<open>
  \<open>prevVisibleStep\<close>, from the step below an index downwards. An index past the end reads
  \<open>undefined\<close>, which is not skipped.
\<close>

fun prev_visible_step ::
    "'c arg_spec list \<Rightarrow> nat \<Rightarrow> 'c \<Rightarrow> arg_values \<Rightarrow> arg_payloads \<Rightarrow> nat option" where
  "prev_visible_step args 0 ctx vals payloads = None"
| "prev_visible_step args (Suc i) ctx vals payloads =
     (if i < length args \<and> is_skipped (args ! i) ctx vals payloads
      then prev_visible_step args i ctx vals payloads else Some i)"

definition label_in :: "option_row list maybe_promise \<Rightarrow> string \<Rightarrow> string" where
  "label_in options value =
     (case options of
        Later \<Rightarrow> value
      | Now rows_ \<Rightarrow>
          (case find (\<lambda>r. op_value r = value) rows_ of
             None \<Rightarrow> value
           | Some r \<Rightarrow> text_or (op_label r) value))"

fun label_for_value :: "'c arg_spec \<Rightarrow> string \<Rightarrow> 'c \<Rightarrow> arg_values \<Rightarrow> string" where
  "label_for_value (SelectArg k l opts dflt fin sk) value ctx vals = label_in (opts ctx vals) value"
| "label_for_value (ComboArg k l prefix opts dflt hint fin) value ctx vals = label_in (opts ctx vals) value"
| "label_for_value _ value ctx vals = value"

end
