(* ===== verification/Palette.thy ===== *)
theory Palette
  imports Palette_Paths
begin

text \<open>
  The command palette's state machine: \<^verbatim>\<open>apps/web/src/lib/palette/machine.ts\<close>. \<open>palette_reducer\<close>
  is \<^verbatim>\<open>paletteReducer\<close>, one definition per function it calls. The machine performs nothing itself: it
  queues effects, each with an attempt id, and the runner answers each with an event that carries the
  same id. A caller's callback is an opaque reference here, as the machine only passes it on.
\<close>

section \<open>State\<close>

datatype callback = Callback nat

record running_copy =
  rc_title :: string
  rc_hint :: "string option"

datatype tone = Info | SuccessTone | Warning | Danger

record outcome_action =
  oa_value :: string
  oa_label :: string
  oa_intent :: "string option"
  oa_run :: "callback option"
  oa_running :: "running_copy option"

text \<open>\<open>CommandResultContent\<close> and \<open>CommandErrorContent\<close>, which differ in whether the tone is optional.\<close>

record outcome_content =
  oc_tone :: "tone option"
  oc_title :: string
  oc_body :: "string option"
  oc_diagnostic :: "(string \<times> string) option"
  oc_actions :: "outcome_action list"

datatype command_outcome = CloseOutcome | ResultOutcome outcome_content | ErrorOutcome outcome_content

record review_choice =
  rv_value :: string
  rv_label :: string
  rv_hint :: "string option"
  rv_intent :: "string option"
  rv_payload :: jsval

record review_content =
  rw_title :: string
  rw_body :: string
  rw_items :: "(string \<times> string option) list"
  rw_choices :: "review_choice list"

datatype option_kind = SelectKind | ComboKind

datatype step_data =
    OptionData option_kind "option_row list" bool "string option" nat
  | ReviewData "review_content option" bool "string option" nat
  | PathData path_step
  | TextData

record flow =
  fl_entry :: string
  fl_command :: string
  fl_values :: arg_values
  fl_payloads :: arg_payloads
  fl_labels :: arg_values
  fl_step :: nat

datatype effect_body =
    PreflightEffect nat string string arg_values
  | RunEffect nat string "string option" arg_values arg_payloads
  | LoadOptions nat string string nat arg_values
  | LoadReview nat string string nat arg_values arg_payloads
  | SuggestPaths nat string
  | CallbackRun nat callback

type_synonym palette_effect = "nat \<times> effect_body"

fun effect_attempt :: "effect_body \<Rightarrow> nat" where
  "effect_attempt (PreflightEffect a e c vals) = a"
| "effect_attempt (RunEffect a e c vals ps) = a"
| "effect_attempt (LoadOptions a e c i vals) = a"
| "effect_attempt (LoadReview a e c i vals ps) = a"
| "effect_attempt (SuggestPaths a q) = a"
| "effect_attempt (CallbackRun a r) = a"

record search_body =
  se_query :: string
  se_error :: "string option"
  se_preflight :: "nat option"
  se_run :: "nat option"
  se_running :: "running_copy option"
  se_view :: string

record step_body =
  st_flow :: flow
  st_query :: string
  st_data :: step_data
  st_error :: "string option"
  st_run :: "nat option"
  st_running :: "running_copy option"
  st_view :: string

record outcome_body =
  ou_content :: outcome_content
  ou_entry :: "string option"
  ou_error :: "string option"
  ou_run :: "nat option"
  ou_running :: "running_copy option"
  ou_view :: string

datatype palette_body =
    Closed | Search search_body | Step step_body | ResultPanel outcome_body | ErrorPanel outcome_body

record palette =
  pa_effects :: "palette_effect list"
  pa_next_effect :: nat
  pa_next_attempt :: nat
  pa_body :: palette_body

definition initial_palette :: palette where
  "initial_palette = \<lparr>pa_effects = [], pa_next_effect = 1, pa_next_attempt = 1, pa_body = Closed\<rparr>"

section \<open>Events\<close>

text \<open>The fields of a command and of an entry that the machine reads.\<close>

record 'c command =
  cm_id :: string
  cm_preflight :: bool
  cm_args :: "'c arg_spec list"

record 'c entry =
  en_id :: string
  en_values :: arg_values
  en_command :: "'c command option"

datatype preflight_result =
    RunNow arg_values arg_payloads | AskInPalette arg_values | Unavailable

datatype 'c palette_event =
    CloseEvent
  | OpenEvent
  | Autostart string "'c command" 'c arg_values
  | EffectsConsumed "nat list"
  | QueryChanged string "'c arg_spec option"
  | ActivateEntry "'c entry" 'c
  | PreflightSucceeded nat string "'c command" 'c preflight_result
  | PreflightFailed nat string
  | OptionsLoaded nat "option_row list"
  | OptionsFailed nat string
  | ReviewLoaded nat "'c command" 'c "review_content option"
  | ReviewFailed nat string
  | PathsLoaded nat "path_suggestion list"
  | PathsFailed nat string
  | AcceptValue "'c command" 'c string string jsval
  | AcceptReviewChoice "'c command" 'c review_choice
  | PathNavigate int
  | PathDescend
  | PathEnter "'c command" 'c
  | PathPick int "'c command" 'c
  | BackEvent "'c command option" 'c
  | FlowFailed "string option" outcome_content
  | RunSucceeded nat "command_outcome option"
  | RunFailed nat string
  | StartRun callback "running_copy option"
  | OutcomeAction outcome_action

section \<open>Helpers\<close>

definition with_body :: "palette \<Rightarrow> palette_body \<Rightarrow> palette" where
  "with_body s b = s\<lparr>pa_body := b\<rparr>"

definition search_state :: palette_body where
  "search_state = Search \<lparr>se_query = [], se_error = None, se_preflight = None, se_run = None,
     se_running = None, se_view = ''recent''\<rparr>"

definition enqueue :: "palette \<Rightarrow> effect_body \<Rightarrow> palette" where
  "enqueue s e = s\<lparr>pa_effects := pa_effects s @ [(pa_next_effect s, e)],
     pa_next_effect := pa_next_effect s + 1\<rparr>"

text \<open>\<open>nextAttempt\<close>: the id to use, and the state that has used it.\<close>

definition next_attempt :: "palette \<Rightarrow> nat \<times> palette" where
  "next_attempt s = (pa_next_attempt s, s\<lparr>pa_next_attempt := pa_next_attempt s + 1\<rparr>)"

fun run_attempt :: "palette_body \<Rightarrow> nat option" where
  "run_attempt Closed = None"
| "run_attempt (Search b) = se_run b"
| "run_attempt (Step b) = st_run b"
| "run_attempt (ResultPanel b) = ou_run b"
| "run_attempt (ErrorPanel b) = ou_run b"

text \<open>
  The three fields of a run, set together. Only bodies that can hold a run are ever given one; for
  the closed palette the fields do not exist.
\<close>

fun with_run :: "nat option \<Rightarrow> running_copy option \<Rightarrow> string option \<Rightarrow> palette_body \<Rightarrow> palette_body" where
  "with_run r c e Closed = Closed"
| "with_run r c e (Search b) = Search (b\<lparr>se_run := r, se_running := c, se_error := e\<rparr>)"
| "with_run r c e (Step b) = Step (b\<lparr>st_run := r, st_running := c, st_error := e\<rparr>)"
| "with_run r c e (ResultPanel b) = ResultPanel (b\<lparr>ou_run := r, ou_running := c, ou_error := e\<rparr>)"
| "with_run r c e (ErrorPanel b) = ErrorPanel (b\<lparr>ou_run := r, ou_running := c, ou_error := e\<rparr>)"

definition holds_run :: "palette_body \<Rightarrow> bool" where
  "holds_run b = (b \<noteq> Closed)"

fun preflight_attempt :: "palette_body \<Rightarrow> nat option" where
  "preflight_attempt (Search b) = se_preflight b"
| "preflight_attempt _ = None"

definition is_busy :: "palette \<Rightarrow> bool" where
  "is_busy s =
     (holds_run (pa_body s) \<and>
      (run_attempt (pa_body s) \<noteq> None \<or> preflight_attempt (pa_body s) \<noteq> None))"

fun step_attempt :: "step_data \<Rightarrow> nat option" where
  "step_attempt (OptionData k opts l e a) = Some a"
| "step_attempt (ReviewData c l e a) = Some a"
| "step_attempt (PathData p) = Some (pd_attempt p)"
| "step_attempt TextData = None"

fun clear_preflight :: "palette_body \<Rightarrow> palette_body" where
  "clear_preflight (Search b) = Search (b\<lparr>se_preflight := None\<rparr>)"
| "clear_preflight b = b"

section \<open>Starting\<close>

definition start_preflight :: "palette \<Rightarrow> string \<Rightarrow> 'c command \<Rightarrow> arg_values \<Rightarrow> palette" where
  "start_preflight s entry cmd vals =
     (if is_busy s then s
      else let (a, s') = next_attempt s;
               query = (case pa_body s of Search b \<Rightarrow> se_query b | _ \<Rightarrow> []);
               view = (case pa_body s of Search b \<Rightarrow> se_view b | _ \<Rightarrow> ''recent'')
           in enqueue
                (with_body s' (Search \<lparr>se_query = query, se_error = None, se_preflight = Some a,
                   se_run = None, se_running = None, se_view = view\<rparr>))
                (PreflightEffect a entry (cm_id cmd) vals))"

definition start_run ::
    "palette \<Rightarrow> string \<Rightarrow> string option \<Rightarrow> arg_values \<Rightarrow> arg_payloads \<Rightarrow> palette" where
  "start_run s entry cmd vals payloads =
     (if is_busy s then s
      else let (a, s') = next_attempt s
           in enqueue (with_body s' (with_run (Some a) None None (pa_body s)))
                (RunEffect a entry cmd vals payloads))"

definition start_callback_run :: "palette \<Rightarrow> callback \<Rightarrow> running_copy option \<Rightarrow> palette" where
  "start_callback_run s run copy =
     (if \<not> holds_run (pa_body s) \<or> is_busy s then s
      else let (a, s') = next_attempt s
           in enqueue (with_body s' (with_run (Some a) copy None (pa_body s))) (CallbackRun a run))"

text \<open>\<open>makeStepData\<close>: the data of the step, the effect that fills it, and the state.\<close>

definition make_step_data ::
    "palette \<Rightarrow> flow \<Rightarrow> 'c arg_spec option \<Rightarrow> string \<Rightarrow> step_data \<times> effect_body option \<times> palette" where
  "make_step_data s fl spec query =
     (let (a, s') = next_attempt s;
          load = LoadOptions a (fl_entry fl) (fl_command fl) (fl_step fl) (fl_values fl)
      in case spec of
           None \<Rightarrow> (TextData, None, s)
         | Some (SelectArg k l opts dflt fin sk) \<Rightarrow> (OptionData SelectKind [] True None a, Some load, s')
         | Some (ComboArg k l pre opts dflt hint fin) \<Rightarrow>
             (OptionData ComboKind [] True None a, Some load, s')
         | Some (ReviewArg k l) \<Rightarrow>
             (ReviewData None True None a,
              Some (LoadReview a (fl_entry fl) (fl_command fl) (fl_step fl) (fl_values fl)
                      (fl_payloads fl)), s')
         | Some (PathArg k l) \<Rightarrow>
             (PathData \<lparr>pd_suggestions = [], pd_query = query, pd_loading = True, pd_error = None,
                pd_attempt = a, pd_highlight = None\<rparr>, Some (SuggestPaths a query), s')
         | Some (TextArg k l dflt) \<Rightarrow> (TextData, None, s))"

definition enter_step ::
    "palette \<Rightarrow> flow \<Rightarrow> 'c arg_spec option \<Rightarrow> string \<Rightarrow> string option \<Rightarrow> palette" where
  "enter_step s fl spec query err =
     (case make_step_data s fl spec query of (d, e, s') \<Rightarrow>
        let base = with_body s' (Step \<lparr>st_flow = fl, st_query = query, st_data = d, st_error = err,
              st_run = None, st_running = None, st_view = ''wizard-'' @ nat_text (fl_step fl)\<rparr>)
        in case e of None \<Rightarrow> base | Some eff \<Rightarrow> enqueue base eff)"

definition arg_at :: "'c arg_spec list \<Rightarrow> nat \<Rightarrow> 'c arg_spec option" where
  "arg_at args i = (if i < length args then Some (args ! i) else None)"

fun text_default_of :: "'c arg_spec option \<Rightarrow> 'c \<Rightarrow> arg_values \<Rightarrow> string" where
  "text_default_of (Some (TextArg k l (Some f))) ctx vals = f ctx vals"
| "text_default_of _ ctx vals = []"

definition initial_text_query ::
    "'c arg_spec list \<Rightarrow> nat \<Rightarrow> 'c \<Rightarrow> arg_values \<Rightarrow> string" where
  "initial_text_query args i ctx vals =
     (case arg_at args i of
        Some (TextArg k l dflt) \<Rightarrow>
          text_or (map_of vals k) (text_default_of (Some (TextArg k l dflt)) ctx vals)
      | _ \<Rightarrow> [])"

definition initial_labels :: "'c arg_spec list \<Rightarrow> 'c \<Rightarrow> arg_values \<Rightarrow> arg_values" where
  "initial_labels args ctx vals =
     fold (\<lambda>a ls. case map_of vals (arg_key a) of
                    None \<Rightarrow> ls
                  | Some v \<Rightarrow> put (arg_key a) (label_for_value a v ctx vals) ls) args []"

definition start_flow ::
    "palette \<Rightarrow> string \<Rightarrow> 'c command \<Rightarrow> 'c \<Rightarrow> arg_values \<Rightarrow> arg_payloads \<Rightarrow> palette" where
  "start_flow s entry cmd ctx vals payloads =
     (let args = cm_args cmd;
          i = first_unfilled_step args vals
      in enter_step s
           \<lparr>fl_entry = entry, fl_command = cm_id cmd, fl_values = vals, fl_payloads = payloads,
            fl_labels = initial_labels args ctx vals, fl_step = i\<rparr>
           (arg_at args i) (initial_text_query args i ctx vals) None)"

definition activate_entry :: "palette \<Rightarrow> 'c entry \<Rightarrow> 'c \<Rightarrow> palette" where
  "activate_entry s en ctx =
     (case pa_body s of
        Search b \<Rightarrow>
          if is_busy s then s
          else (case en_command en of
                  None \<Rightarrow> start_run s (en_id en) None [] []
                | Some cmd \<Rightarrow>
                    if cm_preflight cmd then start_preflight s (en_id en) cmd (en_values en)
                    else if cm_args cmd \<noteq> [] then start_flow s (en_id en) cmd ctx (en_values en) []
                    else start_run s (en_id en) (Some (cm_id cmd)) [] [])
      | _ \<Rightarrow> s)"

definition preflight_succeeded ::
    "palette \<Rightarrow> nat \<Rightarrow> string \<Rightarrow> 'c command \<Rightarrow> 'c \<Rightarrow> preflight_result \<Rightarrow> palette" where
  "preflight_succeeded s a entry cmd ctx r =
     (if preflight_attempt (pa_body s) \<noteq> Some a then s
      else let s' = with_body s (clear_preflight (pa_body s))
           in case r of
                Unavailable \<Rightarrow> s'
              | AskInPalette vals \<Rightarrow> start_flow s' entry cmd ctx vals []
              | RunNow vals payloads \<Rightarrow> start_run s' entry (Some (cm_id cmd)) vals payloads)"

definition preflight_failed :: "palette \<Rightarrow> nat \<Rightarrow> string \<Rightarrow> palette" where
  "preflight_failed s a err =
     (case pa_body s of
        Search b \<Rightarrow>
          if se_preflight b \<noteq> Some a then s
          else with_body s (Search (b\<lparr>se_preflight := None, se_error := Some err\<rparr>))
      | _ \<Rightarrow> s)"

section \<open>A step's input\<close>

fun is_path_arg :: "'c arg_spec option \<Rightarrow> bool" where
  "is_path_arg (Some (PathArg k l)) = True"
| "is_path_arg _ = False"

definition query_changed :: "palette \<Rightarrow> string \<Rightarrow> 'c arg_spec option \<Rightarrow> palette" where
  "query_changed s query spec =
     (case pa_body s of
        Search b \<Rightarrow> with_body s (Search (b\<lparr>se_query := query, se_error := None\<rparr>))
      | Step b \<Rightarrow>
          if \<not> is_path_arg spec
          then with_body s (Step (b\<lparr>st_query := query, st_error := None\<rparr>))
          else let (a, s') = next_attempt s;
                   old = (case st_data b of PathData p \<Rightarrow> (pd_suggestions p, pd_query p) | _ \<Rightarrow> ([], []))
               in enqueue
                    (with_body s' (Step (b\<lparr>st_query := query, st_error := None,
                       st_data := PathData \<lparr>pd_suggestions = fst old, pd_query = snd old,
                         pd_loading = True, pd_error = None, pd_attempt = a, pd_highlight = None\<rparr>\<rparr>)))
                    (SuggestPaths a query)
      | _ \<Rightarrow> s)"

fun finishes_on_accept :: "'c arg_spec \<Rightarrow> string \<Rightarrow> jsval \<Rightarrow> 'c \<Rightarrow> arg_values \<Rightarrow> bool" where
  "finishes_on_accept (SelectArg k l opts dflt (Some fin) sk) value payload ctx vals = fin value payload ctx vals"
| "finishes_on_accept (ComboArg k l pre opts dflt hint (Some fin)) value payload ctx vals =
     fin value payload ctx vals"
| "finishes_on_accept _ value payload ctx vals = False"

fun is_text_arg :: "'c arg_spec \<Rightarrow> bool" where
  "is_text_arg (TextArg k l dflt) = True"
| "is_text_arg _ = False"

definition accepted_flow :: "flow \<Rightarrow> string \<Rightarrow> string \<Rightarrow> string \<Rightarrow> jsval \<Rightarrow> flow" where
  "accepted_flow fl key value label payload =
     fl\<lparr>fl_values := put key value (fl_values fl), fl_payloads := put key payload (fl_payloads fl),
        fl_labels := put key label (fl_labels fl)\<rparr>"

definition accept_value ::
    "palette \<Rightarrow> 'c command \<Rightarrow> 'c \<Rightarrow> string \<Rightarrow> string \<Rightarrow> jsval \<Rightarrow> palette" where
  "accept_value s cmd ctx value label payload =
     (case pa_body s of
        Step b \<Rightarrow>
          (case arg_at (cm_args cmd) (fl_step (st_flow b)) of
             None \<Rightarrow> s
           | Some spec \<Rightarrow>
               if value = [] \<and> \<not> is_text_arg spec then s
               else
                 let fl = accepted_flow (st_flow b) (arg_key spec) value label payload;
                     i = next_visible_step (cm_args cmd) (fl_step fl + 1) ctx (fl_values fl) (fl_payloads fl)
                 in if finishes_on_accept spec value payload ctx (fl_values fl) \<or> i \<ge> length (cm_args cmd)
                    then start_run s (fl_entry fl) (Some (cm_id cmd)) (fl_values fl) (fl_payloads fl)
                    else enter_step s (fl\<lparr>fl_step := i\<rparr>) (arg_at (cm_args cmd) i) [] None)
      | _ \<Rightarrow> s)"

definition path_step_view :: "palette \<Rightarrow> (step_body \<times> path_view) option" where
  "path_step_view s =
     (case pa_body s of
        Step b \<Rightarrow>
          (case st_data b of
             PathData p \<Rightarrow> if is_busy s then None else Some (b, st_query b, p)
           | _ \<Rightarrow> None)
      | _ \<Rightarrow> None)"

definition path_accept :: "palette \<Rightarrow> step_body \<Rightarrow> path_view \<Rightarrow> string \<Rightarrow> palette" where
  "path_accept s b v path =
     (let cleared = (snd v)\<lparr>pd_highlight := None\<rparr> in
      if path = path_buffer_value (fst v) then with_body s (Step (b\<lparr>st_data := PathData cleared\<rparr>))
      else let (a, s') = next_attempt s
           in enqueue
                (with_body s' (Step (b\<lparr>st_query := path, st_error := None,
                   st_data := PathData (cleared\<lparr>pd_loading := True, pd_error := None, pd_attempt := a\<rparr>)\<rparr>)))
                (SuggestPaths a path))"

definition apply_path_intent ::
    "palette \<Rightarrow> step_body \<Rightarrow> path_view \<Rightarrow> path_intent \<Rightarrow> 'c command \<Rightarrow> 'c \<Rightarrow> palette" where
  "apply_path_intent s b v intent cmd ctx =
     (case intent of
        Accept path \<Rightarrow> path_accept s b v path
      | Submit value \<Rightarrow> accept_value s cmd ctx value value JUndefined
      | NoIntent \<Rightarrow> s)"

definition path_navigate :: "palette \<Rightarrow> int \<Rightarrow> palette" where
  "path_navigate s delta =
     (case path_step_view s of
        None \<Rightarrow> s
      | Some (b, v) \<Rightarrow>
          (let i = moved_path_highlight v delta in
            if i = pd_highlight (snd v) then s
            else with_body s (Step (b\<lparr>st_data := PathData ((snd v)\<lparr>pd_highlight := i\<rparr>)\<rparr>))))"

definition path_descend :: "palette \<Rightarrow> palette" where
  "path_descend s =
     (case path_step_view s of
        None \<Rightarrow> s
      | Some (b, v) \<Rightarrow>
          (case highlighted_path_suggestion v of
             None \<Rightarrow> s
           | Some sug \<Rightarrow> path_accept s b v (with_path_separator (ps_path sug))))"

definition path_intent_event ::
    "palette \<Rightarrow> 'c command \<Rightarrow> 'c \<Rightarrow> (path_view \<Rightarrow> path_intent) \<Rightarrow> palette" where
  "path_intent_event s cmd ctx resolve =
     (case path_step_view s of
        None \<Rightarrow> s
      | Some (b, v) \<Rightarrow> apply_path_intent s b v (resolve v) cmd ctx)"

definition remove_key :: "string \<Rightarrow> (string \<times> 'v) list \<Rightarrow> (string \<times> 'v) list" where
  "remove_key k ps = filter (\<lambda>p. fst p \<noteq> k) ps"

definition dropped_flow :: "flow \<Rightarrow> string \<Rightarrow> flow" where
  "dropped_flow fl key =
     (if key = [] then fl
      else fl\<lparr>fl_values := remove_key key (fl_values fl), fl_payloads := remove_key key (fl_payloads fl),
              fl_labels := remove_key key (fl_labels fl)\<rparr>)"

definition palette_back :: "palette \<Rightarrow> 'c command option \<Rightarrow> 'c \<Rightarrow> palette" where
  "palette_back s cmd ctx =
     (case pa_body s of
        Step b \<Rightarrow>
          (case cmd of
             None \<Rightarrow> with_body s search_state
           | Some c \<Rightarrow>
               (case prev_visible_step (cm_args c) (fl_step (st_flow b)) ctx (fl_values (st_flow b))
                       (fl_payloads (st_flow b)) of
                  None \<Rightarrow> with_body s search_state
                | Some i \<Rightarrow>
                    let fl = (case arg_at (cm_args c) i of
                                None \<Rightarrow> st_flow b | Some spec \<Rightarrow> dropped_flow (st_flow b) (arg_key spec))
                    in enter_step s (fl\<lparr>fl_step := i\<rparr>) (arg_at (cm_args c) i) [] None))
      | Closed \<Rightarrow> with_body s search_state
      | _ \<Rightarrow> with_body s Closed)"

section \<open>Answers\<close>

fun entry_id_for_outcome :: "palette_body \<Rightarrow> string option" where
  "entry_id_for_outcome (Step b) = Some (fl_entry (st_flow b))"
| "entry_id_for_outcome (ResultPanel b) = ou_entry b"
| "entry_id_for_outcome (ErrorPanel b) = ou_entry b"
| "entry_id_for_outcome _ = None"

definition idle_outcome :: "outcome_content \<Rightarrow> string option \<Rightarrow> string \<Rightarrow> outcome_body" where
  "idle_outcome c entry view =
     \<lparr>ou_content = c, ou_entry = entry, ou_error = None, ou_run = None, ou_running = None, ou_view = view\<rparr>"

definition run_matches :: "palette \<Rightarrow> nat \<Rightarrow> bool" where
  "run_matches s a = (holds_run (pa_body s) \<and> run_attempt (pa_body s) = Some a)"

definition run_succeeded :: "palette \<Rightarrow> nat \<Rightarrow> command_outcome option \<Rightarrow> palette" where
  "run_succeeded s a outcome =
     (if \<not> run_matches s a then s
      else case outcome of
             None \<Rightarrow> with_body s Closed
           | Some CloseOutcome \<Rightarrow> with_body s Closed
           | Some (ResultOutcome c) \<Rightarrow>
               with_body (s\<lparr>pa_effects := []\<rparr>)
                 (ResultPanel (idle_outcome c (entry_id_for_outcome (pa_body s)) (''result-'' @ nat_text a)))
           | Some (ErrorOutcome c) \<Rightarrow>
               with_body (s\<lparr>pa_effects := []\<rparr>)
                 (ErrorPanel (idle_outcome c (entry_id_for_outcome (pa_body s)) (''error-'' @ nat_text a))))"

definition run_failed :: "palette \<Rightarrow> nat \<Rightarrow> string \<Rightarrow> palette" where
  "run_failed s a err =
     (if \<not> run_matches s a then s
      else with_body s (with_run None None (Some err) (pa_body s)))"

definition update_options ::
    "palette \<Rightarrow> nat \<Rightarrow> option_row list \<Rightarrow> string option \<Rightarrow> palette" where
  "update_options s a opts err =
     (case pa_body s of
        Step b \<Rightarrow>
          (case st_data b of
             OptionData k old loading olderr at \<Rightarrow>
               if at \<noteq> a then s
               else with_body s (Step (b\<lparr>st_data := OptionData k opts False err at\<rparr>))
           | _ \<Rightarrow> s)
      | _ \<Rightarrow> s)"

definition update_review ::
    "palette \<Rightarrow> nat \<Rightarrow> review_content option \<Rightarrow> string option \<Rightarrow> palette" where
  "update_review s a content err =
     (case pa_body s of
        Step b \<Rightarrow>
          (case st_data b of
             ReviewData old loading olderr at \<Rightarrow>
               if at \<noteq> a then s
               else with_body s (Step (b\<lparr>st_data := ReviewData content False err at\<rparr>))
           | _ \<Rightarrow> s)
      | _ \<Rightarrow> s)"

definition awaits_review :: "step_body \<Rightarrow> nat \<Rightarrow> bool" where
  "awaits_review b a = (case st_data b of ReviewData c l e at \<Rightarrow> at = a | _ \<Rightarrow> False)"

definition review_loaded ::
    "palette \<Rightarrow> nat \<Rightarrow> 'c command \<Rightarrow> 'c \<Rightarrow> review_content option \<Rightarrow> palette" where
  "review_loaded s a cmd ctx content =
     (case pa_body s of
        Step b \<Rightarrow>
          if \<not> awaits_review b a then s
          else (case content of
                  Some c \<Rightarrow> update_review s a (Some c) None
                | None \<Rightarrow>
                    let fl = st_flow b;
                        i = next_visible_step (cm_args cmd) (fl_step fl + 1) ctx (fl_values fl) (fl_payloads fl)
                    in if i \<ge> length (cm_args cmd)
                       then start_run s (fl_entry fl) (Some (fl_command fl)) (fl_values fl) (fl_payloads fl)
                       else enter_step s (fl\<lparr>fl_step := i\<rparr>) (arg_at (cm_args cmd) i) [] None)
      | _ \<Rightarrow> s)"

definition update_paths ::
    "palette \<Rightarrow> nat \<Rightarrow> path_suggestion list \<Rightarrow> string option \<Rightarrow> palette" where
  "update_paths s a sugs err =
     (case pa_body s of
        Step b \<Rightarrow>
          (case st_data b of
             PathData p \<Rightarrow>
               if pd_attempt p \<noteq> a then s
               else with_body s (Step (b\<lparr>st_data := PathData (p\<lparr>pd_suggestions := sugs,
                      pd_query := st_query b, pd_loading := False, pd_error := err,
                      pd_highlight := None\<rparr>)\<rparr>))
           | _ \<Rightarrow> s)
      | _ \<Rightarrow> s)"

definition flow_failed :: "palette \<Rightarrow> string option \<Rightarrow> outcome_content \<Rightarrow> palette" where
  "flow_failed s entry c =
     (case pa_body s of
        Step b \<Rightarrow>
          with_body s (ErrorPanel (idle_outcome c (Some (fl_entry (st_flow b)))
            (''error-flow-'' @ fl_entry (st_flow b))))
      | Search b \<Rightarrow>
          with_body s (ErrorPanel (idle_outcome c entry (''error-flow-'' @ text_or entry ''local'')))
      | _ \<Rightarrow> s)"

section \<open>The reducer\<close>

fun palette_reducer :: "palette \<Rightarrow> 'c palette_event \<Rightarrow> palette" where
  "palette_reducer s CloseEvent = with_body s Closed"
| "palette_reducer s OpenEvent = with_body s search_state"
| "palette_reducer s (Autostart entry cmd ctx vals) =
     (if cm_preflight cmd then start_preflight s entry cmd vals
      else if cm_args cmd \<noteq> [] then start_flow s entry cmd ctx vals []
      else with_body s search_state)"
| "palette_reducer s (EffectsConsumed ids) =
     s\<lparr>pa_effects := filter (\<lambda>e. fst e \<notin> set ids) (pa_effects s)\<rparr>"
| "palette_reducer s (QueryChanged query spec) = query_changed s query spec"
| "palette_reducer s (ActivateEntry en ctx) = activate_entry s en ctx"
| "palette_reducer s (PreflightSucceeded a entry cmd ctx r) = preflight_succeeded s a entry cmd ctx r"
| "palette_reducer s (PreflightFailed a err) = preflight_failed s a err"
| "palette_reducer s (OptionsLoaded a opts) = update_options s a opts None"
| "palette_reducer s (OptionsFailed a err) = update_options s a [] (Some err)"
| "palette_reducer s (ReviewLoaded a cmd ctx c) = review_loaded s a cmd ctx c"
| "palette_reducer s (ReviewFailed a err) = update_review s a None (Some err)"
| "palette_reducer s (PathsLoaded a sugs) = update_paths s a sugs None"
| "palette_reducer s (PathsFailed a err) = update_paths s a [] (Some err)"
| "palette_reducer s (AcceptValue cmd ctx value label payload) = accept_value s cmd ctx value label payload"
| "palette_reducer s (AcceptReviewChoice cmd ctx choice) =
     (if rv_intent choice = Some ''cancel'' then with_body s Closed
      else accept_value s cmd ctx (rv_value choice) (rv_label choice) (rv_payload choice))"
| "palette_reducer s (PathNavigate delta) = path_navigate s delta"
| "palette_reducer s PathDescend = path_descend s"
| "palette_reducer s (PathEnter cmd ctx) = path_intent_event s cmd ctx next_path_intent"
| "palette_reducer s (PathPick i cmd ctx) = path_intent_event s cmd ctx (\<lambda>v. path_pick_intent v i)"
| "palette_reducer s (BackEvent cmd ctx) = palette_back s cmd ctx"
| "palette_reducer s (FlowFailed entry c) = flow_failed s entry c"
| "palette_reducer s (RunSucceeded a outcome) = run_succeeded s a outcome"
| "palette_reducer s (RunFailed a err) = run_failed s a err"
| "palette_reducer s (StartRun run copy) = start_callback_run s run copy"
| "palette_reducer s (OutcomeAction act) =
     (case oa_run act of
        Some run \<Rightarrow> start_callback_run s run (oa_running act)
      | None \<Rightarrow>
          if oa_value act = ''close'' \<or> oa_value act = ''cancel'' then with_body s Closed else s)"

definition palette_run :: "palette \<Rightarrow> 'c palette_event list \<Rightarrow> palette" where
  "palette_run s evs = fold (\<lambda>e s. palette_reducer s e) evs s"

end
