(* ===== verification/Palette_Properties.thy ===== *)
theory Palette_Properties
  imports Palette
begin

text \<open>
  What the palette's machine promises over every sequence of events: attempt ids are fresh, so that an
  answer reaches the state that asked for it once at most; nothing is started while a run is in
  flight, and every answer ends it; going back undoes an answer; the path step browses before it
  submits; and the data of a step is of the kind of its argument.
\<close>

named_theorems palette_simps \<open>projections of the palette's helpers\<close>

lemma base_simps [simp, palette_simps]:
  "pa_body (with_body s b) = b" "pa_effects (with_body s b) = pa_effects s"
  "pa_next_effect (with_body s b) = pa_next_effect s" "pa_next_attempt (with_body s b) = pa_next_attempt s"
  "pa_body (enqueue s e) = pa_body s" "pa_effects (enqueue s e) = pa_effects s @ [(pa_next_effect s, e)]"
  "pa_next_effect (enqueue s e) = pa_next_effect s + 1" "pa_next_attempt (enqueue s e) = pa_next_attempt s"
  by (simp_all add: with_body_def enqueue_def)

lemma next_attempt_eq [simp]: "next_attempt s = (pa_next_attempt s, s\<lparr>pa_next_attempt := Suc (pa_next_attempt s)\<rparr>)"
  by (simp add: next_attempt_def)

lemma with_run_attempts [simp]:
  "run_attempt (with_run r c e b) = (if b = Closed then None else r)"
  "preflight_attempt (with_run r c e b) = preflight_attempt b"
  "(with_run r c e b = Closed) = (b = Closed)"
  by (cases b; simp)+

fun body_step_attempt :: "palette_body \<Rightarrow> nat option" where
  "body_step_attempt (Step b) = step_attempt (st_data b)"
| "body_step_attempt _ = None"

lemma with_run_step_attempt [simp]: "body_step_attempt (with_run r c e b) = body_step_attempt b"
  by (cases b) simp_all

section \<open>Attempts\<close>

text \<open>Everything a state awaits, and every effect it has queued, was there before or is new.\<close>

definition fresh :: "palette \<Rightarrow> palette \<Rightarrow> nat \<Rightarrow> bool" where
  "fresh s s' a = (pa_next_attempt s \<le> a \<and> a < pa_next_attempt s')"

definition advances :: "palette \<Rightarrow> palette \<Rightarrow> bool" where
  "advances s s' =
     (pa_next_attempt s \<le> pa_next_attempt s' \<and> pa_next_effect s \<le> pa_next_effect s' \<and>
      (\<forall>a. run_attempt (pa_body s') = Some a \<longrightarrow> run_attempt (pa_body s) = Some a \<or> fresh s s' a) \<and>
      (\<forall>a. preflight_attempt (pa_body s') = Some a \<longrightarrow>
         preflight_attempt (pa_body s) = Some a \<or> fresh s s' a) \<and>
      (\<forall>a. body_step_attempt (pa_body s') = Some a \<longrightarrow>
         body_step_attempt (pa_body s) = Some a \<or> fresh s s' a) \<and>
      (\<exists>P. pa_effects s' = filter P (pa_effects s) \<or>
         (\<exists>e. pa_effects s' = filter P (pa_effects s) @ [(pa_next_effect s, e)] \<and>
            pa_next_effect s < pa_next_effect s' \<and> fresh s s' (effect_attempt e))))"

lemma advances_refl [simp]: "advances s s"
  by (auto simp: advances_def intro: exI [of _ "\<lambda>_. True"])

text \<open>A new body with nothing awaited, or awaiting what was awaited.\<close>

lemma advances_body:
  "(run_attempt b = None \<or> run_attempt b = run_attempt (pa_body s)) \<Longrightarrow>
   (preflight_attempt b = None \<or> preflight_attempt b = preflight_attempt (pa_body s)) \<Longrightarrow>
   (body_step_attempt b = None \<or> body_step_attempt b = body_step_attempt (pa_body s)) \<Longrightarrow>
   advances s (with_body s b)"
  by (auto simp: advances_def intro: exI [of _ "\<lambda>_. True"])

text \<open>A new body that awaits the next attempt, with the effect that answers it.\<close>

lemma advances_enqueue:
  assumes "effect_attempt e = pa_next_attempt s"
    and "run_attempt b \<in> {None, run_attempt (pa_body s), Some (pa_next_attempt s)}"
    and "preflight_attempt b \<in> {None, preflight_attempt (pa_body s), Some (pa_next_attempt s)}"
    and "body_step_attempt b \<in> {None, body_step_attempt (pa_body s), Some (pa_next_attempt s)}"
  shows "advances s (enqueue (with_body (s\<lparr>pa_next_attempt := Suc (pa_next_attempt s)\<rparr>) b) e)"
  using assms by (auto simp: advances_def fresh_def intro!: exI [of _ "\<lambda>_. True"])

text \<open>The same steps from a state that differs only in what it awaits less.\<close>

lemma advances_from_body:
  assumes "advances (with_body s b) s'"
    and "run_attempt b = None \<or> run_attempt b = run_attempt (pa_body s)"
    and "preflight_attempt b = None \<or> preflight_attempt b = preflight_attempt (pa_body s)"
    and "body_step_attempt b = None \<or> body_step_attempt b = body_step_attempt (pa_body s)"
  shows "advances s s'"
  using assms by (auto simp: advances_def fresh_def)

lemma advances_start_preflight: "advances s (start_preflight s entry cmd vals)"
  by (auto simp: start_preflight_def intro: advances_enqueue)

lemma advances_start_run: "advances s (start_run s entry cmd vals payloads)"
  by (auto simp: start_run_def split: if_splits intro!: advances_enqueue)

lemma advances_start_callback_run: "advances s (start_callback_run s run copy)"
  by (auto simp: start_callback_run_def split: if_splits intro!: advances_enqueue)

text \<open>The effects that start work, and the two ways of entering a step.\<close>

fun starts_work :: "effect_body \<Rightarrow> bool" where
  "starts_work (RunEffect a e c vals ps) = True"
| "starts_work (PreflightEffect a e c vals) = True"
| "starts_work (CallbackRun a r) = True"
| "starts_work _ = False"

lemma enter_step_cases:
  obtains
    (silent) d where "enter_step s fl spec query err = with_body s (Step \<lparr>st_flow = fl, st_query = query,
        st_data = d, st_error = err, st_run = None, st_running = None,
        st_view = ''wizard-'' @ nat_text (fl_step fl)\<rparr>)" and "d = TextData"
  | (loading) d e where "enter_step s fl spec query err =
        enqueue (with_body (s\<lparr>pa_next_attempt := Suc (pa_next_attempt s)\<rparr>) (Step \<lparr>st_flow = fl, st_query = query,
        st_data = d, st_error = err, st_run = None, st_running = None,
        st_view = ''wizard-'' @ nat_text (fl_step fl)\<rparr>)) e"
      and "effect_attempt e = pa_next_attempt s" and "step_attempt d = Some (pa_next_attempt s)"
      and "\<not> starts_work e"
  by (cases spec; (cases "the spec")?) (auto simp: enter_step_def make_step_data_def Let_def)

lemma advances_enter_step: "advances s (enter_step s fl spec query err)"
  by (rule enter_step_cases [of s fl spec query err]) (auto intro!: advances_body advances_enqueue)

lemma advances_start_flow: "advances s (start_flow s entry cmd ctx vals payloads)"
  by (simp add: start_flow_def Let_def advances_enter_step)

lemma advances_accept_value: "advances s (accept_value s cmd ctx value label payload)"
  by (auto simp: accept_value_def Let_def advances_start_run advances_enter_step
      split: palette_body.split option.split)

lemma path_step_view_Some:
  "path_step_view s = Some (b, v) \<Longrightarrow>
     pa_body s = Step b \<and> st_data b = PathData (snd v) \<and> fst v = st_query b \<and> \<not> is_busy s"
  by (auto simp: path_step_view_def split: palette_body.splits step_data.splits if_splits)

lemma advances_path_accept:
  "path_step_view s = Some (b, v) \<Longrightarrow> advances s (path_accept s b v path)"
  by (drule path_step_view_Some) (auto simp: path_accept_def Let_def intro!: advances_body advances_enqueue)

lemma advances_path_intent:
  "path_step_view s = Some (b, v) \<Longrightarrow> advances s (apply_path_intent s b v intent cmd ctx)"
  by (cases intent) (simp_all add: apply_path_intent_def advances_path_accept advances_accept_value)

lemma advances_review_loaded: "advances s (review_loaded s a cmd ctx c)"
  by (auto simp: review_loaded_def update_review_def awaits_review_def Let_def advances_start_run
      advances_enter_step intro!: advances_body split: palette_body.split option.split step_data.split)

lemma advances_preflight_succeeded: "advances s (preflight_succeeded s a entry cmd ctx r)"
proof (cases "preflight_attempt (pa_body s) = Some a")
  case True
  then obtain b where b: "pa_body s = Search b" by (cases "pa_body s") auto
  have less: "run_attempt (clear_preflight (pa_body s)) = run_attempt (pa_body s)"
    "preflight_attempt (clear_preflight (pa_body s)) = None"
    "body_step_attempt (clear_preflight (pa_body s)) = body_step_attempt (pa_body s)"
    by (simp_all add: b)
  show ?thesis
  proof (cases r)
    case (RunNow vals payloads)
    with True less show ?thesis
      by (simp add: preflight_succeeded_def Let_def advances_from_body [OF advances_start_run])
  next
    case (AskInPalette vals)
    with True less show ?thesis
      by (simp add: preflight_succeeded_def Let_def advances_from_body [OF advances_start_flow])
  next
    case Unavailable
    with True less show ?thesis by (simp add: preflight_succeeded_def Let_def advances_body)
  qed
qed (simp add: preflight_succeeded_def)

lemma palette_reducer_advances: "advances s (palette_reducer s ev)"
proof (cases ev)
  case (EffectsConsumed ids)
  then show ?thesis
    by (auto simp: advances_def intro!: exI [of _ "\<lambda>e. fst e \<notin> set ids"])
next
  case (RunSucceeded a oc)
  then show ?thesis
    by (auto simp: run_succeeded_def idle_outcome_def advances_def intro: exI [of _ "\<lambda>_. False"] exI [of _ "\<lambda>_. True"]
        split: option.split command_outcome.split)
next
  case (OutcomeAction act)
  then show ?thesis
    by (auto intro: advances_body advances_start_callback_run split: option.split)
next
  case (PathNavigate delta)
  then show ?thesis
    by (auto simp: path_navigate_def Let_def intro!: advances_body dest!: path_step_view_Some split: option.split)
next
  case (BackEvent c ctx)
  then show ?thesis
    by (auto simp: palette_back_def search_state_def Let_def advances_enter_step intro!: advances_body
        split: palette_body.split option.split)
qed (auto simp: search_state_def query_changed_def activate_entry_def preflight_failed_def update_options_def
       update_review_def update_paths_def path_descend_def path_intent_event_def flow_failed_def idle_outcome_def
       run_failed_def Let_def
       advances_start_preflight advances_start_flow advances_start_run advances_accept_value advances_review_loaded
       advances_preflight_succeeded advances_path_accept advances_path_intent advances_start_callback_run
     intro!: advances_body advances_enqueue
     split: palette_body.split option.split step_data.split)

section \<open>The invariant\<close>

text \<open>
  Ids are fresh: every queued effect has an id and an attempt of its own, and every id a state knows is
  below its counter.
\<close>

definition palette_ok :: "palette \<Rightarrow> bool" where
  "palette_ok s =
     (distinct (map fst (pa_effects s)) \<and> distinct (map (\<lambda>e. effect_attempt (snd e)) (pa_effects s)) \<and>
      (\<forall>e \<in> set (pa_effects s). fst e < pa_next_effect s \<and> effect_attempt (snd e) < pa_next_attempt s) \<and>
      (\<forall>a. run_attempt (pa_body s) = Some a \<longrightarrow> a < pa_next_attempt s) \<and>
      (\<forall>a. preflight_attempt (pa_body s) = Some a \<longrightarrow> a < pa_next_attempt s) \<and>
      (\<forall>a. body_step_attempt (pa_body s) = Some a \<longrightarrow> a < pa_next_attempt s))"

lemma palette_ok_advances:
  assumes "palette_ok s" and "advances s s'"
  shows "palette_ok s'"
proof -
  have mono: "pa_next_attempt s \<le> pa_next_attempt s'" "pa_next_effect s \<le> pa_next_effect s'"
    using assms(2) by (simp_all add: advances_def)
  have old: "fst e < pa_next_effect s' \<and> effect_attempt (snd e) < pa_next_attempt s'"
    if "e \<in> set (pa_effects s)" for e
  proof -
    have "fst e < pa_next_effect s \<and> effect_attempt (snd e) < pa_next_attempt s"
      using assms(1) that unfolding palette_ok_def by blast
    with mono show ?thesis by linarith
  qed
  from assms(2) obtain P where P: "pa_effects s' = filter P (pa_effects s) \<or>
      (\<exists>e. pa_effects s' = filter P (pa_effects s) @ [(pa_next_effect s, e)] \<and>
         pa_next_effect s < pa_next_effect s' \<and> fresh s s' (effect_attempt e))"
    by (auto simp: advances_def)
  have kept: "distinct (map fst (filter P (pa_effects s)))"
    "distinct (map (\<lambda>e. effect_attempt (snd e)) (filter P (pa_effects s)))"
    using assms(1) by (simp_all add: palette_ok_def distinct_map_filter)
  have bound:
    "\<forall>a. run_attempt (pa_body s') = Some a \<longrightarrow> a < pa_next_attempt s'"
    "\<forall>a. preflight_attempt (pa_body s') = Some a \<longrightarrow> a < pa_next_attempt s'"
    "\<forall>a. body_step_attempt (pa_body s') = Some a \<longrightarrow> a < pa_next_attempt s'"
    using assms unfolding palette_ok_def advances_def fresh_def by (meson less_le_trans)+
  show ?thesis
    using P
  proof
    assume "pa_effects s' = filter P (pa_effects s)"
    with kept old bound show ?thesis by (auto simp: palette_ok_def)
  next
    assume "\<exists>e. pa_effects s' = filter P (pa_effects s) @ [(pa_next_effect s, e)] \<and>
        pa_next_effect s < pa_next_effect s' \<and> fresh s s' (effect_attempt e)"
    then obtain e where e: "pa_effects s' = filter P (pa_effects s) @ [(pa_next_effect s, e)]"
      "pa_next_effect s < pa_next_effect s'" "fresh s s' (effect_attempt e)" by blast
    have "pa_next_effect s \<notin> fst ` set (filter P (pa_effects s))"
      "effect_attempt e \<notin> (\<lambda>e. effect_attempt (snd e)) ` set (filter P (pa_effects s))"
      using assms(1) e(3) by (fastforce simp: palette_ok_def fresh_def)+
    with kept old bound e show ?thesis by (auto simp: palette_ok_def fresh_def)
  qed
qed

lemma palette_run_Cons [simp]:
  "palette_run s [] = s" "palette_run s (e # evs) = palette_run (palette_reducer s e) evs"
  by (simp_all add: palette_run_def)

lemma palette_run_append: "palette_run s (evs @ later) = palette_run (palette_run s evs) later"
  by (simp add: palette_run_def)

lemma palette_ok_run: "palette_ok s \<Longrightarrow> palette_ok (palette_run s evs)"
  by (induction evs arbitrary: s) (auto intro: palette_ok_advances palette_reducer_advances)

lemma palette_ok_initial: "palette_ok initial_palette"
  by (simp add: palette_ok_def initial_palette_def)

section \<open>Answers\<close>

text \<open>
  The attempt an answer carries, and whether a body awaits it. An answer nobody awaits changes
  nothing.
\<close>

fun answer_attempt :: "'c palette_event \<Rightarrow> nat option" where
  "answer_attempt (PreflightSucceeded a entry cmd ctx r) = Some a"
| "answer_attempt (PreflightFailed a err) = Some a"
| "answer_attempt (OptionsLoaded a opts) = Some a"
| "answer_attempt (OptionsFailed a err) = Some a"
| "answer_attempt (ReviewLoaded a cmd ctx c) = Some a"
| "answer_attempt (ReviewFailed a err) = Some a"
| "answer_attempt (PathsLoaded a sugs) = Some a"
| "answer_attempt (PathsFailed a err) = Some a"
| "answer_attempt (RunSucceeded a oc) = Some a"
| "answer_attempt (RunFailed a err) = Some a"
| "answer_attempt ev = None"

definition awaits :: "palette_body \<Rightarrow> nat \<Rightarrow> bool" where
  "awaits b a = (run_attempt b = Some a \<or> preflight_attempt b = Some a \<or> body_step_attempt b = Some a)"

lemma stale_answer:
  "answer_attempt ev = Some a \<Longrightarrow> \<not> awaits (pa_body s) a \<Longrightarrow> palette_reducer s ev = s"
  by (cases ev)
     (auto simp: awaits_def preflight_succeeded_def preflight_failed_def update_options_def update_review_def
        review_loaded_def awaits_review_def update_paths_def run_succeeded_def run_failed_def run_matches_def
      split: palette_body.split step_data.split)

text \<open>Three channels on which a body awaits something; what is not awaited on one is never again.\<close>

definition channel :: "(palette_body \<Rightarrow> nat option) \<Rightarrow> bool" where
  "channel f = (f = run_attempt \<or> f = preflight_attempt \<or> f = body_step_attempt)"

lemma channel_advances:
  "channel f \<Longrightarrow> advances s s' \<Longrightarrow> f (pa_body s') = Some a \<Longrightarrow> a < pa_next_attempt s \<Longrightarrow> f (pa_body s) = Some a"
  unfolding channel_def advances_def fresh_def by (metis leD)

lemma channel_later:
  assumes "channel f"
  shows "f (pa_body s) \<noteq> Some a \<Longrightarrow> a < pa_next_attempt s \<Longrightarrow> f (pa_body (palette_run s evs)) \<noteq> Some a"
proof (induction evs arbitrary: s)
  case (Cons e evs)
  have "advances s (palette_reducer s e)" by (rule palette_reducer_advances)
  then have "f (pa_body (palette_reducer s e)) \<noteq> Some a"
    using Cons.prems channel_advances [OF assms] by blast
  moreover have "a < pa_next_attempt (palette_reducer s e)"
    using Cons.prems(2) palette_reducer_advances [of s e] by (simp add: advances_def)
  ultimately show ?case using Cons.IH by simp
qed simp

text \<open>
  The palette moves on for good: an answer to a request that the state has stopped waiting for
  changes nothing, however long the answer takes and whatever has happened since.
\<close>

theorem late_answers_are_ignored:
  assumes "a < pa_next_attempt s" and "\<not> awaits (pa_body s) a" and "answer_attempt ev = Some a"
  shows "palette_reducer (palette_run s evs) ev = palette_run s evs"
  using assms channel_later [of run_attempt s a evs] channel_later [of preflight_attempt s a evs]
    channel_later [of body_step_attempt s a evs]
  by (intro stale_answer [OF assms(3)]) (simp add: awaits_def channel_def)

fun run_answer :: "'c palette_event \<Rightarrow> nat option" where
  "run_answer (RunSucceeded a oc) = Some a"
| "run_answer (RunFailed a err) = Some a"
| "run_answer ev = None"

lemma run_answer_ignored:
  "run_answer ev = Some a \<Longrightarrow> run_attempt (pa_body s) \<noteq> Some a \<Longrightarrow> palette_reducer s ev = s"
  by (cases ev) (auto simp: run_succeeded_def run_failed_def run_matches_def)

text \<open>Nothing runs while a preflight is under way.\<close>

definition one_task :: "palette \<Rightarrow> bool" where
  "one_task s = (run_attempt (pa_body s) = None \<or> preflight_attempt (pa_body s) = None)"

lemma one_task_idle: "\<not> is_busy s \<Longrightarrow> run_attempt (pa_body s) = None \<and> preflight_attempt (pa_body s) = None"
  by (cases "pa_body s") (auto simp: is_busy_def holds_run_def)

lemma one_task_start:
  "one_task s \<Longrightarrow> one_task (start_preflight s entry cmd vals)"
  "one_task s \<Longrightarrow> one_task (start_run s entry c vals payloads)"
  "one_task s \<Longrightarrow> one_task (start_callback_run s r copy)"
  using one_task_idle [of s]
  by (auto simp: start_preflight_def start_run_def start_callback_run_def one_task_def split: if_splits)

lemma one_task_enter_step: "one_task (enter_step s fl spec query err)"
  by (rule enter_step_cases [of s fl spec query err]) (auto simp: one_task_def)

lemma one_task_start_flow: "one_task (start_flow s entry cmd ctx vals payloads)"
  by (simp add: start_flow_def Let_def one_task_enter_step)

lemma one_task_step: "pa_body s = Step b \<Longrightarrow> one_task s"
  by (simp add: one_task_def)

lemma one_task_accept_value: "one_task s \<Longrightarrow> one_task (accept_value s cmd ctx value label payload)"
  by (auto simp: accept_value_def Let_def one_task_enter_step one_task_start split: palette_body.split option.split)

lemma one_task_path:
  "one_task s \<Longrightarrow> path_step_view s = Some (b, v) \<Longrightarrow> one_task (path_accept s b v path)"
  "one_task s \<Longrightarrow> path_step_view s = Some (b, v) \<Longrightarrow> one_task (apply_path_intent s b v intent cmd ctx)"
proof -
  show path: "one_task s \<Longrightarrow> path_step_view s = Some (b, v) \<Longrightarrow> one_task (path_accept s b v path)" for path
    by (drule path_step_view_Some) (auto simp: path_accept_def one_task_def Let_def)
  show "one_task s \<Longrightarrow> path_step_view s = Some (b, v) \<Longrightarrow> one_task (apply_path_intent s b v intent cmd ctx)"
    by (cases intent) (simp_all add: apply_path_intent_def one_task_accept_value path)
qed

lemma one_task_simps [simp]:
  "one_task (with_body s b) = (run_attempt b = None \<or> preflight_attempt b = None)"
  "one_task (enqueue s e) = one_task s"
  by (simp_all add: one_task_def)

lemma one_task_search: "one_task s \<Longrightarrow> pa_body s = Search b \<Longrightarrow> se_run b = None \<or> se_preflight b = None"
  by (simp add: one_task_def)

lemma one_task_preflight_succeeded:
  assumes "one_task s"
  shows "one_task (preflight_succeeded s a entry cmd ctx r)"
proof (cases "pa_body s")
  case (Search b)
  have "one_task (with_body s (clear_preflight (pa_body s)))" by (simp add: Search)
  with assms show ?thesis
    by (cases r) (simp_all add: preflight_succeeded_def Let_def one_task_start_flow one_task_start)
qed (use assms in \<open>auto simp: preflight_succeeded_def\<close>)

lemma one_task_reducer:
  assumes "one_task s"
  shows "one_task (palette_reducer s ev)"
proof (cases ev)
  case (EffectsConsumed ids)
  with assms show ?thesis by (simp add: one_task_def)
next
  case (PreflightSucceeded a entry cmd ctx r)
  with assms show ?thesis by (simp add: one_task_preflight_succeeded)
next
  case (RunSucceeded a oc)
  with assms show ?thesis
    by (auto simp: run_succeeded_def idle_outcome_def one_task_def split: option.split command_outcome.split)
next
  case (BackEvent c ctx)
  then show ?thesis
    by (auto simp: palette_back_def search_state_def Let_def one_task_enter_step 
        split: palette_body.split option.split)
next
  case (OutcomeAction act)
  with assms show ?thesis by (auto intro: one_task_start split: option.split)
next
  case (PathNavigate delta)
  with assms show ?thesis
    by (auto simp: path_navigate_def Let_def split: option.split)
next
  case (ReviewLoaded a cmd ctx c)
  with assms show ?thesis
    by (auto simp: review_loaded_def update_review_def awaits_review_def Let_def one_task_start
        one_task_enter_step split: palette_body.split option.split step_data.split)
qed (use assms in \<open>auto simp: search_state_def query_changed_def activate_entry_def preflight_failed_def
       update_options_def update_review_def update_paths_def path_descend_def path_intent_event_def
       flow_failed_def idle_outcome_def run_failed_def Let_def one_task_start one_task_start_flow
       one_task_accept_value one_task_path
     dest: one_task_search split: palette_body.split option.split step_data.split\<close>)

lemma one_task_run: "one_task s \<Longrightarrow> one_task (palette_run s evs)"
  by (induction evs arbitrary: s) (auto intro: one_task_reducer)

lemma one_task_initial: "one_task initial_palette"
  by (simp add: one_task_def initial_palette_def)

lemma run_answer_releases:
  assumes "one_task s" and "run_attempt (pa_body s) = Some a" and "run_answer ev = Some a"
  shows "\<not> is_busy (palette_reducer s ev)"
proof -
  have "preflight_attempt (pa_body s) = None" using assms(1,2) by (simp add: one_task_def)
  with assms(2,3) show ?thesis
    by (cases ev) (auto simp: run_succeeded_def run_failed_def run_matches_def holds_run_def is_busy_def
        idle_outcome_def split: option.split command_outcome.split if_splits)
qed

text \<open>
  C37: a run's answer, success or failure, unlocks the palette, and it is taken once: whatever happens
  afterwards, a second answer to the same run changes nothing.
\<close>

theorem run_answers_apply_once:
  assumes "s = palette_run initial_palette evs" and "run_attempt (pa_body s) = Some a"
    and "run_answer ev = Some a" and "run_answer again = Some a"
  shows "\<not> is_busy (palette_reducer s ev) \<and>
    palette_reducer (palette_run (palette_reducer s ev) later) again = palette_run (palette_reducer s ev) later"
proof -
  have s: "palette_ok s" "one_task s"
    unfolding assms(1) by (intro palette_ok_run palette_ok_initial one_task_run one_task_initial)+
  have free: "\<not> is_busy (palette_reducer s ev)" by (rule run_answer_releases [OF s(2) assms(2,3)])
  then have "run_attempt (pa_body (palette_reducer s ev)) \<noteq> Some a" by (auto dest: one_task_idle)
  moreover have "a < pa_next_attempt (palette_reducer s ev)"
    using s(1) assms(2) palette_reducer_advances [of s ev] unfolding palette_ok_def advances_def
    by (meson less_le_trans)
  ultimately have "run_attempt (pa_body (palette_run (palette_reducer s ev) later)) \<noteq> Some a"
    using channel_later [of run_attempt "palette_reducer s ev" a later] by (simp add: channel_def)
  with free assms(4) show ?thesis by (simp add: run_answer_ignored)
qed

section \<open>A busy palette\<close>

definition no_new_work :: "palette \<Rightarrow> palette \<Rightarrow> bool" where
  "no_new_work s s' = (\<forall>e \<in> set (pa_effects s'). starts_work (snd e) \<longrightarrow> e \<in> set (pa_effects s))"

lemma no_new_work_simps [simp]:
  "no_new_work s s" "no_new_work s (with_body s b)"
  "no_new_work s (enqueue s' e) = (no_new_work s s' \<and> (starts_work e \<longrightarrow> (pa_next_effect s', e) \<in> set (pa_effects s)))"
  "no_new_work s (with_body (s\<lparr>pa_next_attempt := n\<rparr>) b)"
  by (auto simp: no_new_work_def)

lemma no_new_work_enter_step: "no_new_work s (enter_step s fl spec query err)"
  by (rule enter_step_cases [of s fl spec query err]) auto

lemma busy_start:
  "is_busy s \<Longrightarrow> start_preflight s entry cmd vals = s"
  "is_busy s \<Longrightarrow> start_run s entry c vals payloads = s"
  "is_busy s \<Longrightarrow> start_callback_run s r copy = s"
  by (simp_all add: start_preflight_def start_run_def start_callback_run_def)

lemma busy_path: "is_busy s \<Longrightarrow> path_step_view s = None"
  by (auto simp: path_step_view_def split: palette_body.split step_data.split)

text \<open>
  C38: while a run is in flight no event starts another run or a preflight: every such effect queued
  after the event was queued before it.
\<close>

theorem running_palette_starts_nothing:
  assumes "run_attempt (pa_body (palette_run initial_palette evs)) \<noteq> None"
    and "e \<in> set (pa_effects (palette_reducer (palette_run initial_palette evs) ev))" and "starts_work (snd e)"
  shows "e \<in> set (pa_effects (palette_run initial_palette evs))"
proof -
  define s where "s = palette_run initial_palette evs"
  have "one_task s" unfolding s_def by (intro one_task_run one_task_initial)
  with assms(1) have run: "preflight_attempt (pa_body s) = None" "is_busy s"
    by (cases "pa_body s"; auto simp: one_task_def s_def is_busy_def holds_run_def)+
  have "no_new_work s (palette_reducer s ev)"
  proof (cases ev)
    case (EffectsConsumed ids)
    then show ?thesis by (simp add: no_new_work_def)
  next
    case (RunSucceeded a oc)
    then show ?thesis
      by (auto simp: run_succeeded_def no_new_work_def split: option.split command_outcome.split)
  qed (auto simp: run busy_start busy_path query_changed_def activate_entry_def preflight_succeeded_def
         preflight_failed_def update_options_def update_review_def update_paths_def path_descend_def
         path_intent_event_def path_navigate_def flow_failed_def run_failed_def palette_back_def accept_value_def
         review_loaded_def start_flow_def no_new_work_enter_step Let_def
       split: palette_body.split option.split step_data.split)
  with assms(2,3) show ?thesis by (auto simp: no_new_work_def s_def)
qed

section \<open>Going back\<close>

lemma remove_put: "k \<notin> set (keys ps) \<Longrightarrow> remove_key k (put k v ps) = ps"
proof (induction k v ps rule: put.induct)
  case (1 k v)
  then show ?case by (simp add: remove_key_def)
next
  case (2 k v k' v' ps)
  then show ?case by (auto simp: remove_key_def)
qed

lemma prev_visible_step_skips:
  "i < j \<Longrightarrow> (\<forall>k. i < k \<longrightarrow> k < j \<longrightarrow> k < length args \<and> is_skipped (args ! k) ctx vals payloads) \<Longrightarrow>
   prev_visible_step args j ctx vals payloads = prev_visible_step args (Suc i) ctx vals payloads"
proof (induction j)
  case (Suc j)
  show ?case
  proof (cases "i = j")
    case False
    with Suc.prems have "i < j" "j < length args \<and> is_skipped (args ! j) ctx vals payloads" by auto
    with Suc show ?thesis by simp
  qed simp
qed simp

lemma next_visible_step_skips:
  assumes "j = next_visible_step args i ctx vals payloads" and "i \<le> k" and "k < j"
  shows "k < length args \<and> is_skipped (args ! k) ctx vals payloads"
proof -
  let ?tw = "takeWhile (\<lambda>a. is_skipped a ctx vals payloads) (drop i args)"
  have k: "k - i < length ?tw" using assms by (simp add: next_visible_step_def)
  have "length ?tw \<le> length (drop i args)" by (rule length_takeWhile_le)
  with k assms(2) have "k < length args" by simp
  moreover have "?tw ! (k - i) \<in> set ?tw" using k by (rule nth_mem)
  then have "is_skipped (?tw ! (k - i)) ctx vals payloads" by (rule set_takeWhileD [THEN conjunct2])
  moreover have "?tw ! (k - i) = args ! k"
    using k assms(2) \<open>k < length args\<close> by (simp add: takeWhile_nth)
  ultimately show ?thesis by simp
qed

lemma back_over_skipped:
  assumes "j = next_visible_step args (Suc i) ctx vals payloads" and "i < length args"
    and "\<not> is_skipped (args ! i) ctx vals payloads"
  shows "prev_visible_step args j ctx vals payloads = Some i"
proof -
  have "i < j" using assms(1) by (simp add: next_visible_step_def)
  then have "prev_visible_step args j ctx vals payloads = prev_visible_step args (Suc i) ctx vals payloads"
    by (rule prev_visible_step_skips) (use next_visible_step_skips [OF assms(1)] in auto)
  with assms(2,3) show ?thesis by simp
qed

lemma enter_step_flow:
  "\<exists>b. pa_body (enter_step s fl spec query err) = Step b \<and> st_flow b = fl"
  by (rule enter_step_cases [of s fl spec query err]) auto

definition unanswered :: "string \<Rightarrow> flow \<Rightarrow> bool" where
  "unanswered k fl =
     (k \<noteq> [] \<and> k \<notin> set (keys (fl_values fl)) \<and> k \<notin> set (keys (fl_payloads fl)) \<and> k \<notin> set (keys (fl_labels fl)))"

lemma dropped_accepted_flow:
  "unanswered k fl \<Longrightarrow> dropped_flow (accepted_flow fl k value label payload\<lparr>fl_step := j\<rparr>) k = fl\<lparr>fl_step := j\<rparr>"
  by (simp add: dropped_flow_def accepted_flow_def unanswered_def remove_put)


section \<open>The path step\<close>

lemma js_trim_buffer: "js_trim p = p \<Longrightarrow> path_buffer_value p = p"
  by (simp add: path_buffer_value_def)

text \<open>
  Enter on a highlighted directory browses: it puts the directory in the buffer and runs nothing.
  The next Enter submits exactly what the buffer shows, whether or not its listing has arrived.
\<close>

theorem enter_browses_then_submits:
  assumes "path_step_view s = Some (b, v)" and "highlighted_path_suggestion v = Some sug"
    and "js_trim (ps_path sug) = ps_path sug" and "ps_path sug \<noteq> []"
  shows "(\<exists>b1. pa_body (palette_reducer s (PathEnter cmd ctx)) = Step b1 \<and> st_flow b1 = st_flow b \<and>
       path_buffer_value (st_query b1) = ps_path sug) \<and>
     list_all (\<lambda>e. \<not> starts_work (snd e) \<or> e \<in> set (pa_effects s))
       (pa_effects (palette_reducer s (PathEnter cmd ctx))) \<and>
     palette_reducer (palette_reducer s (PathEnter cmd ctx)) (PathEnter cmd ctx) =
       accept_value (palette_reducer s (PathEnter cmd ctx)) cmd ctx (ps_path sug) (ps_path sug) JUndefined"
proof -
  have v: "pa_body s = Step b" "st_data b = PathData (snd v)" "fst v = st_query b" "\<not> is_busy s"
    using path_step_view_Some [OF assms(1)] by auto
  then have idle: "st_run b = None" by (simp add: is_busy_def holds_run_def)
  have s1: "palette_reducer s (PathEnter cmd ctx) = path_accept s b v (ps_path sug)"
    using assms(1,2) by (simp add: path_intent_event_def next_path_intent_def apply_path_intent_def)
  show ?thesis
  proof (cases "ps_path sug = path_buffer_value (st_query b)")
    case True
    then show ?thesis
      using v idle assms unfolding s1
      by (auto simp: path_accept_def path_intent_event_def path_step_view_def is_busy_def holds_run_def
          next_path_intent_def highlighted_path_suggestion_def apply_path_intent_def list_all_iff)
  next
    case False
    then show ?thesis
      using v idle assms js_trim_buffer [OF assms(3)] unfolding s1
      by (auto simp: path_accept_def path_intent_event_def path_step_view_def is_busy_def holds_run_def
          next_path_intent_def highlighted_path_suggestion_def apply_path_intent_def list_all_iff Let_def)
  qed
qed

section \<open>Steps and arguments\<close>

fun data_fits :: "'c arg_spec option \<Rightarrow> step_data \<Rightarrow> bool" where
  "data_fits (Some (SelectArg k l opts dflt fin sk)) (OptionData kind os ld e a) = (kind = SelectKind)"
| "data_fits (Some (ComboArg k l pre opts dflt hint fin)) (OptionData kind os ld e a) = (kind = ComboKind)"
| "data_fits (Some (ReviewArg k l)) (ReviewData c ld e a) = True"
| "data_fits (Some (PathArg k l)) (PathData p) = True"
| "data_fits (Some (TextArg k l dflt)) TextData = True"
| "data_fits None TextData = True"
| "data_fits _ _ = False"

text \<open>The arguments of the commands the palette knows, by entry and command.\<close>

type_synonym 'c catalog = "string \<Rightarrow> string \<Rightarrow> 'c arg_spec list option"

definition flow_fits :: "'c catalog \<Rightarrow> flow \<Rightarrow> step_data \<Rightarrow> bool" where
  "flow_fits catalog fl d =
     (case catalog (fl_entry fl) (fl_command fl) of
        None \<Rightarrow> False
      | Some args \<Rightarrow> (fl_step fl < length args \<or> args = []) \<and> data_fits (arg_at args (fl_step fl)) d)"

fun body_fits :: "'c catalog \<Rightarrow> palette_body \<Rightarrow> bool" where
  "body_fits catalog (Step b) = flow_fits catalog (st_flow b) (st_data b)"
| "body_fits catalog _ = True"

text \<open>The view looks a step's command and argument up by the ids in the flow.\<close>

definition names_command :: "'c catalog \<Rightarrow> palette \<Rightarrow> 'c command \<Rightarrow> bool" where
  "names_command catalog s cmd =
     (case pa_body s of
        Step b \<Rightarrow> catalog (fl_entry (st_flow b)) (fl_command (st_flow b)) = Some (cm_args cmd)
      | _ \<Rightarrow> True)"

fun event_fits :: "'c catalog \<Rightarrow> palette \<Rightarrow> 'c palette_event \<Rightarrow> bool" where
  "event_fits catalog s (Autostart entry cmd ctx vals) = (catalog entry (cm_id cmd) = Some (cm_args cmd))"
| "event_fits catalog s (ActivateEntry en ctx) =
     (case en_command en of None \<Rightarrow> True | Some cmd \<Rightarrow> catalog (en_id en) (cm_id cmd) = Some (cm_args cmd))"
| "event_fits catalog s (PreflightSucceeded a entry cmd ctx r) = (catalog entry (cm_id cmd) = Some (cm_args cmd))"
| "event_fits catalog s (QueryChanged q spec) =
     (case pa_body s of
        Step b \<Rightarrow> (case catalog (fl_entry (st_flow b)) (fl_command (st_flow b)) of
                     None \<Rightarrow> False | Some args \<Rightarrow> spec = arg_at args (fl_step (st_flow b)))
      | _ \<Rightarrow> True)"
| "event_fits catalog s (AcceptValue cmd ctx value label payload) = names_command catalog s cmd"
| "event_fits catalog s (AcceptReviewChoice cmd ctx choice) = names_command catalog s cmd"
| "event_fits catalog s (PathEnter cmd ctx) = names_command catalog s cmd"
| "event_fits catalog s (PathPick i cmd ctx) = names_command catalog s cmd"
| "event_fits catalog s (ReviewLoaded a cmd ctx c) = names_command catalog s cmd"
| "event_fits catalog s (BackEvent (Some cmd) ctx) = names_command catalog s cmd"
| "event_fits catalog s _ = True"

fun run_fits :: "'c catalog \<Rightarrow> palette \<Rightarrow> 'c palette_event list \<Rightarrow> bool" where
  "run_fits catalog s [] = True"
| "run_fits catalog s (ev # evs) = (event_fits catalog s ev \<and> run_fits catalog (palette_reducer s ev) evs)"

lemma with_run_fits [simp]: "body_fits catalog (with_run r c e b) = body_fits catalog b"
  by (cases b) simp_all

lemma start_fits:
  "body_fits catalog (pa_body s) \<Longrightarrow> body_fits catalog (pa_body (start_run s entry c vals payloads))"
  "body_fits catalog (pa_body s) \<Longrightarrow> body_fits catalog (pa_body (start_callback_run s r copy))"
  "body_fits catalog (pa_body s) \<Longrightarrow> body_fits catalog (pa_body (start_preflight s entry cmd vals))"
  by (simp_all add: start_run_def start_callback_run_def start_preflight_def)

lemma enter_step_fits:
  assumes "catalog (fl_entry fl) (fl_command fl) = Some args" and "fl_step fl < length args \<or> args = []"
  shows "body_fits catalog (pa_body (enter_step s fl (arg_at args (fl_step fl)) query err))"
proof (cases "arg_at args (fl_step fl)")
  case None
  with assms show ?thesis by (simp add: enter_step_def make_step_data_def flow_fits_def)
next
  case (Some spec)
  with assms show ?thesis
    by (cases spec) (auto simp: enter_step_def make_step_data_def flow_fits_def Let_def)
qed

lemma find_index_bound: "find_index P xs = Some i \<Longrightarrow> i < length xs"
  by (induction xs arbitrary: i) (auto split: if_splits)

lemma start_flow_fits:
  assumes "catalog entry (cm_id cmd) = Some (cm_args cmd)"
  shows "body_fits catalog (pa_body (start_flow s entry cmd ctx vals payloads))"
proof -
  have "first_unfilled_step (cm_args cmd) vals < length (cm_args cmd) \<or> cm_args cmd = []"
    by (auto simp: first_unfilled_step_def dest: find_index_bound split: option.split)
  with assms show ?thesis
    unfolding start_flow_def Let_def
    by (intro enter_step_fits [of _ "\<lparr>fl_entry = entry, fl_command = cm_id cmd, fl_values = vals,
          fl_payloads = payloads, fl_labels = initial_labels (cm_args cmd) ctx vals,
          fl_step = first_unfilled_step (cm_args cmd) vals\<rparr>" "cm_args cmd", simplified]) auto
qed

lemma moved_step_fits:
  assumes "catalog (fl_entry fl) (fl_command fl) = Some args" and "i < length args \<or> args = []"
  shows "body_fits catalog (pa_body (enter_step s (fl\<lparr>fl_step := i\<rparr>) (arg_at args i) query err))"
  using enter_step_fits [of catalog "fl\<lparr>fl_step := i\<rparr>" args s query err] assms by simp

lemma accepted_flow_ids [simp]:
  "fl_entry (accepted_flow fl k value label payload) = fl_entry fl"
  "fl_command (accepted_flow fl k value label payload) = fl_command fl"
  "fl_step (accepted_flow fl k value label payload) = fl_step fl"
  by (simp_all add: accepted_flow_def)

lemma dropped_flow_ids [simp]:
  "fl_entry (dropped_flow fl k) = fl_entry fl" "fl_command (dropped_flow fl k) = fl_command fl"
  by (simp_all add: dropped_flow_def)

lemma accept_value_fits:
  assumes "body_fits catalog (pa_body s)" and "names_command catalog s cmd"
  shows "body_fits catalog (pa_body (accept_value s cmd ctx value label payload))"
  using assms
  by (auto simp: accept_value_def names_command_def Let_def start_fits
      intro!: moved_step_fits split: palette_body.split option.split)

text \<open>Only the kind of the data matters.\<close>

lemma data_fits_kind:
  "data_fits spec (PathData p) = data_fits spec (PathData q)"
  "data_fits spec (OptionData k opts ld e a) = data_fits spec (OptionData k opts' ld' e' a')"
  "data_fits spec (ReviewData c ld e a) = data_fits spec (ReviewData c' ld' e' a')"
proof -
  show "data_fits spec (PathData p) = data_fits spec (PathData q)"
    by (cases spec; (cases "the spec")?) auto
  show "data_fits spec (OptionData k opts ld e a) = data_fits spec (OptionData k opts' ld' e' a')"
    by (cases spec; (cases "the spec")?) auto
  show "data_fits spec (ReviewData c ld e a) = data_fits spec (ReviewData c' ld' e' a')"
    by (cases spec; (cases "the spec")?) auto
qed

lemma flow_fits_kind:
  "flow_fits catalog fl (PathData p) \<Longrightarrow> flow_fits catalog fl (PathData q)"
  "flow_fits catalog fl (OptionData k opts ld e a) \<Longrightarrow> flow_fits catalog fl (OptionData k opts' ld' e' a')"
  "flow_fits catalog fl (ReviewData c ld e a) \<Longrightarrow> flow_fits catalog fl (ReviewData c' ld' e' a')"
  unfolding flow_fits_def
  using data_fits_kind(1) [of _ p q] data_fits_kind(2) [of _ k opts ld e a opts' ld' e' a']
    data_fits_kind(3) [of _ c ld e a c' ld' e' a']
  by (auto split: option.splits)

lemma path_accept_fits:
  assumes "path_step_view s = Some (b, v)" and "body_fits catalog (pa_body s)"
  shows "body_fits catalog (pa_body (path_accept s b v path))"
  using path_step_view_Some [OF assms(1)] assms(2)
  by (auto simp: path_accept_def Let_def elim: flow_fits_kind)

lemma path_intent_fits:
  assumes "path_step_view s = Some (b, v)" and "body_fits catalog (pa_body s)" and "names_command catalog s cmd"
  shows "body_fits catalog (pa_body (apply_path_intent s b v intent cmd ctx))"
  using assms by (cases intent) (simp_all add: apply_path_intent_def path_accept_fits accept_value_fits)

lemma preflight_succeeded_fits:
  assumes "body_fits catalog (pa_body s)" and "catalog entry (cm_id cmd) = Some (cm_args cmd)"
  shows "body_fits catalog (pa_body (preflight_succeeded s a entry cmd ctx r))"
proof -
  have "body_fits catalog (clear_preflight (pa_body s))" using assms(1) by (cases "pa_body s") simp_all
  then show ?thesis
    using assms start_fits(1) [of catalog "with_body s (clear_preflight (pa_body s))"]
    by (auto simp: preflight_succeeded_def Let_def start_flow_fits split: preflight_result.split)
qed

lemma prev_visible_step_less: "prev_visible_step args j ctx vals payloads = Some i \<Longrightarrow> i < j"
  by (induction args j ctx vals payloads rule: prev_visible_step.induct) (auto split: if_splits)

lemma palette_back_fits:
  assumes "body_fits catalog (pa_body s)" and "\<And>c. cmd = Some c \<Longrightarrow> names_command catalog s c"
  shows "body_fits catalog (pa_body (palette_back s cmd ctx))"
proof (cases "pa_body s")
  case (Step b)
  show ?thesis
  proof (cases cmd)
    case (Some c)
    with assms Step have c: "catalog (fl_entry (st_flow b)) (fl_command (st_flow b)) = Some (cm_args c)"
      "fl_step (st_flow b) < length (cm_args c) \<or> cm_args c = []"
      by (auto simp: names_command_def flow_fits_def)
    show ?thesis
    proof (cases "prev_visible_step (cm_args c) (fl_step (st_flow b)) ctx (fl_values (st_flow b))
        (fl_payloads (st_flow b))")
      case None
      with Some Step show ?thesis by (simp add: palette_back_def search_state_def)
    next
      case prev: (Some i)
      then have "i < fl_step (st_flow b)" by (rule prev_visible_step_less)
      with c(2) have "i < length (cm_args c) \<or> cm_args c = []" by auto
      have eq: "palette_back s cmd ctx = enter_step s
          ((case arg_at (cm_args c) i of None \<Rightarrow> st_flow b
            | Some spec \<Rightarrow> dropped_flow (st_flow b) (arg_key spec))\<lparr>fl_step := i\<rparr>) (arg_at (cm_args c) i) [] None"
        using Some Step prev by (simp add: palette_back_def Let_def)
      show ?thesis
        unfolding eq by (rule moved_step_fits) (use c(1) \<open>i < length (cm_args c) \<or> cm_args c = []\<close> in
          \<open>auto split: option.split\<close>)
    qed
  qed (simp add: palette_back_def search_state_def Step)
qed (simp_all add: palette_back_def search_state_def)

lemma review_loaded_fits:
  assumes "body_fits catalog (pa_body s)" and "names_command catalog s cmd"
  shows "body_fits catalog (pa_body (review_loaded s a cmd ctx c))"
proof (cases "pa_body s")
  case (Step b)
  show ?thesis
  proof (cases "awaits_review b a")
    case True
    then obtain old ld e where "st_data b = ReviewData old ld e a"
      by (auto simp: awaits_review_def split: step_data.splits)
    with Step True assms show ?thesis
      by (auto simp: review_loaded_def update_review_def names_command_def flow_fits_def Let_def start_fits
          intro!: moved_step_fits split: option.splits elim: data_fits.elims)
  qed (use assms Step in \<open>simp add: review_loaded_def\<close>)
qed (use assms in \<open>simp_all add: review_loaded_def\<close>)

lemma query_changed_fits:
  assumes "body_fits catalog (pa_body s)" and "event_fits catalog s (QueryChanged q spec)"
  shows "body_fits catalog (pa_body (query_changed s q spec))"
proof (cases "pa_body s")
  case (Step b)
  show ?thesis
  proof (cases "is_path_arg spec")
    case True
    then have "data_fits spec (PathData p)" for p by (cases spec rule: is_path_arg.cases) auto
    with True Step assms show ?thesis
      by (auto simp: query_changed_def flow_fits_def Let_def split: option.splits)
  qed (use assms Step in \<open>simp add: query_changed_def\<close>)
qed (use assms in \<open>simp_all add: query_changed_def\<close>)

lemma activate_entry_fits:
  assumes "body_fits catalog (pa_body s)" and "event_fits catalog s (ActivateEntry en ctx)"
  shows "body_fits catalog (pa_body (activate_entry s en ctx))"
  using assms
  by (auto simp: activate_entry_def start_fits start_flow_fits split: palette_body.split option.splits)

lemma update_fits:
  assumes "body_fits catalog (pa_body s)"
  shows "body_fits catalog (pa_body (update_options s a opts err))"
    and "body_fits catalog (pa_body (update_review s a c err))"
    and "body_fits catalog (pa_body (update_paths s a sugs err))"
  using assms
  by (auto simp: update_options_def update_review_def update_paths_def elim: flow_fits_kind
      split: palette_body.split step_data.split)

lemma path_move_fits:
  assumes "body_fits catalog (pa_body s)"
  shows "body_fits catalog (pa_body (path_navigate s delta))" and "body_fits catalog (pa_body (path_descend s))"
proof -
  show "body_fits catalog (pa_body (path_navigate s delta))"
    using assms by (auto simp: path_navigate_def Let_def elim: flow_fits_kind dest!: path_step_view_Some split: option.split)
  show "body_fits catalog (pa_body (path_descend s))"
    using assms by (auto simp: path_descend_def intro: path_accept_fits split: option.split)
qed

lemma palette_reducer_fits:
  assumes "body_fits catalog (pa_body s)" and "event_fits catalog s ev"
  shows "body_fits catalog (pa_body (palette_reducer s ev))"
proof (cases ev)
  case (BackEvent cmd ctx)
  with assms show ?thesis by (cases cmd) (auto intro: palette_back_fits)
next
  case (PathEnter cmd ctx)
  with assms show ?thesis by (auto simp: path_intent_event_def intro: path_intent_fits split: option.split)
next
  case (PathPick i cmd ctx)
  with assms show ?thesis by (auto simp: path_intent_event_def intro: path_intent_fits split: option.split)
next
  case (QueryChanged q spec)
  with assms show ?thesis by (simp add: query_changed_fits del: event_fits.simps)
next
  case (ActivateEntry en ctx)
  with assms show ?thesis by (simp add: activate_entry_fits del: event_fits.simps)
next
  case (OutcomeAction act)
  with assms show ?thesis by (auto simp: start_fits split: option.split)
next
  case (RunSucceeded a oc)
  with assms show ?thesis by (auto simp: run_succeeded_def split: option.split command_outcome.split)
qed (use assms in \<open>auto simp: search_state_def start_fits start_flow_fits preflight_succeeded_fits preflight_failed_def
       update_fits review_loaded_fits accept_value_fits path_move_fits flow_failed_def run_failed_def names_command_def
     split: palette_body.split\<close>)

text \<open>
  C40: as long as every event names the command of the step it is sent to, a step's index is in range
  and its data is of the kind of its argument: no listing is ever shown under a choice, and no options
  under a path.
\<close>

theorem step_data_fits_argument:
  assumes "run_fits catalog initial_palette evs"
  shows "body_fits catalog (pa_body (palette_run initial_palette evs))"
proof -
  have "body_fits catalog (pa_body s) \<Longrightarrow> run_fits catalog s evs \<Longrightarrow> body_fits catalog (pa_body (palette_run s evs))" for s
    by (induction evs arbitrary: s) (auto intro: palette_reducer_fits)
  with assms show ?thesis by (simp add: initial_palette_def)
qed

section \<open>A palette session\<close>

text \<open>A command that asks for a name and then a directory, and what a person does with it.\<close>

definition add_command :: "unit command" where
  "add_command = \<lparr>cm_id = ''add'', cm_preflight = False,
     cm_args = [TextArg ''name'' ''Name'' None, PathArg ''path'' ''Path'']\<rparr>"

definition add_entry :: "unit entry" where
  "add_entry = \<lparr>en_id = ''add'', en_values = [], en_command = Some add_command\<rparr>"

definition add_catalog :: "unit catalog" where
  "add_catalog e c = (if e = ''add'' \<and> c = ''add'' then Some (cm_args add_command) else None)"

definition home :: path_suggestion where
  "home = \<lparr>ps_label = ''home'', ps_path = ''/home'', ps_hidden = None\<rparr>"

definition opened_add :: "unit palette_event list" where
  "opened_add = [OpenEvent, ActivateEntry add_entry ()]"

definition browsed_add :: "unit palette_event list" where
  "browsed_add = opened_add @ [AcceptValue add_command () ''isagi'' ''isagi'' JUndefined, PathsLoaded 1 [home],
     PathNavigate 1]"

definition running_add :: "unit palette_event list" where
  "running_add = browsed_add @ [PathEnter add_command (), PathEnter add_command ()]"

lemmas session_defs = opened_add_def browsed_add_def running_add_def

lemma session_states:
  "run_attempt (pa_body (palette_run initial_palette running_add)) = Some 3"
  "pa_next_attempt (palette_run initial_palette running_add) = 4"
  by code_simp+

lemmas machine_defs = initial_palette_def search_state_def activate_entry_def start_flow_def first_unfilled_step_def
  initial_labels_def initial_text_query_def arg_at_def enter_step_def make_step_data_def accept_value_def
  accepted_flow_def next_visible_step_def update_paths_def path_navigate_def path_step_view_def
  moved_path_highlight_def selectable_path_suggestions_def path_suggestions_are_stale_def move_index_def
  path_intent_event_def next_path_intent_def highlighted_path_suggestion_def element_at_def
  apply_path_intent_def path_accept_def path_buffer_value_def js_trim_def white_def start_run_def is_busy_def
  holds_run_def

lemma session_fits: "run_fits add_catalog initial_palette running_add"
  by (simp add: session_defs machine_defs add_command_def add_entry_def add_catalog_def names_command_def home_def
      Let_def)

text \<open>The states of the session, evaluated.\<close>

definition ran :: palette where "ran = palette_run initial_palette running_add"

definition browsed :: palette where "browsed = palette_run initial_palette browsed_add"

lemma late_answers_are_ignored_witness:
  "palette_reducer (palette_run ran [BackEvent None ()]) (PathsLoaded 1 [home] :: unit palette_event) =
     palette_run ran [BackEvent None ()]"
proof (rule late_answers_are_ignored)
  show "1 < pa_next_attempt ran" unfolding ran_def session_states by simp
  have "run_attempt (pa_body ran) = Some 3 \<and> preflight_attempt (pa_body ran) = None \<and>
      body_step_attempt (pa_body ran) = Some 2" by code_simp
  then show "\<not> awaits (pa_body ran) 1" by (simp add: awaits_def)
qed simp

lemma run_answers_apply_once_witness:
  "\<not> is_busy (palette_reducer ran (RunFailed 3 ''gone'' :: unit palette_event)) \<and>
   palette_reducer (palette_run (palette_reducer ran (RunFailed 3 ''gone'')) [OpenEvent])
     (RunSucceeded 3 None :: unit palette_event) =
   palette_run (palette_reducer ran (RunFailed 3 ''gone'' :: unit palette_event)) [OpenEvent :: unit palette_event]"
  using run_answers_apply_once [of ran running_add 3 "RunFailed 3 ''gone'' :: unit palette_event"
      "RunSucceeded 3 None" "[OpenEvent]"] session_states(1) by (simp add: ran_def)

lemma running_palette_starts_nothing_witness:
  "(3, RunEffect 3 ''add'' (Some ''add'') [(''name'', ''isagi''), (''path'', ''/home'')]
      [(''name'', JUndefined), (''path'', JUndefined)]) \<in>
     set (pa_effects (palette_run initial_palette running_add))"
proof (rule running_palette_starts_nothing)
  show "run_attempt (pa_body (palette_run initial_palette running_add)) \<noteq> None" by (simp add: session_states)
  show "(3, RunEffect 3 ''add'' (Some ''add'') [(''name'', ''isagi''), (''path'', ''/home'')]
      [(''name'', JUndefined), (''path'', JUndefined)]) \<in>
     set (pa_effects (palette_reducer (palette_run initial_palette running_add) (ActivateEntry add_entry ())))"
    by code_simp
qed simp


lemma enter_browses_then_submits_witness:
  "\<exists>b1. pa_body (palette_reducer browsed (PathEnter add_command ())) = Step b1 \<and>
     path_buffer_value (st_query b1) = ''/home''"
proof -
  have "highlighted_path_suggestion (snd (the (path_step_view browsed))) = Some home \<and>
      path_step_view browsed \<noteq> None \<and> js_trim (ps_path home) = ps_path home \<and> ps_path home = ''/home''"
    by code_simp
  then obtain b v where "path_step_view browsed = Some (b, v)" "highlighted_path_suggestion v = Some home"
    "js_trim (ps_path home) = ps_path home" "ps_path home = ''/home''" by auto
  with enter_browses_then_submits [of browsed b v home add_command "()"] show ?thesis by auto
qed

lemma step_data_fits_argument_witness:
  "body_fits add_catalog (pa_body (palette_run initial_palette running_add))"
  by (rule step_data_fits_argument [OF session_fits])

end
