(* ===== verification/Checkpoint_Files.thy ===== *)
theory Checkpoint_Files
  imports Checkpoint_Plan
begin

text \<open>
  Copying a checkpoint's scopes out of a checkout, \<^verbatim>\<open>checkpoints/capture.ts\<close>, and making a
  destination match those copies, \<^verbatim>\<open>checkpoints/mirror.ts\<close>. A directory tree is a value:
  its entries in the order \<open>readdir\<close> lists them, regular files with their bytes and executable bit,
  links whose target is outside the model, and everything else. Nothing else writes to the tree
  while the code works on it. The content store is an argument, the pair of its \<open>put\<close> and \<open>open\<close>;
  what the code relies on of it is the locale \<open>saved_bytes\<close>, which \<open>Content_Store\<close> interprets.
\<close>

section \<open>Directory trees\<close>

type_synonym bytes = string

datatype node = Dir "(string \<times> node) list" | Reg bytes bool | Link | Special

fun is_dir :: "node \<Rightarrow> bool" where
  "is_dir (Dir es) = True"
| "is_dir _ = False"

fun is_reg :: "node \<Rightarrow> bool" where
  "is_reg (Reg b x) = True"
| "is_reg _ = False"

text \<open>
  \<open>lstat\<close>, null for \<open>ENOENT\<close>: a component below a file is \<open>ENOTDIR\<close>, and one below a link would be
  read through it, which the model does not answer.
\<close>

datatype fs_error = NotADirectory | ThroughLink

fun lstat_or_null :: "node \<Rightarrow> string list \<Rightarrow> fs_error + node option" where
  "lstat_or_null n [] = Inr (Some n)"
| "lstat_or_null (Dir es) (s # ss) =
     (case map_of es s of None \<Rightarrow> Inr None | Some m \<Rightarrow> lstat_or_null m ss)"
| "lstat_or_null Link (s # ss) = Inl ThroughLink"
| "lstat_or_null (Reg b x) (s # ss) = Inl NotADirectory"
| "lstat_or_null Special (s # ss) = Inl NotADirectory"

definition set_entry :: "string \<Rightarrow> node option \<Rightarrow> (string \<times> node) list \<Rightarrow> (string \<times> node) list" where
  "set_entry s v es = (case v of None \<Rightarrow> filter (\<lambda>e. fst e \<noteq> s) es | Some n \<Rightarrow> put s n es)"

text \<open>Unlinking, creating or replacing the entry at a path whose parents are directories.\<close>

fun change :: "string list \<Rightarrow> node option \<Rightarrow> node \<Rightarrow> node" where
  "change [s] v (Dir es) = Dir (set_entry s v es)"
| "change (s # s' # ss) v (Dir es) =
     (case map_of es s of None \<Rightarrow> Dir es | Some m \<Rightarrow> Dir (put s (change (s' # ss) v m) es))"
| "change p v n = n"

section \<open>Capture\<close>

datatype capture_error =
    LinkInScope string string | ScopeNotADirectory string string | ScopeNotAFile string string
  | CaptureFilesystem fs_error | CouldNotSave string

record captured_file =
  cf_path :: string
  cf_sha256 :: string
  cf_size :: nat
  cf_executable :: bool

record captured_scope = scope +
  cs_missing :: bool
  cs_files :: "captured_file list"

datatype publish_error = CaptureClosed | CouldNotPublish

type_synonym 'c content_put = "bytes \<Rightarrow> 'c \<Rightarrow> (publish_error + string \<times> nat) \<times> 'c"

datatype content_cause = ContentMissing | ContentCorrupt

type_synonym 'c content_open = "'c \<Rightarrow> string \<Rightarrow> content_cause + bytes"

definition is_excluded :: "'z scope_scheme \<Rightarrow> string \<Rightarrow> bool" where
  "is_excluded s path =
     list_ex (\<lambda>exclusion. path_contains (sc_path s @ slash # exclusion) path) (sc_exclude s)"

text \<open>Whether the scope's path exists, one component at a time; \<open>before\<close> are those already passed.\<close>

fun locate :: "node \<Rightarrow> scope \<Rightarrow> string list \<Rightarrow> string list \<Rightarrow> capture_error + bool" where
  "locate root s before [] = Inr True"
| "locate root s before (part # rest) =
     (let relative = before @ [part]; at_end = (rest = []) in
      case lstat_or_null root relative of
        Inl e \<Rightarrow> Inl (CaptureFilesystem e)
      | Inr None \<Rightarrow> Inr False
      | Inr (Some n) \<Rightarrow>
          if n = Link then Inl (LinkInScope (sc_name s) (join_segments relative))
          else if \<not> at_end \<and> \<not> is_dir n then Inr False
          else if at_end \<and> sc_kind s = DirectoryScope \<and> \<not> is_dir n
          then Inl (ScopeNotADirectory (sc_name s) (sc_path s))
          else if at_end \<and> sc_kind s = FileScope \<and> \<not> is_reg n
          then Inl (ScopeNotAFile (sc_name s) (sc_path s))
          else locate root s relative rest)"

type_synonym ('c, 'a) copying = "'c \<Rightarrow> (capture_error + 'a) \<times> 'c"

definition and_copy :: "('c, 'a) copying \<Rightarrow> ('a \<Rightarrow> ('c, 'b) copying) \<Rightarrow> ('c, 'b) copying" where
  "and_copy m f = (\<lambda>c. case m c of (Inl e, c1) \<Rightarrow> (Inl e, c1) | (Inr a, c1) \<Rightarrow> f a c1)"

definition copy_file :: "'c content_put \<Rightarrow> string \<Rightarrow> bytes \<Rightarrow> bool \<Rightarrow> ('c, captured_file) copying" where
  "copy_file store path b executable = (\<lambda>c.
     case store b c of
       (Inl _, c1) \<Rightarrow> (Inl (CouldNotSave path), c1)
     | (Inr (content_ref, byte_size), c1) \<Rightarrow>
         (Inr \<lparr>cf_path = path, cf_sha256 = drop (length ''sha256:'') content_ref, cf_size = byte_size,
               cf_executable = executable\<rparr>, c1))"

text \<open>The entries of one directory, in the order they are listed.\<close>

function walk_directory ::
    "'c content_put \<Rightarrow> scope \<Rightarrow> string \<Rightarrow> (string \<times> node) list \<Rightarrow> ('c, captured_file list) copying" where
  "walk_directory store s directory [] = (\<lambda>c. (Inr [], c))"
| "walk_directory store s directory ((name, n) # rest) =
     (let path = directory @ slash # name in
      if name = ''.git'' \<or> is_excluded s path then walk_directory store s directory rest
      else case n of
        Dir es \<Rightarrow>
          and_copy (walk_directory store s path es) (\<lambda>files.
          and_copy (walk_directory store s directory rest) (\<lambda>others c. (Inr (files @ others), c)))
      | Reg b x \<Rightarrow>
          and_copy (copy_file store path b x) (\<lambda>file.
          and_copy (walk_directory store s directory rest) (\<lambda>others c. (Inr (file # others), c)))
      | _ \<Rightarrow> walk_directory store s directory rest)"
  by pat_completeness auto
termination by (relation "measure (\<lambda>(store, s, directory, es). size (Dir es))") auto

definition capture_scope :: "'c content_put \<Rightarrow> node \<Rightarrow> scope \<Rightarrow> ('c, captured_scope) copying" where
  "capture_scope store root s = (\<lambda>c.
     case locate root s [] (segments (sc_path s)) of
       Inl e \<Rightarrow> (Inl e, c)
     | Inr False \<Rightarrow> (Inr (scope.extend s \<lparr>cs_missing = True, cs_files = []\<rparr>), c)
     | Inr True \<Rightarrow>
         and_copy
           (case (sc_kind s, lstat_or_null root (segments (sc_path s))) of
              (_, Inl e) \<Rightarrow> (\<lambda>c. (Inl (CaptureFilesystem e), c))
            | (FileScope, Inr (Some (Reg b x))) \<Rightarrow>
                and_copy (copy_file store (sc_path s) b x) (\<lambda>file c. (Inr [file], c))
            | (DirectoryScope, Inr (Some (Dir es))) \<Rightarrow>
                and_copy (walk_directory store s (sc_path s) es)
                  (\<lambda>files c. (Inr (sort_key cf_path files), c))
            | (_, Inr _) \<Rightarrow> (\<lambda>c. (Inl (CaptureFilesystem NotADirectory), c)))
           (\<lambda>files c. (Inr (scope.extend s \<lparr>cs_missing = False, cs_files = files\<rparr>), c)) c)"

fun capture_scopes :: "'c content_put \<Rightarrow> node \<Rightarrow> scope list \<Rightarrow> ('c, captured_scope list) copying" where
  "capture_scopes store root [] = (\<lambda>c. (Inr [], c))"
| "capture_scopes store root (s # ss) =
     and_copy (capture_scope store root s) (\<lambda>captured.
     and_copy (capture_scopes store root ss) (\<lambda>others c. (Inr (captured # others), c)))"

section \<open>Mirror\<close>

datatype mirror_error = SavedCopyGone string content_cause | MirrorFilesystem fs_error

fun parents_are_directories :: "node \<Rightarrow> string list \<Rightarrow> string list \<Rightarrow> fs_error + bool" where
  "parents_are_directories t before (s # s' # ss) =
     (case lstat_or_null t (before @ [s]) of
        Inl e \<Rightarrow> Inl e
      | Inr (Some (Dir es)) \<Rightarrow> parents_are_directories t (before @ [s]) (s' # ss)
      | Inr _ \<Rightarrow> Inr False)"
| "parents_are_directories t before ss = Inr True"

text \<open>
  Below a directory: what is left of its entries, and whether something was deleted. A directory
  that had something deleted and is left empty is removed.
\<close>

function prune_entries ::
    "'z scope_scheme \<Rightarrow> string \<Rightarrow> string list \<Rightarrow> (string \<times> node) list \<Rightarrow> (string \<times> node) list \<times> bool" where
  "prune_entries s directory keep [] = ([], False)"
| "prune_entries s directory keep ((name, n) # rest) =
     (let path = directory @ slash # name;
          (rest', deleted) = prune_entries s directory keep rest in
      if name = ''.git'' \<or> is_excluded s path then ((name, n) # rest', deleted)
      else case n of
        Dir es \<Rightarrow>
          (let (es', deleted') = prune_entries s path keep es in
           if deleted' \<and> es' = [] then (rest', True) else ((name, Dir es') # rest', deleted))
      | Reg b x \<Rightarrow> if path \<in> set keep then ((name, n) # rest', deleted) else (rest', True)
      | _ \<Rightarrow> ((name, n) # rest', deleted))"
  by pat_completeness auto
termination by (relation "measure (\<lambda>(s, directory, keep, es). size (Dir es))") auto

definition prune :: "'z scope_scheme \<Rightarrow> string list \<Rightarrow> node \<Rightarrow> fs_error + node" where
  "prune s keep t =
     (case parents_are_directories t [] (segments (sc_path s)) of
        Inl e \<Rightarrow> Inl e
      | Inr False \<Rightarrow> Inr t
      | Inr True \<Rightarrow>
          (case lstat_or_null t (segments (sc_path s)) of
             Inl e \<Rightarrow> Inl e
           | Inr None \<Rightarrow> Inr t
           | Inr (Some (Dir es)) \<Rightarrow>
               (let (es', deleted) = prune_entries s (sc_path s) keep es in
                Inr (change (segments (sc_path s)) (if deleted \<and> es' = [] then None else Some (Dir es')) t))
           | Inr (Some _) \<Rightarrow> Inr (change (segments (sc_path s)) None t)))"

definition remove_entry :: "string list \<Rightarrow> node \<Rightarrow> fs_error + node" where
  "remove_entry p t =
     (case lstat_or_null t p of
        Inl e \<Rightarrow> Inl e
      | Inr None \<Rightarrow> Inr t
      | Inr (Some _) \<Rightarrow> Inr (change p None t))"

definition remove_file :: "string list \<Rightarrow> node \<Rightarrow> fs_error + node" where
  "remove_file p t =
     (case parents_are_directories t [] p of
        Inl e \<Rightarrow> Inl e
      | Inr False \<Rightarrow> Inr t
      | Inr True \<Rightarrow> remove_entry p t)"

fun make_parents :: "string list \<Rightarrow> string list \<Rightarrow> node \<Rightarrow> fs_error + node" where
  "make_parents before (s # s' # ss) t =
     (let relative = before @ [s] in
      case lstat_or_null t relative of
        Inl e \<Rightarrow> Inl e
      | Inr (Some (Dir es)) \<Rightarrow> make_parents relative (s' # ss) t
      | Inr _ \<Rightarrow> make_parents relative (s' # ss) (change relative (Some (Dir [])) t))"
| "make_parents before ss t = Inr t"

definition and_fs :: "fs_error + node \<Rightarrow> (node \<Rightarrow> mirror_error + node) \<Rightarrow> mirror_error + node" where
  "and_fs r f = (case r of Inl e \<Rightarrow> Inl (MirrorFilesystem e) | Inr t \<Rightarrow> f t)"

definition write_captured_file ::
    "'c content_open \<Rightarrow> 'c \<Rightarrow> captured_file \<Rightarrow> node \<Rightarrow> mirror_error + node" where
  "write_captured_file fetch content file t =
     (let p = segments (cf_path file) in
      and_fs (make_parents [] p t) (\<lambda>t1.
      and_fs (remove_entry p t1) (\<lambda>t2.
      case fetch content (''sha256:'' @ cf_sha256 file) of
        Inl cause \<Rightarrow> Inl (SavedCopyGone (cf_path file) cause)
      | Inr b \<Rightarrow> Inr (change p (Some (Reg b (cf_executable file))) t2))))"

fun write_files ::
    "'c content_open \<Rightarrow> 'c \<Rightarrow> captured_file list \<Rightarrow> node \<Rightarrow> mirror_error + node" where
  "write_files fetch content [] t = Inr t"
| "write_files fetch content (file # files) t =
     (case write_captured_file fetch content file t of
        Inl e \<Rightarrow> Inl e
      | Inr t1 \<Rightarrow> write_files fetch content files t1)"

definition mirror_scope ::
    "'c content_open \<Rightarrow> 'c \<Rightarrow> captured_scope \<Rightarrow> node \<Rightarrow> mirror_error + node" where
  "mirror_scope fetch content s t =
     and_fs
       (if sc_kind s = DirectoryScope then prune s (map cf_path (cs_files s)) t
        else if cs_missing s then remove_file (segments (sc_path s)) t
        else Inr t)
       (write_files fetch content (cs_files s))"

fun mirror_scopes ::
    "'c content_open \<Rightarrow> 'c \<Rightarrow> captured_scope list \<Rightarrow> node \<Rightarrow> mirror_error + node" where
  "mirror_scopes fetch content [] t = Inr t"
| "mirror_scopes fetch content (s # ss) t =
     (case mirror_scope fetch content s t of
        Inl e \<Rightarrow> Inl e
      | Inr t1 \<Rightarrow> mirror_scopes fetch content ss t1)"

end
