(* ===== verification/Tree_Files.thy ===== *)
theory Tree_Files
  imports Checkpoint_Files
begin

text \<open>
  What a directory tree holds at a path, and how the file system steps of capture and mirror change
  it. \<open>file_at\<close> is the abstract view both sides are compared in: the regular file at a path, reached
  through real directories only.
\<close>

section \<open>Looking up\<close>

fun lookup :: "node \<Rightarrow> string list \<Rightarrow> node option" where
  "lookup n [] = Some n"
| "lookup (Dir es) (s # ss) = (case map_of es s of None \<Rightarrow> None | Some m \<Rightarrow> lookup m ss)"
| "lookup n (s # ss) = None"

definition file_of :: "node option \<Rightarrow> (bytes \<times> bool) option" where
  "file_of v = (case v of Some (Reg b x) \<Rightarrow> Some (b, x) | _ \<Rightarrow> None)"

definition file_at :: "node \<Rightarrow> string list \<Rightarrow> (bytes \<times> bool) option" where
  "file_at t p = file_of (lookup t p)"

lemma file_of_simps [simp]:
  "file_of None = None" "file_of (Some (Dir es)) = None" "file_of (Some (Reg b x)) = Some (b, x)"
  "file_of (Some Link) = None" "file_of (Some Special) = None"
  by (simp_all add: file_of_def)

lemma file_of_Some: "(file_of v = Some (b, x)) = (v = Some (Reg b x))"
  by (auto simp: file_of_def split: option.splits node.splits)

lemma file_at_simps [simp]:
  "file_at (Dir es) [] = None"
  "file_at (Dir es) (s # ss) = (case map_of es s of None \<Rightarrow> None | Some m \<Rightarrow> file_at m ss)"
  by (auto simp: file_at_def split: option.splits)

lemma file_at_leaf [simp]:
  "file_at (Reg b x) p = (if p = [] then Some (b, x) else None)"
  "file_at Link p = None" "file_at Special p = None"
  by (cases p; simp add: file_at_def)+

text \<open>A well-formed tree: names are distinct and hold no slash.\<close>

fun wf_node :: "node \<Rightarrow> bool" where
  "wf_node (Dir es) =
     (distinct (map fst es) \<and> list_all (\<lambda>e. slash \<notin> set (fst e) \<and> wf_node (snd e)) es)"
| "wf_node _ = True"

lemma wf_lookup: "wf_node t \<Longrightarrow> lookup t p = Some n \<Longrightarrow> wf_node n"
  by (induction t p rule: lookup.induct) (auto simp: list_all_iff dest!: map_of_SomeD split: option.splits)

lemma lookup_append: "lookup t (p @ q) = (case lookup t p of None \<Rightarrow> None | Some n \<Rightarrow> lookup n q)"
  by (induction t p rule: lookup.induct) (auto split: option.splits)

lemma lookup_prefix_dir:
  "lookup t (p @ q) = Some n \<Longrightarrow> q \<noteq> [] \<Longrightarrow> \<exists>es. lookup t p = Some (Dir es)"
proof -
  assume l: "lookup t (p @ q) = Some n" and q: "q \<noteq> []"
  then obtain m where m: "lookup t p = Some m" "lookup m q = Some n"
    by (auto simp: lookup_append split: option.splits)
  with q show ?thesis by (cases m; cases q) auto
qed

text \<open>Files are never nested.\<close>

lemma files_not_nested:
  assumes "file_at t p \<noteq> None" and "file_at t q \<noteq> None" and "prefix p q"
  shows "p = q"
proof (rule ccontr)
  assume "p \<noteq> q"
  with assms(3) obtain r where r: "q = p @ r" "r \<noteq> []" by (auto simp: prefix_def)
  obtain n where "lookup t q = Some n" using assms(2) by (cases "lookup t q") (auto simp: file_at_def)
  then obtain es where "lookup t p = Some (Dir es)" using r lookup_prefix_dir by metis
  with assms(1) show False by (simp add: file_at_def)
qed

text \<open>Every component above a path is a directory.\<close>

definition dirs_above :: "node \<Rightarrow> string list \<Rightarrow> bool" where
  "dirs_above t p = (p = [] \<or> (\<exists>es. lookup t (butlast p) = Some (Dir es)))"

lemma dirs_above_Nil [simp]: "dirs_above t []"
  by (simp add: dirs_above_def)

lemma dirs_above_snoc [simp]: "dirs_above t (p @ [s]) = (\<exists>es. lookup t p = Some (Dir es))"
  by (simp add: dirs_above_def)

lemma dirs_above_one [simp]: "dirs_above (Dir es) [s]"
  by (simp add: dirs_above_def)

lemma dirs_above_Cons:
  "dirs_above t (s # s' # ss) =
     (\<exists>es m. t = Dir es \<and> map_of es s = Some m \<and> dirs_above m (s' # ss))"
  by (cases t; cases ss) (auto simp: dirs_above_def split: option.splits)

lemma dirs_above_leaf [simp]:
  "dirs_above (Reg b x) p = (p = [])" "dirs_above Link p = (p = [])" "dirs_above Special p = (p = [])"
  by (cases p; cases "butlast p"; simp add: dirs_above_def)+

lemma lstat_lookup: "lstat_or_null t p = Inr v \<Longrightarrow> lookup t p = v"
  by (induction t p rule: lstat_or_null.induct) (auto split: option.splits)

lemma lstat_dirs_above: "dirs_above t p \<Longrightarrow> lstat_or_null t p = Inr (lookup t p)"
proof (induction t p rule: lstat_or_null.induct)
  case (2 es s ss)
  then show ?case by (cases ss) (auto simp: dirs_above_Cons split: option.splits)
qed (auto simp: dirs_above_def split: if_splits elim!: lookup.elims)

lemma no_dir_above_no_file:
  assumes "lookup t p = v" and "\<forall>es. v \<noteq> Some (Dir es)" and "q \<noteq> []"
  shows "file_at t (p @ q) = None"
  using assms lookup_prefix_dir [of t p q]
  by (cases "lookup t (p @ q)") (auto simp: file_at_def)

section \<open>Changing an entry\<close>

lemma map_of_filter_key: "map_of (filter (\<lambda>e. fst e \<noteq> s) es) k = (if k = s then None else map_of es k)"
  by (induction es) auto

lemma map_of_set_entry [simp]: "map_of (set_entry s v es) k = (if k = s then v else map_of es k)"
  by (cases v) (simp_all add: set_entry_def map_of_filter_key)

lemma file_at_change:
  "dirs_above t p \<Longrightarrow> p \<noteq> [] \<Longrightarrow>
   file_at (change p v t) q =
     (if prefix p q then (case v of None \<Rightarrow> None | Some n \<Rightarrow> file_at n (drop (length p) q))
      else file_at t q)"
proof (induction p v t arbitrary: q rule: change.induct)
  case (1 s v es)
  then show ?case by (cases q) (auto split: option.splits)
next
  case (2 s s' ss v es)
  then obtain m where m: "map_of es s = Some m" "dirs_above m (s' # ss)"
    by (auto simp: dirs_above_Cons)
  then show ?case using 2(1) by (cases q; cases v) auto
qed auto

lemma lookup_change_at: "dirs_above t p \<Longrightarrow> p \<noteq> [] \<Longrightarrow> lookup (change p v t) p = v"
proof (induction p v t rule: change.induct)
  case (1 s v es)
  then show ?case by (auto split: option.splits)
next
  case (2 s s' ss v es)
  then show ?case by (auto simp: dirs_above_Cons)
qed auto

lemma change_keeps_dirs_above:
  "dirs_above t p \<Longrightarrow> p \<noteq> [] \<Longrightarrow> dirs_above (change p v t) p"
proof (induction p v t rule: change.induct)
  case (2 s s' ss v es)
  then obtain m where m: "map_of es s = Some m" "dirs_above m (s' # ss)"
    by (auto simp: dirs_above_Cons)
  then show ?case using 2(1) by (auto simp: dirs_above_Cons)
qed auto

lemma change_root: "is_dir t \<Longrightarrow> is_dir (change p v t)"
  by (induction p v t rule: change.induct) (auto split: option.splits)

lemma wf_put:
  "wf_node (Dir es) \<Longrightarrow> slash \<notin> set s \<Longrightarrow> wf_node n \<Longrightarrow> wf_node (Dir (put s n es))"
proof (induction s n es rule: put.induct)
  case (2 k v k' v' ps)
  have "fst ` set (put k v ps) = insert k (fst ` set ps)"
    using set_keys_put [of k v ps] by (simp add: keys_def)
  with 2 show ?case by auto
qed auto

lemma wf_set_entry:
  "wf_node (Dir es) \<Longrightarrow> slash \<notin> set s \<Longrightarrow> (\<And>n. v = Some n \<Longrightarrow> wf_node n) \<Longrightarrow>
   wf_node (Dir (set_entry s v es))"
proof (cases v)
  case None
  assume "wf_node (Dir es)"
  with None show ?thesis
    by (auto simp: set_entry_def distinct_map_filter list_all_iff)
next
  case (Some n)
  assume "wf_node (Dir es)" "slash \<notin> set s" "\<And>n. v = Some n \<Longrightarrow> wf_node n"
  with Some wf_put [of es s n] show ?thesis by (simp add: set_entry_def)
qed

lemma wf_change:
  "wf_node t \<Longrightarrow> \<forall>s \<in> set p. slash \<notin> set s \<Longrightarrow> (\<And>n. v = Some n \<Longrightarrow> wf_node n) \<Longrightarrow>
   wf_node (change p v t)"
proof (induction p v t rule: change.induct)
  case (1 s v es)
  have "wf_node (Dir (set_entry s v es))"
    by (rule wf_set_entry) (use 1 in auto)
  then show ?case by simp
next
  case (2 s s' ss v es)
  show ?case
  proof (cases "map_of es s")
    case None
    with 2 show ?thesis by simp
  next
    case (Some m)
    have "wf_node m" using 2(2) Some by (auto simp: list_all_iff dest: map_of_SomeD)
    then have "wf_node (change (s' # ss) v m)" using 2 Some by simp
    then have "wf_node (Dir (put s (change (s' # ss) v m) es))" using 2 by (intro wf_put) auto
    with Some show ?thesis by simp
  qed
qed auto

end
