(* ===== verification/Checkpoint_Copies.thy ===== *)
theory Checkpoint_Copies
  imports Tree_Files
begin

text \<open>
  What capture copies and what mirror leaves behind, in terms of the files a tree holds. A scope
  covers a set of paths; capture saves the files at exactly those paths, and mirror makes the
  destination hold them there and nothing else.
\<close>

section \<open>What a scope covers\<close>

definition excluded_below :: "'z scope_scheme \<Rightarrow> string list \<Rightarrow> bool" where
  "excluded_below s p =
     list_ex (\<lambda>x. prefix (segments (sc_path s) @ segments x) p) (sc_exclude s)"

definition visible :: "'z scope_scheme \<Rightarrow> string list \<Rightarrow> string list \<Rightarrow> bool" where
  "visible s dir q = (''.git'' \<notin> set q \<and> \<not> excluded_below s (dir @ q))"

definition covered :: "'z scope_scheme \<Rightarrow> string list \<Rightarrow> bool" where
  "covered s p =
     (let base = segments (sc_path s) in
      case sc_kind s of
        FileScope \<Rightarrow> p = base
      | DirectoryScope \<Rightarrow> strict_prefix base p \<and> visible s base (drop (length base) p))"

definition covered_files :: "'z scope_scheme \<Rightarrow> node \<Rightarrow> (string list \<times> bytes \<times> bool) set" where
  "covered_files s t = {(p, b, x). file_at t p = Some (b, x) \<and> covered s p}"

definition files_below ::
    "'z scope_scheme \<Rightarrow> string list \<Rightarrow> node \<Rightarrow> (string list \<times> bytes \<times> bool) set" where
  "files_below s dir t = {(dir @ q, b, x) | q b x. file_at t q = Some (b, x) \<and> visible s dir q}"

lemma is_excluded_below [path_simps]: "is_excluded s path = excluded_below s (segments path)"
  by (simp add: is_excluded_def excluded_below_def path_simps)

lemma excluded_below_extend: "excluded_below s p \<Longrightarrow> excluded_below s (p @ q)"
  unfolding excluded_below_def list_ex_iff by (blast intro: prefix_prefix)

lemma visible_Cons:
  "visible s dir (name # q) =
     (name \<noteq> ''.git'' \<and> \<not> excluded_below s (dir @ [name]) \<and> visible s (dir @ [name]) q)"
  using excluded_below_extend [of s "dir @ [name]" q] by (auto simp: visible_def)

lemma visible_Nil: "visible s dir [] = (\<not> excluded_below s dir)"
  by (simp add: visible_def)

lemma covered_base: "covered s p \<Longrightarrow> prefix (segments (sc_path s)) p"
  by (cases "sc_kind s") (auto simp: covered_def Let_def)

lemma covered_directory:
  "sc_kind s = DirectoryScope \<Longrightarrow> covered_files s t =
     (case lookup t (segments (sc_path s)) of
        None \<Rightarrow> {} | Some n \<Rightarrow> if is_dir n then files_below s (segments (sc_path s)) n else {})"
  (is "_ \<Longrightarrow> _ = ?rhs")
proof -
  assume k: "sc_kind s = DirectoryScope"
  let ?b = "segments (sc_path s)"
  have "(p, b, x) \<in> covered_files s t \<longleftrightarrow> (p, b, x) \<in> ?rhs" for p b x
  proof (cases "\<exists>q. p = ?b @ q")
    case True
    then obtain q where q: "p = ?b @ q" by blast
    then have "(p, b, x) \<in> covered_files s t \<longleftrightarrow> q \<noteq> [] \<and> visible s ?b q \<and> lookup t (?b @ q) = Some (Reg b x)"
      using k by (auto simp: covered_files_def covered_def file_at_def file_of_Some strict_prefix_def Let_def)
    also have "\<dots> \<longleftrightarrow> (p, b, x) \<in> ?rhs"
    proof (cases "lookup t ?b")
      case None
      then show ?thesis by (simp add: lookup_append)
    next
      case (Some n)
      then show ?thesis using q
        by (cases n; cases q) (auto simp: lookup_append files_below_def file_at_def file_of_Some)
    qed
    finally show ?thesis .
  next
    case False
    then show ?thesis using k
      by (auto simp: covered_files_def covered_def files_below_def strict_prefix_def prefix_def Let_def
          split: option.splits if_splits)
  qed
  then show ?thesis by auto
qed

lemma covered_file:
  "sc_kind s = FileScope \<Longrightarrow> covered_files s t =
     (case file_at t (segments (sc_path s)) of None \<Rightarrow> {} | Some bx \<Rightarrow> {(segments (sc_path s), bx)})"
  by (auto simp: covered_files_def covered_def Let_def split: option.splits)

lemma files_below_Nil [simp]: "files_below s dir (Dir []) = {}"
proof -
  have "file_at (Dir []) q = None" for q by (cases q) auto
  then show ?thesis by (simp add: files_below_def)
qed

lemma file_at_Cons_entry:
  "name \<notin> fst ` set rest \<Longrightarrow>
   file_at (Dir ((name, n) # rest)) q = Some bx \<longleftrightarrow>
     (\<exists>q'. q = name # q' \<and> file_at n q' = Some bx) \<or> file_at (Dir rest) q = Some bx"
  by (cases q) (auto split: option.splits dest!: map_of_SomeD intro: rev_image_eqI)

lemma files_below_Cons:
  assumes "name \<notin> fst ` set rest"
  shows "files_below s dir (Dir ((name, n) # rest)) =
     (if name = ''.git'' \<or> excluded_below s (dir @ [name]) then {}
      else files_below s (dir @ [name]) n) \<union> files_below s dir (Dir rest)"
  unfolding files_below_def file_at_Cons_entry [OF assms]
  by (auto simp: visible_Cons)

lemma files_below_leaf [simp]:
  "files_below s dir (Reg b x) = (if excluded_below s dir then {} else {(dir, b, x)})"
  "files_below s dir Link = {}" "files_below s dir Special = {}"
  by (auto simp: files_below_def visible_Nil split: if_splits)

text \<open>The bytes of the regular files of a tree.\<close>

definition contents :: "node \<Rightarrow> bytes set" where
  "contents t = {b. \<exists>p x. file_at t p = Some (b, x)}"

lemma contents_Cons:
  assumes "name \<notin> fst ` set rest"
  shows "contents (Dir ((name, n) # rest)) = contents n \<union> contents (Dir rest)"
  unfolding contents_def file_at_Cons_entry [OF assms] by blast

lemma contents_Reg [simp]: "contents (Reg b x) = {b}"
  by (auto simp: contents_def)

lemma contents_lookup: "lookup t p = Some n \<Longrightarrow> contents n \<subseteq> contents t"
  by (auto simp: contents_def file_at_def) (metis lookup_append option.simps(5))

section \<open>Capture\<close>

lemma located:
  assumes "locate root s before rest = Inr True" and "rest \<noteq> []"
  shows "\<exists>n. lstat_or_null root (before @ rest) = Inr (Some n) \<and>
    (sc_kind s = DirectoryScope \<longrightarrow> is_dir n) \<and> (sc_kind s = FileScope \<longrightarrow> is_reg n)"
  using assms
proof (induction root s before rest rule: locate.induct)
  case (2 root s before part rest)
  then show ?case by (cases "rest = []") (auto simp: Let_def split: sum.splits option.splits if_splits)
qed simp

lemma located_nowhere:
  assumes "locate root s before rest = Inr False"
  shows "file_at root (before @ rest @ q) = None"
  using assms
proof (induction root s before rest rule: locate.induct)
  case (2 root s before part rest)
  have none: "file_at root ((before @ [part]) @ rest @ q) = None"
    if "lookup root (before @ [part]) = v" "\<forall>es. v \<noteq> Some (Dir es)" "v = None \<or> rest \<noteq> []" for v
  proof (cases "rest @ q = []")
    case True
    with that show ?thesis by (simp add: file_at_def)
  next
    case False
    show ?thesis by (rule no_dir_above_no_file [OF that(1,2) False])
  qed
  obtain v where v: "lstat_or_null root (before @ [part]) = Inr v"
    using 2(2) by (auto simp: Let_def split: sum.splits)
  note look = lstat_lookup [OF v]
  show ?case
  proof (cases "\<exists>n. v = Some n \<and> (rest = [] \<or> is_dir n) \<and> n \<noteq> Link")
    case True
    with 2 v show ?thesis by (auto simp: Let_def split: if_splits)
  next
    case False
    with 2(2) v have "v = None \<or> rest \<noteq> []" "\<forall>es. v \<noteq> Some (Dir es)"
      by (auto simp: Let_def split: if_splits option.splits)
    with none [OF look] show ?thesis by simp
  qed
qed simp

text \<open>What capture and mirror rely on of the content store.\<close>

locale saved_bytes =
  fixes store :: "'c content_put"
    and fetch :: "'c content_open"
    and ok :: "'c \<Rightarrow> bool"
    and known :: "bytes set"
  assumes put_ok: "ok c \<Longrightarrow> b \<in> known \<Longrightarrow> store b c = (r, c') \<Longrightarrow> ok c'"
    and put_opens: "ok c \<Longrightarrow> b \<in> known \<Longrightarrow> store b c = (Inr (name, byte_size), c') \<Longrightarrow>
      (\<exists>h. name = ''sha256:'' @ h) \<and> fetch c' name = Inr b"
    and put_keeps: "ok c \<Longrightarrow> b \<in> known \<Longrightarrow> store b c = (r, c') \<Longrightarrow> fetch c name = Inr b' \<Longrightarrow> fetch c' name = Inr b'"
begin

definition keeps :: "'c \<Rightarrow> 'c \<Rightarrow> bool" where
  "keeps c c' = (\<forall>name b. fetch c name = Inr b \<longrightarrow> fetch c' name = Inr b)"

definition saved :: "'c \<Rightarrow> captured_file list \<Rightarrow> (string list \<times> (content_cause + bytes) \<times> bool) set" where
  "saved c files =
     (\<lambda>f. (segments (cf_path f), fetch c (''sha256:'' @ cf_sha256 f), cf_executable f)) ` set files"

definition wanted :: "(string list \<times> bytes \<times> bool) set \<Rightarrow> (string list \<times> (content_cause + bytes) \<times> bool) set" where
  "wanted F = (\<lambda>(p, b, x). (p, Inr b, x)) ` F"

lemma keeps_refl [simp]: "keeps c c"
  by (simp add: keeps_def)

lemma keeps_trans: "keeps c c1 \<Longrightarrow> keeps c1 c2 \<Longrightarrow> keeps c c2"
  by (simp add: keeps_def)

lemma saved_simps [simp]:
  "saved c [] = {}"
  "saved c (f # files) =
     insert (segments (cf_path f), fetch c (''sha256:'' @ cf_sha256 f), cf_executable f) (saved c files)"
  "saved c (files @ others) = saved c files \<union> saved c others"
  "saved c (sort_key cf_path files) = saved c files"
  by (auto simp: saved_def)

lemma wanted_simps [simp]:
  "wanted {} = {}" "wanted (F \<union> G) = wanted F \<union> wanted G" "wanted {(p, b, x)} = {(p, Inr b, x)}"
  by (simp_all add: wanted_def image_Un)

lemma saved_kept: "saved c files = wanted F \<Longrightarrow> keeps c c' \<Longrightarrow> saved c' files = wanted F"
proof -
  assume s: "saved c files = wanted F" and k: "keeps c c'"
  have "fetch c' (''sha256:'' @ cf_sha256 f) = fetch c (''sha256:'' @ cf_sha256 f)" if "f \<in> set files" for f
  proof -
    have "(segments (cf_path f), fetch c (''sha256:'' @ cf_sha256 f), cf_executable f) \<in> wanted F"
      using that s by (auto simp: saved_def)
    then obtain b where "fetch c (''sha256:'' @ cf_sha256 f) = Inr b" by (auto simp: wanted_def)
    with k show ?thesis by (simp add: keeps_def)
  qed
  then have "saved c' files = saved c files" by (simp add: saved_def)
  with s show ?thesis by simp
qed

text \<open>A copying step that leaves the store in order and the files it was to save in it.\<close>

definition copies :: "(string list \<times> bytes \<times> bool) set \<Rightarrow> ('c, captured_file list) copying \<Rightarrow> bool" where
  "copies F m =
     (\<forall>c files c'. ok c \<longrightarrow> m c = (Inr files, c') \<longrightarrow> ok c' \<and> keeps c c' \<and> saved c' files = wanted F)"

lemma copiesD:
  "copies F m \<Longrightarrow> ok c \<Longrightarrow> m c = (Inr files, c') \<Longrightarrow> ok c' \<and> keeps c c' \<and> saved c' files = wanted F"
  by (simp add: copies_def)

lemma and_copy_Inr:
  "and_copy m f c = (Inr r, c') \<longleftrightarrow> (\<exists>a c1. m c = (Inr a, c1) \<and> f a c1 = (Inr r, c'))"
  by (auto simp: and_copy_def split: prod.splits sum.splits)

lemma copies_none: "copies {} (\<lambda>c. (Inr [], c))"
  by (simp add: copies_def)

lemma copies_both:
  assumes "copies F m" and "copies G m'"
  shows "copies (F \<union> G) (and_copy m (\<lambda>files. and_copy m' (\<lambda>others c. (Inr (files @ others), c))))"
  unfolding copies_def and_copy_Inr
proof (intro allI impI, elim exE conjE)
  fix c files c' a c1 a' c2
  assume ok: "ok c" and m: "m c = (Inr a, c1)" and m': "m' c1 = (Inr a', c2)"
    and r: "(Inr (a @ a'), c2) = (Inr files, c')"
  note s1 = copiesD [OF assms(1) ok m]
  note s2 = copiesD [OF assms(2) conjunct1 [OF s1] m']
  have "saved c2 a = wanted F" using s1 s2 saved_kept by blast
  with s1 s2 r show "ok c' \<and> keeps c c' \<and> saved c' files = wanted (F \<union> G)"
    by (auto intro: keeps_trans)
qed

lemma copies_file:
  assumes known: "b \<in> known"
  shows "copies {(segments path, b, x)}
     (and_copy (copy_file store path b x) (\<lambda>file c. (Inr [file], c)))"
  unfolding copies_def and_copy_Inr
proof (intro allI impI, elim exE conjE)
  fix c files c' f c1
  assume ok: "ok c" and f: "copy_file store path b x c = (Inr f, c1)" and r: "(Inr [f], c1) = (Inr files, c')"
  obtain name byte_size where st: "store b c = (Inr (name, byte_size), c1)"
    and fd: "f = \<lparr>cf_path = path, cf_sha256 = drop (length ''sha256:'') name, cf_size = byte_size, cf_executable = x\<rparr>"
    using f by (auto simp: copy_file_def split: prod.splits sum.splits)
  obtain h where h: "name = ''sha256:'' @ h" "fetch c1 name = Inr b"
    using put_opens [OF ok known st] by auto
  have "keeps c c1" using put_keeps [OF ok known st] by (simp add: keeps_def)
  with h fd r put_ok [OF ok known st] show "ok c' \<and> keeps c c' \<and> saved c' files = wanted {(segments path, b, x)}"
    by auto
qed

lemma walk_file_first:
  "and_copy (copy_file store path b x) (\<lambda>file. and_copy m (\<lambda>others c. (Inr (file # others), c))) =
   and_copy (and_copy (copy_file store path b x) (\<lambda>file c. (Inr [file], c)))
     (\<lambda>files. and_copy m (\<lambda>others c. (Inr (files @ others), c)))"
  by (auto simp: and_copy_def fun_eq_iff split: prod.splits sum.splits)

lemma walk_copies_any:
  "st = store \<Longrightarrow> wf_node (Dir es) \<Longrightarrow> contents (Dir es) \<subseteq> known \<Longrightarrow>
   copies (files_below s (segments directory) (Dir es)) (walk_directory st s directory es)"
proof (induction st s directory es rule: walk_directory.induct)
  case (1 st s directory)
  then show ?case by (simp add: copies_none)
next
  case (2 st s directory name n rest)
  let ?path = "directory @ slash # name"
  have name: "slash \<notin> set name" "name \<notin> fst ` set rest" "wf_node (Dir rest)" "wf_node n"
    using 2 by auto
  have st: "st = store" using 2 by simp
  have path: "segments ?path = segments directory @ [name]"
    using name(1) by (simp add: path_simps)
  have known: "contents n \<subseteq> known" "contents (Dir rest) \<subseteq> known"
    using 2 contents_Cons [OF name(2), of n] by auto
  note below = files_below_Cons [OF name(2), of s "segments directory" n]
  show ?case
  proof (cases "name = ''.git'' \<or> is_excluded s ?path")
    case True
    then show ?thesis using 2(1) name known path st by (simp add: below path_simps)
  next
    case False
    then have skip: "\<not> (name = ''.git'' \<or> excluded_below s (segments directory @ [name]))"
      by (simp add: path is_excluded_below)
    have rest: "copies (files_below s (segments directory) (Dir rest)) (walk_directory st s directory rest)"
      using 2 False name(3) known(2) by (cases n) auto
    show ?thesis
    proof (cases n)
      case (Dir es)
      then have "copies (files_below s (segments ?path) (Dir es)) (walk_directory st s ?path es)"
        using 2 False name(4) known(1) by auto
      then show ?thesis using False skip Dir rest
        by (simp add: below [unfolded Dir] path copies_both)
    next
      case (Reg b x)
      then show ?thesis
        using False skip known(1) copies_both [OF copies_file [of b ?path x] rest]
        by (simp add: below [unfolded Reg] path walk_file_first st)
    next
      case Link
      then show ?thesis using False skip rest by (simp add: below [unfolded Link])
    next
      case Special
      then show ?thesis using False skip rest by (simp add: below [unfolded Special])
    qed
  qed
qed

lemmas walk_copies = walk_copies_any [OF refl]

lemma capture_scope_saves:
  assumes "ok c" and "wf_node root" and "contents root \<subseteq> known" and "capture_scope store root s c = (Inr captured, c')"
  shows "ok c' \<and> keeps c c' \<and> saved c' (cs_files captured) = wanted (covered_files s root)"
proof (cases "locate root s [] (segments (sc_path s))")
  case (Inl e)
  with assms(4) show ?thesis by (simp add: capture_scope_def)
next
  case (Inr present)
  show ?thesis
  proof (cases present)
    case False
    have "covered_files s root = {}"
      using located_nowhere [of root s "[]"] Inr False covered_base [of s]
      by (fastforce simp: covered_files_def prefix_def)
    with assms Inr False show ?thesis by (auto simp: capture_scope_def scope.defs)
  next
    case True
    then obtain n where n: "lstat_or_null root (segments (sc_path s)) = Inr (Some n)"
      "sc_kind s = DirectoryScope \<Longrightarrow> is_dir n" "sc_kind s = FileScope \<Longrightarrow> is_reg n"
      using Inr located [of root s "[]" "segments (sc_path s)"] by auto
    note look = lstat_lookup [OF n(1)]
    show ?thesis
    proof (cases "sc_kind s")
      case FileScope
      with n(3) obtain b x where leaf: "n = Reg b x" by (cases n) auto
      obtain files where f: "and_copy (copy_file store (sc_path s) b x) (\<lambda>file c. (Inr [file], c)) c = (Inr files, c')"
        "cs_files captured = files"
        using assms(4) Inr True FileScope n(1) leaf
        by (auto simp: capture_scope_def and_copy_Inr scope.defs)
      moreover have "covered_files s root = {(segments (sc_path s), b, x)}"
        using FileScope look leaf by (simp add: covered_file file_at_def)
      ultimately show ?thesis using copiesD [OF copies_file assms(1) f(1)] contents_lookup [OF look] assms(3) leaf by auto
    next
      case DirectoryScope
      with n(2) obtain es where dir: "n = Dir es" by (cases n) auto
      obtain files where f: "walk_directory store s (sc_path s) es c = (Inr files, c')"
        "cs_files captured = sort_key cf_path files"
        using assms(4) Inr True DirectoryScope n(1) dir
        by (auto simp: capture_scope_def and_copy_Inr scope.defs)
      moreover have "covered_files s root = files_below s (segments (sc_path s)) (Dir es)"
        using DirectoryScope look dir by (simp add: covered_directory)
      moreover have "wf_node (Dir es)" using wf_lookup [OF assms(2)] look dir by blast
      ultimately show ?thesis using copiesD [OF walk_copies assms(1) f(1)] contents_lookup [OF look] assms(3) dir by auto
    qed
  qed
qed

text \<open>The captured scope repeats the scope it was asked for.\<close>

lemma capture_scope_same:
  assumes "capture_scope store root s c = (Inr captured, c')"
  shows "sc_name captured = sc_name s \<and> sc_kind captured = sc_kind s \<and>
    sc_path captured = sc_path s \<and> sc_exclude captured = sc_exclude s \<and>
    (cs_missing captured \<longrightarrow> cs_files captured = []) \<and>
    (sc_kind s = FileScope \<longrightarrow> \<not> cs_missing captured \<longrightarrow> map cf_path (cs_files captured) = [sc_path s])"
  using assms
  by (auto simp: capture_scope_def and_copy_Inr scope.defs copy_file_def
      split: sum.splits bool.splits option.splits node.splits scope_kind.splits prod.splits)

end

section \<open>Mirror\<close>

lemma parents_are_directories_iff:
  "lookup t before = Some (Dir es) \<Longrightarrow> rest \<noteq> [] \<Longrightarrow>
   parents_are_directories t before rest = Inr (dirs_above t (before @ rest))"
proof (induction t before rest arbitrary: es rule: parents_are_directories.induct)
  case (1 t before s s' ss)
  have stat: "lstat_or_null t (before @ [s]) = Inr (lookup t (before @ [s]))"
    using 1 by (intro lstat_dirs_above) auto
  show ?case
  proof (cases "\<exists>es. lookup t (before @ [s]) = Some (Dir es)")
    case True
    with 1 stat show ?thesis by auto
  next
    case False
    have "\<not> dirs_above t (before @ s # s' # ss)"
    proof
      assume "dirs_above t (before @ s # s' # ss)"
      then obtain n where "lookup t ((before @ [s]) @ butlast (s' # ss)) = Some (Dir n)"
        by (auto simp: dirs_above_def butlast_append split: if_splits)
      with False lookup_prefix_dir [of t "before @ [s]" "butlast (s' # ss)"] show False
        by (cases "butlast (s' # ss) = []") auto
    qed
    with False stat show ?thesis by (auto split: option.splits node.splits)
  qed
qed auto

lemma above_directory_no_file:
  assumes "lookup t p = Some (Dir es)" and "prefix q p"
  shows "file_at t q = None"
proof -
  obtain r where r: "p = q @ r" using assms(2) by (auto simp: prefix_def)
  with assms(1) have "\<exists>es. lookup t q = Some (Dir es)"
    using lookup_prefix_dir [of t q r] by (cases "r = []") auto
  then show ?thesis by (auto simp: file_at_def)
qed

lemma make_parents_effect:
  assumes "lookup t before = Some (Dir es)" and "rest \<noteq> []" and "wf_node t" and "is_dir t"
    and "\<forall>s \<in> set (before @ rest). slash \<notin> set s"
  shows "\<exists>t'. make_parents before rest t = Inr t' \<and> dirs_above t' (before @ rest) \<and>
    wf_node t' \<and> is_dir t' \<and>
    (\<forall>q. file_at t' q = (if strict_prefix q (before @ rest) then None else file_at t q))"
  using assms
proof (induction rest arbitrary: before t es)
  case (Cons s rest)
  note no_file = above_directory_no_file [OF Cons.prems(1)]
  show ?case
  proof (cases rest)
    case Nil
    then show ?thesis using Cons.prems no_file by (auto simp: strict_prefix_def prefix_snoc)
  next
    case (Cons s' ss)
    let ?p = "before @ [s]" and ?t1 = "change (before @ [s]) (Some (Dir [])) t"
    have above: "dirs_above t ?p" using Cons.prems by simp
    have stat: "lstat_or_null t ?p = Inr (lookup t ?p)" using above by (rule lstat_dirs_above)
    show ?thesis
    proof (cases "\<exists>es. lookup t ?p = Some (Dir es)")
      case True
      then obtain es' where d: "lookup t ?p = Some (Dir es')" by blast
      have "make_parents before (s # rest) t = make_parents ?p rest t"
        using d stat Cons by simp
      then show ?thesis
        using Cons.IH [OF d _ Cons.prems(3,4)] Cons.prems(5) Cons by simp
    next
      case False
      have code: "make_parents before (s # rest) t = make_parents ?p rest ?t1"
        using False stat Cons by (auto simp: Let_def split: option.splits node.splits)
      have at1: "file_at ?t1 q = (if prefix ?p q then None else file_at t q)" for q
        using file_at_change [OF above, of "Some (Dir [])" q]
        by (cases "drop (length ?p) q") auto
      have same: "file_at ?t1 q = file_at t q" if "\<not> strict_prefix q (?p @ rest)" for q
      proof (cases "prefix ?p q")
        case True
        then obtain r where r: "q = ?p @ r" by (auto simp: prefix_def)
        with that Cons have "r \<noteq> []" by (auto simp: strict_prefix_def)
        with r False at1 show ?thesis
          using no_dir_above_no_file [OF refl, of t ?p r] by auto
      qed (simp add: at1)
      have "lookup ?t1 ?p = Some (Dir [])" using above by (simp add: lookup_change_at)
      moreover have "wf_node ?t1" using Cons.prems by (intro wf_change) auto
      moreover have "is_dir ?t1" using Cons.prems by (simp add: change_root)
      ultimately show ?thesis
        unfolding code using Cons.IH [of ?t1 ?p "[]"] Cons.prems(5) Cons same by fastforce
    qed
  qed
qed simp

lemma remove_entry_effect:
  assumes "dirs_above t p" and "p \<noteq> []" and "wf_node t" and "is_dir t" and "\<forall>s \<in> set p. slash \<notin> set s"
  shows "\<exists>t'. remove_entry p t = Inr t' \<and> dirs_above t' p \<and> wf_node t' \<and> is_dir t' \<and>
    (\<forall>q. file_at t' q = (if prefix p q then None else file_at t q))"
proof (cases "lookup t p")
  case None
  have "file_at t q = None" if "prefix p q" for q
    using that None by (auto simp: prefix_def file_at_def lookup_append)
  with assms None show ?thesis by (simp add: remove_entry_def lstat_dirs_above)
next
  case (Some n)
  have "wf_node (change p None t)" using assms by (intro wf_change) auto
  with assms Some show ?thesis
    by (simp add: remove_entry_def lstat_dirs_above change_keeps_dirs_above change_root file_at_change)
qed

definition comparable :: "string list \<Rightarrow> string list \<Rightarrow> bool" where
  "comparable p q = (prefix p q \<or> prefix q p)"

lemma write_captured_file_effect:
  assumes "fetch content (''sha256:'' @ cf_sha256 f) = Inr b" and "wf_node t" and "is_dir t"
  shows "\<exists>t'. write_captured_file fetch content f t = Inr t' \<and> wf_node t' \<and> is_dir t' \<and>
    (\<forall>q. file_at t' q =
       (if q = segments (cf_path f) then Some (b, cf_executable f)
        else if comparable (segments (cf_path f)) q then None else file_at t q))"
proof -
  let ?p = "segments (cf_path f)" and ?new = "Reg b (cf_executable f)"
  have names: "\<forall>s \<in> set ?p. slash \<notin> set s" using no_slash_in_segments by blast
  have root: "\<exists>es. lookup t [] = Some (Dir es)" using assms(3) by (cases t) auto
  obtain t1 where t1: "make_parents [] ?p t = Inr t1" "dirs_above t1 ?p" "wf_node t1" "is_dir t1"
    "\<forall>q. file_at t1 q = (if strict_prefix q ?p then None else file_at t q)"
    using make_parents_effect [of t "[]" _ ?p] root assms(2,3) names by auto
  obtain t2 where t2: "remove_entry ?p t1 = Inr t2" "dirs_above t2 ?p" "wf_node t2" "is_dir t2"
    "\<forall>q. file_at t2 q = (if prefix ?p q then None else file_at t1 q)"
    using remove_entry_effect [OF t1(2) _ t1(3,4) names] by auto
  let ?t3 = "change ?p (Some ?new) t2"
  have "wf_node ?t3" using t2(3) names by (intro wf_change) auto
  moreover have "file_at ?t3 q =
      (if q = ?p then Some (b, cf_executable f) else if comparable ?p q then None else file_at t q)" for q
    using t1(5) t2(2,5) by (auto simp: file_at_change comparable_def strict_prefix_def prefix_def)
  ultimately show ?thesis
    using assms(1) t1(1) t2(1,4) by (simp add: write_captured_file_def and_fs_def Let_def change_root)
qed

text \<open>The paths writing some files decides: theirs, those above and those below.\<close>

definition near :: "captured_file list \<Rightarrow> string list \<Rightarrow> bool" where
  "near files q = list_ex (\<lambda>f. comparable (segments (cf_path f)) q) files"

lemma write_files_effect:
  assumes "wf_node t" and "is_dir t"
    and "\<And>f. f \<in> set files \<Longrightarrow>
           \<exists>b. fetch content (''sha256:'' @ cf_sha256 f) = Inr b \<and>
               file_at src (segments (cf_path f)) = Some (b, cf_executable f)"
  shows "\<exists>t'. write_files fetch content files t = Inr t' \<and> wf_node t' \<and> is_dir t' \<and>
    (\<forall>q. file_at t' q = (if near files q then file_at src q else file_at t q))"
  using assms
proof (induction files arbitrary: t)
  case Nil
  then show ?case by (simp add: near_def)
next
  case (Cons f files)
  let ?p = "segments (cf_path f)"
  obtain b where b: "fetch content (''sha256:'' @ cf_sha256 f) = Inr b" "file_at src ?p = Some (b, cf_executable f)"
    using Cons.prems(3) by auto
  obtain t1 where t1: "write_captured_file fetch content f t = Inr t1" "wf_node t1" "is_dir t1"
    "\<And>q. file_at t1 q =
       (if q = ?p then Some (b, cf_executable f) else if comparable ?p q then None else file_at t q)"
    using write_captured_file_effect [of fetch content f b t] b(1) Cons.prems(1,2) by auto
  have src: "file_at src q = None" if "comparable ?p q" "q \<noteq> ?p" for q
    using that b(2) files_not_nested [of src q ?p] files_not_nested [of src ?p q]
    by (cases "file_at src q") (auto simp: comparable_def)
  have at1: "file_at t1 q = (if comparable ?p q then file_at src q else file_at t q)" for q
    using t1(4) b(2) src by (auto simp: comparable_def)
  obtain t2 where "write_files fetch content files t1 = Inr t2" "wf_node t2" "is_dir t2"
    "\<forall>q. file_at t2 q = (if near files q then file_at src q else file_at t1 q)"
    using Cons.IH [OF t1(2,3)] Cons.prems(3) by auto
  then show ?case using t1(1) at1 by (auto simp: near_def)
qed

lemma prune_entries_effect:
  "prune_entries s directory keep es = (es', deleted) \<Longrightarrow> wf_node (Dir es) \<Longrightarrow>
   wf_node (Dir es') \<and> fst ` set es' \<subseteq> fst ` set es \<and>
   (\<forall>q. file_at (Dir es') q =
      (if visible s (segments directory) q \<and> segments directory @ q \<notin> segments ` set keep then None
       else file_at (Dir es) q))"
proof (induction s directory keep es arbitrary: es' deleted rule: prune_entries.induct)
  case (1 s directory keep)
  have "file_at (Dir []) q = None" for q by (cases q) auto
  with 1 show ?case by auto
next
  case (2 s directory keep name n rest)
  let ?path = "directory @ slash # name" and ?dir = "segments directory"
  let ?gone = "\<lambda>d q. visible s d q \<and> d @ q \<notin> segments ` set keep"
  obtain rest' d where r: "prune_entries s directory keep rest = (rest', d)" by fastforce
  have name: "slash \<notin> set name" "name \<notin> fst ` set rest" "wf_node n" using 2 by auto
  have path: "segments ?path = ?dir @ [name]" using name(1) by (simp add: path_simps)
  have rest: "wf_node (Dir rest')" "fst ` set rest' \<subseteq> fst ` set rest"
    "\<And>q. file_at (Dir rest') q = (if ?gone ?dir q then None else file_at (Dir rest) q)"
    using 2(1) [OF refl r] 2(4) by auto
  have name': "name \<notin> fst ` set rest'" using rest(2) name(2) by blast
  have at_name: "map_of rest name = None" "map_of rest' name = None"
    using name(2) name' by (simp_all add: map_of_eq_None_iff)
  have gone_at: "?gone ?dir (name # q) \<longleftrightarrow>
      name \<noteq> ''.git'' \<and> \<not> is_excluded s ?path \<and> ?gone (?dir @ [name]) q" for q
    by (auto simp: visible_Cons path is_excluded_below)
  text \<open>It is enough to look at what becomes of the entry itself.\<close>
  have finish: ?case
    if es': "es' = (case m of None \<Rightarrow> rest' | Some k \<Rightarrow> (name, k) # rest')"
      and wf: "\<And>k. m = Some k \<Longrightarrow> wf_node k"
      and files: "\<And>q. (case m of None \<Rightarrow> None | Some k \<Rightarrow> file_at k q) =
                        (if ?gone ?dir (name # q) then None else file_at n q)" for m
  proof -
    have "wf_node (Dir es')" "fst ` set es' \<subseteq> fst ` set ((name, n) # rest)"
      using es' wf rest(1,2) name(1) name' by (auto split: option.splits)
    moreover have "file_at (Dir es') q = (if ?gone ?dir q then None else file_at (Dir ((name, n) # rest)) q)" for q
    proof (cases q)
      case Nil
      then show ?thesis by simp
    next
      case (Cons k q')
      show ?thesis
      proof (cases "k = name")
        case True
        then show ?thesis using Cons es' files [of q'] at_name by (cases m) auto
      next
        case False
        have "file_at (Dir es') q = file_at (Dir rest') q" using False Cons es' by (cases m) auto
        with False Cons rest(3) [of q] show ?thesis by auto
      qed
    qed
    ultimately show ?thesis by blast
  qed
  show ?case
  proof (cases "name = ''.git'' \<or> is_excluded s ?path")
    case True
    then have "es' = (name, n) # rest'" using 2(3) r by (simp add: Let_def)
    with True name(3) gone_at show ?thesis by (intro finish [of "Some n"]) auto
  next
    case False
    show ?thesis
    proof (cases n)
      case (Dir sub)
      obtain sub' d' where p: "prune_entries s ?path keep sub = (sub', d')" by fastforce
      have sub: "wf_node (Dir sub')"
        "\<And>q. file_at (Dir sub') q = (if ?gone (?dir @ [name]) q then None else file_at (Dir sub) q)"
        using 2(2) [OF refl refl r [symmetric] False Dir p] name(3) Dir path by auto
      let ?m = "if d' \<and> sub' = [] then None else Some (Dir sub')"
      have "es' = (case ?m of None \<Rightarrow> rest' | Some k \<Rightarrow> (name, k) # rest')"
        using 2(3) r p False Dir by (auto simp: Let_def split: if_splits)
      moreover have none: "file_at (Dir []) q = None" for q by (cases q) auto
      have "(case ?m of None \<Rightarrow> None | Some k \<Rightarrow> file_at k q) = file_at (Dir sub') q" for q
        using none by auto
      ultimately show ?thesis using sub gone_at False Dir by (intro finish [of ?m]) (auto split: if_splits)
    next
      case (Reg b x)
      let ?m = "if ?path \<in> set keep then Some n else None"
      have keep: "?path \<in> set keep \<longleftrightarrow> ?dir @ [name] \<in> segments ` set keep"
        by (auto simp: path [symmetric] segments_inject)
      have "es' = (case ?m of None \<Rightarrow> rest' | Some k \<Rightarrow> (name, k) # rest')"
        using 2(3) r False Reg by (auto simp: Let_def split: if_splits)
      moreover have "(case ?m of None \<Rightarrow> None | Some k \<Rightarrow> file_at k q) =
          (if ?gone ?dir (name # q) then None else file_at n q)" for q
        using keep gone_at [of q] False path Reg by (cases q) (auto simp: visible_Nil is_excluded_below)
      ultimately show ?thesis using name(3) by (intro finish [of ?m]) (auto split: if_splits)
    next
      case Link
      then have "es' = (name, n) # rest'" using 2(3) r False by (simp add: Let_def)
      with Link show ?thesis by (intro finish [of "Some n"]) auto
    next
      case Special
      then have "es' = (name, n) # rest'" using 2(3) r False by (simp add: Let_def)
      with Special show ?thesis by (intro finish [of "Some n"]) auto
    qed
  qed
qed

lemma nothing_below_missing_parent:
  assumes "\<not> dirs_above t p"
  shows "file_at t (p @ r) = None"
proof (cases "lookup t (p @ r)")
  case (Some n)
  have "p \<noteq> []" using assms by auto
  then have "p @ r = butlast p @ last p # r" by simp
  with assms Some \<open>p \<noteq> []\<close> lookup_prefix_dir [of t "butlast p" "last p # r"] show ?thesis
    by (auto simp: dirs_above_def)
qed (simp add: file_at_def)

lemma prune_effect:
  assumes "sc_kind s = DirectoryScope" and "wf_node t" and "is_dir t"
  shows "\<exists>t'. prune s keep t = Inr t' \<and> wf_node t' \<and> is_dir t' \<and>
    (\<forall>q. file_at t' q =
      (if q = segments (sc_path s) \<or> (covered s q \<and> q \<notin> segments ` set keep) then None else file_at t q))"
proof -
  let ?b = "segments (sc_path s)"
  have names: "\<forall>x \<in> set ?b. slash \<notin> set x" using no_slash_in_segments by blast
  have parents: "parents_are_directories t [] ?b = Inr (dirs_above t ?b)"
    using assms(3) by (cases t) (auto simp: parents_are_directories_iff)
  have below: "covered s q \<longleftrightarrow> (\<exists>r. r \<noteq> [] \<and> q = ?b @ r \<and> visible s ?b r)" for q
    using assms(1) by (auto simp: covered_def Let_def strict_prefix_def prefix_def)
  have untouched: "\<exists>t'. (Inr t :: fs_error + node) = Inr t' \<and> wf_node t' \<and> is_dir t' \<and>
      (\<forall>q. file_at t' q = (if q = ?b \<or> (covered s q \<and> q \<notin> segments ` set keep) then None else file_at t q))"
    if "\<And>r. file_at t (?b @ r) = None"
    using that [of "[]"] that below assms(2,3) by auto
  show ?thesis
  proof (cases "dirs_above t ?b")
    case False
    then have code: "prune s keep t = Inr t" using parents by (simp add: prune_def)
    show ?thesis unfolding code by (rule untouched) (rule nothing_below_missing_parent [OF False])
  next
    case True
    note stat = lstat_dirs_above [OF True]
    show ?thesis
    proof (cases "lookup t ?b")
      case None
      then have none: "file_at t (?b @ r) = None" for r by (simp add: file_at_def lookup_append)
      have code: "prune s keep t = Inr t" using True parents stat None by (simp add: prune_def)
      show ?thesis unfolding code by (rule untouched) (rule none)
    next
      case (Some n)
      show ?thesis
      proof (cases "is_dir n")
        case True
        then obtain es where dir: "n = Dir es" by (cases n) auto
        obtain es' d where p: "prune_entries s (sc_path s) keep es = (es', d)" by fastforce
        let ?v = "if d \<and> es' = [] then None else Some (Dir es')"
        have "wf_node (Dir es)" using wf_lookup [OF assms(2)] Some dir by blast
        note entries = prune_entries_effect [OF p this]
        have none: "file_at (Dir []) q = None" for q by (cases q) auto
        have at_v: "(case ?v of None \<Rightarrow> None | Some k \<Rightarrow> file_at k q) = file_at (Dir es') q" for q
          using none by auto
        have old: "file_at t (?b @ r) = file_at (Dir es) r" for r
          using Some dir by (simp add: file_at_def lookup_append)
        have "file_at (change ?b ?v t) q =
            (if q = ?b \<or> (covered s q \<and> q \<notin> segments ` set keep) then None else file_at t q)" for q
        proof (cases "prefix ?b q")
          case True
          then obtain r where "q = ?b @ r" by (auto simp: prefix_def)
          with entries old [of r] at_v [of r] below show ?thesis
            by (cases "r = []"; cases "d \<and> es' = []") (auto simp: file_at_change [OF \<open>dirs_above t ?b\<close>])
        next
          case False
          with below show ?thesis by (auto simp: file_at_change [OF \<open>dirs_above t ?b\<close>])
        qed
        moreover have "wf_node (change ?b ?v t)"
          using assms(2) names entries by (intro wf_change) (auto split: if_splits)
        moreover have "prune s keep t = Inr (change ?b ?v t)"
          using parents stat Some dir p \<open>dirs_above t ?b\<close> by (simp add: prune_def)
        ultimately show ?thesis using change_root [OF assms(3)] by blast
      next
        case False
        have gone: "file_at t (?b @ r) = None" if "r \<noteq> []" for r
          using no_dir_above_no_file [OF Some _ that] False by (cases n) auto
        have "file_at (change ?b None t) q =
            (if q = ?b \<or> (covered s q \<and> q \<notin> segments ` set keep) then None else file_at t q)" for q
        proof (cases "prefix ?b q")
          case inside: True
          then obtain r where "q = ?b @ r" by (auto simp: prefix_def)
          with gone [of r] show ?thesis by (cases "r = []") (simp_all add: file_at_change [OF True])
        next
          case False
          with below show ?thesis by (auto simp: file_at_change [OF True])
        qed
        moreover have "wf_node (change ?b None t)" using assms(2) names by (intro wf_change) auto
        moreover have "prune s keep t = Inr (change ?b None t)"
          using parents stat Some False True by (cases n) (simp_all add: prune_def)
        ultimately show ?thesis using change_root [OF assms(3)] by blast
      qed
    qed
  qed
qed

lemma remove_file_effect:
  assumes "wf_node t" and "is_dir t"
  shows "\<exists>t'. remove_file (segments path) t = Inr t' \<and> wf_node t' \<and> is_dir t' \<and>
    (\<forall>q. file_at t' q = (if prefix (segments path) q then None else file_at t q))"
proof -
  let ?b = "segments path"
  have names: "\<forall>x \<in> set ?b. slash \<notin> set x" using no_slash_in_segments by blast
  have parents: "parents_are_directories t [] ?b = Inr (dirs_above t ?b)"
    using assms(2) by (cases t) (auto simp: parents_are_directories_iff)
  show ?thesis
  proof (cases "dirs_above t ?b")
    case True
    with parents remove_entry_effect [OF True _ assms names] show ?thesis
      by (auto simp: remove_file_def)
  next
    case False
    then show ?thesis using parents assms nothing_below_missing_parent [OF False]
      by (auto simp: remove_file_def prefix_def)
  qed
qed

section \<open>A scope, then all scopes\<close>

text \<open>
  The paths outside a scope that mirroring it may still clear: the directory's own path, everything
  under a file captured as missing, and what is in the way of a captured file.
\<close>

definition cleared :: "captured_scope \<Rightarrow> string list \<Rightarrow> bool" where
  "cleared s q =
     ((sc_kind s = DirectoryScope \<and> q = segments (sc_path s)) \<or>
      (sc_kind s = FileScope \<and> cs_missing s \<and> prefix (segments (sc_path s)) q) \<or>
      near (cs_files s) q)"

text \<open>A captured scope whose copies are those of a tree.\<close>

definition copy_of :: "'c content_open \<Rightarrow> 'c \<Rightarrow> node \<Rightarrow> captured_scope \<Rightarrow> bool" where
  "copy_of fetch content src s =
     ((\<lambda>f. (segments (cf_path f), fetch content (''sha256:'' @ cf_sha256 f), cf_executable f)) ` set (cs_files s) =
        (\<lambda>(p, b, x). (p, Inr b, x)) ` covered_files s src \<and>
      (cs_missing s \<longrightarrow> cs_files s = []) \<and>
      (sc_kind s = FileScope \<longrightarrow> \<not> cs_missing s \<longrightarrow> map cf_path (cs_files s) = [sc_path s]))"

lemma copies_image:
  "copy_of fetch content src s \<Longrightarrow>
   (\<lambda>f. (segments (cf_path f), fetch content (''sha256:'' @ cf_sha256 f), cf_executable f)) ` set (cs_files s) =
     (\<lambda>(p, b, x). (p, Inr b, x)) ` covered_files s src"
  by (simp add: copy_of_def)

lemma copy_of_files:
  assumes "copy_of fetch content src s" and "f \<in> set (cs_files s)"
  shows "\<exists>b. fetch content (''sha256:'' @ cf_sha256 f) = Inr b \<and>
    file_at src (segments (cf_path f)) = Some (b, cf_executable f) \<and> covered s (segments (cf_path f))"
proof -
  have "(segments (cf_path f), fetch content (''sha256:'' @ cf_sha256 f), cf_executable f)
      \<in> (\<lambda>(p, b, x). (p, Inr b, x)) ` covered_files s src"
    using imageI [OF assms(2), of "\<lambda>f. (segments (cf_path f), fetch content (''sha256:'' @ cf_sha256 f), cf_executable f)"]
      copies_image [OF assms(1)] by simp
  then show ?thesis by (auto simp: covered_files_def)
qed

lemma copy_of_covers:
  assumes "copy_of fetch content src s" and "covered s q"
  shows "q \<in> segments ` cf_path ` set (cs_files s) \<longleftrightarrow> file_at src q \<noteq> None"
proof
  assume "q \<in> segments ` cf_path ` set (cs_files s)"
  then show "file_at src q \<noteq> None" using copy_of_files [OF assms(1)] by fastforce
next
  assume "file_at src q \<noteq> None"
  then obtain b x where "(q, b, x) \<in> covered_files s src"
    using assms(2) by (auto simp: covered_files_def)
  then have "(q, Inr b, x) \<in> (\<lambda>(p, b, x). (p, Inr b, x)) ` covered_files s src" by force
  then have "(q, Inr b, x) \<in>
      (\<lambda>f. (segments (cf_path f), fetch content (''sha256:'' @ cf_sha256 f), cf_executable f)) ` set (cs_files s)"
    by (simp only: copies_image [OF assms(1)])
  then show "q \<in> segments ` cf_path ` set (cs_files s)" by auto
qed

lemma mirror_scope_effect:
  assumes copy: "copy_of fetch content src s" and t: "wf_node t" "is_dir t"
  shows "\<exists>t'. mirror_scope fetch content s t = Inr t' \<and> wf_node t' \<and> is_dir t' \<and>
    (\<forall>q. file_at t' q =
      (if covered s q then file_at src q else if cleared s q then None else file_at t q))"
proof -
  let ?b = "segments (sc_path s)" and ?keep = "map cf_path (cs_files s)"
  define first where "first =
    (if sc_kind s = DirectoryScope then prune s ?keep t
     else if cs_missing s then remove_file ?b t else Inr t)"
  have step1: "\<exists>t1. first = Inr t1 \<and> wf_node t1 \<and> is_dir t1 \<and>
      (\<forall>q. \<not> near (cs_files s) q \<longrightarrow> file_at t1 q =
        (if covered s q then file_at src q else if cleared s q then None else file_at t q))"
  proof (cases "sc_kind s")
    case DirectoryScope
    have outside: "q \<notin> segments ` set ?keep" if "\<not> near (cs_files s) q" for q
      using that by (auto simp: near_def comparable_def list_ex_iff)
    have not_base: "\<not> covered s ?b" using DirectoryScope by (simp add: covered_def Let_def)
    obtain t1 where t1: "prune s ?keep t = Inr t1" "wf_node t1" "is_dir t1"
      "\<And>q. file_at t1 q =
        (if q = ?b \<or> (covered s q \<and> q \<notin> segments ` set ?keep) then None else file_at t q)"
      using prune_effect [OF DirectoryScope t, of ?keep] by auto
    have "file_at t1 q = (if covered s q then file_at src q else if cleared s q then None else file_at t q)"
      if "\<not> near (cs_files s) q" for q
      using t1(4) [of q] outside [OF that] copy_of_covers [OF copy, of q] not_base that DirectoryScope
      by (cases "file_at src q") (auto simp: cleared_def)
    with t1(1-3) DirectoryScope show ?thesis by (simp add: first_def)
  next
    case FileScope
    then have only: "covered s q \<longleftrightarrow> q = ?b" for q by (simp add: covered_def Let_def)
    show ?thesis
    proof (cases "cs_missing s")
      case True
      then have "cs_files s = []" using copy by (simp add: copy_of_def)
      then have none: "file_at src ?b = None" using copy_of_covers [OF copy, of ?b] only
        by (cases "file_at src ?b") auto
      obtain t1 where "remove_file ?b t = Inr t1" "wf_node t1" "is_dir t1"
        "\<And>q. file_at t1 q = (if prefix ?b q then None else file_at t q)"
        using remove_file_effect [OF t, of "sc_path s"] by auto
      with FileScope True only none show ?thesis
        by (auto simp: first_def cleared_def \<open>cs_files s = []\<close> near_def)
    next
      case False
      then have "?keep = [sc_path s]" using copy FileScope by (simp add: copy_of_def)
      then have "near (cs_files s) ?b" by (auto simp: near_def comparable_def)
      with FileScope False only t show ?thesis by (auto simp: first_def cleared_def)
    qed
  qed
  then obtain t1 where t1: "first = Inr t1" "wf_node t1" "is_dir t1"
    "\<And>q. \<not> near (cs_files s) q \<Longrightarrow> file_at t1 q =
        (if covered s q then file_at src q else if cleared s q then None else file_at t q)"
    by blast
  obtain t2 where t2: "write_files fetch content (cs_files s) t1 = Inr t2" "wf_node t2" "is_dir t2"
    "\<And>q. file_at t2 q = (if near (cs_files s) q then file_at src q else file_at t1 q)"
    using write_files_effect [OF t1(2,3), of "cs_files s" fetch content src] copy_of_files [OF copy] by blast
  have "file_at src q = None" if "near (cs_files s) q" "\<not> covered s q" for q
  proof -
    obtain f where f: "f \<in> set (cs_files s)" "comparable (segments (cf_path f)) q"
      using \<open>near (cs_files s) q\<close> by (auto simp: near_def list_ex_iff)
    with copy_of_files [OF copy f(1)] files_not_nested [of src q "segments (cf_path f)"]
      files_not_nested [of src "segments (cf_path f)" q] \<open>\<not> covered s q\<close> show ?thesis
      by (cases "file_at src q") (auto simp: comparable_def)
  qed
  then have "file_at t2 q = (if covered s q then file_at src q else if cleared s q then None else file_at t q)" for q
    using t1(4) [of q] t2(4) [of q] by (auto simp: cleared_def)
  moreover have "mirror_scope fetch content s t = Inr t2"
    using t1(1) t2(1) by (simp add: mirror_scope_def and_fs_def first_def [symmetric])
  ultimately show ?thesis using t2(2,3) by blast
qed

lemma cleared_meets_covered:
  assumes "copy_of fetch content src s'" and "cleared s' q" and "covered s q"
  shows "comparable (segments (sc_path s)) (segments (sc_path s'))"
proof -
  have base: "prefix (segments (sc_path s)) q" using assms(3) by (rule covered_base)
  consider "prefix (segments (sc_path s')) q"
    | f where "f \<in> set (cs_files s')" "prefix q (segments (cf_path f))"
  proof -
    have "prefix (segments (sc_path s')) q \<or> (\<exists>f \<in> set (cs_files s'). prefix q (segments (cf_path f)))"
    proof (cases "near (cs_files s') q")
      case True
      then obtain f where f: "f \<in> set (cs_files s')" "comparable (segments (cf_path f)) q"
        by (auto simp: near_def list_ex_iff)
      moreover have "prefix (segments (sc_path s')) (segments (cf_path f))"
        using copy_of_files [OF assms(1) f(1)] covered_base by blast
      ultimately show ?thesis unfolding comparable_def using prefix_order.trans by blast
    next
      case False
      with assms(2) show ?thesis by (auto simp: cleared_def)
    qed
    then show thesis using that by blast
  qed
  then show ?thesis
  proof cases
    case 1
    with base show ?thesis unfolding comparable_def by (rule comparable_prefixes)
  next
    case 2
    have "prefix (segments (sc_path s')) (segments (cf_path f))"
      using copy_of_files [OF assms(1) 2(1)] covered_base by blast
    moreover have "prefix (segments (sc_path s)) (segments (cf_path f))"
      using base 2(2) by (rule prefix_order.trans)
    ultimately show ?thesis unfolding comparable_def using comparable_prefixes by blast
  qed
qed

lemma mirror_scopes_effect:
  assumes "list_all (copy_of fetch content src) ss"
    and "sorted_wrt (\<lambda>a b. \<not> comparable (segments (sc_path a)) (segments (sc_path b))) ss"
    and "wf_node t" and "is_dir t"
  shows "\<exists>t'. mirror_scopes fetch content ss t = Inr t' \<and> wf_node t' \<and> is_dir t' \<and>
    (\<forall>q. file_at t' q =
      (if list_ex (\<lambda>s. covered s q) ss then file_at src q
       else if list_ex (\<lambda>s. cleared s q) ss then None else file_at t q))"
  using assms
proof (induction ss arbitrary: t)
  case (Cons s ss)
  obtain t1 where t1: "mirror_scope fetch content s t = Inr t1" "wf_node t1" "is_dir t1"
    "\<And>q. file_at t1 q =
      (if covered s q then file_at src q else if cleared s q then None else file_at t q)"
    using mirror_scope_effect [of fetch content src s t] Cons.prems by auto
  obtain t2 where t2: "mirror_scopes fetch content ss t1 = Inr t2" "wf_node t2" "is_dir t2"
    "\<And>q. file_at t2 q =
      (if list_ex (\<lambda>s. covered s q) ss then file_at src q
       else if list_ex (\<lambda>s. cleared s q) ss then None else file_at t1 q)"
    using Cons.IH [OF _ _ t1(2,3)] Cons.prems by auto
  have "\<not> list_ex (\<lambda>s. cleared s q) ss" if "covered s q" for q
    using that Cons.prems cleared_meets_covered [of fetch content src _ q s]
    by (auto simp: list_all_iff list_ex_iff)
  then show ?case using t1 t2 by auto
qed simp

section \<open>Capture, then mirror\<close>

text \<open>A captured scope is about the same paths as the scope it was asked for.\<close>

definition same_paths :: "scope \<Rightarrow> captured_scope \<Rightarrow> bool" where
  "same_paths s captured = (sc_path captured = sc_path s \<and> covered captured = covered s)"

context saved_bytes
begin

lemma capture_scope_copy:
  assumes "ok c" and "wf_node root" and "contents root \<subseteq> known"
    and "capture_scope store root s c = (Inr captured, c')" and "keeps c' c''"
  shows "same_paths s captured" and "copy_of fetch c'' root captured"
proof -
  note same = capture_scope_same [OF assms(4)]
  show paths: "same_paths s captured"
  proof -
    have "excluded_below captured = excluded_below s"
      using same by (simp add: fun_eq_iff excluded_below_def)
    then have "visible captured = visible s" by (simp add: fun_eq_iff visible_def)
    with same show ?thesis
      by (cases "sc_kind s") (simp_all add: fun_eq_iff same_paths_def covered_def Let_def)
  qed
  have "saved c'' (cs_files captured) = wanted (covered_files s root)"
    using capture_scope_saves [OF assms(1-4)] saved_kept assms(5) by blast
  moreover have "covered_files captured root = covered_files s root"
    using paths by (simp add: covered_files_def same_paths_def)
  ultimately show "copy_of fetch c'' root captured"
    using same by (simp add: copy_of_def saved_def wanted_def)
qed

lemma capture_scopes_copies:
  assumes "ok c" and "wf_node root" and "contents root \<subseteq> known"
    and "capture_scopes store root ss c = (Inr captured, c')" and "keeps c' c''"
  shows "ok c' \<and> keeps c c' \<and> list_all2 same_paths ss captured \<and> list_all (copy_of fetch c'' root) captured"
  using assms(1,4,5)
proof (induction ss arbitrary: c captured)
  case (Cons s ss)
  obtain a others c1 where a: "capture_scope store root s c = (Inr a, c1)"
    "capture_scopes store root ss c1 = (Inr others, c')" "captured = a # others"
    using Cons.prems(2) by (auto simp: and_copy_Inr)
  note first = capture_scope_saves [OF Cons.prems(1) assms(2,3) a(1)]
  note rest = Cons.IH [OF _ a(2) Cons.prems(3)]
  have "keeps c1 c''" using first rest Cons.prems(3) keeps_trans by blast
  then show ?case
    using first rest capture_scope_copy [OF Cons.prems(1) assms(2,3) a(1)] a(3)
    by (auto intro: keeps_trans)
qed simp

lemma mirror_of_capture:
  assumes "ok c" and "wf_node root" and "contents root \<subseteq> known"
    and "capture_scopes store root ss c = (Inr captured, c')" and "keeps c' c''"
    and "sorted_wrt (\<lambda>a b. \<not> overlap a b) ss" and "wf_node dest" and "is_dir dest"
  shows "\<exists>t. mirror_scopes fetch c'' captured dest = Inr t \<and>
    (\<forall>q. file_at t q =
      (if list_ex (\<lambda>s. covered s q) ss then file_at root q
       else if list_ex (\<lambda>s. cleared s q) captured then None else file_at dest q))"
proof -
  note saved = capture_scopes_copies [OF assms(1-5)]
  have paths: "list_all2 same_paths ss captured" using saved by blast
  have "sorted_wrt (\<lambda>a b. \<not> comparable (segments (sc_path a)) (segments (sc_path b))) captured"
    using assms(6) paths
    by (simp add: sorted_wrt_iff_nth_less list_all2_conv_all_nth overlap_def comparable_def
        path_contains_iff same_paths_def)
  moreover have "list_ex (\<lambda>s. covered s q) captured = list_ex (\<lambda>s. covered s q) ss" for q
    using paths by (induction ss captured rule: list_all2_induct) (auto simp: same_paths_def)
  ultimately show ?thesis
    using mirror_scopes_effect [of fetch c'' root captured dest] saved assms(7,8) by auto
qed

end

end
