(* ===== verification/Content_Store.thy ===== *)
theory Content_Store
  imports Checkpoint_Copies
begin

text \<open>
  \<^verbatim>\<open>store/content-store.ts\<close>: immutable bytes named by their hash, the capture leases that
  protect them, and the collector that reclaims what nothing references, with the per-candidate
  step of \<^verbatim>\<open>platform/persistence/orphan-files.ts\<close>. A blob is kept under its hash (its file is
  \<^verbatim>\<open><hh>/<hash>.json\<close>) with its modification time, a temporary file under its name. The hash
  function is a parameter. First the operations one after the other; then the interleaving of their
  synchronous blocks, which is what makes the collector hard.
\<close>

section \<open>The ledger of leases\<close>

record lease =
  l_holds :: "string list"
  l_closed :: bool

text \<open>\<open>held\<close>, \<open>liveTemps\<close>, \<open>releasedDuringSweep\<close> and \<open>sweeping\<close>.\<close>

record ledger =
  g_held :: "string \<Rightarrow> nat option"
  g_live_temps :: "string list"
  g_released :: "string list option"
  g_sweeping :: bool

definition open_lease :: lease where
  "open_lease = \<lparr>l_holds = [], l_closed = False\<rparr>"

definition held_count :: "ledger \<Rightarrow> string \<Rightarrow> nat" where
  "held_count led h = (case g_held led h of None \<Rightarrow> 0 | Some n \<Rightarrow> n)"

definition hold :: "lease \<Rightarrow> string \<Rightarrow> ledger \<Rightarrow> bool \<times> lease \<times> ledger" where
  "hold lease h led =
     (if l_closed lease then (False, lease, led)
      else if h \<in> set (l_holds lease) then (True, lease, led)
      else (True, lease\<lparr>l_holds := l_holds lease @ [h]\<rparr>,
            led\<lparr>g_held := (g_held led)(h \<mapsto> held_count led h + 1)\<rparr>))"

definition release_hash :: "string \<Rightarrow> ledger \<Rightarrow> ledger" where
  "release_hash h led =
     (let count = held_count led h - 1 in
      led\<lparr>g_held := (g_held led)(h := if 0 < count then Some count else None),
          g_released := map_option (List.insert h) (g_released led)\<rparr>)"

definition release :: "lease \<Rightarrow> ledger \<Rightarrow> lease \<times> ledger" where
  "release lease led =
     (if l_closed lease then (lease, led)
      else (lease\<lparr>l_closed := True\<rparr>, fold release_hash (l_holds lease) led))"

definition stage :: "string \<Rightarrow> ledger \<Rightarrow> ledger" where
  "stage name led = led\<lparr>g_live_temps := List.insert name (g_live_temps led)\<rparr>"

definition unstage :: "string \<Rightarrow> ledger \<Rightarrow> ledger" where
  "unstage name led = led\<lparr>g_live_temps := filter (\<lambda>n. n \<noteq> name) (g_live_temps led)\<rparr>"

section \<open>The files\<close>

record disk =
  k_blobs :: "string \<Rightarrow> (bytes \<times> nat) option"
  k_temps :: "string \<Rightarrow> (bytes \<times> nat) option"

text \<open>The stream written to its temporary file, which must not exist (\<^verbatim>\<open>flags: 'wx'\<close>).\<close>

definition write_temporary :: "nat \<Rightarrow> string \<Rightarrow> bytes \<Rightarrow> disk \<Rightarrow> disk option" where
  "write_temporary now name b d =
     (if k_temps d name = None then Some (d\<lparr>k_temps := (k_temps d)(name \<mapsto> (b, now))\<rparr>) else None)"

definition remove_quietly :: "string \<Rightarrow> disk \<Rightarrow> disk" where
  "remove_quietly name d = d\<lparr>k_temps := (k_temps d)(name := None)\<rparr>"

definition touch :: "nat \<Rightarrow> string \<Rightarrow> disk \<Rightarrow> disk option" where
  "touch now h d =
     (case k_blobs d h of
        None \<Rightarrow> None
      | Some (b, _) \<Rightarrow> Some (d\<lparr>k_blobs := (k_blobs d)(h \<mapsto> (b, now))\<rparr>))"

definition verifies :: "(bytes \<Rightarrow> string) \<Rightarrow> string \<Rightarrow> disk \<Rightarrow> bool" where
  "verifies digest h d = (case k_blobs d h of None \<Rightarrow> False | Some (b, _) \<Rightarrow> digest b = h)"

definition reuse_existing :: "(bytes \<Rightarrow> string) \<Rightarrow> nat \<Rightarrow> string \<Rightarrow> disk \<Rightarrow> bool \<times> disk" where
  "reuse_existing digest now h d =
     (case touch now h d of None \<Rightarrow> (False, d) | Some d1 \<Rightarrow> (verifies digest h d1, d1))"

definition rename_into :: "string \<Rightarrow> string \<Rightarrow> disk \<Rightarrow> disk option" where
  "rename_into name h d =
     (case k_temps d name of
        None \<Rightarrow> None
      | Some f \<Rightarrow>
          Some (d\<lparr>k_blobs := (k_blobs d)(h \<mapsto> f), k_temps := (k_temps d)(name := None)\<rparr>))"

definition commit_temporary ::
    "(bytes \<Rightarrow> string) \<Rightarrow> nat \<Rightarrow> string \<Rightarrow> string \<Rightarrow> disk \<Rightarrow> (publish_error + unit) \<times> disk" where
  "commit_temporary digest now h name d =
     (let (reused, d1) = reuse_existing digest now h d in
      if reused then (Inr (), remove_quietly name d1)
      else case rename_into name h d1 of
        Some d2 \<Rightarrow> (Inr (), d2)
      | None \<Rightarrow>
          (let (again, d2) = reuse_existing digest now h (remove_quietly name d1) in
           (if again then Inr () else Inl CouldNotPublish, d2)))"

section \<open>One put after the other\<close>

text \<open>
  A capture as its owner sees it: its lease, the shared ledger and files, the clock, and how many
  names \<open>randomUUID\<close> has given out.
\<close>

record session =
  s_lease :: lease
  s_ledger :: ledger
  s_disk :: disk
  s_now :: nat
  s_uuids :: nat

definition content_ref :: "string \<Rightarrow> string" where
  "content_ref h = ''sha256:'' @ h"

definition publish_staged ::
    "(bytes \<Rightarrow> string) \<Rightarrow> bytes \<Rightarrow> string \<Rightarrow> session \<Rightarrow> (publish_error + string \<times> nat) \<times> session" where
  "publish_staged digest source name c =
     (case write_temporary (s_now c) name source (s_disk c) of
        None \<Rightarrow> (Inl CouldNotPublish, c\<lparr>s_disk := remove_quietly name (s_disk c)\<rparr>)
      | Some d \<Rightarrow>
          (let h = digest source; (taken, lease, led) = hold (s_lease c) h (s_ledger c) in
           if \<not> taken then (Inl CaptureClosed, c\<lparr>s_disk := remove_quietly name d\<rparr>)
           else
             (let (r, d') = commit_temporary digest (s_now c) h name d in
              (case r of Inl e \<Rightarrow> Inl e | Inr _ \<Rightarrow> Inr (content_ref h, length source),
               c\<lparr>s_lease := lease, s_ledger := led, s_disk := d'\<rparr>))))"

definition put_content ::
    "(bytes \<Rightarrow> string) \<Rightarrow> (nat \<Rightarrow> string) \<Rightarrow> bytes \<Rightarrow> session \<Rightarrow> (publish_error + string \<times> nat) \<times> session" where
  "put_content digest uuid source c =
     (if l_closed (s_lease c) then (Inl CaptureClosed, c)
      else
        (let name = uuid (s_uuids c) @ ''.tmp'';
             (r, c') = publish_staged digest source name
               (c\<lparr>s_ledger := stage name (s_ledger c), s_uuids := Suc (s_uuids c)\<rparr>) in
         (r, c'\<lparr>s_ledger := unstage name (s_ledger c')\<rparr>)))"

definition lower_hex :: "char \<Rightarrow> bool" where
  "lower_hex c = ((CHR ''a'' \<le> c \<and> c \<le> CHR ''f'') \<or> (CHR ''0'' \<le> c \<and> c \<le> CHR ''9''))"

definition ref_pattern :: "string \<Rightarrow> bool" where
  "ref_pattern r =
     (take 7 r = ''sha256:'' \<and> length (drop 7 r) = 64 \<and> list_all lower_hex (drop 7 r))"

text \<open>\<open>open\<close> and \<open>readAll\<close>, which differ in how the bytes are read and not in what they answer.\<close>

definition open_content :: "(bytes \<Rightarrow> string) \<Rightarrow> disk \<Rightarrow> string \<Rightarrow> content_cause + bytes" where
  "open_content digest d r =
     (if \<not> ref_pattern r then Inl ContentMissing
      else case k_blobs d (drop 7 r) of
        None \<Rightarrow> Inl ContentMissing
      | Some (b, _) \<Rightarrow> if content_ref (digest b) = r then Inr b else Inl ContentCorrupt)"

definition fetch_content :: "(bytes \<Rightarrow> string) \<Rightarrow> session content_open" where
  "fetch_content digest c r = open_content digest (s_disk c) r"

section \<open>The collector\<close>

datatype candidate = BlobFile string | TempFile string

datatype sweep_outcome = Kept | Unsafe | Missing | Young | Deleted

definition is_live_content :: "ledger \<Rightarrow> string list \<Rightarrow> candidate \<Rightarrow> bool" where
  "is_live_content led mark candidate =
     (case candidate of
        TempFile name \<Rightarrow> name \<in> set (g_live_temps led)
      | BlobFile h \<Rightarrow>
          g_held led h \<noteq> None \<or>
          (case g_released led of None \<Rightarrow> False | Some r \<Rightarrow> h \<in> set r) \<or>
          h \<in> set mark)"

definition last_write :: "disk \<Rightarrow> candidate \<Rightarrow> nat option" where
  "last_write d candidate =
     map_option snd (case candidate of BlobFile h \<Rightarrow> k_blobs d h | TempFile name \<Rightarrow> k_temps d name)"

definition unlink_candidate :: "candidate \<Rightarrow> disk \<Rightarrow> disk" where
  "unlink_candidate candidate d =
     (case candidate of
        BlobFile h \<Rightarrow> d\<lparr>k_blobs := (k_blobs d)(h := None)\<rparr>
      | TempFile name \<Rightarrow> remove_quietly name d)"

text \<open>
  \<open>sweepCandidate\<close>; \<open>guarded\<close> says whether every directory above the candidate is still a real
  directory and the entry itself a real file.
\<close>

definition sweep_candidate ::
    "bool \<Rightarrow> bool \<Rightarrow> nat \<Rightarrow> nat \<Rightarrow> candidate \<Rightarrow> disk \<Rightarrow> sweep_outcome \<times> disk" where
  "sweep_candidate live guarded min_age now candidate d =
     (if live then (Kept, d)
      else if \<not> guarded then (Unsafe, d)
      else case last_write d candidate of
        None \<Rightarrow> (Missing, d)
      | Some m \<Rightarrow>
          if int now - int m < int min_age then (Young, d)
          else (Deleted, unlink_candidate candidate d))"

section \<open>What a capture relies on\<close>

text \<open>
  A digest fit for the contents at hand: no two of them collide and each hash has the form the
  store reads back.
\<close>

definition fit_digest :: "(bytes \<Rightarrow> string) \<Rightarrow> bytes set \<Rightarrow> bool" where
  "fit_digest digest known =
     (inj_on digest known \<and> (\<forall>b \<in> known. ref_pattern (content_ref (digest b))))"

definition session_ok :: "(bytes \<Rightarrow> string) \<Rightarrow> bytes set \<Rightarrow> session \<Rightarrow> bool" where
  "session_ok digest known c =
     (fit_digest digest known \<and>
      (\<forall>h b m. k_blobs (s_disk c) h = Some (b, m) \<longrightarrow> b \<in> known))"

lemma commit_temporary_effect:
  assumes "k_temps d name = Some (b, m)" and "digest b = h"
  shows "\<exists>d' b' m'. commit_temporary digest now h name d = (Inr (), d') \<and>
    k_blobs d' = (k_blobs d)(h \<mapsto> (b', m')) \<and> digest b' = h \<and>
    (b' = b \<or> (\<exists>m0. k_blobs d h = Some (b', m0)))"
proof -
  note code = commit_temporary_def reuse_existing_def touch_def verifies_def rename_into_def remove_quietly_def
  consider (fresh) "k_blobs d h = None" | (reused) b0 m0 where "k_blobs d h = Some (b0, m0)" "digest b0 = h"
    | (corrupt) b0 m0 where "k_blobs d h = Some (b0, m0)" "digest b0 \<noteq> h"
    by (cases "k_blobs d h") auto
  then show ?thesis
  proof cases
    case fresh
    with assms show ?thesis
      by (intro exI [of _ "snd (commit_temporary digest now h name d)"] exI [of _ b] exI [of _ m])
         (simp add: code)
  next
    case reused
    with assms show ?thesis
      by (intro exI [of _ "snd (commit_temporary digest now h name d)"] exI [of _ b0] exI [of _ now])
         (simp add: code)
  next
    case corrupt
    with assms show ?thesis
      by (intro exI [of _ "snd (commit_temporary digest now h name d)"] exI [of _ b] exI [of _ m])
         (simp add: code)
  qed
qed

lemma put_content_effect:
  assumes "put_content digest uuid b c = (r, c')"
  shows "(\<exists>b' m'. k_blobs (s_disk c') = (k_blobs (s_disk c))(digest b \<mapsto> (b', m')) \<and> digest b' = digest b \<and>
            (b' = b \<or> (\<exists>m0. k_blobs (s_disk c) (digest b) = Some (b', m0))) \<and>
            r = Inr (content_ref (digest b), length b)) \<or>
         (k_blobs (s_disk c') = k_blobs (s_disk c) \<and> is_inr r = False)"
proof (cases "l_closed (s_lease c)")
  case True
  with assms show ?thesis by (auto simp: put_content_def)
next
  case False
  let ?name = "uuid (s_uuids c) @ ''.tmp''"
  let ?c = "c\<lparr>s_ledger := stage ?name (s_ledger c), s_uuids := Suc (s_uuids c)\<rparr>"
  obtain c1 where c1: "publish_staged digest b ?name ?c = (r, c1)" "s_disk c' = s_disk c1"
    using assms False by (auto simp: put_content_def Let_def split: prod.splits)
  show ?thesis
  proof (cases "write_temporary (s_now c) ?name b (s_disk c)")
    case None
    then show ?thesis using c1 by (auto simp: publish_staged_def remove_quietly_def)
  next
    case (Some d)
    then have d: "k_temps d ?name = Some (b, s_now c)" "k_blobs d = k_blobs (s_disk c)"
      by (auto simp: write_temporary_def split: if_splits)
    obtain taken lease led where h: "hold (s_lease ?c) (digest b) (s_ledger ?c) = (taken, lease, led)"
      by (metis prod_cases3)
    show ?thesis
    proof (cases taken)
      case True
      obtain d' b' m' where e: "commit_temporary digest (s_now c) (digest b) ?name d = (Inr (), d')"
        "k_blobs d' = (k_blobs d)(digest b \<mapsto> (b', m'))" "digest b' = digest b"
        "b' = b \<or> (\<exists>m0. k_blobs d (digest b) = Some (b', m0))"
        using commit_temporary_effect [OF d(1) refl] by blast
      have "s_disk c1 = d'" "r = Inr (content_ref (digest b), length b)"
        using c1(1) Some h True e(1) by (auto simp: publish_staged_def Let_def)
      with e d(2) c1(2) show ?thesis by (intro disjI1 exI [of _ b'] exI [of _ m']) simp
    next
      case False
      then show ?thesis using c1 Some h d(2)
        by (auto simp: publish_staged_def remove_quietly_def Let_def)
    qed
  qed
qed

interpretation contents: saved_bytes "put_content digest uuid" "fetch_content digest"
  "session_ok digest known" known for digest uuid known
proof
  fix c b r c'
  assume ok: "session_ok digest known c" and b: "b \<in> known" and p: "put_content digest uuid b c = (r, c')"
  have old: "b0 \<in> known" if "k_blobs (s_disk c) h = Some (b0, m)" for h b0 m
    using ok that unfolding session_ok_def by blast
  have "b0 \<in> known" if "k_blobs (s_disk c') h = Some (b0, m)" for h b0 m
    using put_content_effect [OF p] that b old by (auto split: if_splits)
  then show "session_ok digest known c'" using ok unfolding session_ok_def by blast
next
  fix c b name byte_size c'
  assume ok: "session_ok digest known c" and b: "b \<in> known"
    and p: "put_content digest uuid b c = (Inr (name, byte_size), c')"
  obtain b' m' where e: "k_blobs (s_disk c') = (k_blobs (s_disk c))(digest b \<mapsto> (b', m'))"
      "digest b' = digest b" "b' = b \<or> (\<exists>m0. k_blobs (s_disk c) (digest b) = Some (b', m0))"
      "name = content_ref (digest b)"
    using put_content_effect [OF p] by auto
  have "b' \<in> known" using e(3) b ok unfolding session_ok_def by blast
  then have "b' = b" using e(2) b ok by (auto simp: session_ok_def fit_digest_def dest: inj_onD)
  moreover have "ref_pattern name" using e(4) b ok by (simp add: session_ok_def fit_digest_def)
  ultimately show "(\<exists>h. name = ''sha256:'' @ h) \<and> fetch_content digest c' name = Inr b"
    using e by (simp add: fetch_content_def open_content_def content_ref_def)
next
  fix c b r c' name b'
  assume ok: "session_ok digest known c" and b: "b \<in> known" and p: "put_content digest uuid b c = (r, c')"
    and f: "fetch_content digest c name = Inr b'"
  obtain m where o: "ref_pattern name" "k_blobs (s_disk c) (drop 7 name) = Some (b', m)"
    "content_ref (digest b') = name"
    using f by (auto simp: fetch_content_def open_content_def split: if_splits option.splits)
  have known: "b' \<in> known" using o(2) ok unfolding session_ok_def by blast
  have name: "drop 7 name = digest b'" using o(3) by (auto simp: content_ref_def)
  have inj: "inj_on digest known" using ok by (simp add: session_ok_def fit_digest_def)
  have same: "b0 = b'" if "digest b0 = digest b'" "b0 \<in> known" for b0
    using inj_onD [OF inj that(1)] that(2) known by simp
  have "\<exists>m. k_blobs (s_disk c') (digest b') = Some (b', m)"
    using put_content_effect [OF p]
  proof (elim disjE exE conjE)
    fix b1 m1
    assume e: "k_blobs (s_disk c') = (k_blobs (s_disk c))(digest b \<mapsto> (b1, m1))" "digest b1 = digest b" "b1 = b"
    then show ?thesis using o(2) name same [of b1] b by auto
  next
    fix b1 m1 m0
    assume e: "k_blobs (s_disk c') = (k_blobs (s_disk c))(digest b \<mapsto> (b1, m1))" "digest b1 = digest b"
      "k_blobs (s_disk c) (digest b) = Some (b1, m0)"
    then show ?thesis using o(2) name by auto
  qed (use o(2) name in auto)
  then show "fetch_content digest c' name = Inr b'"
    using o name by (auto simp: fetch_content_def open_content_def)
qed

end
