(* ===== verification/Content_Collector.thy ===== *)
theory Content_Collector
  imports Content_Store
begin

text \<open>
  The content store's operations interleaved. Each rule of \<open>content_step\<close> is one synchronous block
  of \<^verbatim>\<open>store/content-store.ts\<close>, of the capture around it or of the collector: any number of
  captures and puts run at once, a put may be abandoned or fail at any point, runs are deleted, and
  the collector's sweep takes its candidates one by one in between. The invariant says that the
  ledger counts the open captures that hold a hash and that nothing referenced is ever missing.
\<close>

section \<open>One synchronous block after the other\<close>

text \<open>
  How far a put has come, for its lease and with the bytes it has written: \<open>Holding\<close> from the
  moment it holds the hash until the blob is in place.
\<close>

datatype put_job = Staged nat | Written nat bytes | Holding nat bytes | Published nat bytes

text \<open>
  Where the sweep is, with the candidates left, whichever the listing and their ages left in; \<open>Marked\<close> has the hashes the database referenced
  when it was asked.
\<close>

datatype sweep_phase =
    Resting | Listed "candidate list" | Tracking "candidate list"
  | Marked "string list" "candidate list"

text \<open>
  \<open>w_returned\<close> are the hashes the puts of a capture have returned, which its checkpoint may
  reference; \<open>w_rows\<close> the hashes of each checkpoint row.
\<close>

record content_world =
  w_ledger :: ledger
  w_disk :: disk
  w_leases :: "nat \<Rightarrow> lease option"
  w_jobs :: "string \<Rightarrow> put_job option"
  w_returned :: "nat \<Rightarrow> string list"
  w_rows :: "string list list"
  w_sweep :: sweep_phase

inductive content_step :: "(bytes \<Rightarrow> string) \<Rightarrow> nat \<Rightarrow> content_world \<Rightarrow> content_world \<Rightarrow> bool"
  for digest :: "bytes \<Rightarrow> string" and min_age :: nat where
  open_capture:
    "w_leases w l = None \<Longrightarrow>
     content_step digest min_age w
       (w\<lparr>w_leases := (w_leases w)(l \<mapsto> open_lease), w_returned := (w_returned w)(l := [])\<rparr>)"
| put_stage:
    "w_leases w l = Some lease \<Longrightarrow> \<not> l_closed lease \<Longrightarrow> w_jobs w name = None \<Longrightarrow>
     content_step digest min_age w
       (w\<lparr>w_ledger := stage name (w_ledger w), w_jobs := (w_jobs w)(name \<mapsto> Staged l)\<rparr>)"
| put_write:
    "w_jobs w name = Some (Staged l) \<Longrightarrow> write_temporary now name b (w_disk w) = Some d \<Longrightarrow>
     content_step digest min_age w
       (w\<lparr>w_disk := d, w_jobs := (w_jobs w)(name \<mapsto> Written l b)\<rparr>)"
| put_hold:
    "w_jobs w name = Some (Written l b) \<Longrightarrow> w_leases w l = Some lease \<Longrightarrow>
     hold lease (digest b) (w_ledger w) = (True, lease', ledger') \<Longrightarrow>
     content_step digest min_age w
       (w\<lparr>w_leases := (w_leases w)(l \<mapsto> lease'), w_ledger := ledger',
          w_jobs := (w_jobs w)(name \<mapsto> Holding l b)\<rparr>)"
| put_touch:
    "w_jobs w name = Some (Holding l b) \<Longrightarrow> touch now (digest b) (w_disk w) = Some d \<Longrightarrow>
     content_step digest min_age w (w\<lparr>w_disk := d\<rparr>)"
| put_reuse:
    "w_jobs w name = Some (Holding l b) \<Longrightarrow> verifies digest (digest b) (w_disk w) \<Longrightarrow>
     content_step digest min_age w
       (w\<lparr>w_disk := remove_quietly name (w_disk w), w_jobs := (w_jobs w)(name \<mapsto> Published l b)\<rparr>)"
| put_rename:
    "w_jobs w name = Some (Holding l b) \<Longrightarrow> rename_into name (digest b) (w_disk w) = Some d \<Longrightarrow>
     content_step digest min_age w
       (w\<lparr>w_disk := d, w_jobs := (w_jobs w)(name \<mapsto> Published l b)\<rparr>)"
| put_return:
    "w_jobs w name = Some (Published l b) \<Longrightarrow>
     content_step digest min_age w
       (w\<lparr>w_ledger := unstage name (w_ledger w), w_jobs := (w_jobs w)(name := None),
          w_returned := (w_returned w)(l := digest b # w_returned w l)\<rparr>)"
| put_fail:
    "w_jobs w name = Some job \<Longrightarrow>
     content_step digest min_age w
       (w\<lparr>w_ledger := unstage name (w_ledger w), w_disk := remove_quietly name (w_disk w),
          w_jobs := (w_jobs w)(name := None)\<rparr>)"
| commit_row:
    "w_leases w l = Some lease \<Longrightarrow> \<not> l_closed lease \<Longrightarrow> set hashes \<subseteq> set (w_returned w l) \<Longrightarrow>
     content_step digest min_age w (w\<lparr>w_rows := w_rows w @ [hashes]\<rparr>)"
| close_capture:
    "w_leases w l = Some lease \<Longrightarrow> release lease (w_ledger w) = (lease', ledger') \<Longrightarrow>
     content_step digest min_age w
       (w\<lparr>w_leases := (w_leases w)(l \<mapsto> lease'), w_ledger := ledger'\<rparr>)"
| delete_rows:
    "set kept \<subseteq> set (w_rows w) \<Longrightarrow> content_step digest min_age w (w\<lparr>w_rows := kept\<rparr>)"
| sweep_start:
    "\<not> g_sweeping (w_ledger w) \<Longrightarrow>
     content_step digest min_age w
       (w\<lparr>w_ledger := (w_ledger w)\<lparr>g_sweeping := True\<rparr>,
          w_sweep := Listed old\<rparr>)"
| sweep_track:
    "w_sweep w = Listed old \<Longrightarrow> old \<noteq> [] \<Longrightarrow>
     content_step digest min_age w
       (w\<lparr>w_ledger := (w_ledger w)\<lparr>g_released := Some []\<rparr>, w_sweep := Tracking old\<rparr>)"
| sweep_mark:
    "w_sweep w = Tracking old \<Longrightarrow>
     content_step digest min_age w (w\<lparr>w_sweep := Marked (concat (w_rows w)) old\<rparr>)"
| sweep_one:
    "w_sweep w = Marked mark (candidate # old) \<Longrightarrow>
     sweep_candidate (is_live_content (w_ledger w) mark candidate) guarded min_age now candidate (w_disk w)
       = (outcome, d) \<Longrightarrow>
     content_step digest min_age w (w\<lparr>w_disk := d, w_sweep := Marked mark old\<rparr>)"
| sweep_end:
    "w_sweep w \<noteq> Resting \<Longrightarrow>
     content_step digest min_age w
       (w\<lparr>w_ledger := (w_ledger w)\<lparr>g_released := None, g_sweeping := False\<rparr>, w_sweep := Resting\<rparr>)"

section \<open>The ledger\<close>

definition holders :: "content_world \<Rightarrow> string \<Rightarrow> nat set" where
  "holders w h =
     {l. \<exists>lease. w_leases w l = Some lease \<and> \<not> l_closed lease \<and> h \<in> set (l_holds lease)}"

text \<open>\<open>held[h]\<close> is the number of open captures that hold \<open>h\<close>; it never stores 0.\<close>

definition ledger_counts :: "content_world \<Rightarrow> bool" where
  "ledger_counts w =
     (finite (dom (w_leases w)) \<and>
      (\<forall>l lease. w_leases w l = Some lease \<longrightarrow> distinct (l_holds lease)) \<and>
      (\<forall>h. g_held (w_ledger w) h =
         (if holders w h = {} then None else Some (card (holders w h)))))"

lemma finite_holders: "ledger_counts w \<Longrightarrow> finite (holders w h)"
  by (rule finite_subset [of _ "dom (w_leases w)"]) (auto simp: ledger_counts_def holders_def)

lemma held_iff: "ledger_counts w \<Longrightarrow> (g_held (w_ledger w) h \<noteq> None) = (holders w h \<noteq> {})"
  by (simp add: ledger_counts_def)

lemma held_count_card: "ledger_counts w \<Longrightarrow> held_count (w_ledger w) h = card (holders w h)"
  using finite_holders by (simp add: ledger_counts_def held_count_def)

lemma release_hash_held:
  "g_held (release_hash x led) h =
     (if h = x then (if 1 < held_count led h then Some (held_count led h - 1) else None)
      else g_held led h)"
  by (auto simp: release_hash_def Let_def)

lemma release_hash_count: "h \<noteq> x \<Longrightarrow> held_count (release_hash x led) h = held_count led h"
  by (simp add: held_count_def release_hash_held)

lemma fold_release_held:
  "distinct hs \<Longrightarrow>
   g_held (fold release_hash hs led) h =
     (if h \<in> set hs
      then (if 1 < held_count led h then Some (held_count led h - 1) else None)
      else g_held led h)"
proof (induction hs arbitrary: led)
  case (Cons x hs)
  then show ?case by (cases "h = x") (auto simp: release_hash_held release_hash_count)
qed simp

lemma fold_release_released:
  "g_released (fold release_hash hs led) =
     map_option (\<lambda>r. fold List.insert hs r) (g_released led)"
  by (induction hs arbitrary: led)
     (auto simp: release_hash_def Let_def option.map_comp comp_def option.map_id0 option.map_ident id_def)

lemma set_fold_insert: "set (fold List.insert hs r) = set hs \<union> set r"
  by (induction hs arbitrary: r) auto

lemma fold_release_rest:
  "g_live_temps (fold release_hash hs led) = g_live_temps led"
  "g_sweeping (fold release_hash hs led) = g_sweeping led"
  by (induction hs arbitrary: led) (simp_all add: release_hash_def Let_def)

lemma ledger_counts_same:
  "ledger_counts w \<Longrightarrow> w_leases w' = w_leases w \<Longrightarrow> g_held (w_ledger w') = g_held (w_ledger w) \<Longrightarrow>
   ledger_counts w'"
  by (simp add: ledger_counts_def holders_def)

lemma holders_update:
  "holders (w\<lparr>w_leases := (w_leases w)(l \<mapsto> lease)\<rparr>) h =
     (if \<not> l_closed lease \<and> h \<in> set (l_holds lease) then insert l (holders w h) else holders w h - {l})"
  by (auto simp: holders_def)

lemma holders_only_leases: "w_leases w' = w_leases w \<Longrightarrow> holders w' h = holders w h"
  by (simp add: holders_def)

lemma hold_taken:
  assumes "hold lease x led = (True, lease', led')"
  shows "\<not> l_closed lease" and "\<not> l_closed lease'"
    and "set (l_holds lease') = insert x (set (l_holds lease))"
    and "g_live_temps led' = g_live_temps led" and "g_released led' = g_released led"
proof -
  show "\<not> l_closed lease" using assms by (cases "l_closed lease") (simp_all add: hold_def)
  with assms show "\<not> l_closed lease'" "set (l_holds lease') = insert x (set (l_holds lease))"
    "g_live_temps led' = g_live_temps led" "g_released led' = g_released led"
    by (cases "x \<in> set (l_holds lease)"; auto simp: hold_def)+
qed

lemma ledger_counts_hold:
  assumes "ledger_counts w" and "w_leases w l = Some lease"
    and "hold lease x (w_ledger w) = (True, lease', led)"
  shows "ledger_counts (w\<lparr>w_leases := (w_leases w)(l \<mapsto> lease'), w_ledger := led\<rparr>)"
proof (cases "x \<in> set (l_holds lease)")
  case True
  then have "lease' = lease" "led = w_ledger w" using assms(3) by (auto simp: hold_def split: if_splits)
  with assms show ?thesis by (intro ledger_counts_same [OF assms(1)]) (auto simp: fun_upd_idem)
next
  case False
  let ?w = "w\<lparr>w_leases := (w_leases w)(l \<mapsto> lease'), w_ledger := led\<rparr>"
  have h: "\<not> l_closed lease" "lease' = lease\<lparr>l_holds := l_holds lease @ [x]\<rparr>"
    "led = (w_ledger w)\<lparr>g_held := (g_held (w_ledger w))(x \<mapsto> held_count (w_ledger w) x + 1)\<rparr>"
    using assms(3) False by (auto simp: hold_def split: if_splits)
  have mine: "l \<notin> holders w x" using assms(2) False by (simp add: holders_def)
  have at_x: "holders ?w x = insert l (holders w x)" using h by (auto simp: holders_def)
  have other: "holders ?w h' = holders w h'" if "h' \<noteq> x" for h'
    using that h assms(2) by (auto simp: holders_def)
  have "distinct (l_holds lease)" using assms(1,2) by (auto simp: ledger_counts_def)
  then have "\<forall>l0 lease0. w_leases ?w l0 = Some lease0 \<longrightarrow> distinct (l_holds lease0)"
    using assms(1) h(2) False by (auto simp: ledger_counts_def)
  moreover have "finite (dom (w_leases ?w))" using assms(1) by (simp add: ledger_counts_def)
  moreover have "g_held led h' = (if holders ?w h' = {} then None else Some (card (holders ?w h')))" for h'
  proof (cases "h' = x")
    case True
    then show ?thesis
      using h(3) at_x mine finite_holders [OF assms(1), of x] held_count_card [OF assms(1), of x] by simp
  next
    case False
    then show ?thesis using h(3) other assms(1) by (simp add: ledger_counts_def)
  qed
  ultimately show ?thesis by (simp add: ledger_counts_def)
qed

lemma ledger_counts_release:
  assumes "ledger_counts w" and "w_leases w l = Some lease"
    and "release lease (w_ledger w) = (lease', led)"
  shows "ledger_counts (w\<lparr>w_leases := (w_leases w)(l \<mapsto> lease'), w_ledger := led\<rparr>)"
proof (cases "l_closed lease")
  case True
  then have "lease' = lease" "led = w_ledger w" using assms(3) by (auto simp: release_def)
  with assms show ?thesis by (intro ledger_counts_same [OF assms(1)]) (auto simp: fun_upd_idem)
next
  case False
  let ?w = "w\<lparr>w_leases := (w_leases w)(l \<mapsto> lease'), w_ledger := led\<rparr>"
  have r: "lease' = lease\<lparr>l_closed := True\<rparr>" "led = fold release_hash (l_holds lease) (w_ledger w)"
    using assms(3) False by (auto simp: release_def)
  have dist: "distinct (l_holds lease)" using assms(1,2) by (auto simp: ledger_counts_def)
  have "g_held led h = (if holders ?w h = {} then None else Some (card (holders ?w h)))" for h
  proof (cases "h \<in> set (l_holds lease)")
    case True
    then have "l \<in> holders w h" using assms(2) False by (simp add: holders_def)
    moreover have hs: "holders ?w h = holders w h - {l}" using r(1) by (auto simp: holders_def)
    ultimately have "card (holders ?w h) = card (holders w h) - 1" "card (holders w h) \<noteq> 0"
      using finite_holders [OF assms(1), of h] by auto
    moreover have "(holders ?w h = {}) = (card (holders ?w h) = 0)"
      using finite_holders [OF assms(1), of h] hs by simp
    ultimately show ?thesis
      using True r(2) dist held_count_card [OF assms(1), of h] by (simp add: fold_release_held)
  next
    case h: False
    then have "holders ?w h = holders w h" using r(1) assms(2) by (auto simp: holders_def)
    with h r(2) dist assms(1) show ?thesis by (simp add: fold_release_held ledger_counts_def)
  qed
  then show ?thesis using assms(1) r(1) dist by (auto simp: ledger_counts_def)
qed

section \<open>The invariant\<close>

definition holds_in :: "content_world \<Rightarrow> nat \<Rightarrow> string \<Rightarrow> bool" where
  "holds_in w l h = (\<exists>lease. w_leases w l = Some lease \<and> h \<in> set (l_holds lease))"

definition open_in :: "content_world \<Rightarrow> nat \<Rightarrow> bool" where
  "open_in w l = (\<exists>lease. w_leases w l = Some lease \<and> \<not> l_closed lease)"

definition temp_holds :: "content_world \<Rightarrow> string \<Rightarrow> bytes \<Rightarrow> bool" where
  "temp_holds w name b = (\<exists>m. k_temps (w_disk w) name = Some (b, m))"

definition job_ok :: "(bytes \<Rightarrow> string) \<Rightarrow> content_world \<Rightarrow> string \<Rightarrow> put_job \<Rightarrow> bool" where
  "job_ok digest w name job =
     (name \<in> set (g_live_temps (w_ledger w)) \<and>
      (case job of
         Staged l \<Rightarrow> True
       | Written l b \<Rightarrow> temp_holds w name b
       | Holding l b \<Rightarrow> temp_holds w name b \<and> holds_in w l (digest b)
       | Published l b \<Rightarrow>
           holds_in w l (digest b) \<and> (open_in w l \<longrightarrow> verifies digest (digest b) (w_disk w))))"

definition jobs_ok :: "(bytes \<Rightarrow> string) \<Rightarrow> content_world \<Rightarrow> bool" where
  "jobs_ok digest w = (\<forall>name job. w_jobs w name = Some job \<longrightarrow> job_ok digest w name job)"

definition returned_ok :: "(bytes \<Rightarrow> string) \<Rightarrow> content_world \<Rightarrow> bool" where
  "returned_ok digest w =
     (\<forall>l h. open_in w l \<longrightarrow> h \<in> set (w_returned w l) \<longrightarrow> holds_in w l h \<and> verifies digest h (w_disk w))"

text \<open>Every hash a checkpoint references, what the collector's mark read returns.\<close>

definition referenced :: "content_world \<Rightarrow> string set" where
  "referenced w = set (concat (w_rows w))"

definition rows_ok :: "(bytes \<Rightarrow> string) \<Rightarrow> content_world \<Rightarrow> bool" where
  "rows_ok digest w = (\<forall>h \<in> referenced w. verifies digest h (w_disk w))"

definition sweep_ok :: "content_world \<Rightarrow> bool" where
  "sweep_ok w =
     (case w_sweep w of
        Tracking old \<Rightarrow> g_released (w_ledger w) \<noteq> None
      | Marked mark old \<Rightarrow>
          (\<exists>r. g_released (w_ledger w) = Some r \<and>
            (\<forall>h \<in> referenced w. h \<in> set mark \<or> h \<in> set r \<or> holders w h \<noteq> {}))
      | _ \<Rightarrow> True)"

definition world_ok :: "(bytes \<Rightarrow> string) \<Rightarrow> content_world \<Rightarrow> bool" where
  "world_ok digest w =
     (ledger_counts w \<and> jobs_ok digest w \<and> returned_ok digest w \<and> rows_ok digest w \<and> sweep_ok w)"

lemma holder_open: "holds_in w l h \<Longrightarrow> open_in w l \<Longrightarrow> l \<in> holders w h"
  by (auto simp: holds_in_def open_in_def holders_def)

lemma verifies_touch: "touch now h d = Some d' \<Longrightarrow> verifies digest x d' = verifies digest x d"
  by (cases "x = h") (auto simp: touch_def verifies_def split: option.splits)

lemma temps_touch: "touch now h d = Some d' \<Longrightarrow> k_temps d' = k_temps d"
  by (auto simp: touch_def split: option.splits)

lemma write_temporary_effect:
  "write_temporary now name b d = Some d' \<Longrightarrow>
   k_blobs d' = k_blobs d \<and> k_temps d' = (k_temps d)(name \<mapsto> (b, now))"
  by (auto simp: write_temporary_def split: if_splits)

lemma rename_into_effect:
  "rename_into name h d = Some d' \<Longrightarrow> k_temps d name = Some (b, m) \<Longrightarrow>
   k_blobs d' = (k_blobs d)(h \<mapsto> (b, m)) \<and> k_temps d' = (k_temps d)(name := None)"
  by (auto simp: rename_into_def)

lemma verifies_blobs: "k_blobs d' = k_blobs d \<Longrightarrow> verifies digest h d' = verifies digest h d"
  by (simp add: verifies_def)

lemma remove_quietly_effect [simp]:
  "k_blobs (remove_quietly name d) = k_blobs d"
  "k_temps (remove_quietly name d) = (k_temps d)(name := None)"
  "verifies digest h (remove_quietly name d) = verifies digest h d"
  by (simp_all add: remove_quietly_def verifies_def)

text \<open>A sweep step takes away nothing that is live.\<close>

lemma sweep_candidate_effect:
  assumes "sweep_candidate live guarded min_age now candidate d = (outcome, d')"
  shows "d' = d \<or> \<not> live \<and> d' = unlink_candidate candidate d"
  using assms by (auto simp: sweep_candidate_def split: if_splits option.splits)

lemma world_okI:
  assumes "world_ok digest w" and "ledger_counts w'"
    and "\<And>name job. w_jobs w' name = Some job \<Longrightarrow> job_ok digest w' name job"
    and "\<And>l h. open_in w' l \<Longrightarrow> h \<in> set (w_returned w' l) \<Longrightarrow> holds_in w' l h \<and> verifies digest h (w_disk w')"
    and "\<And>h. h \<in> referenced w' \<Longrightarrow> verifies digest h (w_disk w')"
    and "sweep_ok w'"
  shows "world_ok digest w'"
  using assms unfolding world_ok_def jobs_ok_def returned_ok_def rows_ok_def by blast

lemma world_okD:
  assumes "world_ok digest w"
  shows "ledger_counts w"
    and "w_jobs w name = Some job \<Longrightarrow> job_ok digest w name job"
    and "open_in w l \<Longrightarrow> h \<in> set (w_returned w l) \<Longrightarrow> holds_in w l h \<and> verifies digest h (w_disk w)"
    and "h \<in> referenced w \<Longrightarrow> verifies digest h (w_disk w)"
    and "sweep_ok w"
  using assms unfolding world_ok_def jobs_ok_def returned_ok_def rows_ok_def by blast+

lemmas world_views = holds_in_def open_in_def temp_holds_def

text \<open>
  What a step has to show when leases only grow and stay shut, verified blobs stay verified, and
  rows, returned hashes and jobs are those of before or new ones that are in order.
\<close>

lemma world_step:
  assumes ok: "world_ok digest w"
    and holds: "\<And>l h. holds_in w l h \<Longrightarrow> holds_in w' l h"
    and shut: "\<And>l h. holds_in w l h \<Longrightarrow> open_in w' l \<Longrightarrow> open_in w l"
    and files: "\<And>h. verifies digest h (w_disk w) \<Longrightarrow> verifies digest h (w_disk w')"
    and jobs: "\<And>name job. w_jobs w' name = Some job \<Longrightarrow>
        (w_jobs w name = Some job \<and> k_temps (w_disk w') name = k_temps (w_disk w) name \<and>
         (name \<in> set (g_live_temps (w_ledger w)) \<longrightarrow> name \<in> set (g_live_temps (w_ledger w'))))
        \<or> job_ok digest w' name job"
    and returned: "\<And>l h. open_in w' l \<Longrightarrow> h \<in> set (w_returned w' l) \<Longrightarrow>
        (open_in w l \<and> h \<in> set (w_returned w l)) \<or> (holds_in w' l h \<and> verifies digest h (w_disk w'))"
    and rows: "\<And>h. h \<in> referenced w' \<Longrightarrow>
        h \<in> referenced w \<or> verifies digest h (w_disk w')"
    and counts: "ledger_counts w'" and sweep: "sweep_ok w'"
  shows "world_ok digest w'"
proof (rule world_okI [OF ok counts _ _ _ sweep])
  show "job_ok digest w' name job" if "w_jobs w' name = Some job" for name job
    using jobs [OF that]
  proof
    assume a: "w_jobs w name = Some job \<and> k_temps (w_disk w') name = k_temps (w_disk w) name \<and>
         (name \<in> set (g_live_temps (w_ledger w)) \<longrightarrow> name \<in> set (g_live_temps (w_ledger w')))"
    then have "job_ok digest w name job" using world_okD(2) [OF ok] by blast
    with a show ?thesis using holds shut files
      by (auto simp: job_ok_def temp_holds_def split: put_job.splits)
  qed
  show "holds_in w' l h \<and> verifies digest h (w_disk w')"
    if "open_in w' l" "h \<in> set (w_returned w' l)" for l h
    using returned [OF that] world_okD(3) [OF ok, of l h] holds files by blast
  show "verifies digest h (w_disk w')" if "h \<in> referenced w'" for h
    using rows [OF that] world_okD(4) [OF ok] files by blast
qed

text \<open>Leases and rows as before.\<close>

lemma marked_ok:
  "sweep_ok w \<Longrightarrow> w_sweep w = Marked mark old \<Longrightarrow> h \<in> referenced w \<Longrightarrow>
   h \<in> set mark \<or> (\<exists>r. g_released (w_ledger w) = Some r \<and> h \<in> set r) \<or> holders w h \<noteq> {}"
  by (auto simp: sweep_ok_def)

lemma sweep_ok_same:
  assumes "sweep_ok w" and "w_sweep w' = w_sweep w" and "g_released (w_ledger w') = g_released (w_ledger w)"
    and rows: "\<And>h. h \<in> referenced w' \<Longrightarrow> h \<in> referenced w \<or> holders w' h \<noteq> {}"
    and holders: "\<And>h. holders w h \<noteq> {} \<Longrightarrow> holders w' h \<noteq> {}"
  shows "sweep_ok w'"
proof (cases "w_sweep w")
  case (Marked mark old)
  then obtain r where r: "g_released (w_ledger w) = Some r" using assms(1) by (auto simp: sweep_ok_def)
  have "h \<in> set mark \<or> h \<in> set r \<or> holders w' h \<noteq> {}" if "h \<in> referenced w'" for h
    using rows [OF that] marked_ok [OF assms(1) Marked, of h] holders r by auto
  then show ?thesis using Marked assms(2,3) r by (simp add: sweep_ok_def)
qed (use assms in \<open>simp_all add: sweep_ok_def\<close>)

lemma world_step_quiet:
  assumes ok: "world_ok digest w" and leases: "w_leases w' = w_leases w"
    and ledger: "g_held (w_ledger w') = g_held (w_ledger w)" "g_released (w_ledger w') = g_released (w_ledger w)"
    and sweep: "w_sweep w' = w_sweep w" and rows: "referenced w' \<subseteq> referenced w"
    and files: "\<And>h. verifies digest h (w_disk w) \<Longrightarrow> verifies digest h (w_disk w')"
    and jobs: "\<And>name job. w_jobs w' name = Some job \<Longrightarrow>
        (w_jobs w name = Some job \<and> k_temps (w_disk w') name = k_temps (w_disk w) name \<and>
         (name \<in> set (g_live_temps (w_ledger w)) \<longrightarrow> name \<in> set (g_live_temps (w_ledger w'))))
        \<or> job_ok digest w' name job"
    and returned: "\<And>l h. open_in w' l \<Longrightarrow> h \<in> set (w_returned w' l) \<Longrightarrow>
        h \<in> set (w_returned w l) \<or> (holds_in w' l h \<and> verifies digest h (w_disk w'))"
  shows "world_ok digest w'"
proof (rule world_step [OF ok _ _ files jobs])
  have same: "holders w' h = holders w h" for h by (rule holders_only_leases [OF leases])
  show "ledger_counts w'" by (rule ledger_counts_same [OF world_okD(1) [OF ok] leases ledger(1)])
  show "sweep_ok w'"
    using rows by (intro sweep_ok_same [OF world_okD(5) [OF ok] sweep ledger(2)]) (auto simp: same)
  show "(open_in w l \<and> h \<in> set (w_returned w l)) \<or> (holds_in w' l h \<and> verifies digest h (w_disk w'))"
    if "open_in w' l" "h \<in> set (w_returned w' l)" for l h
    using returned [OF that] that(1) leases by (auto simp: open_in_def)
qed (use leases rows in \<open>auto simp: holds_in_def open_in_def\<close>)

lemma job_lease:
  "world_ok digest w \<Longrightarrow> w_jobs w name = Some (Holding l b) \<Longrightarrow> temp_holds w name b \<and> holds_in w l (digest b)"
  "world_ok digest w \<Longrightarrow> w_jobs w name = Some (Written l b) \<Longrightarrow> temp_holds w name b"
  "world_ok digest w \<Longrightarrow> w_jobs w name = Some (Published l b) \<Longrightarrow>
     holds_in w l (digest b) \<and> (open_in w l \<longrightarrow> verifies digest (digest b) (w_disk w))"
  "world_ok digest w \<Longrightarrow> w_jobs w name = Some job \<Longrightarrow> name \<in> set (g_live_temps (w_ledger w))"
  using world_okD(2) [of digest w name] by (force simp: job_ok_def)+

section \<open>Every step keeps it\<close>

lemma open_capture_ok:
  assumes "world_ok digest w" and "w_leases w l = None"
  shows "world_ok digest (w\<lparr>w_leases := (w_leases w)(l \<mapsto> open_lease), w_returned := (w_returned w)(l := [])\<rparr>)"
    (is "world_ok digest ?w")
proof (rule world_step [OF assms(1)])
  have same: "holders ?w h = holders w h" for h
    using assms(2) by (auto simp: holders_def open_lease_def)
  then show "ledger_counts ?w"
    using world_okD(1) [OF assms(1)] by (auto simp: ledger_counts_def open_lease_def)
  show "sweep_ok ?w" using same by (intro sweep_ok_same [OF world_okD(5) [OF assms(1)]]) (auto simp: referenced_def)
qed (use assms(2) in \<open>auto simp: world_views referenced_def split: if_splits\<close>)

lemma put_write_ok:
  assumes "world_ok digest w" and "w_jobs w name = Some (Staged l)"
    and "write_temporary now name b (w_disk w) = Some d"
  shows "world_ok digest (w\<lparr>w_disk := d, w_jobs := (w_jobs w)(name \<mapsto> Written l b)\<rparr>)"
proof -
  note d = write_temporary_effect [OF assms(3)]
  have "verifies digest h d = verifies digest h (w_disk w)" for h
    using d by (intro verifies_blobs) simp
  with d job_lease(4) [OF assms(1,2)] show ?thesis
    by (intro world_step_quiet [OF assms(1)])
       (auto simp: job_ok_def temp_holds_def referenced_def split: if_splits)
qed

lemma put_hold_ok:
  assumes "world_ok digest w" and "w_jobs w name = Some (Written l b)" and "w_leases w l = Some lease"
    and "hold lease (digest b) (w_ledger w) = (True, lease', led)"
  shows "world_ok digest (w\<lparr>w_leases := (w_leases w)(l \<mapsto> lease'), w_ledger := led,
          w_jobs := (w_jobs w)(name \<mapsto> Holding l b)\<rparr>)"
    (is "world_ok digest ?w")
proof (rule world_step [OF assms(1)])
  note h = hold_taken [OF assms(4)]
  have more: "holders w x \<subseteq> holders ?w x" for x
  proof
    fix y
    assume "y \<in> holders w x"
    with h(2,3) assms(3) show "y \<in> holders ?w x" by (cases "y = l") (simp_all add: holders_def)
  qed
  show "ledger_counts ?w"
    by (rule ledger_counts_same [OF ledger_counts_hold [OF world_okD(1) [OF assms(1)] assms(3,4)]]) simp_all
  show "sweep_ok ?w"
  proof (rule sweep_ok_same [OF world_okD(5) [OF assms(1)]])
    show "holders ?w x \<noteq> {}" if "holders w x \<noteq> {}" for x using more [of x] that by blast
  qed (simp_all add: h(5) referenced_def)
  have held: "holds_in ?w l0 x" if "holds_in w l0 x" for l0 x
    using that h(3) assms(3) by (cases "l0 = l") (simp_all add: holds_in_def)
  have still: "open_in w l0" if "open_in ?w l0" for l0
    using that h(1) assms(3) by (cases "l0 = l") (simp_all add: open_in_def)
  show "holds_in w l0 x \<Longrightarrow> holds_in ?w l0 x" for l0 x by (rule held)
  show "holds_in w l0 x \<Longrightarrow> open_in ?w l0 \<Longrightarrow> open_in w l0" for l0 x by (rule still)
  show "(open_in w l0 \<and> x \<in> set (w_returned w l0)) \<or> (holds_in ?w l0 x \<and> verifies digest x (w_disk ?w))"
    if "open_in ?w l0" "x \<in> set (w_returned ?w l0)" for l0 x
    using that still by simp
  show "(w_jobs w n = Some job \<and> k_temps (w_disk ?w) n = k_temps (w_disk w) n \<and>
      (n \<in> set (g_live_temps (w_ledger w)) \<longrightarrow> n \<in> set (g_live_temps (w_ledger ?w)))) \<or> job_ok digest ?w n job"
    if "w_jobs ?w n = Some job" for n job
  proof (cases "n = name")
    case True
    then have job: "job = Holding l b" using that by simp
    have "job_ok digest ?w name (Holding l b)"
      using h(3,4) job_lease(2,4) [OF assms(1,2)] by (simp add: job_ok_def temp_holds_def holds_in_def)
    then show ?thesis unfolding True job by blast
  next
    case False
    with that h(4) show ?thesis by simp
  qed
qed (simp_all add: referenced_def)

lemma put_reuse_ok:
  assumes "world_ok digest w" and "w_jobs w name = Some (Holding l b)" and "verifies digest (digest b) (w_disk w)"
  shows "world_ok digest (w\<lparr>w_disk := remove_quietly name (w_disk w), w_jobs := (w_jobs w)(name \<mapsto> Published l b)\<rparr>)"
  using assms(3) job_lease(1,4) [OF assms(1,2)]
  by (intro world_step_quiet [OF assms(1)]) (auto simp: job_ok_def holds_in_def referenced_def split: if_splits)

lemma put_rename_ok:
  assumes "world_ok digest w" and "w_jobs w name = Some (Holding l b)"
    and "rename_into name (digest b) (w_disk w) = Some d"
  shows "world_ok digest (w\<lparr>w_disk := d, w_jobs := (w_jobs w)(name \<mapsto> Published l b)\<rparr>)"
proof -
  obtain m where t: "k_temps (w_disk w) name = Some (b, m)"
    using job_lease(1) [OF assms(1,2)] by (auto simp: temp_holds_def)
  note d = rename_into_effect [OF assms(3) t]
  have "verifies digest h d" if "verifies digest h (w_disk w)" for h
    using that d by (auto simp: verifies_def)
  moreover have "verifies digest (digest b) d" using d by (simp add: verifies_def)
  ultimately show ?thesis
    using d job_lease(1,4) [OF assms(1,2)]
    by (intro world_step_quiet [OF assms(1)]) (auto simp: job_ok_def holds_in_def referenced_def split: if_splits)
qed

lemma put_return_ok:
  assumes "world_ok digest w" and "w_jobs w name = Some (Published l b)"
  shows "world_ok digest (w\<lparr>w_ledger := unstage name (w_ledger w), w_jobs := (w_jobs w)(name := None),
          w_returned := (w_returned w)(l := digest b # w_returned w l)\<rparr>)"
  using job_lease(3) [OF assms]
  by (intro world_step_quiet [OF assms(1)])
     (auto simp: unstage_def holds_in_def open_in_def referenced_def split: if_splits)

lemma close_capture_ok:
  assumes "world_ok digest w" and "w_leases w l = Some lease" and "release lease (w_ledger w) = (lease', led)"
  shows "world_ok digest (w\<lparr>w_leases := (w_leases w)(l \<mapsto> lease'), w_ledger := led\<rparr>)"
    (is "world_ok digest ?w")
proof (rule world_step [OF assms(1)])
  have r: "l_holds lease' = l_holds lease" "l_closed lease'" "g_live_temps led = g_live_temps (w_ledger w)"
      "\<And>q. g_released (w_ledger w) = Some q \<Longrightarrow>
         \<exists>q'. g_released led = Some q' \<and> set q \<subseteq> set q' \<and> (\<not> l_closed lease \<longrightarrow> set (l_holds lease) \<subseteq> set q')"
    using assms(3)
    by (auto simp: release_def fold_release_released fold_release_rest set_fold_insert split: if_splits)
  show "ledger_counts ?w"
    by (rule ledger_counts_release [OF world_okD(1) [OF assms(1)] assms(2,3)])
  show "sweep_ok ?w"
  proof (cases "w_sweep w")
    case (Marked mark old)
    obtain q where q: "g_released (w_ledger w) = Some q"
      using Marked world_okD(5) [OF assms(1)] by (auto simp: sweep_ok_def)
    obtain q' where q': "g_released led = Some q'" "set q \<subseteq> set q'"
        "\<not> l_closed lease \<Longrightarrow> set (l_holds lease) \<subseteq> set q'"
      using r(4) [OF q] by blast
    have gone: "h \<in> set q' \<or> holders ?w h \<noteq> {}" if "holders w h \<noteq> {}" for h
    proof -
      obtain x where x: "x \<in> holders w h" using \<open>holders w h \<noteq> {}\<close> by blast
      show ?thesis
      proof (cases "x = l")
        case True
        with x assms(2) q'(3) show ?thesis by (auto simp: holders_def)
      next
        case False
        with x have "x \<in> holders ?w h" by (simp add: holders_def)
        then show ?thesis by blast
      qed
    qed
    have "h \<in> set mark \<or> h \<in> set q' \<or> holders ?w h \<noteq> {}" if "h \<in> referenced w" for h
      using marked_ok [OF world_okD(5) [OF assms(1)] Marked that] q q'(2) gone by auto
    moreover have "referenced ?w = referenced w" by (simp add: referenced_def)
    ultimately show ?thesis using Marked q'(1) by (simp add: sweep_ok_def)
  next
    case (Tracking old)
    then obtain q where "g_released (w_ledger w) = Some q"
      using world_okD(5) [OF assms(1)] by (auto simp: sweep_ok_def)
    from r(4) [OF this] Tracking show ?thesis by (auto simp: sweep_ok_def)
  qed (simp_all add: sweep_ok_def)
  show "holds_in w l0 h \<Longrightarrow> holds_in ?w l0 h" for l0 h using r assms(2) by (auto simp: holds_in_def)
  show "holds_in w l0 h \<Longrightarrow> open_in ?w l0 \<Longrightarrow> open_in w l0" for l0 h
    using r by (auto simp: open_in_def split: if_splits)
  show "(open_in w l0 \<and> h \<in> set (w_returned w l0)) \<or> (holds_in ?w l0 h \<and> verifies digest h (w_disk ?w))"
    if "open_in ?w l0" "h \<in> set (w_returned ?w l0)" for l0 h
    using that r by (auto simp: open_in_def split: if_splits)
qed (use assms(3) in \<open>auto simp: release_def fold_release_rest referenced_def split: if_splits\<close>)

lemma commit_row_ok:
  assumes "world_ok digest w" and "w_leases w l = Some lease" and "\<not> l_closed lease"
    and "set hashes \<subseteq> set (w_returned w l)"
  shows "world_ok digest (w\<lparr>w_rows := w_rows w @ [hashes]\<rparr>)" (is "world_ok digest ?w")
proof (rule world_step [OF assms(1)])
  have opn: "open_in w l" using assms(2,3) by (auto simp: open_in_def)
  have new: "holds_in w l h \<and> verifies digest h (w_disk w)" if "h \<in> set hashes" for h
    using world_okD(3) [OF assms(1) opn] that assms(4) by blast
  have same: "holders ?w h = holders w h" for h by (rule holders_only_leases) simp
  show "ledger_counts ?w" by (rule ledger_counts_same [OF world_okD(1) [OF assms(1)]]) simp_all
  show "sweep_ok ?w"
  proof (rule sweep_ok_same [OF world_okD(5) [OF assms(1)]])
    show "h \<in> referenced w \<or> holders ?w h \<noteq> {}" if "h \<in> referenced ?w" for h
      using that new [of h] holder_open [OF _ opn, of h] unfolding same by (auto simp: referenced_def)
  qed (simp_all add: same)
  show "h \<in> referenced w \<or> verifies digest h (w_disk ?w)" if "h \<in> referenced ?w" for h
    using that new by (auto simp: referenced_def)
qed (auto simp: holds_in_def open_in_def referenced_def)

lemma sweep_one_ok:
  assumes "world_ok digest w" and "w_sweep w = Marked mark (candidate # old)"
    and "sweep_candidate (is_live_content (w_ledger w) mark candidate) guarded min_age now candidate (w_disk w)
       = (outcome, d)"
  shows "world_ok digest (w\<lparr>w_disk := d, w_sweep := Marked mark old\<rparr>)" (is "world_ok digest ?w")
proof -
  note ok = assms(1)
  have safe: "verifies digest h d" if "verifies digest h (w_disk w)" "is_live_content (w_ledger w) mark (BlobFile h)" for h
    using sweep_candidate_effect [OF assms(3)] that
    by (cases candidate) (auto simp: unlink_candidate_def verifies_def)
  have temp: "k_temps d n = k_temps (w_disk w) n" if "n \<in> set (g_live_temps (w_ledger w))" for n
    using sweep_candidate_effect [OF assms(3)] that
    by (cases candidate) (auto simp: unlink_candidate_def is_live_content_def)
  have held: "is_live_content (w_ledger w) mark (BlobFile h)" if "holders w h \<noteq> {}" for h
    using that held_iff [OF world_okD(1) [OF ok]] by (simp add: is_live_content_def)
  have open_held: "is_live_content (w_ledger w) mark (BlobFile h)" if "holds_in w l h" "open_in w l" for l h
    using holder_open [OF that] held by blast
  have live: "is_live_content (w_ledger w) mark (BlobFile h)" if "h \<in> referenced w" for h
    using marked_ok [OF world_okD(5) [OF ok] assms(2) that] held by (auto simp: is_live_content_def)
  have same: "holds_in ?w = holds_in w" "open_in ?w = open_in w" "holders ?w = holders w"
    by (auto simp: fun_eq_iff holds_in_def open_in_def holders_def)
  show ?thesis
  proof (rule world_okI [OF ok])
    show "ledger_counts ?w" by (rule ledger_counts_same [OF world_okD(1) [OF ok]]) simp_all
    show "job_ok digest ?w name job" if "w_jobs ?w name = Some job" for name job
    proof -
      have j: "w_jobs w name = Some job" using that by simp
      have temps: "temp_holds ?w name b = temp_holds w name b" for b
        using temp [OF job_lease(4) [OF ok j]] by (simp add: temp_holds_def)
      have kept: "verifies digest (digest b) d" if "holds_in w l (digest b)" "open_in w l"
          "verifies digest (digest b) (w_disk w)" for l b
        using safe open_held that by blast
      show ?thesis
        using world_okD(2) [OF ok j] kept unfolding job_ok_def same temps
        by (cases job) auto
    qed
    show "holds_in ?w l h \<and> verifies digest h (w_disk ?w)"
      if "open_in ?w l" "h \<in> set (w_returned ?w l)" for l h
      using world_okD(3) [OF ok, of l h] that safe open_held unfolding same by auto
    show "verifies digest h (w_disk ?w)" if "h \<in> referenced ?w" for h
      using world_okD(4) [OF ok, of h] safe live that by (auto simp: referenced_def)
    show "sweep_ok ?w"
      using world_okD(5) [OF ok] assms(2) by (simp add: sweep_ok_def same referenced_def)
  qed
qed

lemma world_ok_step:
  assumes "content_step digest min_age w w'" and "world_ok digest w"
  shows "world_ok digest w'"
  using assms
proof (induction rule: content_step.induct)
  case (put_stage w l lease name)
  then show ?case
    by (intro world_step_quiet [OF put_stage(4)]) (auto simp: stage_def job_ok_def referenced_def split: if_splits)
next
  case (put_touch w name l b now d)
  then show ?case
    by (intro world_step_quiet [OF put_touch(3)]) (auto simp: verifies_touch temps_touch referenced_def)
next
  case (put_fail w name job)
  then show ?case
    by (intro world_step_quiet [OF put_fail(2)]) (auto simp: unstage_def referenced_def split: if_splits)
next
  case (delete_rows kept w)
  then show ?case by (intro world_step_quiet [OF delete_rows(2)]) (auto simp: referenced_def)
next
  case (sweep_start w old)
  have "sweep_ok (w\<lparr>w_ledger := (w_ledger w)\<lparr>g_sweeping := True\<rparr>, w_sweep := Listed old\<rparr>)"
    by (simp add: sweep_ok_def)
  moreover have "ledger_counts (w\<lparr>w_ledger := (w_ledger w)\<lparr>g_sweeping := True\<rparr>, w_sweep := Listed old\<rparr>)"
    by (rule ledger_counts_same [OF world_okD(1) [OF sweep_start(2)]]) simp_all
  ultimately show ?case
    using sweep_start(2) by (intro world_step [OF sweep_start(2)]) (auto simp: holds_in_def open_in_def referenced_def)
next
  case (sweep_track w old)
  let ?w = "w\<lparr>w_ledger := (w_ledger w)\<lparr>g_released := Some []\<rparr>, w_sweep := Tracking old\<rparr>"
  have "ledger_counts ?w" by (rule ledger_counts_same [OF world_okD(1) [OF sweep_track(3)]]) simp_all
  then show ?case
    by (intro world_step [OF sweep_track(3)]) (auto simp: sweep_ok_def holds_in_def open_in_def referenced_def)
next
  case (sweep_mark w old)
  let ?w = "w\<lparr>w_sweep := Marked (concat (w_rows w)) old\<rparr>"
  have "ledger_counts ?w" by (rule ledger_counts_same [OF world_okD(1) [OF sweep_mark(2)]]) simp_all
  moreover have "sweep_ok ?w"
    using world_okD(5) [OF sweep_mark(2)] sweep_mark(1) by (auto simp: sweep_ok_def referenced_def)
  ultimately show ?case
    by (intro world_step [OF sweep_mark(2)]) (auto simp: holds_in_def open_in_def referenced_def)
next
  case (sweep_end w)
  let ?w = "w\<lparr>w_ledger := (w_ledger w)\<lparr>g_released := None, g_sweeping := False\<rparr>, w_sweep := Resting\<rparr>"
  have "ledger_counts ?w" by (rule ledger_counts_same [OF world_okD(1) [OF sweep_end(2)]]) simp_all
  then show ?case
    by (intro world_step [OF sweep_end(2)]) (auto simp: sweep_ok_def holds_in_def open_in_def referenced_def)
qed (auto intro: open_capture_ok put_write_ok put_hold_ok put_reuse_ok put_rename_ok put_return_ok
      close_capture_ok commit_row_ok sweep_one_ok)

lemma world_ok_reachable:
  "(content_step digest min_age)\<^sup>*\<^sup>* w w' \<Longrightarrow> world_ok digest w \<Longrightarrow> world_ok digest w'"
  by (induction rule: rtranclp_induct) (auto intro: world_ok_step)

end
