(* ===== verification/Checkpoint_Properties.thy ===== *)
theory Checkpoint_Properties
  imports Content_Collector
begin

text \<open>
  What the checkpoint code promises: the plan it accepts, the copies it makes and rebuilds, and the
  bytes it keeps; each on a concrete checkout as well.
\<close>

section \<open>A checkout and a plan\<close>

definition wit_plan :: jsval where
  "wit_plan = JObj PlainProto [(''capture'', JArr
     [JObj PlainProto [(''scope'', JStr ''notes''), (''directory'', JStr ''./notes/''),
        (''exclude'', JArr [JStr ''tmp/'', JStr ''cache'', JStr ''tmp''])],
      JObj PlainProto [(''scope'', JStr ''tool''), (''file'', JStr ''bin/tool'')]])]"

definition wit_scopes :: "scope list" where
  "wit_scopes =
     [\<lparr>sc_name = ''notes'', sc_kind = DirectoryScope, sc_path = ''notes'', sc_exclude = [''cache'', ''tmp'']\<rparr>,
      \<lparr>sc_name = ''tool'', sc_kind = FileScope, sc_path = ''bin/tool'', sc_exclude = []\<rparr>]"

definition wit_checkout :: node where
  "wit_checkout = Dir
     [(''notes'', Dir [(''a.md'', Reg ''new'' False), (''.git'', Dir [(''HEAD'', Reg ''ref'' False)]),
                       (''tmp'', Dir [(''x'', Reg ''scratch'' False)]), (''link'', Link)]),
      (''bin'', Dir [(''tool'', Reg ''run'' True)])]"

definition wit_destination :: node where
  "wit_destination = Dir
     [(''notes'', Dir [(''old.md'', Reg ''old'' False), (''tmp'', Dir [(''y'', Reg ''mine'' False)])]),
      (''bin'', Link), (''src'', Reg ''code'' False)]"

definition wit_digest :: "bytes \<Rightarrow> string" where
  "wit_digest b = replicate 64 (if b = ''new'' then CHR ''a'' else if b = ''run'' then CHR ''b''
     else if b = ''ref'' then CHR ''c'' else CHR ''d'')"

definition wit_bytes :: "bytes set" where
  "wit_bytes = {''new'', ''run'', ''ref'', ''scratch''}"

definition wit_session :: session where
  "wit_session = \<lparr>s_lease = open_lease,
     s_ledger = \<lparr>g_held = (\<lambda>_. None), g_live_temps = [], g_released = None, g_sweeping = False\<rparr>,
     s_disk = \<lparr>k_blobs = (\<lambda>_. None), k_temps = (\<lambda>_. None)\<rparr>, s_now = 0, s_uuids = 0\<rparr>"

lemma wit_hex: "lower_hex CHR ''a''" "lower_hex CHR ''b''" "lower_hex CHR ''c''" "lower_hex CHR ''d''"
  by code_simp+

lemma wit_session_ok: "session_ok wit_digest wit_bytes wit_session"
  by (simp add: session_ok_def fit_digest_def wit_bytes_def wit_digest_def wit_session_def inj_on_def
      content_ref_def ref_pattern_def list_all_iff wit_hex)

lemma contents_simps [simp]:
  "contents (Dir []) = {}" "contents Link = {}" "contents Special = {}"
proof -
  have "file_at (Dir []) q = None" for q by (cases q) auto
  then show "contents (Dir []) = {}" by (simp add: contents_def)
qed (simp_all add: contents_def)

lemma wit_checkout_ok: "wf_node wit_checkout" "contents wit_checkout \<subseteq> wit_bytes"
  by (simp_all add: wit_checkout_def wit_bytes_def contents_Cons)

lemma wit_plan_accepted: "normalize_checkpoint_plan wit_plan = Inr wit_scopes"
  by code_simp

lemma wit_captured: "is_inr (fst (capture_scopes (put_content wit_digest (\<lambda>n. ''u'')) wit_checkout wit_scopes wit_session))"
  by code_simp

section \<open>Plans\<close>

text \<open>
  C30: the error behaviour of \<open>normalizeCheckpointPlan\<close>. A plan is accepted exactly when it conforms:
  an object whose \<open>capture\<close> array has at most 64 scopes, each an object with a well-formed name of its
  own, exactly one of \<open>directory\<close> and \<open>file\<close>, a relative path without \<open>..\<close> and \<open>.git\<close>, and
  exclusions (directories only, at most 64) of the same form, no two scopes nested. What is returned
  is then the scopes of the plan, all of them and in order, with their paths spelled one way and
  their exclusions sorted and without repetition: a plan that breaks any rule is refused, never
  repaired.
\<close>

theorem plan_accepted_iff_conforming:
  "normalize_checkpoint_plan v = Inr ss \<longleftrightarrow> conforming_plan v \<and> ss = map read_scope (captures v)"
  by (rule normalize_plan_iff)

text \<open>Two scopes that cover one path are the same scope.\<close>

lemma covering_scopes_unique:
  assumes "sorted_wrt (\<lambda>a b. \<not> overlap a b) ss"
  shows "length (filter (\<lambda>s. covered s p) ss) \<le> 1"
  using assms
proof (induction ss)
  case (Cons s ss)
  have "filter (\<lambda>s. covered s p) ss = []" if "covered s p"
  proof -
    have "\<not> covered t p" if "t \<in> set ss" for t
    proof
      assume "covered t p"
      then have "overlap s t"
        using covered_base \<open>covered s p\<close> comparable_prefixes unfolding overlap_def path_contains_iff by blast
      with Cons.prems that show False by simp
    qed
    then show ?thesis by (simp add: filter_empty_conv)
  qed
  with Cons show ?case by auto
qed simp

lemma read_scope_paths:
  assumes "scope_ok c"
  shows "normal_path (sc_path (read_scope c)) \<and> \<not> has_git_segment (sc_path (read_scope c)) \<and>
    list_all (\<lambda>x. normal_path x \<and> \<not> has_git_segment x) (sc_exclude (read_scope c)) \<and>
    sorted_wrt (<) (sc_exclude (read_scope c))"
proof -
  have string: "normal_path p" if "normalize_string u = Some p" for u p
    using that normalized_segments by (auto simp: normalize_string_def split: jsval.splits)
  have "normal_path (the (path_of c)) \<and> \<not> has_git_segment (the (path_of c))"
    using assms string by (auto simp: scope_ok_def path_of_def split: option.splits)
  moreover have "normal_path (the (normalize_string u)) \<and> \<not> has_git_segment (the (normalize_string u))"
    if "exclusion_ok u" for u
    using that string by (auto simp: exclusion_ok_def split: option.splits)
  then have "list_all (\<lambda>x. normal_path x \<and> \<not> has_git_segment x) (read_exclude (get_prop c ''exclude''))"
    using assms by (auto simp: scope_ok_def exclude_ok_def read_exclude_def list_all_iff split: jsval.splits)
  moreover have "sorted_wrt (<) (read_exclude (get_prop c ''exclude''))"
    by (auto simp: read_exclude_def strict_sorted_iff split: jsval.splits)
  ultimately show ?thesis by (simp add: read_scope_def)
qed

lemma accepted_plan:
  assumes "normalize_checkpoint_plan v = Inr ss"
  shows "conforming_plan v" and "ss = map read_scope (captures v)"
    and "sorted_wrt (\<lambda>a b. \<not> overlap a b) ss"
  using assms by (auto simp: normalize_plan_iff conforming_plan_def)

text \<open>
  C31: what the rest of the checkpoint code may rely on. In a plan \<open>normalizeCheckpointPlan\<close> returns
  there are at most 64 scopes, every path and exclusion has one spelling (no empty segment, no \<open>.\<close>, no
  \<open>..\<close>) and names no \<open>.git\<close>, each scope's exclusions are sorted without repetition, and whatever file
  there is, at most one scope covers it.
\<close>

theorem accepted_scopes_never_nest:
  assumes "normalize_checkpoint_plan v = Inr ss"
  shows "length ss \<le> 64 \<and>
    list_all (\<lambda>s. normal_path (sc_path s) \<and> \<not> has_git_segment (sc_path s) \<and>
      list_all (\<lambda>x. normal_path x \<and> \<not> has_git_segment x) (sc_exclude s) \<and>
      sorted_wrt (<) (sc_exclude s)) ss \<and>
    (\<forall>p. length (filter (\<lambda>s. covered s p) ss) \<le> 1)"
proof (intro conjI allI)
  note plan = accepted_plan [OF assms]
  have ok: "list_all scope_ok (captures v)" "length (captures v) \<le> 64"
    using plan(1) by (simp_all add: conforming_plan_def)
  then show "length ss \<le> 64" using plan(2) by simp
  show "list_all (\<lambda>s. normal_path (sc_path s) \<and> \<not> has_git_segment (sc_path s) \<and>
      list_all (\<lambda>x. normal_path x \<and> \<not> has_git_segment x) (sc_exclude s) \<and>
      sorted_wrt (<) (sc_exclude s)) ss"
    unfolding plan(2) list.pred_map using ok(1)
    by (rule list.pred_mono_strong) (use read_scope_paths in \<open>simp add: comp_def\<close>)
  show "length (filter (\<lambda>s. covered s p) ss) \<le> 1" for p
    using plan(3) by (rule covering_scopes_unique)
qed

lemma accepted_scopes_never_nest_witness:
  "length (filter (\<lambda>s. covered s [''notes'', ''a.md'']) wit_scopes) \<le> 1 \<and>
   list_all (\<lambda>s. normal_path (sc_path s)) wit_scopes"
  using accepted_scopes_never_nest [OF wit_plan_accepted] by (simp add: list_all_iff)

section \<open>Copies\<close>

text \<open>
  C27: capturing a plan's scopes and mirroring the copies elsewhere rebuilds them exactly. Whatever
  the checkout and the destination hold, if \<open>captureScopes\<close> succeeds then \<open>mirrorScopes\<close> succeeds too,
  with any later state of the content store that still opens what was saved; afterwards a path a
  scope covers holds the checkout's file, bytes and executable bit, or no file where the checkout has
  none; of the other paths only those in the way of a captured file or of a missing scope lose what
  they held, and everything else (excluded paths, nested \<open>.git\<close>, the rest of the destination) is as it
  was. No step of either ever goes through a link. The digest must not collide on the bytes at hand.
\<close>

theorem mirror_rebuilds_capture:
  assumes "normalize_checkpoint_plan v = Inr ss"
    and "wf_node checkout" and "contents checkout \<subseteq> known" and "session_ok digest known c"
    and "capture_scopes (put_content digest uuid) checkout ss c = (Inr captured, c')"
    and "\<And>name b. fetch_content digest c' name = Inr b \<Longrightarrow> fetch_content digest c'' name = Inr b"
    and "wf_node dest" and "is_dir dest"
  shows "\<exists>t. mirror_scopes (fetch_content digest) c'' captured dest = Inr t \<and>
    (\<forall>q. file_at t q =
      (if list_ex (\<lambda>s. covered s q) ss then file_at checkout q
       else if list_ex (\<lambda>s. cleared s q) captured then None else file_at dest q))"
  using assms accepted_plan(3) [OF assms(1)]
  by (intro contents.mirror_of_capture [of digest known c checkout uuid ss captured c' c'' dest])
     (auto simp: contents.keeps_def)

lemma mirror_rebuilds_capture_witness:
  "\<exists>captured c t.
     capture_scopes (put_content wit_digest (\<lambda>n. ''u'')) wit_checkout wit_scopes wit_session = (Inr captured, c) \<and>
     mirror_scopes (fetch_content wit_digest) c captured wit_destination = Inr t \<and>
     file_at t [''notes'', ''a.md''] = Some (''new'', False) \<and>
     file_at t [''notes'', ''old.md''] = None \<and>
     file_at t [''bin'', ''tool''] = Some (''run'', True)"
proof -
  obtain captured c where c:
    "capture_scopes (put_content wit_digest (\<lambda>n. ''u'')) wit_checkout wit_scopes wit_session = (Inr captured, c)"
    using wit_captured by (cases "capture_scopes (put_content wit_digest (\<lambda>n. ''u'')) wit_checkout wit_scopes wit_session")
      (auto split: sum.splits)
  have dest: "wf_node wit_destination" "is_dir wit_destination" by (simp_all add: wit_destination_def)
  obtain t where t: "mirror_scopes (fetch_content wit_digest) c captured wit_destination = Inr t"
    "\<And>q. file_at t q =
      (if list_ex (\<lambda>s. covered s q) wit_scopes then file_at wit_checkout q
       else if list_ex (\<lambda>s. cleared s q) captured then None else file_at wit_destination q)"
    using mirror_rebuilds_capture [OF wit_plan_accepted wit_checkout_ok wit_session_ok c _ dest] by blast
  have "list_ex (\<lambda>s. covered s [''notes'', ''a.md'']) wit_scopes"
    "list_ex (\<lambda>s. covered s [''notes'', ''old.md'']) wit_scopes"
    "list_ex (\<lambda>s. covered s [''bin'', ''tool'']) wit_scopes"
    by code_simp+
  then show ?thesis using c t by (simp add: wit_checkout_def)
qed

section \<open>The collector\<close>

text \<open>
  C28: the content collector never takes what is needed, however its sweep interleaves with captures,
  puts that fail or are abandoned, commits, closing captures and deleted runs. Started with no
  capture open and with every referenced hash on disk, at every moment the bytes of every hash a
  checkpoint row references are on disk and verify, so are the bytes every open capture has been
  handed, and the ledger's count for a hash is the number of open captures that hold it.
\<close>

theorem referenced_content_survives:
  assumes "(content_step digest min_age)\<^sup>*\<^sup>* w w'"
    and "w_leases w = (\<lambda>_. None)" and "w_jobs w = (\<lambda>_. None)"
    and "g_held (w_ledger w) = (\<lambda>_. None)" and "w_sweep w = Resting"
    and "\<And>h. h \<in> referenced w \<Longrightarrow> verifies digest h (w_disk w)"
  shows "(\<forall>h \<in> referenced w'. verifies digest h (w_disk w')) \<and>
    (\<forall>l. open_in w' l \<longrightarrow> (\<forall>h \<in> set (w_returned w' l). verifies digest h (w_disk w'))) \<and>
    (\<forall>h. held_count (w_ledger w') h = card (holders w' h))"
proof -
  have "world_ok digest w"
    using assms(2-6)
    by (simp add: world_ok_def ledger_counts_def jobs_ok_def returned_ok_def rows_ok_def sweep_ok_def
        holders_def open_in_def)
  from world_ok_reachable [OF assms(1) this] show ?thesis
    using held_count_card by (auto simp: world_ok_def rows_ok_def returned_ok_def)
qed

text \<open>A sweep over one referenced and one forgotten blob.\<close>

definition wit_world :: content_world where
  "wit_world = \<lparr>w_ledger = s_ledger wit_session,
     w_disk = \<lparr>k_blobs = [wit_digest ''new'' \<mapsto> (''new'', 0), wit_digest ''run'' \<mapsto> (''run'', 0)],
                k_temps = (\<lambda>_. None)\<rparr>,
     w_leases = (\<lambda>_. None), w_jobs = (\<lambda>_. None), w_returned = (\<lambda>_. []),
     w_rows = [[wit_digest ''new'']], w_sweep = Resting\<rparr>"

definition wit_old :: "candidate list" where
  "wit_old = [BlobFile (wit_digest ''new''), BlobFile (wit_digest ''run'')]"

definition wit_swept :: content_world where
  "wit_swept =
     wit_world\<lparr>w_ledger := (w_ledger wit_world)\<lparr>g_released := Some [], g_sweeping := True\<rparr>,
       w_disk := (w_disk wit_world)\<lparr>k_blobs := (k_blobs (w_disk wit_world))(wit_digest ''run'' := None)\<rparr>,
       w_sweep := Marked [wit_digest ''new''] []\<rparr>"

lemma wit_digests [simp]: "(wit_digest ''run'' = wit_digest ''new'') = False" "(wit_digest ''new'' = wit_digest ''run'') = False"
  by (simp_all add: wit_digest_def)

lemma wit_sweep: "(content_step wit_digest 60)\<^sup>*\<^sup>* wit_world wit_swept"
proof -
  let ?w1 = "wit_world\<lparr>w_ledger := (w_ledger wit_world)\<lparr>g_sweeping := True\<rparr>, w_sweep := Listed wit_old\<rparr>"
  let ?w2 = "?w1\<lparr>w_ledger := (w_ledger ?w1)\<lparr>g_released := Some []\<rparr>, w_sweep := Tracking wit_old\<rparr>"
  let ?w3 = "?w2\<lparr>w_sweep := Marked (concat (w_rows ?w2)) wit_old\<rparr>"
  let ?w4 = "?w3\<lparr>w_disk := w_disk ?w3, w_sweep := Marked [wit_digest ''new''] [BlobFile (wit_digest ''run'')]\<rparr>"
  let ?w5 = "?w4\<lparr>w_disk := (w_disk ?w4)\<lparr>k_blobs := (k_blobs (w_disk ?w4))(wit_digest ''run'' := None)\<rparr>,
                  w_sweep := Marked [wit_digest ''new''] []\<rparr>"
  have s1: "content_step wit_digest 60 wit_world ?w1"
    by (rule content_step.sweep_start) (simp add: wit_world_def wit_session_def)
  have s2: "content_step wit_digest 60 ?w1 ?w2"
    by (rule content_step.sweep_track) (simp_all add: wit_old_def)
  have s3: "content_step wit_digest 60 ?w2 ?w3"
    by (rule content_step.sweep_mark) simp
  have s4: "content_step wit_digest 60 ?w3 ?w4"
    by (rule content_step.sweep_one [where candidate = "BlobFile (wit_digest ''new'')"])
       (simp_all add: wit_world_def wit_old_def wit_session_def sweep_candidate_def is_live_content_def)
  have s5: "content_step wit_digest 60 ?w4 ?w5"
    by (rule content_step.sweep_one [where candidate = "BlobFile (wit_digest ''run'')" and now = 100 and guarded = True])
       (simp_all add: wit_world_def wit_session_def sweep_candidate_def is_live_content_def last_write_def
          unlink_candidate_def)
  have "?w5 = wit_swept" by (simp add: wit_swept_def wit_world_def wit_session_def)
  with s1 s2 s3 s4 s5 show ?thesis
    by (metis (no_types, lifting) rtranclp.rtrancl_into_rtrancl rtranclp.rtrancl_refl)
qed

lemma referenced_content_survives_witness:
  "wit_digest ''new'' \<in> referenced wit_swept \<and> verifies wit_digest (wit_digest ''new'') (w_disk wit_swept) \<and>
   k_blobs (w_disk wit_swept) (wit_digest ''run'') = None"
proof -
  have "verifies wit_digest h (w_disk wit_world)" if "h \<in> referenced wit_world" for h
    using that by (simp add: referenced_def wit_world_def verifies_def)
  then have "\<forall>h \<in> referenced wit_swept. verifies wit_digest h (w_disk wit_swept)"
    using referenced_content_survives [OF wit_sweep] by (simp add: wit_world_def wit_session_def)
  then show ?thesis by (simp add: referenced_def wit_swept_def wit_world_def)
qed

end
