(* ===== verification/Checkpoint_Step.thy ===== *)
theory Checkpoint_Step
  imports Fixture Checkpoint_Properties
begin

text \<open>
  A checkpoint node's step, \<open>captureCheckpoint\<close> of \<^verbatim>\<open>checkpoints/step.ts\<close>: the plan from the
  node's author function, the commit, the copies, and then one of the two commits of \<open>Drive\<close>. With it
  the checkpoint rows as the content collector reads them, \<^verbatim>\<open>store/checkpoints.ts\<close>.
\<close>

section \<open>Messages\<close>

text \<open>A value in a message, \<open>JSON.stringify\<close>: nothing to write is \<open>undefined\<close>.\<close>

definition json_part :: "jsval \<Rightarrow> part" where
  "json_part v = (case to_json v of Some j \<Rightarrow> ErrPart (JsonText j) | None \<Rightarrow> Lit ''undefined'')"

definition field_parts :: "nat \<Rightarrow> string \<Rightarrow> msg" where
  "field_parts i rest = [Lit ''capture['', NumPart (int i), Lit '']'', Lit rest]"

fun kind_text :: "scope_kind \<Rightarrow> string" where
  "kind_text DirectoryScope = ''directory''"
| "kind_text FileScope = ''file''"

fun plan_message :: "plan_error \<Rightarrow> msg" where
  "plan_message NotAPlan = [Lit ''A checkpoint plan must be an object with a `capture` array.'']"
| "plan_message TooManyScopes = [Lit ''A plan captures at most 64 scopes.'']"
| "plan_message (NotAScope i) = field_parts i '' must be an object.''"
| "plan_message (IncompleteScope i) =
     field_parts i '' needs a `scope` and exactly one of `directory` or `file`.''"
| "plan_message (BadScopeName i name) =
     field_parts i ''.scope '' @ [Quoted name, Lit '' must match ^[a-z0-9][a-z0-9._-]{0,63}$.'']"
| "plan_message (ScopeUsedTwice i name) = field_parts i ''.scope '' @ [Quoted name, Lit '' is used twice.'']"
| "plan_message (NotARelativePath i k raw) =
     field_parts i (CHR ''.'' # kind_text k @ '' must be a relative path inside the checkout, got '') @
       [json_part raw, Lit ''.'']"
| "plan_message (NamesGit i k path) =
     field_parts i (CHR ''.'' # kind_text k @ '' '') @ [Quoted path, Lit '' names Git metadata (.git).'']"
| "plan_message (ExcludeNotAllowed i) =
     field_parts i ''.exclude is only allowed on a directory scope, as an array.''"
| "plan_message (TooManyExclusions i) = field_parts i ''.exclude has more than 64 entries.''"
| "plan_message (BadExclusion i n raw) =
     field_parts i ''.exclude['' @
       [NumPart (int n), Lit ''] must be a scope-relative path without .git, got '', json_part raw, Lit ''.'']"
| "plan_message (ScopesOverlap a b) =
     [Lit ''Scopes '', Quoted (sc_name a), Lit '' and '', Quoted (sc_name b), Lit '' overlap ('',
      Quoted (sc_path a), Lit '', '', Quoted (sc_path b), Lit '').'']"
| "plan_message PlanThrows = []"

fun fs_message :: "fs_error \<Rightarrow> string" where
  "fs_message NotADirectory = ''ENOTDIR''"
| "fs_message ThroughLink = ''ELOOP''"

text \<open>\<open>captureMessage\<close>: only the messages that open with \<open>Scope\<close>, \<open>Could not\<close> or \<open>Git\<close> go without a prefix.\<close>

fun capture_message :: "capture_error \<Rightarrow> msg" where
  "capture_message (LinkInScope name path) =
     [Lit ''Scope '', Quoted name, Lit '': '', Quoted path,
      Lit '' is a symbolic link, which checkpoints never follow.'']"
| "capture_message (ScopeNotADirectory name path) =
     [Lit ''Scope '', Quoted name, Lit '': '', Quoted path, Lit '' is not a directory.'']"
| "capture_message (ScopeNotAFile name path) =
     [Lit ''Scope '', Quoted name, Lit '': '', Quoted path, Lit '' is not a regular file.'']"
| "capture_message (CouldNotSave path) = [Lit ''Could not save '', Quoted path]"
| "capture_message (CaptureFilesystem e) = [Lit ''Checkpoint capture failed: '', Lit (fs_message e)]"

section \<open>The step\<close>

datatype project_kind = GitProject | FolderProject

text \<open>
  What a checkpoint's capture came to. \<open>CaptureDefect\<close> is an exception of the plan's normalization,
  which no handler of the step catches.
\<close>

datatype capture_outcome =
    CaptureFailed run_error | CaptureDefect
  | CaptureSaved string "string option" "captured_scope list"

definition checkpoint_title :: "string \<Rightarrow> string option \<Rightarrow> string" where
  "checkpoint_title node_id title =
     (case title of
        None \<Rightarrow> node_id
      | Some t \<Rightarrow>
          if js_trim t = [] then node_id else js_trim t)"

definition plan_of :: "string \<Rightarrow> callback \<Rightarrow> json \<Rightarrow> pure_message + jsval" where
  "plan_of node_id plan_fn st = evaluate_pure (WhatPlan node_id) (run1 plan_fn (from_json st)) None"

text \<open>
  The project as it is found, Git's answer for the checkout's HEAD (an error's text, or the commit,
  which an unborn repository does not have), and the checkout under the worktree's path.
\<close>

definition capture_checkpoint ::
    "db \<Rightarrow> artifact \<Rightarrow> run_row \<Rightarrow> execution_row \<Rightarrow> project_kind option \<Rightarrow> string + string option \<Rightarrow>
     (string \<Rightarrow> node) \<Rightarrow> 'c content_put \<Rightarrow> 'c \<Rightarrow> capture_outcome \<times> 'c" where
  "capture_checkpoint db art run leaf project head checkout store c =
     (let inv = get_invocation db (x_invocation_id leaf);
          graph = (case inv of None \<Rightarrow> None | Some i \<Rightarrow> graph_of art (i_graph_key i));
          node = (case graph of None \<Rightarrow> None | Some g \<Rightarrow> node_of g (x_node_id leaf));
          failure = (\<lambda>stage m. CaptureFailed \<lparr>re_stage = stage, re_message = m,
             re_graph = Some (case inv of None \<Rightarrow> [] | Some i \<Rightarrow> i_graph_key i),
             re_node = Some (x_node_id leaf)\<rparr>) in
      case (inv, node) of
        (Some i, Some (CheckNode _ title plan_fn)) \<Rightarrow>
          (case r_worktree_path run of
             None \<Rightarrow> (failure StageCheckpointCapture
               [Lit ''Workflow run '', NumPart (int (r_id run)), Lit '' has no worktree to capture.''], c)
           | Some path \<Rightarrow>
               (case plan_of (x_node_id leaf) plan_fn (i_state i) of
                  Inl m \<Rightarrow> (failure StageCheckpointPlan [PurePart m], c)
                | Inr v \<Rightarrow>
                    (case normalize_checkpoint_plan v of
                       Inl PlanThrows \<Rightarrow> (CaptureDefect, c)
                     | Inl e \<Rightarrow> (failure StageCheckpointPlan (plan_message e), c)
                     | Inr scopes \<Rightarrow>
                         (case (project, head) of
                            (None, _) \<Rightarrow> (failure StageCheckpointCapture
                              [Lit ''Checkpoint capture failed: Project '', NumPart (int (r_project_id run)),
                               Lit '' no longer exists.''], c)
                          | (Some GitProject, Inl detail) \<Rightarrow> (failure StageCheckpointCapture
                              [Lit ''Git could not read HEAD in '', Lit path, Lit '': '', Lit detail], c)
                          | (Some k, h) \<Rightarrow>
                              (case capture_scopes store (checkout path) scopes c of
                                 (Inl e, c') \<Rightarrow> (failure StageCheckpointCapture (capture_message e), c')
                               | (Inr captured, c') \<Rightarrow>
                                   (CaptureSaved (checkpoint_title (x_node_id leaf) title)
                                      (case (k, h) of (GitProject, Inr sha) \<Rightarrow> sha | _ \<Rightarrow> None) captured, c'))))))
      | _ \<Rightarrow> (failure StageCheckpointPlan
               [Lit ''Node '', Quoted (x_node_id leaf), Lit '' is not a checkpoint node in this build.''], c))"

section \<open>Checkpoint rows\<close>

text \<open>The wire's scope shape, as \<open>scopes_json\<close> holds it.\<close>

definition file_json :: "captured_file \<Rightarrow> json" where
  "file_json f = JsonObj
     [(''path'', JsonStr (cf_path f)), (''sha256'', JsonStr (cf_sha256 f)),
      (''sizeBytes'', JsonNum (int (cf_size f))), (''executable'', JsonBool (cf_executable f))]"

definition scope_json :: "captured_scope \<Rightarrow> json" where
  "scope_json s = JsonObj
     [(''scope'', JsonStr (sc_name s)), (''kind'', JsonStr (kind_text (sc_kind s))),
      (''path'', JsonStr (sc_path s)), (''exclude'', JsonArr (map JsonStr (sc_exclude s))),
      (''missing'', JsonBool (cs_missing s)), (''files'', JsonArr (map file_json (cs_files s)))]"

definition scopes_json :: "captured_scope list \<Rightarrow> json" where
  "scopes_json ss = JsonArr (map scope_json ss)"

text \<open>\<open>json_each\<close> over an array, and \<open>json_extract\<close> of a member.\<close>

fun json_each :: "json option \<Rightarrow> json list" where
  "json_each (Some (JsonArr js)) = js"
| "json_each _ = []"

fun json_extract :: "string \<Rightarrow> json \<Rightarrow> json option" where
  "json_extract k (JsonObj ps) = map_of ps k"
| "json_extract k _ = None"

fun json_strings :: "json option list \<Rightarrow> string list" where
  "json_strings [] = []"
| "json_strings (Some (JsonStr s) # js) = s # json_strings js"
| "json_strings (_ # js) = json_strings js"

definition list_referenced_content_hashes :: "db \<Rightarrow> string list" where
  "list_referenced_content_hashes db =
     remdups (concat (map (\<lambda>r.
       concat (map (\<lambda>s.
         json_strings (map (json_extract ''sha256'') (json_each (json_extract ''files'' s))))
         (json_each (Some (c_scopes r)))))
       (rows (d_checkpoints db))))"

definition list_checkpoints ::
    "db \<Rightarrow> nat \<Rightarrow> nat option \<Rightarrow> string option \<Rightarrow> nat option \<Rightarrow> nat \<Rightarrow> checkpoint_row list" where
  "list_checkpoints db run_id execution_id scope cursor limit =
     take limit (filter (\<lambda>r.
       c_run_id r = run_id \<and>
       (case execution_id of None \<Rightarrow> True | Some x \<Rightarrow> c_execution_id r = x) \<and>
       (case scope of
          None \<Rightarrow> True
        | Some n \<Rightarrow>
            list_ex (\<lambda>s. json_extract ''scope'' s = Some (JsonStr n)) (json_each (Some (c_scopes r)))) \<and>
       (case cursor of None \<Rightarrow> True | Some i \<Rightarrow> i < c_id r))
       (sort_key c_id (rows (d_checkpoints db))))"

lemma json_strings_files:
  "json_strings (map (json_extract ''sha256'') (map file_json files)) = map cf_sha256 files"
  by (induction files) (simp_all add: file_json_def)

lemma scope_hashes:
  "json_strings (map (json_extract ''sha256'') (json_each (json_extract ''files'' (scope_json s)))) =
     map cf_sha256 (cs_files s)"
  using json_strings_files by (simp add: scope_json_def)

lemma scopes_hashes:
  "concat (map (\<lambda>s. json_strings (map (json_extract ''sha256'') (json_each (json_extract ''files'' s))))
     (json_each (Some (scopes_json ss)))) = concat (map (\<lambda>s. map cf_sha256 (cs_files s)) ss)"
  by (simp add: scopes_json_def comp_def scope_hashes)

text \<open>
  Saving a checkpoint adds the hashes of its copies to what the collector's mark reads, nothing
  else, and loses none; an execution that already has a result saves nothing.
\<close>

lemma saved_checkpoint_is_marked:
  assumes "get_execution db (x_id leaf) = Some x" and "x_result x = None"
  shows "set (list_referenced_content_hashes
           (commit_save_checkpoint at run_id leaf title commit (scopes_json ss) db)) =
     set (list_referenced_content_hashes db) \<union> (\<Union>s \<in> set ss. cf_sha256 ` set (cs_files s))"
proof -
  let ?db = "commit_save_checkpoint at run_id leaf title commit (scopes_json ss) db"
  have "\<exists>r. rows (d_checkpoints ?db) = rows (d_checkpoints db) @ [r] \<and> c_scopes r = scopes_json ss"
    using assms
    by (auto simp: commit_save_checkpoint_def insert_checkpoint_def tab_insert_def Let_def
        append_event_def update_execution_def)
  then obtain r where r: "rows (d_checkpoints ?db) = rows (d_checkpoints db) @ [r]" "c_scopes r = scopes_json ss"
    by blast
  show ?thesis
    unfolding list_referenced_content_hashes_def r(1) using r(2)
    by (simp add: scopes_hashes)
qed

section \<open>What a saved checkpoint references\<close>

lemma capture_checkpoint_saved:
  assumes "capture_checkpoint db art run leaf project head checkout store c = (CaptureSaved title sha captured, c')"
  shows "\<exists>path ss v. normalize_checkpoint_plan v = Inr ss \<and>
    capture_scopes store (checkout path) ss c = (Inr captured, c')"
proof -
  obtain path v ss where "normalize_checkpoint_plan v = Inr ss"
    "capture_scopes store (checkout path) ss c = (Inr captured, c')"
    using assms
    by (auto simp: capture_checkpoint_def Let_def
        split: option.splits graph_node.splits sum.splits plan_error.splits project_kind.splits prod.splits)
  then show ?thesis by blast
qed

lemma copied_hash_opens:
  assumes "copy_of fetch c' root s" and "f \<in> set (cs_files s)"
  shows "is_inr (fetch c' (content_ref (cf_sha256 f)))"
  using copy_of_files [OF assms] by (auto simp: content_ref_def)

text \<open>
  C29: a checkpoint that was saved only references bytes that are stored. When \<open>captureCheckpoint\<close>
  gets as far as its commit, the row it inserts makes the collector's mark return, besides what it
  returned before, exactly the hashes of the captured files, and the content store opens every one of
  them: a reference is never written before its bytes.
\<close>

theorem saved_checkpoint_references_stored_bytes:
  assumes "capture_checkpoint db art run leaf project head checkout (put_content digest uuid) c
             = (CaptureSaved title sha captured, c')"
    and "\<And>path. wf_node (checkout path)" and "\<And>path. contents (checkout path) \<subseteq> known"
    and "session_ok digest known c"
    and "get_execution db' (x_id leaf) = Some x" and "x_result x = None"
  shows "set (list_referenced_content_hashes
            (commit_save_checkpoint at (r_id run) leaf title sha (scopes_json captured) db')) =
      set (list_referenced_content_hashes db') \<union> (\<Union>s \<in> set captured. cf_sha256 ` set (cs_files s)) \<and>
    list_all (\<lambda>s. list_all (\<lambda>f. is_inr (fetch_content digest c' (content_ref (cf_sha256 f)))) (cs_files s)) captured"
proof -
  obtain path ss where "capture_scopes (put_content digest uuid) (checkout path) ss c = (Inr captured, c')"
    using capture_checkpoint_saved [OF assms(1)] by blast
  from contents.capture_scopes_copies [OF assms(4) assms(2) assms(3) this contents.keeps_refl]
  have copies: "copy_of (fetch_content digest) c' (checkout path) s" if "s \<in> set captured" for s
    using that unfolding list_all_iff by blast
  have opens: "list_all (\<lambda>s. list_all (\<lambda>f. is_inr (fetch_content digest c' (content_ref (cf_sha256 f)))) (cs_files s)) captured"
    unfolding list_all_iff using copied_hash_opens [OF copies] by blast
  show ?thesis by (intro conjI saved_checkpoint_is_marked [OF assms(5,6)] opens)
qed

definition wit_check_artifact :: artifact where
  "wit_check_artifact =
     (let g = fx_graph\<lparr>g_nodes :=
        [(''a'', CheckNode None (Some '' notes '') (\<lambda>st. Ret wit_plan)), (''b'', OpNode None)]\<rparr> in
      \<lparr>art_root = g, art_graphs = [(''main'', g)]\<rparr>)"

definition wit_capture :: "capture_outcome \<times> session" where
  "wit_capture = capture_checkpoint fx_db2 wit_check_artifact fx_run fx_leaf (Some FolderProject) (Inr None)
     (\<lambda>_. wit_checkout) (put_content wit_digest (\<lambda>n. ''u'')) wit_session"

definition saved_scopes :: "capture_outcome \<Rightarrow> captured_scope list option" where
  "saved_scopes r = (case r of CaptureSaved _ _ ss \<Rightarrow> Some ss | _ \<Rightarrow> None)"

lemma wit_capture_saved:
  "map_option (map (\<lambda>s. map cf_path (cs_files s))) (saved_scopes (fst wit_capture)) =
     Some [[''notes/a.md''], [''bin/tool'']]"
  by code_simp

lemma saved_checkpoint_references_stored_bytes_witness:
  "\<exists>title sha captured c.
     wit_capture = (CaptureSaved title sha captured, c) \<and>
     map (\<lambda>s. map cf_path (cs_files s)) captured = [[''notes/a.md''], [''bin/tool'']] \<and>
     list_all (\<lambda>s. list_all (\<lambda>f. is_inr (fetch_content wit_digest c (content_ref (cf_sha256 f)))) (cs_files s)) captured"
proof -
  obtain r c where rc: "wit_capture = (r, c)" by (cases wit_capture)
  obtain title sha captured where w: "wit_capture = (CaptureSaved title sha captured, c)"
    "map (\<lambda>s. map cf_path (cs_files s)) captured = [[''notes/a.md''], [''bin/tool'']]"
    using wit_capture_saved [unfolded rc fst_conv] rc
    by (cases r) (simp_all add: saved_scopes_def split: option.splits)
  have "get_execution fx_db2 (x_id fx_leaf) = Some fx_leaf" by code_simp
  moreover have "x_result fx_leaf = None" by (simp add: fx_leaf_def)
  ultimately have opens: "list_all (\<lambda>s. list_all (\<lambda>f. is_inr (fetch_content wit_digest c (content_ref (cf_sha256 f))))
      (cs_files s)) captured"
    using saved_checkpoint_references_stored_bytes [OF w(1) [unfolded wit_capture_def] wit_checkout_ok(1)
        wit_checkout_ok(2) wit_session_ok] by blast
  show ?thesis by (intro exI conjI) (rule w(1), rule w(2), rule opens)
qed

end
