(* ===== verification/Sibling_Order.thy ===== *)
theory Sibling_Order
  imports Prelude "HOL-Library.Multiset"
begin

text \<open>
  The order of projects, worktrees and surfaces among their siblings,
  \<^verbatim>\<open>platform/persistence/sibling-order.ts\<close>: one movement rule, and the ranks that change with it.
  The locale \<open>ranked_rows\<close> is what a repository's move relies on: a list of sibling rows and a write
  of one row's rank.
\<close>

section \<open>Moving one sibling\<close>

text \<open>\<open>indexOf\<close> answers -1 for an anchor that is not there, which \<open>slice\<close> counts from the end.\<close>

definition move_before :: "nat list \<Rightarrow> nat \<Rightarrow> nat option \<Rightarrow> nat list" where
  "move_before ordered source before =
     (if before = Some source then ordered
      else
        let remaining = filter (\<lambda>i. i \<noteq> source) ordered in
        case before of
          None \<Rightarrow> remaining @ [source]
        | Some anchor \<Rightarrow>
            if anchor \<in> set remaining
            then takeWhile (\<lambda>i. i \<noteq> anchor) remaining @ source # dropWhile (\<lambda>i. i \<noteq> anchor) remaining
            else butlast remaining @ source # drop (length remaining - 1) remaining)"

definition compacted_rank_changes :: "(nat \<times> int) list \<Rightarrow> nat list \<Rightarrow> (nat \<times> int) list" where
  "compacted_rank_changes stored ordered =
     concat (map (\<lambda>(index, i). if map_of (rev stored) i = Some (int index) then [] else [(i, int index)])
       (enumerate 0 ordered))"

text \<open>
  \<open>orderBy(sortOrder, id)\<close> on rows that are listed by id, the sort being stable, and the writes a move
  makes: \<open>rs\<close> are the siblings as id and rank.
\<close>

definition in_rank_order :: "(nat \<times> int) list \<Rightarrow> nat list" where
  "in_rank_order rs = map fst (sort_key snd rs)"

definition rank_writes :: "(nat \<times> int) list \<Rightarrow> nat \<Rightarrow> nat option \<Rightarrow> (nat \<times> int) list" where
  "rank_writes rs source before =
     compacted_rank_changes (sort_key snd rs) (move_before (in_rank_order rs) source before)"

section \<open>What a move does\<close>

text \<open>The siblings are the same, the others keep their order, and the source stands at its anchor.\<close>

lemma move_before_mset:
  assumes "distinct ordered" and "source \<in> set ordered" and "\<And>a. before = Some a \<Longrightarrow> a \<in> set ordered"
  shows "mset (move_before ordered source before) = mset ordered"
proof -
  have "remove1 source ordered = filter (\<lambda>i. i \<noteq> source) ordered"
    using distinct_remove1_removeAll [OF assms(1), of source]
    by (auto simp: removeAll_filter_not_eq intro: filter_cong)
  then have removed: "add_mset source (mset (filter (\<lambda>i. i \<noteq> source) ordered)) = mset ordered"
    using assms(2) by (metis insert_DiffM mset_remove1 set_mset_mset)
  show ?thesis
  proof (cases before)
    case None
    then show ?thesis by (simp add: move_before_def removed del: mset_filter)
  next
    case (Some a)
    let ?r = "filter (\<lambda>i. i \<noteq> source) ordered"
    have "mset (takeWhile (\<lambda>i. i \<noteq> a) ?r) + mset (dropWhile (\<lambda>i. i \<noteq> a) ?r) = mset ?r"
      by (metis mset_append takeWhile_dropWhile_id)
    then show ?thesis using Some assms(3) [OF Some] by (auto simp: move_before_def Let_def removed simp del: mset_filter)
  qed
qed

lemma move_before_others:
  assumes "\<And>a. before = Some a \<Longrightarrow> a \<in> set ordered"
  shows "filter (\<lambda>i. i \<noteq> source) (move_before ordered source before) = filter (\<lambda>i. i \<noteq> source) ordered"
proof (cases before)
  case (Some a)
  let ?r = "filter (\<lambda>i. i \<noteq> source) ordered"
  have "filter (\<lambda>i. i \<noteq> source) (takeWhile (\<lambda>i. i \<noteq> a) ?r) @ filter (\<lambda>i. i \<noteq> source) (dropWhile (\<lambda>i. i \<noteq> a) ?r)
      = ?r"
    by (simp only: filter_append [symmetric] takeWhile_dropWhile_id) simp
  then show ?thesis
    using Some assms [OF Some] by (auto simp: move_before_def Let_def)
qed (simp add: move_before_def)

text \<open>Directly before the anchor, or last.\<close>

lemma move_before_place:
  assumes "before \<noteq> Some source"
  shows "case before of
      None \<Rightarrow> (\<exists>xs. move_before ordered source before = xs @ [source])
    | Some a \<Rightarrow> a \<in> set ordered \<longrightarrow> (\<exists>xs ys. move_before ordered source before = xs @ source # a # ys)"
proof (cases before)
  case (Some a)
  let ?r = "filter (\<lambda>i. i \<noteq> source) ordered"
  have "\<exists>ys. dropWhile (\<lambda>i. i \<noteq> a) ?r = a # ys" if "a \<in> set ?r"
    using that by (metis (mono_tags, lifting) dropWhile_eq_Nil_conv hd_dropWhile list.exhaust_sel)
  then show ?thesis using Some assms by (auto simp: move_before_def Let_def)
qed (simp add: move_before_def)

section \<open>What the rank writes do\<close>

definition with_ranks :: "(nat \<times> int) list \<Rightarrow> (nat \<times> int) list \<Rightarrow> (nat \<times> int) list" where
  "with_ranks changes rs =
     map (\<lambda>(i, s). case map_of changes i of Some r \<Rightarrow> (i, r) | None \<Rightarrow> (i, s)) rs"

lemma changes_lookup:
  assumes "distinct ordered" and "distinct (map fst stored)" and "k < length ordered"
  shows "map_of (compacted_rank_changes stored ordered) (ordered ! k) =
     (if map_of stored (ordered ! k) = Some (int k) then None else Some (int k))"
proof -
  have rev: "map_of (rev stored) = map_of stored"
    using assms(2) by (simp add: map_of_inject_set rev_map [symmetric])
  have "map_of (concat (map (\<lambda>(index, i). if map_of stored i = Some (int index) then []
            else [(i, int index)]) (enumerate n xs))) (xs ! k) =
        (if map_of stored (xs ! k) = Some (int (n + k)) then None else Some (int (n + k)))"
    if "distinct xs" "k < length xs" for n k and xs :: "nat list"
    using that
  proof (induction xs arbitrary: n k)
    case (Cons x xs)
    have absent: "map_of (concat (map (\<lambda>(index, i). if map_of stored i = Some (int index) then []
            else [(i, int index)]) (enumerate m ys))) x = None" if "x \<notin> set ys" for m ys
      using that by (induction ys arbitrary: m) auto
    show ?case
    proof (cases k)
      case 0
      then show ?thesis using Cons.prems absent [of xs "Suc n"] by auto
    next
      case (Suc j)
      then have "x \<noteq> xs ! j" "j < length xs" using Cons.prems by auto
      then show ?thesis using Cons.IH [of j "Suc n"] Cons.prems Suc by auto
    qed
  qed simp
  from this [OF assms(1,3), of 0] show ?thesis by (simp add: compacted_rank_changes_def rev)
qed

lemma changed_ids:
  "fst ` set (concat (map (\<lambda>(index, i). if P index i then [] else [(i, int index)]) (enumerate n xs))) \<subseteq> set xs"
  by (force dest: in_set_enumerate_eq [THEN iffD1] split: if_splits)

lemma distinct_changes: "distinct ordered \<Longrightarrow> distinct (map fst (compacted_rank_changes stored ordered))"
proof -
  have "distinct (map fst (concat (map (\<lambda>(index, i). if P index i then [] else [(i, int index)]) (enumerate n xs))))"
    if "distinct xs" for P n and xs :: "nat list"
    using that
  proof (induction xs arbitrary: n)
    case (Cons x xs)
    then have "x \<notin> fst ` set (concat (map (\<lambda>(index, i). if P index i then [] else [(i, int index)])
        (enumerate (Suc n) xs)))"
      using changed_ids [of P "Suc n" xs] by (meson distinct.simps(2) subsetD)
    then show ?case using Cons by (cases "P n x") (simp_all del: set_concat)
  qed simp
  then show "distinct ordered \<Longrightarrow> ?thesis" by (simp add: compacted_rank_changes_def)
qed

text \<open>After the writes every sibling's rank is its position in the new order.\<close>

lemma with_ranks_order:
  assumes ids: "distinct (map fst rs)" and new: "mset ordered = mset (map fst rs)"
  shows "sort_key snd (with_ranks (compacted_rank_changes (sort_key snd rs) ordered) rs) =
    zip ordered (map int [0..<length ordered])"
proof (rule sort_key_inj_key_eq)
  let ?c = "compacted_rank_changes (sort_key snd rs) ordered"
  let ?z = "zip ordered (map int [0..<length ordered])"
  have d: "distinct ordered" using ids new mset_eq_imp_distinct_iff by blast
  have ds: "distinct (map fst (sort_key snd rs))"
    using ids by (metis mset_eq_imp_distinct_iff mset_map mset_sort)
  have lookup: "map_of (sort_key snd rs) = map_of rs"
    using ids ds by (intro map_of_inject_set [THEN iffD2]) auto
  have members: "set ordered = fst ` set rs" using mset_eq_setD [OF new] by simp
  have at: "(case map_of ?c (ordered ! k) of Some r \<Rightarrow> (ordered ! k, r) | None \<Rightarrow> (ordered ! k, s)) =
      (ordered ! k, int k)" if "k < length ordered" "(ordered ! k, s) \<in> set rs" for k s
    using changes_lookup [OF d ds that(1)] that(2) ids by (auto simp: lookup map_of_eq_Some_iff)
  have image: "set (with_ranks ?c rs) = set ?z"
  proof (intro equalityI subsetI)
    fix x assume "x \<in> set (with_ranks ?c rs)"
    then obtain i s where row: "(i, s) \<in> set rs"
      "x = (case map_of ?c i of Some r \<Rightarrow> (i, r) | None \<Rightarrow> (i, s))"
      by (auto simp: with_ranks_def)
    then have "i \<in> set ordered" using members by force
    then obtain k where "k < length ordered" "ordered ! k = i" by (auto simp: in_set_conv_nth)
    then show "x \<in> set ?z" using at row by (auto simp: set_zip intro!: exI [of _ k])
  next
    fix x assume "x \<in> set ?z"
    then obtain k where k: "k < length ordered" "x = (ordered ! k, int k)" by (auto simp: set_zip)
    then have "ordered ! k \<in> fst ` set rs" using members nth_mem by blast
    then obtain s where "(ordered ! k, s) \<in> set rs" by auto
    then show "x \<in> set (with_ranks ?c rs)" using at k by (force simp: with_ranks_def)
  qed
  have "map fst (with_ranks ?c rs) = map fst rs"
    by (auto simp: with_ranks_def split: option.split)
  then have "distinct (with_ranks ?c rs)" using ids by (metis distinct_map)
  moreover have "distinct ?z" using d by (simp add: distinct_zipI1)
  ultimately show "mset (with_ranks ?c rs) = mset ?z"
    by (rule set_eq_iff_mset_eq_distinct [THEN iffD1, OF _ _ image])
  have "inj_on snd (set ?z)" by (auto simp: inj_on_def set_zip)
  then show "inj_on snd (set (with_ranks ?c rs))" by (simp add: image)
  show "sorted (map snd ?z)" by (simp add: sorted_map)
qed

lemma moved_members:
  assumes "distinct (map fst rs)" and "source \<in> fst ` set rs" and "\<And>a. before = Some a \<Longrightarrow> a \<in> fst ` set rs"
  shows "mset (move_before (in_rank_order rs) source before) = mset (map fst rs)"
    and "distinct (move_before (in_rank_order rs) source before)"
    and "set (move_before (in_rank_order rs) source before) = fst ` set rs"
proof -
  have same: "mset (in_rank_order rs) = mset (map fst rs)" by (simp add: in_rank_order_def)
  then have "distinct (in_rank_order rs)" using assms(1) mset_eq_imp_distinct_iff by blast
  then have "mset (move_before (in_rank_order rs) source before) = mset (in_rank_order rs)"
    using assms(2,3) by (intro move_before_mset) (auto simp: in_rank_order_def)
  then show m: "mset (move_before (in_rank_order rs) source before) = mset (map fst rs)" by (simp only: same)
  show "distinct (move_before (in_rank_order rs) source before)"
    using assms(1) mset_eq_imp_distinct_iff [OF m] by blast
  show "set (move_before (in_rank_order rs) source before) = fst ` set rs"
    using mset_eq_setD [OF m] by simp
qed

section \<open>A table of ranked rows\<close>

locale ranked_rows =
  fixes siblings :: "'t \<Rightarrow> (nat \<times> int) list"
    and set_rank :: "nat \<Rightarrow> int \<Rightarrow> 't \<Rightarrow> 't"
    and ok :: "'t \<Rightarrow> bool"
  assumes siblings_distinct: "ok t \<Longrightarrow> distinct (map fst (siblings t))"
    and siblings_set_rank: "siblings (set_rank i r t) = map (\<lambda>(j, s). if j = i then (j, r) else (j, s)) (siblings t)"
    and ok_set_rank: "ok t \<Longrightarrow> ok (set_rank i r t)"
begin

lemma ok_written: "ok t \<Longrightarrow> ok (fold (\<lambda>(i, r). set_rank i r) cs t)"
  by (induction cs arbitrary: t) (auto simp: ok_set_rank)

lemma siblings_written:
  "distinct (map fst cs) \<Longrightarrow> siblings (fold (\<lambda>(i, r). set_rank i r) cs t) = with_ranks cs (siblings t)"
proof (induction cs arbitrary: t)
  case Nil
  then show ?case by (simp add: with_ranks_def case_prod_unfold)
next
  case (Cons c cs)
  have "fst c \<notin> fst ` set cs" using Cons.prems by auto
  then have "map_of cs (fst c) = None" by (simp add: map_of_eq_None_iff)
  then show ?case using Cons by (cases c) (auto simp: siblings_set_rank with_ranks_def)
qed

text \<open>A move leaves the siblings in the order asked for, with their positions as ranks.\<close>

lemma moved:
  assumes "ok t" and "source \<in> fst ` set (siblings t)"
    and "\<And>a. before = Some a \<Longrightarrow> a \<in> fst ` set (siblings t)"
  shows "sort_key snd (siblings (fold (\<lambda>(i, r). set_rank i r) (rank_writes (siblings t) source before) t)) =
    (let new = move_before (in_rank_order (siblings t)) source before
     in zip new (map int [0..<length new]))"
proof -
  have d: "distinct (map fst (siblings t))" by (rule siblings_distinct [OF assms(1)])
  note m = moved_members [OF d assms(2,3)]
  show ?thesis
    using with_ranks_order [OF d m(1)]
    by (simp add: siblings_written distinct_changes m(2) rank_writes_def Let_def)
qed

end

text \<open>
  Any table whose rows have a rank, and any subset of its rows that a change of rank leaves alone, is
  such a table; a write of ranks changes the rows it names and no other.
\<close>

lemma table_ranked_rows:
  assumes "\<And>x r. idf (upd_rank x r) = idf r" and "\<And>x r. rank (upd_rank x r) = x" and "\<And>x r. P (upd_rank x r) = P r"
  shows "ranked_rows (\<lambda>t. map (\<lambda>r. (idf r, rank r)) (filter P (rows t)))
    (\<lambda>i x. tab_update idf i (upd_rank x)) (tab_wf idf)"
proof
  fix t :: "'a table"
  assume "tab_wf idf t"
  then have "distinct (map idf (rows t))" by (simp add: tab_wf_def sorted_wrt_less_distinct)
  then show "distinct (map fst (map (\<lambda>r. (idf r, rank r)) (filter P (rows t))))"
    by (simp add: comp_def distinct_map_filter)
next
  fix i x and t :: "'a table"
  have "filter P (map (\<lambda>r. if idf r = i then upd_rank x r else r) rs) =
      map (\<lambda>r. if idf r = i then upd_rank x r else r) (filter P rs)" for rs
    by (induction rs) (simp_all add: assms(3))
  then show "map (\<lambda>r. (idf r, rank r)) (filter P (rows (tab_update idf i (upd_rank x) t))) =
      map (\<lambda>(j, s). if j = i then (j, x) else (j, s)) (map (\<lambda>r. (idf r, rank r)) (filter P (rows t)))"
    by (auto simp: tab_update_def assms(1,2))
next
  fix i x and t :: "'a table"
  assume "tab_wf idf t"
  then show "tab_wf idf (tab_update idf i (upd_rank x) t)" by (rule row_store.wf_upd [OF tab_row_store]) (rule assms(1))
qed

lemma written_rows:
  assumes "\<And>x r. idf (upd_rank x r) = idf r" and "distinct (map fst cs)"
  shows "rows (fold (\<lambda>(i, x). tab_update idf i (upd_rank x)) cs t) =
    map (\<lambda>r. case map_of cs (idf r) of None \<Rightarrow> r | Some x \<Rightarrow> upd_rank x r) (rows t)"
  using assms(2)
proof (induction cs arbitrary: t)
  case (Cons c cs)
  then have "map_of cs (fst c) = None" by (simp add: map_of_eq_None_iff)
  then show ?case using Cons by (cases c) (auto simp: tab_update_def assms(1))
qed simp

lemma rank_writes_ids: "fst ` set (rank_writes rs source before) \<subseteq> set (move_before (in_rank_order rs) source before)"
  unfolding rank_writes_def compacted_rank_changes_def
  using changed_ids [of "\<lambda>index i. map_of (rev (sort_key snd rs)) i = Some (int index)" 0
      "move_before (in_rank_order rs) source before"]
  by simp

end
