(* ===== verification/Projects.thy ===== *)
theory Projects
  imports Sibling_Order
begin

text \<open>
  The registered projects and their worktrees, \<^verbatim>\<open>projects/repository.ts\<close>: registration, the
  reconciliation with what Git reports, presence, and the order the user gives them. Each repository
  method is one transaction; a write that breaks a constraint of the schema (a root path or a
  worktree path used twice, a project that is gone) is the failure \<open>None\<close>, which leaves the database
  as it was. Times are numbers.
\<close>

section \<open>Rows\<close>

datatype registered_kind = Git_Kind | Folder_Kind

datatype presence = Present | Missing

record project_row =
  pj_id :: nat
  pj_name :: string
  pj_root_path :: string
  pj_kind :: registered_kind
  pj_status :: presence
  pj_sort :: int
  pj_created :: nat
  pj_updated :: nat
  pj_last_seen :: "nat option"
  pj_missing_reason :: "string option"

record worktree_row =
  wt_id :: nat
  wt_project :: nat
  wt_path :: string
  wt_branch :: "string option"
  wt_head :: "string option"
  wt_sort :: int
  wt_created :: nat
  wt_updated :: nat
  wt_first_seen :: nat
  wt_last_seen :: "nat option"

record project_db =
  projects :: "project_row table"
  worktrees :: "worktree_row table"

record discovered_worktree =
  dw_path :: string
  dw_branch :: "string option"
  dw_head :: "string option"

datatype order_rejection =
    Project_Not_Found | Project_Not_Present | Before_Project_Not_Found | Before_Project_Not_Present
  | Worktrees_Not_Supported | Worktree_Not_Found | Worktree_Project_Mismatch | Root_Worktree_Fixed
  | Before_Worktree_Not_Found | Before_Worktree_Project_Mismatch | Before_Root_Worktree_Fixed

section \<open>Ranks\<close>

text \<open>SQL's \<open>max\<close> over no rows is null, for which -1 stands in.\<close>

definition next_rank :: "int list \<Rightarrow> int" where
  "next_rank ranks = (case ranks of [] \<Rightarrow> -1 | r # rs \<Rightarrow> fold max rs r) + 1"

definition present_projects :: "project_row table \<Rightarrow> project_row list" where
  "present_projects t = filter (\<lambda>p. pj_status p = Present) (rows t)"

definition next_present_project_order :: "project_row table \<Rightarrow> int" where
  "next_present_project_order t = next_rank (map pj_sort (present_projects t))"

definition next_project_worktree_order :: "worktree_row table \<Rightarrow> nat \<Rightarrow> int" where
  "next_project_worktree_order t project = next_rank (map wt_sort (filter (\<lambda>w. wt_project w = project) (rows t)))"

text \<open>Present projects by rank, then the others by id.\<close>

definition list_projects :: "'a project_db_scheme \<Rightarrow> project_row list" where
  "list_projects db = sort_key pj_sort (present_projects (projects db)) @
     filter (\<lambda>p. pj_status p \<noteq> Present) (rows (projects db))"

definition list_worktrees :: "'a project_db_scheme \<Rightarrow> worktree_row list" where
  "list_worktrees db = sort_key wt_project (sort_key wt_sort (rows (worktrees db)))"

section \<open>Reads\<close>

definition find_project :: "'a project_db_scheme \<Rightarrow> nat \<Rightarrow> project_row option" where
  "find_project db i = tab_get pj_id (projects db) i"

definition find_project_by_root_path :: "'a project_db_scheme \<Rightarrow> string \<Rightarrow> project_row option" where
  "find_project_by_root_path db path = find (\<lambda>p. pj_root_path p = path) (rows (projects db))"

definition find_worktree :: "'a project_db_scheme \<Rightarrow> nat \<Rightarrow> worktree_row option" where
  "find_worktree db i = tab_get wt_id (worktrees db) i"

definition find_project_worktree :: "'a project_db_scheme \<Rightarrow> nat \<Rightarrow> nat \<Rightarrow> worktree_row option" where
  "find_project_worktree db project i =
     find (\<lambda>w. wt_project w = project \<and> wt_id w = i) (rows (worktrees db))"

definition find_project_worktree_by_branch ::
  "'a project_db_scheme \<Rightarrow> nat \<Rightarrow> string \<Rightarrow> worktree_row option" where
  "find_project_worktree_by_branch db project branch =
     find (\<lambda>w. wt_project w = project \<and> wt_branch w = Some branch) (rows (worktrees db))"

definition find_project_worktree_by_path ::
  "'a project_db_scheme \<Rightarrow> nat \<Rightarrow> string \<Rightarrow> worktree_row option" where
  "find_project_worktree_by_path db project path =
     find (\<lambda>w. wt_project w = project \<and> wt_path w = path) (rows (worktrees db))"

section \<open>Registration\<close>

text \<open>An insertion fails when the project is gone or has the path already.\<close>

definition insert_worktree ::
  "nat \<Rightarrow> nat \<Rightarrow> discovered_worktree \<Rightarrow> int \<Rightarrow> 'a project_db_scheme \<Rightarrow> (worktree_row \<times> 'a project_db_scheme) option"
  where
  "insert_worktree now project d rank db =
     (if find_project db project = None \<or> find_project_worktree_by_path db project (dw_path d) \<noteq> None
      then None
      else
        let (w, t) = tab_insert (\<lambda>i. \<lparr>wt_id = i, wt_project = project, wt_path = dw_path d,
              wt_branch = dw_branch d, wt_head = dw_head d, wt_sort = rank, wt_created = now,
              wt_updated = now, wt_first_seen = now, wt_last_seen = Some now\<rparr>) (worktrees db)
        in Some (w, db\<lparr>worktrees := t\<rparr>))"

definition create_project ::
  "nat \<Rightarrow> string \<Rightarrow> string \<Rightarrow> registered_kind \<Rightarrow> 'a project_db_scheme
     \<Rightarrow> (project_row \<times> 'a project_db_scheme) option" where
  "create_project now name root kind db =
     (if find_project_by_root_path db root \<noteq> None then None
      else
        let (p, t) = tab_insert (\<lambda>i. \<lparr>pj_id = i, pj_name = name, pj_root_path = root, pj_kind = kind,
              pj_status = Present, pj_sort = next_present_project_order (projects db), pj_created = now,
              pj_updated = now, pj_last_seen = Some now, pj_missing_reason = None\<rparr>) (projects db);
            db' = db\<lparr>projects := t\<rparr>
        in if kind = Folder_Kind
           then map_option (\<lambda>(w, db''). (p, db''))
             (insert_worktree now (pj_id p) \<lparr>dw_path = root, dw_branch = None, dw_head = None\<rparr>
               (next_project_worktree_order (worktrees db') (pj_id p)) db')
           else Some (p, db'))"

text \<open>
  Deletion of a project takes its worktrees with it; \<open>in_transaction\<close> are another domain's writes in
  the same transaction, which run first. The other tables whose rows go with a worktree are in the
  theory of their domain.
\<close>

definition delete_worktree :: "nat \<Rightarrow> 'a project_db_scheme \<Rightarrow> bool \<times> 'a project_db_scheme" where
  "delete_worktree i db =
     (find_worktree db i \<noteq> None,
      db\<lparr>worktrees := tab_keep (\<lambda>w. wt_id w \<noteq> i) (worktrees db)\<rparr>)"

definition delete_project ::
  "nat \<Rightarrow> ('a project_db_scheme \<Rightarrow> 'a project_db_scheme) \<Rightarrow> 'a project_db_scheme \<Rightarrow> bool \<times> 'a project_db_scheme"
  where
  "delete_project i in_transaction db0 =
     (let db = in_transaction db0 in
      (find_project db i \<noteq> None,
       db\<lparr>projects := tab_keep (\<lambda>p. pj_id p \<noteq> i) (projects db),
          worktrees := tab_keep (\<lambda>w. wt_project w \<noteq> i) (worktrees db)\<rparr>))"

section \<open>Reconciliation\<close>

type_synonym worktree_summary = "nat \<times> string \<times> string option"

definition summary_of :: "worktree_row \<Rightarrow> worktree_summary" where
  "summary_of w = (wt_id w, wt_path w, wt_branch w)"

text \<open>The loop over what Git reports; \<open>next_order\<close> is the rank of the next new worktree, read when the first one needs it.\<close>

fun reconcile_loop ::
  "nat \<Rightarrow> nat \<Rightarrow> int option \<Rightarrow> worktree_summary list \<Rightarrow> discovered_worktree list \<Rightarrow> 'a project_db_scheme
     \<Rightarrow> (worktree_summary list \<times> 'a project_db_scheme) option" where
  "reconcile_loop now project next_order added [] db = Some (added, db)"
| "reconcile_loop now project next_order added (d # ds) db =
     (case find_project_worktree_by_path db project (dw_path d) of
        Some w \<Rightarrow>
          reconcile_loop now project next_order added ds
            (db\<lparr>worktrees := tab_update wt_id (wt_id w)
               (\<lambda>r. r\<lparr>wt_branch := dw_branch d, wt_head := dw_head d, wt_updated := now,
                      wt_last_seen := Some now\<rparr>) (worktrees db)\<rparr>)
      | None \<Rightarrow>
          let rank = (case next_order of Some n \<Rightarrow> n | None \<Rightarrow> next_project_worktree_order (worktrees db) project)
          in case insert_worktree now project d rank db of
               None \<Rightarrow> None
             | Some (w, db') \<Rightarrow> reconcile_loop now project (Some (rank + 1)) (added @ [summary_of w]) ds db')"

definition pruned_worktree_ids :: "string list \<Rightarrow> worktree_row list \<Rightarrow> nat list" where
  "pruned_worktree_ids discovered existing = map wt_id (filter (\<lambda>w. wt_path w \<notin> set discovered) existing)"

definition reconcile_project_worktrees ::
  "nat \<Rightarrow> nat \<Rightarrow> discovered_worktree list \<Rightarrow> 'a project_db_scheme
     \<Rightarrow> (worktree_summary list \<times> worktree_summary list \<times> 'a project_db_scheme) option" where
  "reconcile_project_worktrees now project discovered db =
     (case reconcile_loop now project None [] discovered db of
        None \<Rightarrow> None
      | Some (added, db') \<Rightarrow>
          let existing = filter (\<lambda>w. wt_project w = project) (rows (worktrees db'));
              missing = List.map_filter (\<lambda>i. map_option summary_of (find (\<lambda>w. wt_id w = i) existing))
                (pruned_worktree_ids (map dw_path discovered) existing)
          in Some (added, missing, db'))"

section \<open>Presence\<close>

text \<open>A project that was missing is appended; one that is present keeps its rank.\<close>

definition presence_rank_patch :: "project_row table \<Rightarrow> nat \<Rightarrow> project_row \<Rightarrow> project_row" where
  "presence_rank_patch t i p =
     (case tab_get pj_id t i of
        None \<Rightarrow> p
      | Some current \<Rightarrow>
          if pj_status current = Present then p else p\<lparr>pj_sort := next_present_project_order t\<rparr>)"

definition set_project_status ::
  "nat \<Rightarrow> nat \<Rightarrow> presence \<Rightarrow> string option \<Rightarrow> 'a project_db_scheme \<Rightarrow> 'a project_db_scheme" where
  "set_project_status now i status why db =
     db\<lparr>projects := tab_update pj_id i
        (\<lambda>p. (if status = Present then presence_rank_patch (projects db) i p else p)
           \<lparr>pj_status := status, pj_updated := now,
            pj_last_seen := (if status = Present then Some now else None),
            pj_missing_reason := (if status = Missing then why else None)\<rparr>) (projects db)\<rparr>"

definition restore_project_at_root_path ::
  "nat \<Rightarrow> nat \<Rightarrow> string \<Rightarrow> discovered_worktree list \<Rightarrow> 'a project_db_scheme
     \<Rightarrow> (worktree_summary list \<times> worktree_summary list \<times> 'a project_db_scheme) option" where
  "restore_project_at_root_path now i root discovered db =
     (if find_project db i \<noteq> None \<and> list_ex (\<lambda>p. pj_id p \<noteq> i \<and> pj_root_path p = root) (rows (projects db))
      then None
      else reconcile_project_worktrees now i discovered
        (db\<lparr>projects := tab_update pj_id i
           (\<lambda>p. (presence_rank_patch (projects db) i p)
              \<lparr>pj_root_path := root, pj_status := Present, pj_updated := now, pj_last_seen := Some now,
               pj_missing_reason := None\<rparr>) (projects db)\<rparr>))"

section \<open>The user's order\<close>

definition project_siblings :: "project_row table \<Rightarrow> (nat \<times> int) list" where
  "project_siblings t = map (\<lambda>p. (pj_id p, pj_sort p)) (filter (\<lambda>p. pj_status p = Present) (rows t))"

definition set_project_rank :: "nat \<Rightarrow> nat \<Rightarrow> int \<Rightarrow> project_row table \<Rightarrow> project_row table" where
  "set_project_rank now i r = tab_update pj_id i (\<lambda>p. p\<lparr>pj_sort := r, pj_updated := now\<rparr>)"

definition move_project_order ::
  "nat \<Rightarrow> nat \<Rightarrow> nat option \<Rightarrow> 'a project_db_scheme \<Rightarrow> order_rejection + 'a project_db_scheme" where
  "move_project_order now i before db =
     (case find_project db i of
        None \<Rightarrow> Inl Project_Not_Found
      | Some source \<Rightarrow>
          if pj_status source \<noteq> Present then Inl Project_Not_Present
          else
            let accepted = Inr (db\<lparr>projects := fold (\<lambda>(j, r). set_project_rank now j r)
                  (rank_writes (project_siblings (projects db)) i before) (projects db)\<rparr>)
            in case before of
                 None \<Rightarrow> accepted
               | Some b \<Rightarrow>
                   (case find_project db b of
                      None \<Rightarrow> Inl Before_Project_Not_Found
                    | Some anchor \<Rightarrow>
                        if pj_status anchor \<noteq> Present then Inl Before_Project_Not_Present else accepted))"

definition worktree_siblings :: "nat \<Rightarrow> string \<Rightarrow> worktree_row table \<Rightarrow> (nat \<times> int) list" where
  "worktree_siblings project root t =
     map (\<lambda>w. (wt_id w, wt_sort w)) (filter (\<lambda>w. wt_project w = project \<and> wt_path w \<noteq> root) (rows t))"

definition set_worktree_rank :: "nat \<Rightarrow> nat \<Rightarrow> int \<Rightarrow> worktree_row table \<Rightarrow> worktree_row table" where
  "set_worktree_rank now i r = tab_update wt_id i (\<lambda>w. w\<lparr>wt_sort := r, wt_updated := now\<rparr>)"

definition move_project_worktree_order ::
  "nat \<Rightarrow> nat \<Rightarrow> nat \<Rightarrow> nat option \<Rightarrow> 'a project_db_scheme \<Rightarrow> order_rejection + 'a project_db_scheme" where
  "move_project_worktree_order now project i before db =
     (case find_project db project of
        None \<Rightarrow> Inl Project_Not_Found
      | Some p \<Rightarrow>
          if pj_status p \<noteq> Present then Inl Project_Not_Present
          else if pj_kind p \<noteq> Git_Kind then Inl Worktrees_Not_Supported
          else
            (case find_worktree db i of
               None \<Rightarrow> Inl Worktree_Not_Found
             | Some source \<Rightarrow>
                 if wt_project source \<noteq> project then Inl Worktree_Project_Mismatch
                 else if wt_path source = pj_root_path p then Inl Root_Worktree_Fixed
                 else
                   let accepted = Inr (db\<lparr>worktrees := fold (\<lambda>(j, r). set_worktree_rank now j r)
                         (rank_writes (worktree_siblings project (pj_root_path p) (worktrees db)) i before)
                         (worktrees db)\<rparr>)
                   in case before of
                        None \<Rightarrow> accepted
                      | Some b \<Rightarrow>
                          (case find_worktree db b of
                             None \<Rightarrow> Inl Before_Worktree_Not_Found
                           | Some anchor \<Rightarrow>
                               if wt_project anchor \<noteq> project then Inl Before_Worktree_Project_Mismatch
                               else if wt_path anchor = pj_root_path p then Inl Before_Root_Worktree_Fixed
                               else accepted)))"

section \<open>What happens to the projects\<close>

datatype project_action =
    Register string string registered_kind
  | Deregister nat
  | Remove_Worktree nat
  | Reconcile nat "discovered_worktree list"
  | Restore nat string "discovered_worktree list"
  | Set_Status nat presence "string option"
  | Move_Project nat "nat option"
  | Move_Worktree nat nat "nat option"

definition or_else :: "'d \<Rightarrow> 'd option \<Rightarrow> 'd" where
  "or_else db r = (case r of None \<Rightarrow> db | Some db' \<Rightarrow> db')"

definition or_stay :: "'d \<Rightarrow> order_rejection + 'd \<Rightarrow> 'd" where
  "or_stay db r = (case r of Inl why \<Rightarrow> db | Inr db' \<Rightarrow> db')"

definition project_act :: "nat \<Rightarrow> project_action \<Rightarrow> 'a project_db_scheme \<Rightarrow> 'a project_db_scheme" where
  "project_act now a db =
     (case a of
        Register name root kind \<Rightarrow> or_else db (map_option snd (create_project now name root kind db))
      | Deregister i \<Rightarrow> snd (delete_project i (\<lambda>d. d) db)
      | Remove_Worktree i \<Rightarrow> snd (delete_worktree i db)
      | Reconcile i ds \<Rightarrow> or_else db (map_option (\<lambda>(added, missing, db'). db') (reconcile_project_worktrees now i ds db))
      | Restore i root ds \<Rightarrow>
          or_else db (map_option (\<lambda>(added, missing, db'). db') (restore_project_at_root_path now i root ds db))
      | Set_Status i status why \<Rightarrow> set_project_status now i status why db
      | Move_Project i before \<Rightarrow> or_stay db (move_project_order now i before db)
      | Move_Worktree p i before \<Rightarrow> or_stay db (move_project_worktree_order now p i before db))"

definition no_projects :: project_db where
  "no_projects = \<lparr>projects = tab_empty, worktrees = tab_empty\<rparr>"

definition after_actions :: "(nat \<times> project_action) list \<Rightarrow> project_db" where
  "after_actions acts = fold (\<lambda>(now, a). project_act now a) acts no_projects"

text \<open>The order the present projects are shown in.\<close>

definition rail :: "'a project_db_scheme \<Rightarrow> nat list" where
  "rail db = in_rank_order (project_siblings (projects db))"

section \<open>Ranks and sorting\<close>

lemma next_rank_above: "r \<in> set ranks \<Longrightarrow> r < next_rank ranks"
proof -
  assume r: "r \<in> set ranks"
  then obtain x rs where c: "ranks = x # rs" by (cases ranks) auto
  then have "next_rank ranks = Max (set ranks) + 1" by (simp add: next_rank_def Max.set_eq_fold [symmetric])
  moreover have "r \<le> Max (set ranks)" using r by simp
  ultimately show ?thesis by simp
qed

text \<open>An element above all others goes to the end, wherever the table holds it.\<close>

lemma sort_key_largest:
  assumes "\<And>y. y \<in> set (xs @ ys) \<Longrightarrow> f y < f x"
  shows "sort_key f (xs @ x # ys) = sort_key f (xs @ ys) @ [x]"
proof (rule properties_for_sort_key)
  show "mset (sort_key f (xs @ ys) @ [x]) = mset (xs @ x # ys)" by simp
next
  fix k assume "k \<in> set (sort_key f (xs @ ys) @ [x])"
  have none: "filter (\<lambda>y. f x = f y) xs = []" "filter (\<lambda>y. f x = f y) ys = []"
    using assms by (force simp: filter_empty_conv)+
  have flip: "filter (\<lambda>y. f k = f y) zs = filter (\<lambda>y. f y = f k) zs" for zs
    by (rule filter_cong) auto
  have "filter (\<lambda>y. f k = f y) (sort_key f (xs @ ys)) = filter (\<lambda>y. f k = f y) (xs @ ys)"
    unfolding flip by (rule sort_key_stable)
  then show "filter (\<lambda>y. f k = f y) (sort_key f (xs @ ys) @ [x]) = filter (\<lambda>y. f k = f y) (xs @ x # ys)"
    using none by (cases "f k = f x") auto
next
  show "sorted (map f (sort_key f (xs @ ys) @ [x]))"
    using assms by (auto simp: sorted_append less_imp_le)
qed

lemma sort_key_pairs: "map (\<lambda>p. (f p, g p)) (sort_key g xs) = sort_key snd (map (\<lambda>p. (f p, g p)) xs)"
proof -
  have "map (\<lambda>p. (f p, g p)) (insort_key g x xs) = insort_key snd (f x, g x) (map (\<lambda>p. (f p, g p)) xs)" for x xs
    by (induction xs) auto
  then show ?thesis by (induction xs) (simp_all)
qed

lemma order_appended: "(\<And>y. y \<in> set (xs @ ys) \<Longrightarrow> snd y < r) \<Longrightarrow>
    in_rank_order (xs @ (i, r) # ys) = in_rank_order (xs @ ys) @ [i]"
  using sort_key_largest [of xs ys snd "(i, r)"] by (simp add: in_rank_order_def)

lemma order_filtered: "in_rank_order (filter (\<lambda>s. P (fst s)) rs) = filter P (in_rank_order rs)"
  by (simp add: in_rank_order_def filter_sort [symmetric] filter_map comp_def)

lemma set_in_rank_order [simp]: "set (in_rank_order rs) = fst ` set rs"
  by (simp add: in_rank_order_def)

text \<open>What is listed is the rail, then the projects that are missing.\<close>

lemma listed_rail:
  "map pj_id (list_projects db) = rail db @ map pj_id (filter (\<lambda>p. pj_status p \<noteq> Present) (rows (projects db)))"
proof -
  have "map pj_id (sort_key pj_sort xs) = in_rank_order (map (\<lambda>p. (pj_id p, pj_sort p)) xs)" for xs
    using arg_cong [OF sort_key_pairs [of pj_id pj_sort xs], of "map fst"]
    by (simp add: in_rank_order_def comp_def)
  then show ?thesis by (simp add: list_projects_def rail_def project_siblings_def present_projects_def)
qed

end
