(* ===== verification/Project_Order.thy ===== *)
theory Project_Order
  imports Projects
begin

text \<open>
  What \<^verbatim>\<open>projects/repository.ts\<close> keeps: the constraints of its tables, and the order the user
  gave the projects and the worktrees, which nothing but a move changes.
\<close>

section \<open>The constraints\<close>

definition projects_ok :: "'a project_db_scheme \<Rightarrow> bool" where
  "projects_ok db =
     (tab_wf pj_id (projects db) \<and> tab_wf wt_id (worktrees db) \<and>
      distinct (map pj_root_path (rows (projects db))) \<and>
      distinct (map (\<lambda>w. (wt_project w, wt_path w)) (rows (worktrees db))) \<and>
      wt_project ` set (rows (worktrees db)) \<subseteq> pj_id ` set (rows (projects db)))"

interpretation ptab: row_store pj_id "tab_get pj_id" tab_insert "tab_update pj_id" rows "tab_wf pj_id"
  by (rule tab_row_store)

interpretation wtab: row_store wt_id "tab_get wt_id" tab_insert "tab_update wt_id" rows "tab_wf wt_id"
  by (rule tab_row_store)

interpretation prail: ranked_rows project_siblings "set_project_rank now" "tab_wf pj_id" for now
  unfolding project_siblings_def [abs_def] set_project_rank_def [abs_def] by (rule table_ranked_rows) auto

interpretation wrail: ranked_rows "worktree_siblings project root" "set_worktree_rank now" "tab_wf wt_id"
  for project root now
  unfolding worktree_siblings_def [abs_def] set_worktree_rank_def [abs_def] by (rule table_ranked_rows) auto

lemma project_ids_updated: "(\<And>r. pj_id (g r) = pj_id r) \<Longrightarrow>
    pj_id ` set (rows (tab_update pj_id i g t)) = pj_id ` set (rows t)"
  by (metis map_update_same set_map)

lemma projects_ok_inserted:
  assumes "projects_ok db" and "insert_worktree now project d rank db = Some (w, db')"
  shows "projects_ok db' \<and> projects db' = projects db \<and>
    rows (worktrees db') = rows (worktrees db) @ [w] \<and> wt_id w \<notin> wt_id ` set (rows (worktrees db)) \<and>
    wt_project w = project \<and> wt_sort w = rank \<and> wt_path w = dw_path d"
proof -
  have known: "project \<in> pj_id ` set (rows (projects db))"
    and free: "\<And>x. x \<in> set (rows (worktrees db)) \<Longrightarrow> (wt_project x, wt_path x) \<noteq> (project, dw_path d)"
    using assms(2)
    by (auto simp: insert_worktree_def find_project_def find_project_worktree_by_path_def find_key_None
        find_None_iff_member split: if_splits)
  have ins: "tab_insert (\<lambda>i. \<lparr>wt_id = i, wt_project = project, wt_path = dw_path d, wt_branch = dw_branch d,
      wt_head = dw_head d, wt_sort = rank, wt_created = now, wt_updated = now, wt_first_seen = now,
      wt_last_seen = Some now\<rparr>) (worktrees db) = (w, worktrees db')" and same: "projects db' = projects db"
    using assms(2) by (auto simp: insert_worktree_def Let_def split: if_splits prod.splits)
  from ins have row: "wt_id w = next_id (worktrees db)" "wt_project w = project" "wt_path w = dw_path d"
    "wt_sort w = rank"
    by (auto simp: tab_insert_def Let_def)
  from ins have "worktrees db' = \<lparr>next_id = Suc (next_id (worktrees db)), rows = rows (worktrees db) @ [w]\<rparr>"
    by (auto simp: tab_insert_def Let_def)
  then have tab: "rows (worktrees db') = rows (worktrees db) @ [w]"
    "next_id (worktrees db') = Suc (next_id (worktrees db))"
    by simp_all
  have below: "wt_id x < wt_id w" if "x \<in> set (rows (worktrees db))" for x
    using assms(1) that by (auto simp: projects_ok_def tab_wf_def row)
  have "tab_wf wt_id (worktrees db')"
    using assms(1) below by (auto simp: projects_ok_def tab_wf_def tab row(1) sorted_wrt_append less_Suc_eq)
  moreover have "distinct (map (\<lambda>w. (wt_project w, wt_path w)) (rows (worktrees db')))"
    using assms(1) free by (force simp: projects_ok_def tab row)
  moreover have "wt_id w \<notin> wt_id ` set (rows (worktrees db))" using below by force
  ultimately show ?thesis
    using assms(1) known by (simp add: projects_ok_def tab row same)
qed

lemma projects_ok_worktrees_updated:
  assumes "projects_ok db"
    and "\<And>r. wt_id (g r) = wt_id r" "\<And>r. wt_project (g r) = wt_project r" "\<And>r. wt_path (g r) = wt_path r"
  shows "projects_ok (db\<lparr>worktrees := tab_update wt_id i g (worktrees db)\<rparr>)"
proof -
  have "wt_project ` set (rows (tab_update wt_id i g (worktrees db))) = wt_project ` set (rows (worktrees db))"
    using map_update_same [of wt_project g wt_id i "worktrees db"] assms(3) by (metis set_map)
  moreover have "map (\<lambda>w. (wt_project w, wt_path w)) (rows (tab_update wt_id i g (worktrees db))) =
      map (\<lambda>w. (wt_project w, wt_path w)) (rows (worktrees db))"
    by (rule map_update_same) (simp add: assms(3,4))
  ultimately show ?thesis
    using assms(1) by (auto simp: projects_ok_def tab_wf_update assms(2))
qed

lemma reconcile_loop_ok:
  assumes "projects_ok db" and "reconcile_loop now project next_order added ds db = Some (added', db')"
  shows "projects_ok db' \<and> projects db' = projects db"
  using assms
proof (induction now project next_order added ds db rule: reconcile_loop.induct)
  case (2 now project next_order added d ds db)
  show ?case
  proof (cases "find_project_worktree_by_path db project (dw_path d)")
    case (Some w)
    then show ?thesis using 2 by (simp add: projects_ok_worktrees_updated)
  next
    case None
    let ?rank = "case next_order of Some n \<Rightarrow> n | None \<Rightarrow> next_project_worktree_order (worktrees db) project"
    from 2(4) None obtain w db1 where ins: "insert_worktree now project d ?rank db = Some (w, db1)"
      and rest: "reconcile_loop now project (Some (?rank + 1)) (added @ [summary_of w]) ds db1 = Some (added', db')"
      by (auto simp: Let_def split: option.splits)
    show ?thesis
      using 2(1) [OF None refl ins refl _ rest] projects_ok_inserted [OF 2(3) ins] by simp
  qed
qed simp

lemma inserted_projects: "insert_worktree now project d rank db = Some (w, db') \<Longrightarrow> projects db' = projects db"
  by (auto simp: insert_worktree_def Let_def split: if_splits prod.splits)

lemma reconcile_loop_projects:
  "reconcile_loop now project next_order added ds db = Some (added', db') \<Longrightarrow> projects db' = projects db"
proof (induction now project next_order added ds db rule: reconcile_loop.induct)
  case (2 now project next_order added d ds db)
  then show ?case
    by (cases "find_project_worktree_by_path db project (dw_path d)")
      (auto simp: Let_def inserted_projects split: option.splits prod.splits)
qed simp

lemma reconcile_projects:
  "reconcile_project_worktrees now project ds db = Some (added, missing, db') \<Longrightarrow> projects db' = projects db"
  by (auto simp: reconcile_project_worktrees_def Let_def dest: reconcile_loop_projects split: option.splits)

lemma reconcile_ok:
  assumes "projects_ok db" and "reconcile_project_worktrees now project ds db = Some (added, missing, db')"
  shows "projects_ok db' \<and> projects db' = projects db"
proof -
  from assms(2) have "reconcile_loop now project None [] ds db = Some (added, db')"
    by (auto simp: reconcile_project_worktrees_def Let_def split: option.splits)
  then show ?thesis by (rule reconcile_loop_ok [OF assms(1)])
qed

lemma projects_ok_projects_updated:
  assumes "projects_ok db" and keeps: "\<And>r. pj_id (g r) = pj_id r"
    and root: "distinct (map pj_root_path (rows (tab_update pj_id i g (projects db))))"
  shows "projects_ok (db\<lparr>projects := tab_update pj_id i g (projects db)\<rparr>)"
  using assms(1) root by (simp add: projects_ok_def tab_wf_update keeps project_ids_updated)

lemma presence_rank_patch_keeps [simp]:
  "pj_id (presence_rank_patch t i p) = pj_id p"
  "pj_root_path (presence_rank_patch t i p) = pj_root_path p"
  "pj_status (presence_rank_patch t i p) = pj_status p"
  by (simp_all add: presence_rank_patch_def split: option.split)

lemma roots_after_restore:
  assumes "distinct (map pj_id ps)" and "distinct (map pj_root_path ps)"
    and "\<And>p. p \<in> set ps \<Longrightarrow> pj_id p \<noteq> i \<Longrightarrow> pj_root_path p \<noteq> root"
    and "\<And>p. pj_root_path (g p) = root"
  shows "distinct (map pj_root_path (map (\<lambda>p. if pj_id p = i then g p else p) ps))"
  using assms(1-3)
proof (induction ps)
  case (Cons a ps)
  let ?m = "map (\<lambda>p. if pj_id p = i then g p else p) ps"
  have ih: "distinct (map pj_root_path ?m)" using Cons by simp
  show ?case
  proof (cases "pj_id a = i")
    case True
    then have others: "\<And>x. x \<in> set ps \<Longrightarrow> pj_id x \<noteq> i" using Cons.prems(1) by (metis distinct.simps(2) imageI list.set_map list.simps(9))
    then have "?m = ps" by (intro map_idI) auto
    moreover have "root \<notin> pj_root_path ` set ps" using Cons.prems(3) others by force
    ultimately show ?thesis using True Cons.prems(2) by (simp add: assms(4))
  next
    case False
    then have "pj_root_path a \<noteq> root" using Cons.prems(3) by simp
    then have "pj_root_path a \<notin> pj_root_path ` set ?m" using Cons.prems(2) by (auto simp: assms(4))
    then show ?thesis using ih False by (auto simp: image_iff)
  qed
qed simp

lemma updated_roots:
  assumes "tab_wf pj_id t" and "distinct (map pj_root_path (rows t))"
    and "\<And>p. p \<in> set (rows t) \<Longrightarrow> pj_id p \<noteq> i \<Longrightarrow> pj_root_path p \<noteq> root"
    and "\<And>p. pj_root_path (g p) = root"
  shows "distinct (map pj_root_path (rows (tab_update pj_id i g t)))"
proof -
  have "distinct (map pj_id (rows t))" using assms(1) by (simp add: tab_wf_def sorted_wrt_less_distinct)
  then show ?thesis
    using roots_after_restore [of "rows t" i root g] assms(2-4) by (simp add: tab_update_def)
qed

lemma fold_update_same:
  "(\<And>x r. h (upd x r) = h r) \<Longrightarrow>
     map h (rows (fold (\<lambda>(i, x). tab_update f i (upd x)) cs t)) = map h (rows t)"
  by (induction cs arbitrary: t) (auto simp: tab_update_def)

lemma move_project_ok:
  assumes "projects_ok db" and "move_project_order now i before db = Inr db'"
  shows "projects_ok db'"
proof -
  let ?t = "fold (\<lambda>(j, r). set_project_rank now j r) (rank_writes (project_siblings (projects db)) i before) (projects db)"
  have "db' = db\<lparr>projects := ?t\<rparr>"
    using assms(2) by (auto simp: move_project_order_def Let_def split: option.splits if_splits)
  moreover have "tab_wf pj_id ?t" using assms(1) by (intro prail.ok_written) (simp add: projects_ok_def)
  moreover have "map pj_id (rows ?t) = map pj_id (rows (projects db))"
    "map pj_root_path (rows ?t) = map pj_root_path (rows (projects db))"
    unfolding set_project_rank_def by (rule fold_update_same; simp)+
  ultimately show ?thesis using assms(1) by (simp add: projects_ok_def) (metis set_map)
qed

lemma move_worktree_ok:
  assumes "projects_ok db" and "move_project_worktree_order now p i before db = Inr db'"
  shows "projects_ok db' \<and> projects db' = projects db"
proof -
  obtain root where db': "db' = db\<lparr>worktrees := fold (\<lambda>(j, r). set_worktree_rank now j r)
      (rank_writes (worktree_siblings p root (worktrees db)) i before) (worktrees db)\<rparr>"
    using assms(2) by (auto simp: move_project_worktree_order_def Let_def split: option.splits if_splits)
  let ?t = "fold (\<lambda>(j, r). set_worktree_rank now j r)
      (rank_writes (worktree_siblings p root (worktrees db)) i before) (worktrees db)"
  have "tab_wf wt_id ?t" using assms(1) by (intro wrail.ok_written) (simp add: projects_ok_def)
  moreover have "map wt_project (rows ?t) = map wt_project (rows (worktrees db))"
    "map (\<lambda>w. (wt_project w, wt_path w)) (rows ?t) = map (\<lambda>w. (wt_project w, wt_path w)) (rows (worktrees db))"
    unfolding set_worktree_rank_def by (rule fold_update_same; simp)+
  ultimately show ?thesis using assms(1) by (simp add: projects_ok_def db') (metis set_map)
qed

lemma move_worktree_projects:
  "move_project_worktree_order now p i before db = Inr db' \<Longrightarrow> projects db' = projects db"
  by (auto simp: move_project_worktree_order_def Let_def split: option.splits if_splits)

lemma projects_ok_act: "projects_ok db \<Longrightarrow> projects_ok (project_act now a db)"
proof -
  assume ok: "projects_ok db"
  show ?thesis
  proof (cases a)
    case (Register name root kind)
    have created: "projects_ok d" if c: "create_project now name root kind db = Some (p, d)" for p d
    proof -
      let ?mk = "\<lambda>i. \<lparr>pj_id = i, pj_name = name, pj_root_path = root, pj_kind = kind, pj_status = Present,
        pj_sort = next_present_project_order (projects db), pj_created = now, pj_updated = now,
        pj_last_seen = Some now, pj_missing_reason = None\<rparr>"
      let ?p = "fst (tab_insert ?mk (projects db))" and ?db = "db\<lparr>projects := snd (tab_insert ?mk (projects db))\<rparr>"
      have "root \<notin> pj_root_path ` set (rows (projects db))"
        using c by (auto simp: create_project_def find_project_by_root_path_def find_None_iff_member split: if_splits)
      moreover have "tab_wf pj_id (snd (tab_insert ?mk (projects db)))"
        using ok by (intro ptab.wf_ins) (auto simp: projects_ok_def)
      ultimately have "projects_ok ?db"
        using ok by (auto simp: projects_ok_def tab_insert_def Let_def)
      moreover have "d = ?db \<or> (\<exists>w x r. insert_worktree now (pj_id ?p) x r ?db = Some (w, d))"
        using c by (auto simp: create_project_def Let_def case_prod_unfold split: if_splits)
      ultimately show ?thesis using projects_ok_inserted by blast
    qed
    then show ?thesis using ok Register
      by (auto simp: project_act_def or_else_def split: option.split)
  next
    case (Deregister i)
    then show ?thesis
      using ok by (auto simp: project_act_def delete_project_def Let_def projects_ok_def tab_wf_filter distinct_map_filter)
  next
    case (Remove_Worktree i)
    then show ?thesis
      using ok by (auto simp: project_act_def delete_worktree_def projects_ok_def tab_wf_filter distinct_map_filter)
  next
    case (Reconcile i ds)
    then show ?thesis
      using ok by (auto simp: project_act_def or_else_def split: option.split dest: reconcile_ok)
  next
    case (Restore i root ds)
    let ?g = "\<lambda>p. (presence_rank_patch (projects db) i p)\<lparr>pj_root_path := root, pj_status := Present,
        pj_updated := now, pj_last_seen := Some now, pj_missing_reason := None\<rparr>"
    have "projects_ok (db\<lparr>projects := tab_update pj_id i ?g (projects db)\<rparr>)"
      if "\<not> (find_project db i \<noteq> None \<and> list_ex (\<lambda>p. pj_id p \<noteq> i \<and> pj_root_path p = root) (rows (projects db)))"
    proof (cases "find_project db i")
      case None
      then have "tab_update pj_id i ?g (projects db) = projects db"
        by (intro tab_update_absent) (simp add: find_project_def find_key_None)
      then show ?thesis using ok by simp
    next
      case (Some p)
      then show ?thesis
        using ok that
        by (intro projects_ok_projects_updated updated_roots)
          (auto simp: projects_ok_def list_ex_iff)
    qed
    then show ?thesis
      using ok Restore by (auto simp: project_act_def or_else_def restore_project_at_root_path_def
          split: option.split if_splits dest: reconcile_ok)
  next
    case (Set_Status i status why)
    then show ?thesis
      using ok by (simp add: project_act_def set_project_status_def)
        (intro conjI impI projects_ok_projects_updated; simp add: projects_ok_def map_update_same)
  next
    case (Move_Project i before)
    then show ?thesis
      using ok by (auto simp: project_act_def or_stay_def split: sum.split dest: move_project_ok)
  next
    case (Move_Worktree p i before)
    then show ?thesis
      using ok by (auto simp: project_act_def or_stay_def split: sum.split dest: move_worktree_ok)
  qed
qed

section \<open>Nothing but a move reorders\<close>

text \<open>The survivors in their order, then the newcomers.\<close>

definition stable_order :: "nat list \<Rightarrow> nat list \<Rightarrow> bool" where
  "stable_order old new \<longleftrightarrow> new = filter (\<lambda>i. i \<in> set new) old @ filter (\<lambda>i. i \<notin> set old) new"

lemma stable_orderI:
  assumes "new = filter P old @ xs" and "set xs \<inter> set old = {}"
  shows "stable_order old new"
proof -
  have "filter (\<lambda>i. i \<in> set new) old = filter P old" using assms by (intro filter_cong) auto
  moreover have "filter (\<lambda>i. i \<notin> set old) new = xs"
    using assms by (auto simp: filter_empty_conv intro: filter_True)
  ultimately show ?thesis by (simp add: stable_order_def assms(1))
qed

lemma stable_order_refl: "stable_order old old"
  by (rule stable_orderI [where P = "\<lambda>i. True" and xs = "[]"]) simp_all

lemma rail_members: "set (rail db) = pj_id ` {p \<in> set (rows (projects db)). pj_status p = Present}"
  by (force simp: rail_def project_siblings_def)

lemma sibling_ranks: "snd ` set (project_siblings t) \<subseteq> set (map pj_sort (present_projects t))"
  by (auto simp: project_siblings_def present_projects_def)

lemma siblings_updated:
  assumes "tab_wf pj_id t" and p: "tab_get pj_id t i = Some p" and keeps: "\<And>r. pj_id (g r) = pj_id r"
  obtains xs ys where
    "project_siblings t = xs @ (if pj_status p = Present then [(i, pj_sort p)] else []) @ ys"
    "project_siblings (tab_update pj_id i g t) =
       xs @ (if pj_status (g p) = Present then [(i, pj_sort (g p))] else []) @ ys"
    "i \<notin> fst ` set (xs @ ys)"
proof -
  have m: "p \<in> set (rows t)" "pj_id p = i" using ptab.get_iff [OF assms(1)] p by simp_all
  then obtain us vs where split: "rows t = us @ p # vs" by (meson split_list)
  have "distinct (map pj_id (rows t))" using assms(1) by (simp add: tab_wf_def sorted_wrt_less_distinct)
  then have out: "i \<notin> pj_id ` set us" "i \<notin> pj_id ` set vs" using m(2) by (auto simp: split)
  have same: "map (\<lambda>r. if pj_id r = i then g r else r) zs = zs" if "i \<notin> pj_id ` set zs" for zs
    using that by (intro map_idI) auto
  let ?s = "\<lambda>zs. map (\<lambda>p. (pj_id p, pj_sort p)) (filter (\<lambda>p. pj_status p = Present) zs)"
  show ?thesis
  proof (rule that [of "?s us" "?s vs"])
    show "project_siblings t = ?s us @ (if pj_status p = Present then [(i, pj_sort p)] else []) @ ?s vs"
      using m(2) by (simp add: project_siblings_def split)
    show "project_siblings (tab_update pj_id i g t) =
        ?s us @ (if pj_status (g p) = Present then [(i, pj_sort (g p))] else []) @ ?s vs"
      using m(2) by (simp add: project_siblings_def tab_update_def split same [OF out(1)] same [OF out(2)] keeps)
    show "i \<notin> fst ` set (?s us @ ?s vs)" using out by auto
  qed
qed

text \<open>A change of one project: it stays where it is, leaves, or is appended.\<close>

lemma stable_after_update:
  assumes wf: "tab_wf pj_id t" and keeps: "\<And>r. pj_id (g r) = pj_id r"
    and stays: "\<And>p. tab_get pj_id t i = Some p \<Longrightarrow> pj_status p = Present \<Longrightarrow> pj_status (g p) = Present \<Longrightarrow>
      pj_sort (g p) = pj_sort p"
    and comes: "\<And>p. tab_get pj_id t i = Some p \<Longrightarrow> pj_status p \<noteq> Present \<Longrightarrow> pj_status (g p) = Present \<Longrightarrow>
      pj_sort (g p) = next_present_project_order t"
  shows "stable_order (in_rank_order (project_siblings t)) (in_rank_order (project_siblings (tab_update pj_id i g t)))"
proof (cases "tab_get pj_id t i")
  case None
  then show ?thesis by (simp add: tab_update_absent find_key_None stable_order_refl)
next
  case (Some p)
  obtain xs ys where old: "project_siblings t = xs @ (if pj_status p = Present then [(i, pj_sort p)] else []) @ ys"
    and new: "project_siblings (tab_update pj_id i g t) =
       xs @ (if pj_status (g p) = Present then [(i, pj_sort (g p))] else []) @ ys"
    and out: "i \<notin> fst ` set (xs @ ys)"
    by (rule siblings_updated [OF wf Some keeps])
  consider "pj_status p = Present" "pj_status (g p) = Present" | (leaves) "pj_status (g p) \<noteq> Present"
    | (joins) "pj_status p \<noteq> Present" "pj_status (g p) = Present" by blast
  then show ?thesis
  proof cases
    case 1
    then show ?thesis using old new stays [OF Some] by (simp add: stable_order_refl)
  next
    case leaves
    have "filter (\<lambda>s. fst s \<noteq> i) (xs @ ys) = xs @ ys"
      using out by (intro filter_True) auto
    then have "project_siblings (tab_update pj_id i g t) = filter (\<lambda>s. fst s \<noteq> i) (project_siblings t)"
      using old new leaves by simp
    then show ?thesis
      by (intro stable_orderI [where P = "\<lambda>j. j \<noteq> i" and xs = "[]"]) (simp_all add: order_filtered [where P = "\<lambda>j. j \<noteq> i"])
  next
    case joins
    have "snd y < pj_sort (g p)" if "y \<in> set (xs @ ys)" for y
      using that sibling_ranks [of t] old joins comes [OF Some joins]
        next_rank_above [of "snd y" "map pj_sort (present_projects t)"]
      by (auto simp: next_present_project_order_def)
    then have "in_rank_order (xs @ (i, pj_sort (g p)) # ys) = in_rank_order (xs @ ys) @ [i]"
      by (rule order_appended)
    then show ?thesis
      using old new out joins
      by (intro stable_orderI [where P = "\<lambda>j. True" and xs = "[i]"]) auto
  qed
qed

lemma rail_cong: "projects db' = projects db \<Longrightarrow> rail db' = rail db"
  by (simp add: rail_def)

lemma move_project_rail:
  assumes ok: "projects_ok db" and moved: "move_project_order now i before db = Inr db'"
  shows "rail db' = move_before (rail db) i before"
proof -
  let ?s = "project_siblings (projects db)"
  let ?t = "fold (\<lambda>(j, r). set_project_rank now j r) (rank_writes ?s i before) (projects db)"
  have wf: "tab_wf pj_id (projects db)" using ok by (simp add: projects_ok_def)
  have db': "db' = db\<lparr>projects := ?t\<rparr>"
    and present: "i \<in> fst ` set ?s" "\<And>a. before = Some a \<Longrightarrow> a \<in> fst ` set ?s"
    using moved ptab.get_iff [OF wf]
    by (force simp: move_project_order_def Let_def find_project_def project_siblings_def
        split: option.splits if_splits)+
  have "map fst (sort_key snd (project_siblings ?t)) = move_before (in_rank_order ?s) i before"
    using arg_cong [OF prail.moved [OF wf present], where f = "map fst"] by (simp add: Let_def)
  then show ?thesis by (simp add: rail_def db' in_rank_order_def)
qed

lemma rail_stable:
  assumes ok: "projects_ok db" and "\<nexists>i before. a = Move_Project i before"
  shows "stable_order (rail db) (rail (project_act now a db))"
proof -
  have wf: "tab_wf pj_id (projects db)" using ok by (simp add: projects_ok_def)
  show ?thesis
  proof (cases a)
    case (Register name root kind)
    have "stable_order (rail db) (rail d)" if c: "create_project now name root kind db = Some (p, d)" for p d
    proof -
      let ?mk = "\<lambda>i. \<lparr>pj_id = i, pj_name = name, pj_root_path = root, pj_kind = kind, pj_status = Present,
        pj_sort = next_present_project_order (projects db), pj_created = now, pj_updated = now,
        pj_last_seen = Some now, pj_missing_reason = None\<rparr>"
      let ?db = "db\<lparr>projects := snd (tab_insert ?mk (projects db))\<rparr>"
      have "projects d = projects ?db"
        using c by (auto simp: create_project_def insert_worktree_def Let_def case_prod_unfold split: if_splits)
      then have "project_siblings (projects d) = project_siblings (projects db) @
          (next_id (projects db), next_present_project_order (projects db)) # []"
        by (simp add: project_siblings_def tab_insert_def Let_def)
      moreover have "snd y < next_present_project_order (projects db)"
        if "y \<in> set (project_siblings (projects db))" for y
        using that sibling_ranks [of "projects db"] next_rank_above by (fastforce simp: next_present_project_order_def)
      ultimately have "rail d = rail db @ [next_id (projects db)]"
        using order_appended [of "project_siblings (projects db)" "[]"] by (simp add: rail_def)
      moreover have "next_id (projects db) \<notin> set (rail db)"
        using wf by (auto simp: rail_members tab_wf_def)
      ultimately show ?thesis
        by (intro stable_orderI [where P = "\<lambda>j. True" and xs = "[next_id (projects db)]"]) simp_all
    qed
    then show ?thesis
      using Register by (auto simp: project_act_def or_else_def stable_order_refl split: option.split)
  next
    case (Deregister i)
    have "project_siblings (tab_keep (\<lambda>p. pj_id p \<noteq> i) (projects db)) =
        filter (\<lambda>s. fst s \<noteq> i) (project_siblings (projects db))"
      by (simp add: project_siblings_def filter_map comp_def conj_commute)
    then show ?thesis
      using Deregister
      by (intro stable_orderI [where P = "\<lambda>j. j \<noteq> i" and xs = "[]"])
        (simp_all add: project_act_def delete_project_def Let_def rail_def
          order_filtered [where P = "\<lambda>j. j \<noteq> i"])
  next
    case (Remove_Worktree i)
    then show ?thesis
      by (simp add: project_act_def delete_worktree_def rail_def stable_order_refl)
  next
    case (Reconcile i ds)
    then show ?thesis
      using ok by (auto simp: project_act_def or_else_def stable_order_refl rail_def dest!: reconcile_projects
          split: option.split)
  next
    case (Restore i root ds)
    let ?g = "\<lambda>p. (presence_rank_patch (projects db) i p)\<lparr>pj_root_path := root, pj_status := Present,
        pj_updated := now, pj_last_seen := Some now, pj_missing_reason := None\<rparr>"
    have "stable_order (rail db) (in_rank_order (project_siblings (tab_update pj_id i ?g (projects db))))"
      unfolding rail_def by (intro stable_after_update wf) (simp | auto simp: presence_rank_patch_def)+
    then show ?thesis
      using Restore by (auto simp: project_act_def or_else_def restore_project_at_root_path_def rail_def
          stable_order_refl dest!: reconcile_projects split: option.split)
  next
    case (Set_Status i status why)
    let ?g = "\<lambda>p. (if status = Present then presence_rank_patch (projects db) i p else p)
        \<lparr>pj_status := status, pj_updated := now, pj_last_seen := (if status = Present then Some now else None),
         pj_missing_reason := (if status = Missing then why else None)\<rparr>"
    have "stable_order (rail db) (in_rank_order (project_siblings (tab_update pj_id i ?g (projects db))))"
      unfolding rail_def by (intro stable_after_update wf) (simp | auto simp: presence_rank_patch_def)+
    moreover have "projects (project_act now a db) = tab_update pj_id i ?g (projects db)"
      by (simp only: Set_Status project_act_def project_action.case set_project_status_def) simp
    ultimately show ?thesis by (simp only: rail_def)
  next
    case (Move_Worktree p i before)
    then show ?thesis
      by (cases "move_project_worktree_order now p i before db")
        (simp_all add: project_act_def or_stay_def rail_def move_worktree_projects stable_order_refl)
  qed (use assms(2) in simp)
qed

section \<open>The order of the worktrees\<close>

text \<open>
  A move among the worktrees of a project: the root is not a sibling, so its row and the rows of other
  projects stay as they are, and the others come in the order asked for.
\<close>

lemma worktree_moved:
  assumes ok: "projects_ok db" and moved: "move_project_worktree_order now p i before db = Inr db'"
    and project: "find_project db p = Some pr"
  shows "in_rank_order (worktree_siblings p (pj_root_path pr) (worktrees db')) =
      move_before (in_rank_order (worktree_siblings p (pj_root_path pr) (worktrees db))) i before"
    and "filter (\<lambda>w. wt_project w \<noteq> p \<or> wt_path w = pj_root_path pr) (rows (worktrees db')) =
      filter (\<lambda>w. wt_project w \<noteq> p \<or> wt_path w = pj_root_path pr) (rows (worktrees db))"
proof -
  let ?root = "pj_root_path pr"
  let ?s = "worktree_siblings p ?root (worktrees db)"
  let ?c = "rank_writes ?s i before"
  let ?t = "fold (\<lambda>(j, r). set_worktree_rank now j r) ?c (worktrees db)"
  have wf: "tab_wf wt_id (worktrees db)" using ok by (simp add: projects_ok_def)
  have db': "worktrees db' = ?t"
    and there: "i \<in> fst ` set ?s" "\<And>a. before = Some a \<Longrightarrow> a \<in> fst ` set ?s"
    using moved project wtab.get_iff [OF wf]
    by (force simp: move_project_worktree_order_def Let_def find_worktree_def worktree_siblings_def
        split: option.splits if_splits)+
  have "map fst (sort_key snd (worktree_siblings p ?root ?t)) = move_before (in_rank_order ?s) i before"
    using arg_cong [OF wrail.moved [OF wf there], where f = "map fst"] by (simp add: Let_def)
  then show "in_rank_order (worktree_siblings p ?root (worktrees db')) = move_before (in_rank_order ?s) i before"
    by (simp add: db' in_rank_order_def)
  have d: "distinct (map fst ?s)" by (rule wrail.siblings_distinct [OF wf])
  note new = moved_members(3,2) [OF d there]
  have "distinct (map fst ?c)" using new(2) by (simp add: rank_writes_def distinct_changes)
  then have "rows ?t = map (\<lambda>r. case map_of ?c (wt_id r) of None \<Rightarrow> r
      | Some x \<Rightarrow> r\<lparr>wt_sort := x, wt_updated := now\<rparr>) (rows (worktrees db))"
    unfolding set_worktree_rank_def by (intro written_rows) simp_all
  moreover have "map_of ?c (wt_id w) = None"
    if "w \<in> set (rows (worktrees db))" "wt_project w \<noteq> p \<or> wt_path w = ?root" for w
  proof -
    have "v = w" if "v \<in> set (rows (worktrees db))" "wt_id v = wt_id w" for v
      using wtab.listed_inj [OF wf that(1) \<open>w \<in> _\<close> that(2)] .
    then have "wt_id w \<notin> fst ` set ?s" using that(2) by (auto simp: worktree_siblings_def)
    then show ?thesis using rank_writes_ids [of ?s i before] by (auto simp: new(1) map_of_eq_None_iff)
  qed
  moreover have "filter Q (map g xs) = filter Q xs"
    if "\<And>x. x \<in> set xs \<Longrightarrow> Q x \<Longrightarrow> g x = x" "\<And>x. Q (g x) = Q x" for Q g and xs :: "worktree_row list"
    using that by (induction xs) auto
  ultimately show "filter (\<lambda>w. wt_project w \<noteq> p \<or> wt_path w = ?root) (rows (worktrees db')) =
      filter (\<lambda>w. wt_project w \<noteq> p \<or> wt_path w = ?root) (rows (worktrees db))"
    by (auto simp: db' split: option.split)
qed

text \<open>What Git reports is appended; the worktrees that are known keep their places.\<close>

definition worktree_order :: "nat \<Rightarrow> 'a project_db_scheme \<Rightarrow> nat list" where
  "worktree_order p db =
     in_rank_order (map (\<lambda>w. (wt_id w, wt_sort w)) (filter (\<lambda>w. wt_project w = p) (rows (worktrees db))))"

lemma reconcile_loop_order:
  assumes "projects_ok db" and "reconcile_loop now p next_order added ds db = Some (added', db')"
    and "\<And>n w. next_order = Some n \<Longrightarrow> w \<in> set (rows (worktrees db)) \<Longrightarrow> wt_project w = p \<Longrightarrow> wt_sort w < n"
  shows "\<exists>new. added' = added @ new \<and> worktree_order p db' = worktree_order p db @ map fst new"
  using assms
proof (induction now p next_order added ds db rule: reconcile_loop.induct)
  case (1 now p next_order added db)
  then show ?case by simp
next
  case (2 now p next_order added d ds db)
  show ?case
  proof (cases "find_project_worktree_by_path db p (dw_path d)")
    case (Some w)
    let ?g = "\<lambda>r. r\<lparr>wt_branch := dw_branch d, wt_head := dw_head d, wt_updated := now, wt_last_seen := Some now\<rparr>"
    let ?db = "db\<lparr>worktrees := tab_update wt_id (wt_id w) ?g (worktrees db)\<rparr>"
    have "map f (filter P (map (\<lambda>r. if wt_id r = i then ?g r else r) rs)) = map f (filter P rs)"
      if "\<And>r. f (?g r) = f r" "\<And>r. P (?g r) = P r" for f :: "worktree_row \<Rightarrow> nat \<times> int" and P i rs
      using that by (induction rs) auto
    then have "worktree_order p ?db = worktree_order p db"
      by (simp add: worktree_order_def tab_update_def)
    moreover have "projects_ok ?db" using 2(3) by (simp add: projects_ok_worktrees_updated)
    moreover have "reconcile_loop now p next_order added ds ?db = Some (added', db')" using 2(4) Some by simp
    ultimately show ?thesis using 2(2) [OF Some] 2(5) by (force simp: tab_update_def)
  next
    case None
    let ?rank = "case next_order of Some n \<Rightarrow> n | None \<Rightarrow> next_project_worktree_order (worktrees db) p"
    from 2(4) None obtain w db1 where ins: "insert_worktree now p d ?rank db = Some (w, db1)"
      and rest: "reconcile_loop now p (Some (?rank + 1)) (added @ [summary_of w]) ds db1 = Some (added', db')"
      by (auto simp: Let_def split: option.splits)
    note in1 = projects_ok_inserted [OF 2(3) ins]
    have below: "wt_sort x < ?rank" if "x \<in> set (rows (worktrees db))" "wt_project x = p" for x
      using that 2(5) next_rank_above [of "wt_sort x"]
      by (auto simp: next_project_worktree_order_def split: option.split)
    then have "in_rank_order (map (\<lambda>w. (wt_id w, wt_sort w)) (filter (\<lambda>w. wt_project w = p) (rows (worktrees db)))
        @ (wt_id w, ?rank) # []) = worktree_order p db @ [wt_id w]"
      unfolding worktree_order_def by (subst order_appended) auto
    then have "worktree_order p db1 = worktree_order p db @ [wt_id w]"
      using in1 by (simp add: worktree_order_def)
    moreover have "\<exists>new. added' = (added @ [summary_of w]) @ new \<and> worktree_order p db' = worktree_order p db1 @ map fst new"
      using in1 below by (intro 2(1) [OF None refl ins refl _ rest]) force+
    ultimately show ?thesis by (auto simp: summary_of_def)
  qed
qed

lemma reconcile_appends:
  assumes "projects_ok db" and "reconcile_project_worktrees now p ds db = Some (added, missing, db')"
  shows "worktree_order p db' = worktree_order p db @ map fst added"
proof -
  from assms(2) have "reconcile_loop now p None [] ds db = Some (added, db')"
    by (auto simp: reconcile_project_worktrees_def Let_def split: option.splits)
  from reconcile_loop_order [OF assms(1) this] show ?thesis by simp
qed

section \<open>Reachable projects\<close>

lemma projects_ok_reachable: "projects_ok (after_actions acts)"
proof (induction acts rule: rev_induct)
  case Nil
  then show ?case by (simp add: after_actions_def no_projects_def projects_ok_def tab_wf_def tab_empty_def)
next
  case (snoc a acts)
  then show ?case by (cases a) (simp add: after_actions_def projects_ok_act)
qed


end
