(* ===== verification/Pane_Layout.thy ===== *)
theory Pane_Layout
  imports Complex_Main Prelude "HOL-Library.Sublist" "HOL-Library.Multiset"
begin

text \<open>
  How a surface arranges its panes, \<^verbatim>\<open>environment/surfaces/layout.ts\<close>: a tree of splits with a
  weight per child. Weights are rationals rounded to millionths as the code rounds them, without
  the error of floating point; the JSON they are stored in has no other numbers.
\<close>

section \<open>Layouts\<close>

datatype axis = RowAxis | ColumnAxis

datatype sizing = AutoSizing | ManualSizing

datatype layout =
    Leaf (node_id: string) nat bool
  | Split (node_id: string) axis sizing "layout list" "rat list"

datatype direction = SplitLeft | SplitRight | SplitUp | SplitDown

datatype insert_side = Before | After

definition axis_for_direction :: "direction \<Rightarrow> axis" where
  "axis_for_direction d = (if d = SplitLeft \<or> d = SplitRight then RowAxis else ColumnAxis)"

definition side_for_direction :: "direction \<Rightarrow> insert_side" where
  "side_for_direction d = (if d = SplitRight \<or> d = SplitDown then After else Before)"

definition leaf_for_pane :: "nat \<Rightarrow> layout" where
  "leaf_for_pane p = Leaf (''pane-'' @ nat_text p) p False"

fun layout_contains_pane :: "layout \<Rightarrow> nat \<Rightarrow> bool" where
  "layout_contains_pane (Leaf n q c) p = (q = p)"
| "layout_contains_pane (Split n a z cs ws) p = list_ex (\<lambda>c. layout_contains_pane c p) cs"

section \<open>Weights\<close>

definition round_weight :: "rat \<Rightarrow> rat" where
  "round_weight w = of_int \<lfloor>w * 1000000 + 1 / 2\<rfloor> / 1000000"

definition equal_weights :: "nat \<Rightarrow> rat list" where
  "equal_weights n =
     (let ws = replicate n (round_weight (1 / of_nat n));
          delta = round_weight (1 - sum_list ws) in
      ws[n - 1 := round_weight (ws ! (n - 1) + delta)])"

text \<open>The index of the first largest weight.\<close>

definition largest_index :: "rat list \<Rightarrow> nat" where
  "largest_index ws = fold (\<lambda>i largest. if ws ! i > ws ! largest then i else largest) [0..<length ws] 0"

definition normalize_weights :: "rat list \<Rightarrow> rat list" where
  "normalize_weights ws =
     (let clean = map (\<lambda>w. if 0 < w then w else 0) ws;
          total = sum_list clean in
      if total \<le> 0 then equal_weights (length clean)
      else
        let normalized = map (\<lambda>w. round_weight (w / total)) clean;
            delta = round_weight (1 - sum_list normalized);
            i = largest_index normalized in
        normalized[i := round_weight (normalized ! i + delta)])"

section \<open>Removing a pane\<close>

definition weight_of_first :: "rat list \<Rightarrow> rat" where
  "weight_of_first ws = (case ws of [] \<Rightarrow> 0 | w # rest \<Rightarrow> w)"

text \<open>\<open>prune_children\<close> is the loop over the children, with the weights of those that stay.\<close>

fun prune_pane_from_layout :: "nat \<Rightarrow> layout \<Rightarrow> layout option"
  and prune_children :: "nat \<Rightarrow> layout list \<Rightarrow> rat list \<Rightarrow> layout list \<times> rat list" where
  "prune_pane_from_layout p (Leaf n q c) = (if q = p then None else Some (Leaf n q c))"
| "prune_pane_from_layout p (Split n a z cs ws) =
     (case prune_children p cs ws of
        ([], vs) \<Rightarrow> None
      | ([c], vs) \<Rightarrow> Some c
      | (cs', vs) \<Rightarrow> Some (Split n a z cs' (normalize_weights vs)))"
| "prune_children p [] ws = ([], [])"
| "prune_children p (c # cs) ws =
     (let rest = prune_children p cs (tl ws) in
      case prune_pane_from_layout p c of
        None \<Rightarrow> rest
      | Some c' \<Rightarrow> (c' # fst rest, weight_of_first ws # snd rest))"

section \<open>Splitting a pane\<close>

definition beside :: "insert_side \<Rightarrow> 'a \<Rightarrow> 'a \<Rightarrow> 'a list" where
  "beside side old new = (if side = After then [old, new] else [new, old])"

definition leaf_of :: "nat \<Rightarrow> layout \<Rightarrow> bool" where
  "leaf_of p c = (case c of Leaf n q b \<Rightarrow> q = p | Split n a z cs ws \<Rightarrow> False)"

text \<open>
  \<open>insert_children\<close> is the loop over a split's children; it says whether the new leaf became a child
  of this very split, whose weights are then made equal.
\<close>

fun insert_into_node :: "nat \<Rightarrow> nat \<Rightarrow> axis \<Rightarrow> insert_side \<Rightarrow> layout \<Rightarrow> layout option"
  and insert_children ::
    "nat \<Rightarrow> nat \<Rightarrow> axis \<Rightarrow> insert_side \<Rightarrow> axis \<Rightarrow> layout list \<Rightarrow> (bool \<times> layout list) option" where
  "insert_into_node src new axis side (Leaf n q c) =
     (if q \<noteq> src then None
      else Some (Split (''split-'' @ nat_text new) axis ManualSizing
             (beside side (Leaf n q c) (leaf_for_pane new)) [1 / 2, 1 / 2]))"
| "insert_into_node src new axis side (Split n a z cs ws) =
     (case insert_children src new axis side a cs of
        None \<Rightarrow> None
      | Some (here, cs') \<Rightarrow>
          Some (Split n a z cs' (if here then equal_weights (length cs') else ws)))"
| "insert_children src new axis side a [] = None"
| "insert_children src new axis side a (c # cs) =
     (if leaf_of src c \<and> a = axis then Some (True, beside side c (leaf_for_pane new) @ cs)
      else case insert_into_node src new axis side c of
             Some c' \<Rightarrow> Some (False, c' # cs)
           | None \<Rightarrow>
               (case insert_children src new axis side a cs of
                  None \<Rightarrow> None
                | Some (here, cs') \<Rightarrow> Some (here, c # cs')))"

definition insert_pane_into_layout :: "layout \<Rightarrow> nat \<Rightarrow> nat \<Rightarrow> direction \<Rightarrow> layout" where
  "insert_pane_into_layout l src new d =
     (case insert_into_node src new (axis_for_direction d) (side_for_direction d) l of
        Some l' \<Rightarrow> l'
      | None \<Rightarrow> l)"

section \<open>Resizing a split\<close>

fun set_node_weights :: "string \<Rightarrow> rat list \<Rightarrow> layout \<Rightarrow> layout option"
  and set_weights_of_children :: "string \<Rightarrow> rat list \<Rightarrow> layout list \<Rightarrow> layout list option" where
  "set_node_weights i vs (Leaf n q c) = None"
| "set_node_weights i vs (Split n a z cs ws) =
     (if n = i then
        if length vs \<noteq> length cs then None else Some (Split n a ManualSizing cs (normalize_weights vs))
      else map_option (\<lambda>cs'. Split n a z cs' ws) (set_weights_of_children i vs cs))"
| "set_weights_of_children i vs [] = None"
| "set_weights_of_children i vs (c # cs) =
     (case set_node_weights i vs c of
        Some c' \<Rightarrow> Some (c' # cs)
      | None \<Rightarrow> map_option (\<lambda>cs'. c # cs') (set_weights_of_children i vs cs))"

section \<open>Weights add up\<close>

definition millionths :: "rat \<Rightarrow> bool" where
  "millionths w = (\<exists>k. w = of_int k / 1000000)"

lemma round_weight_millionths: "millionths (round_weight w)"
  by (auto simp: millionths_def round_weight_def)

lemma round_weight_id:
  assumes "millionths w"
  shows "round_weight w = w"
proof -
  obtain k where k: "w = of_int k / 1000000" using assms by (auto simp: millionths_def)
  have "\<lfloor>(of_int k :: rat) + 1 / 2\<rfloor> = k" by (simp add: floor_eq_iff)
  then show ?thesis by (simp add: round_weight_def k)
qed

lemma millionths_add: "millionths a \<Longrightarrow> millionths b \<Longrightarrow> millionths (a + b)"
  unfolding millionths_def by (metis add_divide_distrib of_int_add)

lemma millionths_one_minus: "millionths a \<Longrightarrow> millionths (1 - a)"
proof -
  assume "millionths a"
  then obtain k where "a = of_int k / 1000000" by (auto simp: millionths_def)
  then have "1 - a = of_int (1000000 - k) / 1000000" by (simp add: diff_divide_distrib)
  then show ?thesis unfolding millionths_def by blast
qed

lemma millionths_sum: "(\<And>w. w \<in> set ws \<Longrightarrow> millionths w) \<Longrightarrow> millionths (sum_list ws)"
proof (induction ws)
  case Nil
  then show ?case by (auto simp: millionths_def intro: exI [of _ 0])
next
  case (Cons w ws)
  then show ?case by (auto intro: millionths_add)
qed

lemma sum_list_nudged: "i < length ws \<Longrightarrow> sum_list (ws[i := ws ! i + d]) = sum_list ws + (d :: rat)"
  by (induction ws arbitrary: i) (auto split: nat.split)

text \<open>The rounding error is added to one of the weights, so that they add up to one exactly.\<close>

lemma nudged_sum:
  assumes "\<And>w. w \<in> set ws \<Longrightarrow> millionths w" and "i < length ws"
  shows "sum_list (ws[i := round_weight (ws ! i + round_weight (1 - sum_list ws))]) = 1"
proof -
  have d: "round_weight (1 - sum_list ws) = 1 - sum_list ws"
    by (intro round_weight_id millionths_one_minus millionths_sum assms(1))
  have "millionths (ws ! i + (1 - sum_list ws))"
    using assms by (intro millionths_add millionths_one_minus millionths_sum) auto
  then show ?thesis using assms(2) by (simp add: d round_weight_id sum_list_nudged)
qed

lemma equal_weights_sum: "0 < n \<Longrightarrow> sum_list (equal_weights n) = 1"
  unfolding equal_weights_def Let_def by (intro nudged_sum) (auto simp: round_weight_millionths)

lemma length_equal_weights [simp]: "length (equal_weights n) = n"
  by (simp add: equal_weights_def Let_def)

lemma largest_index_less:
  assumes "ws \<noteq> []"
  shows "largest_index ws < length ws"
proof -
  have below: "fold (\<lambda>i l. if ws ! i > ws ! l then i else l) js l < length ws"
    if "l < length ws" "set js \<subseteq> {..<length ws}" for js l
    using that by (induction js arbitrary: l) auto
  show ?thesis using below [of 0 "[0..<length ws]"] assms by (simp add: largest_index_def atLeast0LessThan)
qed

lemma length_normalize_weights [simp]: "length (normalize_weights ws) = length ws"
  by (simp add: normalize_weights_def Let_def)

lemma normalize_weights_sum:
  assumes "ws \<noteq> []"
  shows "sum_list (normalize_weights ws) = 1"
proof -
  let ?n = "map (\<lambda>w. round_weight (w / sum_list (map (\<lambda>w. if 0 < w then w else 0) ws)))
              (map (\<lambda>w. if 0 < w then w else 0) ws)"
  have "sum_list (?n[largest_index ?n :=
      round_weight (?n ! largest_index ?n + round_weight (1 - sum_list ?n))]) = 1"
    using assms by (intro nudged_sum largest_index_less) (auto simp: round_weight_millionths)
  then show ?thesis
    using assms by (auto simp: normalize_weights_def Let_def intro: equal_weights_sum)
qed

section \<open>What a layout places\<close>

fun panes_of :: "layout \<Rightarrow> nat list" where
  "panes_of (Leaf n p c) = [p]"
| "panes_of (Split n a z cs ws) = concat (map panes_of cs)"

fun node_ids :: "layout \<Rightarrow> string list" where
  "node_ids (Leaf n p c) = [n]"
| "node_ids (Split n a z cs ws) = n # concat (map node_ids cs)"

text \<open>Every split has two children at least and one weight for each, which add up to one.\<close>

fun wf_layout :: "layout \<Rightarrow> bool" where
  "wf_layout (Leaf n p c) = True"
| "wf_layout (Split n a z cs ws) =
     (2 \<le> length cs \<and> length ws = length cs \<and> sum_list ws = 1 \<and> list_all wf_layout cs)"

named_theorems layout_simps \<open>what the operations on layouts place\<close>

lemma panes_nonempty: "wf_layout l \<Longrightarrow> panes_of l \<noteq> []"
proof (induction l)
  case (Split n a z cs ws)
  then obtain c where "c \<in> set cs" by (cases cs) auto
  then show ?case using Split by (auto simp: list_all_iff)
qed simp

lemma layout_contains_pane_iff [layout_simps]: "layout_contains_pane l p \<longleftrightarrow> p \<in> set (panes_of l)"
  by (induction l) (auto simp: list_ex_iff)

lemma leaf_for_pane_simps [layout_simps]:
  "panes_of (leaf_for_pane p) = [p]" "wf_layout (leaf_for_pane p)"
  "node_ids (leaf_for_pane p) = [''pane-'' @ nat_text p]"
  by (simp_all add: leaf_for_pane_def)

text \<open>Removing a pane leaves the other ones, in their order.\<close>

lemma prune_lengths: "length (fst (prune_children p cs ws)) = length (snd (prune_children p cs ws))"
  by (induction cs arbitrary: ws) (auto simp: Let_def split: option.split)

lemma prune_places:
  "wf_layout l \<Longrightarrow>
     (case prune_pane_from_layout p l of
        None \<Rightarrow> filter (\<lambda>q. q \<noteq> p) (panes_of l) = []
      | Some l' \<Rightarrow> wf_layout l' \<and> panes_of l' = filter (\<lambda>q. q \<noteq> p) (panes_of l) \<and>
          subseq (node_ids l') (node_ids l))"
  "list_all wf_layout cs \<Longrightarrow>
     list_all wf_layout (fst (prune_children p cs ws)) \<and>
     concat (map panes_of (fst (prune_children p cs ws))) =
       filter (\<lambda>q. q \<noteq> p) (concat (map panes_of cs)) \<and>
     subseq (concat (map node_ids (fst (prune_children p cs ws)))) (concat (map node_ids cs))"
proof (induction p l and p cs ws rule: prune_pane_from_layout_prune_children.induct)
  case (2 p n a z cs ws)
  let ?r = "prune_children p cs ws"
  have ih: "list_all wf_layout (fst ?r)"
    "concat (map panes_of (fst ?r)) = filter (\<lambda>q. q \<noteq> p) (concat (map panes_of cs))"
    "subseq (concat (map node_ids (fst ?r))) (concat (map node_ids cs))"
    using 2 by auto
  show ?case
  proof (cases "fst ?r")
    case Nil
    then show ?thesis using ih by (cases ?r) (simp add: filter_concat)
  next
    case (Cons c rest)
    show ?thesis
    proof (cases rest)
      case Nil
      then show ?thesis using ih Cons by (cases ?r) (auto simp: filter_concat)
    next
      case (Cons d ds)
      then have "2 \<le> length (fst ?r)" using \<open>fst ?r = c # rest\<close> by simp
      then have "snd ?r \<noteq> []" using prune_lengths [of p cs ws] by auto
      then show ?thesis
        using ih Cons \<open>fst ?r = c # rest\<close> prune_lengths [of p cs ws] normalize_weights_sum [of "snd ?r"]
        by (cases ?r) (auto simp: filter_concat)
    qed
  qed
next
  case (4 p c cs ws)
  then show ?case
    by (auto simp: Let_def list_emb_append_mono split: option.splits)
qed auto

text \<open>Splitting a pane puts the new one directly before or after it.\<close>

fun insert_beside :: "insert_side \<Rightarrow> 'a \<Rightarrow> 'a \<Rightarrow> 'a list \<Rightarrow> 'a list" where
  "insert_beside side x y [] = []"
| "insert_beside side x y (z # zs) =
     (if z = x then beside side x y @ zs else z # insert_beside side x y zs)"

lemma insert_beside_here: "x \<in> set xs \<Longrightarrow> insert_beside side x y (xs @ ys) = insert_beside side x y xs @ ys"
  by (induction xs) auto

lemma insert_beside_later: "x \<notin> set xs \<Longrightarrow> insert_beside side x y (xs @ ys) = xs @ insert_beside side x y ys"
  by (induction xs) auto

lemma set_insert_beside: "x \<in> set xs \<Longrightarrow> set (insert_beside side x y xs) = insert y (set xs)"
  by (induction xs) (auto simp: beside_def)

lemma mset_insert_beside: "x \<in> set xs \<Longrightarrow> mset (insert_beside side x y xs) = add_mset y (mset xs)"
  by (induction xs) (auto simp: beside_def)

lemma distinct_insert_beside:
  "distinct xs \<Longrightarrow> x \<in> set xs \<Longrightarrow> y \<notin> set xs \<Longrightarrow> distinct (insert_beside side x y xs)"
  using mset_eq_imp_distinct_iff [of "insert_beside side x y xs" "y # xs"] by (simp add: mset_insert_beside)

lemma leaf_of_iff: "leaf_of p c \<longleftrightarrow> (\<exists>n b. c = Leaf n p b)"
  by (auto simp: leaf_of_def split: layout.split)

lemma panes_of_beside [simp]:
  "concat (map panes_of (beside side (Leaf n p b) (leaf_for_pane new))) = beside side p new"
  by (simp add: beside_def leaf_for_pane_def)

lemma list_all_beside [simp]: "list_all P (beside side a b) \<longleftrightarrow> P a \<and> P b"
  by (auto simp: beside_def)

lemma length_beside [simp]: "length (beside side a b) = 2"
  by (simp add: beside_def)

lemma insert_finds:
  "insert_into_node src new axis side l = None \<longleftrightarrow> src \<notin> set (panes_of l)"
  "insert_children src new axis side a cs = None \<longleftrightarrow> src \<notin> set (concat (map panes_of cs))"
proof (induction src new axis side l and src new axis side a cs
    rule: insert_into_node_insert_children.induct)
  case (4 src new axis side a c cs)
  show ?case
  proof (cases "leaf_of src c \<and> a = axis")
    case True
    then show ?thesis by (auto simp: leaf_of_iff)
  next
    case False
    then show ?thesis using 4 by (cases "insert_into_node src new axis side c") (auto split: option.splits)
  qed
qed (auto split: option.splits)

lemma insert_places:
  "wf_layout l \<Longrightarrow> insert_into_node src new axis side l = Some l' \<Longrightarrow>
     wf_layout l' \<and> panes_of l' = insert_beside side src new (panes_of l)"
  "list_all wf_layout cs \<Longrightarrow> insert_children src new axis side a cs = Some (here, cs') \<Longrightarrow>
     list_all wf_layout cs' \<and> length cs' = (if here then Suc (length cs) else length cs) \<and>
     concat (map panes_of cs') = insert_beside side src new (concat (map panes_of cs))"
proof (induction src new axis side l and src new axis side a cs arbitrary: l' and here cs'
    rule: insert_into_node_insert_children.induct)
  case (1 src new axis side n q c)
  then show ?case by (auto simp: layout_simps split: if_splits)
next
  case (2 src new axis side n a z cs ws)
  then obtain here cs' where r: "insert_children src new axis side a cs = Some (here, cs')"
    "l' = Split n a z cs' (if here then equal_weights (length cs') else ws)"
    by (auto split: option.splits)
  have "list_all wf_layout cs' \<and> length cs' = (if here then Suc (length cs) else length cs) \<and>
     concat (map panes_of cs') = insert_beside side src new (concat (map panes_of cs))"
    using 2 r(1) by simp
  moreover have "sum_list (equal_weights (length cs')) = 1" if here
    using calculation that by (intro equal_weights_sum) simp
  ultimately show ?case using 2(2) by (cases here) (simp_all add: r(2))
next
  case (3 src new axis side a)
  then show ?case by simp
next
  case (4 src new axis side a c cs)
  consider (same) n b where "c = Leaf n src b" "here" "cs' = beside side c (leaf_for_pane new) @ cs"
    | (inside) c' where "\<not> (leaf_of src c \<and> a = axis)" "insert_into_node src new axis side c = Some c'"
        "\<not> here" "cs' = c' # cs"
    | (later) cs'' where "\<not> (leaf_of src c \<and> a = axis)" "insert_into_node src new axis side c = None"
        "insert_children src new axis side a cs = Some (here, cs'')" "cs' = c # cs''"
    using 4(4) by (auto simp: leaf_of_iff split: if_splits option.splits)
  then show ?case
  proof cases
    case same
    then show ?thesis using 4(3) by (simp add: layout_simps)
  next
    case inside
    then have "src \<in> set (panes_of c)" using insert_finds(1) [of src new axis side c] by auto
    then show ?thesis
      using 4(1) [OF inside(1) _ inside(2)] 4(3) by (simp add: inside insert_beside_here)
  next
    case later
    then have "src \<notin> set (panes_of c)" using insert_finds(1) by blast
    then show ?thesis
      using 4(2) [OF later(1,2) _ later(3)] 4(3) by (simp add: later(4) insert_beside_later)
  qed
qed

text \<open>The nodes of the new layout: the old ones, the new leaf, and a new split if there is one.\<close>

lemma insert_nodes:
  "insert_into_node src new axis side l = Some l' \<Longrightarrow>
     mset (node_ids l') = mset (node_ids l) + {#''pane-'' @ nat_text new#} \<or>
     mset (node_ids l') = mset (node_ids l) + {#''pane-'' @ nat_text new, ''split-'' @ nat_text new#}"
  "insert_children src new axis side a cs = Some (here, cs') \<Longrightarrow>
     mset (concat (map node_ids cs')) = mset (concat (map node_ids cs)) + {#''pane-'' @ nat_text new#} \<or>
     mset (concat (map node_ids cs')) = mset (concat (map node_ids cs))
       + {#''pane-'' @ nat_text new, ''split-'' @ nat_text new#}"
proof (induction src new axis side l and src new axis side a cs arbitrary: l' and here cs'
    rule: insert_into_node_insert_children.induct)
  case (1 src new axis side n q c)
  then show ?case by (auto simp: beside_def layout_simps split: if_splits)
next
  case (2 src new axis side n a z cs ws)
  then obtain here cs' where r: "insert_children src new axis side a cs = Some (here, cs')"
    "node_ids l' = n # concat (map node_ids cs')"
    by (auto split: option.splits)
  from 2(1) [OF r(1)] show ?case by (auto simp: r(2))
next
  case (3 src new axis side a)
  then show ?case by simp
next
  case (4 src new axis side a c cs)
  consider (same) "leaf_of src c" "a = axis" "cs' = beside side c (leaf_for_pane new) @ cs"
    | (inside) c' where "\<not> (leaf_of src c \<and> a = axis)" "insert_into_node src new axis side c = Some c'"
        "cs' = c' # cs"
    | (later) cs'' where "\<not> (leaf_of src c \<and> a = axis)" "insert_into_node src new axis side c = None"
        "insert_children src new axis side a cs = Some (here, cs'')" "cs' = c # cs''"
    using 4(3) by (auto split: if_splits option.splits)
  then show ?case
  proof cases
    case same
    then show ?thesis by (simp add: beside_def layout_simps)
  next
    case inside
    from 4(1) [OF inside(1,2)] show ?thesis by (auto simp: inside(3))
  next
    case later
    from 4(2) [OF later(1-3)] show ?thesis by (auto simp: later(4))
  qed
qed

section \<open>Resizing\<close>

lemma set_node_weights_places:
  "wf_layout l \<Longrightarrow> set_node_weights i vs l = Some l' \<Longrightarrow>
     wf_layout l' \<and> panes_of l' = panes_of l \<and> node_ids l' = node_ids l"
  "list_all wf_layout cs \<Longrightarrow> set_weights_of_children i vs cs = Some cs' \<Longrightarrow>
     list_all wf_layout cs' \<and> length cs' = length cs \<and> map panes_of cs' = map panes_of cs \<and>
     map node_ids cs' = map node_ids cs"
proof (induction i vs l and i vs cs arbitrary: l' and cs'
    rule: set_node_weights_set_weights_of_children.induct)
  case (2 i vs n a z cs ws)
  then show ?case
    by (cases "n = i") (auto split: if_splits intro!: normalize_weights_sum)
next
  case (4 i vs c cs)
  then show ?case by (auto split: option.splits)
qed auto

end
