(* ===== verification/Surfaces.thy ===== *)
theory Surfaces
  imports Project_Order Pane_Layout
begin

text \<open>
  The surfaces of the worktrees, \<^verbatim>\<open>environment/surfaces\<close>: the rows of \<^verbatim>\<open>environment/tables.ts\<close>, the
  transactions of \<^verbatim>\<open>repository.ts\<close>, and the checks \<^verbatim>\<open>service.ts\<close> makes before them. A surface
  arranges panes by its layout, a pane shows a session, and each worktree remembers the surface and
  the pane that have the focus. The JSON of \<open>layout_json\<close> is its value (null is \<open>None\<close>); of a session
  the columns nothing here reads (working directory, harness, command line) are left out. Times are
  numbers; \<open>now\<close> is what a transaction reads.
\<close>

section \<open>Rows\<close>

datatype session_kind = AgentKind | TerminalKind | EditorKind

record stored_surface =
  su_id :: nat
  su_worktree :: nat
  su_title :: string
  su_layout :: "layout option"
  su_sort :: int
  su_created :: nat
  su_updated :: nat

record stored_pane =
  pn_id :: nat
  pn_surface :: nat
  pn_title :: string
  pn_sort :: int
  pn_kind :: "session_kind option"
  pn_session :: "nat option"
  pn_created :: nat
  pn_updated :: nat

record stored_focus =
  fo_id :: nat
  fo_worktree :: nat
  fo_surface :: "nat option"
  fo_pane :: "nat option"
  fo_created :: nat
  fo_updated :: nat

record stored_session =
  se_id :: nat
  se_worktree :: nat
  se_process :: "nat option"
  se_created :: nat
  se_updated :: nat

record env_db = project_db +
  surfaces :: "stored_surface table"
  panes :: "stored_pane table"
  focuses :: "stored_focus table"
  agent_sessions :: "stored_session table"
  terminal_sessions :: "stored_session table"
  editor_contexts :: "stored_session table"

definition session_table :: "session_kind \<Rightarrow> env_db \<Rightarrow> stored_session table" where
  "session_table k db =
     (case k of AgentKind \<Rightarrow> agent_sessions db | TerminalKind \<Rightarrow> terminal_sessions db
      | EditorKind \<Rightarrow> editor_contexts db)"

definition set_session_table :: "session_kind \<Rightarrow> stored_session table \<Rightarrow> env_db \<Rightarrow> env_db" where
  "set_session_table k t db =
     (case k of AgentKind \<Rightarrow> db\<lparr>agent_sessions := t\<rparr> | TerminalKind \<Rightarrow> db\<lparr>terminal_sessions := t\<rparr>
      | EditorKind \<Rightarrow> db\<lparr>editor_contexts := t\<rparr>)"

text \<open>
  What the schema does when rows others refer to are deleted: surfaces, sessions and focus go with
  their worktree, panes with their surface, and a focus on a surface or a pane that is gone becomes
  null. A pane's session has no foreign key.
\<close>

definition still_there :: "nat list \<Rightarrow> nat option \<Rightarrow> nat option" where
  "still_there ids x = (case x of None \<Rightarrow> None | Some i \<Rightarrow> if i \<in> set ids then Some i else None)"

definition clear_gone :: "nat list \<Rightarrow> nat list \<Rightarrow> stored_focus \<Rightarrow> stored_focus" where
  "clear_gone ss ps f = f\<lparr>fo_surface := still_there ss (fo_surface f), fo_pane := still_there ps (fo_pane f)\<rparr>"

definition cascade :: "env_db \<Rightarrow> env_db" where
  "cascade db =
     (let has_worktree = (\<lambda>w. w \<in> set (map wt_id (rows (worktrees db))));
          ss = tab_keep (\<lambda>s. has_worktree (su_worktree s)) (surfaces db);
          ps = tab_keep (\<lambda>p. pn_surface p \<in> set (map su_id (rows ss))) (panes db);
          fs = tab_keep (\<lambda>f. has_worktree (fo_worktree f)) (focuses db)
      in db\<lparr>surfaces := ss, panes := ps,
            focuses := fs\<lparr>rows := map (clear_gone (map su_id (rows ss)) (map pn_id (rows ps))) (rows fs)\<rparr>,
            agent_sessions := tab_keep (\<lambda>s. has_worktree (se_worktree s)) (agent_sessions db),
            terminal_sessions := tab_keep (\<lambda>s. has_worktree (se_worktree s)) (terminal_sessions db),
            editor_contexts := tab_keep (\<lambda>s. has_worktree (se_worktree s)) (editor_contexts db)\<rparr>)"

section \<open>Reads\<close>

definition worktree_exists :: "env_db \<Rightarrow> nat \<Rightarrow> bool" where
  "worktree_exists db w = (find_worktree db w \<noteq> None)"

definition find_surface :: "env_db \<Rightarrow> nat \<Rightarrow> stored_surface option" where
  "find_surface db s = tab_get su_id (surfaces db) s"

definition find_pane :: "env_db \<Rightarrow> nat \<Rightarrow> stored_pane option" where
  "find_pane db p = tab_get pn_id (panes db) p"

definition find_worktree_path :: "env_db \<Rightarrow> nat \<Rightarrow> string option" where
  "find_worktree_path db w = map_option wt_path (find_worktree db w)"

definition find_environment_focus :: "env_db \<Rightarrow> nat \<Rightarrow> stored_focus option" where
  "find_environment_focus db w = find (\<lambda>f. fo_worktree f = w) (rows (focuses db))"

definition surface_panes :: "env_db \<Rightarrow> nat \<Rightarrow> stored_pane list" where
  "surface_panes db s = filter (\<lambda>p. pn_surface p = s) (rows (panes db))"

definition list_panes_for_surface :: "env_db \<Rightarrow> nat \<Rightarrow> stored_pane list" where
  "list_panes_for_surface db s = sort_key pn_sort (surface_panes db s)"

definition find_pane_for_session :: "env_db \<Rightarrow> session_kind \<Rightarrow> nat \<Rightarrow> (nat \<times> nat \<times> nat) option" where
  "find_pane_for_session db k i =
     (case List.map_filter (\<lambda>p.
          if pn_kind p = Some k \<and> pn_session p = Some i
          then map_option (\<lambda>s. (su_worktree s, pn_surface p, pn_id p)) (find_surface db (pn_surface p))
          else None) (rows (panes db)) of
        [] \<Rightarrow> None
      | found # others \<Rightarrow> Some found)"

text \<open>The sessions that own a process, as the restart reads them; an editor is none of them.\<close>

definition list_pane_session_bindings :: "env_db \<Rightarrow> (nat \<times> session_kind \<times> nat \<times> nat option) list" where
  "list_pane_session_bindings db =
     List.map_filter (\<lambda>p. case (pn_kind p, pn_session p) of
          (Some AgentKind, Some i) \<Rightarrow>
            Some (pn_id p, AgentKind, i, Option.bind (tab_get se_id (agent_sessions db) i) se_process)
        | (Some TerminalKind, Some i) \<Rightarrow>
            Some (pn_id p, TerminalKind, i, Option.bind (tab_get se_id (terminal_sessions db) i) se_process)
        | (k, i) \<Rightarrow> None) (rows (panes db))"

definition active_pane_for_surface :: "nat \<Rightarrow> stored_pane list \<Rightarrow> stored_focus option \<Rightarrow> nat option" where
  "active_pane_for_surface s ps focus =
     (case focus of
        None \<Rightarrow> None
      | Some f \<Rightarrow>
          if fo_surface f \<noteq> Some s then None
          else case fo_pane f of
                 None \<Rightarrow> None
               | Some p \<Rightarrow> if list_ex (\<lambda>r. pn_id r = p) ps then Some p else None)"

section \<open>Titles\<close>

definition numbered :: "string \<Rightarrow> nat \<Rightarrow> string" where
  "numbered base n = base @ '' '' @ nat_text n"

function next_suffix :: "string list \<Rightarrow> string \<Rightarrow> nat \<Rightarrow> nat" where
  "next_suffix used base n = (if numbered base n \<in> set used then next_suffix used base (n + 1) else n)"
  by auto

text \<open>Every number tried uses up one of the titles there are.\<close>

lemma numbered_inj: "numbered base m = numbered base n \<Longrightarrow> m = n"
  by (auto simp: numbered_def dest: nat_text_inj)

termination next_suffix
proof (relation "measure (\<lambda>(used, base, n). card (set used \<inter> {numbered base m | m. n \<le> m}))")
  fix used base n
  assume "numbered base n \<in> set used"
  then have "set used \<inter> {numbered base m | m. n + 1 \<le> m} \<subset> set used \<inter> {numbered base m | m. n \<le> m}"
    using numbered_inj [of base n] by (intro psubsetI) (auto intro: Suc_leD simp: set_eq_iff, force)
  then show "((used, base, n + 1), (used, base, n))
      \<in> measure (\<lambda>(used, base, n). card (set used \<inter> {numbered base m | m. n \<le> m}))"
    by (simp add: psubset_card_mono)
qed simp

declare next_suffix.simps [simp del]

definition duplicate_safe_title :: "string \<Rightarrow> string list \<Rightarrow> string" where
  "duplicate_safe_title base existing =
     (if base \<notin> set existing then base else numbered base (next_suffix existing base 2))"

text \<open>The title is new, and the loop over suffixes ends.\<close>

lemma next_suffix_unused: "numbered base (next_suffix used base n) \<notin> set used"
  by (induction used base n rule: next_suffix.induct) (subst next_suffix.simps, simp)

lemma duplicate_safe_title_new: "duplicate_safe_title base existing \<notin> set existing"
  by (simp add: duplicate_safe_title_def next_suffix_unused)

section \<open>Refusals\<close>

datatype surface_code =
    SurfaceNotFound | WorktreeNotFound | PaneNotFound | SessionNotFound | SessionWorktreeMismatch
  | ProcessIncarnationStale | SessionAlreadyAttached | InvalidSurfaceTitle | LayoutNodeStale
  | SurfaceNotEmpty

datatype initial_rejection = SessionMissing | ForeignWorktree | AlreadyPlaced

text \<open>A refusal a caller handles, or a session that should not have been placed, which is a defect.\<close>

datatype placing_failure = SurfaceRefused surface_code | PlacedWrongly initial_rejection

definition reject_initial_session :: "env_db \<Rightarrow> nat \<Rightarrow> nat \<Rightarrow> initial_rejection option" where
  "reject_initial_session db w editor =
     (case tab_get se_id (editor_contexts db) editor of
        None \<Rightarrow> Some SessionMissing
      | Some context \<Rightarrow>
          if se_worktree context \<noteq> w then Some ForeignWorktree
          else if list_ex (\<lambda>p. pn_kind p = Some EditorKind \<and> pn_session p = Some editor) (rows (panes db))
               then Some AlreadyPlaced else None)"

section \<open>Writes inside a transaction\<close>

definition insert_empty_surface_row :: "nat \<Rightarrow> nat \<Rightarrow> string \<Rightarrow> env_db \<Rightarrow> (nat \<times> string) \<times> env_db" where
  "insert_empty_surface_row now w title_base db =
     (let existing = filter (\<lambda>s. su_worktree s = w) (rows (surfaces db));
          title = duplicate_safe_title title_base (map su_title existing);
          (s, t) = tab_insert (\<lambda>i. \<lparr>su_id = i, su_worktree = w, su_title = title, su_layout = None,
            su_sort = fold (\<lambda>x m. max m (su_sort x)) existing (-1) + 1, su_created = now,
            su_updated = now\<rparr>) (surfaces db)
      in ((su_id s, title), db\<lparr>surfaces := t\<rparr>))"

definition write_layout :: "nat \<Rightarrow> nat \<Rightarrow> layout option \<Rightarrow> env_db \<Rightarrow> env_db" where
  "write_layout now s l db =
     db\<lparr>surfaces := tab_update su_id s (\<lambda>r. r\<lparr>su_layout := l, su_updated := now\<rparr>) (surfaces db)\<rparr>"

text \<open>\<open>editor\<close> is the editor context that is bound with the pane, if any.\<close>

definition insert_root_pane_rows :: "nat \<Rightarrow> nat \<Rightarrow> string \<Rightarrow> nat option \<Rightarrow> env_db \<Rightarrow> nat \<times> env_db" where
  "insert_root_pane_rows now s title editor db =
     (let (p, t) = tab_insert (\<lambda>i. \<lparr>pn_id = i, pn_surface = s, pn_title = title, pn_sort = 0,
            pn_kind = map_option (\<lambda>e. EditorKind) editor, pn_session = editor, pn_created = now,
            pn_updated = now\<rparr>) (panes db)
      in (pn_id p, write_layout now s (Some (leaf_for_pane (pn_id p))) (db\<lparr>panes := t\<rparr>)))"

definition focus_surface_rows :: "nat \<Rightarrow> nat \<Rightarrow> nat option \<Rightarrow> nat option \<Rightarrow> env_db \<Rightarrow> env_db" where
  "focus_surface_rows now w s p db =
     (case find_environment_focus db w of
        Some f \<Rightarrow>
          db\<lparr>focuses := tab_update fo_id (fo_id f)
             (\<lambda>r. r\<lparr>fo_surface := s, fo_pane := p, fo_updated := now\<rparr>) (focuses db)\<rparr>
      | None \<Rightarrow>
          db\<lparr>focuses := snd (tab_insert (\<lambda>i. \<lparr>fo_id = i, fo_worktree = w, fo_surface = s, fo_pane = p,
             fo_created = now, fo_updated = now\<rparr>) (focuses db))\<rparr>)"

section \<open>Surfaces\<close>

definition create_single_pane_surface ::
  "nat \<Rightarrow> nat \<Rightarrow> string \<Rightarrow> nat option \<Rightarrow> env_db
     \<Rightarrow> placing_failure + (nat \<times> nat \<times> string) \<times> env_db" where
  "create_single_pane_surface now w title_base editor db =
     (if find_worktree db w = None then Inl (SurfaceRefused WorktreeNotFound)
      else
        case Option.bind editor (reject_initial_session db w) of
          Some rejected \<Rightarrow> Inl (PlacedWrongly rejected)
        | None \<Rightarrow>
            let ((s, title), db1) = insert_empty_surface_row now w title_base db;
                (p, db2) = insert_root_pane_rows now s title editor db1
            in Inr ((s, p, title), focus_surface_rows now w (Some s) (Some p) db2))"

definition create_empty_surface ::
  "nat \<Rightarrow> nat \<Rightarrow> string \<Rightarrow> env_db \<Rightarrow> surface_code + (nat \<times> string) \<times> env_db" where
  "create_empty_surface now w title_base db =
     (if find_worktree db w = None then Inl WorktreeNotFound
      else
        let ((s, title), db1) = insert_empty_surface_row now w title_base db
        in Inr ((s, title), focus_surface_rows now w (Some s) None db1))"

definition start_surface_pane ::
  "nat \<Rightarrow> nat \<Rightarrow> string \<Rightarrow> nat option \<Rightarrow> env_db \<Rightarrow> placing_failure + (nat \<times> nat) \<times> env_db" where
  "start_surface_pane now s title_base editor db =
     (case find_surface db s of
        None \<Rightarrow> Inl (SurfaceRefused SurfaceNotFound)
      | Some su \<Rightarrow>
          if surface_panes db s \<noteq> [] \<or> su_layout su \<noteq> None then Inl (SurfaceRefused SurfaceNotEmpty)
          else
            case Option.bind editor (reject_initial_session db (su_worktree su)) of
              Some rejected \<Rightarrow> Inl (PlacedWrongly rejected)
            | None \<Rightarrow>
                let (p, db1) = insert_root_pane_rows now s title_base editor db
                in Inr ((su_worktree su, p), focus_surface_rows now (su_worktree su) (Some s) (Some p) db1))"

definition split_surface_pane ::
  "nat \<Rightarrow> nat \<Rightarrow> nat \<Rightarrow> string \<Rightarrow> direction \<Rightarrow> env_db \<Rightarrow> ((nat \<times> string) \<times> env_db) option" where
  "split_surface_pane now s source title_base d db =
     (case find_surface db s of
        None \<Rightarrow> None
      | Some su \<Rightarrow>
          (case su_layout su of
             None \<Rightarrow> None
           | Some l \<Rightarrow>
               if \<not> layout_contains_pane l source then None
               else
                 let existing = surface_panes db s;
                     title = duplicate_safe_title title_base (map pn_title existing);
                     (p, t) = tab_insert (\<lambda>i. \<lparr>pn_id = i, pn_surface = s, pn_title = title,
                       pn_sort = fold (\<lambda>x m. max m (pn_sort x)) existing (-1) + 1, pn_kind = None,
                       pn_session = None, pn_created = now, pn_updated = now\<rparr>) (panes db)
                 in Some ((pn_id p, title),
                      write_layout now s (Some (insert_pane_into_layout l source (pn_id p) d)) (db\<lparr>panes := t\<rparr>))))"

definition rename_surface :: "nat \<Rightarrow> nat \<Rightarrow> string \<Rightarrow> env_db \<Rightarrow> env_db" where
  "rename_surface now s title db =
     db\<lparr>surfaces := tab_update su_id s (\<lambda>r. r\<lparr>su_title := title, su_updated := now\<rparr>) (surfaces db)\<rparr>"

definition delete_surface :: "nat \<Rightarrow> env_db \<Rightarrow> (nat option \<times> stored_pane list) \<times> env_db" where
  "delete_surface s db =
     (let deleted_panes = surface_panes db s in
      (if find_surface db s = None then (None, []) else (Some s, deleted_panes),
       cascade (db\<lparr>surfaces := tab_keep (\<lambda>r. su_id r \<noteq> s) (surfaces db)\<rparr>)))"

text \<open>\<open>planSurfacePaneDelete\<close>: the panes that go, and the layout of those that stay.\<close>

definition plan_surface_pane_delete :: "layout option \<Rightarrow> nat list \<Rightarrow> nat \<Rightarrow> nat list \<times> layout option" where
  "plan_surface_pane_delete l ps p =
     (if p \<notin> set ps then ([], l)
      else
        let next_layout = Option.bind l (prune_pane_from_layout p);
            remaining = filter (\<lambda>q. q \<noteq> p) ps
        in if next_layout = None \<and> remaining \<noteq> [] then (p # remaining, None) else ([p], next_layout))"

definition delete_surface_pane :: "nat \<Rightarrow> nat \<Rightarrow> nat \<Rightarrow> env_db \<Rightarrow> stored_pane list \<times> env_db" where
  "delete_surface_pane now s p db =
     (case find_surface db s of
        None \<Rightarrow> ([], db)
      | Some su \<Rightarrow>
          let ps = surface_panes db s;
              (deleted, next_layout) = plan_surface_pane_delete (su_layout su) (map pn_id ps) p
          in if deleted = [] then ([], db)
             else (filter (\<lambda>r. pn_id r \<in> set deleted) ps,
                   write_layout now s next_layout
                     (cascade (db\<lparr>panes := tab_keep (\<lambda>r. \<not> (pn_id r \<in> set deleted \<and> pn_surface r = s)) (panes db)\<rparr>))))"

section \<open>Sessions on panes\<close>

datatype claim_result = Claimed | PaneMissing | SessionGone

definition holds_session :: "session_kind \<Rightarrow> nat \<Rightarrow> stored_pane \<Rightarrow> bool" where
  "holds_session k i p = (pn_kind p = Some k \<and> pn_session p = Some i)"

definition claim_pane_session :: "nat \<Rightarrow> nat \<Rightarrow> session_kind \<Rightarrow> nat \<Rightarrow> env_db \<Rightarrow> claim_result \<times> env_db" where
  "claim_pane_session now p k i db =
     (if find_pane db p = None then (PaneMissing, db)
      else if tab_get se_id (session_table k db) i = None then (SessionGone, db)
      else
        let cleared = (panes db)\<lparr>rows := map (\<lambda>r. if holds_session k i r
              then r\<lparr>pn_kind := None, pn_session := None, pn_updated := now\<rparr> else r) (rows (panes db))\<rparr>
        in (Claimed, db\<lparr>panes := tab_update pn_id p
              (\<lambda>r. r\<lparr>pn_kind := Some k, pn_session := Some i, pn_updated := now\<rparr>) cleared\<rparr>))"

text \<open>A focus on a row that is gone breaks a foreign key.\<close>

definition set_environment_focus :: "nat \<Rightarrow> nat \<Rightarrow> nat option \<Rightarrow> nat option \<Rightarrow> env_db \<Rightarrow> env_db option" where
  "set_environment_focus now w s p db =
     (if find_worktree db w = None \<or> (\<exists>i \<in> set_option s. find_surface db i = None)
         \<or> (\<exists>i \<in> set_option p. find_pane db i = None)
      then None else Some (focus_surface_rows now w s p db))"

definition create_session :: "nat \<Rightarrow> session_kind \<Rightarrow> nat \<Rightarrow> env_db \<Rightarrow> (nat \<times> env_db) option" where
  "create_session now k w db =
     (if find_worktree db w = None then None
      else
        let (s, t) = tab_insert (\<lambda>i. \<lparr>se_id = i, se_worktree = w, se_process = None, se_created = now,
              se_updated = now\<rparr>) (session_table k db)
        in Some (se_id s, set_session_table k t db))"

definition set_active_process :: "nat \<Rightarrow> session_kind \<Rightarrow> nat \<Rightarrow> nat option \<Rightarrow> env_db \<Rightarrow> env_db" where
  "set_active_process now k i process db =
     set_session_table k (tab_update se_id i (\<lambda>r. r\<lparr>se_process := process, se_updated := now\<rparr>)
       (session_table k db)) db"

definition delete_session :: "session_kind \<Rightarrow> nat \<Rightarrow> env_db \<Rightarrow> env_db" where
  "delete_session k i db = set_session_table k (tab_keep (\<lambda>r. se_id r \<noteq> i) (session_table k db)) db"

section \<open>Order\<close>

datatype surface_order_rejection =
    OrderWorktreeNotFound | OrderSurfaceNotFound | OrderSurfaceWorktreeMismatch
  | OrderBeforeNotFound | OrderBeforeWorktreeMismatch

definition surface_siblings :: "nat \<Rightarrow> stored_surface table \<Rightarrow> (nat \<times> int) list" where
  "surface_siblings w t = map (\<lambda>s. (su_id s, su_sort s)) (filter (\<lambda>s. su_worktree s = w) (rows t))"

definition set_surface_rank :: "nat \<Rightarrow> nat \<Rightarrow> int \<Rightarrow> stored_surface table \<Rightarrow> stored_surface table" where
  "set_surface_rank now i r = tab_update su_id i (\<lambda>s. s\<lparr>su_sort := r, su_updated := now\<rparr>)"

definition move_surface_order ::
  "nat \<Rightarrow> nat \<Rightarrow> nat \<Rightarrow> nat option \<Rightarrow> env_db \<Rightarrow> surface_order_rejection + env_db" where
  "move_surface_order now w s before db =
     (if find_worktree db w = None then Inl OrderWorktreeNotFound
      else
        case find_surface db s of
          None \<Rightarrow> Inl OrderSurfaceNotFound
        | Some source \<Rightarrow>
            if su_worktree source \<noteq> w then Inl OrderSurfaceWorktreeMismatch
            else
              let accepted = Inr (db\<lparr>surfaces := fold (\<lambda>(j, r). set_surface_rank now j r)
                    (rank_writes (surface_siblings w (surfaces db)) s before) (surfaces db)\<rparr>)
              in case before of
                   None \<Rightarrow> accepted
                 | Some b \<Rightarrow>
                     (case find_surface db b of
                        None \<Rightarrow> Inl OrderBeforeNotFound
                      | Some anchor \<Rightarrow>
                          if su_worktree anchor \<noteq> w then Inl OrderBeforeWorktreeMismatch else accepted))"

section \<open>What the service checks\<close>

text \<open>
  \<open>set_split_weights\<close> is the read of the layout and the write of the new one, which the code does in
  two calls of the database.
\<close>

definition set_split_weights :: "nat \<Rightarrow> nat \<Rightarrow> string \<Rightarrow> rat list \<Rightarrow> env_db \<Rightarrow> surface_code + env_db" where
  "set_split_weights now s node weights db =
     (case find_surface db s of
        None \<Rightarrow> Inl SurfaceNotFound
      | Some su \<Rightarrow>
          (case Option.bind (su_layout su) (set_node_weights node weights) of
             None \<Rightarrow> Inl LayoutNodeStale
           | Some l \<Rightarrow> Inr (write_layout now s (Some l) db)))"

definition check_environment_focus :: "nat \<Rightarrow> nat option \<Rightarrow> nat option \<Rightarrow> env_db \<Rightarrow> surface_code option" where
  "check_environment_focus w s p db =
     (if \<not> worktree_exists db w then Some WorktreeNotFound
      else if (\<exists>i \<in> set_option s. case find_surface db i of None \<Rightarrow> True | Some su \<Rightarrow> su_worktree su \<noteq> w)
      then Some SurfaceNotFound
      else if (\<exists>i \<in> set_option p. case find_pane db i of None \<Rightarrow> True | Some pn \<Rightarrow> Some (pn_surface pn) \<noteq> s)
      then Some PaneNotFound
      else None)"

definition load_pane_session_target :: "nat \<Rightarrow> nat \<Rightarrow> env_db \<Rightarrow> surface_code + (nat \<times> string)" where
  "load_pane_session_target w p db =
     (case find_pane db p of
        None \<Rightarrow> Inl PaneNotFound
      | Some pn \<Rightarrow>
          (case find_surface db (pn_surface pn) of
             None \<Rightarrow> Inl PaneNotFound
           | Some su \<Rightarrow>
               if su_worktree su \<noteq> w then Inl PaneNotFound
               else case find_worktree_path db w of
                      None \<Rightarrow> Inl WorktreeNotFound
                    | Some cwd \<Rightarrow> if cwd = [] then Inl WorktreeNotFound else Inr (su_id su, cwd)))"

definition ensure_session_in_worktree :: "session_kind \<Rightarrow> nat \<Rightarrow> nat \<Rightarrow> env_db \<Rightarrow> surface_code option" where
  "ensure_session_in_worktree k i w db =
     (case tab_get se_id (session_table k db) i of
        None \<Rightarrow> Some SessionNotFound
      | Some s \<Rightarrow> if se_worktree s \<noteq> w then Some SessionWorktreeMismatch else None)"

section \<open>Collection of sessions\<close>

definition list_orphans :: "session_kind \<Rightarrow> nat \<Rightarrow> env_db \<Rightarrow> stored_session list" where
  "list_orphans k updated_before db =
     filter (\<lambda>s. \<not> list_ex (holds_session k (se_id s)) (rows (panes db)) \<and> se_updated s < updated_before)
       (rows (session_table k db))"

text \<open>
  One pass: both lists first, then each session that no client is attached to. \<open>attached\<close> is what the
  lifecycle answers. The rows that are gone are announced.
\<close>

definition collect_orphan_sessions ::
  "(session_kind \<Rightarrow> nat \<Rightarrow> bool) \<Rightarrow> nat \<Rightarrow> env_db \<Rightarrow> (session_kind \<times> nat \<times> nat) list \<times> env_db" where
  "collect_orphan_sessions attached cutoff db =
     (let orphans = map (Pair AgentKind) (list_orphans AgentKind cutoff db) @
            map (Pair TerminalKind) (list_orphans TerminalKind cutoff db);
          collected = filter (\<lambda>(k, s). \<not> attached k (se_id s)) orphans
      in (map (\<lambda>(k, s). (k, se_id s, se_worktree s)) collected,
          fold (\<lambda>(k, s). delete_session k (se_id s)) collected db))"

end
