(* ===== verification/Surface_Invariant.thy ===== *)
theory Surface_Invariant
  imports Surfaces
begin

text \<open>
  What the transactions of \<open>Surfaces\<close> keep, one by one: the layout of a surface places exactly its
  panes, a focus is on its worktree, a session is bound once and in its worktree, no reference
  dangles, and no row changes its parent.
\<close>

section \<open>What holds of the rows\<close>

definition layout_places :: "layout option \<Rightarrow> nat list \<Rightarrow> bool" where
  "layout_places l ps = (case l of None \<Rightarrow> ps = [] | Some t \<Rightarrow> wf_layout t \<and> mset (panes_of t) = mset ps)"

definition tables_ok :: "env_db \<Rightarrow> bool" where
  "tables_ok db =
     (tab_wf su_id (surfaces db) \<and> tab_wf pn_id (panes db) \<and> tab_wf fo_id (focuses db) \<and>
      (\<forall>k. tab_wf se_id (session_table k db)) \<and> distinct (map fo_worktree (rows (focuses db))))"

definition layouts_ok :: "env_db \<Rightarrow> bool" where
  "layouts_ok db =
     (\<forall>s \<in> set (rows (surfaces db)). layout_places (su_layout s) (map pn_id (surface_panes db (su_id s))))"

definition focus_ok :: "env_db \<Rightarrow> bool" where
  "focus_ok db =
     (\<forall>f \<in> set (rows (focuses db)).
        (\<forall>s \<in> set (rows (surfaces db)). fo_surface f = Some (su_id s) \<longrightarrow> su_worktree s = fo_worktree f) \<and>
        (\<forall>p \<in> set (rows (panes db)). fo_pane f = Some (pn_id p) \<longrightarrow> fo_surface f = Some (pn_surface p)))"

definition bindings_ok :: "env_db \<Rightarrow> bool" where
  "bindings_ok db =
     (\<forall>p \<in> set (rows (panes db)). \<forall>k i. holds_session k i p \<longrightarrow>
        (\<forall>s \<in> set (rows (surfaces db)). su_id s = pn_surface p \<longrightarrow>
           (\<exists>r \<in> set (rows (session_table k db)). se_id r = i \<and> se_worktree r = su_worktree s)) \<and>
        (\<forall>q \<in> set (rows (panes db)). holds_session k i q \<longrightarrow> q = p))"

text \<open>No reference dangles.\<close>

definition complete :: "env_db \<Rightarrow> bool" where
  "complete db =
     (let ws = wt_id ` set (rows (worktrees db)); ss = su_id ` set (rows (surfaces db));
          ps = pn_id ` set (rows (panes db))
      in su_worktree ` set (rows (surfaces db)) \<subseteq> ws \<and> pn_surface ` set (rows (panes db)) \<subseteq> ss \<and>
         fo_worktree ` set (rows (focuses db)) \<subseteq> ws \<and>
         (\<forall>k. se_worktree ` set (rows (session_table k db)) \<subseteq> ws) \<and>
         (\<forall>f \<in> set (rows (focuses db)). set_option (fo_surface f) \<subseteq> ss \<and> set_option (fo_pane f) \<subseteq> ps))"

definition loosely_ok :: "env_db \<Rightarrow> bool" where
  "loosely_ok db = (tables_ok db \<and> layouts_ok db \<and> focus_ok db \<and> bindings_ok db)"

definition env_ok :: "env_db \<Rightarrow> bool" where
  "env_ok db = (projects_ok db \<and> loosely_ok db \<and> complete db)"

named_theorems env_simps \<open>the tables after a write\<close>

lemma session_table_set [env_simps]:
  "session_table k (set_session_table k' t db) = (if k = k' then t else session_table k db)"
  by (cases k; cases k') (simp_all add: session_table_def set_session_table_def)

lemma set_session_table_frame [env_simps]:
  "projects (set_session_table k t db) = projects db" "worktrees (set_session_table k t db) = worktrees db"
  "surfaces (set_session_table k t db) = surfaces db" "panes (set_session_table k t db) = panes db"
  "focuses (set_session_table k t db) = focuses db"
  by (cases k; simp add: set_session_table_def)+

lemma session_table_frame [env_simps]:
  "session_table k (db\<lparr>surfaces := s\<rparr>) = session_table k db"
  "session_table k (db\<lparr>panes := p\<rparr>) = session_table k db"
  "session_table k (db\<lparr>focuses := f\<rparr>) = session_table k db"
  by (cases k; simp add: session_table_def)+

lemma surface_panes_frame [env_simps]:
  "surface_panes (db\<lparr>surfaces := s\<rparr>) = surface_panes db"
  "surface_panes (db\<lparr>focuses := f\<rparr>) = surface_panes db"
  "surface_panes (set_session_table k t db) = surface_panes db"
  by (simp_all add: surface_panes_def fun_eq_iff env_simps)

section \<open>Rows keep their parents\<close>

text \<open>
  What was read of a row stays true of it while it is there: keys are not used again, and no write
  changes the parent of a row.
\<close>

definition parents_kept :: "('r \<Rightarrow> nat) \<Rightarrow> ('r \<Rightarrow> nat) \<Rightarrow> 'r table \<Rightarrow> 'r table \<Rightarrow> bool" where
  "parents_kept f g t t' =
     (next_id t \<le> next_id t' \<and>
      (\<forall>r \<in> set (rows t'). f r < next_id t \<longrightarrow> (\<exists>q \<in> set (rows t). f q = f r \<and> g q = g r)))"

definition remembers :: "('r \<Rightarrow> nat) \<Rightarrow> ('r \<Rightarrow> nat) \<Rightarrow> 'r table \<Rightarrow> nat \<Rightarrow> nat \<Rightarrow> bool" where
  "remembers f g t i v = (i < next_id t \<and> (\<forall>r \<in> set (rows t). f r = i \<longrightarrow> g r = v))"

lemma parents_kept_refl [simp]: "parents_kept f g t t"
  by (auto simp: parents_kept_def)

lemma parents_kept_trans: "parents_kept f g t u \<Longrightarrow> parents_kept f g u v \<Longrightarrow> parents_kept f g t v"
  unfolding parents_kept_def by (metis order.strict_trans2 order.trans)

lemma parents_kept_keep: "parents_kept f g t (tab_keep P t)"
  by (auto simp: parents_kept_def)

lemma parents_kept_map: "(\<And>r. f (h r) = f r) \<Longrightarrow> (\<And>r. g (h r) = g r) \<Longrightarrow> parents_kept f g t (t\<lparr>rows := map h (rows t)\<rparr>)"
  by (auto simp: parents_kept_def)

lemma parents_kept_update: "(\<And>r. f (h r) = f r) \<Longrightarrow> (\<And>r. g (h r) = g r) \<Longrightarrow> parents_kept f g t (tab_update f i h t)"
  unfolding tab_update_def by (rule parents_kept_map) auto

lemma parents_kept_insert: "(\<And>i. f (mk i) = i) \<Longrightarrow> parents_kept f g t (snd (tab_insert mk t))"
  by (auto simp: parents_kept_def tab_insert_simps)

lemma remembers_grows: "remembers f g t i v \<Longrightarrow> parents_kept f g t t' \<Longrightarrow> remembers f g t' i v"
  unfolding remembers_def parents_kept_def by (metis order.strict_trans2)

lemma remembers_found: "tab_wf f t \<Longrightarrow> tab_get f t i = Some r \<Longrightarrow> remembers f g t i (g r)"
  unfolding remembers_def by (metis tab_get_iff tab_wf_inj tab_wf_less)

definition env_grows :: "env_db \<Rightarrow> env_db \<Rightarrow> bool" where
  "env_grows db db' =
     (parents_kept su_id su_worktree (surfaces db) (surfaces db') \<and> parents_kept pn_id pn_surface (panes db) (panes db') \<and>
      (\<forall>k. parents_kept se_id se_worktree (session_table k db) (session_table k db')))"

lemma env_grows_refl [simp]: "env_grows db db"
  by (simp add: env_grows_def)

lemma env_grows_trans: "env_grows a b \<Longrightarrow> env_grows b c \<Longrightarrow> env_grows a c"
  by (auto simp: env_grows_def intro: parents_kept_trans)

section \<open>The schema's deletions\<close>

lemma cascade_tables [env_simps]:
  "projects (cascade db) = projects db" "worktrees (cascade db) = worktrees db"
  "surfaces (cascade db) = tab_keep (\<lambda>s. su_worktree s \<in> wt_id ` set (rows (worktrees db))) (surfaces db)"
  "session_table k (cascade db) =
     tab_keep (\<lambda>s. se_worktree s \<in> wt_id ` set (rows (worktrees db))) (session_table k db)"
  "panes (cascade db) = tab_keep (\<lambda>p. pn_surface p \<in> su_id ` set (rows (surfaces (cascade db)))) (panes db)"
  by (auto simp: cascade_def Let_def session_table_def split: session_kind.split)

lemma still_there_Some: "still_there ids x = Some i \<longleftrightarrow> x = Some i \<and> i \<in> set ids"
  by (auto simp: still_there_def split: option.split)

lemma clear_gone_simps [simp]:
  "fo_id (clear_gone ss ps f) = fo_id f" "fo_worktree (clear_gone ss ps f) = fo_worktree f"
  "fo_surface (clear_gone ss ps f) = still_there ss (fo_surface f)"
  "fo_pane (clear_gone ss ps f) = still_there ps (fo_pane f)"
  by (simp_all add: clear_gone_def)

lemma cascade_focuses:
  "focuses (cascade db) =
     (tab_keep (\<lambda>f. fo_worktree f \<in> wt_id ` set (rows (worktrees db))) (focuses db))
       \<lparr>rows := map (clear_gone (map su_id (rows (surfaces (cascade db)))) (map pn_id (rows (panes (cascade db)))))
         (filter (\<lambda>f. fo_worktree f \<in> wt_id ` set (rows (worktrees db))) (rows (focuses db)))\<rparr>"
  by (simp add: cascade_def Let_def)

lemma tab_wf_map: "tab_wf f t \<Longrightarrow> (\<And>r. f (g r) = f r) \<Longrightarrow> tab_wf f (t\<lparr>rows := map g (rows t)\<rparr>)"
  by (simp add: tab_wf_def comp_def)

lemma cascade_tables_ok: "tables_ok db \<Longrightarrow> tables_ok (cascade db)"
proof -
  assume ok: "tables_ok db"
  have "tab_wf fo_id (focuses (cascade db))"
    using ok unfolding cascade_focuses
    by (intro tab_wf_map [where t = "tab_keep P t" for P t, simplified]) (simp_all add: tables_ok_def tab_wf_filter)
  moreover have "distinct (map fo_worktree (rows (focuses (cascade db))))"
    using ok by (simp add: cascade_focuses comp_def tables_ok_def distinct_map_filter)
  ultimately show ?thesis
    using ok by (simp add: tables_ok_def env_simps tab_wf_filter)
qed

lemma cascade_complete: "complete (cascade db)"
proof -
  have "set_option (fo_surface f) \<subseteq> su_id ` set (rows (surfaces (cascade db)))"
    "set_option (fo_pane f) \<subseteq> pn_id ` set (rows (panes (cascade db)))"
    "fo_worktree f \<in> wt_id ` set (rows (worktrees db))"
    if "f \<in> set (rows (focuses (cascade db)))" for f
    using that by (auto simp: cascade_focuses still_there_Some simp del: cascade_tables(3,5))
  moreover have "pn_surface ` set (rows (panes (cascade db))) \<subseteq> su_id ` set (rows (surfaces (cascade db)))"
    by (auto simp: cascade_tables(5) simp del: cascade_tables(3))
  ultimately show ?thesis
    by (auto simp: complete_def Let_def cascade_tables(2-4))
qed

lemma cascade_surface_panes:
  "s \<in> set (rows (surfaces (cascade db))) \<Longrightarrow> surface_panes (cascade db) (su_id s) = surface_panes db (su_id s)"
  unfolding surface_panes_def cascade_tables(5)
  by (auto simp del: cascade_tables(3) intro!: filter_cong)

lemma cascade_loosely_ok:
  assumes "loosely_ok db"
  shows "loosely_ok (cascade db)"
proof -
  have "layouts_ok (cascade db)"
    using assms cascade_surface_panes [of _ db] by (auto simp: loosely_ok_def layouts_ok_def cascade_tables(3))
  moreover have "focus_ok (cascade db)"
    unfolding focus_ok_def
  proof (intro ballI conjI impI)
    fix f s
    assume "f \<in> set (rows (focuses (cascade db)))" "s \<in> set (rows (surfaces (cascade db)))"
      and "fo_surface f = Some (su_id s)"
    then show "su_worktree s = fo_worktree f"
      using assms by (auto simp: cascade_focuses still_there_Some loosely_ok_def focus_ok_def cascade_tables(3))
  next
    fix f p
    assume f: "f \<in> set (rows (focuses (cascade db)))" and p: "p \<in> set (rows (panes (cascade db)))"
      and at: "fo_pane f = Some (pn_id p)"
    then obtain g where g: "g \<in> set (rows (focuses db))" "fo_pane g = Some (pn_id p)"
      "fo_surface f = still_there (map su_id (rows (surfaces (cascade db)))) (fo_surface g)"
      by (auto simp: cascade_focuses still_there_Some simp del: cascade_tables(3,5))
    have kept: "p \<in> set (rows (panes db))" "pn_surface p \<in> su_id ` set (rows (surfaces (cascade db)))"
      using p unfolding cascade_tables(5) by simp_all
    have "fo_surface g = Some (pn_surface p)"
      using assms g(1,2) kept(1) by (auto simp: loosely_ok_def focus_ok_def)
    then show "fo_surface f = Some (pn_surface p)" using kept(2) by (simp add: g(3) still_there_Some)
  qed
  moreover have "bindings_ok (cascade db)"
    unfolding bindings_ok_def
  proof (intro ballI allI impI conjI)
    fix p k i s
    assume p: "p \<in> set (rows (panes (cascade db)))" "holds_session k i p"
      and s: "s \<in> set (rows (surfaces (cascade db)))" "su_id s = pn_surface p"
    have "p \<in> set (rows (panes db))" using p(1) unfolding cascade_tables(5) by simp
    moreover have "s \<in> set (rows (surfaces db))" "su_worktree s \<in> wt_id ` set (rows (worktrees db))"
      using s(1) by (simp_all add: cascade_tables(3))
    ultimately obtain r where "r \<in> set (rows (session_table k db))" "se_id r = i" "se_worktree r = su_worktree s"
      using assms p(2) s(2) unfolding loosely_ok_def bindings_ok_def by meson
    then show "\<exists>r \<in> set (rows (session_table k (cascade db))). se_id r = i \<and> se_worktree r = su_worktree s"
      using \<open>su_worktree s \<in> _\<close> by (auto simp: cascade_tables(4))
  next
    fix p k i q
    assume "p \<in> set (rows (panes (cascade db)))" "holds_session k i p"
      "q \<in> set (rows (panes (cascade db)))" "holds_session k i q"
    then show "q = p" using assms unfolding cascade_tables(5) by (auto simp: loosely_ok_def bindings_ok_def)
  qed
  ultimately show ?thesis using assms by (simp add: loosely_ok_def cascade_tables_ok)
qed

lemma cascade_env_ok: "projects_ok db \<Longrightarrow> loosely_ok db \<Longrightarrow> env_ok (cascade db)"
  by (simp add: env_ok_def cascade_loosely_ok cascade_complete projects_ok_def cascade_tables)

lemma cascade_grows: "env_grows db (cascade db)"
  by (simp add: env_grows_def cascade_tables parents_kept_keep)

section \<open>Deletions\<close>

lemma delete_surface_ok:
  assumes ok: "env_ok db"
  shows "env_ok (snd (delete_surface s db))" and "env_grows db (snd (delete_surface s db))"
proof -
  let ?db = "db\<lparr>surfaces := tab_keep (\<lambda>r. su_id r \<noteq> s) (surfaces db)\<rparr>"
  have "tables_ok ?db" using ok by (simp add: env_ok_def loosely_ok_def tables_ok_def env_simps tab_wf_filter)
  moreover have "layouts_ok ?db" using ok by (simp add: env_ok_def loosely_ok_def layouts_ok_def env_simps)
  moreover have "focus_ok ?db" using ok by (simp add: env_ok_def loosely_ok_def focus_ok_def)
  moreover have "bindings_ok ?db" using ok by (simp add: env_ok_def loosely_ok_def bindings_ok_def env_simps)
  ultimately have "loosely_ok ?db" by (simp add: loosely_ok_def)
  moreover have "projects_ok ?db" using ok by (simp add: env_ok_def projects_ok_def)
  ultimately show "env_ok (snd (delete_surface s db))"
    by (simp add: delete_surface_def Let_def cascade_env_ok)
  have "env_grows db ?db" by (simp add: env_grows_def env_simps parents_kept_keep)
  then show "env_grows db (snd (delete_surface s db))"
    by (simp add: delete_surface_def Let_def env_grows_trans [OF _ cascade_grows])
qed

section \<open>Layouts\<close>

definition layouts_but :: "nat \<Rightarrow> env_db \<Rightarrow> bool" where
  "layouts_but s db =
     (\<forall>r \<in> set (rows (surfaces db)). su_id r \<noteq> s \<longrightarrow> layout_places (su_layout r) (map pn_id (surface_panes db (su_id r))))"

lemma write_layout_frame [env_simps]:
  "projects (write_layout now s l db) = projects db" "worktrees (write_layout now s l db) = worktrees db"
  "panes (write_layout now s l db) = panes db" "focuses (write_layout now s l db) = focuses db"
  "session_table k (write_layout now s l db) = session_table k db"
  "surface_panes (write_layout now s l db) = surface_panes db"
  by (simp_all add: write_layout_def env_simps)

lemma write_layout_surfaces:
  "rows (surfaces (write_layout now s l db)) =
     map (\<lambda>r. if su_id r = s then r\<lparr>su_layout := l, su_updated := now\<rparr> else r) (rows (surfaces db))"
  by (simp add: write_layout_def tab_update_def)

lemma write_layout_grows: "env_grows db (write_layout now s l db)"
  by (simp add: env_grows_def env_simps) (simp add: write_layout_def parents_kept_update)

lemma write_layout_complete: "complete db \<Longrightarrow> complete (write_layout now s l db)"
proof -
  have "su_id ` set (rows (surfaces (write_layout now s l db))) = su_id ` set (rows (surfaces db))"
    "su_worktree ` set (rows (surfaces (write_layout now s l db))) = su_worktree ` set (rows (surfaces db))"
    unfolding write_layout_surfaces set_map image_image by (rule image_cong; simp)+
  then show "complete db \<Longrightarrow> ?thesis" by (simp add: complete_def env_simps)
qed

lemma write_layout_loosely_ok:
  assumes "tables_ok db" "focus_ok db" "bindings_ok db" "layouts_but s db"
    and "layout_places l (map pn_id (surface_panes db s))"
  shows "loosely_ok (write_layout now s l db)"
proof -
  have "tables_ok (write_layout now s l db)"
    using assms(1) by (simp add: tables_ok_def env_simps) (simp add: write_layout_def tab_wf_update)
  moreover have "focus_ok (write_layout now s l db)"
    using assms(2) by (auto simp: focus_ok_def env_simps write_layout_surfaces)
  moreover have "bindings_ok (write_layout now s l db)"
    using assms(3) unfolding bindings_ok_def by (auto simp: env_simps write_layout_surfaces; blast)
  moreover have "layouts_ok (write_layout now s l db)"
    using assms(4,5) by (auto simp: layouts_ok_def layouts_but_def env_simps write_layout_surfaces)
  ultimately show ?thesis by (simp add: loosely_ok_def)
qed

lemma write_layout_env_ok:
  "projects_ok db \<Longrightarrow> tables_ok db \<Longrightarrow> focus_ok db \<Longrightarrow> bindings_ok db \<Longrightarrow> complete db \<Longrightarrow> layouts_but s db \<Longrightarrow>
   layout_places l (map pn_id (surface_panes db s)) \<Longrightarrow> env_ok (write_layout now s l db)"
  by (simp add: env_ok_def write_layout_loosely_ok write_layout_complete projects_ok_def env_simps)

lemma cascade_write_layout: "write_layout now s l (cascade db) = cascade (write_layout now s l db)"
proof -
  have commute: "tab_update su_id s h (tab_keep P t) = tab_keep P (tab_update su_id s h t)"
    if "\<And>r. P (h r) = P r" for h P and t :: "stored_surface table"
    using that by (simp add: tab_update_def tab_keep_def filter_map comp_def if_distrib cong: if_cong)
  have ids: "map su_id (rows (tab_update su_id s (\<lambda>r. r\<lparr>su_layout := l, su_updated := now\<rparr>) t)) = map su_id (rows t)" for t
    by (rule map_update_same) simp
  have image: "su_id ` set (rows (tab_update su_id s (\<lambda>r. r\<lparr>su_layout := l, su_updated := now\<rparr>) t)) = su_id ` set (rows t)" for t
    using arg_cong [OF ids [of t], of set] by simp
  show ?thesis
    by (simp add: write_layout_def cascade_def Let_def commute [symmetric] ids image del: rows_tab_keep)
qed

lemma surface_layout_places:
  assumes "env_ok db" and "find_surface db s = Some su"
  shows "layout_places (su_layout su) (map pn_id (surface_panes db s))" and "su_id su = s"
    and "su \<in> set (rows (surfaces db))"
proof -
  have "tab_wf su_id (surfaces db)" using assms(1) by (simp add: env_ok_def loosely_ok_def tables_ok_def)
  then show "su \<in> set (rows (surfaces db))" "su_id su = s"
    using assms(2) by (auto simp: find_surface_def tab_get_iff)
  then show "layout_places (su_layout su) (map pn_id (surface_panes db s))"
    using assms(1) by (auto simp: env_ok_def loosely_ok_def layouts_ok_def)
qed

text \<open>Where the layout places the panes, only the pane that is asked for is removed.\<close>

lemma plan_removes_one:
  assumes "layout_places l ps" and "distinct ps" and "p \<in> set ps"
  obtains l' where "plan_surface_pane_delete l ps p = ([p], l')" and "layout_places l' (filter (\<lambda>q. q \<noteq> p) ps)"
proof -
  obtain t where t: "l = Some t" "wf_layout t" "mset (panes_of t) = mset ps"
    using assms(1,3) by (auto simp: layout_places_def split: option.splits)
  have m: "mset (filter (\<lambda>q. q \<noteq> p) (panes_of t)) = mset (filter (\<lambda>q. q \<noteq> p) ps)"
    using t(3) by simp
  show ?thesis
  proof (cases "prune_pane_from_layout p t")
    case None
    then have "filter (\<lambda>q. q \<noteq> p) (panes_of t) = []" using prune_places(1) [OF t(2), of p] by simp
    then have "filter (\<lambda>q. q \<noteq> p) ps = []" using m by simp
    then show ?thesis
      using that [of None] assms(3) by (simp add: plan_surface_pane_delete_def layout_places_def t(1) None Let_def)
  next
    case (Some t')
    then have "wf_layout t'" "panes_of t' = filter (\<lambda>q. q \<noteq> p) (panes_of t)"
      using prune_places(1) [OF t(2), of p] by simp_all
    then show ?thesis
      using that [of "Some t'"] assms(3) m
      by (simp add: plan_surface_pane_delete_def layout_places_def t(1) Some Let_def)
  qed
qed

lemma env_pane_ids: "env_ok db \<Longrightarrow> distinct (map pn_id (surface_panes db s))"
  by (auto simp: env_ok_def loosely_ok_def tables_ok_def surface_panes_def distinct_map_filter dest: tab_wf_distinct)

lemma delete_surface_pane_ok:
  assumes ok: "env_ok db"
  shows "env_ok (snd (delete_surface_pane now s p db))" and "env_grows db (snd (delete_surface_pane now s p db))"
    and "\<forall>r \<in> set (fst (delete_surface_pane now s p db)). pn_id r = p"
proof -
  have "env_ok (snd (delete_surface_pane now s p db)) \<and> env_grows db (snd (delete_surface_pane now s p db)) \<and>
    (\<forall>r \<in> set (fst (delete_surface_pane now s p db)). pn_id r = p)"
  proof (cases "find_surface db s")
    case None
    then show ?thesis using ok by (simp add: delete_surface_pane_def)
  next
    case (Some su)
    let ?ids = "map pn_id (surface_panes db s)"
    show ?thesis
    proof (cases "p \<in> set ?ids")
      case False
      then show ?thesis using ok Some by (simp add: delete_surface_pane_def plan_surface_pane_delete_def Let_def)
    next
      case True
      obtain l where plan: "plan_surface_pane_delete (su_layout su) ?ids p = ([p], l)"
        and l: "layout_places l (filter (\<lambda>q. q \<noteq> p) ?ids)"
        by (rule plan_removes_one [OF surface_layout_places(1) [OF ok Some] env_pane_ids [OF ok] True])
      define d where "d = db\<lparr>panes := tab_keep (\<lambda>r. \<not> (pn_id r \<in> set [p] \<and> pn_surface r = s)) (panes db)\<rparr>"
      have result: "delete_surface_pane now s p db =
          (filter (\<lambda>r. pn_id r \<in> set [p]) (surface_panes db s), write_layout now s l (cascade d))"
        using Some plan by (simp add: delete_surface_pane_def Let_def d_def)
      have same: "surfaces d = surfaces db" "focuses d = focuses db" "worktrees d = worktrees db"
        "projects d = projects db" "\<And>k. session_table k d = session_table k db"
        "set (rows (panes d)) \<subseteq> set (rows (panes db))"
        by (auto simp: d_def env_simps)
      have here: "surface_panes d i = (if i = s then filter (\<lambda>r. pn_id r \<noteq> p) (surface_panes db s)
          else surface_panes db i)" for i
        by (auto simp: surface_panes_def d_def intro!: filter_cong)
      have "tables_ok d"
        using ok by (simp add: env_ok_def loosely_ok_def tables_ok_def same) (simp add: d_def tab_wf_filter)
      moreover have "focus_ok d" using ok same(6) by (auto simp: env_ok_def loosely_ok_def focus_ok_def same(1-5))
      moreover have "bindings_ok d"
        using ok same(6) unfolding bindings_ok_def env_ok_def loosely_ok_def same(1-5) by (meson subsetD)
      moreover have "layouts_but s d"
        using ok by (simp add: env_ok_def loosely_ok_def layouts_ok_def layouts_but_def same(1) here)
      moreover have "layout_places l (map pn_id (surface_panes d s))"
        using l by (simp add: here filter_map comp_def)
      ultimately have "loosely_ok (write_layout now s l d)" by (intro write_layout_loosely_ok)
      moreover have "projects_ok (write_layout now s l d)"
        using ok by (simp add: env_ok_def projects_ok_def env_simps same)
      ultimately have "env_ok (write_layout now s l (cascade d))"
        by (simp add: cascade_write_layout cascade_env_ok)
      moreover have "env_grows db d" by (simp add: env_grows_def same(1,5)) (simp add: d_def parents_kept_keep)
      then have "env_grows db (write_layout now s l (cascade d))"
        using cascade_grows write_layout_grows env_grows_trans by blast
      ultimately show ?thesis by (auto simp: result)
    qed
  qed
  then show "env_ok (snd (delete_surface_pane now s p db))" "env_grows db (snd (delete_surface_pane now s p db))"
    "\<forall>r \<in> set (fst (delete_surface_pane now s p db)). pn_id r = p" by blast+
qed

section \<open>New panes\<close>

text \<open>A pane without a session, or with an editor of its worktree that is nowhere else.\<close>

definition may_hold :: "env_db \<Rightarrow> nat \<Rightarrow> stored_pane \<Rightarrow> bool" where
  "may_hold db s p =
     (\<forall>k i. holds_session k i p \<longrightarrow>
        (\<forall>q \<in> set (rows (panes db)). \<not> holds_session k i q) \<and>
        (\<forall>r \<in> set (rows (surfaces db)). su_id r = s \<longrightarrow>
           (\<exists>x \<in> set (rows (session_table k db)). se_id x = i \<and> se_worktree x = su_worktree r)))"

lemma insert_pane_ok:
  assumes ok: "env_ok db" and s: "s \<in> su_id ` set (rows (surfaces db))"
    and mk: "\<And>i. pn_id (mk i) = i" "\<And>i. pn_surface (mk i) = s" and holds: "\<And>i. may_hold db s (mk i)"
  defines "db' \<equiv> db\<lparr>panes := snd (tab_insert mk (panes db))\<rparr>"
  shows "projects_ok db'" "tables_ok db'" "focus_ok db'" "bindings_ok db'" "complete db'" "layouts_but s db'"
    and "surface_panes db' s = surface_panes db s @ [mk (next_id (panes db))]" and "env_grows db db'"
proof -
  let ?n = "next_id (panes db)"
  have rows': "rows (panes db') = rows (panes db) @ [mk ?n]" by (simp add: db'_def tab_insert_simps)
  have same: "surfaces db' = surfaces db" "focuses db' = focuses db" "worktrees db' = worktrees db"
    "projects db' = projects db" "\<And>k. session_table k db' = session_table k db"
    by (simp_all add: db'_def env_simps)
  have fresh: "q \<in> set (rows (panes db)) \<Longrightarrow> pn_id q \<noteq> ?n" for q
    using ok by (auto simp: env_ok_def loosely_ok_def tables_ok_def dest: tab_wf_less)
  show "projects_ok db'" using ok by (simp add: env_ok_def projects_ok_def same)
  show "tables_ok db'"
    using ok by (simp add: env_ok_def loosely_ok_def tables_ok_def same) (simp add: db'_def tab_wf_insert mk)
  have "fo_pane f \<noteq> Some ?n" if "f \<in> set (rows (focuses db))" for f
    using ok that fresh by (force simp: env_ok_def complete_def Let_def)
  then show "focus_ok db'" using ok by (auto simp: env_ok_def loosely_ok_def focus_ok_def same rows' mk)
  show "bindings_ok db'"
    using ok holds [of ?n] unfolding bindings_ok_def may_hold_def env_ok_def loosely_ok_def
    by (auto simp: same rows' mk; blast)
  show "complete db'" using ok s by (auto simp: env_ok_def complete_def Let_def same rows' mk; blast)
  show "layouts_but s db'"
    using ok by (auto simp: env_ok_def loosely_ok_def layouts_ok_def layouts_but_def same surface_panes_def rows' mk)
  show "surface_panes db' s = surface_panes db s @ [mk ?n]" by (simp add: surface_panes_def rows' mk)
  show "env_grows db db'" by (simp add: env_grows_def same) (simp add: db'_def parents_kept_insert mk)
qed

lemma may_hold_free: "pn_kind p = None \<Longrightarrow> may_hold db s p"
  by (simp add: may_hold_def holds_session_def)

text \<open>An editor that may be placed: what \<open>rejectInitialSession\<close> makes sure of.\<close>

lemma not_rejected:
  assumes "env_ok db" and "reject_initial_session db w e = None"
  shows "\<exists>x \<in> set (rows (session_table EditorKind db)). se_id x = e \<and> se_worktree x = w"
    and "\<forall>q \<in> set (rows (panes db)). \<not> holds_session EditorKind e q"
proof -
  have wf: "tab_wf se_id (editor_contexts db)"
    using assms(1) spec [of "\<lambda>k. tab_wf se_id (session_table k db)" EditorKind]
    by (simp add: env_ok_def loosely_ok_def tables_ok_def session_table_def)
  show "\<exists>x \<in> set (rows (session_table EditorKind db)). se_id x = e \<and> se_worktree x = w"
    using assms(2) by (auto simp: reject_initial_session_def session_table_def tab_get_iff [OF wf]
        split: option.splits if_splits)
  show "\<forall>q \<in> set (rows (panes db)). \<not> holds_session EditorKind e q"
    using assms(2) by (auto simp: reject_initial_session_def holds_session_def list_ex_iff split: option.splits if_splits)
qed

lemma insert_root_pane_ok:
  assumes ok: "env_ok db" and s: "su \<in> set (rows (surfaces db))" "surface_panes db (su_id su) = []"
    and editor: "Option.bind editor (reject_initial_session db (su_worktree su)) = None"
    and ins: "insert_root_pane_rows now (su_id su) title editor db = (p, db')"
  shows "env_ok db'" and "env_grows db db'" and "p = next_id (panes db)"
    and "\<exists>r \<in> set (rows (panes db')). pn_id r = p \<and> pn_surface r = su_id su"
    and "\<exists>r \<in> set (rows (surfaces db')). su_id r = su_id su \<and> su_worktree r = su_worktree su"
    and "worktrees db' = worktrees db"
proof -
  let ?mk = "\<lambda>i. \<lparr>pn_id = i, pn_surface = su_id su, pn_title = title, pn_sort = 0,
    pn_kind = map_option (\<lambda>e. EditorKind) editor, pn_session = editor, pn_created = now, pn_updated = now\<rparr>"
  let ?d = "db\<lparr>panes := snd (tab_insert ?mk (panes db))\<rparr>"
  have r: "p = next_id (panes db)" "db' = write_layout now (su_id su) (Some (leaf_for_pane p)) ?d"
    using ins by (auto simp: insert_root_pane_rows_def tab_insert_def Let_def)
  have "tab_wf su_id (surfaces db)" using ok by (simp add: env_ok_def loosely_ok_def tables_ok_def)
  then have only: "x = su" if "x \<in> set (rows (surfaces db))" "su_id x = su_id su" for x
    using tab_wf_inj that s(1) by metis
  have "may_hold db (su_id su) (?mk i)" for i
  proof (cases editor)
    case None
    then show ?thesis by (simp add: may_hold_free)
  next
    case (Some e)
    then show ?thesis
      using not_rejected [OF ok, of "su_worktree su" e] editor only by (auto simp: may_hold_def holds_session_def)
  qed
  then have new: "projects_ok ?d" "tables_ok ?d" "focus_ok ?d" "bindings_ok ?d" "complete ?d"
    "layouts_but (su_id su) ?d" "surface_panes ?d (su_id su) = surface_panes db (su_id su) @ [?mk p]" "env_grows db ?d"
    using insert_pane_ok [OF ok, of "su_id su" ?mk] s(1) by (simp_all add: r(1))
  show "env_ok db'"
    unfolding r(2) using new s(2)
    by (intro write_layout_env_ok) (simp_all add: layout_places_def leaf_for_pane_simps)
  show "env_grows db db'" unfolding r(2) using new(8) write_layout_grows env_grows_trans by blast
  show "p = next_id (panes db)" by (rule r(1))
  show "\<exists>r \<in> set (rows (panes db')). pn_id r = p \<and> pn_surface r = su_id su"
    by (simp add: r env_simps tab_insert_simps)
  show "\<exists>x \<in> set (rows (surfaces db')). su_id x = su_id su \<and> su_worktree x = su_worktree su"
    using s(1) by (auto simp: r write_layout_surfaces image_iff
        intro!: bexI [of _ "su\<lparr>su_layout := Some (leaf_for_pane (next_id (panes db))), su_updated := now\<rparr>"])
  show "worktrees db' = worktrees db" by (simp add: r env_simps)
qed

lemma split_surface_pane_ok:
  assumes ok: "env_ok db" and split: "split_surface_pane now s source title d db = Some ((p, t), db')"
  shows "env_ok db'" and "env_grows db db'"
proof -
  obtain su l where su: "find_surface db s = Some su" "su_layout su = Some l" "layout_contains_pane l source"
    using split by (auto simp: split_surface_pane_def split: option.splits if_splits)
  obtain tt so where r: "p = next_id (panes db)"
    and db': "db' = write_layout now s (Some (insert_pane_into_layout l source p d))
      (db\<lparr>panes := snd (tab_insert (\<lambda>i. \<lparr>pn_id = i, pn_surface = s, pn_title = tt, pn_sort = so, pn_kind = None,
         pn_session = None, pn_created = now, pn_updated = now\<rparr>) (panes db))\<rparr>)"
    using split su by (auto simp: split_surface_pane_def tab_insert_def Let_def)
  let ?mk = "\<lambda>i. \<lparr>pn_id = i, pn_surface = s, pn_title = tt, pn_sort = so, pn_kind = None,
         pn_session = None, pn_created = now, pn_updated = now\<rparr>"
  let ?d = "db\<lparr>panes := snd (tab_insert ?mk (panes db))\<rparr>"
  note at = surface_layout_places [OF ok su(1)]
  have new: "projects_ok ?d" "tables_ok ?d" "focus_ok ?d" "bindings_ok ?d" "complete ?d" "layouts_but s ?d"
    "surface_panes ?d s = surface_panes db s @ [?mk p]" "env_grows db ?d"
    using insert_pane_ok [OF ok, of s ?mk] at(2,3) by (auto simp: r may_hold_free)
  have places: "wf_layout l" "mset (panes_of l) = mset (map pn_id (surface_panes db s))"
    using at(1) su(2) by (simp_all add: layout_places_def)
  have there: "source \<in> set (panes_of l)" using su(3) by (simp add: layout_contains_pane_iff)
  then obtain l' where l': "insert_into_node source p (axis_for_direction d) (side_for_direction d) l = Some l'"
    using insert_finds(1) [of source p "axis_for_direction d" "side_for_direction d" l] by auto
  have "wf_layout l'" "panes_of l' = insert_beside (side_for_direction d) source p (panes_of l)"
    using insert_places(1) [OF places(1) l'] by simp_all
  then have "layout_places (Some (insert_pane_into_layout l source p d)) (map pn_id (surface_panes ?d s))"
    using there places(2) new(7) by (simp add: layout_places_def insert_pane_into_layout_def l' mset_insert_beside)
  then show "env_ok db'" unfolding db' using new by (intro write_layout_env_ok)
  show "env_grows db db'" unfolding db' using new(8) write_layout_grows env_grows_trans by blast
qed

lemma set_split_weights_ok:
  assumes ok: "env_ok db" and set: "set_split_weights now s node ws db = Inr db'"
  shows "env_ok db'" and "env_grows db db'"
proof -
  obtain su l l' where su: "find_surface db s = Some su" "su_layout su = Some l" "set_node_weights node ws l = Some l'"
    and db': "db' = write_layout now s (Some l') db"
    using set by (auto simp: set_split_weights_def bind_eq_Some_conv split: option.splits)
  have "layout_places (Some l') (map pn_id (surface_panes db s))"
    using surface_layout_places(1) [OF ok su(1)] set_node_weights_places(1) [of l node ws l'] su(2,3)
    by (simp add: layout_places_def)
  moreover have "layouts_but s db" using ok by (simp add: env_ok_def loosely_ok_def layouts_ok_def layouts_but_def)
  ultimately show "env_ok db'"
    using ok unfolding db' by (intro write_layout_env_ok) (simp_all add: env_ok_def loosely_ok_def)
  show "env_grows db db'" by (simp add: db' write_layout_grows)
qed

section \<open>The focus\<close>

text \<open>A focus that may be written: on a surface of the worktree, on a pane of the surface.\<close>

definition focus_valid :: "env_db \<Rightarrow> nat \<Rightarrow> nat option \<Rightarrow> nat option \<Rightarrow> bool" where
  "focus_valid db w s p =
     (w \<in> wt_id ` set (rows (worktrees db)) \<and>
      (\<forall>i. s = Some i \<longrightarrow> (\<exists>r \<in> set (rows (surfaces db)). su_id r = i \<and> su_worktree r = w)) \<and>
      (\<forall>j. p = Some j \<longrightarrow> (\<exists>r \<in> set (rows (panes db)). pn_id r = j \<and> s = Some (pn_surface r))))"

lemma focus_surface_rows_frame [env_simps]:
  "projects (focus_surface_rows now w s p db) = projects db" "worktrees (focus_surface_rows now w s p db) = worktrees db"
  "surfaces (focus_surface_rows now w s p db) = surfaces db" "panes (focus_surface_rows now w s p db) = panes db"
  "session_table k (focus_surface_rows now w s p db) = session_table k db"
  "surface_panes (focus_surface_rows now w s p db) = surface_panes db"
  by (simp_all add: focus_surface_rows_def env_simps split: option.split)

lemma focus_surface_rows_rows:
  assumes "tables_ok db" and "f \<in> set (rows (focuses (focus_surface_rows now w s p db)))"
  shows "f \<in> set (rows (focuses db)) \<or> (fo_worktree f = w \<and> fo_surface f = s \<and> fo_pane f = p)"
proof (cases "find_environment_focus db w")
  case None
  then show ?thesis using assms by (auto simp: focus_surface_rows_def tab_insert_simps)
next
  case (Some g)
  then have g: "g \<in> set (rows (focuses db))" "fo_worktree g = w"
    by (auto simp: find_environment_focus_def find_Some_iff)
  have only: "r = g" if "r \<in> set (rows (focuses db))" "fo_id r = fo_id g" for r
    using assms(1) that g(1) tab_wf_inj by (metis tables_ok_def)
  show ?thesis using assms(2) Some g(2) by (auto simp: focus_surface_rows_def tab_update_def dest: only)
qed

lemma focus_surface_rows_tables: "tables_ok db \<Longrightarrow> tables_ok (focus_surface_rows now w s p db)"
proof -
  assume ok: "tables_ok db"
  have "tab_wf fo_id (focuses (focus_surface_rows now w s p db)) \<and>
      distinct (map fo_worktree (rows (focuses (focus_surface_rows now w s p db))))"
  proof (cases "find_environment_focus db w")
    case None
    then have "w \<notin> fo_worktree ` set (rows (focuses db))"
      by (auto simp: find_environment_focus_def find_None_iff)
    then show ?thesis
      using ok None by (simp add: focus_surface_rows_def tables_ok_def tab_wf_insert tab_insert_simps)
  next
    case (Some g)
    then show ?thesis
      using ok by (simp add: focus_surface_rows_def tables_ok_def tab_wf_update map_update_same)
  qed
  then show ?thesis using ok by (simp add: tables_ok_def env_simps)
qed

lemma focus_surface_rows_ok:
  assumes ok: "env_ok db" and valid: "focus_valid db w s p"
  shows "env_ok (focus_surface_rows now w s p db)" and "env_grows db (focus_surface_rows now w s p db)"
proof -
  let ?d = "focus_surface_rows now w s p db"
  have tables: "tables_ok db" and wf: "tab_wf su_id (surfaces db)" "tab_wf pn_id (panes db)"
    using ok by (simp_all add: env_ok_def loosely_ok_def tables_ok_def)
  note rows' = focus_surface_rows_rows [OF tables, of _ now w s p]
  have "focus_ok ?d"
    unfolding focus_ok_def
  proof (intro ballI conjI impI)
    fix f r
    assume f: "f \<in> set (rows (focuses ?d))" and r: "r \<in> set (rows (surfaces ?d))" "fo_surface f = Some (su_id r)"
    show "su_worktree r = fo_worktree f"
    proof (cases "f \<in> set (rows (focuses db))")
      case True
      then show ?thesis using ok r by (auto simp: env_ok_def loosely_ok_def focus_ok_def env_simps)
    next
      case False
      then have "fo_worktree f = w" "s = Some (su_id r)" using rows' [OF f] r(2) by auto
      then show ?thesis using valid r(1) tab_wf_inj [OF wf(1)] by (auto simp: focus_valid_def env_simps)
    qed
  next
    fix f r
    assume f: "f \<in> set (rows (focuses ?d))" and r: "r \<in> set (rows (panes ?d))" "fo_pane f = Some (pn_id r)"
    show "fo_surface f = Some (pn_surface r)"
    proof (cases "f \<in> set (rows (focuses db))")
      case True
      then show ?thesis using ok r by (auto simp: env_ok_def loosely_ok_def focus_ok_def env_simps)
    next
      case False
      then have "fo_surface f = s" "p = Some (pn_id r)" using rows' [OF f] r(2) by auto
      then show ?thesis using valid r(1) tab_wf_inj [OF wf(2)] by (auto simp: focus_valid_def env_simps)
    qed
  qed
  moreover have "complete ?d"
  proof -
    have "set_option (fo_surface f) \<subseteq> su_id ` set (rows (surfaces db))"
      "set_option (fo_pane f) \<subseteq> pn_id ` set (rows (panes db))" "fo_worktree f \<in> wt_id ` set (rows (worktrees db))"
      if "f \<in> set (rows (focuses ?d))" for f
    proof -
      have "set_option s \<subseteq> su_id ` set (rows (surfaces db))" "set_option p \<subseteq> pn_id ` set (rows (panes db))"
        "w \<in> wt_id ` set (rows (worktrees db))"
        using valid by (auto simp: focus_valid_def)
      moreover have "set_option (fo_surface g) \<subseteq> su_id ` set (rows (surfaces db)) \<and>
          set_option (fo_pane g) \<subseteq> pn_id ` set (rows (panes db)) \<and> fo_worktree g \<in> wt_id ` set (rows (worktrees db))"
        if "g \<in> set (rows (focuses db))" for g
        using ok that by (simp add: env_ok_def complete_def Let_def image_subset_iff)
      ultimately show "set_option (fo_surface f) \<subseteq> su_id ` set (rows (surfaces db))"
        "set_option (fo_pane f) \<subseteq> pn_id ` set (rows (panes db))" "fo_worktree f \<in> wt_id ` set (rows (worktrees db))"
        using rows' [OF that] by metis+
    qed
    then show ?thesis using ok by (auto simp: env_ok_def complete_def Let_def env_simps)
  qed
  ultimately show "env_ok ?d"
    using ok by (simp add: env_ok_def loosely_ok_def focus_surface_rows_tables projects_ok_def layouts_ok_def
        bindings_ok_def env_simps)
  show "env_grows db ?d" by (simp add: env_grows_def env_simps)
qed

section \<open>New surfaces\<close>

lemma insert_surface_ok:
  assumes ok: "env_ok db" and w: "w \<in> wt_id ` set (rows (worktrees db))"
    and ins: "insert_empty_surface_row now w base db = ((s, title), db')"
  shows "env_ok db'" and "env_grows db db'" and "surface_panes db' s = []"
    and "\<exists>su \<in> set (rows (surfaces db')). su_id su = s \<and> su_worktree su = w"
    and "worktrees db' = worktrees db" and "reject_initial_session db' = reject_initial_session db"
proof -
  obtain tt so where db': "db' = db\<lparr>surfaces := snd (tab_insert (\<lambda>i. \<lparr>su_id = i, su_worktree = w, su_title = tt,
      su_layout = None, su_sort = so, su_created = now, su_updated = now\<rparr>) (surfaces db))\<rparr>"
    and s: "s = next_id (surfaces db)"
  proof -
    let ?existing = "filter (\<lambda>s. su_worktree s = w) (rows (surfaces db))"
    show thesis
      using ins
      by (intro that [where tt = "duplicate_safe_title base (map su_title ?existing)"
            and so = "fold (\<lambda>x m. max m (su_sort x)) ?existing (-1) + 1"])
        (auto simp: insert_empty_surface_row_def tab_insert_def Let_def)
  qed
  let ?su = "\<lparr>su_id = s, su_worktree = w, su_title = tt, su_layout = None, su_sort = so, su_created = now, su_updated = now\<rparr>"
  have rows': "rows (surfaces db') = rows (surfaces db) @ [?su]" by (simp add: db' s tab_insert_simps)
  have same: "panes db' = panes db" "focuses db' = focuses db" "worktrees db' = worktrees db"
    "projects db' = projects db" "\<And>k. session_table k db' = session_table k db" "surface_panes db' = surface_panes db"
    by (simp_all add: db' env_simps)
  have fresh: "su_id q \<noteq> s" if "q \<in> set (rows (surfaces db))" for q
    using ok that by (auto simp: s env_ok_def loosely_ok_def tables_ok_def dest: tab_wf_less)
  have refs: "pn_surface p \<noteq> s" if "p \<in> set (rows (panes db))" for p
    using ok that fresh by (force simp: env_ok_def complete_def Let_def)
  have unfocused: "fo_surface f \<noteq> Some s" if "f \<in> set (rows (focuses db))" for f
    using ok that fresh by (force simp: env_ok_def complete_def Let_def)
  show empty: "surface_panes db' s = []" using refs by (auto simp: same surface_panes_def filter_empty_conv)
  have "tables_ok db'"
    using ok by (simp add: env_ok_def loosely_ok_def tables_ok_def same) (simp add: db' tab_wf_insert)
  moreover have "layouts_ok db'"
    using ok empty by (auto simp: env_ok_def loosely_ok_def layouts_ok_def same rows' layout_places_def)
  moreover have "focus_ok db'"
    using ok unfocused by (auto simp: env_ok_def loosely_ok_def focus_ok_def same rows')
  moreover have "bindings_ok db'"
    unfolding bindings_ok_def
  proof (intro ballI allI impI conjI)
    fix p k i r
    assume p: "p \<in> set (rows (panes db'))" "holds_session k i p"
      and r: "r \<in> set (rows (surfaces db'))" "su_id r = pn_surface p"
    have "p \<in> set (rows (panes db))" using p(1) by (simp add: same)
    moreover have "r \<in> set (rows (surfaces db))" using r refs [OF calculation] by (auto simp: rows')
    ultimately show "\<exists>x \<in> set (rows (session_table k db')). se_id x = i \<and> se_worktree x = su_worktree r"
      using ok p(2) r(2) unfolding env_ok_def loosely_ok_def bindings_ok_def same by meson
  next
    fix p k i q
    assume "p \<in> set (rows (panes db'))" "holds_session k i p" "q \<in> set (rows (panes db'))" "holds_session k i q"
    then show "q = p" using ok unfolding env_ok_def loosely_ok_def bindings_ok_def same by meson
  qed
  moreover have "complete db'"
  proof -
    have "complete db" using ok by (simp add: env_ok_def)
    then show ?thesis using w unfolding complete_def Let_def same rows' by (simp add: subset_insertI2)
  qed
  ultimately show "env_ok db'" using ok by (simp add: env_ok_def loosely_ok_def projects_ok_def same)
  show "env_grows db db'" by (simp add: env_grows_def same) (simp add: db' parents_kept_insert)
  show "\<exists>su \<in> set (rows (surfaces db')). su_id su = s \<and> su_worktree su = w" by (simp add: rows')
  show "worktrees db' = worktrees db" by (rule same(3))
  show "reject_initial_session db' = reject_initial_session db"
    by (simp add: reject_initial_session_def fun_eq_iff db')
qed

lemma find_worktree_known: "env_ok db \<Longrightarrow> (find_worktree db w \<noteq> None) = (w \<in> wt_id ` set (rows (worktrees db)))"
  using find_key_None [of wt_id "worktrees db" w] by (auto simp: find_worktree_def)

lemma create_empty_surface_ok:
  assumes ok: "env_ok db" and made: "create_empty_surface now w base db = Inr ((s, title), db')"
  shows "env_ok db'" and "env_grows db db'"
proof -
  obtain d where w: "w \<in> wt_id ` set (rows (worktrees db))"
    and ins: "insert_empty_surface_row now w base db = ((s, title), d)"
    and db': "db' = focus_surface_rows now w (Some s) None d"
    using made find_worktree_known [OF ok]
    by (auto simp: create_empty_surface_def Let_def split: if_splits prod.splits)
  note new = insert_surface_ok [OF ok w ins]
  have "focus_valid d w (Some s) None" using new(4) w by (auto simp: focus_valid_def new(5))
  then show "env_ok db'" "env_grows db db'"
    using focus_surface_rows_ok [OF new(1)] new(2) env_grows_trans by (auto simp: db')
qed

lemma create_single_pane_surface_ok:
  assumes ok: "env_ok db" and made: "create_single_pane_surface now w base editor db = Inr ((s, p, title), db')"
  shows "env_ok db'" and "env_grows db db'"
proof -
  obtain d1 d2 where w: "w \<in> wt_id ` set (rows (worktrees db))"
    and editor: "Option.bind editor (reject_initial_session db w) = None"
    and ins: "insert_empty_surface_row now w base db = ((s, title), d1)"
    and pane: "insert_root_pane_rows now s title editor d1 = (p, d2)"
    and db': "db' = focus_surface_rows now w (Some s) (Some p) d2"
    using made find_worktree_known [OF ok]
    by (auto simp: create_single_pane_surface_def Let_def split: if_splits prod.splits option.splits)
  note new = insert_surface_ok [OF ok w ins]
  obtain su where su: "su \<in> set (rows (surfaces d1))" "su_id su = s" "su_worktree su = w" using new(4) by blast
  note root = insert_root_pane_ok [OF new(1) su(1), unfolded su(2,3), OF new(3) _ pane]
  have e: "Option.bind editor (reject_initial_session d1 w) = None" using editor new(6) by simp
  have "focus_valid d2 w (Some s) (Some p)"
    using root(4,5) [OF e] w by (auto simp: focus_valid_def root(6) [OF e] new(5))
  note focus = focus_surface_rows_ok [OF root(1) [OF e] this, of now]
  show "env_ok db'" unfolding db' by (rule focus(1))
  show "env_grows db db'"
    unfolding db' by (rule env_grows_trans [OF new(2) env_grows_trans [OF root(2) [OF e] focus(2)]])
qed

lemma start_surface_pane_ok:
  assumes ok: "env_ok db" and made: "start_surface_pane now s base editor db = Inr ((w, p), db')"
  shows "env_ok db'" and "env_grows db db'"
proof -
  obtain su d where su: "find_surface db s = Some su" "surface_panes db s = []" "w = su_worktree su"
    and editor: "Option.bind editor (reject_initial_session db (su_worktree su)) = None"
    and pane: "insert_root_pane_rows now s base editor db = (p, d)"
    and db': "db' = focus_surface_rows now w (Some s) (Some p) d"
    using made by (auto simp: start_surface_pane_def Let_def split: if_splits prod.splits option.splits)
  note at = surface_layout_places(2,3) [OF ok su(1)]
  note root = insert_root_pane_ok [OF ok at(2), unfolded at(1), OF su(2) editor pane]
  have "w \<in> wt_id ` set (rows (worktrees db))"
    using ok at(2) by (auto simp: env_ok_def complete_def Let_def su(3))
  then have "focus_valid d w (Some s) (Some p)"
    using root(4,5) by (auto simp: focus_valid_def root(6) su(3))
  then show "env_ok db'" "env_grows db db'"
    using focus_surface_rows_ok [OF root(1)] root(2) env_grows_trans unfolding db' by blast+
qed

section \<open>Changes of surfaces that leave their layouts\<close>

lemma surfaces_mapped_ok:
  assumes ok: "env_ok db" and t: "rows t = map h (rows (surfaces db))" "next_id t = next_id (surfaces db)"
    and h: "\<And>r. su_id (h r) = su_id r" "\<And>r. su_worktree (h r) = su_worktree r" "\<And>r. su_layout (h r) = su_layout r"
  shows "env_ok (db\<lparr>surfaces := t\<rparr>)" and "env_grows db (db\<lparr>surfaces := t\<rparr>)"
proof -
  have eq: "t = (surfaces db)\<lparr>rows := map h (rows (surfaces db))\<rparr>" using t by (cases t) simp
  have "tables_ok (db\<lparr>surfaces := t\<rparr>)"
    using ok by (simp add: env_ok_def loosely_ok_def tables_ok_def env_simps eq tab_wf_map h)
  moreover have "layouts_ok (db\<lparr>surfaces := t\<rparr>)"
    using ok by (simp add: env_ok_def loosely_ok_def layouts_ok_def env_simps t h)
  moreover have "focus_ok (db\<lparr>surfaces := t\<rparr>)" using ok by (simp add: env_ok_def loosely_ok_def focus_ok_def t h)
  moreover have "bindings_ok (db\<lparr>surfaces := t\<rparr>)"
    using ok by (simp add: env_ok_def loosely_ok_def bindings_ok_def env_simps t h)
  moreover have "complete (db\<lparr>surfaces := t\<rparr>)"
    using ok by (simp add: env_ok_def complete_def env_simps t h image_image)
  ultimately show "env_ok (db\<lparr>surfaces := t\<rparr>)" using ok by (simp add: env_ok_def loosely_ok_def projects_ok_def)
  show "env_grows db (db\<lparr>surfaces := t\<rparr>)" by (simp add: env_grows_def env_simps eq parents_kept_map h)
qed

lemma rename_surface_ok: "env_ok db \<Longrightarrow> env_ok (rename_surface now s title db) \<and> env_grows db (rename_surface now s title db)"
  using surfaces_mapped_ok [of db "tab_update su_id s (\<lambda>r. r\<lparr>su_title := title, su_updated := now\<rparr>) (surfaces db)"
      "\<lambda>r. if su_id r = s then r\<lparr>su_title := title, su_updated := now\<rparr> else r"]
  by (simp add: rename_surface_def tab_update_def)

lemma fold_rank_rows:
  "\<exists>h. rows (fold (\<lambda>(j, r). set_surface_rank now j r) cs t) = map h (rows t) \<and>
     next_id (fold (\<lambda>(j, r). set_surface_rank now j r) cs t) = next_id t \<and>
     (\<forall>r. su_id (h r) = su_id r \<and> su_worktree (h r) = su_worktree r \<and> su_layout (h r) = su_layout r)"
proof (induction cs arbitrary: t)
  case Nil
  then show ?case by (auto intro: exI [of _ "\<lambda>r. r"])
next
  case (Cons c cs)
  let ?g = "\<lambda>r. if su_id r = fst c then r\<lparr>su_sort := snd c, su_updated := now\<rparr> else r"
  obtain h where "rows (fold (\<lambda>(j, r). set_surface_rank now j r) cs (set_surface_rank now (fst c) (snd c) t)) =
      map h (rows (set_surface_rank now (fst c) (snd c) t))"
    "next_id (fold (\<lambda>(j, r). set_surface_rank now j r) cs (set_surface_rank now (fst c) (snd c) t)) =
      next_id (set_surface_rank now (fst c) (snd c) t)"
    "\<And>r. su_id (h r) = su_id r \<and> su_worktree (h r) = su_worktree r \<and> su_layout (h r) = su_layout r"
    using Cons [of "set_surface_rank now (fst c) (snd c) t"] by blast
  moreover have "rows (set_surface_rank now (fst c) (snd c) t) = map ?g (rows t)"
    "next_id (set_surface_rank now (fst c) (snd c) t) = next_id t"
    by (simp_all add: set_surface_rank_def tab_update_def)
  ultimately show ?case by (intro exI [of _ "h \<circ> ?g"]) (simp add: case_prod_unfold)
qed

lemma move_surface_order_ok:
  assumes ok: "env_ok db" and moved: "move_surface_order now w s before db = Inr db'"
  shows "env_ok db'" and "env_grows db db'"
proof -
  have db': "db' = db\<lparr>surfaces := fold (\<lambda>(j, r). set_surface_rank now j r)
      (rank_writes (surface_siblings w (surfaces db)) s before) (surfaces db)\<rparr>"
    using moved by (auto simp: move_surface_order_def Let_def split: option.splits if_splits)
  show "env_ok db'" "env_grows db db'"
    using fold_rank_rows [of now "rank_writes (surface_siblings w (surfaces db)) s before" "surfaces db"]
      surfaces_mapped_ok [OF ok] unfolding db' by metis+
qed

end
