(* ===== verification/Surface_Steps.thy ===== *)
theory Surface_Steps
  imports Surface_Invariant
begin

text \<open>
  Every transaction on the environment, in any order. A request that reads and checks in one call of
  the database and writes in another is two steps, with any number of steps of others between; the
  one exception is the resize of a split, see the header of the development.
\<close>

section \<open>Sessions\<close>

lemma panes_mapped_ok:
  assumes ok: "env_ok db" and h: "\<And>r. pn_id (h r) = pn_id r" "\<And>r. pn_surface (h r) = pn_surface r"
    and bound: "bindings_ok (db\<lparr>panes := (panes db)\<lparr>rows := map h (rows (panes db))\<rparr>\<rparr>)"
  shows "env_ok (db\<lparr>panes := (panes db)\<lparr>rows := map h (rows (panes db))\<rparr>\<rparr>)"
    and "env_grows db (db\<lparr>panes := (panes db)\<lparr>rows := map h (rows (panes db))\<rparr>\<rparr>)"
proof -
  let ?d = "db\<lparr>panes := (panes db)\<lparr>rows := map h (rows (panes db))\<rparr>\<rparr>"
  have ids: "map pn_id (surface_panes ?d s) = map pn_id (surface_panes db s)" for s
    by (simp add: surface_panes_def filter_map comp_def h)
  have "tables_ok ?d" using ok by (simp add: env_ok_def loosely_ok_def tables_ok_def env_simps tab_wf_map h)
  moreover have "layouts_ok ?d" using ok by (simp add: env_ok_def loosely_ok_def layouts_ok_def ids)
  moreover have "focus_ok ?d" using ok by (simp add: env_ok_def loosely_ok_def focus_ok_def h)
  moreover have "complete ?d" using ok by (simp add: env_ok_def complete_def env_simps image_image h)
  ultimately show "env_ok ?d" using ok bound by (simp add: env_ok_def loosely_ok_def projects_ok_def)
  show "env_grows db ?d" by (simp add: env_grows_def env_simps parents_kept_map h)
qed

text \<open>A session may be bound to a pane of its worktree.\<close>

definition may_bind :: "env_db \<Rightarrow> nat \<Rightarrow> session_kind \<Rightarrow> nat \<Rightarrow> bool" where
  "may_bind db p k i =
     (\<forall>r \<in> set (rows (panes db)). pn_id r = p \<longrightarrow>
        (\<forall>su \<in> set (rows (surfaces db)). su_id su = pn_surface r \<longrightarrow>
           (\<forall>x \<in> set (rows (session_table k db)). se_id x = i \<longrightarrow> se_worktree x = su_worktree su)))"

lemma claim_ok:
  assumes ok: "env_ok db" and may: "may_bind db p k i" and claimed: "claim_pane_session now p k i db = (Claimed, db')"
  shows "env_ok db'" and "env_grows db db'"
proof -
  let ?h = "\<lambda>r. if holds_session k i r then r\<lparr>pn_kind := None, pn_session := None, pn_updated := now\<rparr> else r"
  define g where "g = (\<lambda>r. if pn_id r = p
    then (?h r)\<lparr>pn_kind := Some k, pn_session := Some i, pn_updated := now\<rparr> else ?h r)"
  define d where "d = db\<lparr>panes := (panes db)\<lparr>rows := map g (rows (panes db))\<rparr>\<rparr>"
  have same: "set (rows (panes d)) = g ` set (rows (panes db))" "surfaces d = surfaces db"
    "session_table j d = session_table j db" for j
    by (simp_all add: d_def env_simps)
  have there: "p \<in> pn_id ` set (rows (panes db))" "i \<in> se_id ` set (rows (session_table k db))"
    using claimed find_key_None [of pn_id "panes db" p] find_key_None [of se_id "session_table k db" i]
    by (auto simp: claim_pane_session_def find_pane_def split: if_splits)
  have db': "db' = d"
    using claimed by (auto simp: d_def g_def claim_pane_session_def tab_update_def Let_def split: if_splits)
  have wf: "tab_wf pn_id (panes db)" using ok by (simp add: env_ok_def loosely_ok_def tables_ok_def)
  have old: "\<exists>x \<in> set (rows (session_table j db)). se_id x = m \<and> se_worktree x = su_worktree su"
    if "r \<in> set (rows (panes db))" "holds_session j m r" "su \<in> set (rows (surfaces db))" "su_id su = pn_surface r"
    for r su j m
    using ok that unfolding env_ok_def loosely_ok_def bindings_ok_def by meson
  have unique: "q = r" if "r \<in> set (rows (panes db))" "holds_session j m r" "q \<in> set (rows (panes db))"
    "holds_session j m q" for q r j m
    using ok that unfolding env_ok_def loosely_ok_def bindings_ok_def by meson
  have holds: "holds_session j m (g r) \<longleftrightarrow>
      (if pn_id r = p then j = k \<and> m = i else holds_session j m r \<and> \<not> (j = k \<and> m = i))" for j m r
    by (auto simp: g_def holds_session_def)
  have parts: "pn_id (g r) = pn_id r" "pn_surface (g r) = pn_surface r" for r by (simp_all add: g_def)
  have "bindings_ok d"
    unfolding bindings_ok_def
  proof (intro ballI allI impI conjI)
    fix r j m su
    assume "r \<in> set (rows (panes d))"
      and hold: "holds_session j m r" and "su \<in> set (rows (surfaces d))"
      and at: "su_id su = pn_surface r"
    then obtain q where q: "r = g q" "q \<in> set (rows (panes db))" and su: "su \<in> set (rows (surfaces db))"
      by (auto simp: same)
    have "\<exists>x \<in> set (rows (session_table j db)). se_id x = m \<and> se_worktree x = su_worktree su"
    proof (cases "pn_id q = p")
      case True
      then have "j = k" "m = i" using hold unfolding q(1) holds by simp_all
      then show ?thesis
        using may there(2) True q(2) su at unfolding q(1) parts may_bind_def by blast
    next
      case False
      then have "holds_session j m q" using hold unfolding q(1) holds by simp
      then show ?thesis using old q(2) su at unfolding q(1) parts by blast
    qed
    then show "\<exists>x \<in> set (rows (session_table j d)).
        se_id x = m \<and> se_worktree x = su_worktree su"
      by (simp only: same)
  next
    fix r j m q
    assume "r \<in> set (rows (panes d))"
      and hr: "holds_session j m r"
      and "q \<in> set (rows (panes d))" and hq: "holds_session j m q"
    then obtain a b where ab: "r = g a" "a \<in> set (rows (panes db))" "q = g b" "b \<in> set (rows (panes db))"
      by (auto simp: same)
    show "q = r"
    proof (cases "j = k \<and> m = i")
      case True
      then have "pn_id a = p" "pn_id b = p" using hr hq unfolding ab(1,3) holds by (auto split: if_splits)
      then have "a = b" using tab_wf_inj [OF wf ab(2,4)] by simp
      then show ?thesis by (simp only: ab)
    next
      case False
      then have "holds_session j m a" "holds_session j m b" using hr hq unfolding ab(1,3) holds by (auto split: if_splits)
      then have "b = a" using unique ab(2,4) by blast
      then show ?thesis by (simp only: ab)
    qed
  qed
  then show "env_ok db'" "env_grows db db'"
    unfolding db' d_def by (intro panes_mapped_ok [OF ok]; simp add: parts)+
qed

lemma session_table_changed_ok:
  assumes ok: "env_ok db" and wf: "tab_wf se_id t"
    and parents: "se_worktree ` set (rows t) \<subseteq> wt_id ` set (rows (worktrees db))"
    and kept: "\<And>p i x. p \<in> set (rows (panes db)) \<Longrightarrow> holds_session k i p \<Longrightarrow> x \<in> set (rows (session_table k db)) \<Longrightarrow>
      se_id x = i \<Longrightarrow> \<exists>y \<in> set (rows t). se_id y = i \<and> se_worktree y = se_worktree x"
    and grown: "parents_kept se_id se_worktree (session_table k db) t"
  shows "env_ok (set_session_table k t db)" and "env_grows db (set_session_table k t db)"
proof -
  let ?d = "set_session_table k t db"
  have "tables_ok ?d" using ok wf by (simp add: env_ok_def loosely_ok_def tables_ok_def env_simps)
  moreover have "layouts_ok ?d" using ok by (simp add: env_ok_def loosely_ok_def layouts_ok_def env_simps)
  moreover have "focus_ok ?d" using ok by (simp add: env_ok_def loosely_ok_def focus_ok_def env_simps)
  moreover have "bindings_ok ?d"
    unfolding bindings_ok_def
  proof (intro ballI allI impI conjI)
    fix p j i s
    assume p: "p \<in> set (rows (panes ?d))" "holds_session j i p" and s: "s \<in> set (rows (surfaces ?d))" "su_id s = pn_surface p"
    then obtain x where x: "x \<in> set (rows (session_table j db))" "se_id x = i" "se_worktree x = su_worktree s"
      using ok unfolding env_ok_def loosely_ok_def bindings_ok_def set_session_table_frame by meson
    show "\<exists>x \<in> set (rows (session_table j ?d)). se_id x = i \<and> se_worktree x = su_worktree s"
    proof (cases "j = k")
      case True
      then show ?thesis using kept [of p i x] p x by (simp add: env_simps)
    qed (use x in \<open>auto simp: env_simps\<close>)
  next
    fix p j i q
    assume "p \<in> set (rows (panes ?d))" "holds_session j i p" "q \<in> set (rows (panes ?d))" "holds_session j i q"
    then show "q = p"
      using ok unfolding env_ok_def loosely_ok_def bindings_ok_def set_session_table_frame by meson
  qed
  moreover have "complete ?d" using ok parents by (simp add: env_ok_def complete_def Let_def env_simps)
  ultimately show "env_ok ?d" using ok by (simp add: env_ok_def loosely_ok_def projects_ok_def env_simps)
  show "env_grows db ?d" using grown by (simp add: env_grows_def env_simps)
qed

lemma env_session_wf: "env_ok db \<Longrightarrow> tab_wf se_id (session_table k db)"
  by (simp add: env_ok_def loosely_ok_def tables_ok_def)

lemma env_session_parents: "env_ok db \<Longrightarrow> se_worktree ` set (rows (session_table k db)) \<subseteq> wt_id ` set (rows (worktrees db))"
  by (simp add: env_ok_def complete_def Let_def)

lemma create_session_ok:
  assumes ok: "env_ok db" and made: "create_session now k w db = Some (i, db')"
  shows "env_ok db'" and "env_grows db db'"
proof -
  let ?mk = "\<lambda>i. \<lparr>se_id = i, se_worktree = w, se_process = None, se_created = now, se_updated = now\<rparr>"
  have w: "w \<in> wt_id ` set (rows (worktrees db))"
    using made find_worktree_known [OF ok] by (auto simp: create_session_def split: if_splits)
  have db': "db' = set_session_table k (snd (tab_insert ?mk (session_table k db))) db"
    using made by (auto simp: create_session_def Let_def case_prod_unfold split: if_splits)
  show "env_ok db'" "env_grows db db'"
    unfolding db' using w env_session_parents [OF ok, of k]
    by (intro session_table_changed_ok [OF ok]; auto simp: tab_insert_simps tab_wf_insert env_session_wf [OF ok] parents_kept_insert)+
qed

lemma set_active_process_ok:
  "env_ok db \<Longrightarrow> env_ok (set_active_process now k i pr db) \<and> env_grows db (set_active_process now k i pr db)"
proof -
  assume ok: "env_ok db"
  let ?t = "tab_update se_id i (\<lambda>r. r\<lparr>se_process := pr, se_updated := now\<rparr>) (session_table k db)"
  have w: "se_worktree ` set (rows ?t) = se_worktree ` set (rows (session_table k db))"
    using map_update_same [of se_worktree "\<lambda>r. r\<lparr>se_process := pr, se_updated := now\<rparr>" se_id i "session_table k db"]
    by (metis (no_types, lifting) list.set_map stored_session.select_convs(2) stored_session.surjective
        stored_session.update_convs(3,5))
  have "\<exists>y \<in> set (rows ?t). se_id y = se_id x \<and> se_worktree y = se_worktree x"
    if "x \<in> set (rows (session_table k db))" for x
    using that by (intro bexI [of _ "if se_id x = i then x\<lparr>se_process := pr, se_updated := now\<rparr> else x"])
      (auto simp: tab_update_def)
  then show ?thesis
    unfolding set_active_process_def using env_session_parents [OF ok, of k] w
    by (intro conjI session_table_changed_ok [OF ok]; auto simp: tab_wf_update env_session_wf [OF ok] parents_kept_update)
qed

text \<open>Collection deletes sessions no pane holds.\<close>

lemma delete_session_ok:
  assumes ok: "env_ok db" and free: "\<forall>p \<in> set (rows (panes db)). \<not> holds_session k i p"
  shows "env_ok (delete_session k i db)" and "env_grows db (delete_session k i db)"
  unfolding delete_session_def using free env_session_parents [OF ok, of k]
  by (intro session_table_changed_ok [OF ok]; auto simp: tab_wf_filter env_session_wf [OF ok] parents_kept_keep)+

lemma delete_sessions_ok:
  assumes "env_ok db" and "\<forall>(k, s) \<in> set cs. \<forall>p \<in> set (rows (panes db)). \<not> holds_session k (se_id s) p"
  shows "env_ok (fold (\<lambda>(k, s). delete_session k (se_id s)) cs db) \<and>
    env_grows db (fold (\<lambda>(k, s). delete_session k (se_id s)) cs db)"
  using assms
proof (induction cs arbitrary: db)
  case (Cons c cs)
  obtain k x where c: "c = (k, x)" by (cases c)
  note one = delete_session_ok [OF Cons.prems(1), of k "se_id x"]
  have "panes (delete_session k (se_id x) db) = panes db" by (simp add: delete_session_def env_simps)
  then show ?case
    using Cons.IH [of "delete_session k (se_id x) db"] one Cons.prems(2) env_grows_trans by (simp add: c)
qed simp

lemma collect_ok:
  assumes "env_ok db"
  shows "env_ok (snd (collect_orphan_sessions attached cutoff db))"
    and "env_grows db (snd (collect_orphan_sessions attached cutoff db))"
proof -
  let ?c = "filter (\<lambda>(k, s). \<not> attached k (se_id s)) (map (Pair AgentKind) (list_orphans AgentKind cutoff db) @
    map (Pair TerminalKind) (list_orphans TerminalKind cutoff db))"
  have "\<forall>(k, s) \<in> set ?c. \<forall>p \<in> set (rows (panes db)). \<not> holds_session k (se_id s) p"
    by (auto simp: list_orphans_def list_ex_iff)
  from delete_sessions_ok [OF assms this]
  show "env_ok (snd (collect_orphan_sessions attached cutoff db))"
    "env_grows db (snd (collect_orphan_sessions attached cutoff db))"
    by (simp_all add: collect_orphan_sessions_def Let_def)
qed

section \<open>Projects and worktrees\<close>

definition same_env :: "env_db \<Rightarrow> env_db \<Rightarrow> bool" where
  "same_env db db' \<longleftrightarrow>
     surfaces db' = surfaces db \<and> panes db' = panes db \<and> focuses db' = focuses db \<and>
     agent_sessions db' = agent_sessions db \<and> terminal_sessions db' = terminal_sessions db \<and>
     editor_contexts db' = editor_contexts db"

lemma same_env_refl [simp]: "same_env db db"
  by (simp add: same_env_def)

lemma insert_worktree_same_env: "insert_worktree now p d r db = Some (w, db') \<Longrightarrow> same_env db db'"
  by (auto simp: insert_worktree_def same_env_def tab_insert_def Let_def split: if_splits)

lemma reconcile_loop_same_env:
  "reconcile_loop now p n added ds db = Some (added', db') \<Longrightarrow> same_env db db'"
proof (induction now p n added ds db rule: reconcile_loop.induct)
  case (2 now p n added d ds db)
  show ?case
  proof (cases "find_project_worktree_by_path db p (dw_path d)")
    case (Some w)
    then show ?thesis using 2(2) [OF Some] 2(3) by (simp add: same_env_def)
  next
    case None
    let ?rank = "case n of Some n \<Rightarrow> n | None \<Rightarrow> next_project_worktree_order (worktrees db) p"
    from 2(3) None obtain w db1 where ins: "insert_worktree now p d ?rank db = Some (w, db1)"
      and rest: "reconcile_loop now p (Some (?rank + 1)) (added @ [summary_of w]) ds db1 = Some (added', db')"
      by (auto simp: Let_def split: option.splits)
    show ?thesis
      using 2(1) [OF None refl ins refl rest] insert_worktree_same_env [OF ins] by (simp add: same_env_def)
  qed
qed simp

lemma reconcile_same_env:
  "reconcile_project_worktrees now p ds db = Some (added, missing, db') \<Longrightarrow> same_env db db'"
  by (auto simp: reconcile_project_worktrees_def Let_def dest: reconcile_loop_same_env split: option.splits)

lemma project_act_same_env: "same_env db (project_act now a db)"
proof -
  have kept: "same_env db (or_else db r)" if "\<And>d. r = Some d \<Longrightarrow> same_env db d" for r
    using that by (simp add: or_else_def split: option.split)
  have trans: "same_env db d \<Longrightarrow> same_env d e \<Longrightarrow> same_env db e" for d e by (simp add: same_env_def)
  show ?thesis
  proof (cases a)
    case (Register name root kind)
    have "same_env db d" if c: "create_project now name root kind db = Some (p, d)" for p d
    proof -
      let ?mk = "\<lambda>i. \<lparr>pj_id = i, pj_name = name, pj_root_path = root, pj_kind = kind, pj_status = Present,
        pj_sort = next_present_project_order (projects db), pj_created = now, pj_updated = now,
        pj_last_seen = Some now, pj_missing_reason = None\<rparr>"
      let ?d = "db\<lparr>projects := snd (tab_insert ?mk (projects db))\<rparr>"
      have "d = ?d \<or> (\<exists>w x r. insert_worktree now (pj_id (fst (tab_insert ?mk (projects db)))) x r ?d = Some (w, d))"
        using c by (auto simp: create_project_def Let_def case_prod_unfold split: if_splits)
      moreover have "same_env db ?d" by (simp add: same_env_def)
      ultimately show ?thesis using insert_worktree_same_env trans by blast
    qed
    then show ?thesis unfolding Register project_act_def project_action.case by (intro kept) auto
  next
    case (Restore i root ds)
    have "same_env db d" if r: "restore_project_at_root_path now i root ds db = Some (added, missing, d)" for added missing d
    proof -
      obtain t where "reconcile_project_worktrees now i ds (db\<lparr>projects := t\<rparr>) = Some (added, missing, d)"
        using r by (auto simp: restore_project_at_root_path_def split: if_splits)
      then have "same_env (db\<lparr>projects := t\<rparr>) d" by (rule reconcile_same_env)
      then show ?thesis by (simp add: same_env_def)
    qed
    then show ?thesis unfolding Restore project_act_def project_action.case by (intro kept) auto
  next
    case (Reconcile i ds)
    then show ?thesis
      unfolding project_act_def by (auto intro!: kept dest: reconcile_same_env)
  next
    case (Move_Project i before)
    then show ?thesis
      by (auto simp: project_act_def or_stay_def move_project_order_def Let_def same_env_def
          split: sum.splits option.splits if_splits)
  next
    case (Move_Worktree p i before)
    then show ?thesis
      by (auto simp: project_act_def or_stay_def move_project_worktree_order_def Let_def same_env_def
          split: sum.splits option.splits if_splits)
  qed (simp_all add: project_act_def delete_project_def delete_worktree_def set_project_status_def same_env_def Let_def)
qed

lemma project_act_ok:
  assumes ok: "env_ok db"
  shows "env_ok (cascade (project_act now a db))" and "env_grows db (cascade (project_act now a db))"
proof -
  let ?d = "project_act now a db"
  have same: "surfaces ?d = surfaces db" "panes ?d = panes db" "focuses ?d = focuses db"
    "session_table k ?d = session_table k db" "surface_panes ?d = surface_panes db" for k
    using project_act_same_env [of db now a]
    by (auto simp: same_env_def session_table_def surface_panes_def fun_eq_iff split: session_kind.split)
  have "loosely_ok ?d"
    using ok by (simp add: env_ok_def loosely_ok_def tables_ok_def layouts_ok_def focus_ok_def bindings_ok_def same)
  moreover have "projects_ok ?d" using ok by (intro projects_ok_act) (simp add: env_ok_def)
  ultimately show "env_ok (cascade ?d)" by (simp add: cascade_env_ok)
  have "env_grows db ?d" by (simp add: env_grows_def same)
  then show "env_grows db (cascade ?d)" by (rule env_grows_trans [OF _ cascade_grows])
qed

section \<open>What happens to the environment\<close>

text \<open>
  A transaction, or a read whose answer a request goes on with: \<open>Target_Loaded\<close> is the pane and the
  surface \<open>loadPaneSessionTarget\<close> found, \<open>Claim_Checked\<close> the session that may be bound there, and
  \<open>Focus_Checked\<close> a focus that may be written, after a check of its own or after a claim.
\<close>

datatype pending =
    Target_Loaded nat nat nat
  | Claim_Checked nat nat nat session_kind nat
  | Focus_Checked nat "nat option" "nat option"

datatype env_event =
    Project_Event project_action
  | Create_Surface nat string "nat option"
  | Create_Empty nat string
  | Start_Pane nat string "nat option"
  | Split_Pane nat nat string direction
  | Resize_Split nat string "rat list"
  | Rename nat string
  | Delete_Surface nat
  | Delete_Pane nat nat
  | Reorder nat nat "nat option"
  | Create_Session session_kind nat
  | Set_Process session_kind nat "nat option"
  | Collect "session_kind \<Rightarrow> nat \<Rightarrow> bool" nat
  | Load_Target nat nat
  | Resolve_Session nat nat nat session_kind nat
  | Write_Claim nat nat nat session_kind nat
  | Check_Focus nat "nat option" "nat option"
  | Write_Focus nat "nat option" "nat option"

definition accepted :: "env_db \<Rightarrow> 'e + env_db \<Rightarrow> env_db" where
  "accepted db r = (case r of Inl e \<Rightarrow> db | Inr db' \<Rightarrow> db')"

definition write_claim :: "nat \<Rightarrow> nat \<Rightarrow> nat \<Rightarrow> nat \<Rightarrow> session_kind \<Rightarrow> nat \<Rightarrow> env_db \<times> pending list \<Rightarrow> env_db \<times> pending list"
  where
  "write_claim now w su p k i = (\<lambda>(db, q).
     let (answer, db') = claim_pane_session now p k i db;
         q' = remove1 (Claim_Checked w su p k i) q
     in (db', if answer = Claimed then Focus_Checked w (Some su) (Some p) # q' else q'))"

fun env_act :: "nat \<Rightarrow> env_event \<Rightarrow> env_db \<times> pending list \<Rightarrow> env_db \<times> pending list" where
  "env_act now (Project_Event a) (db, q) = (cascade (project_act now a db), q)"
| "env_act now (Create_Surface w base editor) (db, q) =
     (accepted db (map_sum id snd (create_single_pane_surface now w base editor db)), q)"
| "env_act now (Create_Empty w base) (db, q) = (accepted db (map_sum id snd (create_empty_surface now w base db)), q)"
| "env_act now (Start_Pane s base editor) (db, q) =
     (accepted db (map_sum id snd (start_surface_pane now s base editor db)), q)"
| "env_act now (Split_Pane s source base d) (db, q) =
     (or_else db (map_option snd (split_surface_pane now s source base d db)), q)"
| "env_act now (Resize_Split s node weights) (db, q) = (accepted db (set_split_weights now s node weights db), q)"
| "env_act now (Rename s title) (db, q) = (rename_surface now s title db, q)"
| "env_act now (Delete_Surface s) (db, q) = (snd (delete_surface s db), q)"
| "env_act now (Delete_Pane s p) (db, q) = (snd (delete_surface_pane now s p db), q)"
| "env_act now (Reorder w s before) (db, q) = (accepted db (move_surface_order now w s before db), q)"
| "env_act now (Create_Session k w) (db, q) = (or_else db (map_option snd (create_session now k w db)), q)"
| "env_act now (Set_Process k i process) (db, q) = (set_active_process now k i process db, q)"
| "env_act now (Collect attached cutoff) (db, q) = (snd (collect_orphan_sessions attached cutoff db), q)"
| "env_act now (Load_Target w p) (db, q) =
     (db, case load_pane_session_target w p db of Inl e \<Rightarrow> q | Inr (su, cwd) \<Rightarrow> Target_Loaded w su p # q)"
| "env_act now (Resolve_Session w su p k i) (db, q) =
     (db, if Target_Loaded w su p \<in> set q \<and> ensure_session_in_worktree k i w db = None
          then Claim_Checked w su p k i # remove1 (Target_Loaded w su p) q else q)"
| "env_act now (Write_Claim w su p k i) (db, q) =
     (if Claim_Checked w su p k i \<in> set q then write_claim now w su p k i (db, q) else (db, q))"
| "env_act now (Check_Focus w s p) (db, q) =
     (db, if check_environment_focus w s p db = None then Focus_Checked w s p # q else q)"
| "env_act now (Write_Focus w s p) (db, q) =
     (if Focus_Checked w s p \<in> set q
      then (or_else db (set_environment_focus now w s p db), remove1 (Focus_Checked w s p) q) else (db, q))"

definition no_env :: env_db where
  "no_env = \<lparr>projects = tab_empty, worktrees = tab_empty, surfaces = tab_empty, panes = tab_empty,
     focuses = tab_empty, agent_sessions = tab_empty, terminal_sessions = tab_empty,
     editor_contexts = tab_empty\<rparr>"

definition env_after :: "(nat \<times> env_event) list \<Rightarrow> env_db \<times> pending list" where
  "env_after events = fold (\<lambda>(now, e). env_act now e) events (no_env, [])"

section \<open>What was checked stays so\<close>

fun pend_ok :: "env_db \<Rightarrow> pending \<Rightarrow> bool" where
  "pend_ok db (Target_Loaded w su p) =
     (remembers pn_id pn_surface (panes db) p su \<and> remembers su_id su_worktree (surfaces db) su w)"
| "pend_ok db (Claim_Checked w su p k i) =
     (remembers pn_id pn_surface (panes db) p su \<and> remembers su_id su_worktree (surfaces db) su w \<and>
      remembers se_id se_worktree (session_table k db) i w)"
| "pend_ok db (Focus_Checked w s p) =
     ((\<forall>i. s = Some i \<longrightarrow> remembers su_id su_worktree (surfaces db) i w) \<and>
      (\<forall>j. p = Some j \<longrightarrow> (\<exists>i. s = Some i \<and> remembers pn_id pn_surface (panes db) j i)))"

lemma pend_ok_grows: "pend_ok db x \<Longrightarrow> env_grows db db' \<Longrightarrow> pend_ok db' x"
proof -
  assume ok: "pend_ok db x" and g: "env_grows db db'"
  have su: "remembers su_id su_worktree (surfaces db) i v \<Longrightarrow> remembers su_id su_worktree (surfaces db') i v"
    and pn: "remembers pn_id pn_surface (panes db) i v \<Longrightarrow> remembers pn_id pn_surface (panes db') i v"
    and se: "remembers se_id se_worktree (session_table k db) i v \<Longrightarrow>
      remembers se_id se_worktree (session_table k db') i v" for i v k
    using g by (auto simp: env_grows_def intro: remembers_grows)
  show ?thesis using ok by (cases x) (auto simp: su pn se)
qed

definition requests_ok :: "env_db \<times> pending list \<Rightarrow> bool" where
  "requests_ok = (\<lambda>(db, q). env_ok db \<and> list_all (pend_ok db) q)"

lemma requests_okI: "env_ok db' \<Longrightarrow> env_grows db db' \<Longrightarrow> list_all (pend_ok db) q \<Longrightarrow> requests_ok (db', q)"
  by (auto simp: requests_ok_def list_all_iff intro: pend_ok_grows)

lemma env_wfs:
  assumes "env_ok db"
  shows "tab_wf su_id (surfaces db)" "tab_wf pn_id (panes db)" "tab_wf se_id (session_table k db)"
  using assms by (simp_all add: env_ok_def loosely_ok_def tables_ok_def)

lemma loaded_target_ok:
  assumes "env_ok db" and "load_pane_session_target w p db = Inr (su, cwd)"
  shows "pend_ok db (Target_Loaded w su p)"
proof -
  obtain pn s where "find_pane db p = Some pn" "find_surface db (pn_surface pn) = Some s" "su_worktree s = w" "su = su_id s"
    using assms(2) by (auto simp: load_pane_session_target_def split: option.splits if_splits)
  moreover from this have "su_id s = pn_surface pn"
    using env_wfs(1) [OF assms(1)] by (simp add: find_surface_def tab_get_iff)
  ultimately show ?thesis
    using remembers_found [OF env_wfs(2) [OF assms(1)], of p pn pn_surface]
      remembers_found [OF env_wfs(1) [OF assms(1)], of "pn_surface pn" s su_worktree]
    by (simp add: find_pane_def find_surface_def)
qed

lemma checked_focus_ok:
  assumes "env_ok db" and "check_environment_focus w s p db = None"
  shows "pend_ok db (Focus_Checked w s p)"
proof -
  have "remembers su_id su_worktree (surfaces db) i w" if "s = Some i" for i
    using assms(2) that remembers_found [OF env_wfs(1) [OF assms(1)], of i _ su_worktree]
    by (auto simp: check_environment_focus_def find_surface_def split: if_splits option.splits)
  moreover have "\<exists>i. s = Some i \<and> remembers pn_id pn_surface (panes db) j i" if "p = Some j" for j
    using assms(2) that remembers_found [OF env_wfs(2) [OF assms(1)], of j _ pn_surface]
    by (auto simp: check_environment_focus_def find_pane_def split: if_splits option.splits)
  ultimately show ?thesis by simp
qed

lemma resolved_session_ok:
  assumes "env_ok db" and "ensure_session_in_worktree k i w db = None"
  shows "remembers se_id se_worktree (session_table k db) i w"
  using assms(2) remembers_found [OF env_wfs(3) [OF assms(1)], of k i _ se_worktree]
  by (auto simp: ensure_session_in_worktree_def split: option.splits if_splits)

lemma written_focus_ok:
  assumes ok: "env_ok db" and pend: "pend_ok db (Focus_Checked w s p)"
    and written: "set_environment_focus now w s p db = Some db'"
  shows "env_ok db'" and "env_grows db db'"
proof -
  have there: "w \<in> wt_id ` set (rows (worktrees db))" "\<And>i. s = Some i \<Longrightarrow> i \<in> su_id ` set (rows (surfaces db))"
    "\<And>j. p = Some j \<Longrightarrow> j \<in> pn_id ` set (rows (panes db))" and db': "db' = focus_surface_rows now w s p db"
    using written find_worktree_known [OF ok] find_key_None [of su_id "surfaces db"] find_key_None [of pn_id "panes db"]
    by (auto simp: set_environment_focus_def find_surface_def find_pane_def split: if_splits)
  have "focus_valid db w s p"
    using there pend by (fastforce simp: focus_valid_def remembers_def)
  from focus_surface_rows_ok [OF ok this, of now] show "env_ok db'" "env_grows db db'" by (simp_all add: db')
qed

lemma written_claim_ok:
  assumes ok: "env_ok db" and pend: "pend_ok db (Claim_Checked w su p k i)"
    and claimed: "claim_pane_session now p k i db = (answer, db')"
  shows "env_ok db'" and "env_grows db db'"
proof -
  have "may_bind db p k i" using pend by (auto simp: may_bind_def remembers_def)
  moreover have "db' = db" if "answer \<noteq> Claimed"
    using claimed that by (auto simp: claim_pane_session_def Let_def split: if_splits)
  ultimately show "env_ok db'" "env_grows db db'"
    using claim_ok [OF ok, of p k i now db'] claimed ok by (cases "answer = Claimed"; simp)+
qed

lemma env_act_ok: "requests_ok (db, q) \<Longrightarrow> requests_ok (env_act now e (db, q))"
proof -
  assume all: "requests_ok (db, q)"
  then have ok: "env_ok db" and pend: "list_all (pend_ok db) q" by (simp_all add: requests_ok_def)
  have stay: "requests_ok (db, q')" if "list_all (pend_ok db) q'" for q' using ok that by (simp add: requests_ok_def)
  have pended: "pend_ok db x" if "x \<in> set q" for x using pend that by (simp add: list_all_iff)
  have rest: "list_all (pend_ok d) (remove1 x q)" if "env_grows db d" for d x
    using pend pend_ok_grows [OF _ that] set_remove1_subset by (fastforce simp: list_all_iff)
  have go: "requests_ok (d, q)" if "env_ok d" "env_grows db d" for d
    using requests_okI [OF that pend] .
  show ?thesis
  proof (cases e)
    case (Project_Event a)
    then show ?thesis using project_act_ok [OF ok] go by simp
  next
    case (Create_Surface w base editor)
    show ?thesis
      using all create_single_pane_surface_ok [OF ok, of now w base editor] go
      by (cases "create_single_pane_surface now w base editor db") (fastforce simp: Create_Surface accepted_def)+
  next
    case (Create_Empty w base)
    show ?thesis
      using all create_empty_surface_ok [OF ok, of now w base] go
      by (cases "create_empty_surface now w base db") (fastforce simp: Create_Empty accepted_def)+
  next
    case (Start_Pane s base editor)
    show ?thesis
      using all start_surface_pane_ok [OF ok, of now s base editor] go
      by (cases "start_surface_pane now s base editor db") (fastforce simp: Start_Pane accepted_def)+
  next
    case (Split_Pane s source base d)
    show ?thesis
      using all split_surface_pane_ok [OF ok, of now s source base d] go
      by (cases "split_surface_pane now s source base d db") (fastforce simp: Split_Pane or_else_def)+
  next
    case (Resize_Split s node ws)
    show ?thesis
      using all set_split_weights_ok [OF ok, of now s node ws] go
      by (cases "set_split_weights now s node ws db") (fastforce simp: Resize_Split accepted_def)+
  next
    case (Rename s title)
    then show ?thesis using rename_surface_ok [OF ok] go by simp
  next
    case (Delete_Surface s)
    then show ?thesis using delete_surface_ok [OF ok] go by simp
  next
    case (Delete_Pane s p)
    then show ?thesis using delete_surface_pane_ok(1,2) [OF ok] go by simp
  next
    case (Reorder w s before)
    show ?thesis
      using all move_surface_order_ok [OF ok, of now w s before] go
      by (cases "move_surface_order now w s before db") (fastforce simp: Reorder accepted_def)+
  next
    case (Create_Session k w)
    show ?thesis
      using all create_session_ok [OF ok, of now k w] go
      by (cases "create_session now k w db") (fastforce simp: Create_Session or_else_def)+
  next
    case (Set_Process k i process)
    then show ?thesis using set_active_process_ok [OF ok] go by simp
  next
    case (Collect attached cutoff)
    then show ?thesis using collect_ok [OF ok] go by simp
  next
    case (Load_Target w p)
    then show ?thesis
      using all loaded_target_ok [OF ok, of w p] stay pend by (auto split: sum.split simp del: pend_ok.simps)
  next
    case (Resolve_Session w su p k i)
    show ?thesis
    proof (cases "Target_Loaded w su p \<in> set q \<and> ensure_session_in_worktree k i w db = None")
      case True
      then have "pend_ok db (Claim_Checked w su p k i)"
        using pended [of "Target_Loaded w su p"] resolved_session_ok [OF ok] by auto
      then show ?thesis using True stay rest [OF env_grows_refl] by (simp add: Resolve_Session del: pend_ok.simps)
    qed (use all Resolve_Session in auto)
  next
    case (Write_Claim w su p k i)
    show ?thesis
    proof (cases "Claim_Checked w su p k i \<in> set q")
      case True
      obtain answer d where c: "claim_pane_session now p k i db = (answer, d)" by fastforce
      note w = written_claim_ok [OF ok pended [OF True] c]
      have "pend_ok d (Focus_Checked w (Some su) (Some p))"
        using pend_ok_grows [OF pended [OF True] w(2)] by simp
      then show ?thesis
        using True w(1) rest [OF w(2)] by (simp add: Write_Claim write_claim_def c requests_ok_def Let_def del: pend_ok.simps)
    qed (use all Write_Claim in simp)
  next
    case (Check_Focus w s p)
    then show ?thesis using all checked_focus_ok [OF ok, of w s p] stay pend by (auto simp del: pend_ok.simps)
  next
    case (Write_Focus w s p)
    show ?thesis
    proof (cases "Focus_Checked w s p \<in> set q")
      case True
      note w = written_focus_ok [OF ok pended [OF True], of now]
      show ?thesis
        using True w ok rest [OF env_grows_refl] rest
        by (cases "set_environment_focus now w s p db") (auto simp: Write_Focus or_else_def requests_ok_def)
    qed (use all Write_Focus in simp)
  qed
qed

lemma no_env_ok: "requests_ok (no_env, [])"
  by (simp add: requests_ok_def env_ok_def projects_ok_def loosely_ok_def tables_ok_def layouts_ok_def focus_ok_def
      bindings_ok_def complete_def session_table_def no_env_def tab_empty_def tab_wf_def split: session_kind.split)

lemma env_after_ok: "requests_ok (env_after events)"
proof (induction events rule: rev_induct)
  case Nil
  then show ?case by (simp add: env_after_def no_env_ok)
next
  case (snoc e events)
  have "env_after (events @ [e]) = env_act (fst e) (snd e) (env_after events)"
    by (simp add: env_after_def case_prod_unfold)
  then show ?case using snoc env_act_ok [of "fst (env_after events)" "snd (env_after events)"] by simp
qed

section \<open>The order of the surfaces\<close>

interpretation srail: ranked_rows "surface_siblings w" "set_surface_rank now" "tab_wf su_id" for w now
  unfolding surface_siblings_def [abs_def] set_surface_rank_def [abs_def] by (rule table_ranked_rows) auto

lemma surface_moved:
  assumes ok: "env_ok db" and moved: "move_surface_order now w s before db = Inr db'"
  shows "in_rank_order (surface_siblings w (surfaces db')) =
    move_before (in_rank_order (surface_siblings w (surfaces db))) s before"
proof -
  let ?s = "surface_siblings w (surfaces db)"
  note wf = env_wfs(1) [OF ok]
  have db': "surfaces db' = fold (\<lambda>(j, r). set_surface_rank now j r) (rank_writes ?s s before) (surfaces db)"
    and there: "s \<in> fst ` set ?s" "\<And>a. before = Some a \<Longrightarrow> a \<in> fst ` set ?s"
    using moved tab_get_iff [OF wf]
    by (force simp: move_surface_order_def Let_def find_surface_def surface_siblings_def
        split: option.splits if_splits)+
  show ?thesis
    using arg_cong [OF srail.moved [OF wf there], where f = "map fst"]
    by (simp add: db' in_rank_order_def Let_def)
qed

text \<open>
  The collection of the code lists the orphans first and deletes them in later calls; a claim in
  between leaves its pane with a session that is gone.
\<close>

lemma claimed_panes:
  assumes "claim_pane_session now p k i db = (Claimed, db')"
  shows "find_pane db p \<noteq> None"
    and "panes db' = tab_update pn_id p (\<lambda>r. r\<lparr>pn_kind := Some k, pn_session := Some i, pn_updated := now\<rparr>)
      ((panes db)\<lparr>rows := map (\<lambda>r. if holds_session k i r
         then r\<lparr>pn_kind := None, pn_session := None, pn_updated := now\<rparr> else r) (rows (panes db))\<rparr>)"
proof -
  show found: "find_pane db p \<noteq> None"
    using assms unfolding claim_pane_session_def by (cases "find_pane db p") simp_all
  have there: "tab_get se_id (session_table k db) i \<noteq> None"
    using assms found unfolding claim_pane_session_def
    by (cases "tab_get se_id (session_table k db) i") simp_all
  have "db' = snd (claim_pane_session now p k i db)"
    using assms by simp
  then show "panes db' = tab_update pn_id p (\<lambda>r. r\<lparr>pn_kind := Some k, pn_session := Some i, pn_updated := now\<rparr>)
      ((panes db)\<lparr>rows := map (\<lambda>r. if holds_session k i r
         then r\<lparr>pn_kind := None, pn_session := None, pn_updated := now\<rparr> else r) (rows (panes db))\<rparr>)"
    by (simp only: claim_pane_session_def found there if_False Let_def snd_conv) simp
qed

lemma late_deletion_takes_a_bound_session:
  assumes claimed: "claim_pane_session now p k i db = (Claimed, db')"
  shows "tab_get se_id (session_table k (delete_session k i db')) i = None"
    and "list_ex (\<lambda>r. pn_id r = p \<and> holds_session k i r) (rows (panes (delete_session k i db')))"
proof -
  obtain r where r: "r \<in> set (rows (panes db))" "pn_id r = p"
    using claimed_panes(1) [OF claimed] find_key_None [of pn_id "panes db" p]
    by (auto simp: find_pane_def)
  let ?clear = "\<lambda>r. if holds_session k i r
         then r\<lparr>pn_kind := None, pn_session := None, pn_updated := now\<rparr> else r"
  let ?bind = "\<lambda>r. r\<lparr>pn_kind := Some k, pn_session := Some i, pn_updated := now\<rparr>"
  have "pn_id (?clear r) = p"
    using r(2) by simp
  then have "?bind (?clear r) \<in> set (rows (panes db'))"
    using r(1) unfolding claimed_panes(2) [OF claimed] by (force simp: tab_update_def)
  moreover have "pn_id (?bind (?clear r)) = p \<and> holds_session k i (?bind (?clear r))"
    using r(2) by (simp add: holds_session_def)
  ultimately have "list_ex (\<lambda>r. pn_id r = p \<and> holds_session k i r) (rows (panes db'))"
    unfolding list_ex_iff by (rule rev_bexI)
  then show "list_ex (\<lambda>r. pn_id r = p \<and> holds_session k i r) (rows (panes (delete_session k i db')))"
    by (simp add: delete_session_def env_simps)
  show "tab_get se_id (session_table k (delete_session k i db')) i = None"
    by (auto simp: delete_session_def env_simps find_key_None)
qed

section \<open>Properties\<close>

text \<open>
  C22: in every environment that can come about, a resize being one step, each surface's layout places exactly the panes of the
  surface, once each; its splits have two children at least, a weight for each, and weights that add
  up to one; a surface without panes has no layout.
\<close>

theorem layouts_place_the_panes: "layouts_ok (fst (env_after events))"
  using env_after_ok [of events] by (cases "env_after events") (simp add: requests_ok_def env_ok_def loosely_ok_def)


end
