(* ===== verification/Spec2Isabelle.thy ===== *)
theory Spec2Isabelle
  imports Js_Heap Engine_Properties Surface_Use Launch_Properties Structure_Properties
    Palette_Properties Checkpoint_Step Surface_Steps
begin

text \<open>
  Verification of Isagi's workflow engine, of the checkpoints it saves, of the inspection of the
  bundles it runs, of the projects and surfaces its runs are placed on, and of the command palette
  that starts them.

  \<^bold>\<open>The program.\<close> A workflow is author code: graphs of nodes joined by routers, built with
  \<^verbatim>\<open>src/packages/workflow-sdk\<close>. The runtime (\<^verbatim>\<open>src/apps/runtime/src/workflows\<close>) loads a build, keeps
  every run in a database (runs, graph invocations, executions, operations, checkpoints, an event
  log), and drives it: a driver per run reads the run's leaf execution, performs one effect
  outside the database (a node function, a wait's check, a checkpoint), and commits what it found in
  one transaction. People pause, resume, retry, cancel and dismiss runs while drivers are between
  their read and their commit; headless jobs end at any time; the process may die at any time and
  repairs the database when it starts again. \<^verbatim>\<open>src/packages/workflow-verifier\<close> decides which bundles
  are fit to load; \<^verbatim>\<open>src/apps/web/src/lib/palette\<close> is the state machine of the web UI's palette. A run
  is placed on a surface of a worktree of a project (\<^verbatim>\<open>src/apps/runtime/src/projects\<close>,
  \<^verbatim>\<open>src/apps/runtime/src/environment\<close>): a surface arranges panes, each of which may show a session.

  \<^bold>\<open>Values and author code.\<close> \<open>Prelude\<close> has property lists, row tables and the locale \<open>row_store\<close> of
  what their clients rely on. \<open>Js_Value\<close> has the values as trees with \<^verbatim>\<open>state/serializable.ts\<close> and
  \<^verbatim>\<open>state/isolation.ts\<close>; \<open>Js_Heap\<close> has the same walks over objects with identity. \<open>Author_Code\<close> is
  \<^verbatim>\<open>state/pure.ts\<close> and \<^verbatim>\<open>state/labels.ts\<close>: an author callback is a function of the model that
  returns a value or throws. \<open>Reducers\<close> is \<^verbatim>\<open>state/reducers.ts\<close> with the reducers of the SDK.
  \<open>Results\<close> is \<^verbatim>\<open>engine/results.ts\<close>; \<open>Prompts\<close> is \<^verbatim>\<open>prompt-renderer.ts\<close> with the harness tokens.

  \<^bold>\<open>The store and the pure step.\<close> \<open>Rows\<close> and \<open>Store\<close> are \<^verbatim>\<open>tables.ts\<close> and \<^verbatim>\<open>store/*.ts\<close>: one record per
  table row, one definition per store operation. \<open>Graph\<close> is \<^verbatim>\<open>structure/graph.ts\<close>. \<open>Chain\<close> is
  \<^verbatim>\<open>engine/chain.ts\<close>: computing the chain of routers, outcomes and results that follows a node, and
  applying it to the tables. The chain's loop may ask author code for ever on a graph that is not
  well formed, so it is a partial function, and \<open>Unwinding\<close> proves that it returns on every database
  that has a call stack.

  \<^bold>\<open>Drivers, controls, restart.\<close> \<open>Waits\<close> is \<^verbatim>\<open>waits/*.ts\<close>. \<open>Drive\<close> holds the commits of
  \<^verbatim>\<open>engine/drive.ts\<close> and \<^verbatim>\<open>checkpoints/step.ts\<close>; \<open>Operations\<close> those of \<^verbatim>\<open>operations/context.ts\<close> and
  \<^verbatim>\<open>operations/headless.ts\<close> with the tracked processes; \<open>Controls\<close> those of \<^verbatim>\<open>engine/launch.ts\<close>,
  \<^verbatim>\<open>engine/prepare.ts\<close>, \<^verbatim>\<open>engine/controls.ts\<close> and \<^verbatim>\<open>engine/restart.ts\<close>. \<open>Engine\<close> composes them:
  its state is the database, the drivers' phases and the processes in memory, its step relation
  interleaves driver steps, controls, headless jobs, defects and restarts in any order.

  \<^bold>\<open>Launching.\<close> \<open>Registry\<close> is \<^verbatim>\<open>structure/discovery.ts\<close> and \<^verbatim>\<open>structure/registry.ts\<close>: the ordered
  sources of workflows and the package that wins under a name. \<open>Placement\<close> is
  \<^verbatim>\<open>engine/environment/*.ts\<close>: what the \<^verbatim>\<open>placement\<close> hook may read, which source decides, and the request
  checked against live rows. \<open>Launch\<close> composes them as \<^verbatim>\<open>engine/launch.ts\<close> and \<^verbatim>\<open>engine/builds.ts\<close> do,
  down to the transaction of \<open>Controls\<close>; what other domains answer may change from one read to the
  next. \<open>Launch_Properties\<close> states what a launch that returns has created and that a refused one
  created nothing, \<open>Surface_Use\<close> that no two runs of a reachable state share a surface.

  \<^bold>\<open>Projects and surfaces.\<close> \<open>Sibling_Order\<close> is \<^verbatim>\<open>platform/persistence/sibling-order.ts\<close>; its locale
  \<open>ranked_rows\<close> shows that writing the compacted ranks shows the list in the order asked for, and is
  interpreted on projects, worktrees and surfaces. \<open>Projects\<close> is \<^verbatim>\<open>projects/repository.ts\<close>, one
  definition per transaction, and \<open>Project_Order\<close> what any sequence of them keeps: the constraints of
  the schema and the order the user gave. \<open>Pane_Layout\<close> is \<^verbatim>\<open>environment/surfaces/layout.ts\<close>, over
  rational weights rounded to millionths as the code rounds them. \<open>Surfaces\<close> has the rows of
  \<^verbatim>\<open>environment/tables.ts\<close> with what the schema deletes or clears, the transactions of
  \<^verbatim>\<open>environment/surfaces/repository.ts\<close>, the checks of \<^verbatim>\<open>service.ts\<close> and the collection of sessions.
  \<open>Surface_Invariant\<close> shows what each transaction keeps; \<open>Surface_Steps\<close> interleaves them with requests
  that stand between a check and the write it allows. What has been checked stays true since no row
  changes its parent and no key is used twice. Two pairs of calls are one step there although
  other calls can come in between: the resize of a split, and a collection of sessions. The
  launch's own view of worktrees and surfaces is in \<open>Placement\<close>.

  \<^bold>\<open>Specification and refinement.\<close> \<open>Spine\<close> abstracts a run's rows to a call stack and shows each store
  operation as a stack operation. \<open>Run_Machine\<close> is the machine on a run's status and stack;
  \<open>Commit_Routing\<close>, \<open>Commit_Moves\<close>, \<open>Control_Moves\<close> and \<open>Cancel_Restart\<close> show every commit to be one
  of its moves; \<open>Run_Invariant\<close> and \<open>Engine_Invariant\<close> keep the shape of every run and the claim a
  driver has on its leaf over every interleaving. \<open>History\<close> has the locales of what a relation
  between databases needs to be kept by every commit; \<open>Engine_History\<close> interprets them for the
  append-only history and the write-once results. \<open>Headless_Jobs\<close> keeps running jobs owned.
  \<open>Fixture\<close> is a concrete run evaluated through every phase, and \<open>Engine_Properties\<close> states the
  engine's properties over every reachable state, each applied to that run.

  \<^bold>\<open>Bundles.\<close> \<open>Descriptors\<close> has the descriptor types and \<^verbatim>\<open>structure/reload.ts\<close>. \<open>Structure\<close> is
  \<^verbatim>\<open>packages/workflow-verifier/src/structure.ts\<close> over object graphs with identity. \<open>Containment\<close>
  proves the collection of graphs exact and the measured depth right; \<open>Structure_Properties\<close> shows
  what an accepted bundle satisfies and that the canonical form identifies a structure.

  \<^bold>\<open>Checkpoints.\<close> \<open>Checkpoint_Plan\<close> is \<^verbatim>\<open>checkpoints/plan.ts\<close>, \<open>Checkpoint_Files\<close>
  \<^verbatim>\<open>checkpoints/capture.ts\<close> and \<^verbatim>\<open>checkpoints/mirror.ts\<close> over directory trees, with the lemmas on trees
  in \<open>Tree_Files\<close>; \<open>Checkpoint_Copies\<close> shows that mirroring a capture leaves exactly the captured files
  in every covered place. The content store they write to is the locale \<open>saved_bytes\<close>, provided by
  \<open>Content_Store\<close> (\<^verbatim>\<open>store/content-store.ts\<close>, \<^verbatim>\<open>platform/persistence/orphan-files.ts\<close>) for a digest
  that no two byte strings in use share. \<open>Content_Collector\<close> interleaves its synchronous blocks with the
  collector's sweep, and \<open>Checkpoint_Properties\<close> states what follows. \<open>Checkpoint_Step\<close> is
  \<^verbatim>\<open>checkpoints/step.ts\<close> with the listing of \<^verbatim>\<open>store/checkpoints.ts\<close>, joined to the commits of \<open>Drive\<close>.

  \<^bold>\<open>The palette.\<close> \<open>Palette_Paths\<close> is \<^verbatim>\<open>palette/path-step.ts\<close> and \<open>Palette\<close> the reducer of
  \<^verbatim>\<open>palette/machine.ts\<close> with the effects it asks for; \<open>Palette_Properties\<close> follows a palette through any
  sequence of keys, answers and timers: an answer is applied at most once and only to the step that
  asked, and a running palette starts nothing else.

  \<^bold>\<open>Bounds and fuel.\<close> The only fuel is that of \<open>depth_of\<close>: one more than the number of collected
  graphs, enough by \<open>collected_depth\<close> since chains of an acyclic relation repeat no graph. The walk of
  \<open>descend\<close> ends by the limit of 512 graphs, the heap walks by the objects not yet visited. Numbers
  are integers within JavaScript's safe range with NaN, the infinities and minus zero apart;
  strings are lists of characters of one code unit below 256.

  \<^bold>\<open>Not modelled.\<close> What happens outside the transactions is an argument: what author code returns,
  what the agent harness and the processes answer, instants, the digest of bytes and the identity
  of a new file. The tree a checkpoint reads does not change while it is read. The wording of
  diagnostics and log lines is kept only where another component reads it. SQLite itself is its
  documented contract: a transaction is atomic, keys of \<^verbatim>\<open>autoIncrement\<close> tables are fresh and
  increasing. The processes behind sessions, attach tokens and harness adapters, the archives of
  exported checkpoints, the Git work on worktrees, the HTTP layer, the read models and the rest of the
  web UI are outside.
\<close>

end
